(* ===== verification/Dhp_Prelude.thy ===== *)
theory Dhp_Prelude
  imports Main "HOL-Library.Word"
begin

text \<open>
  What every component of the DeskHop+ model shares: the machine integers and
  enums of \<open>core/include/dhp/types.h\<close>, the wrap-around clock comparison, the
  little-endian byte codecs that \<open>frame.c\<close>, \<open>msg.c\<close>, \<open>data.c\<close>, \<open>local.c\<close> and
  \<open>auth.c\<close> each carry a private copy of, the ``first slot that matches'' loops of
  the fixed tables, and the interface locales that several components instantiate.

  A C array is a list of fixed length, a byte buffer a list of bytes, and a loop that
  returns a pointer into a table returns the index of the entry.
\<close>

unbundle bit_operations_syntax

type_synonym u8 = "8 word"
type_synonym u16 = "16 word"
type_synonym u32 = "32 word"
type_synonym u64 = "64 word"
type_synonym dhp_time_t = "32 word"
type_synonym dhp_addr_t = "16 word"
type_synonym dhp_uid_t = "64 word"

named_theorems dhp_consts
named_theorems dhp_table

section \<open>Results, ports and constants\<close>

datatype dhp_result_t =
    DHP_OK
  | DHP_ERR_INVAL
  | DHP_ERR_NOSPACE
  | DHP_ERR_CRC
  | DHP_ERR_AUTH
  | DHP_ERR_REPLAY
  | DHP_ERR_TTL
  | DHP_ERR_TRUNC
  | DHP_ERR_VERSION
  | DHP_ERR_AGAIN
  | DHP_ERR_STATE

datatype dhp_port_t = DHP_PORT_UP | DHP_PORT_DOWN | DHP_PORT_LOCAL

primrec port_index :: "dhp_port_t \<Rightarrow> nat" where
  "port_index DHP_PORT_UP = 0"
| "port_index DHP_PORT_DOWN = 1"
| "port_index DHP_PORT_LOCAL = 255"

definition DHP_PORT_COUNT :: nat where
  [dhp_consts]: "DHP_PORT_COUNT = 2"

definition DHP_MAX_BOARDS :: nat where
  [dhp_consts]: "DHP_MAX_BOARDS = 16"

definition DHP_MAX_PAYLOAD :: nat where
  [dhp_consts]: "DHP_MAX_PAYLOAD = 64"

definition DHP_ADDR_BROADCAST :: dhp_addr_t where
  [dhp_consts]: "DHP_ADDR_BROADCAST = 0xFFFF"

definition DHP_ADDR_NONE :: dhp_addr_t where
  [dhp_consts]: "DHP_ADDR_NONE = 0"

section \<open>The monotonic clock\<close>

definition dhp_time_diff :: "dhp_time_t \<Rightarrow> dhp_time_t \<Rightarrow> int" where
  "dhp_time_diff a b = sint (a - b)"

definition dhp_time_after :: "dhp_time_t \<Rightarrow> dhp_time_t \<Rightarrow> bool" where
  "dhp_time_after a b \<longleftrightarrow> 0 \<le> dhp_time_diff a b"

section \<open>Little-endian bytes\<close>

definition put16 :: "u16 \<Rightarrow> u8 list" where
  "put16 v = [ucast (v AND 0xFF), ucast (drop_bit 8 v)]"

definition get16 :: "u8 list \<Rightarrow> u16" where
  "get16 p = ucast (p ! 0) OR push_bit 8 (ucast (p ! 1))"

text \<open>The loops of \<open>put32\<close>, \<open>put64\<close> and of the MAC bytes, for any byte count.\<close>

definition put_le :: "nat \<Rightarrow> 'a::len word \<Rightarrow> u8 list" where
  "put_le n v = map (\<lambda>i. ucast (drop_bit (8 * i) v)) [0..<n]"

primrec get_le :: "nat \<Rightarrow> u8 list \<Rightarrow> 'a::len word" where
  "get_le 0 p = 0"
| "get_le (Suc i) p = get_le i p OR push_bit (8 * i) (ucast (p ! i))"

definition put32 :: "u32 \<Rightarrow> u8 list" where
  "put32 v = put_le 4 v"

definition get32 :: "u8 list \<Rightarrow> u32" where
  "get32 p = get_le 4 p"

definition put64 :: "u64 \<Rightarrow> u8 list" where
  "put64 v = put_le 8 v"

definition get64 :: "u8 list \<Rightarrow> u64" where
  "get64 p = get_le 8 p"

section \<open>Table loops\<close>

text \<open>\<open>for (i = 0; i < n; i++) if (P (t[i])) return &t[i]; return NULL;\<close>\<close>

primrec find_idx :: "('e \<Rightarrow> bool) \<Rightarrow> 'e list \<Rightarrow> nat option" where
  "find_idx P [] = None"
| "find_idx P (x # xs) = (if P x then Some 0 else map_option Suc (find_idx P xs))"

text \<open>Counting loops: \<open>if (P (t[i])) n++\<close>.\<close>

definition count_idx :: "('e \<Rightarrow> bool) \<Rightarrow> 'e list \<Rightarrow> nat" where
  "count_idx P xs = length (filter P xs)"

text \<open>
  The address tables of \<open>uhrp.c\<close>, \<open>router.c\<close> and \<open>link.c\<close> share one pattern: look the
  address up among the used entries, otherwise claim the first unused entry, otherwise
  fail because the table is full.
\<close>

definition tbl_find :: "('e \<Rightarrow> bool) \<Rightarrow> ('e \<Rightarrow> dhp_addr_t) \<Rightarrow> dhp_addr_t \<Rightarrow> 'e list \<Rightarrow> nat option" where
  "tbl_find used addr a t = find_idx (\<lambda>e. used e \<and> addr e = a) t"

definition tbl_get ::
  "('e \<Rightarrow> bool) \<Rightarrow> ('e \<Rightarrow> dhp_addr_t) \<Rightarrow> (dhp_addr_t \<Rightarrow> 'e \<Rightarrow> 'e) \<Rightarrow> dhp_addr_t \<Rightarrow> 'e list \<Rightarrow>
     nat option \<times> 'e list" where
  "tbl_get used addr claim a t =
     (case tbl_find used addr a t of
        Some i \<Rightarrow> (Some i, t)
      | None \<Rightarrow>
          (case find_idx (\<lambda>e. \<not> used e) t of
             Some i \<Rightarrow> (Some i, t[i := claim a (t ! i)])
           | None \<Rightarrow> (None, t)))"

text \<open>No address is held by two used entries.\<close>

definition tbl_wf :: "('e \<Rightarrow> bool) \<Rightarrow> ('e \<Rightarrow> dhp_addr_t) \<Rightarrow> 'e list \<Rightarrow> bool" where
  "tbl_wf used addr t \<longleftrightarrow>
     (\<forall>i < length t. \<forall>j < length t.
        used (t ! i) \<and> used (t ! j) \<and> addr (t ! i) = addr (t ! j) \<longrightarrow> i = j)"

section \<open>Words and the clock\<close>

lemma sint_cases:
  fixes w :: "'a::len word"
  shows "sint w = (if uint w < 2 ^ (LENGTH('a) - 1) then uint w else uint w - 2 ^ LENGTH('a))"
proof -
  define N :: int where "N = 2 ^ (LENGTH('a) - 1)"
  have N2: "2 ^ LENGTH('a) = 2 * N" unfolding N_def
    by (metis One_nat_def Suc_pred len_gt_0 power_Suc)
  have u: "0 \<le> uint w" "uint w < 2 * N" using uint_lt2p [of w] by (simp_all add: N2)
  have "sint w = (uint w + N) mod (2 * N) - N"
    using int_word_sint [of "uint w", where 'a='a] by (simp add: N2 N_def)
  also have "(uint w + N) mod (2 * N) = (if uint w < N then uint w + N else uint w - N)"
  proof (cases "uint w < N")
    case True
    then have "(uint w + N) mod (2 * N) = uint w + N"
      by (intro mod_pos_pos_trivial) (use u in linarith)+
    with True show ?thesis by simp
  next
    case False
    have "(uint w + N) mod (2 * N) = (uint w + N - 2 * N) mod (2 * N)"
      by (rule mod_pos_geq) (use u False in auto)
    also have "\<dots> = uint w - N"
      using False u by (subst mod_pos_pos_trivial) linarith+
    finally show ?thesis using False by simp
  qed
  finally show ?thesis unfolding N2 N_def [symmetric] by simp
qed

lemma sint_nonneg_iff:
  fixes w :: "'a::len word"
  shows "0 \<le> sint w \<longleftrightarrow> uint w < 2 ^ (LENGTH('a) - 1)"
proof (cases "uint w < 2 ^ (LENGTH('a) - 1)")
  case True
  then show ?thesis using sint_cases [of w] by simp
next
  case False
  then have "sint w = uint w - 2 ^ LENGTH('a)" unfolding sint_cases [of w] by (rule if_not_P)
  then have "sint w < 0" using uint_lt2p [of w] by linarith
  with False show ?thesis by linarith
qed

lemma dhp_time_after_iff: "dhp_time_after a b \<longleftrightarrow> unat (a - b) < 2 ^ 31"
proof -
  have "dhp_time_after a b \<longleftrightarrow> uint (a - b) < 2 ^ 31"
    by (simp add: dhp_time_after_def dhp_time_diff_def sint_nonneg_iff)
  also have "\<dots> \<longleftrightarrow> unat (a - b) < 2 ^ 31"
    using of_nat_less_iff [of "unat (a - b)" "2 ^ 31", where 'a = int] by simp
  finally show ?thesis .
qed

lemma dhp_time_after_refl [simp]: "dhp_time_after t t"
  by (simp add: dhp_time_after_iff)

lemma dhp_time_after_add: "unat d < 2 ^ 31 \<Longrightarrow> dhp_time_after (t + d) t"
  by (simp add: dhp_time_after_iff)

text \<open>A deadline \<open>d\<close> ahead is not reached before it, for any delay below half the range.\<close>

lemma dhp_time_after_deadline:
  assumes "unat e < 2 ^ 31" "unat d < 2 ^ 31"
  shows "dhp_time_after (t + e) (t + d) \<longleftrightarrow> d \<le> e"
proof -
  have eq: "(t + e) - (t + d) = e - d" by simp
  show ?thesis
  proof (cases "d \<le> e")
    case True
    then have "unat (e - d) = unat e - unat d" by (simp add: unat_sub)
    with True assms show ?thesis by (simp add: dhp_time_after_iff eq)
  next
    case False
    then have "unat e < unat d" by (simp add: word_less_nat_alt word_le_nat_alt)
    then have "unat (e - d) = 2 ^ 32 + unat e - unat d"
      using assms by (simp add: unat_sub_if_size word_size)
    with False assms \<open>unat e < unat d\<close> show ?thesis by (simp add: dhp_time_after_iff eq)
  qed
qed

lemma unat_ucast_u16 [simp]: "unat (ucast (d :: u16) :: u32) = unat d"
  using unsigned_less [of d, where ?'a = nat] by (simp add: unsigned_ucast_eq take_bit_nat_eq_self)

lemma unat_ucast_u16_lt: "unat (ucast (d :: u16) :: u32) < 2 ^ 31"
  using unsigned_less [of d, where ?'a = nat] by simp

lemma dhp_time_after_delay: "dhp_time_after now (now + ucast (d :: u16)) \<longleftrightarrow> d = 0"
proof -
  have "dhp_time_after now (now + ucast d) \<longleftrightarrow> (ucast d :: u32) \<le> 0"
    using dhp_time_after_deadline [of 0 "ucast d :: u32" now] unat_ucast_u16_lt [of d] by simp
  also have "\<dots> \<longleftrightarrow> unat d = 0" by (simp only: word_le_nat_alt unat_ucast_u16) simp
  finally show ?thesis by (simp add: unat_eq_0)
qed
section \<open>Byte codec lemmas\<close>

lemma bit_get_le: "bit (get_le n p :: 'a::len word) k \<longleftrightarrow> k < LENGTH('a) \<and> k < 8 * n \<and> bit (p ! (k div 8)) (k mod 8)"
proof (induction n)
  case 0 then show ?case by simp
next
  case (Suc n)
  have "bit (p ! n) (k - 8 * n) \<and> 8*n \<le> k \<longleftrightarrow> (8*n \<le> k \<and> k < 8 * n + 8) \<and>  bit (p ! (k div 8)) (k mod 8)"
  proof (cases "8*n \<le> k \<and> k < 8*n+8")
    case True
    then obtain r where r: "k = 8*n + r" "r < 8" by (metis le_add_diff_inverse nat_add_left_cancel_less)
    then have "k div 8 = n" "k mod 8 = r" by auto
    then show ?thesis using r True by simp
  next
    case False
    then show ?thesis by (auto dest: bit_imp_le_length)
  qed
  then show ?case using Suc
    by (auto simp: bit_simps dest: bit_imp_le_length)
qed

lemma length_put_le [simp]: "length (put_le n v) = n"
  by (simp add: put_le_def)

lemma length_put16 [simp]: "length (put16 v) = 2"
  by (simp add: put16_def)

lemma length_put32 [simp]: "length (put32 v) = 4"
  by (simp add: put32_def)

lemma length_put64 [simp]: "length (put64 v) = 8"
  by (simp add: put64_def)

lemma get_le_put_le:
  "LENGTH('a) \<le> 8 * n \<Longrightarrow> get_le n (put_le n v @ r) = (v :: 'a::len word)"
  by (rule bit_word_eqI)
    (auto simp: bit_get_le put_le_def nth_append bit_simps less_mult_imp_div_less mult.commute)

lemma put_le_get_le:
  "LENGTH('a) = 8 * n \<Longrightarrow> n \<le> length p \<Longrightarrow> put_le n (get_le n p :: 'a::len word) = take n p"
  by (rule nth_equalityI)
    (auto simp: put_le_def bit_get_le bit_simps intro!: bit_word_eqI)

lemma put16_put_le: "put16 v = put_le 2 v"
proof -
  have "v AND 0xFF = take_bit 8 v"
    by (simp add: take_bit_eq_mask mask_eq_exp_minus_1)
  then have "ucast (v AND 0xFF) = (ucast v :: u8)"
    by (intro bit_word_eqI) (auto simp: bit_simps)
  then show ?thesis
    by (simp add: put16_def put_le_def eval_nat_numeral)
qed

lemma get16_get_le: "get16 p = get_le 2 p"
  by (simp add: get16_def eval_nat_numeral)

lemma get16_put16 [simp]: "get16 (put16 v @ r) = v"
  by (simp add: get16_get_le put16_put_le get_le_put_le)

lemma get32_put32 [simp]: "get32 (put32 v @ r) = v"
  by (simp add: get32_def put32_def get_le_put_le)

lemma get64_put64 [simp]: "get64 (put64 v @ r) = v"
  by (simp add: get64_def put64_def get_le_put_le)

lemma put16_get16: "2 \<le> length p \<Longrightarrow> put16 (get16 p) = take 2 p"
  by (simp add: get16_get_le put16_put_le put_le_get_le)

lemma put64_get64: "8 \<le> length p \<Longrightarrow> put64 (get64 p) = take 8 p"
  by (simp add: get64_def put64_def put_le_get_le)

lemma put32_get32: "4 \<le> length p \<Longrightarrow> put32 (get32 p) = take 4 p"
  by (simp add: get32_def put32_def put_le_get_le)

lemmas get_put_nil [simp] =
  get16_put16 [where r = "[]", simplified]
  get32_put32 [where r = "[]", simplified]
  get64_put64 [where r = "[]", simplified]

section \<open>Loop lemmas\<close>

lemma find_idx_SomeD:
  "find_idx P xs = Some i \<Longrightarrow> i < length xs \<and> P (xs ! i) \<and> (\<forall>j < i. \<not> P (xs ! j))"
proof (induction xs arbitrary: i)
  case Nil
  then show ?case by simp
next
  case (Cons x xs)
  show ?case
  proof (cases "P x")
    case True
    with Cons.prems show ?thesis by simp
  next
    case False
    with Cons.prems obtain k where "find_idx P xs = Some k" "i = Suc k"
      by auto
    with Cons.IH [of k] False show ?thesis
      by (auto simp: less_Suc_eq_0_disj)
  qed
qed

lemma list_all_update: "list_all P xs \<Longrightarrow> P x \<Longrightarrow> list_all P (xs[i := x])"
  using set_update_subset_insert [of xs i x] by (auto simp: list_all_iff)

lemma find_idx_None_iff: "find_idx P xs = None \<longleftrightarrow> (\<forall>x \<in> set xs. \<not> P x)"
  by (induction xs) auto

lemma find_idx_SomeI:
  "i < length xs \<Longrightarrow> P (xs ! i) \<Longrightarrow> (\<And>j. j < i \<Longrightarrow> \<not> P (xs ! j)) \<Longrightarrow> find_idx P xs = Some i"
proof (induction xs arbitrary: i)
  case Nil
  then show ?case by simp
next
  case (Cons x xs)
  show ?case
  proof (cases i)
    case 0
    with Cons.prems show ?thesis by simp
  next
    case (Suc k)
    with Cons.prems(3) [of 0] have "\<not> P x" by simp
    moreover have "find_idx P xs = Some k"
      using Cons.prems Suc by (intro Cons.IH) force+
    ultimately show ?thesis using Suc by simp
  qed
qed

lemma find_idx_Some_iff:
  "find_idx P xs = Some i \<longleftrightarrow> i < length xs \<and> P (xs ! i) \<and> (\<forall>j < i. \<not> P (xs ! j))"
  using find_idx_SomeD find_idx_SomeI by metis

lemma find_idx_update_same:
  "i < length xs \<Longrightarrow> P x \<longleftrightarrow> P (xs ! i) \<Longrightarrow> find_idx P (xs[i := x]) = find_idx P xs"
proof (induction xs arbitrary: i)
  case Nil
  then show ?case by simp
next
  case (Cons y ys)
  then show ?case by (cases i) auto
qed

section \<open>The address-table interface\<close>

locale addr_table =
  fixes used :: "'e \<Rightarrow> bool"
    and addr :: "'e \<Rightarrow> dhp_addr_t"
    and claim :: "dhp_addr_t \<Rightarrow> 'e \<Rightarrow> 'e"
  assumes used_claim: "used (claim a e)"
    and addr_claim: "addr (claim a e) = a"
begin

lemma find_Some:
  "tbl_find used addr a t = Some i \<Longrightarrow> i < length t \<and> used (t ! i) \<and> addr (t ! i) = a"
  by (auto simp: tbl_find_def dest: find_idx_SomeD)

lemma find_None:
  "tbl_find used addr a t = None \<longleftrightarrow> (\<forall>e \<in> set t. used e \<longrightarrow> addr e \<noteq> a)"
  by (auto simp: tbl_find_def find_idx_None_iff)

lemma find_wf:
  "tbl_wf used addr t \<Longrightarrow> i < length t \<Longrightarrow> used (t ! i) \<Longrightarrow> tbl_find used addr (addr (t ! i)) t = Some i"
  unfolding tbl_find_def tbl_wf_def by (rule find_idx_SomeI) (auto dest: less_trans)

lemma get_length: "tbl_get used addr claim a t = (r, t') \<Longrightarrow> length t' = length t"
  by (auto simp: tbl_get_def split: option.splits)

lemma get_cases:
  assumes "tbl_get used addr claim a t = (r, t')"
  obtains (found) i where "r = Some i" "t' = t" "tbl_find used addr a t = Some i"
  | (claimed) i where "r = Some i" "t' = t[i := claim a (t ! i)]" "i < length t" "\<not> used (t ! i)"
      "tbl_find used addr a t = None"
  | (full) "r = None" "t' = t" "\<forall>e \<in> set t. used e" "tbl_find used addr a t = None"
proof (cases "tbl_find used addr a t")
  case (Some i)
  with assms have "r = Some i" "t' = t" by (simp_all add: tbl_get_def)
  with Some show thesis by (intro found)
next
  case None
  show thesis
  proof (cases "find_idx (\<lambda>e. \<not> used e) t")
    case (Some i)
    with None assms have "r = Some i" "t' = t[i := claim a (t ! i)]"
      by (simp_all add: tbl_get_def)
    with None find_idx_SomeD [OF Some] show thesis by (intro claimed) auto
  next
    case full': None
    with None assms have "r = None" "t' = t" by (simp_all add: tbl_get_def)
    with None full' show thesis by (intro full) (auto simp: find_idx_None_iff)
  qed
qed

lemma get_entry:
  assumes "tbl_get used addr claim a t = (Some i, t')"
  shows "i < length t \<and> used (t' ! i) \<and> addr (t' ! i) = a"
  using assms
proof (cases rule: get_cases)
  case (found k)
  with find_Some [of a t k] show ?thesis by simp
next
  case (claimed k)
  then show ?thesis by (simp add: used_claim addr_claim)
qed simp

lemma get_frame:
  assumes "tbl_get used addr claim a t = (Some i, t')" "j \<noteq> i"
  shows "t' ! j = t ! j"
  using assms(1) by (cases rule: get_cases) (use assms(2) in auto)

lemma get_wf:
  assumes "tbl_get used addr claim a t = (r, t')" "tbl_wf used addr t"
  shows "tbl_wf used addr t'"
  using assms(1)
proof (cases rule: get_cases)
  case (claimed i)
  have "addr (t ! j) \<noteq> a" if "j < length t" "used (t ! j)" for j
    using claimed(5) that by (auto simp: find_None)
  with claimed assms(2) show ?thesis
    by (auto simp: tbl_wf_def nth_list_update used_claim addr_claim)
qed (use assms(2) in simp_all)

lemma get_find:
  assumes "tbl_get used addr claim a t = (Some i, t')"
  shows "tbl_find used addr a t' = Some i"
  using assms
proof (cases rule: get_cases)
  case (claimed k)
  have "\<not> (used (t ! j) \<and> addr (t ! j) = a)" if "j < length t" for j
    using claimed(5) that by (auto simp: find_None)
  with claimed show ?thesis
    unfolding tbl_find_def
    by (intro find_idx_SomeI) (auto simp: used_claim addr_claim)
qed auto

lemma get_find_other:
  assumes "tbl_get used addr claim a t = (r, t')" "b \<noteq> a"
  shows "tbl_find used addr b t' = tbl_find used addr b t"
  using assms(1)
proof (cases rule: get_cases)
  case (claimed i)
  then show ?thesis
    unfolding tbl_find_def using assms(2)
    by (simp add: find_idx_update_same addr_claim)
qed simp_all

lemma update_wf:
  assumes "tbl_wf used addr t" "used e \<longrightarrow> used (t ! i) \<and> addr e = addr (t ! i)"
  shows "tbl_wf used addr (t[i := e])"
  using assms unfolding tbl_wf_def
  by (cases "i < length t") (auto simp: nth_list_update list_update_beyond)

lemma update_find:
  assumes "i < length t" "used e = used (t ! i)" "addr e = addr (t ! i)"
  shows "tbl_find used addr a (t[i := e]) = tbl_find used addr a t"
  using assms unfolding tbl_find_def by (intro find_idx_update_same) auto

end

section \<open>The transition-system interface\<close>

text \<open>
  A component whose entry points are called in any order is a transition system; an
  invariant of its initial states that every entry point keeps holds after any sequence
  of calls.
\<close>

locale transition_system =
  fixes start :: "'s \<Rightarrow> bool"
    and step :: "'s \<Rightarrow> 's \<Rightarrow> bool"
    and inv :: "'s \<Rightarrow> bool"
  assumes inv_start: "start s \<Longrightarrow> inv s"
    and inv_step: "inv s \<Longrightarrow> step s t \<Longrightarrow> inv t"
begin

lemma inv_steps: "step\<^sup>*\<^sup>* s t \<Longrightarrow> inv s \<Longrightarrow> inv t"
  by (induction rule: rtranclp_induct) (auto intro: inv_step)

lemma inv_reachable: "start s \<Longrightarrow> step\<^sup>*\<^sup>* s t \<Longrightarrow> inv t"
  by (blast intro: inv_start inv_steps)

end

end
