(* ===== verification/Dhp_Integrity.thy ===== *)
theory Dhp_Integrity
  imports Dhp_Prelude
begin

text \<open>
  The two integrity primitives under every frame: the CRC of \<open>core/src/crc16.c\<close> and the
  SipHash-2-4 MAC and constant-time comparison of \<open>core/src/siphash.c\<close>. The CRC step is
  shown injective, which gives the detection of every error confined to one byte; the
  MAC is checked against the reference vectors of \<open>tests/test_siphash.c\<close>; the
  comparison is shown to be equality.
\<close>

section \<open>CRC-16/CCITT-FALSE\<close>

definition DHP_CRC16_INIT :: u16 where
  [dhp_consts]: "DHP_CRC16_INIT = 0xFFFF"

text \<open>The body of the inner loop: one bit.\<close>

definition crc16_bit :: "u16 \<Rightarrow> u16" where
  "crc16_bit crc =
     (if crc AND 0x8000 \<noteq> 0 then push_bit 1 crc XOR 0x1021 else push_bit 1 crc)"

text \<open>The body of the outer loop: one byte.\<close>

definition crc16_byte :: "u8 \<Rightarrow> u16 \<Rightarrow> u16" where
  "crc16_byte b crc = (crc16_bit ^^ 8) (crc XOR push_bit 8 (ucast b))"

definition dhp_crc16_update :: "u16 \<Rightarrow> u8 list \<Rightarrow> u16" where
  "dhp_crc16_update crc data = fold crc16_byte data crc"

definition dhp_crc16 :: "u8 list \<Rightarrow> u16" where
  "dhp_crc16 data = dhp_crc16_update DHP_CRC16_INIT data"

section \<open>SipHash-2-4\<close>

type_synonym sip_state = "u64 \<times> u64 \<times> u64 \<times> u64"

definition ROTL64 :: "u64 \<Rightarrow> nat \<Rightarrow> u64" where
  "ROTL64 x b = push_bit b x OR drop_bit (64 - b) x"

fun SIPROUND :: "sip_state \<Rightarrow> sip_state" where
  "SIPROUND (v0, v1, v2, v3) =
    (let v0 = v0 + v1;
         v1 = ROTL64 v1 13;
         v1 = v1 XOR v0;
         v0 = ROTL64 v0 32;
         v2 = v2 + v3;
         v3 = ROTL64 v3 16;
         v3 = v3 XOR v2;
         v0 = v0 + v3;
         v3 = ROTL64 v3 21;
         v3 = v3 XOR v0;
         v2 = v2 + v1;
         v1 = ROTL64 v1 17;
         v1 = v1 XOR v2;
         v2 = ROTL64 v2 32
     in (v0, v1, v2, v3))"

definition load64_le :: "u8 list \<Rightarrow> u64" where
  "load64_le p =
     ucast (p ! 0) OR push_bit 8 (ucast (p ! 1)) OR push_bit 16 (ucast (p ! 2)) OR
     push_bit 24 (ucast (p ! 3)) OR push_bit 32 (ucast (p ! 4)) OR
     push_bit 40 (ucast (p ! 5)) OR push_bit 48 (ucast (p ! 6)) OR
     push_bit 56 (ucast (p ! 7))"

text \<open>One 64-bit word absorbed: \<open>v3 ^= m; SIPROUND; SIPROUND; v0 ^= m;\<close>\<close>

fun sip_absorb :: "u64 \<Rightarrow> sip_state \<Rightarrow> sip_state" where
  "sip_absorb m (v0, v1, v2, v3) =
     (case SIPROUND (SIPROUND (v0, v1, v2, v3 XOR m)) of
        (w0, w1, w2, w3) \<Rightarrow> (w0 XOR m, w1, w2, w3))"

text \<open>The loop over the whole 8-byte blocks.\<close>

primrec sip_blocks :: "nat \<Rightarrow> u8 list \<Rightarrow> sip_state \<Rightarrow> sip_state" where
  "sip_blocks 0 p s = s"
| "sip_blocks (Suc n) p s = sip_blocks n (drop 8 p) (sip_absorb (load64_le p) s)"

text \<open>The initial state from the key, the last word, and the finalisation.\<close>

definition sip_init :: "u8 list \<Rightarrow> sip_state" where
  "sip_init key =
     (let k0 = load64_le key;
          k1 = load64_le (drop 8 key)
      in (0x736f6d6570736575 XOR k0, 0x646f72616e646f6d XOR k1,
          0x6c7967656e657261 XOR k0, 0x7465646279746573 XOR k1))"

definition sip_last :: "u8 list \<Rightarrow> u64" where
  "sip_last inp =
     push_bit 56 (of_nat (length inp)) OR
     get_le (length inp mod 8) (drop (8 * (length inp div 8)) inp)"

fun sip_finish :: "sip_state \<Rightarrow> u64" where
  "sip_finish (v0, v1, v2, v3) =
     (case (SIPROUND ^^ 4) (v0, v1, v2 XOR 0xff, v3) of
        (w0, w1, w2, w3) \<Rightarrow> w0 XOR w1 XOR w2 XOR w3)"

definition dhp_siphash24 :: "u8 list \<Rightarrow> u8 list \<Rightarrow> u64" where
  "dhp_siphash24 inp key =
     sip_finish (sip_absorb (sip_last inp)
       (sip_blocks (length inp div 8) inp (sip_init key)))"

declare SIPROUND.simps [simp del] sip_absorb.simps [simp del] sip_finish.simps [simp del]

text \<open>\<open>diff |= a[i] ^ b[i]\<close> over the whole length, no early exit.\<close>

definition dhp_ct_equal :: "u8 list \<Rightarrow> u8 list \<Rightarrow> nat \<Rightarrow> bool" where
  "dhp_ct_equal a b len =
     (fold (\<lambda>i diff. diff OR (a ! i XOR b ! i)) [0..<len] 0 = (0 :: u8))"

section \<open>Lemmas\<close>

lemma xor_zero_iff: "(x :: 'a::len word) XOR y = 0 \<longleftrightarrow> x = y"
  by (metis xor.assoc xor.left_neutral xor.right_neutral xor_self_eq)

lemma xor_right_cancel: "(x :: 'a::len word) XOR z = y XOR z \<longleftrightarrow> x = y"
  by (metis xor.assoc xor.right_neutral xor_self_eq)

lemma xor_left_cancel: "(z :: 'a::len word) XOR x = z XOR y \<longleftrightarrow> x = y"
  by (metis xor.commute xor_right_cancel)

lemma dhp_crc16_update_append:
  "dhp_crc16_update crc (xs @ ys) = dhp_crc16_update (dhp_crc16_update crc xs) ys"
  by (simp add: dhp_crc16_update_def)

lemma crc16_bit_unfold:
  "crc16_bit crc = push_bit 1 crc XOR (if bit crc 15 then 0x1021 else 0)"
proof -
  have "crc AND 0x8000 \<noteq> 0 \<longleftrightarrow> bit crc 15"
    by (simp add: bit_iff_and_push_bit_not_eq_0)
  then show ?thesis by (simp add: crc16_bit_def)
qed

lemma inj_crc16_bit: "inj crc16_bit"
proof (rule injI)
  fix x y :: u16
  assume eq: "crc16_bit x = crc16_bit y"
  have low: "bit (crc16_bit z) 0 \<longleftrightarrow> bit z 15" for z
    by (simp only: crc16_bit_unfold bit_xor_iff bit_push_bit_iff) simp
  have top: "bit x 15 \<longleftrightarrow> bit y 15"
    using eq low by metis
  with eq have shift: "push_bit 1 x = push_bit 1 y"
    unfolding crc16_bit_unfold by (simp only: xor_right_cancel)
  show "x = y"
  proof (rule bit_word_eqI)
    fix n assume n: "n < LENGTH(16)"
    show "bit x n \<longleftrightarrow> bit y n"
    proof (cases "n = 15")
      case True
      with top show ?thesis by simp
    next
      case False
      have "bit (push_bit 1 x) (Suc n) \<longleftrightarrow> bit (push_bit 1 y) (Suc n)"
        using shift by (rule arg_cong)
      with False n show ?thesis by (simp add: bit_push_bit_iff del: push_bit_Suc push_bit_of_1)
    qed
  qed
qed

lemma inj_crc16_byte: "inj (crc16_byte b)"
proof -
  have "inj (crc16_bit ^^ 8)"
    by (rule inj_fn [OF inj_crc16_bit])
  moreover have "inj (\<lambda>crc :: u16. crc XOR push_bit 8 (ucast b))"
    by (rule injI) (simp add: xor_right_cancel)
  ultimately have "inj ((crc16_bit ^^ 8) \<circ> (\<lambda>crc. crc XOR push_bit 8 (ucast b)))"
    by (rule inj_compose)
  then show ?thesis by (simp add: crc16_byte_def [abs_def] comp_def)
qed

lemma inj_dhp_crc16_update: "inj (\<lambda>crc. dhp_crc16_update crc data)"
proof (induction data)
  case Nil
  show ?case by (simp add: dhp_crc16_update_def)
next
  case (Cons b data)
  have "inj ((\<lambda>crc. dhp_crc16_update crc data) \<circ> crc16_byte b)"
    by (rule inj_compose [OF Cons inj_crc16_byte])
  then show ?case by (simp add: dhp_crc16_update_def comp_def)
qed

lemma crc16_byte_data_inj: "crc16_byte b crc = crc16_byte c crc \<Longrightarrow> b = c"
proof -
  assume "crc16_byte b crc = crc16_byte c crc"
  then have "crc XOR push_bit 8 (ucast b) = crc XOR push_bit 8 (ucast c :: u16)"
    unfolding crc16_byte_def by (rule injD [OF inj_fn [OF inj_crc16_bit]])
  then have eq: "push_bit 8 (ucast b :: u16) = push_bit 8 (ucast c)"
    by (simp add: xor_left_cancel)
  show "b = c"
  proof (rule bit_word_eqI)
    fix n assume n: "n < LENGTH(8)"
    have "bit (push_bit 8 (ucast b :: u16)) (n + 8) \<longleftrightarrow> bit (push_bit 8 (ucast c :: u16)) (n + 8)"
      using eq by simp
    with n show "bit b n \<longleftrightarrow> bit c n" by (simp add: bit_simps)
  qed
qed

lemma crc16_one_byte_error:
  assumes "b \<noteq> c"
  shows "dhp_crc16 (xs @ b # ys) \<noteq> dhp_crc16 (xs @ c # ys)"
proof
  assume "dhp_crc16 (xs @ b # ys) = dhp_crc16 (xs @ c # ys)"
  then have "dhp_crc16_update (crc16_byte b (dhp_crc16 xs)) ys =
             dhp_crc16_update (crc16_byte c (dhp_crc16 xs)) ys"
    by (simp add: dhp_crc16_def dhp_crc16_update_def)
  then have "crc16_byte b (dhp_crc16 xs) = crc16_byte c (dhp_crc16 xs)"
    by (rule injD [OF inj_dhp_crc16_update])
  then show False using assms by (auto dest: crc16_byte_data_inj)
qed

lemma ct_fold_zero_iff:
  "fold (\<lambda>i diff. diff OR (f i :: u8)) is d = 0 \<longleftrightarrow> d = 0 \<and> (\<forall>i \<in> set is. f i = 0)"
  by (induction "is" arbitrary: d) (auto simp: or_eq_0_iff)

lemma dhp_ct_equal_iff:
  "len \<le> length a \<Longrightarrow> len \<le> length b \<Longrightarrow> dhp_ct_equal a b len \<longleftrightarrow> take len a = take len b"
  by (auto simp: dhp_ct_equal_def ct_fold_zero_iff xor_zero_iff list_eq_iff_nth_eq)

section \<open>Reference vectors\<close>

lemma siphash_reference_0:
  "dhp_siphash24 [] [0, 1, 2, 3, 4, 5, 6, 7, 8, 9, 10, 11, 12, 13, 14, 15] = 0x726fdb47dd0e0e31"
  by code_simp

lemma siphash_reference_15:
  "dhp_siphash24 [0, 1, 2, 3, 4, 5, 6, 7, 8, 9, 10, 11, 12, 13, 14] [0, 1, 2, 3, 4, 5, 6, 7, 8, 9, 10, 11, 12, 13, 14, 15] = 0xa129ca6149be45e5"
proof -
  let ?inp = "[0, 1, 2, 3, 4, 5, 6, 7, 8, 9, 10, 11, 12, 13, 14] :: u8 list"
  have init: "sip_init [0, 1, 2, 3, 4, 5, 6, 7, 8, 9, 10, 11, 12, 13, 14, 15] =
      (0x7469686173716475, 0x6b617f6d656e6665, 0x6b7f62616d677361, 0x7b6b696e727e6c7b)"
    by code_simp
  have block: "sip_blocks 1 ?inp
      (0x7469686173716475, 0x6b617f6d656e6665, 0x6b7f62616d677361, 0x7b6b696e727e6c7b) =
      (0x4a017198de0a59e0, 0xd52f6f62a4f59a4, 0x634cb3577b01fd3d, 0xa5224d6f55c7d9c8)"
    by code_simp
  have last: "sip_last ?inp = 0xf0e0d0c0b0a0908"
    by code_simp
  have absorbed: "sip_absorb 0xf0e0d0c0b0a0908
      (0x4a017198de0a59e0, 0xd52f6f62a4f59a4, 0x634cb3577b01fd3d, 0xa5224d6f55c7d9c8) =
      (0x3c85b3ab6f55be51, 0x414fc3fb98efe374, 0xccf13ea527b9f4bd, 0x5293f5da84008f82)"
    by code_simp
  have finish: "sip_finish
      (0x3c85b3ab6f55be51, 0x414fc3fb98efe374, 0xccf13ea527b9f4bd, 0x5293f5da84008f82) = 0xa129ca6149be45e5"
    by code_simp
  have n: "length ?inp div 8 = 1" by simp
  show ?thesis
    unfolding dhp_siphash24_def n init block last absorbed finish by (rule refl)
qed

end
