(* ===== verification/Dhp_Frame.thy ===== *)
theory Dhp_Frame
  imports Dhp_Integrity
begin

text \<open>
  Link framing, \<open>core/src/frame.c\<close>: byte-stuffed, flag-delimited frames with a CRC over
  the whole body and a MAC over the body without its hop limit, a streaming decoder that
  resynchronises on any flag, and the in-place hop-limit update of a relaying board.

  Pointers are values: a payload pointer is an optional byte list (\<open>None\<close> for NULL), the
  decoder's \<open>body\<close> array is the list of its first \<open>body_len\<close> bytes, and a function
  that fills an output on success returns \<open>Inl\<close> the error code or \<open>Inr\<close> the output.
\<close>

section \<open>Constants and data\<close>

definition DHP_FLAG :: u8 where [dhp_consts]: "DHP_FLAG = 0x7E"
definition DHP_ESC :: u8 where [dhp_consts]: "DHP_ESC = 0x7D"
definition DHP_ESC_XOR :: u8 where [dhp_consts]: "DHP_ESC_XOR = 0x20"
definition DHP_PROTO_VERSION :: u8 where [dhp_consts]: "DHP_PROTO_VERSION = 1"
definition DHP_HDR_BYTES :: nat where [dhp_consts]: "DHP_HDR_BYTES = 9"
definition DHP_MAC_BYTES :: nat where [dhp_consts]: "DHP_MAC_BYTES = 4"
definition DHP_CRC_BYTES :: nat where [dhp_consts]: "DHP_CRC_BYTES = 2"
definition DHP_FRAME_OVERHEAD :: nat where
  [dhp_consts]: "DHP_FRAME_OVERHEAD = DHP_HDR_BYTES + DHP_MAC_BYTES + DHP_CRC_BYTES"
definition DHP_BODY_MAX :: nat where
  [dhp_consts]: "DHP_BODY_MAX = DHP_FRAME_OVERHEAD + DHP_MAX_PAYLOAD"
definition DHP_WIRE_MAX :: nat where
  [dhp_consts]: "DHP_WIRE_MAX = 2 * DHP_BODY_MAX + 2"
definition DHP_TTL_DEFAULT :: u8 where [dhp_consts]: "DHP_TTL_DEFAULT = 20"

record dhp_frame_t =
  fr_type :: u8
  fr_ttl :: u8
  fr_src :: dhp_addr_t
  fr_dst :: dhp_addr_t
  fr_seq :: u16
  fr_len :: u8
  fr_payload :: "u8 list option"
  fr_body :: "u8 list"
  fr_body_len :: u16

record dhp_framer_t =
  fm_body :: "u8 list"
  fm_in_frame :: bool
  fm_escaped :: bool
  fm_overflow :: bool
  fm_n_ok :: u32
  fm_n_crc_err :: u32
  fm_n_auth_err :: u32
  fm_n_overflow :: u32

text \<open>The bytes a frame carries: \<open>len\<close> bytes behind a non-null payload pointer.\<close>

definition frame_bytes :: "dhp_frame_t \<Rightarrow> u8 list" where
  "frame_bytes f = (case fr_payload f of None \<Rightarrow> [] | Some p \<Rightarrow> take (unat (fr_len f)) p)"

section \<open>MAC and encoding\<close>

definition mac_compute :: "u8 list \<Rightarrow> nat \<Rightarrow> u8 list \<Rightarrow> u64" where
  "mac_compute body covered_len key =
     dhp_siphash24 (body ! 0 # take (covered_len - 2) (drop 2 body)) key"

definition dhp_frame_mac_valid :: "u8 list \<Rightarrow> u8 list \<Rightarrow> bool" where
  "dhp_frame_mac_valid body key =
     (if length body < DHP_FRAME_OVERHEAD then False
      else
        let covered = length body - DHP_MAC_BYTES - DHP_CRC_BYTES;
            want_bytes = put_le DHP_MAC_BYTES (mac_compute body covered key)
        in dhp_ct_equal want_bytes (drop covered body) DHP_MAC_BYTES)"

definition emit :: "nat \<Rightarrow> u8 \<Rightarrow> u8 list \<Rightarrow> dhp_result_t + u8 list" where
  "emit cap b out =
     (if b = DHP_FLAG \<or> b = DHP_ESC then
        (if length out + 2 > cap then Inl DHP_ERR_NOSPACE
         else Inr (out @ [DHP_ESC, b XOR DHP_ESC_XOR]))
      else
        (if length out + 1 > cap then Inl DHP_ERR_NOSPACE
         else Inr (out @ [b])))"

primrec emit_all :: "nat \<Rightarrow> u8 list \<Rightarrow> u8 list \<Rightarrow> dhp_result_t + u8 list" where
  "emit_all cap [] out = Inr out"
| "emit_all cap (b # bs) out =
     (case emit cap b out of Inl e \<Rightarrow> Inl e | Inr out' \<Rightarrow> emit_all cap bs out')"

text \<open>The nine header bytes, then the body before stuffing.\<close>

definition frame_header :: "dhp_frame_t \<Rightarrow> u8 list" where
  "frame_header f =
     [push_bit 4 DHP_PROTO_VERSION OR fr_type f,
      if fr_ttl f \<noteq> 0 then fr_ttl f else DHP_TTL_DEFAULT] @
     put16 (fr_src f) @ put16 (fr_dst f) @ put16 (fr_seq f) @ [fr_len f]"

definition with_crc :: "u8 list \<Rightarrow> u8 list" where
  "with_crc body = body @ put16 (dhp_crc16 body)"

definition frame_body :: "dhp_frame_t \<Rightarrow> u8 list \<Rightarrow> u8 list" where
  "frame_body f key =
     (let covered = frame_header f @ frame_bytes f;
          mac = mac_compute covered (length covered) key
      in with_crc (covered @ put_le DHP_MAC_BYTES mac))"

definition dhp_frame_encode :: "dhp_frame_t \<Rightarrow> u8 list \<Rightarrow> nat \<Rightarrow> dhp_result_t + u8 list" where
  "dhp_frame_encode f key out_cap =
     (if unat (fr_len f) > DHP_MAX_PAYLOAD then Inl DHP_ERR_INVAL
      else if fr_type f > 0x0F then Inl DHP_ERR_INVAL
      else if fr_len f \<noteq> 0 \<and> fr_payload f = None then Inl DHP_ERR_INVAL
      else if out_cap < 1 then Inl DHP_ERR_NOSPACE
      else
        (case emit_all out_cap (frame_body f key) [DHP_FLAG] of
           Inl e \<Rightarrow> Inl e
         | Inr out \<Rightarrow>
             if length out + 1 > out_cap then Inl DHP_ERR_NOSPACE
             else Inr (out @ [DHP_FLAG])))"

section \<open>The streaming decoder\<close>

definition dhp_framer_init :: dhp_framer_t where
  "dhp_framer_init =
     \<lparr>fm_body = [], fm_in_frame = False, fm_escaped = False, fm_overflow = False,
      fm_n_ok = 0, fm_n_crc_err = 0, fm_n_auth_err = 0, fm_n_overflow = 0\<rparr>"

text \<open>What \<open>finish\<close> writes to \<open>*out\<close> for an accepted body.\<close>

definition frame_of_body :: "u8 list \<Rightarrow> dhp_frame_t" where
  "frame_of_body body =
     (let len = body ! 8
      in \<lparr>fr_type = body ! 0 AND 0x0F,
          fr_ttl = body ! 1,
          fr_src = get16 (drop 2 body),
          fr_dst = get16 (drop 4 body),
          fr_seq = get16 (drop 6 body),
          fr_len = len,
          fr_payload = (if len \<noteq> 0 then Some (take (unat len) (drop DHP_HDR_BYTES body)) else None),
          fr_body = body,
          fr_body_len = of_nat (length body)\<rparr>)"

definition finish ::
  "dhp_framer_t \<Rightarrow> u8 list option \<Rightarrow> dhp_framer_t \<times> (dhp_result_t + dhp_frame_t)" where
  "finish fr key =
     (let body = fm_body fr;
          body_len = length body
      in if body_len < DHP_FRAME_OVERHEAD then (fr, Inl DHP_ERR_TRUNC)
         else
           let crc_off = body_len - DHP_CRC_BYTES
           in if get16 (drop crc_off body) \<noteq> dhp_crc16 (take crc_off body)
              then (fr\<lparr>fm_n_crc_err := fm_n_crc_err fr + 1\<rparr>, Inl DHP_ERR_CRC)
              else
                let len = body ! 8
                in if unat len > DHP_MAX_PAYLOAD \<or>
                      DHP_HDR_BYTES + unat len + DHP_MAC_BYTES + DHP_CRC_BYTES \<noteq> body_len
                   then (fr, Inl DHP_ERR_TRUNC)
                   else if drop_bit 4 (body ! 0) \<noteq> DHP_PROTO_VERSION
                   then (fr, Inl DHP_ERR_VERSION)
                   else if (case key of None \<Rightarrow> False | Some k \<Rightarrow> \<not> dhp_frame_mac_valid body k)
                   then (fr\<lparr>fm_n_auth_err := fm_n_auth_err fr + 1\<rparr>, Inl DHP_ERR_AUTH)
                   else (fr\<lparr>fm_n_ok := fm_n_ok fr + 1\<rparr>, Inr (frame_of_body body)))"

definition dhp_framer_push ::
  "dhp_framer_t \<Rightarrow> u8 \<Rightarrow> u8 list option \<Rightarrow> dhp_framer_t \<times> (dhp_result_t + dhp_frame_t)" where
  "dhp_framer_push fr byte key =
     (if byte = DHP_FLAG then
        let (fr1, r) =
              (if fm_in_frame fr \<and> \<not> fm_overflow fr \<and> length (fm_body fr) > 0 then finish fr key
               else if fm_overflow fr
               then (fr\<lparr>fm_n_overflow := fm_n_overflow fr + 1\<rparr>, Inl DHP_ERR_AGAIN)
               else (fr, Inl DHP_ERR_AGAIN))
        in (fr1\<lparr>fm_in_frame := True, fm_escaped := False, fm_overflow := False, fm_body := []\<rparr>, r)
      else if \<not> fm_in_frame fr \<or> fm_overflow fr then (fr, Inl DHP_ERR_AGAIN)
      else if byte = DHP_ESC then (fr\<lparr>fm_escaped := True\<rparr>, Inl DHP_ERR_AGAIN)
      else
        let (fr, byte) =
              (if fm_escaped fr then (fr\<lparr>fm_escaped := False\<rparr>, byte XOR DHP_ESC_XOR)
               else (fr, byte))
        in if length (fm_body fr) \<ge> DHP_BODY_MAX then (fr\<lparr>fm_overflow := True\<rparr>, Inl DHP_ERR_AGAIN)
           else (fr\<lparr>fm_body := fm_body fr @ [byte]\<rparr>, Inl DHP_ERR_AGAIN))"

text \<open>Feeding a sequence of bytes, with the result of every push.\<close>

primrec framer_run ::
  "u8 list option \<Rightarrow> u8 list \<Rightarrow> dhp_framer_t \<Rightarrow> dhp_framer_t \<times> (dhp_result_t + dhp_frame_t) list" where
  "framer_run key [] fr = (fr, [])"
| "framer_run key (b # bs) fr =
     (let (fr1, r) = dhp_framer_push fr b key;
          (fr2, rs) = framer_run key bs fr1
      in (fr2, r # rs))"

definition dhp_frame_forward_prepare :: "u8 list \<Rightarrow> dhp_result_t + u8 list" where
  "dhp_frame_forward_prepare body =
     (if length body < DHP_FRAME_OVERHEAD then Inl DHP_ERR_TRUNC
      else if body ! 1 = 0 then Inl DHP_ERR_TTL
      else
        let body = body[1 := body ! 1 - 1]
        in if body ! 1 = 0 then Inl DHP_ERR_TTL
           else Inr (with_crc (take (length body - DHP_CRC_BYTES) body)))"

section \<open>Stuffing\<close>

definition stuff_byte :: "u8 \<Rightarrow> u8 list" where
  "stuff_byte b = (if b = DHP_FLAG \<or> b = DHP_ESC then [DHP_ESC, b XOR DHP_ESC_XOR] else [b])"

definition stuff :: "u8 list \<Rightarrow> u8 list" where
  "stuff bs = concat (map stuff_byte bs)"

lemma stuff_simps [simp]:
  "stuff [] = []" "stuff (b # bs) = stuff_byte b @ stuff bs" "stuff (xs @ ys) = stuff xs @ stuff ys"
  by (simp_all add: stuff_def)

lemma stuff_byte_len: "1 \<le> length (stuff_byte b) \<and> length (stuff_byte b) \<le> 2"
  by (simp add: stuff_byte_def)

lemma length_stuff_le: "length (stuff bs) \<le> 2 * length bs"
proof (induction bs)
  case (Cons b bs)
  then show ?case using stuff_byte_len [of b] by simp
qed simp

lemma stuff_no_flag: "DHP_FLAG \<notin> set (stuff bs)"
  by (induction bs) (auto simp: stuff_byte_def dhp_consts split: if_splits)

lemma emit_stuff:
  "emit cap b out =
     (if length out + length (stuff_byte b) > cap then Inl DHP_ERR_NOSPACE
      else Inr (out @ stuff_byte b))"
  by (simp add: emit_def stuff_byte_def)

lemma emit_all_stuff:
  "emit_all cap bs out =
     (if bs \<noteq> [] \<and> length out + length (stuff bs) > cap then Inl DHP_ERR_NOSPACE
      else Inr (out @ stuff bs))"
proof (induction bs arbitrary: out)
  case Nil
  show ?case by simp
next
  case (Cons b bs)
  show ?case by (cases "bs = []") (auto simp: Cons emit_stuff)
qed

text \<open>Encoding, as one equation: the guards of the source, then the stuffed body.\<close>

definition frame_ok :: "dhp_frame_t \<Rightarrow> bool" where
  "frame_ok f \<longleftrightarrow>
     unat (fr_len f) \<le> DHP_MAX_PAYLOAD \<and> fr_type f \<le> 0x0F \<and>
     (case fr_payload f of None \<Rightarrow> fr_len f = 0 | Some p \<Rightarrow> unat (fr_len f) \<le> length p)"

definition frame_wire :: "u8 list \<Rightarrow> u8 list" where
  "frame_wire body = DHP_FLAG # stuff body @ [DHP_FLAG]"

lemma frame_bytes_length: "frame_ok f \<Longrightarrow> length (frame_bytes f) = unat (fr_len f)"
  by (auto simp: frame_ok_def frame_bytes_def split: option.splits)

lemma length_frame_header [simp]: "length (frame_header f) = 9"
  by (simp add: frame_header_def)

lemma length_with_crc [simp]: "length (with_crc b) = length b + 2"
  by (simp add: with_crc_def)

lemma length_frame_body: "frame_ok f \<Longrightarrow> length (frame_body f key) = 15 + unat (fr_len f)"
  by (simp add: frame_body_def Let_def frame_bytes_length dhp_consts)

lemma length_frame_body_le: "frame_ok f \<Longrightarrow> length (frame_body f key) \<le> DHP_BODY_MAX"
  by (simp add: length_frame_body) (simp add: frame_ok_def dhp_consts)

lemma dhp_frame_encode_eq:
  assumes "frame_ok f" "DHP_WIRE_MAX \<le> cap"
  shows "dhp_frame_encode f key cap = Inr (frame_wire (frame_body f key))"
proof -
  have "length (frame_wire (frame_body f key)) \<le> 2 * DHP_BODY_MAX + 2"
    using length_stuff_le [of "frame_body f key"] length_frame_body_le [OF assms(1), of key]
    by (simp add: frame_wire_def)
  then have "length (stuff (frame_body f key)) + 2 \<le> cap"
    using assms(2) by (simp add: frame_wire_def DHP_WIRE_MAX_def)
  then show ?thesis
    using assms(1)
    by (auto simp: dhp_frame_encode_def frame_ok_def frame_wire_def emit_all_stuff
        split: option.splits)
qed

lemma dhp_frame_encode_Inr:
  "dhp_frame_encode f key cap = Inr w \<Longrightarrow> w = frame_wire (frame_body f key)"
  by (auto simp: dhp_frame_encode_def frame_wire_def emit_all_stuff split: if_splits sum.splits)

section \<open>Decoding what was encoded\<close>

lemma framer_run_append:
  "framer_run key (xs @ ys) fr =
     (let (fr1, rs1) = framer_run key xs fr; (fr2, rs2) = framer_run key ys fr1 in (fr2, rs1 @ rs2))"
  by (induction xs arbitrary: fr) (auto simp: Let_def split: prod.splits)

text \<open>The state a flag leaves the decoder in, with some bytes of the next body received.\<close>

definition synced :: "dhp_framer_t \<Rightarrow> bool" where
  "synced fr \<longleftrightarrow> fm_in_frame fr \<and> \<not> fm_escaped fr \<and> \<not> fm_overflow fr"

lemma push_flag_synced:
  "dhp_framer_push fr DHP_FLAG key = (fr', r) \<Longrightarrow> synced fr' \<and> fm_body fr' = []"
  by (auto simp: dhp_framer_push_def synced_def Let_def split: prod.splits if_splits)

lemma framer_run_stuff_byte:
  assumes "synced fr" "length (fm_body fr) < DHP_BODY_MAX"
  shows "framer_run key (stuff_byte b) fr =
           (fr\<lparr>fm_body := fm_body fr @ [b]\<rparr>,
            replicate (length (stuff_byte b)) (Inl DHP_ERR_AGAIN))"
proof -
  have "fr\<lparr>fm_escaped := False, fm_body := x\<rparr> = fr\<lparr>fm_body := x\<rparr>" for x
    using assms(1) by (simp add: synced_def)
  then show ?thesis
    using assms by (auto simp: stuff_byte_def dhp_framer_push_def synced_def dhp_consts)
qed

lemma framer_run_stuff:
  assumes "synced fr" "length (fm_body fr) + length bs \<le> DHP_BODY_MAX"
  shows "framer_run key (stuff bs) fr =
           (fr\<lparr>fm_body := fm_body fr @ bs\<rparr>, replicate (length (stuff bs)) (Inl DHP_ERR_AGAIN))"
  using assms
proof (induction bs arbitrary: fr)
  case Nil
  then show ?case by simp
next
  case (Cons b bs)
  let ?fr = "fr\<lparr>fm_body := fm_body fr @ [b]\<rparr>"
  have "synced ?fr" using Cons.prems(1) by (simp add: synced_def)
  moreover have "length (fm_body ?fr) + length bs \<le> DHP_BODY_MAX"
    using Cons.prems(2) by simp
  ultimately have "framer_run key (stuff bs) ?fr =
      (?fr\<lparr>fm_body := fm_body ?fr @ bs\<rparr>, replicate (length (stuff bs)) (Inl DHP_ERR_AGAIN))"
    by (rule Cons.IH)
  with Cons.prems show ?case
    by (simp add: framer_run_append framer_run_stuff_byte replicate_add)
qed

text \<open>
  A whole wire image, fed to a decoder in any state: the first flag closes whatever was
  pending, every byte up to the closing flag asks for more, and the closing flag
  validates exactly the body.
\<close>

lemma framer_run_wire:
  assumes "length body \<le> DHP_BODY_MAX" "body \<noteq> []"
    and first: "dhp_framer_push fr DHP_FLAG key = (fr1, r1)"
    and fin: "finish (fr1\<lparr>fm_body := body\<rparr>) key = (fr2, r2)"
  shows "framer_run key (frame_wire body) fr =
           (fr2\<lparr>fm_in_frame := True, fm_escaped := False, fm_overflow := False, fm_body := []\<rparr>,
            r1 # replicate (length (stuff body)) (Inl DHP_ERR_AGAIN) @ [r2])"
proof -
  from push_flag_synced [OF first] have fr1: "synced fr1" "fm_body fr1 = []" by auto
  with assms(1) have run: "framer_run key (stuff body) fr1 =
      (fr1\<lparr>fm_body := body\<rparr>, replicate (length (stuff body)) (Inl DHP_ERR_AGAIN))"
    by (simp add: framer_run_stuff)
  have last: "dhp_framer_push (fr1\<lparr>fm_body := body\<rparr>) DHP_FLAG key =
      (fr2\<lparr>fm_in_frame := True, fm_escaped := False, fm_overflow := False, fm_body := []\<rparr>, r2)"
    using fr1 assms(2) fin by (simp add: dhp_framer_push_def synced_def)
  show ?thesis
    by (simp add: frame_wire_def first framer_run_append run last)
qed

section \<open>Validating a body\<close>

definition crc_ok :: "u8 list \<Rightarrow> bool" where
  "crc_ok body \<longleftrightarrow>
     get16 (drop (length body - DHP_CRC_BYTES) body) = dhp_crc16 (take (length body - DHP_CRC_BYTES) body)"

definition shape_ok :: "u8 list \<Rightarrow> bool" where
  "shape_ok body \<longleftrightarrow>
     unat (body ! 8) \<le> DHP_MAX_PAYLOAD \<and>
     DHP_HDR_BYTES + unat (body ! 8) + DHP_MAC_BYTES + DHP_CRC_BYTES = length body \<and>
     drop_bit 4 (body ! 0) = DHP_PROTO_VERSION"

lemma shape_ok_length: "shape_ok body \<Longrightarrow> 15 \<le> length body \<and> length body \<le> 79"
  by (auto simp: shape_ok_def dhp_consts)

lemma finish_accept_iff:
  "(\<exists>fr' g. finish fr key = (fr', Inr g)) \<longleftrightarrow>
     crc_ok (fm_body fr) \<and> shape_ok (fm_body fr) \<and>
     (case key of None \<Rightarrow> True | Some k \<Rightarrow> dhp_frame_mac_valid (fm_body fr) k)"
proof -
  have "\<not> length (fm_body fr) < DHP_FRAME_OVERHEAD" if "shape_ok (fm_body fr)"
    using shape_ok_length [OF that] by (simp add: dhp_consts)
  then show ?thesis
    by (auto simp: finish_def Let_def crc_ok_def shape_ok_def split: option.splits if_splits)
qed

lemma finish_Inr:
  "finish fr key = (fr', Inr g) \<Longrightarrow>
     g = frame_of_body (fm_body fr) \<and> fr' = fr\<lparr>fm_n_ok := fm_n_ok fr + 1\<rparr>"
  by (auto simp: finish_def Let_def split: if_splits option.splits)

lemma finish_accept:
  assumes "crc_ok (fm_body fr)" "shape_ok (fm_body fr)"
    "\<And>k. key = Some k \<Longrightarrow> dhp_frame_mac_valid (fm_body fr) k"
  shows "finish fr key = (fr\<lparr>fm_n_ok := fm_n_ok fr + 1\<rparr>, Inr (frame_of_body (fm_body fr)))"
proof -
  have "\<exists>fr' g. finish fr key = (fr', Inr g)"
    unfolding finish_accept_iff using assms by (auto split: option.splits)
  then show ?thesis using finish_Inr by blast
qed

lemma crc_ok_with_crc: "crc_ok (with_crc b)"
  by (simp add: crc_ok_def with_crc_def dhp_consts)

lemma with_crc_nth: "i < length b \<Longrightarrow> with_crc b ! i = b ! i"
  by (simp add: with_crc_def nth_append)

lemma mac_compute_prefix:
  "2 \<le> n \<Longrightarrow> n \<le> length xs \<Longrightarrow> mac_compute (xs @ ys) n key = mac_compute xs n key"
  by (cases xs) (simp_all add: mac_compute_def nth_append)

lemma mac_valid_iff:
  "15 \<le> length body \<Longrightarrow>
     dhp_frame_mac_valid body key \<longleftrightarrow>
     put_le 4 (mac_compute body (length body - 6) key) = take 4 (drop (length body - 6) body)"
  by (simp add: dhp_frame_mac_valid_def Let_def dhp_ct_equal_iff dhp_consts)

lemma frame_body_mac_valid:
  assumes "frame_ok f"
  shows "dhp_frame_mac_valid (frame_body f key) key"
proof -
  let ?c = "frame_header f @ frame_bytes f"
  let ?m = "put_le 4 (mac_compute ?c (length ?c) key)"
  have body: "frame_body f key = ?c @ ?m @ put16 (dhp_crc16 (?c @ ?m))"
    by (simp add: frame_body_def Let_def with_crc_def DHP_MAC_BYTES_def)
  have len: "length (frame_body f key) - 6 = length ?c" unfolding body by simp
  have "mac_compute (frame_body f key) (length ?c) key = mac_compute ?c (length ?c) key"
    unfolding body by (rule mac_compute_prefix) simp_all
  then have "put_le 4 (mac_compute (frame_body f key) (length (frame_body f key) - 6) key) =
        take 4 (drop (length (frame_body f key) - 6) (frame_body f key))"
    unfolding len by (simp add: body)
  then show ?thesis
    using length_frame_body [OF assms, of key] by (subst mac_valid_iff) simp_all
qed

lemma nibble_cases: "(t :: u8) \<le> 0x0F \<Longrightarrow> t \<in> of_nat ` {0..<16}"
proof -
  assume "t \<le> 0x0F"
  then have "unat t < 16" by (simp add: word_le_nat_alt)
  then have "t = of_nat (unat t) \<and> unat t \<in> {0..<16}" by simp
  then show ?thesis by blast
qed

lemma ver_type_byte:
  assumes "t \<le> 0x0F"
  shows "(push_bit 4 DHP_PROTO_VERSION OR t) AND 0x0F = t"
    and "drop_bit 4 (push_bit 4 DHP_PROTO_VERSION OR t) = DHP_PROTO_VERSION"
  using nibble_cases [OF assms] by (auto simp: dhp_consts upt_rec atLeastLessThan_upt)

lemma frame_body_nth:
  assumes "frame_ok f"
  shows "frame_body f key ! 0 = push_bit 4 DHP_PROTO_VERSION OR fr_type f"
    and "frame_body f key ! 1 = (if fr_ttl f \<noteq> 0 then fr_ttl f else DHP_TTL_DEFAULT)"
    and "get16 (drop 2 (frame_body f key)) = fr_src f"
    and "get16 (drop 4 (frame_body f key)) = fr_dst f"
    and "get16 (drop 6 (frame_body f key)) = fr_seq f"
    and "frame_body f key ! 8 = fr_len f"
    and "take (unat (fr_len f)) (drop 9 (frame_body f key)) = frame_bytes f"
  by (simp_all add: frame_body_def Let_def with_crc_def frame_header_def nth_append
      frame_bytes_length [OF assms])

lemma frame_body_shape:
  assumes "frame_ok f"
  shows "shape_ok (frame_body f key)"
proof -
  have "fr_type f \<le> 0x0F" "unat (fr_len f) \<le> DHP_MAX_PAYLOAD"
    using assms by (simp_all add: frame_ok_def)
  then show ?thesis
    unfolding shape_ok_def frame_body_nth [OF assms] length_frame_body [OF assms]
    using ver_type_byte(2) by (simp only:) (simp add: dhp_consts)
qed

lemma frame_body_crc: "crc_ok (frame_body f key)"
  by (simp add: frame_body_def Let_def crc_ok_with_crc)

text \<open>The fields a receiver acts on, all but the hop limit.\<close>

definition same_message :: "dhp_frame_t \<Rightarrow> dhp_frame_t \<Rightarrow> bool" where
  "same_message f g \<longleftrightarrow>
     fr_type g = fr_type f \<and> fr_src g = fr_src f \<and> fr_dst g = fr_dst f \<and>
     fr_seq g = fr_seq f \<and> fr_len g = fr_len f \<and> frame_bytes g = frame_bytes f"

lemma frame_of_body_sel [simp]:
  "fr_type (frame_of_body b) = b ! 0 AND 0x0F"
  "fr_ttl (frame_of_body b) = b ! 1"
  "fr_src (frame_of_body b) = get16 (drop 2 b)"
  "fr_dst (frame_of_body b) = get16 (drop 4 b)"
  "fr_seq (frame_of_body b) = get16 (drop 6 b)"
  "fr_len (frame_of_body b) = b ! 8"
  "fr_body (frame_of_body b) = b"
  "fr_body_len (frame_of_body b) = of_nat (length b)"
  by (simp_all add: frame_of_body_def Let_def)

lemma frame_bytes_of_body [simp]: "frame_bytes (frame_of_body b) = take (unat (b ! 8)) (drop 9 b)"
  by (simp add: frame_of_body_def Let_def frame_bytes_def DHP_HDR_BYTES_def)

lemma frame_of_body_frame_body:
  assumes "frame_ok f"
  shows "same_message f (frame_of_body (frame_body f key))"
    and "fr_ttl (frame_of_body (frame_body f key)) =
           (if fr_ttl f \<noteq> 0 then fr_ttl f else DHP_TTL_DEFAULT)"
proof -
  have "fr_type f \<le> 0x0F" using assms by (simp add: frame_ok_def)
  then show "same_message f (frame_of_body (frame_body f key))"
    using frame_body_nth [OF assms, of key] by (simp add: same_message_def ver_type_byte)
  show "fr_ttl (frame_of_body (frame_body f key)) =
           (if fr_ttl f \<noteq> 0 then fr_ttl f else DHP_TTL_DEFAULT)"
    using frame_body_nth(2) [OF assms, of key] by simp
qed

section \<open>Forwarding\<close>

lemma forward_prepare_Inr:
  assumes "dhp_frame_forward_prepare body = Inr body'"
  shows "15 \<le> length body" "1 < body ! 1"
    "body' = with_crc (take (length body - 2) (body[1 := body ! 1 - 1]))"
proof -
  have *: "15 \<le> length body" "body ! 1 \<noteq> 0" "body ! 1 - 1 \<noteq> 0"
      "body' = with_crc (take (length body - 2) (body[1 := body ! 1 - 1]))"
    using assms by (auto simp: dhp_frame_forward_prepare_def Let_def dhp_consts split: if_splits)
  then show "15 \<le> length body" "body' = with_crc (take (length body - 2) (body[1 := body ! 1 - 1]))"
    by blast+
  from *(3) have "body ! 1 \<noteq> 1" by auto
  with *(2) show "1 < body ! 1" by unat_arith
qed

text \<open>Everything but the hop limit and the CRC is untouched.\<close>

lemma forward_prepare_bytes:
  assumes "dhp_frame_forward_prepare body = Inr body'"
  shows "length body' = length body" "crc_ok body'" "body' ! 1 = body ! 1 - 1"
    "body' ! 0 = body ! 0"
    "2 \<le> i \<Longrightarrow> i + n \<le> length body - 2 \<Longrightarrow> take n (drop i body') = take n (drop i body)"
proof -
  note f = forward_prepare_Inr [OF assms]
  show "length body' = length body" "crc_ok body'" "body' ! 1 = body ! 1 - 1" "body' ! 0 = body ! 0"
    using f by (auto simp: crc_ok_with_crc with_crc_nth)
  assume i: "2 \<le> i" "i + n \<le> length body - 2"
  show "take n (drop i body') = take n (drop i body)"
    using i f by (intro nth_equalityI) (auto simp: with_crc_def nth_append)
qed

lemma forward_prepare_nth:
  assumes "dhp_frame_forward_prepare body = Inr body'" "2 \<le> i" "i < length body - 2"
  shows "body' ! i = body ! i"
  using forward_prepare_Inr [OF assms(1)] assms(2,3) by (simp add: with_crc_def nth_append)

lemma forward_prepare_get16:
  assumes "dhp_frame_forward_prepare body = Inr body'" "2 \<le> i" "i + 2 \<le> length body - 2"
  shows "get16 (drop i body') = get16 (drop i body)"
  using forward_prepare_nth [OF assms(1), of i] forward_prepare_nth [OF assms(1), of "Suc i"]
    forward_prepare_bytes(1) [OF assms(1)] assms(2,3)
  by (simp add: get16_def)

lemma forward_prepare_mac:
  assumes "dhp_frame_forward_prepare body = Inr body'"
  shows "dhp_frame_mac_valid body' key \<longleftrightarrow> dhp_frame_mac_valid body key"
proof -
  note f = forward_prepare_Inr [OF assms] and b = forward_prepare_bytes [OF assms]
  have "take (length body - 8) (drop 2 body') = take (length body - 8) (drop 2 body)"
    by (rule b(5)) (use f in simp_all)
  moreover have "take 4 (drop (length body - 6) body') = take 4 (drop (length body - 6) body)"
    by (rule b(5)) (use f in simp_all)
  ultimately show ?thesis
    using f(1) b(1,4) by (simp add: mac_valid_iff mac_compute_def)
qed

lemma forward_prepare_frame:
  assumes "dhp_frame_forward_prepare body = Inr body'" "shape_ok body"
  shows "same_message (frame_of_body body) (frame_of_body body')" "shape_ok body'"
proof -
  note f = forward_prepare_Inr [OF assms(1)] and b = forward_prepare_bytes [OF assms(1)]
  have n: "body' ! 8 = body ! 8"
    by (rule forward_prepare_nth [OF assms(1)]) (use f in simp_all)
  have "9 + unat (body ! 8) \<le> length body - 2"
    using assms(2) by (auto simp: shape_ok_def dhp_consts)
  then have "take (unat (body ! 8)) (drop 9 body') = take (unat (body ! 8)) (drop 9 body)"
    by (intro b(5)) simp_all
  then show "same_message (frame_of_body body) (frame_of_body body')"
    using f(1) by (simp add: same_message_def n b forward_prepare_get16 [OF assms(1)])
  show "shape_ok body'"
    using assms(2) by (simp add: shape_ok_def n b)
qed

section \<open>Decoder invariants\<close>

text \<open>The body never outgrows its array, and the MAC scratch buffer of 72 bytes suffices.\<close>

definition framer_wf :: "dhp_framer_t \<Rightarrow> bool" where
  "framer_wf fr \<longleftrightarrow> length (fm_body fr) \<le> DHP_BODY_MAX"

lemma finish_body [simp]: "fm_body (fst (finish fr key)) = fm_body fr"
  by (simp add: finish_def Let_def)

lemma framer_wf_init: "framer_wf dhp_framer_init"
  by (simp add: framer_wf_def dhp_framer_init_def)

lemma framer_wf_push: "framer_wf fr \<Longrightarrow> framer_wf (fst (dhp_framer_push fr b key))"
  by (auto simp: framer_wf_def dhp_framer_push_def Let_def split: prod.splits if_splits)

lemma framer_wf_run: "framer_wf fr \<Longrightarrow> framer_wf (fst (framer_run key bs fr))"
proof (induction bs arbitrary: fr)
  case (Cons b bs)
  from Cons.prems have "framer_wf (fst (dhp_framer_push fr b key))" by (rule framer_wf_push)
  then show ?case using Cons.IH by (simp add: Let_def split_beta)
qed simp

lemma push_Inr:
  assumes "dhp_framer_push fr b key = (fr', Inr g)"
  shows "b = DHP_FLAG \<and> g = frame_of_body (fm_body fr) \<and> crc_ok (fm_body fr) \<and> shape_ok (fm_body fr) \<and>
         (case key of None \<Rightarrow> True | Some k \<Rightarrow> dhp_frame_mac_valid (fm_body fr) k)"
proof -
  have flag: "b = DHP_FLAG" and fin: "\<exists>fr1. finish fr key = (fr1, Inr g)"
    using assms by (auto simp: dhp_framer_push_def Let_def split: if_splits prod.splits)
  from fin obtain fr1 where fr1: "finish fr key = (fr1, Inr g)" by blast
  then have "crc_ok (fm_body fr) \<and> shape_ok (fm_body fr) \<and>
      (case key of None \<Rightarrow> True | Some k \<Rightarrow> dhp_frame_mac_valid (fm_body fr) k)"
    using finish_accept_iff [of fr key] by blast
  with flag fr1 finish_Inr [OF fr1] show ?thesis by simp
qed

text \<open>A change of one byte breaks the CRC, in the covered part and in the stored value alike.\<close>

lemma crc_broken_covered:
  assumes "crc_ok body" "length body = n + 2" "i < n" "c \<noteq> body ! i"
  shows "\<not> crc_ok (body[i := c])"
proof -
  have split: "take n body = take i body @ body ! i # drop (Suc i) (take n body)"
    using id_take_nth_drop [of i "take n body"] assms(2,3) by (simp add: min_absorb1)
  have split': "take n (body[i := c]) = take i body @ c # drop (Suc i) (take n body)"
    using upd_conv_take_nth_drop [of i "take n body" c] assms(2,3)
    by (simp add: take_update_swap min_absorb1)
  have "dhp_crc16 (take n (body[i := c])) \<noteq> dhp_crc16 (take n body)"
    by (subst split', subst split, rule crc16_one_byte_error) (rule assms(4))
  moreover have "drop n (body[i := c]) = drop n body" using assms(3) by simp
  ultimately show ?thesis using assms(1,2) by (simp add: crc_ok_def DHP_CRC_BYTES_def)
qed

lemma get16_inj:
  "length p = 2 \<Longrightarrow> length q = 2 \<Longrightarrow> get16 p = get16 q \<Longrightarrow> p = q"
  by (metis order_refl put16_get16 take_all)

lemma crc_broken_stored:
  assumes "crc_ok body" "length body = n + 2" "n \<le> i" "i < n + 2" "c \<noteq> body ! i"
  shows "\<not> crc_ok (body[i := c])"
proof -
  have "body[i := c] ! i \<noteq> body ! i" using assms(2,4,5) by simp
  then have "drop n (body[i := c]) \<noteq> drop n body"
    using assms(2-4) by (metis le_add_diff_inverse length_list_update nth_drop order_less_imp_le le_add1)
  then have "get16 (drop n (body[i := c])) \<noteq> get16 (drop n body)"
    using get16_inj [of "drop n (body[i := c])" "drop n body"] assms(2) by (metis add_diff_cancel_left' length_drop length_list_update)
  moreover have "take n (body[i := c]) = take n body" using assms(3) by simp
  ultimately show ?thesis
    using assms(1,2) by (metis crc_ok_def DHP_CRC_BYTES_def add_diff_cancel_right' length_list_update)
qed

section \<open>Properties\<close>

text \<open>
  C3. Round trip and resynchronisation. A frame the encoder accepts, fed byte by byte to a
  decoder in any state whatever (idle, unsynchronised, in the middle of another frame,
  mid-escape or overflowed), is delivered by its closing flag under the same key, with
  type, addresses, sequence number, length and payload unchanged and the default hop limit
  where the sender gave none; every byte between the two flags only asks for more.
\<close>

theorem frame_roundtrip:
  assumes "frame_ok f" "DHP_WIRE_MAX \<le> cap"
  shows "\<exists>wire fr' r1 g.
    dhp_frame_encode f key cap = Inr wire \<and>
    framer_run (Some key) wire fr = (fr', r1 # replicate (length wire - 2) (Inl DHP_ERR_AGAIN) @ [Inr g]) \<and>
    same_message f g \<and>
    fr_ttl g = (if fr_ttl f = 0 then DHP_TTL_DEFAULT else fr_ttl f)"
proof -
  let ?body = "frame_body f key"
  obtain fr1 r1 where first: "dhp_framer_push fr DHP_FLAG (Some key) = (fr1, r1)" by fastforce
  have "finish (fr1\<lparr>fm_body := ?body\<rparr>) (Some key) =
      ((fr1\<lparr>fm_body := ?body\<rparr>)\<lparr>fm_n_ok := fm_n_ok fr1 + 1\<rparr>, Inr (frame_of_body ?body))"
    by (subst finish_accept)
      (use assms frame_body_crc frame_body_shape frame_body_mac_valid in auto)
  moreover have "?body \<noteq> []" using length_frame_body [OF assms(1), of key] by auto
  ultimately have "\<exists>fr'. framer_run (Some key) (frame_wire ?body) fr =
      (fr', r1 # replicate (length (stuff ?body)) (Inl DHP_ERR_AGAIN) @ [Inr (frame_of_body ?body)])"
    using framer_run_wire [OF length_frame_body_le [OF assms(1)] _ first] by blast
  moreover have "length (frame_wire ?body) - 2 = length (stuff ?body)"
    by (simp add: frame_wire_def)
  ultimately show ?thesis
    using dhp_frame_encode_eq [OF assms] frame_of_body_frame_body [OF assms(1)] by auto
qed

theorem frame_roundtrip_witness:
  "\<exists>wire fr' r1 g.
    dhp_frame_encode \<lparr>fr_type = 2, fr_ttl = 0, fr_src = 1, fr_dst = 2, fr_seq = 7, fr_len = 3,
        fr_payload = Some [0x7E, 0x7D, 0], fr_body = [], fr_body_len = 0\<rparr> (replicate 16 9) 160 = Inr wire \<and>
    framer_run (Some (replicate 16 9)) wire dhp_framer_init =
      (fr', r1 # replicate (length wire - 2) (Inl DHP_ERR_AGAIN) @ [Inr g]) \<and>
    frame_bytes g = [0x7E, 0x7D, 0] \<and> fr_ttl g = 20"
proof -
  let ?f = "\<lparr>fr_type = 2, fr_ttl = 0, fr_src = 1, fr_dst = 2, fr_seq = 7, fr_len = 3,
        fr_payload = Some [0x7E, 0x7D, 0], fr_body = [], fr_body_len = 0\<rparr> :: dhp_frame_t"
  have ok: "frame_ok ?f" and cap: "DHP_WIRE_MAX \<le> 160"
    by (simp_all add: frame_ok_def dhp_consts)
  have b: "frame_bytes ?f = [0x7E, 0x7D, 0]" by (simp add: frame_bytes_def)
  show ?thesis
    using frame_roundtrip [OF ok cap, of "replicate 16 9" dhp_framer_init] b
    by (fastforce simp: same_message_def DHP_TTL_DEFAULT_def)
qed

text \<open>
  C29. Line noise. Whatever single byte of a well-formed body is changed on the wire
  (header, payload, MAC or the CRC itself) the decoder rejects the frame with a CRC error
  and counts it, before the length field or the MAC is looked at.
\<close>

theorem single_byte_error_detected:
  assumes "crc_ok body" "DHP_FRAME_OVERHEAD \<le> length body" "i < length body" "c \<noteq> body ! i"
    and "fm_body fr = body[i := c]"
  shows "finish fr key = (fr\<lparr>fm_n_crc_err := fm_n_crc_err fr + 1\<rparr>, Inl DHP_ERR_CRC)"
proof -
  obtain n where n: "length body = n + 2"
    using assms(2) by (intro that [of "length body - 2"]) (simp add: dhp_consts)
  have "\<not> crc_ok (body[i := c])"
    using crc_broken_covered [OF assms(1) n _ assms(4)] crc_broken_stored [OF assms(1) n _ _ assms(4)]
      assms(3) n by (cases "i < n") simp_all
  then show ?thesis using assms(2,5) by (simp add: finish_def Let_def crc_ok_def)
qed

theorem single_byte_error_detected_witness:
  "snd (finish (dhp_framer_init\<lparr>fm_body := (with_crc (replicate 13 0))[3 := 1]\<rparr>) None) = Inl DHP_ERR_CRC"
proof -
  define b where "b = with_crc (replicate 13 0)"
  have l: "DHP_FRAME_OVERHEAD \<le> length b" "3 < length b" by (simp_all add: b_def dhp_consts)
  have c: "1 \<noteq> b ! 3" unfolding b_def by (subst with_crc_nth) simp_all
  have ok: "crc_ok b" unfolding b_def by (rule crc_ok_with_crc)
  have body: "fm_body (dhp_framer_init\<lparr>fm_body := b[3 := 1]\<rparr>) = b[3 := 1]" by simp
  show ?thesis
    unfolding b_def [symmetric] single_byte_error_detected [OF ok l c body] by simp
qed



text \<open>
  Relaying. Preparing a body for the next hop decrements the hop limit and repairs
  the CRC and changes nothing else: the next board's decoder still accepts it under the
  originator's key exactly when this one did, and reads the same message with a hop limit
  one lower; a body whose hop limit is 0 or 1 is refused.
\<close>

theorem forward_keeps_message:
  assumes "crc_ok body" "shape_ok body"
  shows "case dhp_frame_forward_prepare body of
      Inl e \<Rightarrow> e = DHP_ERR_TTL \<and> fr_ttl (frame_of_body body) \<le> 1
    | Inr body' \<Rightarrow>
        1 < fr_ttl (frame_of_body body) \<and> length body' = length body \<and>
        crc_ok body' \<and> shape_ok body' \<and>
        same_message (frame_of_body body) (frame_of_body body') \<and>
        fr_ttl (frame_of_body body') = fr_ttl (frame_of_body body) - 1 \<and>
        (\<forall>key. dhp_frame_mac_valid body' key \<longleftrightarrow> dhp_frame_mac_valid body key)"
proof (cases "dhp_frame_forward_prepare body")
  case (Inl e)
  have l: "1 < length body" "\<not> length body < DHP_FRAME_OVERHEAD"
    using shape_ok_length [OF assms(2)] by (auto simp: dhp_consts)
  have "e = DHP_ERR_TTL \<and> (body ! 1 = 0 \<or> body ! 1 - 1 = 0)"
    using Inl l by (auto simp: dhp_frame_forward_prepare_def Let_def split: if_splits)
  then have "e = DHP_ERR_TTL" "body ! 1 = 0 \<or> body ! 1 = 1" by auto
  with Inl show ?thesis by auto
next
  case (Inr body')
  then show ?thesis
    using forward_prepare_Inr(2) [OF Inr] forward_prepare_bytes(1-3) [OF Inr]
      forward_prepare_frame [OF Inr assms(2)] forward_prepare_mac [OF Inr] by simp
qed

theorem forward_keeps_message_witness:
  "crc_ok (with_crc (16 # 5 # replicate 11 0)) \<and> shape_ok (with_crc (16 # 5 # replicate 11 0)) \<and>
   (case dhp_frame_forward_prepare (with_crc (16 # 5 # replicate 11 0)) of
      Inl e \<Rightarrow> False
    | Inr body' \<Rightarrow> crc_ok body' \<and> fr_ttl (frame_of_body body') = 4)"
proof -
  let ?b = "with_crc (16 # 5 # replicate 11 0)"
  have c: "crc_ok ?b" by (rule crc_ok_with_crc)
  have s: "shape_ok ?b" by (simp add: shape_ok_def with_crc_nth dhp_consts)
  have t: "fr_ttl (frame_of_body ?b) = 5" by (simp add: with_crc_nth)
  show ?thesis
    using forward_keeps_message [OF c s] c s t by (auto simp: word_le_nat_alt split: sum.splits)
qed

end
