(* ===== verification/Dhp_Msg.thy ===== *)
theory Dhp_Msg
  imports Dhp_Prelude
begin

text \<open>
  The payload formats of \<open>core/src/msg.c\<close> and \<open>core/src/local.c\<close>: the message types with
  their codes, one record per wire structure, one \<open>pack\<close> and one \<open>unpack\<close> function per
  message, and the \<open>codec\<close> interface all seven formats are instances of. An \<open>unpack\<close> that
  returns false is \<open>None\<close>; the length argument of the C functions is the length of the list.
\<close>

section \<open>Message types and constants\<close>

datatype dhp_msg_type_t =
    DHP_MSG_HELLO
  | DHP_MSG_RESIGN
  | DHP_MSG_KBD
  | DHP_MSG_MOUSE
  | DHP_MSG_FOCUS
  | DHP_MSG_RELEASE
  | DHP_MSG_TOPO
  | DHP_MSG_CAP
  | DHP_MSG_PAIR
  | DHP_MSG_CFG
  | DHP_MSG_DATA
  | DHP_MSG_PING
  | DHP_MSG_PONG
  | DHP_MSG_INPUT

primrec msg_code :: "dhp_msg_type_t \<Rightarrow> u8" where
  "msg_code DHP_MSG_HELLO = 0"
| "msg_code DHP_MSG_RESIGN = 1"
| "msg_code DHP_MSG_KBD = 2"
| "msg_code DHP_MSG_MOUSE = 3"
| "msg_code DHP_MSG_FOCUS = 4"
| "msg_code DHP_MSG_RELEASE = 5"
| "msg_code DHP_MSG_TOPO = 6"
| "msg_code DHP_MSG_CAP = 7"
| "msg_code DHP_MSG_PAIR = 8"
| "msg_code DHP_MSG_CFG = 9"
| "msg_code DHP_MSG_DATA = 10"
| "msg_code DHP_MSG_PING = 11"
| "msg_code DHP_MSG_PONG = 12"
| "msg_code DHP_MSG_INPUT = 13"

definition DHP_INPUT_KIND_KBD :: u8 where
  [dhp_consts]: "DHP_INPUT_KIND_KBD = 0"

definition DHP_INPUT_KIND_MOUSE :: u8 where
  [dhp_consts]: "DHP_INPUT_KIND_MOUSE = 1"

datatype dhp_uhrp_state_t =
    DHP_UHRP_INIT
  | DHP_UHRP_LEARN
  | DHP_UHRP_LISTEN
  | DHP_UHRP_SPEAK
  | DHP_UHRP_STANDBY
  | DHP_UHRP_ACTIVE

primrec uhrp_state_code :: "dhp_uhrp_state_t \<Rightarrow> u8" where
  "uhrp_state_code DHP_UHRP_INIT = 0"
| "uhrp_state_code DHP_UHRP_LEARN = 1"
| "uhrp_state_code DHP_UHRP_LISTEN = 2"
| "uhrp_state_code DHP_UHRP_SPEAK = 3"
| "uhrp_state_code DHP_UHRP_STANDBY = 4"
| "uhrp_state_code DHP_UHRP_ACTIVE = 5"

definition DHP_HELLO_BYTES :: nat where [dhp_consts]: "DHP_HELLO_BYTES = 16"

definition DHP_KBD_BYTES :: nat where [dhp_consts]: "DHP_KBD_BYTES = 7"

definition DHP_MOUSE_BYTES :: nat where [dhp_consts]: "DHP_MOUSE_BYTES = 7"

definition DHP_FOCUS_BYTES :: nat where [dhp_consts]: "DHP_FOCUS_BYTES = 4"

definition DHP_TOPO_BYTES :: nat where [dhp_consts]: "DHP_TOPO_BYTES = 12"

definition DHP_HELLO_F_PREEMPT :: u8 where [dhp_consts]: "DHP_HELLO_F_PREEMPT = 1"

definition DHP_HELLO_F_KEYS_HELD :: u8 where [dhp_consts]: "DHP_HELLO_F_KEYS_HELD = 2"

definition DHP_HELLO_F_HAS_INPUT :: u8 where [dhp_consts]: "DHP_HELLO_F_HAS_INPUT = 4"

definition DHP_HELLO_F_COORD :: u8 where [dhp_consts]: "DHP_HELLO_F_COORD = 8"

definition DHP_FOCUS_R_BUTTON :: u8 where [dhp_consts]: "DHP_FOCUS_R_BUTTON = 0"

definition DHP_FOCUS_R_EDGE :: u8 where [dhp_consts]: "DHP_FOCUS_R_EDGE = 1"

definition DHP_FOCUS_R_HOTKEY :: u8 where [dhp_consts]: "DHP_FOCUS_R_HOTKEY = 2"

definition DHP_FOCUS_R_CFG :: u8 where [dhp_consts]: "DHP_FOCUS_R_CFG = 3"

definition DHP_FOCUS_R_FAILOVER :: u8 where [dhp_consts]: "DHP_FOCUS_R_FAILOVER = 4"

definition DHP_TOPO_F_HEAD :: u8 where [dhp_consts]: "DHP_TOPO_F_HEAD = 1"

definition DHP_TOPO_F_TAIL :: u8 where [dhp_consts]: "DHP_TOPO_F_TAIL = 2"

definition DHP_LOCAL_ATTACH :: u8 where [dhp_consts]: "DHP_LOCAL_ATTACH = 0"

definition DHP_LOCAL_STATUS :: u8 where [dhp_consts]: "DHP_LOCAL_STATUS = 1"

definition DHP_LOCAL_ATTACH_BYTES :: nat where [dhp_consts]: "DHP_LOCAL_ATTACH_BYTES = 3"

definition DHP_LOCAL_STATUS_BYTES :: nat where [dhp_consts]: "DHP_LOCAL_STATUS_BYTES = 7"

section \<open>Wire structures\<close>

record dhp_hello_t =
  he_state :: u8
  he_priority :: u8
  he_flags :: u8
  he_hold_cs :: u8
  he_uid :: u64
  he_caps :: u16
  he_reserved :: u16

record dhp_kbd_report_t =
  kb_modifiers :: u8
  kb_keys :: "u8 list"

text \<open>\<open>int16_t\<close> and \<open>int8_t\<close> are words read with \<open>sint\<close>.\<close>

record dhp_mouse_report_t =
  mo_dx :: u16
  mo_dy :: u16
  mo_wheel :: u8
  mo_pan :: u8
  mo_buttons :: u8

record dhp_focus_t =
  fo_target :: dhp_addr_t
  fo_reason :: u8
  fo_edge :: u8

record dhp_topo_t =
  to_uid :: u64
  to_hops_from_head :: u8
  to_caps_lo :: u8
  to_caps_hi :: u8
  to_flags :: u8

record dhp_local_attach_t =
  la_caps :: u16

record dhp_local_status_t =
  ls_self :: dhp_addr_t
  ls_focus :: dhp_addr_t
  ls_level :: u8
  ls_boards :: u8

text \<open>The C array \<open>keys[6]\<close>.\<close>

definition kbd_wf :: "dhp_kbd_report_t \<Rightarrow> bool" where
  "kbd_wf r \<longleftrightarrow> length (kb_keys r) = 6"

definition kbd_empty :: dhp_kbd_report_t where
  "kbd_empty = \<lparr>kb_modifiers = 0, kb_keys = replicate 6 0\<rparr>"

section \<open>Pack and unpack\<close>

definition dhp_hello_pack :: "dhp_hello_t \<Rightarrow> u8 list" where
  "dhp_hello_pack h =
     [he_state h, he_priority h, he_flags h, he_hold_cs h] @
     put64 (he_uid h) @ put16 (he_caps h) @ put16 (he_reserved h)"

definition dhp_hello_unpack :: "u8 list \<Rightarrow> dhp_hello_t option" where
  "dhp_hello_unpack p =
     (if length p < DHP_HELLO_BYTES then None
      else Some \<lparr>he_state = p ! 0, he_priority = p ! 1, he_flags = p ! 2, he_hold_cs = p ! 3,
                 he_uid = get64 (drop 4 p), he_caps = get16 (drop 12 p), he_reserved = get16 (drop 14 p)\<rparr>)"

definition dhp_kbd_pack :: "dhp_kbd_report_t \<Rightarrow> u8 list" where
  "dhp_kbd_pack r = kb_modifiers r # take 6 (kb_keys r)"

definition dhp_kbd_unpack :: "u8 list \<Rightarrow> dhp_kbd_report_t option" where
  "dhp_kbd_unpack p =
     (if length p < DHP_KBD_BYTES then None
      else Some \<lparr>kb_modifiers = p ! 0, kb_keys = take 6 (drop 1 p)\<rparr>)"

definition dhp_mouse_pack :: "dhp_mouse_report_t \<Rightarrow> u8 list" where
  "dhp_mouse_pack r = put16 (mo_dx r) @ put16 (mo_dy r) @ [mo_wheel r, mo_pan r, mo_buttons r]"

definition dhp_mouse_unpack :: "u8 list \<Rightarrow> dhp_mouse_report_t option" where
  "dhp_mouse_unpack p =
     (if length p < DHP_MOUSE_BYTES then None
      else Some \<lparr>mo_dx = get16 p, mo_dy = get16 (drop 2 p),
                 mo_wheel = p ! 4, mo_pan = p ! 5, mo_buttons = p ! 6\<rparr>)"

definition dhp_focus_pack :: "dhp_focus_t \<Rightarrow> u8 list" where
  "dhp_focus_pack f = put16 (fo_target f) @ [fo_reason f, fo_edge f]"

definition dhp_focus_unpack :: "u8 list \<Rightarrow> dhp_focus_t option" where
  "dhp_focus_unpack p =
     (if length p < DHP_FOCUS_BYTES then None
      else Some \<lparr>fo_target = get16 p, fo_reason = p ! 2, fo_edge = p ! 3\<rparr>)"

definition dhp_topo_pack :: "dhp_topo_t \<Rightarrow> u8 list" where
  "dhp_topo_pack t =
     put64 (to_uid t) @ [to_hops_from_head t, to_caps_lo t, to_caps_hi t, to_flags t]"

definition dhp_topo_unpack :: "u8 list \<Rightarrow> dhp_topo_t option" where
  "dhp_topo_unpack p =
     (if length p < DHP_TOPO_BYTES then None
      else Some \<lparr>to_uid = get64 p, to_hops_from_head = p ! 8,
                 to_caps_lo = p ! 9, to_caps_hi = p ! 10, to_flags = p ! 11\<rparr>)"

definition dhp_local_attach_pack :: "dhp_local_attach_t \<Rightarrow> u8 list" where
  "dhp_local_attach_pack a = DHP_LOCAL_ATTACH # put16 (la_caps a)"

definition dhp_local_attach_unpack :: "u8 list \<Rightarrow> dhp_local_attach_t option" where
  "dhp_local_attach_unpack p =
     (if length p < DHP_LOCAL_ATTACH_BYTES \<or> p ! 0 \<noteq> DHP_LOCAL_ATTACH then None
      else Some \<lparr>la_caps = get16 (drop 1 p)\<rparr>)"

definition dhp_local_status_pack :: "dhp_local_status_t \<Rightarrow> u8 list" where
  "dhp_local_status_pack s =
     [DHP_LOCAL_STATUS] @ put16 (ls_self s) @ put16 (ls_focus s) @ [ls_level s, ls_boards s]"

definition dhp_local_status_unpack :: "u8 list \<Rightarrow> dhp_local_status_t option" where
  "dhp_local_status_unpack p =
     (if length p < DHP_LOCAL_STATUS_BYTES \<or> p ! 0 \<noteq> DHP_LOCAL_STATUS then None
      else Some \<lparr>ls_self = get16 (drop 1 p), ls_focus = get16 (drop 3 p),
                 ls_level = p ! 5, ls_boards = p ! 6\<rparr>)"

section \<open>The codec interface\<close>

text \<open>
  What every payload format promises: a fixed width, an \<open>unpack\<close> that inverts \<open>pack\<close> and
  ignores what follows, refuses a buffer that is too short, and accepts nothing but what
  \<open>pack\<close> produces.
\<close>

locale codec =
  fixes pack :: "'m \<Rightarrow> u8 list"
    and unpack :: "u8 list \<Rightarrow> 'm option"
    and width :: nat
    and ok :: "'m \<Rightarrow> bool"
  assumes length_pack: "ok m \<Longrightarrow> length (pack m) = width"
    and unpack_pack: "ok m \<Longrightarrow> unpack (pack m @ r) = Some m"
    and unpack_short: "length p < width \<Longrightarrow> unpack p = None"
    and unpack_sound: "unpack p = Some m \<Longrightarrow> ok m \<and> take width p = pack m"
begin

lemma unpack_iff: "unpack p = Some m \<longleftrightarrow> ok m \<and> (\<exists>r. p = pack m @ r)"
proof
  assume *: "unpack p = Some m"
  then have "take width p = pack m" "ok m" using unpack_sound by blast+
  then have "p = pack m @ drop width p" by (metis append_take_drop_id)
  with \<open>ok m\<close> show "ok m \<and> (\<exists>r. p = pack m @ r)" by blast
qed (use unpack_pack in auto)

lemma pack_inj: "ok m \<Longrightarrow> ok m' \<Longrightarrow> pack m = pack m' \<Longrightarrow> m = m'"
  by (metis option.inject unpack_pack)

lemma unpack_exact: "ok m \<Longrightarrow> unpack (pack m) = Some m"
  using unpack_pack [of m "[]"] by simp

lemma unpack_length: "unpack p = Some m \<Longrightarrow> width \<le> length p"
  using unpack_short [of p] by (cases "length p < width") auto

end

section \<open>The seven formats\<close>

lemmas msg_defs =
  dhp_hello_pack_def dhp_hello_unpack_def dhp_kbd_pack_def dhp_kbd_unpack_def
  dhp_mouse_pack_def dhp_mouse_unpack_def dhp_focus_pack_def dhp_focus_unpack_def
  dhp_topo_pack_def dhp_topo_unpack_def dhp_local_attach_pack_def dhp_local_attach_unpack_def
  dhp_local_status_pack_def dhp_local_status_unpack_def

lemma put_get_take:
  "2 + i \<le> length p \<Longrightarrow> put16 (get16 (drop i p)) = take 2 (drop i p)"
  "8 + i \<le> length p \<Longrightarrow> put64 (get64 (drop i p)) = take 8 (drop i p)"
  by (simp_all add: put16_get16 put64_get64)

lemma hello_sound:
  assumes "dhp_hello_unpack p = Some m"
  shows "take DHP_HELLO_BYTES p = dhp_hello_pack m"
proof -
  have l: "16 \<le> length p" and m: "dhp_hello_pack m = [p ! 0, p ! 1, p ! 2, p ! 3] @
      take 8 (drop 4 p) @ take 2 (drop 12 p) @ take 2 (drop 14 p)"
    using assms by (auto simp: msg_defs dhp_consts put_get_take split: if_splits)
  show ?thesis unfolding m
    by (rule nth_equalityI) (use l in \<open>auto simp: dhp_consts nth_append nth_Cons' intro!: arg_cong [where f = "(!) p"]\<close>)
qed

lemma mouse_sound:
  assumes "dhp_mouse_unpack p = Some m"
  shows "take DHP_MOUSE_BYTES p = dhp_mouse_pack m"
proof -
  have l: "7 \<le> length p" and m: "dhp_mouse_pack m =
      take 2 p @ take 2 (drop 2 p) @ [p ! 4, p ! 5, p ! 6]"
    using assms by (auto simp: msg_defs dhp_consts put_get_take put16_get16 split: if_splits)
  show ?thesis unfolding m
    by (rule nth_equalityI) (use l in \<open>auto simp: dhp_consts nth_append nth_Cons' intro!: arg_cong [where f = "(!) p"]\<close>)
qed

lemma topo_sound:
  assumes "dhp_topo_unpack p = Some m"
  shows "take DHP_TOPO_BYTES p = dhp_topo_pack m"
proof -
  have l: "12 \<le> length p" and m: "dhp_topo_pack m =
      take 8 p @ [p ! 8, p ! 9, p ! 10, p ! 11]"
    using assms by (auto simp: msg_defs dhp_consts put64_get64 split: if_splits)
  show ?thesis unfolding m
    by (rule nth_equalityI) (use l in \<open>auto simp: dhp_consts nth_append nth_Cons' intro!: arg_cong [where f = "(!) p"]\<close>)
qed

lemma focus_sound:
  assumes "dhp_focus_unpack p = Some m"
  shows "take DHP_FOCUS_BYTES p = dhp_focus_pack m"
proof -
  have l: "4 \<le> length p" and m: "dhp_focus_pack m = take 2 p @ [p ! 2, p ! 3]"
    using assms by (auto simp: msg_defs dhp_consts put16_get16 split: if_splits)
  show ?thesis unfolding m
    by (rule nth_equalityI) (use l in \<open>auto simp: dhp_consts nth_append nth_Cons' intro!: arg_cong [where f = "(!) p"]\<close>)
qed

lemma kbd_sound:
  assumes "dhp_kbd_unpack p = Some m"
  shows "kbd_wf m \<and> take DHP_KBD_BYTES p = dhp_kbd_pack m"
proof -
  have l: "7 \<le> length p" and w: "kbd_wf m" and m: "dhp_kbd_pack m = p ! 0 # take 6 (drop 1 p)"
    using assms by (auto simp: msg_defs dhp_consts kbd_wf_def split: if_splits)
  have "take DHP_KBD_BYTES p = p ! 0 # take 6 (drop 1 p)"
    by (rule nth_equalityI) (use l in \<open>auto simp: dhp_consts nth_append nth_Cons' intro!: arg_cong [where f = "(!) p"]\<close>)
  with w m show ?thesis by simp
qed

lemma attach_sound:
  assumes "dhp_local_attach_unpack p = Some m"
  shows "take DHP_LOCAL_ATTACH_BYTES p = dhp_local_attach_pack m"
proof -
  have l: "3 \<le> length p" and m: "dhp_local_attach_pack m = p ! 0 # take 2 (drop 1 p)"
    using assms by (auto simp: msg_defs dhp_consts put_get_take split: if_splits)
  show ?thesis unfolding m
    by (rule nth_equalityI) (use l in \<open>auto simp: dhp_consts nth_append nth_Cons' intro!: arg_cong [where f = "(!) p"]\<close>)
qed

lemma status_sound:
  assumes "dhp_local_status_unpack p = Some m"
  shows "take DHP_LOCAL_STATUS_BYTES p = dhp_local_status_pack m"
proof -
  have l: "7 \<le> length p" and m: "dhp_local_status_pack m =
      [p ! 0] @ take 2 (drop 1 p) @ take 2 (drop 3 p) @ [p ! 5, p ! 6]"
    using assms by (auto simp: msg_defs dhp_consts put_get_take split: if_splits)
  show ?thesis unfolding m
    by (rule nth_equalityI) (use l in \<open>auto simp: dhp_consts nth_append nth_Cons' intro!: arg_cong [where f = "(!) p"]\<close>)
qed

interpretation hello: codec dhp_hello_pack dhp_hello_unpack DHP_HELLO_BYTES "\<lambda>_. True"
  by unfold_locales (simp_all add: hello_sound, simp_all add: msg_defs dhp_consts drop_append)

interpretation kbd: codec dhp_kbd_pack dhp_kbd_unpack DHP_KBD_BYTES kbd_wf
  by unfold_locales (simp_all add: kbd_sound, simp_all add: msg_defs dhp_consts kbd_wf_def)

interpretation mouse: codec dhp_mouse_pack dhp_mouse_unpack DHP_MOUSE_BYTES "\<lambda>_. True"
  by unfold_locales (simp_all add: mouse_sound, simp_all add: msg_defs dhp_consts nth_append)

interpretation focus: codec dhp_focus_pack dhp_focus_unpack DHP_FOCUS_BYTES "\<lambda>_. True"
  by unfold_locales (simp_all add: focus_sound, simp_all add: msg_defs dhp_consts nth_append)

interpretation topo: codec dhp_topo_pack dhp_topo_unpack DHP_TOPO_BYTES "\<lambda>_. True"
  by unfold_locales (simp_all add: topo_sound, simp_all add: msg_defs dhp_consts nth_append)

interpretation attach: codec dhp_local_attach_pack dhp_local_attach_unpack DHP_LOCAL_ATTACH_BYTES "\<lambda>_. True"
  by unfold_locales (simp_all add: attach_sound, simp_all add: msg_defs dhp_consts)

interpretation status: codec dhp_local_status_pack dhp_local_status_unpack DHP_LOCAL_STATUS_BYTES "\<lambda>_. True"
  by unfold_locales (simp_all add: status_sound, simp_all add: msg_defs dhp_consts nth_append)

lemma msg_code_inj [simp]: "msg_code a = msg_code b \<longleftrightarrow> a = b"
  by (cases a; cases b) simp_all

lemma uhrp_state_code_inj [simp]: "uhrp_state_code a = uhrp_state_code b \<longleftrightarrow> a = b"
  by (cases a; cases b) simp_all

text \<open>
  Round trip of every payload. Each message is unpacked from the bytes it was packed
  to, whatever follows them in the buffer, and each unpack function accepts a buffer only
  when it starts with the packing of the message it returns; so two boards that exchange
  these payloads always agree on their meaning, and short buffers are refused.
\<close>

theorem payload_roundtrip:
  "(dhp_hello_unpack p = Some h \<longleftrightarrow> (\<exists>r. p = dhp_hello_pack h @ r)) \<and>
   (dhp_kbd_unpack p = Some k \<longleftrightarrow> kbd_wf k \<and> (\<exists>r. p = dhp_kbd_pack k @ r)) \<and>
   (dhp_mouse_unpack p = Some m \<longleftrightarrow> (\<exists>r. p = dhp_mouse_pack m @ r)) \<and>
   (dhp_focus_unpack p = Some f \<longleftrightarrow> (\<exists>r. p = dhp_focus_pack f @ r)) \<and>
   (dhp_topo_unpack p = Some t \<longleftrightarrow> (\<exists>r. p = dhp_topo_pack t @ r)) \<and>
   (dhp_local_attach_unpack p = Some a \<longleftrightarrow> (\<exists>r. p = dhp_local_attach_pack a @ r)) \<and>
   (dhp_local_status_unpack p = Some s \<longleftrightarrow> (\<exists>r. p = dhp_local_status_pack s @ r))"
  by (simp add: hello.unpack_iff kbd.unpack_iff mouse.unpack_iff focus.unpack_iff topo.unpack_iff
      attach.unpack_iff status.unpack_iff)

end
