(* ===== verification/Dhp_Level.thy ===== *)
theory Dhp_Level
  imports Dhp_Prelude
begin

text \<open>
  Capability levels, \<open>core/src/level.c\<close> and \<open>core/include/dhp/level.h\<close>: the capability bits,
  the sets that define each level, the level of one board, and its order. The levels are an
  instance of the library's \<open>linorder\<close>, in the numeric order of the enum.
\<close>

datatype dhp_level_t =
    DHP_LEVEL_ISOLATED
  | DHP_LEVEL_ELECTED
  | DHP_LEVEL_COORDINATED
  | DHP_LEVEL_RICH

primrec level_code :: "dhp_level_t \<Rightarrow> nat" where
  "level_code DHP_LEVEL_ISOLATED = 0"
| "level_code DHP_LEVEL_ELECTED = 1"
| "level_code DHP_LEVEL_COORDINATED = 2"
| "level_code DHP_LEVEL_RICH = 3"

definition DHP_CAP_HID_OUT :: u16 where [dhp_consts]: "DHP_CAP_HID_OUT = 1"

definition DHP_CAP_HID_IN :: u16 where [dhp_consts]: "DHP_CAP_HID_IN = 2"

definition DHP_CAP_DISPLAY :: u16 where [dhp_consts]: "DHP_CAP_DISPLAY = 4"

definition DHP_CAP_CONFIG :: u16 where [dhp_consts]: "DHP_CAP_CONFIG = 8"

definition DHP_CAP_CLIPBOARD :: u16 where [dhp_consts]: "DHP_CAP_CLIPBOARD = 16"

definition DHP_CAP_FILES :: u16 where [dhp_consts]: "DHP_CAP_FILES = 32"

definition DHP_CAP_IMAGES :: u16 where [dhp_consts]: "DHP_CAP_IMAGES = 64"

definition DHP_CAP_SHARE :: u16 where [dhp_consts]: "DHP_CAP_SHARE = 128"

definition DHP_CAP_COORD :: u16 where [dhp_consts]: "DHP_CAP_COORD = 256"

definition DHP_CAPS_LEVEL1 :: u16 where
  [dhp_consts]: "DHP_CAPS_LEVEL1 = DHP_CAP_HID_OUT OR DHP_CAP_HID_IN"

definition DHP_CAPS_LEVEL2 :: u16 where
  [dhp_consts]: "DHP_CAPS_LEVEL2 = DHP_CAP_DISPLAY OR DHP_CAP_CONFIG"

definition DHP_CAPS_LEVEL3 :: u16 where
  [dhp_consts]: "DHP_CAPS_LEVEL3 = DHP_CAP_CLIPBOARD"

primrec dhp_level_name :: "dhp_level_t \<Rightarrow> string" where
  "dhp_level_name DHP_LEVEL_ISOLATED = ''isolated''"
| "dhp_level_name DHP_LEVEL_ELECTED = ''elected''"
| "dhp_level_name DHP_LEVEL_COORDINATED = ''coordinated''"
| "dhp_level_name DHP_LEVEL_RICH = ''rich''"

definition dhp_level_of :: "u16 \<Rightarrow> bool \<Rightarrow> dhp_level_t" where
  "dhp_level_of caps elected =
     (if \<not> elected \<or> caps AND DHP_CAPS_LEVEL1 \<noteq> DHP_CAPS_LEVEL1 then DHP_LEVEL_ISOLATED
      else if caps AND DHP_CAPS_LEVEL2 \<noteq> DHP_CAPS_LEVEL2 then DHP_LEVEL_ELECTED
      else if caps AND DHP_CAPS_LEVEL3 \<noteq> DHP_CAPS_LEVEL3 then DHP_LEVEL_COORDINATED
      else DHP_LEVEL_RICH)"

section \<open>The order of the levels\<close>

lemma level_code_inj: "level_code a = level_code b \<Longrightarrow> a = b"
  by (cases a; cases b) simp_all

instantiation dhp_level_t :: linorder
begin

definition less_eq_dhp_level_t :: "dhp_level_t \<Rightarrow> dhp_level_t \<Rightarrow> bool" where
  "less_eq_dhp_level_t a b \<longleftrightarrow> level_code a \<le> level_code b"

definition less_dhp_level_t :: "dhp_level_t \<Rightarrow> dhp_level_t \<Rightarrow> bool" where
  "less_dhp_level_t a b \<longleftrightarrow> level_code a < level_code b"

instance
  by standard (auto simp: less_eq_dhp_level_t_def less_dhp_level_t_def intro: level_code_inj)

end

section \<open>Capability sets\<close>

text \<open>The capabilities in \<open>need\<close> are all present in \<open>caps\<close>: the test \<open>(caps & need) == need\<close>.\<close>

definition has_caps :: "u16 \<Rightarrow> u16 \<Rightarrow> bool" where
  "has_caps need caps \<longleftrightarrow> (\<forall>n. bit need n \<longrightarrow> bit caps n)"

lemma and_eq_iff_has_caps: "caps AND need = need \<longleftrightarrow> has_caps need caps"
  by (simp add: has_caps_def bit_eq_iff bit_simps) (use bit_imp_le_length [of need] in fastforce)

lemma has_caps_mono: "has_caps a b \<Longrightarrow> has_caps need a \<Longrightarrow> has_caps need b"
  by (auto simp: has_caps_def)

lemma has_caps_or: "has_caps a (a OR b)"
  by (simp add: has_caps_def bit_simps)

lemma dhp_level_of_ge:
  "DHP_LEVEL_ELECTED \<le> dhp_level_of caps e \<longleftrightarrow> e \<and> has_caps DHP_CAPS_LEVEL1 caps"
  "DHP_LEVEL_COORDINATED \<le> dhp_level_of caps e \<longleftrightarrow>
     e \<and> has_caps DHP_CAPS_LEVEL1 caps \<and> has_caps DHP_CAPS_LEVEL2 caps"
  "DHP_LEVEL_RICH \<le> dhp_level_of caps e \<longleftrightarrow>
     e \<and> has_caps DHP_CAPS_LEVEL1 caps \<and> has_caps DHP_CAPS_LEVEL2 caps \<and> has_caps DHP_CAPS_LEVEL3 caps"
  by (auto simp: dhp_level_of_def less_eq_dhp_level_t_def and_eq_iff_has_caps)

text \<open>
  Levels are cumulative and never over-promise. A level is reached exactly when an
  election has settled and every capability of its set and of the sets below is present;
  gaining capabilities or the election never lowers the level.
\<close>

theorem level_exact_and_monotone:
  "(DHP_LEVEL_ELECTED \<le> dhp_level_of caps e \<longleftrightarrow> e \<and> has_caps DHP_CAPS_LEVEL1 caps) \<and>
   (DHP_LEVEL_COORDINATED \<le> dhp_level_of caps e \<longleftrightarrow>
      e \<and> has_caps DHP_CAPS_LEVEL1 caps \<and> has_caps DHP_CAPS_LEVEL2 caps) \<and>
   (dhp_level_of caps e = DHP_LEVEL_RICH \<longleftrightarrow>
      e \<and> has_caps DHP_CAPS_LEVEL1 caps \<and> has_caps DHP_CAPS_LEVEL2 caps \<and> has_caps DHP_CAPS_LEVEL3 caps) \<and>
   dhp_level_of caps e \<le> dhp_level_of (caps OR more) (e \<or> e')"
proof -
  have top: "dhp_level_of c b = DHP_LEVEL_RICH \<longleftrightarrow> DHP_LEVEL_RICH \<le> dhp_level_of c b" for c b
    by (cases "dhp_level_of c b") (simp_all add: less_eq_dhp_level_t_def)
  have up: "has_caps n caps \<Longrightarrow> has_caps n (caps OR more)" for n
    using has_caps_mono [OF has_caps_or] .
  have "dhp_level_of caps e \<le> dhp_level_of (caps OR more) (e \<or> e')"
    using up by (auto simp: dhp_level_of_def and_eq_iff_has_caps less_eq_dhp_level_t_def)
  then show ?thesis unfolding top by (simp only: dhp_level_of_ge simp_thms)
qed

end
