(* ===== verification/Dhp_Hid.thy ===== *)
theory Dhp_Hid
  imports Dhp_Msg
begin

text \<open>
  Sent-state tracking, \<open>core/src/hid.c\<close>: what each of the sixteen machines was last told,
  the reports that undo it, and the contract the router relies on. The contract is stated
  against the hosts themselves: a host keeps the last modifiers, keys and buttons reported
  to it, and the tracker mirrors all hosts exactly.
\<close>

record dhp_hid_sent_t =
  hs_modifiers :: u8
  hs_keys :: "u8 list"
  hs_buttons :: u8
  hs_used :: bool

record dhp_hid_tracker_t =
  ht_target :: "dhp_hid_sent_t list"

definition hid_sent_zero :: dhp_hid_sent_t where
  "hid_sent_zero = \<lparr>hs_modifiers = 0, hs_keys = replicate 6 0, hs_buttons = 0, hs_used = False\<rparr>"

definition mouse_empty :: dhp_mouse_report_t where
  "mouse_empty = \<lparr>mo_dx = 0, mo_dy = 0, mo_wheel = 0, mo_pan = 0, mo_buttons = 0\<rparr>"

section \<open>Operations\<close>

definition dhp_hid_tracker_init :: dhp_hid_tracker_t where
  "dhp_hid_tracker_init = \<lparr>ht_target = replicate DHP_MAX_BOARDS hid_sent_zero\<rparr>"

definition dhp_hid_note_kbd :: "dhp_hid_tracker_t \<Rightarrow> nat \<Rightarrow> dhp_kbd_report_t \<Rightarrow> dhp_hid_tracker_t" where
  "dhp_hid_note_kbd t slot r =
     (if DHP_MAX_BOARDS \<le> slot then t
      else let s = ht_target t ! slot
           in t\<lparr>ht_target := (ht_target t)[slot :=
                s\<lparr>hs_used := True, hs_modifiers := kb_modifiers r, hs_keys := kb_keys r\<rparr>]\<rparr>)"

definition dhp_hid_note_mouse :: "dhp_hid_tracker_t \<Rightarrow> nat \<Rightarrow> u8 \<Rightarrow> dhp_hid_tracker_t" where
  "dhp_hid_note_mouse t slot buttons =
     (if DHP_MAX_BOARDS \<le> slot then t
      else let s = ht_target t ! slot
           in t\<lparr>ht_target := (ht_target t)[slot := s\<lparr>hs_used := True, hs_buttons := buttons\<rparr>]\<rparr>)"

definition slot_held :: "dhp_hid_sent_t \<Rightarrow> bool" where
  "slot_held s \<longleftrightarrow>
     (if \<not> hs_used s then False
      else if hs_modifiers s \<noteq> 0 \<or> hs_buttons s \<noteq> 0 then True
      else list_ex (\<lambda>k. k \<noteq> 0) (hs_keys s))"

definition dhp_hid_slot_held :: "dhp_hid_tracker_t \<Rightarrow> nat \<Rightarrow> bool" where
  "dhp_hid_slot_held t slot \<longleftrightarrow>
     (if DHP_MAX_BOARDS \<le> slot then False else slot_held (ht_target t ! slot))"

definition dhp_hid_any_held :: "dhp_hid_tracker_t \<Rightarrow> bool" where
  "dhp_hid_any_held t \<longleftrightarrow> list_ex slot_held (ht_target t)"

definition dhp_hid_key_count :: "dhp_hid_tracker_t \<Rightarrow> nat \<Rightarrow> nat" where
  "dhp_hid_key_count t slot =
     (if DHP_MAX_BOARDS \<le> slot then 0 else count_idx (\<lambda>k. k \<noteq> 0) (hs_keys (ht_target t ! slot)))"

definition dhp_hid_build_release ::
  "dhp_hid_tracker_t \<Rightarrow> nat \<Rightarrow> dhp_hid_tracker_t \<times> (dhp_kbd_report_t \<times> dhp_mouse_report_t) option" where
  "dhp_hid_build_release t slot =
     (if DHP_MAX_BOARDS \<le> slot \<or> \<not> slot_held (ht_target t ! slot) then (t, None)
      else let s = ht_target t ! slot
           in (t\<lparr>ht_target := (ht_target t)[slot :=
                  s\<lparr>hs_modifiers := 0, hs_buttons := 0, hs_keys := replicate 6 0\<rparr>]\<rparr>,
               Some (kbd_empty, mouse_empty)))"

definition dhp_hid_forget :: "dhp_hid_tracker_t \<Rightarrow> nat \<Rightarrow> dhp_hid_tracker_t" where
  "dhp_hid_forget t slot =
     (if DHP_MAX_BOARDS \<le> slot then t
      else t\<lparr>ht_target := (ht_target t)[slot := hid_sent_zero]\<rparr>)"

section \<open>The machines\<close>

text \<open>What the operating system of one machine believes is pressed.\<close>

record hid_host =
  ho_modifiers :: u8
  ho_keys :: "u8 list"
  ho_buttons :: u8

definition host_idle :: hid_host where
  "host_idle = \<lparr>ho_modifiers = 0, ho_keys = replicate 6 0, ho_buttons = 0\<rparr>"

definition host_kbd :: "dhp_kbd_report_t \<Rightarrow> hid_host \<Rightarrow> hid_host" where
  "host_kbd r h = h\<lparr>ho_modifiers := kb_modifiers r, ho_keys := kb_keys r\<rparr>"

definition host_mouse :: "u8 \<Rightarrow> hid_host \<Rightarrow> hid_host" where
  "host_mouse b h = h\<lparr>ho_buttons := b\<rparr>"

definition host_release :: "(dhp_kbd_report_t \<times> dhp_mouse_report_t) option \<Rightarrow> hid_host \<Rightarrow> hid_host" where
  "host_release r h =
     (case r of None \<Rightarrow> h | Some (k, m) \<Rightarrow> host_mouse (mo_buttons m) (host_kbd k h))"

definition host_of :: "dhp_hid_sent_t \<Rightarrow> hid_host" where
  "host_of s = \<lparr>ho_modifiers = hs_modifiers s, ho_keys = hs_keys s, ho_buttons = hs_buttons s\<rparr>"

definition hid_view :: "dhp_hid_tracker_t \<Rightarrow> nat \<Rightarrow> hid_host" where
  "hid_view t slot = host_of (ht_target t ! slot)"

text \<open>Sixteen slots of six keys; an unused slot has never been told anything.\<close>

definition hid_wf :: "dhp_hid_tracker_t \<Rightarrow> bool" where
  "hid_wf t \<longleftrightarrow>
     length (ht_target t) = DHP_MAX_BOARDS \<and>
     list_all (\<lambda>s. length (hs_keys s) = 6 \<and> (\<not> hs_used s \<longrightarrow> host_of s = host_idle)) (ht_target t)"

section \<open>The tracker interface\<close>

text \<open>
  What the router relies on: a view of every machine that follows the reports, a held test
  that says whether the machine is idle, and releases that leave it idle.
\<close>

locale sent_tracker =
  fixes wf :: "'t \<Rightarrow> bool"
    and view :: "'t \<Rightarrow> nat \<Rightarrow> hid_host"
    and held :: "'t \<Rightarrow> nat \<Rightarrow> bool"
    and any_held :: "'t \<Rightarrow> bool"
    and note_kbd :: "'t \<Rightarrow> nat \<Rightarrow> dhp_kbd_report_t \<Rightarrow> 't"
    and note_mouse :: "'t \<Rightarrow> nat \<Rightarrow> u8 \<Rightarrow> 't"
    and release :: "'t \<Rightarrow> nat \<Rightarrow> 't \<times> (dhp_kbd_report_t \<times> dhp_mouse_report_t) option"
    and forget :: "'t \<Rightarrow> nat \<Rightarrow> 't"
  assumes held_iff: "wf t \<Longrightarrow> slot < DHP_MAX_BOARDS \<Longrightarrow> held t slot \<longleftrightarrow> view t slot \<noteq> host_idle"
    and held_out: "DHP_MAX_BOARDS \<le> slot \<Longrightarrow> \<not> held t slot"
    and any_held_iff: "wf t \<Longrightarrow> any_held t \<longleftrightarrow> (\<exists>slot < DHP_MAX_BOARDS. held t slot)"
    and wf_kbd: "wf t \<Longrightarrow> kbd_wf r \<Longrightarrow> wf (note_kbd t slot r)"
    and wf_mouse: "wf t \<Longrightarrow> wf (note_mouse t slot b)"
    and wf_release: "wf t \<Longrightarrow> wf (fst (release t slot))"
    and wf_forget: "wf t \<Longrightarrow> wf (forget t slot)"
    and view_kbd: "wf t \<Longrightarrow> slot < DHP_MAX_BOARDS \<Longrightarrow>
          view (note_kbd t slot r) = (view t)(slot := host_kbd r (view t slot))"
    and view_mouse: "wf t \<Longrightarrow> slot < DHP_MAX_BOARDS \<Longrightarrow>
          view (note_mouse t slot b) = (view t)(slot := host_mouse b (view t slot))"
    and view_release: "wf t \<Longrightarrow> slot < DHP_MAX_BOARDS \<Longrightarrow>
          view (fst (release t slot)) = (view t)(slot := host_release (snd (release t slot)) (view t slot))"
    and release_None: "snd (release t slot) = None \<longleftrightarrow> \<not> held t slot"
    and release_Some: "snd (release t slot) = Some km \<Longrightarrow> km = (kbd_empty, mouse_empty)"
    and view_forget: "wf t \<Longrightarrow> slot < DHP_MAX_BOARDS \<Longrightarrow> view (forget t slot) = (view t)(slot := host_idle)"
begin

lemma release_idle:
  assumes "wf t" "slot < DHP_MAX_BOARDS"
  shows "view (fst (release t slot)) slot = host_idle"
proof (cases "snd (release t slot)")
  case None
  then have "view t slot = host_idle" using assms release_None held_iff by blast
  with None assms show ?thesis by (simp add: view_release host_release_def)
next
  case (Some km)
  then have "km = (kbd_empty, mouse_empty)" by (rule release_Some)
  with Some assms show ?thesis
    by (simp add: view_release host_release_def host_kbd_def host_mouse_def host_idle_def
        kbd_empty_def mouse_empty_def)
qed

lemma release_not_held: "wf t \<Longrightarrow> \<not> held (fst (release t slot)) slot"
  by (cases "slot < DHP_MAX_BOARDS") (simp_all add: held_iff release_idle wf_release held_out)

lemma release_other:
  "wf t \<Longrightarrow> slot < DHP_MAX_BOARDS \<Longrightarrow> s' \<noteq> slot \<Longrightarrow> view (fst (release t slot)) s' = view t s'"
  by (simp add: view_release)

lemma not_any_held: "wf t \<Longrightarrow> \<not> any_held t \<longleftrightarrow> (\<forall>slot < DHP_MAX_BOARDS. view t slot = host_idle)"
  by (auto simp: any_held_iff held_iff)

text \<open>Releasing the sixteen slots in turn leaves every machine idle.\<close>

lemma release_all_idle:
  assumes "wf t" "\<forall>s \<in> set ss. s < DHP_MAX_BOARDS"
  shows "wf (fold (\<lambda>s t. fst (release t s)) ss t) \<and>
         (\<forall>s \<in> set ss. view (fold (\<lambda>s t. fst (release t s)) ss t) s = host_idle) \<and>
         (\<forall>s. view t s = host_idle \<longrightarrow> view (fold (\<lambda>s t. fst (release t s)) ss t) s = host_idle)"
  using assms
proof (induction ss arbitrary: t)
  case (Cons a ss)
  let ?t = "fst (release t a)"
  have "wf ?t" using Cons.prems by (simp add: wf_release)
  moreover have "view ?t s = host_idle" if "s = a \<or> view t s = host_idle" for s
    using that Cons.prems by (cases "s = a") (simp_all add: release_idle release_other)
  ultimately show ?case using Cons.IH [of ?t] Cons.prems(2) by auto
qed simp

lemma release_every_slot:
  "wf t \<Longrightarrow> \<not> any_held (fold (\<lambda>s t. fst (release t s)) [0..<DHP_MAX_BOARDS] t)"
  using release_all_idle [of t "[0..<DHP_MAX_BOARDS]"] by (simp add: not_any_held)

end

section \<open>The tracker of the code\<close>

lemma slot_held_iff:
  assumes "length (hs_keys s) = 6" "\<not> hs_used s \<longrightarrow> host_of s = host_idle"
  shows "slot_held s \<longleftrightarrow> host_of s \<noteq> host_idle"
proof -
  have "hs_keys s = replicate 6 0 \<longleftrightarrow> (\<forall>k \<in> set (hs_keys s). k = 0)"
  proof
    show "\<forall>k \<in> set (hs_keys s). k = 0" if "hs_keys s = replicate 6 0" unfolding that by simp
    show "hs_keys s = replicate 6 0" if "\<forall>k \<in> set (hs_keys s). k = 0"
      by (rule replicate_eqI) (use assms(1) that in auto)
  qed
  then show ?thesis using assms(2)
    by (auto simp: slot_held_def host_of_def host_idle_def list_ex_iff)
qed

lemma hid_wf_init: "hid_wf dhp_hid_tracker_init"
  by (simp add: hid_wf_def dhp_hid_tracker_init_def hid_sent_zero_def host_of_def host_idle_def list_all_iff)

lemma hid_wf_nth:
  "hid_wf t \<Longrightarrow> slot < DHP_MAX_BOARDS \<Longrightarrow>
     length (hs_keys (ht_target t ! slot)) = 6 \<and>
     (\<not> hs_used (ht_target t ! slot) \<longrightarrow> host_of (ht_target t ! slot) = host_idle)"
  by (simp add: hid_wf_def list_all_length)

lemma hid_wf_update:
  "hid_wf t \<Longrightarrow> length (hs_keys s) = 6 \<Longrightarrow> hs_used s \<or> host_of s = host_idle \<Longrightarrow>
     hid_wf (t\<lparr>ht_target := (ht_target t)[slot := s]\<rparr>)"
  by (auto simp: hid_wf_def intro!: list_all_update)

lemma hid_view_update:
  "hid_wf t \<Longrightarrow> slot < DHP_MAX_BOARDS \<Longrightarrow>
     hid_view (t\<lparr>ht_target := (ht_target t)[slot := s]\<rparr>) = (hid_view t)(slot := host_of s)"
  by (auto simp: hid_view_def hid_wf_def)

lemmas hid_op_defs = dhp_hid_note_kbd_def dhp_hid_note_mouse_def dhp_hid_build_release_def dhp_hid_forget_def Let_def

interpretation hid: sent_tracker hid_wf hid_view dhp_hid_slot_held dhp_hid_any_held
  dhp_hid_note_kbd dhp_hid_note_mouse dhp_hid_build_release dhp_hid_forget
proof
  fix t slot
  assume t: "hid_wf t" and s: "slot < DHP_MAX_BOARDS"
  show "dhp_hid_slot_held t slot \<longleftrightarrow> hid_view t slot \<noteq> host_idle"
    using slot_held_iff [of "ht_target t ! slot"] hid_wf_nth [OF t s] s
    by (simp add: dhp_hid_slot_held_def hid_view_def)
  show "hid_view (dhp_hid_note_kbd t slot r) = (hid_view t)(slot := host_kbd r (hid_view t slot))" for r
    using s by (simp add: hid_op_defs hid_view_update [OF t s])
      (simp add: host_of_def host_kbd_def hid_view_def)
  show "hid_view (dhp_hid_note_mouse t slot b) = (hid_view t)(slot := host_mouse b (hid_view t slot))" for b
    using s by (simp add: hid_op_defs hid_view_update [OF t s])
      (simp add: host_of_def host_mouse_def hid_view_def)
  show "hid_view (fst (dhp_hid_build_release t slot)) =
      (hid_view t)(slot := host_release (snd (dhp_hid_build_release t slot)) (hid_view t slot))"
    using s by (auto simp: hid_op_defs hid_view_update [OF t s] host_release_def)
      (simp add: host_of_def host_kbd_def host_mouse_def hid_view_def kbd_empty_def mouse_empty_def)
  show "hid_view (dhp_hid_forget t slot) = (hid_view t)(slot := host_idle)"
    using s by (simp add: hid_op_defs hid_view_update [OF t s])
      (simp add: host_of_def host_idle_def hid_sent_zero_def)
next
  fix t
  assume t: "hid_wf t"
  then show "dhp_hid_any_held t \<longleftrightarrow> (\<exists>slot < DHP_MAX_BOARDS. dhp_hid_slot_held t slot)"
    by (auto simp: dhp_hid_any_held_def dhp_hid_slot_held_def list_ex_length hid_wf_def not_le)
  show "kbd_wf r \<Longrightarrow> hid_wf (dhp_hid_note_kbd t slot r)" for slot r
    using t by (simp add: hid_op_defs hid_wf_update kbd_wf_def)
  show "hid_wf (dhp_hid_note_mouse t slot b)" for slot b
    using t by (simp add: hid_op_defs hid_wf_update hid_wf_nth)
  show "hid_wf (fst (dhp_hid_build_release t slot))" for slot
    using t by (simp add: hid_op_defs hid_wf_update slot_held_def)
  show "hid_wf (dhp_hid_forget t slot)" for slot
    using t by (simp add: hid_op_defs hid_wf_update hid_sent_zero_def host_of_def host_idle_def)
qed (auto simp: hid_op_defs dhp_hid_slot_held_def split: if_splits)

section \<open>Properties\<close>

text \<open>Everything the router does to the tracker, in the order it does it.\<close>

datatype hid_op =
    NoteKbd nat dhp_kbd_report_t
  | NoteMouse nat u8
  | Release nat
  | Forget nat

primrec hid_do :: "hid_op \<Rightarrow> dhp_hid_tracker_t \<Rightarrow> dhp_hid_tracker_t" where
  "hid_do (NoteKbd slot r) t = dhp_hid_note_kbd t slot r"
| "hid_do (NoteMouse slot b) t = dhp_hid_note_mouse t slot b"
| "hid_do (Release slot) t = fst (dhp_hid_build_release t slot)"
| "hid_do (Forget slot) t = dhp_hid_forget t slot"

text \<open>The same operations as the machines see them: the reports, and nothing else.\<close>

primrec hosts_do :: "hid_op \<Rightarrow> (nat \<Rightarrow> hid_host) \<Rightarrow> (nat \<Rightarrow> hid_host)" where
  "hosts_do (NoteKbd slot r) h = h(slot := host_kbd r (h slot))"
| "hosts_do (NoteMouse slot b) h = h(slot := host_mouse b (h slot))"
| "hosts_do (Release slot) h = h(slot := host_idle)"
| "hosts_do (Forget slot) h = h(slot := host_idle)"

primrec op_ok :: "hid_op \<Rightarrow> bool" where
  "op_ok (NoteKbd slot r) \<longleftrightarrow> slot < DHP_MAX_BOARDS \<and> kbd_wf r"
| "op_ok (NoteMouse slot b) \<longleftrightarrow> slot < DHP_MAX_BOARDS"
| "op_ok (Release slot) \<longleftrightarrow> slot < DHP_MAX_BOARDS"
| "op_ok (Forget slot) \<longleftrightarrow> slot < DHP_MAX_BOARDS"

lemma hid_do_refines:
  assumes "hid_wf t" "op_ok oper"
  shows "hid_wf (hid_do oper t) \<and> hid_view (hid_do oper t) = hosts_do oper (hid_view t)"
proof (cases oper)
  case (Release slot)
  then have s: "slot < DHP_MAX_BOARDS" using assms by simp
  have "hid_view (hid_do oper t) = (hid_view t)(slot := host_idle)"
    using hid.release_idle [OF assms(1) s] hid.release_other [OF assms(1) s] Release
    by (auto simp: fun_eq_iff)
  with Release assms show ?thesis by (simp add: hid.wf_release)
qed (use assms in \<open>simp_all add: hid.wf_kbd hid.wf_mouse hid.wf_forget hid.view_kbd hid.view_mouse hid.view_forget\<close>)

lemma hid_ops_refine:
  "hid_wf t \<Longrightarrow> list_all op_ok ops \<Longrightarrow>
     hid_wf (fold hid_do ops t) \<and> hid_view (fold hid_do ops t) = fold hosts_do ops (hid_view t)"
  by (induction ops arbitrary: t) (simp_all add: hid_do_refines)

lemma hid_view_init: "slot < DHP_MAX_BOARDS \<Longrightarrow> hid_view dhp_hid_tracker_init slot = host_idle"
  by (simp add: hid_view_def dhp_hid_tracker_init_def hid_sent_zero_def host_of_def host_idle_def)



text \<open>
  Releasing undoes everything. In any tracker state, the reports built for a slot, sent
  to its machine, leave that machine with no modifier, key or button down and change no
  other machine; a report is withheld only when the machine already has nothing down; and
  releasing the sixteen slots in turn leaves nothing held anywhere.
\<close>

theorem release_undoes_everything:
  assumes "hid_wf t" "slot < DHP_MAX_BOARDS"
  shows "host_release (snd (dhp_hid_build_release t slot)) (hid_view t slot) = host_idle \<and>
    hid_view (fst (dhp_hid_build_release t slot)) = (hid_view t)(slot := host_idle) \<and>
    (snd (dhp_hid_build_release t slot) = None \<longleftrightarrow> hid_view t slot = host_idle) \<and>
    \<not> dhp_hid_any_held (fold (\<lambda>s t. fst (dhp_hid_build_release t s)) [0..<DHP_MAX_BOARDS] t)"
proof -
  have v: "hid_view (fst (dhp_hid_build_release t slot)) = (hid_view t)(slot := host_idle)"
    using hid_do_refines [OF assms(1), of "Release slot"] assms(2) by simp
  have "host_release (snd (dhp_hid_build_release t slot)) (hid_view t slot) = host_idle"
    using hid.view_release [OF assms] hid.release_idle [OF assms] by simp
  with v show ?thesis
    using hid.release_None hid.held_iff [OF assms] hid.release_every_slot [OF assms(1)] by simp
qed

theorem release_undoes_everything_witness:
  "snd (dhp_hid_build_release (dhp_hid_note_mouse dhp_hid_tracker_init 5 2) 5) \<noteq> None \<and>
   hid_view (fst (dhp_hid_build_release (dhp_hid_note_mouse dhp_hid_tracker_init 5 2) 5)) 5 = host_idle"
proof -
  let ?t = "dhp_hid_note_mouse dhp_hid_tracker_init 5 2"
  have wf: "hid_wf ?t" by (rule hid.wf_mouse [OF hid_wf_init])
  have s: "5 < DHP_MAX_BOARDS" by (simp add: dhp_consts)
  have "hid_view ?t 5 \<noteq> host_idle"
    by (auto simp: hid.view_mouse [OF hid_wf_init s] host_mouse_def host_idle_def
        dest: arg_cong [where f = ho_buttons])
  then show ?thesis using release_undoes_everything [OF wf s] by simp
qed

end
