(* ===== verification/Dhp_Pointer.thy ===== *)
theory Dhp_Pointer
  imports Dhp_Msg "HOL-Library.Monad_Syntax"
begin

text \<open>
  Pointer crossing by relative dead reckoning, \<open>core/src/pointer.c\<close>. The integrators are
  \<open>int32_t\<close>: they are HOL integers, and every signed operation that could leave the 32-bit
  range goes through \<open>s32\<close>, which is \<open>None\<close> there. A \<open>None\<close> result of an operation is
  therefore exactly the undefined behaviour of a signed overflow in C, and a theorem that an
  operation returns \<open>Some\<close> shows that it has none.
\<close>

datatype dhp_edge_t =
    DHP_EDGE_NONE
  | DHP_EDGE_LEFT
  | DHP_EDGE_RIGHT
  | DHP_EDGE_UP
  | DHP_EDGE_DOWN

primrec edge_code :: "dhp_edge_t \<Rightarrow> u8" where
  "edge_code DHP_EDGE_NONE = 0"
| "edge_code DHP_EDGE_LEFT = 1"
| "edge_code DHP_EDGE_RIGHT = 2"
| "edge_code DHP_EDGE_UP = 3"
| "edge_code DHP_EDGE_DOWN = 4"

record dhp_pointer_cfg_t =
  pc_span :: int
  pc_push_threshold :: int
  pc_push_decay_per_ms :: int
  pc_reentry_guard :: int
  pc_vertical_enabled :: bool

definition DHP_POINTER_CFG_DEFAULT :: dhp_pointer_cfg_t where
  "DHP_POINTER_CFG_DEFAULT =
     \<lparr>pc_span = 8000, pc_push_threshold = 600, pc_push_decay_per_ms = 4,
      pc_reentry_guard = 1500, pc_vertical_enabled = False\<rparr>"

record dhp_pointer_t =
  pt_cfg :: dhp_pointer_cfg_t
  pt_travel_x :: int
  pt_travel_y :: int
  pt_push_x :: int
  pt_push_y :: int
  pt_last_update :: dhp_time_t
  pt_have_time :: bool

text \<open>The value of an \<open>int32_t\<close> operation, or \<open>None\<close> when it overflows.\<close>

definition s32 :: "int \<Rightarrow> int option" where
  "s32 v = (if - (2 ^ 31) \<le> v \<and> v < 2 ^ 31 then Some v else None)"

section \<open>Operations\<close>

primrec dhp_edge_name :: "dhp_edge_t \<Rightarrow> string" where
  "dhp_edge_name DHP_EDGE_NONE = ''none''"
| "dhp_edge_name DHP_EDGE_LEFT = ''left''"
| "dhp_edge_name DHP_EDGE_RIGHT = ''right''"
| "dhp_edge_name DHP_EDGE_UP = ''up''"
| "dhp_edge_name DHP_EDGE_DOWN = ''down''"

definition clamp :: "int \<Rightarrow> int \<Rightarrow> int \<Rightarrow> int" where
  "clamp v lo hi = (if v < lo then lo else if hi < v then hi else v)"

definition dhp_pointer_init :: "dhp_pointer_cfg_t option \<Rightarrow> dhp_pointer_t" where
  "dhp_pointer_init cfg =
     (let c = (case cfg of None \<Rightarrow> DHP_POINTER_CFG_DEFAULT | Some c \<Rightarrow> c);
          c' = (if pc_span c \<le> 0 then DHP_POINTER_CFG_DEFAULT else c)
      in \<lparr>pt_cfg = c', pt_travel_x = 0, pt_travel_y = 0, pt_push_x = 0, pt_push_y = 0,
          pt_last_update = 0, pt_have_time = False\<rparr>)"

text \<open>One accumulator of the decay: toward zero by at most \<open>bleed\<close>.\<close>

definition bleed_axis :: "int \<Rightarrow> int \<Rightarrow> int option" where
  "bleed_axis push bleed =
     (if 0 < push then (if bleed < push then s32 (push - bleed) else Some 0)
      else if push < 0 then
        do { n \<leftarrow> s32 (- push);
             if bleed < n then s32 (push + bleed) else Some 0 }
      else Some push)"

definition decay :: "dhp_pointer_t \<Rightarrow> dhp_time_t \<Rightarrow> dhp_pointer_t option" where
  "decay p now =
     (if \<not> pt_have_time p then Some (p\<lparr>pt_last_update := now, pt_have_time := True\<rparr>)
      else
        let dt = dhp_time_diff now (pt_last_update p);
            p1 = p\<lparr>pt_last_update := now\<rparr>
        in if dt \<le> 0 then Some p1
           else do {
             bleed \<leftarrow> s32 (dt * pc_push_decay_per_ms (pt_cfg p));
             if bleed \<le> 0 then Some p1
             else do {
               px \<leftarrow> bleed_axis (pt_push_x p1) bleed;
               py \<leftarrow> bleed_axis (pt_push_y p1) bleed;
               Some (p1\<lparr>pt_push_x := px, pt_push_y := py\<rparr>) } })"

text \<open>\<open>axis_feed\<close> updates \<open>*travel\<close> and \<open>*push\<close> and returns the crossing.\<close>

definition axis_feed ::
  "dhp_pointer_cfg_t \<Rightarrow> int \<Rightarrow> int \<Rightarrow> int \<Rightarrow> (int \<times> int \<times> int) option" where
  "axis_feed cfg d travel push =
     do {
       lo \<leftarrow> s32 (- pc_span cfg);
       sum \<leftarrow> s32 (travel + d);
       push' \<leftarrow>
         (if pc_span cfg \<le> travel \<and> 0 < d then s32 (push + d)
          else if travel \<le> lo \<and> d < 0 then s32 (push + d)
          else if d \<noteq> 0 then
            Some (if (0 < push \<and> d < 0) \<or> (push < 0 \<and> 0 < d) then 0 else push)
          else Some push);
       let travel' = clamp sum lo (pc_span cfg);
       if pc_push_threshold cfg \<le> push' then Some (travel', push', 1)
       else do {
         nthr \<leftarrow> s32 (- pc_push_threshold cfg);
         Some (travel', push', if push' \<le> nthr then - 1 else 0) } }"

definition dhp_pointer_arrive :: "dhp_pointer_t \<Rightarrow> dhp_edge_t \<Rightarrow> dhp_time_t \<Rightarrow> dhp_pointer_t option" where
  "dhp_pointer_arrive p from_edge now =
     (let span = pc_span (pt_cfg p);
          guard = pc_reentry_guard (pt_cfg p);
          p1 = p\<lparr>pt_push_x := 0, pt_push_y := 0, pt_last_update := now, pt_have_time := True\<rparr>
      in case from_edge of
           DHP_EDGE_RIGHT \<Rightarrow>
             do { lo \<leftarrow> s32 (- span); t \<leftarrow> s32 (lo + guard); Some (p1\<lparr>pt_travel_x := t, pt_travel_y := 0\<rparr>) }
         | DHP_EDGE_LEFT \<Rightarrow>
             do { t \<leftarrow> s32 (span - guard); Some (p1\<lparr>pt_travel_x := t, pt_travel_y := 0\<rparr>) }
         | DHP_EDGE_DOWN \<Rightarrow>
             do { lo \<leftarrow> s32 (- span); t \<leftarrow> s32 (lo + guard); Some (p1\<lparr>pt_travel_y := t, pt_travel_x := 0\<rparr>) }
         | DHP_EDGE_UP \<Rightarrow>
             do { t \<leftarrow> s32 (span - guard); Some (p1\<lparr>pt_travel_y := t, pt_travel_x := 0\<rparr>) }
         | DHP_EDGE_NONE \<Rightarrow> Some (p1\<lparr>pt_travel_x := 0, pt_travel_y := 0\<rparr>))"

definition dhp_pointer_feed ::
  "dhp_pointer_t \<Rightarrow> u16 \<Rightarrow> u16 \<Rightarrow> dhp_time_t \<Rightarrow> (dhp_pointer_t \<times> dhp_edge_t) option" where
  "dhp_pointer_feed p0 dx dy now =
     do {
       p1 \<leftarrow> decay p0 now;
       (tx, px, hx) \<leftarrow> axis_feed (pt_cfg p1) (sint dx) (pt_travel_x p1) (pt_push_x p1);
       let p = p1\<lparr>pt_travel_x := tx, pt_push_x := px\<rparr>;
       if 0 < hx then map_option (\<lambda>q. (q, DHP_EDGE_RIGHT)) (dhp_pointer_arrive p DHP_EDGE_RIGHT now)
       else if hx < 0 then map_option (\<lambda>q. (q, DHP_EDGE_LEFT)) (dhp_pointer_arrive p DHP_EDGE_LEFT now)
       else if pc_vertical_enabled (pt_cfg p) then
         do {
           (ty, py, hy) \<leftarrow> axis_feed (pt_cfg p) (sint dy) (pt_travel_y p) (pt_push_y p);
           let q = p\<lparr>pt_travel_y := ty, pt_push_y := py\<rparr>;
           if 0 < hy then map_option (\<lambda>q. (q, DHP_EDGE_DOWN)) (dhp_pointer_arrive q DHP_EDGE_DOWN now)
           else if hy < 0 then map_option (\<lambda>q. (q, DHP_EDGE_UP)) (dhp_pointer_arrive q DHP_EDGE_UP now)
           else Some (q, DHP_EDGE_NONE) }
       else
         do {
           sum \<leftarrow> s32 (pt_travel_y p + sint dy);
           lo \<leftarrow> s32 (- pc_span (pt_cfg p));
           Some (p\<lparr>pt_travel_y := clamp sum lo (pc_span (pt_cfg p))\<rparr>, DHP_EDGE_NONE) } }"

section \<open>Well-formed integrators\<close>

text \<open>
  Configurations for which the arithmetic fits: positive span and threshold of at most
  \<open>2 ^ 30\<close> counts, a guard band inside the span, a non-negative decay.
\<close>

definition pcfg_ok :: "dhp_pointer_cfg_t \<Rightarrow> bool" where
  "pcfg_ok c \<longleftrightarrow> 0 < pc_span c \<and> pc_span c \<le> 2 ^ 30 \<and> 0 < pc_push_threshold c \<and>
     pc_push_threshold c \<le> 2 ^ 30 \<and> 0 \<le> pc_push_decay_per_ms c \<and>
     0 \<le> pc_reentry_guard c \<and> pc_reentry_guard c \<le> pc_span c"

definition pointer_wf :: "dhp_pointer_t \<Rightarrow> bool" where
  "pointer_wf p \<longleftrightarrow> pcfg_ok (pt_cfg p) \<and>
     \<bar>pt_travel_x p\<bar> \<le> pc_span (pt_cfg p) \<and> \<bar>pt_travel_y p\<bar> \<le> pc_span (pt_cfg p) \<and>
     \<bar>pt_push_x p\<bar> < pc_push_threshold (pt_cfg p) \<and> \<bar>pt_push_y p\<bar> < pc_push_threshold (pt_cfg p)"

text \<open>Milliseconds the decay counts, and the reference form of one axis step.\<close>

definition elapsed :: "dhp_pointer_t \<Rightarrow> dhp_time_t \<Rightarrow> int" where
  "elapsed p now = (if pt_have_time p then max 0 (dhp_time_diff now (pt_last_update p)) else 0)"

definition bled :: "int \<Rightarrow> int \<Rightarrow> int" where
  "bled push b = (if 0 < push then max 0 (push - b) else min 0 (push + b))"

definition axis_push :: "int \<Rightarrow> int \<Rightarrow> int \<Rightarrow> int \<Rightarrow> int" where
  "axis_push span d travel push =
     (if (span \<le> travel \<and> 0 < d) \<or> (travel \<le> - span \<and> d < 0) then push + d
      else if (0 < push \<and> d < 0) \<or> (push < 0 \<and> 0 < d) then 0 else push)"

definition cross_sign :: "int \<Rightarrow> int \<Rightarrow> int" where
  "cross_sign thr push = (if thr \<le> push then 1 else if push \<le> - thr then - 1 else 0)"

lemma s32_Some [simp]: "- (2 ^ 31) \<le> v \<Longrightarrow> v < 2 ^ 31 \<Longrightarrow> s32 v = Some v"
  by (simp add: s32_def)

lemma sint16_bounds: "- 32768 \<le> sint (d :: u16)" "sint (d :: u16) \<le> 32767"
  using sint_ge [of d] sint_lt [of d] by simp_all

lemma axis_feed_eq:
  assumes "pcfg_ok c" "\<bar>d\<bar> \<le> 32768" "\<bar>travel\<bar> \<le> pc_span c" "\<bar>push\<bar> < pc_push_threshold c"
  shows "axis_feed c d travel push =
    Some (clamp (travel + d) (- pc_span c) (pc_span c), axis_push (pc_span c) d travel push,
      cross_sign (pc_push_threshold c) (axis_push (pc_span c) d travel push))"
proof -
  have r: "s32 (- pc_span c) = Some (- pc_span c)" "s32 (travel + d) = Some (travel + d)"
    "s32 (push + d) = Some (push + d)" "s32 (- pc_push_threshold c) = Some (- pc_push_threshold c)"
    by (rule s32_Some; use assms in \<open>auto simp: pcfg_ok_def abs_le_iff abs_less_iff\<close>)+
  then show ?thesis
    by (simp add: axis_feed_def axis_push_def cross_sign_def Let_def)
qed

lemma bleed_axis_eq: "\<bar>push\<bar> < 2 ^ 31 \<Longrightarrow> 0 < b \<Longrightarrow> bleed_axis push b = Some (bled push b)"
  by (auto simp: bleed_axis_def bled_def s32_def)

lemma decay_eq:
  assumes "pointer_wf p" "elapsed p now * pc_push_decay_per_ms (pt_cfg p) < 2 ^ 31"
  shows "decay p now = Some (p\<lparr>
     pt_push_x := bled (pt_push_x p) (elapsed p now * pc_push_decay_per_ms (pt_cfg p)),
     pt_push_y := bled (pt_push_y p) (elapsed p now * pc_push_decay_per_ms (pt_cfg p)),
     pt_last_update := now, pt_have_time := True\<rparr>)"
proof -
  let ?dt = "dhp_time_diff now (pt_last_update p)"
  let ?k = "pc_push_decay_per_ms (pt_cfg p)"
  have push: "\<bar>pt_push_x p\<bar> < 2 ^ 31" "\<bar>pt_push_y p\<bar> < 2 ^ 31" and k: "0 \<le> ?k"
    using assms(1) by (auto simp: pointer_wf_def pcfg_ok_def)
  have z: "bled v 0 = v" for v by (simp add: bled_def)
  show ?thesis
  proof (cases "pt_have_time p \<and> 0 < ?dt")
    case False
    then have "elapsed p now = 0" by (auto simp: elapsed_def)
    with False show ?thesis by (cases "pt_have_time p") (simp_all add: decay_def z Let_def)
  next
    case True
    then have e: "elapsed p now = ?dt" by (simp add: elapsed_def)
    then have s: "s32 (?dt * ?k) = Some (?dt * ?k)"
      using assms(2) True k by (intro s32_Some) (simp_all add: order_trans [OF _ mult_nonneg_nonneg])
    show ?thesis
    proof (cases "?dt * ?k \<le> 0")
      case zero: True
      then have "?dt * ?k = 0" using True k by (meson mult_nonneg_nonneg order_antisym less_imp_le)
      with True s e z show ?thesis by (simp add: decay_def Let_def)
    next
      case False
      with True s e push show ?thesis by (simp add: decay_def Let_def bleed_axis_eq)
    qed
  qed
qed

lemma arrive_eq:
  assumes "pcfg_ok (pt_cfg p)"
  shows "\<exists>q. dhp_pointer_arrive p e now = Some q \<and> pointer_wf q \<and> pt_cfg q = pt_cfg p \<and>
    pt_last_update q = now \<and> pt_have_time q \<and> pt_push_x q = 0 \<and> pt_push_y q = 0"
  using assms by (cases e) (auto simp: dhp_pointer_arrive_def pcfg_ok_def pointer_wf_def Let_def)

section \<open>One report\<close>

definition x_push :: "dhp_pointer_t \<Rightarrow> u16 \<Rightarrow> dhp_time_t \<Rightarrow> int" where
  "x_push p dx now = axis_push (pc_span (pt_cfg p)) (sint dx) (pt_travel_x p)
     (bled (pt_push_x p) (elapsed p now * pc_push_decay_per_ms (pt_cfg p)))"

definition y_push :: "dhp_pointer_t \<Rightarrow> u16 \<Rightarrow> dhp_time_t \<Rightarrow> int" where
  "y_push p dy now = axis_push (pc_span (pt_cfg p)) (sint dy) (pt_travel_y p)
     (bled (pt_push_y p) (elapsed p now * pc_push_decay_per_ms (pt_cfg p)))"

lemma clamp_bound: "0 \<le> s \<Longrightarrow> \<bar>clamp v (- s) s\<bar> \<le> s"
  by (auto simp: clamp_def)

lemma bled_bound: "0 \<le> b \<Longrightarrow> \<bar>push\<bar> < thr \<Longrightarrow> \<bar>bled push b\<bar> < thr"
  by (auto simp: bled_def)

lemma cross_sign_0: "0 < thr \<Longrightarrow> cross_sign thr q = 0 \<longleftrightarrow> \<bar>q\<bar> < thr"
  by (auto simp: cross_sign_def)

lemma elapsed_decay_nonneg: "pcfg_ok (pt_cfg p) \<Longrightarrow> 0 \<le> elapsed p now * pc_push_decay_per_ms (pt_cfg p)"
  by (simp add: elapsed_def pcfg_ok_def)

lemma x_axis:
  assumes wf: "pointer_wf p"
  shows "axis_feed (pt_cfg p) (sint dx) (pt_travel_x p)
      (bled (pt_push_x p) (elapsed p now * pc_push_decay_per_ms (pt_cfg p))) =
    Some (clamp (pt_travel_x p + sint dx) (- pc_span (pt_cfg p)) (pc_span (pt_cfg p)), x_push p dx now,
      cross_sign (pc_push_threshold (pt_cfg p)) (x_push p dx now))"
proof -
  have ok: "pcfg_ok (pt_cfg p)" using wf by (simp add: pointer_wf_def)
  show ?thesis
    unfolding x_push_def using wf elapsed_decay_nonneg [OF ok, of now] sint16_bounds [of dx]
    by (intro axis_feed_eq ok) (auto simp: pointer_wf_def intro: bled_bound)
qed

lemma y_axis:
  assumes wf: "pointer_wf p"
  shows "axis_feed (pt_cfg p) (sint dy) (pt_travel_y p)
      (bled (pt_push_y p) (elapsed p now * pc_push_decay_per_ms (pt_cfg p))) =
    Some (clamp (pt_travel_y p + sint dy) (- pc_span (pt_cfg p)) (pc_span (pt_cfg p)), y_push p dy now,
      cross_sign (pc_push_threshold (pt_cfg p)) (y_push p dy now))"
proof -
  have ok: "pcfg_ok (pt_cfg p)" using wf by (simp add: pointer_wf_def)
  show ?thesis
    unfolding y_push_def using wf elapsed_decay_nonneg [OF ok, of now] sint16_bounds [of dy]
    by (intro axis_feed_eq ok) (auto simp: pointer_wf_def intro: bled_bound)
qed

text \<open>
  The whole of \<open>dhp_pointer_feed\<close> on a well-formed integrator: it returns, stays well-formed,
  and reports an edge exactly when an axis reaches its threshold.
\<close>

lemma feed_spec:
  assumes wf: "pointer_wf p"
    and fits: "elapsed p now * pc_push_decay_per_ms (pt_cfg p) < 2 ^ 31"
  shows "\<exists>q e. dhp_pointer_feed p dx dy now = Some (q, e) \<and> pointer_wf q \<and> pt_cfg q = pt_cfg p \<and>
    pt_last_update q = now \<and> pt_have_time q \<and>
    (e = DHP_EDGE_NONE \<longleftrightarrow> \<bar>x_push p dx now\<bar> < pc_push_threshold (pt_cfg p) \<and>
       (pc_vertical_enabled (pt_cfg p) \<longrightarrow> \<bar>y_push p dy now\<bar> < pc_push_threshold (pt_cfg p))) \<and>
    (e = DHP_EDGE_NONE \<longrightarrow> pt_push_x q = x_push p dx now \<and>
       pt_travel_x q = clamp (pt_travel_x p + sint dx) (- pc_span (pt_cfg p)) (pc_span (pt_cfg p)))"
proof -
  let ?c = "pt_cfg p" let ?thr = "pc_push_threshold ?c"
  let ?b = "elapsed p now * pc_push_decay_per_ms ?c"
  have ok: "pcfg_ok ?c" and t: "0 < ?thr" and sp: "0 \<le> pc_span ?c"
    using wf by (auto simp: pointer_wf_def pcfg_ok_def)
  note ax = x_axis [OF wf, of dx now] and ay = y_axis [OF wf, of dy now]
  have ys: "s32 (pt_travel_y p + sint dy) = Some (pt_travel_y p + sint dy)"
    "s32 (- pc_span ?c) = Some (- pc_span ?c)"
    using wf ok sint16_bounds [of dy] by (auto intro!: s32_Some simp: pointer_wf_def pcfg_ok_def abs_le_iff)
  have yb: "\<bar>bled (pt_push_y p) ?b\<bar> < ?thr"
    using wf elapsed_decay_nonneg [OF ok] by (auto simp: pointer_wf_def intro: bled_bound)
  have arr: "\<exists>q. dhp_pointer_arrive r e now = Some q \<and> pointer_wf q \<and> pt_cfg q = pt_cfg r \<and>
      pt_last_update q = now \<and> pt_have_time q" if "pt_cfg r = ?c" for r e
    using arrive_eq [of r e now] ok that by auto
  show ?thesis
  proof (cases "\<bar>x_push p dx now\<bar> < ?thr")
    case False
    then have "cross_sign ?thr (x_push p dx now) \<noteq> 0" using cross_sign_0 [OF t] by blast
    with False show ?thesis
      using arr [of "p\<lparr>pt_push_y := bled (pt_push_y p) ?b, pt_last_update := now, pt_have_time := True,
            pt_travel_x := clamp (pt_travel_x p + sint dx) (- pc_span ?c) (pc_span ?c), pt_push_x := x_push p dx now\<rparr>"]
      by (fastforce simp: dhp_pointer_feed_def decay_eq [OF wf fits] ax Let_def)
  next
    case x: True
    then have x0: "cross_sign ?thr (x_push p dx now) = 0" using cross_sign_0 [OF t] by blast
    show ?thesis
    proof (cases "pc_vertical_enabled ?c")
      case False
      with x x0 yb ok clamp_bound [OF sp] show ?thesis
        by (simp add: dhp_pointer_feed_def decay_eq [OF wf fits] ax ys Let_def pointer_wf_def)
    next
      case v: True
      show ?thesis
      proof (cases "\<bar>y_push p dy now\<bar> < ?thr")
        case True
        then have "cross_sign ?thr (y_push p dy now) = 0" using cross_sign_0 [OF t] by blast
        with True v x x0 ok clamp_bound [OF sp] show ?thesis
          by (simp add: dhp_pointer_feed_def decay_eq [OF wf fits] ax ay Let_def pointer_wf_def)
      next
        case False
        then have "cross_sign ?thr (y_push p dy now) \<noteq> 0" using cross_sign_0 [OF t] by blast
        with False v x x0 show ?thesis
          using arr [of "p\<lparr>pt_last_update := now, pt_have_time := True,
            pt_travel_x := clamp (pt_travel_x p + sint dx) (- pc_span ?c) (pc_span ?c), pt_push_x := x_push p dx now,
            pt_travel_y := clamp (pt_travel_y p + sint dy) (- pc_span ?c) (pc_span ?c), pt_push_y := y_push p dy now\<rparr>"]
          by (fastforce simp: dhp_pointer_feed_def decay_eq [OF wf fits] ax ay Let_def)
      qed
    qed
  qed
qed

section \<open>A stream of reports\<close>

text \<open>Reports \<open>(dx, dy, dt)\<close>, each \<open>dt\<close> milliseconds after the one before.\<close>

fun pointer_run :: "dhp_pointer_t \<Rightarrow> (u16 \<times> u16 \<times> u32) list \<Rightarrow> (dhp_pointer_t \<times> dhp_edge_t list) option" where
  "pointer_run p [] = Some (p, [])"
| "pointer_run p ((dx, dy, dt) # rs) =
     do { (p', e) \<leftarrow> dhp_pointer_feed p dx dy (pt_last_update p + dt);
          (q, es) \<leftarrow> pointer_run p' rs;
          Some (q, e # es) }"

definition report_fits :: "dhp_pointer_cfg_t \<Rightarrow> u16 \<times> u16 \<times> u32 \<Rightarrow> bool" where
  "report_fits c = (\<lambda>(dx, dy, dt). int (unat dt) * pc_push_decay_per_ms c < 2 ^ 31)"

lemma elapsed_add_le: "elapsed p (pt_last_update p + dt) \<le> int (unat dt)"
  by (simp add: elapsed_def dhp_time_diff_def sint_cases)

lemma elapsed_add_eq:
  "pt_have_time p \<Longrightarrow> unat dt < 2 ^ 31 \<Longrightarrow> elapsed p (pt_last_update p + dt) = int (unat dt)"
  using of_nat_less_iff [of "unat dt" "2 ^ 31", where 'a = int]
  by (simp add: elapsed_def dhp_time_diff_def sint_cases)

lemma report_fitsD:
  assumes "pointer_wf p" "report_fits (pt_cfg p) (dx, dy, dt)"
  shows "elapsed p (pt_last_update p + dt) * pc_push_decay_per_ms (pt_cfg p) < 2 ^ 31"
proof -
  have "elapsed p (pt_last_update p + dt) * pc_push_decay_per_ms (pt_cfg p)
      \<le> int (unat dt) * pc_push_decay_per_ms (pt_cfg p)"
    using assms(1) by (intro mult_right_mono elapsed_add_le) (simp add: pointer_wf_def pcfg_ok_def)
  with assms(2) show ?thesis by (simp add: report_fits_def)
qed

lemma pointer_run_safe:
  "pointer_wf p \<Longrightarrow> list_all (report_fits (pt_cfg p)) rs \<Longrightarrow>
     \<exists>q es. pointer_run p rs = Some (q, es) \<and> length es = length rs \<and> pointer_wf q \<and> pt_cfg q = pt_cfg p"
proof (induction rs arbitrary: p)
  case (Cons r rs)
  obtain dx dy dt where r: "r = (dx, dy, dt)" by (cases r)
  obtain q e where "dhp_pointer_feed p dx dy (pt_last_update p + dt) = Some (q, e)" "pointer_wf q" "pt_cfg q = pt_cfg p"
    using feed_spec [OF Cons.prems(1) report_fitsD [OF Cons.prems(1)], of dx dy dt dx dy] Cons.prems(2)
    by (auto simp: r)
  with Cons.IH [of q] Cons.prems(2) show ?case by (auto simp: r)
qed simp

text \<open>Slower than the decay, and below the threshold in any one report.\<close>

definition slow_axis :: "dhp_pointer_cfg_t \<Rightarrow> u16 \<Rightarrow> u32 \<Rightarrow> bool" where
  "slow_axis c d dt \<longleftrightarrow> \<bar>sint d\<bar> \<le> pc_push_decay_per_ms c * int (unat dt) \<and> \<bar>sint d\<bar> < pc_push_threshold c"

definition slow_report :: "dhp_pointer_cfg_t \<Rightarrow> u16 \<times> u16 \<times> u32 \<Rightarrow> bool" where
  "slow_report c = (\<lambda>(dx, dy, dt). unat dt < 2 ^ 31 \<and> report_fits c (dx, dy, dt) \<and>
     slow_axis c dx dt \<and> (pc_vertical_enabled c \<longrightarrow> slow_axis c dy dt))"

lemma axis_push_slow:
  "\<bar>push\<bar> < thr \<Longrightarrow> \<bar>d\<bar> \<le> b \<Longrightarrow> \<bar>d\<bar> < thr \<Longrightarrow> \<bar>axis_push span d travel (bled push b)\<bar> < thr"
  by (auto simp: axis_push_def bled_def max_def min_def)

lemma slow_run:
  "pointer_wf p \<Longrightarrow> pt_have_time p \<Longrightarrow> list_all (slow_report (pt_cfg p)) rs \<Longrightarrow>
     \<exists>q. pointer_run p rs = Some (q, replicate (length rs) DHP_EDGE_NONE)"
proof (induction rs arbitrary: p)
  case (Cons r rs)
  obtain dx dy dt where r: "r = (dx, dy, dt)" by (cases r)
  let ?now = "pt_last_update p + dt"
  have slow: "unat dt < 2 ^ 31" "report_fits (pt_cfg p) (dx, dy, dt)" "slow_axis (pt_cfg p) dx dt"
    "pc_vertical_enabled (pt_cfg p) \<longrightarrow> slow_axis (pt_cfg p) dy dt"
    using Cons.prems(3) by (auto simp: r slow_report_def)
  have "\<bar>x_push p dx ?now\<bar> < pc_push_threshold (pt_cfg p)"
    "pc_vertical_enabled (pt_cfg p) \<longrightarrow> \<bar>y_push p dy ?now\<bar> < pc_push_threshold (pt_cfg p)"
    using Cons.prems(1,2) slow
    by (auto simp: x_push_def y_push_def slow_axis_def elapsed_add_eq pointer_wf_def mult.commute
        intro!: axis_push_slow)
  then obtain q where "dhp_pointer_feed p dx dy ?now = Some (q, DHP_EDGE_NONE)" "pointer_wf q"
    "pt_cfg q = pt_cfg p" "pt_have_time q"
    using feed_spec [OF Cons.prems(1) report_fitsD [OF Cons.prems(1) slow(2)], of dx dy] by metis
  with Cons.IH [of q] Cons.prems(3) show ?case by (auto simp: r)
qed simp

text \<open>The counts still missing for a crossing to the right and to the left.\<close>

definition cost_right :: "dhp_pointer_t \<Rightarrow> int" where
  "cost_right p = (if 0 < pt_push_x p then pc_push_threshold (pt_cfg p) - pt_push_x p
     else (pc_span (pt_cfg p) - pt_travel_x p) + pc_push_threshold (pt_cfg p))"

definition cost_left :: "dhp_pointer_t \<Rightarrow> int" where
  "cost_left p = (if pt_push_x p < 0 then pc_push_threshold (pt_cfg p) + pt_push_x p
     else (pc_span (pt_cfg p) + pt_travel_x p) + pc_push_threshold (pt_cfg p))"

definition travelled :: "(u16 \<times> u16 \<times> u32) list \<Rightarrow> int" where
  "travelled rs = sum_list (map (\<lambda>(dx, dy, dt). \<bar>sint dx\<bar>) rs)"

lemma x_push_cost:
  assumes "pointer_wf p" "\<bar>sint dx\<bar> < cost_right p" "\<bar>sint dx\<bar> < cost_left p"
  shows "\<bar>x_push p dx now\<bar> < pc_push_threshold (pt_cfg p)"
  using assms elapsed_decay_nonneg [of p now]
  by (auto simp: x_push_def cost_right_def cost_left_def pointer_wf_def axis_push_def bled_def
      max_def min_def abs_if split: if_splits)

lemma feed_cost:
  assumes "pointer_wf p" "pt_push_x q = x_push p dx now" "pt_cfg q = pt_cfg p"
    "pt_travel_x q = clamp (pt_travel_x p + sint dx) (- pc_span (pt_cfg p)) (pc_span (pt_cfg p))"
  shows "cost_right p - \<bar>sint dx\<bar> \<le> cost_right q \<and> cost_left p - \<bar>sint dx\<bar> \<le> cost_left q"
  using assms elapsed_decay_nonneg [of p now]
  by (auto simp: x_push_def cost_right_def cost_left_def pointer_wf_def axis_push_def bled_def
      clamp_def max_def min_def abs_if pcfg_ok_def split: if_splits)

lemma cheap_run:
  "pointer_wf p \<Longrightarrow> \<not> pc_vertical_enabled (pt_cfg p) \<Longrightarrow> list_all (report_fits (pt_cfg p)) rs \<Longrightarrow>
     travelled rs < cost_right p \<Longrightarrow> travelled rs < cost_left p \<Longrightarrow>
     \<exists>q. pointer_run p rs = Some (q, replicate (length rs) DHP_EDGE_NONE)"
proof (induction rs arbitrary: p)
  case (Cons r rs)
  obtain dx dy dt where r: "r = (dx, dy, dt)" by (cases r)
  let ?now = "pt_last_update p + dt"
  have fits: "report_fits (pt_cfg p) (dx, dy, dt)" using Cons.prems(3) by (simp add: r)
  have "0 \<le> travelled rs" by (auto simp: travelled_def intro!: sum_list_nonneg)
  then have "\<bar>sint dx\<bar> < cost_right p" "\<bar>sint dx\<bar> < cost_left p"
    using Cons.prems(4,5) by (simp_all add: r travelled_def)
  then have x: "\<bar>x_push p dx ?now\<bar> < pc_push_threshold (pt_cfg p)"
    using Cons.prems(1) by (intro x_push_cost)
  obtain q where q: "dhp_pointer_feed p dx dy ?now = Some (q, DHP_EDGE_NONE)" "pointer_wf q"
    "pt_cfg q = pt_cfg p" "pt_push_x q = x_push p dx ?now"
    "pt_travel_x q = clamp (pt_travel_x p + sint dx) (- pc_span (pt_cfg p)) (pc_span (pt_cfg p))"
    using feed_spec [OF Cons.prems(1) report_fitsD [OF Cons.prems(1) fits], of dx dy] x Cons.prems(2) by metis
  have "travelled rs < cost_right q" "travelled rs < cost_left q"
    using feed_cost [OF Cons.prems(1) q(4,3,5)] Cons.prems(4,5) by (simp_all add: r travelled_def)
  with Cons.IH [of q] Cons.prems(2,3) q show ?case by (auto simp: r)
qed simp

section \<open>Properties\<close>

lemma pcfg_ok_default: "pcfg_ok DHP_POINTER_CFG_DEFAULT"
  by (simp add: pcfg_ok_def DHP_POINTER_CFG_DEFAULT_def)

text \<open>
  C38. No overflow and bounded integrators. On a configuration whose span and threshold fit,
  any stream of reports none of which comes so late that the decay product overflows is
  processed without signed overflow; the integrators stay within the span, the pushes below
  the threshold, and each report is answered once.
\<close>

theorem pointer_no_overflow:
  assumes "pcfg_ok c" "list_all (report_fits c) rs"
  shows "\<exists>q es. pointer_run (dhp_pointer_init (Some c)) rs = Some (q, es) \<and>
    length es = length rs \<and> pt_cfg q = c \<and>
    \<bar>pt_travel_x q\<bar> \<le> pc_span c \<and> \<bar>pt_travel_y q\<bar> \<le> pc_span c \<and>
    \<bar>pt_push_x q\<bar> < pc_push_threshold c \<and> \<bar>pt_push_y q\<bar> < pc_push_threshold c"
proof -
  have init: "pt_cfg (dhp_pointer_init (Some c)) = c" "pointer_wf (dhp_pointer_init (Some c))"
    using assms(1) by (simp_all add: dhp_pointer_init_def pointer_wf_def Let_def, simp_all add: pcfg_ok_def)
  then obtain q es where "pointer_run (dhp_pointer_init (Some c)) rs = Some (q, es)"
    "length es = length rs" "pointer_wf q" "pt_cfg q = c"
    using pointer_run_safe [of "dhp_pointer_init (Some c)" rs] assms(2) by auto
  then show ?thesis by (auto simp: pointer_wf_def)
qed

theorem pointer_no_overflow_witness:
  "\<exists>q es. pointer_run (dhp_pointer_init (Some DHP_POINTER_CFG_DEFAULT)) [(0x7FFF, 0, 5), (700, 3, 8)] = Some (q, es) \<and>
     length es = 2 \<and> \<bar>pt_travel_x q\<bar> \<le> 8000"
proof -
  have "list_all (report_fits DHP_POINTER_CFG_DEFAULT) [(0x7FFF, 0, 5), (700, 3, 8)]"
    by (simp add: report_fits_def DHP_POINTER_CFG_DEFAULT_def)
  then show ?thesis
    using pointer_no_overflow [OF pcfg_ok_default] by (fastforce simp: DHP_POINTER_CFG_DEFAULT_def)
qed

text \<open>
  The speed floor. A mouse that moves no faster than the decay rate, and by less than
  the threshold in any single report, never crosses, however long it is held against the
  edge and whatever push it starts with.
\<close>

theorem slow_drift_never_crosses:
  assumes "pointer_wf p" "pt_have_time p" "list_all (slow_report (pt_cfg p)) rs"
  shows "\<exists>q. pointer_run p rs = Some (q, replicate (length rs) DHP_EDGE_NONE)"
  using slow_run [OF assms] .

theorem slow_drift_never_crosses_witness:
  "\<exists>q. pointer_run \<lparr>pt_cfg = DHP_POINTER_CFG_DEFAULT, pt_travel_x = 8000, pt_travel_y = 0, pt_push_x = 590,
       pt_push_y = 0, pt_last_update = 100, pt_have_time = True\<rparr> (replicate 1000 (32, 0, 8)) =
     Some (q, replicate 1000 DHP_EDGE_NONE)"
proof -
  let ?p = "\<lparr>pt_cfg = DHP_POINTER_CFG_DEFAULT, pt_travel_x = 8000, pt_travel_y = 0, pt_push_x = 590,
       pt_push_y = 0, pt_last_update = 100, pt_have_time = True\<rparr>"
  have "pointer_wf ?p" using pcfg_ok_default
    by (simp add: pointer_wf_def) (simp add: DHP_POINTER_CFG_DEFAULT_def)
  moreover have "slow_report DHP_POINTER_CFG_DEFAULT (32, 0, 8)"
    by (simp add: slow_report_def slow_axis_def report_fits_def DHP_POINTER_CFG_DEFAULT_def)
  ultimately show ?thesis
    using slow_drift_never_crosses [of ?p "replicate 1000 (32, 0, 8)"] by (simp add: list_all_iff del: replicate.simps)
qed

text \<open>
  No bounce. After the pointer has arrived through a side, no stream of reports that
  travels less than the guard band plus the push threshold, in either direction and with
  any timing, crosses again: coming straight back costs a deliberate movement.
\<close>

theorem no_accidental_bounce:
  assumes "pointer_wf p" "\<not> pc_vertical_enabled (pt_cfg p)" "e = DHP_EDGE_LEFT \<or> e = DHP_EDGE_RIGHT"
    and "list_all (report_fits (pt_cfg p)) rs"
    and "travelled rs < pc_reentry_guard (pt_cfg p) + pc_push_threshold (pt_cfg p)"
  shows "\<exists>q r. dhp_pointer_arrive p e now = Some q \<and>
    pointer_run q rs = Some (r, replicate (length rs) DHP_EDGE_NONE)"
proof -
  have ok: "pcfg_ok (pt_cfg p)" using assms(1) by (simp add: pointer_wf_def)
  obtain q where q: "dhp_pointer_arrive p e now = Some q" "pointer_wf q" "pt_cfg q = pt_cfg p" "pt_push_x q = 0"
    using arrive_eq [OF ok] by blast
  have "\<bar>pt_travel_x q\<bar> = pc_span (pt_cfg p) - pc_reentry_guard (pt_cfg p)"
    using q(1) assms(3) ok by (auto simp: dhp_pointer_arrive_def Let_def pcfg_ok_def)
  then have "travelled rs < cost_right q" "travelled rs < cost_left q"
    using assms(5) q by (auto simp: cost_right_def cost_left_def)
  then show ?thesis using cheap_run [OF q(2)] q assms(2,4) by metis
qed

theorem no_accidental_bounce_witness:
  "\<exists>q r. dhp_pointer_arrive (dhp_pointer_init None) DHP_EDGE_RIGHT 0 = Some q \<and>
     pointer_run q [(-1500, 0, 1), (-599, 0, 1)] = Some (r, [DHP_EDGE_NONE, DHP_EDGE_NONE])"
proof -
  let ?p = "dhp_pointer_init None"
  have c: "pt_cfg ?p = DHP_POINTER_CFG_DEFAULT" by (simp add: dhp_pointer_init_def DHP_POINTER_CFG_DEFAULT_def)
  have "pointer_wf ?p" using pcfg_ok_default c
    by (simp add: pointer_wf_def) (simp add: dhp_pointer_init_def DHP_POINTER_CFG_DEFAULT_def)
  moreover have "list_all (report_fits DHP_POINTER_CFG_DEFAULT) [(-1500, 0, 1), (-599, 0, 1)]"
    by (simp add: report_fits_def DHP_POINTER_CFG_DEFAULT_def)
  moreover have "travelled [(-1500, 0, 1), (-599, 0, 1)] < 1500 + 600"
    by (simp add: travelled_def)
  ultimately show ?thesis
    using no_accidental_bounce [of ?p DHP_EDGE_RIGHT "[(-1500, 0, 1), (-599, 0, 1)]" 0] c
    by (simp add: numeral_2_eq_2) (simp add: DHP_POINTER_CFG_DEFAULT_def)
qed

text \<open>
  The idle overflow. A report that comes after the mouse has been still for so long that
  the decay product leaves the 32-bit range (536 870 912 ms, about six days, with the default
  rate of four) makes \<open>decay\<close> overflow a signed multiplication.
\<close>

theorem idle_decay_overflow:
  assumes "pt_have_time p" "unat dt < 2 ^ 31" "2 ^ 31 \<le> int (unat dt) * pc_push_decay_per_ms (pt_cfg p)"
  shows "dhp_pointer_feed p dx dy (pt_last_update p + dt) = None"
proof -
  have e: "dhp_time_diff (pt_last_update p + dt) (pt_last_update p) = int (unat dt)"
    using assms(2) of_nat_less_iff [of "unat dt" "2 ^ 31", where 'a = int]
    by (simp add: dhp_time_diff_def sint_cases)
  have "s32 (int (unat dt) * pc_push_decay_per_ms (pt_cfg p)) = None"
    using assms(3) by (simp add: s32_def)
  moreover have "uint dt \<noteq> 0" using assms(3) by (intro notI) simp
  ultimately show ?thesis using assms(1) by (simp add: dhp_pointer_feed_def decay_def e Let_def)
qed

theorem idle_decay_overflow_witness:
  "dhp_pointer_feed ((dhp_pointer_init None)\<lparr>pt_have_time := True\<rparr>) 1 0 (0 + 536870912) = None"
  using idle_decay_overflow [of "(dhp_pointer_init None)\<lparr>pt_have_time := True\<rparr>" 536870912 1 0]
  by (simp add: dhp_pointer_init_def DHP_POINTER_CFG_DEFAULT_def Let_def)

end
