(* ===== verification/Dhp_Uhrp.thy ===== *)
theory Dhp_Uhrp
  imports Dhp_Level Dhp_Msg
begin

text \<open>
  The role election, \<open>core/src/uhrp.c\<close>. The state is the C struct \<open>dhp_uhrp_t\<close>, field by
  field; \<open>reevaluate\<close> is split into the blocks its comments name (learning, holding the
  role, following, vacancy), and every entry point of \<open>dhp/uhrp.h\<close> is one definition. Calls
  in any order form a transition system whose invariant says, among other things, that a
  board holds the role exactly when it believes itself to be the active speaker.
\<close>

record dhp_uhrp_timing_t =
  ut_hello_ms :: u16
  ut_hold_ms :: u16
  ut_learn_ms :: u16
  ut_handover_defer_max_ms :: u16

definition DHP_UHRP_TIMING_DEFAULT :: dhp_uhrp_timing_t where
  "DHP_UHRP_TIMING_DEFAULT =
     \<lparr>ut_hello_ms = 50, ut_hold_ms = 150, ut_learn_ms = 150, ut_handover_defer_max_ms = 2000\<rparr>"

record dhp_uhrp_config_t =
  uc_uid :: dhp_uid_t
  uc_addr :: dhp_addr_t
  uc_priority :: u8
  uc_caps :: u16
  uc_preempt :: bool
  uc_timing :: dhp_uhrp_timing_t

record dhp_uhrp_peer_t =
  up_used :: bool
  up_uid :: dhp_uid_t
  up_addr :: dhp_addr_t
  up_priority :: u8
  up_state :: u8
  up_flags :: u8
  up_caps :: u16
  up_last_seen :: dhp_time_t

record dhp_uhrp_events_t =
  ue_send_hello :: bool
  ue_send_resign :: bool
  ue_broadcast_release :: bool
  ue_state_changed :: bool
  ue_promoted_by_timeout :: bool
  ue_prev_state :: dhp_uhrp_state_t

record dhp_uhrp_t =
  u_cfg :: dhp_uhrp_config_t
  u_state :: dhp_uhrp_state_t
  u_active :: dhp_addr_t
  u_standby :: dhp_addr_t
  u_active_priority :: u8
  u_active_uid :: dhp_uid_t
  u_t_state_entered :: dhp_time_t
  u_t_next_hello :: dhp_time_t
  u_t_active_expiry :: dhp_time_t
  u_keys_held :: bool
  u_resign_pending :: bool
  u_t_resign_deadline :: dhp_time_t
  u_active_valid :: bool
  u_started :: bool
  u_vacancy_clean :: bool
  u_peers :: "dhp_uhrp_peer_t list"
  u_ev :: dhp_uhrp_events_t

definition peer_zero :: dhp_uhrp_peer_t where
  "peer_zero = \<lparr>up_used = False, up_uid = 0, up_addr = 0, up_priority = 0, up_state = 0,
     up_flags = 0, up_caps = 0, up_last_seen = 0\<rparr>"

definition events_zero :: dhp_uhrp_events_t where
  "events_zero = \<lparr>ue_send_hello = False, ue_send_resign = False, ue_broadcast_release = False,
     ue_state_changed = False, ue_promoted_by_timeout = False, ue_prev_state = DHP_UHRP_INIT\<rparr>"

abbreviation (input) hold_of :: "dhp_uhrp_t \<Rightarrow> u32" where
  "hold_of u \<equiv> ucast (ut_hold_ms (uc_timing (u_cfg u)))"

section \<open>Ordering and names\<close>

definition better :: "u8 \<Rightarrow> dhp_uid_t \<Rightarrow> u8 \<Rightarrow> dhp_uid_t \<Rightarrow> bool" where
  "better pa ua pb ub \<longleftrightarrow> (if pa \<noteq> pb then pb < pa else ub < ua)"

definition dhp_uhrp_priority_from_caps :: "u16 \<Rightarrow> u8" where
  "dhp_uhrp_priority_from_caps caps =
     (let p = (50 :: nat)
            + (if caps AND DHP_CAP_COORD \<noteq> 0 then 100 else 0)
            + (if caps AND DHP_CAP_HID_IN \<noteq> 0 then 40 else 0)
            + (if caps AND DHP_CAP_DISPLAY \<noteq> 0 then 10 else 0)
            + (if caps AND DHP_CAP_CONFIG \<noteq> 0 then 5 else 0)
      in of_nat (if 255 < p then 255 else p))"

primrec dhp_uhrp_state_name :: "dhp_uhrp_state_t \<Rightarrow> string" where
  "dhp_uhrp_state_name DHP_UHRP_INIT = ''init''"
| "dhp_uhrp_state_name DHP_UHRP_LEARN = ''learn''"
| "dhp_uhrp_state_name DHP_UHRP_LISTEN = ''listen''"
| "dhp_uhrp_state_name DHP_UHRP_SPEAK = ''speak''"
| "dhp_uhrp_state_name DHP_UHRP_STANDBY = ''standby''"
| "dhp_uhrp_state_name DHP_UHRP_ACTIVE = ''active''"

section \<open>Peer table\<close>

definition peer_claim :: "dhp_addr_t \<Rightarrow> dhp_uhrp_peer_t \<Rightarrow> dhp_uhrp_peer_t" where
  "peer_claim a p = peer_zero\<lparr>up_used := True, up_addr := a\<rparr>"

definition peer_find :: "dhp_uhrp_t \<Rightarrow> dhp_addr_t \<Rightarrow> nat option" where
  "peer_find u a = tbl_find up_used up_addr a (u_peers u)"

definition peer_get :: "dhp_uhrp_t \<Rightarrow> dhp_addr_t \<Rightarrow> nat option \<times> dhp_uhrp_t" where
  "peer_get u a =
     (let (i, ps) = tbl_get up_used up_addr peer_claim a (u_peers u)
      in (i, u\<lparr>u_peers := ps\<rparr>))"

definition peer_expired :: "dhp_uhrp_t \<Rightarrow> dhp_time_t \<Rightarrow> dhp_uhrp_peer_t \<Rightarrow> bool" where
  "peer_expired u now p \<longleftrightarrow> dhp_time_after now (up_last_seen p + hold_of u)"

definition peer_age :: "dhp_uhrp_t \<Rightarrow> dhp_time_t \<Rightarrow> dhp_uhrp_t" where
  "peer_age u now =
     u\<lparr>u_peers := map (\<lambda>p. if up_used p \<and> peer_expired u now p then p\<lparr>up_used := False\<rparr> else p) (u_peers u)\<rparr>"

definition find_active_peer :: "dhp_uhrp_t \<Rightarrow> nat option" where
  "find_active_peer u =
     find_idx (\<lambda>p. up_used p \<and> up_state p = uhrp_state_code DHP_UHRP_ACTIVE) (u_peers u)"

section \<open>State entry\<close>

definition enter_state :: "dhp_uhrp_t \<Rightarrow> dhp_uhrp_state_t \<Rightarrow> dhp_time_t \<Rightarrow> dhp_uhrp_t" where
  "enter_state u s now =
     (if u_state u = s then u
      else u\<lparr>u_ev := (u_ev u)\<lparr>ue_prev_state := u_state u, ue_state_changed := True\<rparr>,
             u_state := s, u_t_state_entered := now\<rparr>)"

definition become_active :: "dhp_uhrp_t \<Rightarrow> dhp_time_t \<Rightarrow> bool \<Rightarrow> dhp_uhrp_t" where
  "become_active u now clean =
     (let succeeded_someone = u_active_valid u;
          u1 = (enter_state u DHP_UHRP_ACTIVE now)
                 \<lparr>u_active := uc_addr (u_cfg u), u_active_uid := uc_uid (u_cfg u),
                  u_active_priority := uc_priority (u_cfg u), u_active_valid := True,
                  u_resign_pending := False\<rparr>;
          u2 = (if succeeded_someone \<and> \<not> clean
                then u1\<lparr>u_ev := (u_ev u1)\<lparr>ue_promoted_by_timeout := True, ue_broadcast_release := True\<rparr>\<rparr>
                else u1)
      in u2\<lparr>u_ev := (u_ev u2)\<lparr>ue_send_hello := True\<rparr>,
            u_t_next_hello := now + ucast (ut_hello_ms (uc_timing (u_cfg u)))\<rparr>)"

definition schedule_resign :: "dhp_uhrp_t \<Rightarrow> dhp_time_t \<Rightarrow> dhp_uhrp_t" where
  "schedule_resign u now =
     (if u_resign_pending u then u
      else u\<lparr>u_resign_pending := True,
             u_t_resign_deadline := now + ucast (ut_handover_defer_max_ms (uc_timing (u_cfg u)))\<rparr>)"

definition service_resign :: "dhp_uhrp_t \<Rightarrow> dhp_time_t \<Rightarrow> dhp_uhrp_t" where
  "service_resign u now =
     (if \<not> u_resign_pending u then u
      else
        let deadline_passed = dhp_time_after now (u_t_resign_deadline u)
        in if u_keys_held u \<and> \<not> deadline_passed then u
           else
             let u1 = (if u_keys_held u then u\<lparr>u_ev := (u_ev u)\<lparr>ue_broadcast_release := True\<rparr>\<rparr> else u)
             in enter_state
                  (u1\<lparr>u_ev := (u_ev u1)\<lparr>ue_send_resign := True\<rparr>, u_resign_pending := False,
                      u_active := DHP_ADDR_NONE\<rparr>)
                  DHP_UHRP_LISTEN now)"

section \<open>Central evaluation\<close>

text \<open>The local variables of the candidate loop.\<close>

record uhrp_scan =
  sc_best_p :: u8
  sc_best_u :: dhp_uid_t
  sc_best_is_self :: bool
  sc_backup_p :: u8
  sc_backup_u :: dhp_uid_t
  sc_backup_addr :: dhp_addr_t
  sc_backup_is_self :: bool

definition scan_init :: "dhp_uhrp_t \<Rightarrow> uhrp_scan" where
  "scan_init u =
     (let me = u_state u \<noteq> DHP_UHRP_ACTIVE
      in \<lparr>sc_best_p = uc_priority (u_cfg u), sc_best_u = uc_uid (u_cfg u), sc_best_is_self = True,
          sc_backup_p = (if me then uc_priority (u_cfg u) else 0),
          sc_backup_u = (if me then uc_uid (u_cfg u) else 0),
          sc_backup_addr = (if me then uc_addr (u_cfg u) else DHP_ADDR_NONE),
          sc_backup_is_self = me\<rparr>)"

definition scan_peer :: "dhp_uhrp_peer_t \<Rightarrow> uhrp_scan \<Rightarrow> uhrp_scan" where
  "scan_peer p s =
     (if \<not> up_used p then s
      else
        let s1 = (if better (up_priority p) (up_uid p) (sc_best_p s) (sc_best_u s)
                  then s\<lparr>sc_best_p := up_priority p, sc_best_u := up_uid p, sc_best_is_self := False\<rparr>
                  else s)
        in if up_state p \<noteq> uhrp_state_code DHP_UHRP_ACTIVE \<and>
              better (up_priority p) (up_uid p) (sc_backup_p s1) (sc_backup_u s1)
           then s1\<lparr>sc_backup_p := up_priority p, sc_backup_u := up_uid p,
                   sc_backup_addr := up_addr p, sc_backup_is_self := False\<rparr>
           else s1)"

definition scan :: "dhp_uhrp_t \<Rightarrow> uhrp_scan" where
  "scan u = fold scan_peer (u_peers u) (scan_init u)"

definition wait_state :: "uhrp_scan \<Rightarrow> dhp_uhrp_state_t" where
  "wait_state s = (if sc_backup_is_self s then DHP_UHRP_STANDBY else DHP_UHRP_LISTEN)"

text \<open>The four assignments that adopt the active peer.\<close>

definition follow :: "dhp_uhrp_t \<Rightarrow> dhp_uhrp_peer_t \<Rightarrow> dhp_uhrp_t" where
  "follow u act = u\<lparr>u_active := up_addr act, u_active_uid := up_uid act,
     u_active_priority := up_priority act, u_active_valid := True\<rparr>"

definition reeval_learn :: "dhp_uhrp_t \<Rightarrow> dhp_uhrp_peer_t option \<Rightarrow> uhrp_scan \<Rightarrow> dhp_time_t \<Rightarrow> dhp_uhrp_t" where
  "reeval_learn u act sc now =
     (case act of
        Some a \<Rightarrow> enter_state (follow u a) (wait_state sc) now
      | None \<Rightarrow>
          if \<not> dhp_time_after now (u_t_state_entered u + ucast (ut_learn_ms (uc_timing (u_cfg u)))) then u
          else if sc_best_is_self sc then become_active u now True
          else enter_state u (wait_state sc) now)"

definition wants_role :: "uhrp_scan \<Rightarrow> dhp_uhrp_peer_t \<Rightarrow> bool" where
  "wants_role sc p \<longleftrightarrow> up_used p \<and> up_priority p = sc_best_p sc \<and> up_uid p = sc_best_u sc \<and>
     up_flags p AND DHP_HELLO_F_PREEMPT \<noteq> 0"

definition reeval_active :: "dhp_uhrp_t \<Rightarrow> dhp_uhrp_peer_t option \<Rightarrow> uhrp_scan \<Rightarrow> dhp_time_t \<Rightarrow> dhp_uhrp_t" where
  "reeval_active u act sc now =
     (let split = (case act of
                     None \<Rightarrow> False
                   | Some a \<Rightarrow> better (up_priority a) (up_uid a) (uc_priority (u_cfg u)) (uc_uid (u_cfg u)));
          u1 = (if split then schedule_resign u now
                else if \<not> sc_best_is_self sc \<and> list_ex (wants_role sc) (u_peers u) then schedule_resign u now
                else u)
      in service_resign u1 now)"

definition reeval_vacant :: "dhp_uhrp_t \<Rightarrow> uhrp_scan \<Rightarrow> dhp_time_t \<Rightarrow> dhp_uhrp_t" where
  "reeval_vacant u0 sc now =
     (let u = u0\<lparr>u_active := DHP_ADDR_NONE\<rparr>
      in if \<not> sc_best_is_self sc then enter_state u (wait_state sc) now
         else if u_state u = DHP_UHRP_STANDBY then become_active u now (u_vacancy_clean u)
         else if u_state u \<noteq> DHP_UHRP_SPEAK then enter_state u DHP_UHRP_SPEAK now
         else if dhp_time_after now (u_t_state_entered u + hold_of u) then become_active u now (u_vacancy_clean u)
         else u)"

definition reevaluate :: "dhp_uhrp_t \<Rightarrow> dhp_time_t \<Rightarrow> dhp_uhrp_t" where
  "reevaluate u0 now =
     (if \<not> u_started u0 then u0
      else
        let aged = peer_age u0 now;
            act = map_option (\<lambda>i. u_peers aged ! i) (find_active_peer aged);
            sc = scan aged;
            u = aged\<lparr>u_standby := sc_backup_addr sc\<rparr>
        in if u_state u = DHP_UHRP_LEARN then reeval_learn u act sc now
           else if u_state u = DHP_UHRP_ACTIVE then reeval_active u act sc now
           else case act of
                  Some a \<Rightarrow>
                    enter_state ((follow u a)\<lparr>u_t_active_expiry := up_last_seen a + hold_of u\<rparr>) (wait_state sc) now
                | None \<Rightarrow> reeval_vacant u sc now)"

section \<open>Entry points\<close>

definition dhp_uhrp_init :: "dhp_uhrp_config_t \<Rightarrow> dhp_uhrp_t" where
  "dhp_uhrp_init cfg =
     (let c1 = (if uc_priority cfg = 0 then cfg\<lparr>uc_priority := dhp_uhrp_priority_from_caps (uc_caps cfg)\<rparr> else cfg);
          c2 = (if ut_hello_ms (uc_timing c1) = 0 then c1\<lparr>uc_timing := DHP_UHRP_TIMING_DEFAULT\<rparr> else c1)
      in \<lparr>u_cfg = c2, u_state = DHP_UHRP_INIT, u_active = DHP_ADDR_NONE, u_standby = DHP_ADDR_NONE,
          u_active_priority = 0, u_active_uid = 0, u_t_state_entered = 0, u_t_next_hello = 0,
          u_t_active_expiry = 0, u_keys_held = False, u_resign_pending = False, u_t_resign_deadline = 0,
          u_active_valid = False, u_started = False, u_vacancy_clean = False,
          u_peers = replicate DHP_MAX_BOARDS peer_zero, u_ev = events_zero\<rparr>)"

definition dhp_uhrp_start :: "dhp_uhrp_t \<Rightarrow> dhp_time_t \<Rightarrow> dhp_uhrp_t" where
  "dhp_uhrp_start u now =
     (enter_state (u\<lparr>u_started := True, u_vacancy_clean := True\<rparr>) DHP_UHRP_LEARN now)
       \<lparr>u_t_state_entered := now, u_t_next_hello := now\<rparr>"

definition peer_refresh :: "dhp_hello_t \<Rightarrow> dhp_time_t \<Rightarrow> dhp_uhrp_peer_t \<Rightarrow> dhp_uhrp_peer_t" where
  "peer_refresh h now p = p\<lparr>up_uid := he_uid h, up_priority := he_priority h, up_state := he_state h,
     up_flags := he_flags h, up_caps := he_caps h, up_last_seen := now\<rparr>"

definition dhp_uhrp_rx_hello :: "dhp_uhrp_t \<Rightarrow> dhp_addr_t \<Rightarrow> dhp_hello_t \<Rightarrow> dhp_time_t \<Rightarrow> dhp_uhrp_t" where
  "dhp_uhrp_rx_hello u src h now =
     (if \<not> u_started u \<or> src = uc_addr (u_cfg u) then u
      else case peer_get u src of
             (None, u1) \<Rightarrow> u1
           | (Some i, u1) \<Rightarrow>
               let u2 = (if he_state h = uhrp_state_code DHP_UHRP_ACTIVE \<and> u_active u1 \<noteq> src
                         then u1\<lparr>u_vacancy_clean := True\<rparr> else u1)
               in reevaluate (u2\<lparr>u_peers := (u_peers u2)[i := peer_refresh h now (u_peers u2 ! i)]\<rparr>) now)"

definition dhp_uhrp_rx_resign :: "dhp_uhrp_t \<Rightarrow> dhp_addr_t \<Rightarrow> dhp_time_t \<Rightarrow> dhp_uhrp_t" where
  "dhp_uhrp_rx_resign u src now =
     (if \<not> u_started u then u
      else
        let u1 = (case peer_find u src of
                    None \<Rightarrow> u
                  | Some i \<Rightarrow>
                      u\<lparr>u_peers := (u_peers u)[i := (u_peers u ! i)
                          \<lparr>up_state := uhrp_state_code DHP_UHRP_LISTEN, up_last_seen := now\<rparr>]\<rparr>);
            u2 = (if src = u_active u1 then u1\<lparr>u_vacancy_clean := True, u_active := DHP_ADDR_NONE\<rparr> else u1)
        in reevaluate u2 now)"

definition dhp_uhrp_set_keys_held :: "dhp_uhrp_t \<Rightarrow> bool \<Rightarrow> dhp_uhrp_t" where
  "dhp_uhrp_set_keys_held u held = u\<lparr>u_keys_held := held\<rparr>"

definition note_vacancy :: "dhp_uhrp_t \<Rightarrow> dhp_time_t \<Rightarrow> dhp_uhrp_t" where
  "note_vacancy u now =
     (if u_state u \<noteq> DHP_UHRP_ACTIVE \<and> u_active u \<noteq> DHP_ADDR_NONE then
        (case peer_find u (u_active u) of
           None \<Rightarrow> u\<lparr>u_vacancy_clean := False\<rparr>
         | Some i \<Rightarrow> if peer_expired u now (u_peers u ! i) then u\<lparr>u_vacancy_clean := False\<rparr> else u)
      else u)"

definition hello_timer :: "dhp_uhrp_t \<Rightarrow> dhp_time_t \<Rightarrow> dhp_uhrp_t" where
  "hello_timer u now =
     (if dhp_time_after now (u_t_next_hello u) then
        u\<lparr>u_ev := (u_ev u)\<lparr>ue_send_hello := True\<rparr>,
          u_t_next_hello := now + ucast (ut_hello_ms (uc_timing (u_cfg u)))\<rparr>
      else u)"

definition dhp_uhrp_tick :: "dhp_uhrp_t \<Rightarrow> dhp_time_t \<Rightarrow> dhp_uhrp_t" where
  "dhp_uhrp_tick u now =
     (if \<not> u_started u then u else hello_timer (reevaluate (note_vacancy u now) now) now)"

definition dhp_uhrp_take_events :: "dhp_uhrp_t \<Rightarrow> dhp_uhrp_t \<times> dhp_uhrp_events_t" where
  "dhp_uhrp_take_events u = (u\<lparr>u_ev := events_zero\<rparr>, u_ev u)"

definition dhp_uhrp_build_hello :: "dhp_uhrp_t \<Rightarrow> dhp_hello_t" where
  "dhp_uhrp_build_hello u =
     \<lparr>he_state = uhrp_state_code (u_state u), he_priority = uc_priority (u_cfg u),
      he_flags =
        (if uc_preempt (u_cfg u) then DHP_HELLO_F_PREEMPT else 0) OR
        (if u_keys_held u then DHP_HELLO_F_KEYS_HELD else 0) OR
        (if uc_caps (u_cfg u) AND DHP_CAP_HID_IN \<noteq> 0 then DHP_HELLO_F_HAS_INPUT else 0) OR
        (if uc_caps (u_cfg u) AND DHP_CAP_COORD \<noteq> 0 then DHP_HELLO_F_COORD else 0),
      he_hold_cs = ucast (ut_hold_ms (uc_timing (u_cfg u)) div 10),
      he_uid = uc_uid (u_cfg u), he_caps = uc_caps (u_cfg u), he_reserved = 0\<rparr>"

definition dhp_uhrp_reachable_caps :: "dhp_uhrp_t \<Rightarrow> u16" where
  "dhp_uhrp_reachable_caps u =
     fold (\<lambda>p caps. if up_used p then caps OR up_caps p else caps) (u_peers u) (uc_caps (u_cfg u))"

definition dhp_uhrp_is_active :: "dhp_uhrp_t \<Rightarrow> bool" where
  "dhp_uhrp_is_active u \<longleftrightarrow> u_state u = DHP_UHRP_ACTIVE"

section \<open>What the building blocks keep\<close>

lemma enter_state_simps [simp]:
  "u_state (enter_state u s now) = s"
  "u_cfg (enter_state u s now) = u_cfg u"
  "u_active (enter_state u s now) = u_active u"
  "u_active_valid (enter_state u s now) = u_active_valid u"
  "u_keys_held (enter_state u s now) = u_keys_held u"
  "u_resign_pending (enter_state u s now) = u_resign_pending u"
  "u_t_resign_deadline (enter_state u s now) = u_t_resign_deadline u"
  "u_started (enter_state u s now) = u_started u"
  "u_vacancy_clean (enter_state u s now) = u_vacancy_clean u"
  "u_peers (enter_state u s now) = u_peers u"
  "ue_send_hello (u_ev (enter_state u s now)) = ue_send_hello (u_ev u)"
  "ue_send_resign (u_ev (enter_state u s now)) = ue_send_resign (u_ev u)"
  "ue_broadcast_release (u_ev (enter_state u s now)) = ue_broadcast_release (u_ev u)"
  "ue_promoted_by_timeout (u_ev (enter_state u s now)) = ue_promoted_by_timeout (u_ev u)"
  by (simp_all add: enter_state_def)

lemma become_active_simps [simp]:
  "u_state (become_active u now clean) = DHP_UHRP_ACTIVE"
  "u_cfg (become_active u now clean) = u_cfg u"
  "u_active (become_active u now clean) = uc_addr (u_cfg u)"
  "u_active_valid (become_active u now clean)"
  "u_keys_held (become_active u now clean) = u_keys_held u"
  "\<not> u_resign_pending (become_active u now clean)"
  "u_started (become_active u now clean) = u_started u"
  "u_vacancy_clean (become_active u now clean) = u_vacancy_clean u"
  "u_peers (become_active u now clean) = u_peers u"
  "ue_send_hello (u_ev (become_active u now clean))"
  "ue_send_resign (u_ev (become_active u now clean)) = ue_send_resign (u_ev u)"
  "ue_broadcast_release (u_ev (become_active u now clean)) \<longleftrightarrow>
     ue_broadcast_release (u_ev u) \<or> (u_active_valid u \<and> \<not> clean)"
  "ue_promoted_by_timeout (u_ev (become_active u now clean)) \<longleftrightarrow>
     ue_promoted_by_timeout (u_ev u) \<or> (u_active_valid u \<and> \<not> clean)"
  by (auto simp: become_active_def Let_def)

lemma schedule_resign_simps [simp]:
  "u_state (schedule_resign u now) = u_state u"
  "u_cfg (schedule_resign u now) = u_cfg u"
  "u_active (schedule_resign u now) = u_active u"
  "u_active_valid (schedule_resign u now) = u_active_valid u"
  "u_keys_held (schedule_resign u now) = u_keys_held u"
  "u_resign_pending (schedule_resign u now)"
  "u_started (schedule_resign u now) = u_started u"
  "u_vacancy_clean (schedule_resign u now) = u_vacancy_clean u"
  "u_peers (schedule_resign u now) = u_peers u"
  "u_ev (schedule_resign u now) = u_ev u"
  by (simp_all add: schedule_resign_def)

lemma service_resign_simps [simp]:
  "u_cfg (service_resign u now) = u_cfg u"
  "u_active_valid (service_resign u now) = u_active_valid u"
  "u_keys_held (service_resign u now) = u_keys_held u"
  "u_started (service_resign u now) = u_started u"
  "u_vacancy_clean (service_resign u now) = u_vacancy_clean u"
  "u_peers (service_resign u now) = u_peers u"
  by (simp_all add: service_resign_def Let_def)

lemma follow_simps [simp]:
  "u_state (follow u a) = u_state u"
  "u_cfg (follow u a) = u_cfg u"
  "u_active (follow u a) = up_addr a"
  "u_active_valid (follow u a)"
  "u_keys_held (follow u a) = u_keys_held u"
  "u_resign_pending (follow u a) = u_resign_pending u"
  "u_started (follow u a) = u_started u"
  "u_vacancy_clean (follow u a) = u_vacancy_clean u"
  "u_peers (follow u a) = u_peers u"
  "u_ev (follow u a) = u_ev u"
  by (simp_all add: follow_def)

lemma peer_age_simps [simp]:
  "u_state (peer_age u now) = u_state u"
  "u_cfg (peer_age u now) = u_cfg u"
  "u_active (peer_age u now) = u_active u"
  "u_active_valid (peer_age u now) = u_active_valid u"
  "u_keys_held (peer_age u now) = u_keys_held u"
  "u_resign_pending (peer_age u now) = u_resign_pending u"
  "u_t_resign_deadline (peer_age u now) = u_t_resign_deadline u"
  "u_started (peer_age u now) = u_started u"
  "u_vacancy_clean (peer_age u now) = u_vacancy_clean u"
  "u_t_state_entered (peer_age u now) = u_t_state_entered u"
  "u_ev (peer_age u now) = u_ev u"
  "length (u_peers (peer_age u now)) = length (u_peers u)"
  by (simp_all add: peer_age_def)

lemma wait_state_cases: "wait_state sc = DHP_UHRP_STANDBY \<or> wait_state sc = DHP_UHRP_LISTEN"
  by (simp add: wait_state_def)

lemma wait_state_neq [simp]:
  "wait_state sc \<noteq> DHP_UHRP_ACTIVE" "wait_state sc \<noteq> DHP_UHRP_INIT"
  "wait_state sc \<noteq> DHP_UHRP_LEARN" "wait_state sc \<noteq> DHP_UHRP_SPEAK"
  by (simp_all add: wait_state_def)

lemmas reeval_defs = reevaluate_def reeval_learn_def reeval_active_def reeval_vacant_def Let_def

lemma reevaluate_frame [simp]:
  "u_cfg (reevaluate u now) = u_cfg u"
  "u_keys_held (reevaluate u now) = u_keys_held u"
  "u_started (reevaluate u now) = u_started u"
  "u_vacancy_clean (reevaluate u now) = u_vacancy_clean u"
  by (simp_all add: reeval_defs split: option.split)

lemma reevaluate_peers: "u_started u \<Longrightarrow> u_peers (reevaluate u now) = u_peers (peer_age u now)"
  by (simp add: reeval_defs split: option.split)

section \<open>The peer table is an address table\<close>

interpretation peers: addr_table up_used up_addr peer_claim
  by unfold_locales (simp_all add: peer_claim_def)

definition peers_inv :: "dhp_uhrp_t \<Rightarrow> bool" where
  "peers_inv u \<longleftrightarrow> uc_addr (u_cfg u) \<noteq> DHP_ADDR_NONE \<and> length (u_peers u) = DHP_MAX_BOARDS \<and>
     tbl_wf up_used up_addr (u_peers u) \<and>
     list_all (\<lambda>p. up_used p \<longrightarrow> up_addr p \<noteq> uc_addr (u_cfg u)) (u_peers u)"

lemma peers_inv_age: "peers_inv u \<Longrightarrow> peers_inv (peer_age u now)"
  by (auto simp: peers_inv_def peer_age_def tbl_wf_def list_all_iff)

lemma peers_inv_get:
  assumes "peers_inv u" "peer_get u a = (r, u')" "a \<noteq> uc_addr (u_cfg u)"
  shows "peers_inv u'"
proof -
  obtain ps where ps: "tbl_get up_used up_addr peer_claim a (u_peers u) = (r, ps)" "u' = u\<lparr>u_peers := ps\<rparr>"
    using assms(2) by (auto simp: peer_get_def split: prod.splits)
  have "list_all (\<lambda>p. up_used p \<longrightarrow> up_addr p \<noteq> uc_addr (u_cfg u)) ps"
    using ps(1)
    by (cases rule: peers.get_cases)
      (use assms(1,3) in \<open>auto simp: peers_inv_def peer_claim_def intro!: list_all_update\<close>)
  then show ?thesis
    using assms(1) ps peers.get_wf [OF ps(1)] peers.get_length [OF ps(1)] by (simp add: peers_inv_def)
qed

lemma peers_inv_update:
  assumes "peers_inv u" "i < length (u_peers u)" "up_used p = up_used (u_peers u ! i)" "up_addr p = up_addr (u_peers u ! i)"
  shows "peers_inv (u\<lparr>u_peers := (u_peers u)[i := p]\<rparr>)"
  using assms peers.update_wf [of "u_peers u" p i]
  by (auto simp: peers_inv_def list_all_length nth_list_update)

section \<open>The invariant\<close>

definition role_pre :: "dhp_uhrp_t \<Rightarrow> bool" where
  "role_pre u \<longleftrightarrow> u_started u \<and> u_state u \<noteq> DHP_UHRP_INIT \<and>
     (u_state u = DHP_UHRP_ACTIVE \<longrightarrow> u_active u = uc_addr (u_cfg u) \<and> u_active_valid u) \<and>
     (u_state u = DHP_UHRP_LEARN \<longrightarrow> u_active u = DHP_ADDR_NONE) \<and>
     (u_active u \<noteq> DHP_ADDR_NONE \<longrightarrow> u_active_valid u) \<and>
     (u_resign_pending u \<longrightarrow> u_state u = DHP_UHRP_ACTIVE)"

definition role_inv :: "dhp_uhrp_t \<Rightarrow> bool" where
  "role_inv u \<longleftrightarrow> role_pre u \<and>
     (u_state u \<noteq> DHP_UHRP_ACTIVE \<longrightarrow> u_active u \<noteq> DHP_ADDR_NONE \<longrightarrow>
        (\<exists>p \<in> set (u_peers u). up_used p \<and> up_addr p = u_active u \<and>
           up_state p = uhrp_state_code DHP_UHRP_ACTIVE))"

definition fresh_inv :: "dhp_uhrp_t \<Rightarrow> bool" where
  "fresh_inv u \<longleftrightarrow> \<not> u_started u \<and> u_state u = DHP_UHRP_INIT \<and> u_active u = DHP_ADDR_NONE \<and> \<not> u_resign_pending u"

definition uhrp_inv :: "dhp_uhrp_t \<Rightarrow> bool" where
  "uhrp_inv u \<longleftrightarrow> peers_inv u \<and> (role_inv u \<or> fresh_inv u)"

lemma find_active_peer_Some:
  assumes "find_active_peer u = Some i"
  shows "u_peers u ! i \<in> set (u_peers u) \<and> up_used (u_peers u ! i) \<and>
    up_state (u_peers u ! i) = uhrp_state_code DHP_UHRP_ACTIVE"
  using find_idx_SomeD [OF assms [unfolded find_active_peer_def]] by simp

lemma service_resign_role:
  "u_state u = DHP_UHRP_ACTIVE \<Longrightarrow> role_pre u \<Longrightarrow> role_inv (service_resign u now)"
  by (auto simp: service_resign_def role_pre_def role_inv_def Let_def)

lemma reevaluate_role:
  assumes "role_pre u" "peers_inv u"
  shows "role_inv (reevaluate u now)"
proof -
  let ?a = "peer_age u now"
  have st: "u_started u" using assms(1) by (simp add: role_pre_def)
  consider (learn) "u_state u = DHP_UHRP_LEARN" | (active) "u_state u = DHP_UHRP_ACTIVE"
    | (other) "u_state u \<noteq> DHP_UHRP_LEARN" "u_state u \<noteq> DHP_UHRP_ACTIVE" by blast
  then show ?thesis
  proof cases
    case active
    have "role_pre (?a\<lparr>u_standby := x\<rparr>)" "role_pre (schedule_resign (?a\<lparr>u_standby := x\<rparr>) now)" for x
      using assms(1) active by (simp_all add: role_pre_def)
    with active st show ?thesis
      by (auto simp: reevaluate_def reeval_active_def Let_def intro!: service_resign_role)
  next
    case learn
    with assms(1) st show ?thesis
      by (cases "find_active_peer ?a")
        (auto simp: reevaluate_def reeval_learn_def Let_def role_pre_def role_inv_def dest!: find_active_peer_Some)
  next
    case other
    with assms(1) st show ?thesis
      by (cases "find_active_peer ?a")
        (auto simp: reevaluate_def reeval_vacant_def Let_def role_pre_def role_inv_def dest!: find_active_peer_Some)
  qed
qed

lemma peers_inv_reevaluate: "peers_inv u \<Longrightarrow> peers_inv (reevaluate u now)"
  using peers_inv_age [of u now]
  by (cases "u_started u") (simp_all add: peers_inv_def reevaluate_peers, simp add: reevaluate_def)

section \<open>Calls in any order\<close>

datatype uhrp_call =
    Start dhp_time_t
  | RxHello dhp_addr_t dhp_hello_t dhp_time_t
  | RxResign dhp_addr_t dhp_time_t
  | SetKeysHeld bool
  | Tick dhp_time_t
  | TakeEvents

primrec uhrp_do :: "uhrp_call \<Rightarrow> dhp_uhrp_t \<Rightarrow> dhp_uhrp_t" where
  "uhrp_do (Start now) u = dhp_uhrp_start u now"
| "uhrp_do (RxHello src h now) u = dhp_uhrp_rx_hello u src h now"
| "uhrp_do (RxResign src now) u = dhp_uhrp_rx_resign u src now"
| "uhrp_do (SetKeysHeld b) u = dhp_uhrp_set_keys_held u b"
| "uhrp_do (Tick now) u = dhp_uhrp_tick u now"
| "uhrp_do TakeEvents u = fst (dhp_uhrp_take_events u)"

text \<open>
  How the router calls the election: it starts it once, and the link never hands a board
  a frame with the board's own source address.
\<close>

inductive uhrp_step :: "dhp_uhrp_t \<Rightarrow> dhp_uhrp_t \<Rightarrow> bool" where
  start: "\<not> u_started u \<Longrightarrow> uhrp_step u (uhrp_do (Start now) u)"
| hello: "uhrp_step u (uhrp_do (RxHello src h now) u)"
| resign: "src \<noteq> uc_addr (u_cfg u) \<Longrightarrow> uhrp_step u (uhrp_do (RxResign src now) u)"
| keys: "uhrp_step u (uhrp_do (SetKeysHeld b) u)"
| tick: "uhrp_step u (uhrp_do (Tick now) u)"
| take: "uhrp_step u (uhrp_do TakeEvents u)"

inductive_cases uhrp_stepE: "uhrp_step u u'"

definition uhrp_initial :: "dhp_uhrp_t \<Rightarrow> bool" where
  "uhrp_initial u \<longleftrightarrow> (\<exists>cfg. uc_addr cfg \<noteq> DHP_ADDR_NONE \<and> u = dhp_uhrp_init cfg)"

lemma uhrp_inv_init:
  assumes "uc_addr cfg \<noteq> DHP_ADDR_NONE"
  shows "uhrp_inv (dhp_uhrp_init cfg)"
proof -
  have "tbl_wf up_used up_addr (replicate n peer_zero)" for n by (simp add: tbl_wf_def peer_zero_def)
  with assms show ?thesis
    by (auto simp: uhrp_inv_def peers_inv_def fresh_inv_def dhp_uhrp_init_def Let_def list_all_iff peer_zero_def)
qed

lemma uhrp_inv_start: "uhrp_inv u \<Longrightarrow> \<not> u_started u \<Longrightarrow> uhrp_inv (dhp_uhrp_start u now)"
  by (auto simp: uhrp_inv_def peers_inv_def fresh_inv_def role_inv_def role_pre_def dhp_uhrp_start_def)

lemma uhrp_inv_started: "uhrp_inv u \<Longrightarrow> u_started u \<Longrightarrow> role_inv u \<and> peers_inv u"
  by (auto simp: uhrp_inv_def fresh_inv_def)

lemma uhrp_invI: "role_pre u \<Longrightarrow> peers_inv u \<Longrightarrow> uhrp_inv (reevaluate u now)"
  by (simp add: uhrp_inv_def reevaluate_role peers_inv_reevaluate)

lemma peer_get_frame:
  assumes "peer_get u a = (r, u')"
  shows "u' = u\<lparr>u_peers := u_peers u'\<rparr>"
  using assms by (auto simp: peer_get_def split: prod.splits)

lemma peer_get_Some:
  assumes "peer_get u a = (Some i, u')"
  shows "i < length (u_peers u') \<and> up_used (u_peers u' ! i) \<and> up_addr (u_peers u' ! i) = a"
proof -
  obtain ps where ps: "tbl_get up_used up_addr peer_claim a (u_peers u) = (Some i, ps)" "u' = u\<lparr>u_peers := ps\<rparr>"
    using assms by (auto simp: peer_get_def split: prod.splits)
  then show ?thesis using peers.get_entry [OF ps(1)] peers.get_length [OF ps(1)] by simp
qed

lemma uhrp_inv_rx_hello:
  assumes "uhrp_inv u"
  shows "uhrp_inv (dhp_uhrp_rx_hello u src h now)"
proof (cases "u_started u \<and> src \<noteq> uc_addr (u_cfg u)")
  case True
  obtain r u1 where g: "peer_get u src = (r, u1)" by fastforce
  have inv: "role_inv u" "peers_inv u" using uhrp_inv_started assms True by blast+
  have pi: "peers_inv u1" using peers_inv_get [OF inv(2) g] True by blast
  have pre: "role_pre u1" using inv(1) peer_get_frame [OF g]
    by (metis (no_types, lifting) role_inv_def role_pre_def dhp_uhrp_t.select_convs dhp_uhrp_t.surjective dhp_uhrp_t.update_convs(16))
  show ?thesis
  proof (cases r)
    case None
    then have "u1 = u" using g
      by (auto simp: peer_get_def tbl_get_def split: prod.splits option.splits)
    with None g True assms show ?thesis by (simp add: dhp_uhrp_rx_hello_def)
  next
    case (Some i)
    note e = peer_get_Some [OF g [unfolded Some]]
    let ?p = "peer_refresh h now (u_peers u1 ! i)"
    have "peers_inv (u1\<lparr>u_peers := (u_peers u1)[i := ?p]\<rparr>)"
      using e by (intro peers_inv_update [OF pi]) (simp_all add: peer_refresh_def)
    then have "uhrp_inv (reevaluate (u1\<lparr>u_peers := (u_peers u1)[i := ?p]\<rparr>) now)"
      "uhrp_inv (reevaluate (u1\<lparr>u_vacancy_clean := True, u_peers := (u_peers u1)[i := ?p]\<rparr>) now)"
      using pre by (auto intro!: uhrp_invI simp: role_pre_def peers_inv_def)
    with True g Some show ?thesis by (simp add: dhp_uhrp_rx_hello_def Let_def)
  qed
qed (use assms in \<open>auto simp: dhp_uhrp_rx_hello_def\<close>)

lemma uhrp_inv_rx_resign:
  assumes "uhrp_inv u" "src \<noteq> uc_addr (u_cfg u)"
  shows "uhrp_inv (dhp_uhrp_rx_resign u src now)"
proof (cases "u_started u")
  case True
  have inv: "role_inv u" "peers_inv u" using uhrp_inv_started assms True by blast+
  define u1 where "u1 = (case peer_find u src of None \<Rightarrow> u
     | Some i \<Rightarrow> u\<lparr>u_peers := (u_peers u)[i := (u_peers u ! i)
          \<lparr>up_state := uhrp_state_code DHP_UHRP_LISTEN, up_last_seen := now\<rparr>]\<rparr>)"
  have "peers_inv u1"
    using inv(2) by (auto simp: u1_def peer_find_def split: option.split
        intro!: peers_inv_update dest: peers.find_Some)
  moreover have "role_pre u1" "u_state u1 = DHP_UHRP_ACTIVE \<Longrightarrow> src \<noteq> u_active u1"
    using inv(1) assms(2) by (auto simp: u1_def role_inv_def role_pre_def split: option.split)
  ultimately have "uhrp_inv (reevaluate u1 now)"
    "src = u_active u1 \<Longrightarrow> uhrp_inv (reevaluate (u1\<lparr>u_vacancy_clean := True, u_active := DHP_ADDR_NONE\<rparr>) now)"
    by (auto intro!: uhrp_invI simp: role_pre_def peers_inv_def)
  with True show ?thesis by (simp add: dhp_uhrp_rx_resign_def u1_def Let_def)
qed (use assms in \<open>simp add: dhp_uhrp_rx_resign_def\<close>)

lemma note_vacancy_simps [simp]:
  "u_state (note_vacancy u now) = u_state u"
  "u_cfg (note_vacancy u now) = u_cfg u"
  "u_active (note_vacancy u now) = u_active u"
  "u_active_valid (note_vacancy u now) = u_active_valid u"
  "u_keys_held (note_vacancy u now) = u_keys_held u"
  "u_resign_pending (note_vacancy u now) = u_resign_pending u"
  "u_t_resign_deadline (note_vacancy u now) = u_t_resign_deadline u"
  "u_started (note_vacancy u now) = u_started u"
  "u_peers (note_vacancy u now) = u_peers u"
  "u_t_state_entered (note_vacancy u now) = u_t_state_entered u"
  "u_ev (note_vacancy u now) = u_ev u"
  by (simp_all add: note_vacancy_def split: option.split)

lemma hello_timer_simps [simp]:
  "u_state (hello_timer u now) = u_state u"
  "u_cfg (hello_timer u now) = u_cfg u"
  "u_active (hello_timer u now) = u_active u"
  "u_active_valid (hello_timer u now) = u_active_valid u"
  "u_keys_held (hello_timer u now) = u_keys_held u"
  "u_resign_pending (hello_timer u now) = u_resign_pending u"
  "u_started (hello_timer u now) = u_started u"
  "u_peers (hello_timer u now) = u_peers u"
  "ue_send_resign (u_ev (hello_timer u now)) = ue_send_resign (u_ev u)"
  "ue_broadcast_release (u_ev (hello_timer u now)) = ue_broadcast_release (u_ev u)"
  "ue_promoted_by_timeout (u_ev (hello_timer u now)) = ue_promoted_by_timeout (u_ev u)"
  by (simp_all add: hello_timer_def)

lemma uhrp_inv_hello_timer: "uhrp_inv u \<Longrightarrow> uhrp_inv (hello_timer u now)"
  by (simp add: uhrp_inv_def peers_inv_def role_inv_def role_pre_def fresh_inv_def)

lemma uhrp_inv_tick:
  assumes "uhrp_inv u"
  shows "uhrp_inv (dhp_uhrp_tick u now)"
proof (cases "u_started u")
  case True
  have inv: "role_inv u" "peers_inv u" using uhrp_inv_started assms True by blast+
  then have "uhrp_inv (reevaluate (note_vacancy u now) now)"
    by (intro uhrp_invI) (simp_all add: role_inv_def role_pre_def peers_inv_def)
  with True show ?thesis by (simp add: dhp_uhrp_tick_def uhrp_inv_hello_timer)
qed (use assms in \<open>simp add: dhp_uhrp_tick_def\<close>)

interpretation uhrp: transition_system uhrp_initial uhrp_step uhrp_inv
proof
  show "uhrp_inv s" if "uhrp_initial s" for s
    using that by (auto simp: uhrp_initial_def uhrp_inv_init)
  show "uhrp_inv t" if "uhrp_inv s" "uhrp_step s t" for s t
    using that(2)
  proof cases
    case (keys b)
    then show ?thesis using that(1)
      by (simp add: dhp_uhrp_set_keys_held_def uhrp_inv_def peers_inv_def role_inv_def role_pre_def fresh_inv_def)
  next
    case take
    then show ?thesis using that(1)
      by (simp add: dhp_uhrp_take_events_def uhrp_inv_def peers_inv_def role_inv_def role_pre_def fresh_inv_def)
  qed (use that(1) in \<open>simp_all add: uhrp_inv_start uhrp_inv_rx_hello uhrp_inv_rx_resign uhrp_inv_tick\<close>)
qed

section \<open>The election order\<close>

locale election_order =
  fixes beats :: "'k \<Rightarrow> 'k \<Rightarrow> bool"
  assumes irrefl: "\<not> beats a a"
    and trans: "beats a b \<Longrightarrow> beats b c \<Longrightarrow> beats a c"
    and total: "a \<noteq> b \<Longrightarrow> beats a b \<or> beats b a"
begin

lemma asym: "beats a b \<Longrightarrow> \<not> beats b a"
  using irrefl trans by blast

lemma champion_exists: "finite S \<Longrightarrow> S \<noteq> {} \<Longrightarrow> \<exists>x \<in> S. \<forall>y \<in> S. \<not> beats y x"
proof (induction rule: finite_ne_induct)
  case (insert a S)
  then obtain x where x: "x \<in> S" "\<forall>y \<in> S. \<not> beats y x" by blast
  show ?case
  proof (cases "beats a x")
    case True
    then have "\<forall>y \<in> insert a S. \<not> beats y a" using x trans asym irrefl by blast
    then show ?thesis by blast
  qed (use x in blast)
qed (use irrefl in simp)

lemma champion_unique: "x \<in> S \<Longrightarrow> y \<in> S \<Longrightarrow> \<forall>z \<in> S. \<not> beats z x \<Longrightarrow> \<forall>z \<in> S. \<not> beats z y \<Longrightarrow> x = y"
  using total by blast

end

definition rank_above :: "u8 \<times> dhp_uid_t \<Rightarrow> u8 \<times> dhp_uid_t \<Rightarrow> bool" where
  "rank_above a b \<longleftrightarrow> better (fst a) (snd a) (fst b) (snd b)"

interpretation election: election_order rank_above
proof
  show "\<not> rank_above a a" for a by (simp add: rank_above_def better_def)
  show "rank_above a c" if "rank_above a b" "rank_above b c" for a b c
    using that by (auto simp: rank_above_def better_def split: if_splits)
  show "rank_above a b \<or> rank_above b a" if "a \<noteq> b" for a b
    using that by (cases a; cases b) (auto simp: rank_above_def better_def)
qed

text \<open>A peer that outranks the board itself.\<close>

definition outranks :: "dhp_uhrp_t \<Rightarrow> dhp_uhrp_peer_t \<Rightarrow> bool" where
  "outranks u p \<longleftrightarrow> better (up_priority p) (up_uid p) (uc_priority (u_cfg u)) (uc_uid (u_cfg u))"

lemma fold_scan_best:
  "sc_best_is_self (fold scan_peer ps s) \<longleftrightarrow>
     sc_best_is_self s \<and> (\<forall>p \<in> set ps. up_used p \<longrightarrow> \<not> better (up_priority p) (up_uid p) (sc_best_p s) (sc_best_u s))"
proof (induction ps arbitrary: s)
  case (Cons p ps)
  show ?case by (simp add: Cons.IH) (auto simp: scan_peer_def Let_def)
qed simp

lemma scan_best_is_self: "sc_best_is_self (scan u) \<longleftrightarrow> (\<forall>p \<in> set (u_peers u). up_used p \<longrightarrow> \<not> outranks u p)"
  by (simp add: scan_def fold_scan_best outranks_def scan_init_def Let_def)

lemma fold_scan_backup:
  "sc_backup_is_self (fold scan_peer ps s) \<longleftrightarrow>
     sc_backup_is_self s \<and> (\<forall>p \<in> set ps. up_used p \<and> up_state p \<noteq> uhrp_state_code DHP_UHRP_ACTIVE \<longrightarrow>
        \<not> better (up_priority p) (up_uid p) (sc_backup_p s) (sc_backup_u s))"
proof (induction ps arbitrary: s)
  case (Cons p ps)
  show ?case by (simp add: Cons.IH) (auto simp: scan_peer_def Let_def)
qed simp

lemma scan_backup_is_self:
  "sc_backup_is_self (scan u) \<longleftrightarrow> u_state u \<noteq> DHP_UHRP_ACTIVE \<and>
     (\<forall>p \<in> set (u_peers u). up_used p \<and> up_state p \<noteq> uhrp_state_code DHP_UHRP_ACTIVE \<longrightarrow> \<not> outranks u p)"
  by (auto simp: scan_def fold_scan_backup outranks_def scan_init_def Let_def)

text \<open>The peers still inside their hold time.\<close>

definition live :: "dhp_uhrp_t \<Rightarrow> dhp_time_t \<Rightarrow> dhp_uhrp_peer_t set" where
  "live u now = {p \<in> set (u_peers u). up_used p \<and> \<not> peer_expired u now p}"

lemma aged_used: "{p \<in> set (u_peers (peer_age u now)). up_used p} = live u now"
  by (auto simp: peer_age_def live_def)

lemma aged_outranks: "outranks (peer_age u now) p = outranks u p"
  by (simp add: outranks_def)

lemma aged_best: "sc_best_is_self (scan (peer_age u now)) \<longleftrightarrow> (\<forall>p \<in> live u now. \<not> outranks u p)"
  using aged_used [of u now] by (auto simp: scan_best_is_self aged_outranks)

lemma aged_no_active:
  "find_active_peer (peer_age u now) = None \<longleftrightarrow>
     (\<forall>p \<in> live u now. up_state p \<noteq> uhrp_state_code DHP_UHRP_ACTIVE)"
  using aged_used [of u now] by (auto simp: find_active_peer_def find_idx_None_iff)

section \<open>Leaving and taking the role\<close>

lemma reevaluate_leaves:
  assumes "u_state u = DHP_UHRP_ACTIVE" "u_state (reevaluate u now) \<noteq> DHP_UHRP_ACTIVE"
  shows "ue_send_resign (u_ev (reevaluate u now)) \<and>
    (u_keys_held u \<longrightarrow> ue_broadcast_release (u_ev (reevaluate u now)) \<and>
       (u_resign_pending u \<and> dhp_time_after now (u_t_resign_deadline u) \<or>
        ut_handover_defer_max_ms (uc_timing (u_cfg u)) = 0))"
  using assms
  by (auto simp: reevaluate_def reeval_active_def service_resign_def schedule_resign_def Let_def
      dhp_time_after_delay split: if_splits option.splits)

lemma reevaluate_takes:
  assumes "u_state u \<noteq> DHP_UHRP_ACTIVE" "u_state (reevaluate u now) = DHP_UHRP_ACTIVE"
  shows "ue_send_hello (u_ev (reevaluate u now)) \<and>
    (\<forall>p \<in> live u now. \<not> outranks u p \<and> up_state p \<noteq> uhrp_state_code DHP_UHRP_ACTIVE)"
proof -
  have "find_active_peer (peer_age u now) = None \<and> sc_best_is_self (scan (peer_age u now)) \<and>
      ue_send_hello (u_ev (reevaluate u now))"
    using assms by (auto simp: reeval_defs split: if_splits option.splits)
  then show ?thesis using aged_best aged_no_active by blast
qed

lemma live_after: "u_started u \<Longrightarrow> {p \<in> set (u_peers (reevaluate u now)). up_used p} = live u now"
  by (simp add: reevaluate_peers aged_used)

lemma reevaluate_pending:
  assumes "u_started u" "u_state u = DHP_UHRP_ACTIVE" "u_resign_pending u"
  shows "u_state (reevaluate u now) =
    (if u_keys_held u \<and> \<not> dhp_time_after now (u_t_resign_deadline u) then DHP_UHRP_ACTIVE else DHP_UHRP_LISTEN)"
  using assms
  by (auto simp: reevaluate_def reeval_active_def service_resign_def schedule_resign_def Let_def)

text \<open>The time a call carries.\<close>

primrec call_time :: "uhrp_call \<Rightarrow> dhp_time_t option" where
  "call_time (Start now) = Some now"
| "call_time (RxHello src h now) = Some now"
| "call_time (RxResign src now) = Some now"
| "call_time (SetKeysHeld b) = None"
| "call_time (Tick now) = Some now"
| "call_time TakeEvents = None"

text \<open>
  Every call that changes the role does so in \<open>reevaluate\<close>, on a state with the same
  configuration, role, keys, deadline and pending flag.
\<close>

definition same_role :: "dhp_uhrp_t \<Rightarrow> dhp_uhrp_t \<Rightarrow> bool" where
  "same_role u v \<longleftrightarrow> u_cfg v = u_cfg u \<and> u_state v = u_state u \<and> u_keys_held v = u_keys_held u \<and>
     u_t_resign_deadline v = u_t_resign_deadline u \<and> u_resign_pending v = u_resign_pending u \<and>
     u_started v = u_started u \<and> u_active_valid v = u_active_valid u \<and> u_ev v = u_ev u"

lemma same_role_refl [simp]: "same_role u u"
  by (simp add: same_role_def)

lemma peer_get_same_role: "peer_get u a = (r, u') \<Longrightarrow> same_role u u'"
  by (auto simp: peer_get_def same_role_def split: prod.splits)

lemma role_change_reevaluates:
  assumes "u_started u" "\<forall>t. c \<noteq> Start t" "u_state (uhrp_do c u) \<noteq> u_state u"
  shows "\<exists>v now. same_role u v \<and> call_time c = Some now \<and> u_state (uhrp_do c u) = u_state (reevaluate v now) \<and>
    u_peers (uhrp_do c u) = u_peers (reevaluate v now) \<and>
    (ue_send_hello (u_ev (reevaluate v now)) \<longrightarrow> ue_send_hello (u_ev (uhrp_do c u))) \<and>
    ue_send_resign (u_ev (uhrp_do c u)) = ue_send_resign (u_ev (reevaluate v now)) \<and>
    ue_broadcast_release (u_ev (uhrp_do c u)) = ue_broadcast_release (u_ev (reevaluate v now))"
proof (cases c)
  case (RxHello src h now)
  obtain r u1 where g: "peer_get u src = (r, u1)" by fastforce
  with assms(3) RxHello obtain i where r: "r = Some i" and src: "src \<noteq> uc_addr (u_cfg u)"
    using peer_get_same_role [OF g]
    by (cases r) (auto simp: dhp_uhrp_rx_hello_def same_role_def split: if_splits)
  let ?v = "(if he_state h = uhrp_state_code DHP_UHRP_ACTIVE \<and> u_active u1 \<noteq> src
      then u1\<lparr>u_vacancy_clean := True\<rparr> else u1)\<lparr>u_peers := (u_peers u1)[i := peer_refresh h now (u_peers u1 ! i)]\<rparr>"
  have "same_role u ?v" using peer_get_same_role [OF g] by (simp add: same_role_def)
  moreover have "uhrp_do c u = reevaluate ?v now"
    using RxHello g r src assms(1) by (simp add: dhp_uhrp_rx_hello_def Let_def)
  ultimately show ?thesis using RxHello by auto
next
  case (RxResign src now)
  have "\<exists>v. same_role u v \<and> uhrp_do c u = reevaluate v now"
    using RxResign assms(1)
    by (intro exI [of _ "let u1 = (case peer_find u src of None \<Rightarrow> u
       | Some i \<Rightarrow> u\<lparr>u_peers := (u_peers u)[i := (u_peers u ! i)
          \<lparr>up_state := uhrp_state_code DHP_UHRP_LISTEN, up_last_seen := now\<rparr>]\<rparr>)
       in if src = u_active u1 then u1\<lparr>u_vacancy_clean := True, u_active := DHP_ADDR_NONE\<rparr> else u1"])
      (simp add: dhp_uhrp_rx_resign_def Let_def same_role_def split: option.split)
  with RxResign show ?thesis by auto
next
  case (Tick now)
  have "same_role u (note_vacancy u now)" by (simp add: same_role_def)
  moreover have "uhrp_do c u = hello_timer (reevaluate (note_vacancy u now) now) now"
    using Tick assms(1) by (simp add: dhp_uhrp_tick_def)
  moreover have "ue_send_hello (u_ev v) \<Longrightarrow> ue_send_hello (u_ev (hello_timer v now))" for v
    by (simp add: hello_timer_def)
  ultimately show ?thesis using Tick by (intro exI [of _ "note_vacancy u now"] exI [of _ now]) simp
qed (use assms in \<open>auto simp: dhp_uhrp_set_keys_held_def dhp_uhrp_take_events_def\<close>)

lemma standby_promotes:
  assumes "u_started u" "u_state u = DHP_UHRP_STANDBY"
    and "\<forall>p \<in> live u now. \<not> outranks u p \<and> up_state p \<noteq> uhrp_state_code DHP_UHRP_ACTIVE"
  shows "u_state (reevaluate u now) = DHP_UHRP_ACTIVE \<and>
    ue_send_hello (u_ev (reevaluate u now)) \<and>
    (ue_broadcast_release (u_ev (reevaluate u now)) \<longleftrightarrow>
       ue_broadcast_release (u_ev u) \<or> u_active_valid u \<and> \<not> u_vacancy_clean u) \<and>
    (ue_promoted_by_timeout (u_ev (reevaluate u now)) \<longleftrightarrow>
       ue_promoted_by_timeout (u_ev u) \<or> u_active_valid u \<and> \<not> u_vacancy_clean u)"
  using assms aged_no_active [of u now] aged_best [of u now] by (simp add: reeval_defs)

text \<open>The table slots a HELLO changes.\<close>

lemma refreshed_table:
  assumes "peer_get u src = (Some i, u1)"
  shows "set ((u_peers u1)[i := p]) \<subseteq> insert p (set (u_peers u)) \<and> i < length (u_peers u1)"
proof -
  obtain ps where ps: "tbl_get up_used up_addr peer_claim src (u_peers u) = (Some i, ps)" "u1 = u\<lparr>u_peers := ps\<rparr>"
    using assms by (auto simp: peer_get_def split: prod.splits)
  have "\<exists>q. ps[i := p] = (u_peers u)[i := p]"
    using ps(1) by (cases rule: peers.get_cases) auto
  then have "set (ps[i := p]) \<subseteq> insert p (set (u_peers u))"
    using set_update_subset_insert [of "u_peers u" i p] by auto
  with ps peers.get_entry [OF ps(1)] peers.get_length [OF ps(1)] show ?thesis by simp
qed

lemma peer_get_room: "p \<in> set (u_peers u) \<Longrightarrow> \<not> up_used p \<Longrightarrow> fst (peer_get u a) \<noteq> None"
  by (auto simp: peer_get_def tbl_get_def find_idx_None_iff split: option.split)

section \<open>Properties\<close>

text \<open>
  C15. Role consistency. In every state the election can reach by any sequence of starts,
  HELLOs, RESIGNs, key updates, ticks and event drains, a board is in state ACTIVE exactly
  when the address it believes to be the active speaker is its own; a resignation is
  pending only while it holds the role; the speaker a follower believes in is a table
  entry that advertised itself active; and no two entries share an address.
\<close>

theorem uhrp_role_invariant:
  assumes "uc_addr cfg \<noteq> DHP_ADDR_NONE" "uhrp_step\<^sup>*\<^sup>* (dhp_uhrp_init cfg) u"
  shows "(dhp_uhrp_is_active u \<longleftrightarrow> u_active u = uc_addr (u_cfg u)) \<and>
    (u_resign_pending u \<longrightarrow> dhp_uhrp_is_active u) \<and>
    (u_active u = DHP_ADDR_NONE \<or> u_active u = uc_addr (u_cfg u) \<or>
     (\<exists>p \<in> set (u_peers u). up_used p \<and> up_addr p = u_active u \<and> up_state p = uhrp_state_code DHP_UHRP_ACTIVE)) \<and>
    length (u_peers u) = DHP_MAX_BOARDS \<and> tbl_wf up_used up_addr (u_peers u)"
proof -
  have "uhrp_inv u" using uhrp.inv_reachable [OF _ assms(2)] assms(1) by (auto simp: uhrp_initial_def)
  then show ?thesis
    by (fastforce simp: uhrp_inv_def peers_inv_def role_inv_def role_pre_def fresh_inv_def
        dhp_uhrp_is_active_def list_all_iff)
qed

definition cfg_demo :: "u64 \<Rightarrow> u16 \<Rightarrow> dhp_uhrp_config_t" where
  "cfg_demo uid addr = \<lparr>uc_uid = uid, uc_addr = addr, uc_priority = 100, uc_caps = 3, uc_preempt = True,
     uc_timing = DHP_UHRP_TIMING_DEFAULT\<rparr>"

theorem uhrp_role_invariant_witness:
  "dhp_uhrp_is_active (dhp_uhrp_tick (dhp_uhrp_start (dhp_uhrp_init (cfg_demo 7 1)) 0) 150) \<longleftrightarrow>
   u_active (dhp_uhrp_tick (dhp_uhrp_start (dhp_uhrp_init (cfg_demo 7 1)) 0) 150) =
   uc_addr (u_cfg (dhp_uhrp_tick (dhp_uhrp_start (dhp_uhrp_init (cfg_demo 7 1)) 0) 150))"
proof -
  let ?u = "dhp_uhrp_init (cfg_demo 7 1)"
  have "uhrp_step ?u (dhp_uhrp_start ?u 0)"
    using uhrp_step.start [of ?u 0] by (simp add: dhp_uhrp_init_def Let_def)
  moreover have "uhrp_step (dhp_uhrp_start ?u 0) (dhp_uhrp_tick (dhp_uhrp_start ?u 0) 150)"
    using uhrp_step.tick [of "dhp_uhrp_start ?u 0" 150] by simp
  ultimately have "uhrp_step\<^sup>*\<^sup>* ?u (dhp_uhrp_tick (dhp_uhrp_start ?u 0) 150)" by auto
  moreover have "uc_addr (cfg_demo 7 1) \<noteq> DHP_ADDR_NONE" by (simp add: cfg_demo_def DHP_ADDR_NONE_def)
  ultimately show ?thesis using uhrp_role_invariant by blast
qed

text \<open>
  C4. Rule 1, never hand over while a key is held. Whatever call makes an active board leave
  the role, the board announces a RESIGN; and if a key is down at that moment, then a
  resignation was already pending, its deadline has passed, and the board releases
  everything before it resigns.
\<close>

theorem handover_waits_for_keys:
  assumes "u_started u" "u_state u = DHP_UHRP_ACTIVE" "\<forall>t. c \<noteq> Start t"
    and "u_state (uhrp_do c u) \<noteq> DHP_UHRP_ACTIVE" "ut_handover_defer_max_ms (uc_timing (u_cfg u)) \<noteq> 0"
  shows "ue_send_resign (u_ev (uhrp_do c u)) \<and>
    (u_keys_held u \<longrightarrow> ue_broadcast_release (u_ev (uhrp_do c u)) \<and> u_resign_pending u \<and>
       (\<exists>now. call_time c = Some now \<and> dhp_time_after now (u_t_resign_deadline u)))"
proof -
  obtain v now where v: "same_role u v" "call_time c = Some now"
    "u_state (uhrp_do c u) = u_state (reevaluate v now)"
    "ue_send_resign (u_ev (uhrp_do c u)) = ue_send_resign (u_ev (reevaluate v now))"
    "ue_broadcast_release (u_ev (uhrp_do c u)) = ue_broadcast_release (u_ev (reevaluate v now))"
    using role_change_reevaluates [OF assms(1,3)] assms(2,4) by metis
  then show ?thesis
    using reevaluate_leaves [of v now] assms by (simp add: same_role_def)
qed

theorem handover_waits_for_keys_witness:
  "\<exists>u. u_state u = DHP_UHRP_ACTIVE \<and> u_keys_held u \<and>
     u_state (dhp_uhrp_tick u 2000) \<noteq> DHP_UHRP_ACTIVE \<and>
     ue_send_resign (u_ev (dhp_uhrp_tick u 2000)) \<and> ue_broadcast_release (u_ev (dhp_uhrp_tick u 2000))"
proof -
  let ?u = "(dhp_uhrp_init (cfg_demo 7 1))\<lparr>u_started := True, u_state := DHP_UHRP_ACTIVE, u_active := 1,
    u_active_valid := True, u_keys_held := True, u_resign_pending := True, u_t_resign_deadline := 2000\<rparr>"
  have st: "u_started ?u" "u_state ?u = DHP_UHRP_ACTIVE" "u_resign_pending ?u" by simp_all
  have "u_state (uhrp_do (Tick 2000) ?u) = DHP_UHRP_LISTEN"
    using reevaluate_pending [of "note_vacancy ?u 2000" 2000] by (simp add: dhp_uhrp_tick_def)
  moreover have "ut_handover_defer_max_ms (uc_timing (u_cfg ?u)) \<noteq> 0"
    by (simp add: dhp_uhrp_init_def cfg_demo_def DHP_UHRP_TIMING_DEFAULT_def Let_def)
  ultimately have "ue_send_resign (u_ev (uhrp_do (Tick 2000) ?u)) \<and> ue_broadcast_release (u_ev (uhrp_do (Tick 2000) ?u))"
    using handover_waits_for_keys [OF st(1,2), of "Tick 2000"] by simp
  with \<open>u_state (uhrp_do (Tick 2000) ?u) = DHP_UHRP_LISTEN\<close> show ?thesis by (intro exI [of _ ?u]) simp
qed

text \<open>
  Rule 1 is bounded. With a resignation pending, the next tick keeps the role exactly
  while a key is down and the deadline lies ahead; once the keys are up, or the deadline has
  passed, it stands down at once.
\<close>

theorem handover_bounded:
  assumes "u_started u" "u_state u = DHP_UHRP_ACTIVE" "u_resign_pending u"
  shows "u_state (dhp_uhrp_tick u now) =
    (if u_keys_held u \<and> \<not> dhp_time_after now (u_t_resign_deadline u) then DHP_UHRP_ACTIVE else DHP_UHRP_LISTEN)"
  using reevaluate_pending [of "note_vacancy u now" now] assms by (simp add: dhp_uhrp_tick_def)

theorem handover_bounded_witness:
  "u_state (dhp_uhrp_tick ((dhp_uhrp_init (cfg_demo 7 1))\<lparr>u_started := True, u_state := DHP_UHRP_ACTIVE,
     u_resign_pending := True, u_keys_held := True, u_t_resign_deadline := 2000\<rparr>) 1999) = DHP_UHRP_ACTIVE \<and>
   u_state (dhp_uhrp_tick ((dhp_uhrp_init (cfg_demo 7 1))\<lparr>u_started := True, u_state := DHP_UHRP_ACTIVE,
     u_resign_pending := True, u_keys_held := False, u_t_resign_deadline := 2000\<rparr>) 1999) = DHP_UHRP_LISTEN"
  by (subst handover_bounded; simp add: dhp_time_after_def dhp_time_diff_def)+

text \<open>
  The role is taken only when it is free and deserved. Whatever call makes a board
  active, none of the peers still alive advertises itself active and none outranks the
  board, and the board announces itself at once.
\<close>

theorem role_taken_only_when_free:
  assumes "u_started u" "u_state u \<noteq> DHP_UHRP_ACTIVE" "\<forall>t. c \<noteq> Start t"
    and "u_state (uhrp_do c u) = DHP_UHRP_ACTIVE"
  shows "ue_send_hello (u_ev (uhrp_do c u)) \<and>
    (\<forall>p \<in> set (u_peers (uhrp_do c u)). up_used p \<longrightarrow>
       \<not> better (up_priority p) (up_uid p) (uc_priority (u_cfg u)) (uc_uid (u_cfg u)) \<and>
       up_state p \<noteq> uhrp_state_code DHP_UHRP_ACTIVE)"
proof -
  obtain v now where v: "same_role u v" "u_state (uhrp_do c u) = u_state (reevaluate v now)"
    "u_peers (uhrp_do c u) = u_peers (reevaluate v now)"
    "ue_send_hello (u_ev (reevaluate v now)) \<longrightarrow> ue_send_hello (u_ev (uhrp_do c u))"
    using role_change_reevaluates [OF assms(1,3)] assms(2,4) by metis
  then have "u_started v" "u_state v \<noteq> DHP_UHRP_ACTIVE" "u_state (reevaluate v now) = DHP_UHRP_ACTIVE" "u_cfg v = u_cfg u"
    using assms by (simp_all add: same_role_def)
  then show ?thesis
    using reevaluate_takes [of v now] live_after [of v now] v(3,4) by (auto simp: outranks_def)
qed

text \<open>A board that has been alone since power-on takes the role when its window closes.\<close>

lemma live_empty: "(\<forall>p \<in> set (u_peers u). \<not> up_used p) \<Longrightarrow> live u now = {}"
  by (auto simp: live_def)

lemma learn_decides:
  assumes "u_started u" "u_state u = DHP_UHRP_LEARN"
    and "dhp_time_after now (u_t_state_entered u + ucast (ut_learn_ms (uc_timing (u_cfg u))))"
    and "\<forall>p \<in> live u now. up_state p \<noteq> uhrp_state_code DHP_UHRP_ACTIVE"
  shows "u_state (reevaluate u now) =
    (if \<forall>p \<in> live u now. \<not> outranks u p then DHP_UHRP_ACTIVE else DHP_UHRP_LISTEN)"
proof -
  let ?a = "peer_age u now"
  have best: "sc_best_is_self (scan ?a) \<longleftrightarrow> (\<forall>p \<in> live u now. \<not> outranks u p)" by (rule aged_best)
  have "sc_backup_is_self (scan ?a) \<longleftrightarrow> (\<forall>p \<in> live u now. \<not> outranks u p)"
    using aged_used [of u now] assms(2,4) by (auto simp: scan_backup_is_self aged_outranks)
  with best assms aged_no_active [of u now] show ?thesis
    by (simp add: reevaluate_def reeval_learn_def wait_state_def Let_def)
qed

lemma demo_alone:
  "u_state (dhp_uhrp_tick (dhp_uhrp_start (dhp_uhrp_init (cfg_demo 7 1)) 0) 150) = DHP_UHRP_ACTIVE"
proof -
  let ?u = "note_vacancy (dhp_uhrp_start (dhp_uhrp_init (cfg_demo 7 1)) 0) 150"
  have e: "live ?u 150 = {}"
    by (rule live_empty) (simp add: dhp_uhrp_start_def dhp_uhrp_init_def peer_zero_def Let_def)
  have "u_started ?u" "u_state ?u = DHP_UHRP_LEARN"
    "dhp_time_after 150 (u_t_state_entered ?u + ucast (ut_learn_ms (uc_timing (u_cfg ?u))))"
    by (simp_all add: dhp_uhrp_start_def dhp_uhrp_init_def cfg_demo_def DHP_UHRP_TIMING_DEFAULT_def
        enter_state_def dhp_time_after_def dhp_time_diff_def Let_def)
  then show ?thesis
    using learn_decides [of ?u 150] e by (simp add: dhp_uhrp_tick_def dhp_uhrp_start_def)
qed

theorem role_taken_only_when_free_witness:
  "ue_send_hello (u_ev (uhrp_do (Tick 150) (dhp_uhrp_start (dhp_uhrp_init (cfg_demo 7 1)) 0)))"
proof -
  let ?u = "dhp_uhrp_start (dhp_uhrp_init (cfg_demo 7 1)) 0"
  have "u_started ?u" "u_state ?u \<noteq> DHP_UHRP_ACTIVE" by (simp_all add: dhp_uhrp_start_def)
  then show ?thesis using role_taken_only_when_free [of ?u "Tick 150"] demo_alone by simp
qed

lemma tbl_wf_unique:
  assumes "tbl_wf used addr t" "p \<in> set t" "used p" "i < length t" "used (t ! i)" "addr p = addr (t ! i)"
  shows "p = t ! i"
proof -
  obtain j where "j < length t" "p = t ! j" using assms(2) by (metis in_set_conv_nth)
  with assms show ?thesis unfolding tbl_wf_def by blast
qed

lemma tick_unfold:
  "u_started u \<Longrightarrow> dhp_uhrp_tick u now = hello_timer (reevaluate (note_vacancy u now) now) now"
  by (simp add: dhp_uhrp_tick_def)

lemma live_note_vacancy [simp]: "live (note_vacancy u now) now' = live u now'"
  by (simp add: live_def peer_expired_def)

lemma outranks_note_vacancy [simp]: "outranks (note_vacancy u now) p = outranks u p"
  by (simp add: outranks_def)

lemma hello_timer_send: "ue_send_hello (u_ev u) \<Longrightarrow> ue_send_hello (u_ev (hello_timer u now))"
  by (simp add: hello_timer_def)


text \<open>A standby board with one live active peer, as the HELLO of that peer leaves it.\<close>

definition demo_peer :: "dhp_uhrp_peer_t" where
  "demo_peer = \<lparr>up_used = True, up_uid = 9, up_addr = 2, up_priority = 100, up_state = 5, up_flags = 0,
     up_caps = 3, up_last_seen = 1000\<rparr>"

definition demo_standby :: dhp_uhrp_t where
  "demo_standby = (dhp_uhrp_init (cfg_demo 7 1))\<lparr>u_started := True, u_state := DHP_UHRP_STANDBY, u_active := 2,
     u_active_valid := True, u_vacancy_clean := True, u_peers := demo_peer # replicate 15 peer_zero\<rparr>"

lemma demo_standby_simps [simp]:
  "u_started demo_standby" "u_state demo_standby = DHP_UHRP_STANDBY" "u_active demo_standby = 2"
  "u_active_valid demo_standby" "u_vacancy_clean demo_standby"
  "u_peers demo_standby = demo_peer # replicate 15 peer_zero"
  "uc_addr (u_cfg demo_standby) = 1" "uc_uid (u_cfg demo_standby) = 7" "uc_priority (u_cfg demo_standby) = 100"
  "ut_hold_ms (uc_timing (u_cfg demo_standby)) = 150" "\<not> u_resign_pending demo_standby"
  "u_ev demo_standby = events_zero"
  by (simp_all add: demo_standby_def dhp_uhrp_init_def cfg_demo_def DHP_UHRP_TIMING_DEFAULT_def Let_def)

lemma demo_standby_inv: "uhrp_inv demo_standby"
proof -
  have "tbl_wf up_used up_addr (demo_peer # replicate 15 peer_zero)"
    by (auto simp: tbl_wf_def peer_zero_def nth_Cons' split: if_splits)
  then show ?thesis
    by (simp add: uhrp_inv_def peers_inv_def role_inv_def role_pre_def DHP_ADDR_NONE_def DHP_MAX_BOARDS_def)
      (simp add: demo_peer_def peer_zero_def list_all_iff)
qed


text \<open>
  A planned handover is clean. When the active speaker resigns, a standby board that no
  live peer outranks takes the role on that very frame, and neither reports a timeout nor
  orders a release: the outgoing board has already lifted its keys.
\<close>

theorem clean_handover_no_release:
  assumes "u_started u" "u_state u = DHP_UHRP_STANDBY" "src = u_active u" "peer_find u src = Some i"
    and "\<forall>p \<in> live u now. up_addr p \<noteq> src \<longrightarrow>
           \<not> outranks u p \<and> up_state p \<noteq> uhrp_state_code DHP_UHRP_ACTIVE"
    and "tbl_wf up_used up_addr (u_peers u)" "\<not> outranks u (u_peers u ! i)"
  defines "u' \<equiv> dhp_uhrp_rx_resign u src now"
  shows "u_state u' = DHP_UHRP_ACTIVE \<and> ue_send_hello (u_ev u') \<and>
    ue_broadcast_release (u_ev u') = ue_broadcast_release (u_ev u) \<and>
    ue_promoted_by_timeout (u_ev u') = ue_promoted_by_timeout (u_ev u)"
proof -
  let ?q = "(u_peers u ! i)\<lparr>up_state := uhrp_state_code DHP_UHRP_LISTEN, up_last_seen := now\<rparr>"
  let ?v = "u\<lparr>u_peers := (u_peers u)[i := ?q], u_vacancy_clean := True, u_active := DHP_ADDR_NONE\<rparr>"
  have i: "i < length (u_peers u)" "up_used (u_peers u ! i)" "up_addr (u_peers u ! i) = src"
    using peers.find_Some assms(4) unfolding peer_find_def by blast+
  have ok: "\<not> outranks u p \<and> up_state p \<noteq> uhrp_state_code DHP_UHRP_ACTIVE" if p: "p \<in> live ?v now" for p
  proof (cases "p = ?q")
    case True
    then show ?thesis using assms(7) by (simp add: outranks_def)
  next
    case False
    have "p \<in> set ((u_peers u)[i := ?q])" using p by (simp add: live_def)
    then obtain j where j: "j < length (u_peers u)" "p = (u_peers u)[i := ?q] ! j"
      by (metis in_set_conv_nth length_list_update)
    with False i(1) have "j \<noteq> i" by auto
    with j have "p = u_peers u ! j" by simp
    note \<open>j \<noteq> i\<close> this
    then have "p \<in> live u now" "up_addr p \<noteq> src"
      using p j(1) i assms(6) by (auto simp: live_def peer_expired_def tbl_wf_def)
    then show ?thesis using assms(5) by blast
  qed
  have "u' = reevaluate ?v now"
    using assms(1,3,4) by (simp add: u'_def dhp_uhrp_rx_resign_def Let_def)
  then show ?thesis
    using standby_promotes [of ?v now] ok assms(1,2) by (simp add: outranks_def)
qed

theorem clean_handover_no_release_witness:
  "u_state (dhp_uhrp_rx_resign (demo_standby\<lparr>u_peers := (demo_peer\<lparr>up_uid := 3\<rparr>) # replicate 15 peer_zero\<rparr>) 2 1050) =
     DHP_UHRP_ACTIVE \<and>
   \<not> ue_broadcast_release (u_ev (dhp_uhrp_rx_resign
        (demo_standby\<lparr>u_peers := (demo_peer\<lparr>up_uid := 3\<rparr>) # replicate 15 peer_zero\<rparr>) 2 1050))"
proof -
  let ?u = "demo_standby\<lparr>u_peers := (demo_peer\<lparr>up_uid := 3\<rparr>) # replicate 15 peer_zero\<rparr>"
  have "peer_find ?u 2 = Some 0" by (simp add: peer_find_def tbl_find_def demo_peer_def)
  moreover have "tbl_wf up_used up_addr (u_peers ?u)"
    by (auto simp: tbl_wf_def peer_zero_def nth_Cons' split: if_splits)
  moreover have "\<forall>p \<in> live ?u 1050. up_addr p \<noteq> 2 \<longrightarrow>
      \<not> outranks ?u p \<and> up_state p \<noteq> uhrp_state_code DHP_UHRP_ACTIVE"
    by (auto simp: live_def demo_peer_def peer_zero_def)
  moreover have "\<not> outranks ?u (u_peers ?u ! 0)" by (simp add: outranks_def better_def demo_peer_def)
  ultimately show ?thesis
    using clean_handover_no_release [of ?u 2 0 1050] by (simp add: events_zero_def)
qed

text \<open>
  The gap in rule 2. When the speaker's hold time has passed but the first event after it
  is a HELLO of a third, weaker board rather than a tick, the standby board is promoted
  inside \<open>dhp_uhrp_rx_hello\<close> with the vacancy still marked clean, and orders no release,
  although the speaker vanished without a word.
\<close>

theorem rule2_missed_on_hello:
  assumes "u_started u" "u_state u = DHP_UHRP_STANDBY" "u_vacancy_clean u" "src \<noteq> uc_addr (u_cfg u)"
    and "fst (peer_get u src) \<noteq> None" "he_state h \<noteq> uhrp_state_code DHP_UHRP_ACTIVE"
    and "\<not> better (he_priority h) (he_uid h) (uc_priority (u_cfg u)) (uc_uid (u_cfg u))"
    and "\<forall>p \<in> live u now. \<not> outranks u p \<and> up_state p \<noteq> uhrp_state_code DHP_UHRP_ACTIVE"
  defines "u' \<equiv> dhp_uhrp_rx_hello u src h now"
  shows "u_state u' = DHP_UHRP_ACTIVE \<and> ue_broadcast_release (u_ev u') = ue_broadcast_release (u_ev u)"
proof -
  obtain i u1 where g: "peer_get u src = (Some i, u1)" using assms(5) by (cases "peer_get u src") auto
  note same = peer_get_same_role [OF g]
  let ?q = "peer_refresh h now (u_peers u1 ! i)"
  let ?v = "u1\<lparr>u_peers := (u_peers u1)[i := ?q]\<rparr>"
  have "live ?v now \<subseteq> insert ?q (live u now)"
    using refreshed_table [OF g, of ?q] same by (auto simp: live_def peer_expired_def same_role_def)
  moreover have "\<not> outranks u ?q" "up_state ?q \<noteq> uhrp_state_code DHP_UHRP_ACTIVE"
    using assms(6,7) by (simp_all add: outranks_def peer_refresh_def)
  ultimately have ok: "\<forall>p \<in> live ?v now. \<not> outranks ?v p \<and> up_state p \<noteq> uhrp_state_code DHP_UHRP_ACTIVE"
    using assms(8) same by (auto simp: outranks_def same_role_def)
  have "u_vacancy_clean u1" using assms(3) peer_get_frame [OF g] by (metis dhp_uhrp_t.simps(15) dhp_uhrp_t.surjective dhp_uhrp_t.update_convs(16))
  moreover have "u' = reevaluate ?v now"
    using assms(1,4,6) g by (simp add: u'_def dhp_uhrp_rx_hello_def Let_def)
  ultimately show ?thesis
    using standby_promotes [of ?v now] ok assms(1,2) same by (simp add: same_role_def)
qed

definition demo_hello :: dhp_hello_t where
  "demo_hello = \<lparr>he_state = 2, he_priority = 90, he_flags = 0, he_hold_cs = 15, he_uid = 5, he_caps = 1, he_reserved = 0\<rparr>"

theorem rule2_missed_on_hello_witness:
  "u_state (dhp_uhrp_rx_hello demo_standby 3 demo_hello 1200) = DHP_UHRP_ACTIVE \<and>
   \<not> ue_broadcast_release (u_ev (dhp_uhrp_rx_hello demo_standby 3 demo_hello 1200)) \<and>
   ue_broadcast_release (u_ev (dhp_uhrp_tick demo_standby 1200))"
proof -
  have g: "fst (peer_get demo_standby 3) \<noteq> None"
    by (rule peer_get_room [of peer_zero]) (simp_all add: peer_zero_def)
  have l: "live demo_standby 1200 = {}"
    by (auto simp: live_def peer_expired_def demo_peer_def peer_zero_def dhp_time_after_def dhp_time_diff_def)
  have "ue_broadcast_release (u_ev (reevaluate (note_vacancy demo_standby 1200) 1200))"
    using standby_promotes [of "note_vacancy demo_standby 1200" 1200, unfolded live_note_vacancy l]
    by (simp add: note_vacancy_def peer_find_def tbl_find_def peer_expired_def demo_peer_def
        dhp_time_after_def dhp_time_diff_def DHP_ADDR_NONE_def)
  then show ?thesis
    using rule2_missed_on_hello [of demo_standby 3 demo_hello 1200] g l
    by (simp add: tick_unfold demo_hello_def better_def events_zero_def)
qed

text \<open>
  Every board of the chain is still learning, its window has closed, and its live peers are
  exactly the other boards, none of them active.
\<close>

definition rank_of :: "dhp_uhrp_t \<Rightarrow> u8 \<times> u64" where
  "rank_of u = (uc_priority (u_cfg u), uc_uid (u_cfg u))"

definition knows_field :: "dhp_time_t \<Rightarrow> dhp_uhrp_t list \<Rightarrow> nat \<Rightarrow> bool" where
  "knows_field now bs i \<longleftrightarrow> u_started (bs ! i) \<and> u_state (bs ! i) = DHP_UHRP_LEARN \<and>
     dhp_time_after now (u_t_state_entered (bs ! i) + ucast (ut_learn_ms (uc_timing (u_cfg (bs ! i))))) \<and>
     (\<forall>p \<in> live (bs ! i) now. up_state p \<noteq> uhrp_state_code DHP_UHRP_ACTIVE) \<and>
     (\<lambda>p. (up_priority p, up_uid p)) ` live (bs ! i) now = {rank_of (bs ! j) | j. j < length bs \<and> j \<noteq> i}"

definition field_known :: "dhp_time_t \<Rightarrow> dhp_uhrp_t list \<Rightarrow> bool" where
  "field_known now bs \<longleftrightarrow> distinct (map (\<lambda>u. uc_uid (u_cfg u)) bs) \<and> (\<forall>i < length bs. knows_field now bs i)"

lemma field_known_decides:
  assumes "field_known now bs" "i < length bs"
  shows "u_state (dhp_uhrp_tick (bs ! i) now) =
    (if \<forall>j < length bs. \<not> rank_above (rank_of (bs ! j)) (rank_of (bs ! i))
     then DHP_UHRP_ACTIVE else DHP_UHRP_LISTEN)"
proof -
  let ?u = "bs ! i"
  let ?key = "\<lambda>p. (up_priority p, up_uid p)"
  have k: "u_started ?u" "u_state ?u = DHP_UHRP_LEARN"
    "dhp_time_after now (u_t_state_entered ?u + ucast (ut_learn_ms (uc_timing (u_cfg ?u))))"
    "\<forall>p \<in> live ?u now. up_state p \<noteq> uhrp_state_code DHP_UHRP_ACTIVE"
    "?key ` live ?u now = {rank_of (bs ! j) | j. j < length bs \<and> j \<noteq> i}"
    using assms unfolding field_known_def knows_field_def by blast+
  have "u_state (dhp_uhrp_tick ?u now) =
      (if \<forall>p \<in> live ?u now. \<not> outranks ?u p then DHP_UHRP_ACTIVE else DHP_UHRP_LISTEN)"
    using learn_decides [of "note_vacancy ?u now" now] k by (simp add: tick_unfold)
  moreover have "(\<forall>p \<in> live ?u now. \<not> outranks ?u p) \<longleftrightarrow>
      (\<forall>r \<in> ?key ` live ?u now. \<not> rank_above r (rank_of ?u))"
    by (simp add: outranks_def rank_of_def rank_above_def)
  moreover have "\<dots> \<longleftrightarrow> (\<forall>j < length bs. \<not> rank_above (rank_of (bs ! j)) (rank_of ?u))"
    unfolding k(5) using election.irrefl [of "rank_of ?u"] by blast
  ultimately show ?thesis by simp
qed

text \<open>
  C25. The election has one winner. On a chain of any size whose boards have heard each other
  during the learn window, with distinct flash identities, exactly one board leaves the
  window active and all the others listen.
\<close>

theorem initial_election_unique:
  assumes "field_known now bs" "bs \<noteq> []"
  shows "(\<exists>!i. i < length bs \<and> u_state (dhp_uhrp_tick (bs ! i) now) = DHP_UHRP_ACTIVE) \<and>
    (\<forall>i < length bs. u_state (dhp_uhrp_tick (bs ! i) now) \<in> {DHP_UHRP_ACTIVE, DHP_UHRP_LISTEN})"
proof -
  define S where "S = set (map rank_of bs)"
  have active: "u_state (dhp_uhrp_tick (bs ! i) now) = DHP_UHRP_ACTIVE \<longleftrightarrow> (\<forall>r \<in> S. \<not> rank_above r (rank_of (bs ! i)))"
    if "i < length bs" for i
    using field_known_decides [OF assms(1) that] all_set_conv_all_nth [of bs]
    by (simp add: S_def)
  obtain x where x: "x \<in> S" "\<forall>r \<in> S. \<not> rank_above r x"
    using election.champion_exists [of S] assms(2) unfolding S_def by (metis List.finite_set map_is_Nil_conv set_empty2)
  then obtain i where i: "i < length bs" "rank_of (bs ! i) = x" by (auto simp: S_def set_conv_nth)
  have "j = i" if "j < length bs" "u_state (dhp_uhrp_tick (bs ! j) now) = DHP_UHRP_ACTIVE" for j
  proof -
    have "rank_of (bs ! j) = x"
      using that active x by (intro election.champion_unique [of _ S]) (auto simp: S_def)
    then have "snd (rank_of (bs ! j)) = snd (rank_of (bs ! i))" unfolding i(2) by (rule arg_cong)
    then have "map (\<lambda>u. uc_uid (u_cfg u)) bs ! j = map (\<lambda>u. uc_uid (u_cfg u)) bs ! i"
      using that(1) i(1) by (simp add: rank_of_def)
    then show ?thesis
      using assms(1) that(1) i(1) nth_eq_iff_index_eq [of "map (\<lambda>u. uc_uid (u_cfg u)) bs" j i]
      unfolding field_known_def length_map by blast
  qed
  then have "\<exists>!i. i < length bs \<and> u_state (dhp_uhrp_tick (bs ! i) now) = DHP_UHRP_ACTIVE"
    using active [OF i(1)] i x(2) by blast
  then show ?thesis using field_known_decides [OF assms(1)] by simp
qed

definition demo_learner :: "u64 \<Rightarrow> u16 \<Rightarrow> u64 \<Rightarrow> dhp_uhrp_t" where
  "demo_learner uid addr other = (dhp_uhrp_start (dhp_uhrp_init (cfg_demo uid addr)) 0)
     \<lparr>u_peers := (demo_peer\<lparr>up_uid := other, up_state := 1, up_last_seen := 140\<rparr>) # replicate 15 peer_zero\<rparr>"

lemma live_demo_learner:
  "live (demo_learner uid addr other) 150 = {demo_peer\<lparr>up_uid := other, up_state := 1, up_last_seen := 140\<rparr>}"
  by (auto simp: live_def demo_learner_def peer_expired_def demo_peer_def peer_zero_def dhp_uhrp_start_def dhp_uhrp_init_def
      cfg_demo_def DHP_UHRP_TIMING_DEFAULT_def dhp_time_after_def dhp_time_diff_def Let_def)

lemma demo_learner_simps:
  "rank_of (demo_learner uid addr other) = (100, uid)"
  "uc_uid (u_cfg (demo_learner uid addr other)) = uid"
  "u_started (demo_learner uid addr other)" "u_state (demo_learner uid addr other) = DHP_UHRP_LEARN"
  "dhp_time_after 150 (u_t_state_entered (demo_learner uid addr other) +
     ucast (ut_learn_ms (uc_timing (u_cfg (demo_learner uid addr other)))))"
  by (simp_all add: rank_of_def demo_learner_def dhp_uhrp_start_def dhp_uhrp_init_def cfg_demo_def
      DHP_UHRP_TIMING_DEFAULT_def dhp_time_after_def dhp_time_diff_def Let_def)

theorem initial_election_unique_witness:
  "\<exists>!i. i < 2 \<and> u_state (dhp_uhrp_tick ([demo_learner 7 1 9, demo_learner 9 2 7] ! i) 150) = DHP_UHRP_ACTIVE"
proof -
  let ?bs = "[demo_learner 7 1 9, demo_learner 9 2 7]"
  have "{rank_of (?bs ! j) | j. j < Suc (Suc 0) \<and> j \<noteq> 0} = {(100, 9)}"
    "{rank_of (?bs ! j) | j. j < Suc (Suc 0) \<and> j \<noteq> 1} = {(100, 7)}"
    by (auto simp: less_Suc_eq demo_learner_simps intro: exI [of _ 0] exI [of _ 1])
  then have "knows_field 150 ?bs 0" "knows_field 150 ?bs 1"
    unfolding knows_field_def by (simp_all add: demo_learner_simps live_demo_learner) (simp_all add: demo_peer_def)
  then have "field_known 150 ?bs"
    unfolding field_known_def by (auto simp: demo_learner_simps less_Suc_eq)
  then show ?thesis using initial_election_unique [of 150 ?bs] by (simp add: numeral_2_eq_2)
qed

text \<open>A board gives the role up when it has resigned or is about to.\<close>

definition yields :: "dhp_uhrp_t \<Rightarrow> bool" where
  "yields u \<longleftrightarrow> u_resign_pending u \<or> u_state u \<noteq> DHP_UHRP_ACTIVE"

text \<open>An active board whose table is empty, as after its half of a broken chain emptied.\<close>

definition lone_active :: "dhp_uhrp_t \<Rightarrow> bool" where
  "lone_active u \<longleftrightarrow> u_started u \<and> u_state u = DHP_UHRP_ACTIVE \<and> \<not> u_resign_pending u \<and>
     ut_hold_ms (uc_timing (u_cfg u)) \<noteq> 0 \<and> u_peers u \<noteq> [] \<and> list_all (\<lambda>p. \<not> up_used p) (u_peers u)"

lemma service_resign_yields: "u_resign_pending u \<Longrightarrow> yields (service_resign u now)"
  by (simp add: yields_def service_resign_def Let_def)

lemma reeval_one_active:
  assumes "u_started u" "u_state u = DHP_UHRP_ACTIVE" "\<not> u_resign_pending u" "u_peers u = q # ps"
    and "up_used q" "up_state q = uhrp_state_code DHP_UHRP_ACTIVE" "up_last_seen q = now"
    and "list_all (\<lambda>p. \<not> up_used p) ps" "ut_hold_ms (uc_timing (u_cfg u)) \<noteq> 0"
  shows "yields (reevaluate u now) \<longleftrightarrow> outranks u q"
proof -
  have "map (\<lambda>p. if up_used p \<and> P p then p\<lparr>up_used := False\<rparr> else p) ps = ps" for P
    using assms(8) by (intro map_idI) (auto simp: list_all_iff)
  moreover have "\<not> peer_expired u now q"
    using assms(7,9) by (simp add: peer_expired_def dhp_time_after_delay)
  ultimately have age: "peer_age u now = u" by (simp add: peer_age_def assms(4))
  have act: "find_active_peer u = Some 0" using assms by (simp add: find_active_peer_def)
  have best: "sc_best_is_self (scan u) \<longleftrightarrow> \<not> outranks u q"
    using assms(4,5,8) by (auto simp: scan_best_is_self list_all_iff)
  show ?thesis
  proof (cases "outranks u q")
    case True
    have r: "reevaluate u now = service_resign (schedule_resign (u\<lparr>u_standby := sc_backup_addr (scan u)\<rparr>) now) now"
      using assms(1,2,4) True by (simp add: reevaluate_def age act reeval_active_def outranks_def Let_def)
    show ?thesis unfolding r using True by (simp add: service_resign_yields)
  next
    case False
    have r: "reevaluate u now = service_resign (u\<lparr>u_standby := sc_backup_addr (scan u)\<rparr>) now"
      using assms(1,2,4) False best by (simp add: reevaluate_def age act reeval_active_def outranks_def Let_def)
    show ?thesis unfolding r using False assms(2,3) by (simp add: yields_def service_resign_def)
  qed
qed

lemma lone_active_hears:
  assumes "lone_active u" "src \<noteq> uc_addr (u_cfg u)" "he_state h = uhrp_state_code DHP_UHRP_ACTIVE"
  shows "yields (dhp_uhrp_rx_hello u src h now) \<longleftrightarrow>
    better (he_priority h) (he_uid h) (uc_priority (u_cfg u)) (uc_uid (u_cfg u))"
proof -
  obtain p ps where ps: "u_peers u = p # ps" "\<not> up_used p" "list_all (\<lambda>p. \<not> up_used p) ps"
    using assms(1) by (cases "u_peers u") (auto simp: lone_active_def)
  let ?q = "peer_refresh h now (peer_claim src p)"
  let ?v = "(if u_active u \<noteq> src then u\<lparr>u_vacancy_clean := True\<rparr> else u)\<lparr>u_peers := ?q # ps\<rparr>"
  have "find_idx (\<lambda>e. up_used e \<and> up_addr e = src) (u_peers u) = None"
    using ps by (auto simp: find_idx_None_iff list_all_iff)
  then have "peer_get u src = (Some 0, u\<lparr>u_peers := peer_claim src p # ps\<rparr>)"
    using ps by (simp add: peer_get_def tbl_get_def tbl_find_def)
  then have rx: "dhp_uhrp_rx_hello u src h now = reevaluate ?v now"
    using assms by (simp add: dhp_uhrp_rx_hello_def lone_active_def Let_def)
  have "yields (reevaluate ?v now) \<longleftrightarrow> outranks ?v ?q"
    using assms ps(3)
    by (intro reeval_one_active [of _ ?q ps]) (simp_all add: lone_active_def peer_refresh_def peer_claim_def)
  then show ?thesis unfolding rx by (simp add: outranks_def peer_refresh_def)
qed

text \<open>
  Split brain resolves. When two halves of a chain, each with its own active board, meet
  again and the two boards hear each other's HELLO, exactly one of them gives up the role,
  and it is the weaker one.
\<close>

theorem split_brain_resolves:
  assumes "lone_active a" "lone_active b" "uc_addr (u_cfg a) \<noteq> uc_addr (u_cfg b)"
    and "uc_uid (u_cfg a) \<noteq> uc_uid (u_cfg b)"
    and "a' = dhp_uhrp_rx_hello a (uc_addr (u_cfg b)) (dhp_uhrp_build_hello b) t1"
    and "b' = dhp_uhrp_rx_hello b (uc_addr (u_cfg a)) (dhp_uhrp_build_hello a) t2"
  shows "(yields a' \<longleftrightarrow> \<not> yields b') \<and> (yields a' \<longleftrightarrow> rank_above (rank_of b) (rank_of a))"
proof -
  have h: "he_state (dhp_uhrp_build_hello x) = uhrp_state_code DHP_UHRP_ACTIVE" if "lone_active x" for x
    using that by (simp add: dhp_uhrp_build_hello_def lone_active_def)
  have ya: "yields a' \<longleftrightarrow> rank_above (rank_of b) (rank_of a)"
    using lone_active_hears [OF assms(1) _ h [OF assms(2)]] assms(3)
    by (simp add: assms(5) rank_above_def rank_of_def dhp_uhrp_build_hello_def)
  have yb: "yields b' \<longleftrightarrow> rank_above (rank_of a) (rank_of b)"
    using lone_active_hears [OF assms(2) _ h [OF assms(1)]] assms(3)
    by (simp add: assms(6) rank_above_def rank_of_def dhp_uhrp_build_hello_def)
  have "rank_of a \<noteq> rank_of b" using assms(4) by (simp add: rank_of_def)
  then show ?thesis using ya yb election.total election.asym by blast
qed

definition demo_lone :: "u64 \<Rightarrow> u16 \<Rightarrow> dhp_uhrp_t" where
  "demo_lone uid addr = (dhp_uhrp_init (cfg_demo uid addr))
     \<lparr>u_started := True, u_state := DHP_UHRP_ACTIVE, u_active := addr, u_active_valid := True\<rparr>"

theorem split_brain_resolves_witness:
  "yields (dhp_uhrp_rx_hello (demo_lone 7 1) 2 (dhp_uhrp_build_hello (demo_lone 9 2)) 500) \<and>
   \<not> yields (dhp_uhrp_rx_hello (demo_lone 9 2) 1 (dhp_uhrp_build_hello (demo_lone 7 1)) 500)"
proof -
  have c: "lone_active (demo_lone uid addr)" "uc_addr (u_cfg (demo_lone uid addr)) = addr"
    "uc_uid (u_cfg (demo_lone uid addr)) = uid" "uc_priority (u_cfg (demo_lone uid addr)) = 100" for uid addr
    by (simp_all add: demo_lone_def lone_active_def dhp_uhrp_init_def cfg_demo_def DHP_UHRP_TIMING_DEFAULT_def
        DHP_MAX_BOARDS_def peer_zero_def Let_def list_all_iff)
  have "rank_above (rank_of (demo_lone 9 2)) (rank_of (demo_lone 7 1))"
    by (simp add: rank_above_def rank_of_def better_def c)
  then show ?thesis
    using split_brain_resolves [OF c(1) c(1) _ _ refl refl, of 7 1 9 2 500 500] by (auto simp: c)
qed

end
