(* ===== verification/Dhp_Link.thy ===== *)
theory Dhp_Link
  imports Dhp_Frame Dhp_Msg
begin

text \<open>
  The chain link, \<open>core/src/link.c\<close>: two ports with a decoder each, the replay window per
  source, sending on both ports, and relaying. The transmit callback is an output: every
  operation that can put bytes on a wire returns the list of \<open>(port, bytes)\<close> it hands to the
  callback, in order; \<open>lk_tx\<close> says whether a callback is installed.
\<close>

record dhp_link_port_t =
  lp_framer :: dhp_framer_t
  lp_last_rx :: dhp_time_t
  lp_neighbour :: bool
  lp_tx_frames :: u32
  lp_rx_frames :: u32
  lp_forwarded :: u32

record dhp_link_seen_t =
  sn_used :: bool
  sn_primed :: bool
  sn_addr :: dhp_addr_t
  sn_high_seq :: u16

record dhp_link_t =
  lk_self :: dhp_addr_t
  lk_key :: "u8 list"
  lk_has_key :: bool
  lk_tx_seq :: u16
  lk_neighbour_timeout_ms :: u16
  lk_tx :: bool
  lk_port :: "dhp_link_port_t list"
  lk_seen :: "dhp_link_seen_t list"
  lk_n_replay :: u32
  lk_n_ttl_drop :: u32

type_synonym link_tx = "dhp_port_t \<times> u8 list"

definition DHP_NEIGHBOUR_TIMEOUT_MS_DEFAULT :: u16 where
  [dhp_consts]: "DHP_NEIGHBOUR_TIMEOUT_MS_DEFAULT = 500"

definition link_port_zero :: dhp_link_port_t where
  "link_port_zero = \<lparr>lp_framer = dhp_framer_init, lp_last_rx = 0, lp_neighbour = False,
     lp_tx_frames = 0, lp_rx_frames = 0, lp_forwarded = 0\<rparr>"

definition link_seen_zero :: dhp_link_seen_t where
  "link_seen_zero = \<lparr>sn_used = False, sn_primed = False, sn_addr = 0, sn_high_seq = 0\<rparr>"

text \<open>\<open>l->port[port]\<close>, read and written.\<close>

definition port_of :: "dhp_link_t \<Rightarrow> dhp_port_t \<Rightarrow> dhp_link_port_t" where
  "port_of l p = lk_port l ! port_index p"

definition upd_port :: "dhp_port_t \<Rightarrow> (dhp_link_port_t \<Rightarrow> dhp_link_port_t) \<Rightarrow> dhp_link_t \<Rightarrow> dhp_link_t" where
  "upd_port p g l = l\<lparr>lk_port := (lk_port l)[port_index p := g (port_of l p)]\<rparr>"

section \<open>Set-up\<close>

definition dhp_link_init :: "dhp_addr_t \<Rightarrow> bool \<Rightarrow> dhp_link_t" where
  "dhp_link_init self tx =
     \<lparr>lk_self = self, lk_key = replicate 16 0, lk_has_key = False, lk_tx_seq = 0,
      lk_neighbour_timeout_ms = DHP_NEIGHBOUR_TIMEOUT_MS_DEFAULT, lk_tx = tx,
      lk_port = replicate DHP_PORT_COUNT link_port_zero,
      lk_seen = replicate DHP_MAX_BOARDS link_seen_zero, lk_n_replay = 0, lk_n_ttl_drop = 0\<rparr>"

definition dhp_link_set_key :: "dhp_link_t \<Rightarrow> u8 list \<Rightarrow> dhp_link_t" where
  "dhp_link_set_key l key = l\<lparr>lk_key := take 16 key, lk_has_key := True\<rparr>"

definition dhp_link_clear_key :: "dhp_link_t \<Rightarrow> dhp_link_t" where
  "dhp_link_clear_key l = l\<lparr>lk_key := replicate 16 0, lk_has_key := False\<rparr>"

definition dhp_link_has_neighbour :: "dhp_link_t \<Rightarrow> dhp_port_t \<Rightarrow> bool" where
  "dhp_link_has_neighbour l port \<longleftrightarrow>
     (if DHP_PORT_COUNT \<le> port_index port then False else lp_neighbour (port_of l port))"

definition dhp_link_is_head :: "dhp_link_t \<Rightarrow> bool" where
  "dhp_link_is_head l \<longleftrightarrow> \<not> dhp_link_has_neighbour l DHP_PORT_UP"

definition dhp_link_is_tail :: "dhp_link_t \<Rightarrow> bool" where
  "dhp_link_is_tail l \<longleftrightarrow> \<not> dhp_link_has_neighbour l DHP_PORT_DOWN"

section \<open>Replay window\<close>

definition seen_claim :: "dhp_addr_t \<Rightarrow> dhp_link_seen_t \<Rightarrow> dhp_link_seen_t" where
  "seen_claim a s = s\<lparr>sn_used := True, sn_addr := a, sn_high_seq := 0\<rparr>"

definition seen_get :: "dhp_link_t \<Rightarrow> dhp_addr_t \<Rightarrow> nat option \<times> dhp_link_t" where
  "seen_get l a =
     (let (i, t) = tbl_get sn_used sn_addr seen_claim a (lk_seen l) in (i, l\<lparr>lk_seen := t\<rparr>))"

definition seq_delta :: "u16 \<Rightarrow> u16 \<Rightarrow> int" where
  "seq_delta seq high = sint (seq - high)"

definition seq_is_fresh :: "dhp_link_t \<Rightarrow> dhp_addr_t \<Rightarrow> u16 \<Rightarrow> dhp_link_t \<times> bool" where
  "seq_is_fresh l src seq =
     (case seen_get l src of
        (None, l1) \<Rightarrow> (l1, True)
      | (Some i, l1) \<Rightarrow>
          let s = lk_seen l1 ! i
          in if \<not> sn_primed s then
               (l1\<lparr>lk_seen := (lk_seen l1)[i := s\<lparr>sn_primed := True, sn_high_seq := seq\<rparr>]\<rparr>, True)
             else
               let delta = seq_delta seq (sn_high_seq s)
               in if 0 < delta \<or> delta < - 1024
                  then (l1\<lparr>lk_seen := (lk_seen l1)[i := s\<lparr>sn_high_seq := seq\<rparr>]\<rparr>, True)
                  else (l1, False))"

section \<open>Transmit\<close>

definition emit_frame :: "dhp_link_t \<Rightarrow> dhp_port_t \<Rightarrow> dhp_frame_t \<Rightarrow> dhp_link_t \<times> link_tx list \<times> dhp_result_t" where
  "emit_frame l port f =
     (if \<not> lk_has_key l then (l, [], DHP_ERR_STATE)
      else case dhp_frame_encode f (lk_key l) DHP_WIRE_MAX of
             Inl e \<Rightarrow> (l, [], e)
           | Inr wire \<Rightarrow>
               (upd_port port (\<lambda>p. p\<lparr>lp_tx_frames := lp_tx_frames p + 1\<rparr>) l,
                if lk_tx l then [(port, wire)] else [], DHP_OK))"

definition link_frame :: "dhp_link_t \<Rightarrow> u8 \<Rightarrow> dhp_addr_t \<Rightarrow> u8 list option \<Rightarrow> u8 \<Rightarrow> dhp_frame_t" where
  "link_frame l type dst payload len =
     \<lparr>fr_type = type, fr_ttl = DHP_TTL_DEFAULT, fr_src = lk_self l, fr_dst = dst, fr_seq = lk_tx_seq l,
      fr_len = len, fr_payload = payload, fr_body = [], fr_body_len = 0\<rparr>"

definition dhp_link_send_port ::
  "dhp_link_t \<Rightarrow> dhp_port_t \<Rightarrow> u8 \<Rightarrow> dhp_addr_t \<Rightarrow> u8 list option \<Rightarrow> u8 \<Rightarrow> dhp_time_t \<Rightarrow>
     dhp_link_t \<times> link_tx list \<times> dhp_result_t" where
  "dhp_link_send_port l port type dst payload len now =
     (if DHP_PORT_COUNT \<le> port_index port then (l, [], DHP_ERR_INVAL)
      else
        let (l1, tx, r) = emit_frame l port (link_frame l type dst payload len)
        in (if r = DHP_OK then l1\<lparr>lk_tx_seq := lk_tx_seq l1 + 1\<rparr> else l1, tx, r))"

definition dhp_link_send ::
  "dhp_link_t \<Rightarrow> u8 \<Rightarrow> dhp_addr_t \<Rightarrow> u8 list option \<Rightarrow> u8 \<Rightarrow> dhp_time_t \<Rightarrow>
     dhp_link_t \<times> link_tx list \<times> dhp_result_t" where
  "dhp_link_send l type dst payload len now =
     (let f = link_frame l type dst payload len;
          (l1, tx1, r1) = emit_frame l DHP_PORT_UP f;
          (l2, tx2, r2) = emit_frame l1 DHP_PORT_DOWN f;
          worst = (if r2 \<noteq> DHP_OK then r2 else if r1 \<noteq> DHP_OK then r1 else DHP_OK)
      in (l2\<lparr>lk_tx_seq := lk_tx_seq l2 + 1\<rparr>, tx1 @ tx2, worst))"

section \<open>Receive\<close>

definition other_port :: "dhp_port_t \<Rightarrow> dhp_port_t" where
  "other_port p = (if p = DHP_PORT_UP then DHP_PORT_DOWN else DHP_PORT_UP)"

definition relay :: "dhp_link_t \<Rightarrow> dhp_port_t \<Rightarrow> dhp_frame_t \<Rightarrow> dhp_link_t \<times> link_tx list" where
  "relay l in_port f =
     (let out = other_port in_port;
          body_len = unat (fr_body_len f)
      in if body_len = 0 \<or> DHP_BODY_MAX < body_len then (l, [])
         else case dhp_frame_forward_prepare (take body_len (fr_body f)) of
                Inl e \<Rightarrow> (l\<lparr>lk_n_ttl_drop := lk_n_ttl_drop l + 1\<rparr>, [])
              | Inr body \<Rightarrow>
                  (upd_port in_port (\<lambda>p. p\<lparr>lp_forwarded := lp_forwarded p + 1\<rparr>)
                     (upd_port out (\<lambda>p. p\<lparr>lp_tx_frames := lp_tx_frames p + 1\<rparr>) l),
                   if lk_tx l then [(out, DHP_FLAG # stuff body @ [DHP_FLAG])] else []))"

text \<open>What \<open>dhp_link_rx_byte\<close> does once the decoder has delivered a frame.\<close>

definition link_accept ::
  "dhp_link_t \<Rightarrow> dhp_port_t \<Rightarrow> dhp_frame_t \<Rightarrow> dhp_time_t \<Rightarrow> dhp_link_t \<times> link_tx list \<times> (dhp_result_t + dhp_frame_t)" where
  "link_accept l0 port f now =
     (let l = upd_port port (\<lambda>p. p\<lparr>lp_rx_frames := lp_rx_frames p + 1, lp_last_rx := now, lp_neighbour := True\<rparr>) l0
      in if \<not> lk_has_key l \<and> fr_type f \<noteq> msg_code DHP_MSG_PAIR then (l, [], Inl DHP_ERR_AUTH)
         else if fr_src f = lk_self l then (l, [], Inl DHP_ERR_AGAIN)
         else
           let (l1, fresh) = seq_is_fresh l (fr_src f) (fr_seq f)
           in if \<not> fresh then (l1\<lparr>lk_n_replay := lk_n_replay l1 + 1\<rparr>, [], Inl DHP_ERR_REPLAY)
              else
                let for_us = fr_dst f = lk_self l1 \<or> fr_dst f = DHP_ADDR_BROADCAST;
                    (l2, tx) = (if fr_dst f \<noteq> lk_self l1 then relay l1 port f else (l1, []))
                in (l2, tx, if for_us then Inr f else Inl DHP_ERR_AGAIN))"

definition dhp_link_rx_byte ::
  "dhp_link_t \<Rightarrow> dhp_port_t \<Rightarrow> u8 \<Rightarrow> dhp_time_t \<Rightarrow> dhp_link_t \<times> link_tx list \<times> (dhp_result_t + dhp_frame_t)" where
  "dhp_link_rx_byte l port byte now =
     (if DHP_PORT_COUNT \<le> port_index port then (l, [], Inl DHP_ERR_INVAL)
      else
        let key = (if lk_has_key l then Some (lk_key l) else None);
            (fr, r) = dhp_framer_push (lp_framer (port_of l port)) byte key;
            l1 = upd_port port (\<lambda>p. p\<lparr>lp_framer := fr\<rparr>) l
        in case r of
             Inl e \<Rightarrow> (l1, [], Inl e)
           | Inr f \<Rightarrow> link_accept l1 port f now)"

definition link_age_port :: "u16 \<Rightarrow> dhp_time_t \<Rightarrow> dhp_link_port_t \<Rightarrow> dhp_link_port_t" where
  "link_age_port timeout now p =
     (if lp_neighbour p \<and> dhp_time_after now (lp_last_rx p + ucast timeout)
      then p\<lparr>lp_neighbour := False, lp_framer := dhp_framer_init\<rparr> else p)"

definition dhp_link_tick :: "dhp_link_t \<Rightarrow> dhp_time_t \<Rightarrow> dhp_link_t" where
  "dhp_link_tick l now = l\<lparr>lk_port := map (link_age_port (lk_neighbour_timeout_ms l) now) (lk_port l)\<rparr>"

text \<open>Feeding a run of bytes, with everything transmitted and every frame delivered.\<close>

primrec link_rx :: "dhp_port_t \<Rightarrow> dhp_time_t \<Rightarrow> u8 list \<Rightarrow> dhp_link_t \<Rightarrow> dhp_link_t \<times> link_tx list \<times> dhp_frame_t list" where
  "link_rx port now [] l = (l, [], [])"
| "link_rx port now (b # bs) l =
     (let (l1, tx1, r) = dhp_link_rx_byte l port b now;
          (l2, tx2, fs) = link_rx port now bs l1
      in (l2, tx1 @ tx2, (case r of Inl e \<Rightarrow> fs | Inr f \<Rightarrow> f # fs)))"

section \<open>Ports and the replay table\<close>

definition real_port :: "dhp_port_t \<Rightarrow> bool" where
  "real_port p \<longleftrightarrow> p \<noteq> DHP_PORT_LOCAL"

definition link_wf :: "dhp_link_t \<Rightarrow> bool" where
  "link_wf l \<longleftrightarrow> length (lk_port l) = DHP_PORT_COUNT \<and> length (lk_seen l) = DHP_MAX_BOARDS \<and>
     tbl_wf sn_used sn_addr (lk_seen l)"

lemma port_index_less [simp]: "port_index p < DHP_PORT_COUNT \<longleftrightarrow> real_port p"
  by (cases p) (simp_all add: real_port_def dhp_consts)

lemma port_index_le [simp]: "DHP_PORT_COUNT \<le> port_index p \<longleftrightarrow> \<not> real_port p"
  using port_index_less [of p] by linarith

lemma port_index_eq [simp]: "port_index p = port_index q \<longleftrightarrow> p = q"
  by (cases p; cases q) simp_all

lemma upd_port_simps [simp]:
  "lk_self (upd_port p g l) = lk_self l" "lk_key (upd_port p g l) = lk_key l"
  "lk_has_key (upd_port p g l) = lk_has_key l" "lk_tx (upd_port p g l) = lk_tx l"
  "lk_tx_seq (upd_port p g l) = lk_tx_seq l"
  "lk_seen (upd_port p g l) = lk_seen l" "length (lk_port (upd_port p g l)) = length (lk_port l)"
  by (simp_all add: upd_port_def)

lemma port_of_upd:
  "length (lk_port l) = DHP_PORT_COUNT \<Longrightarrow> real_port p \<Longrightarrow>
     port_of (upd_port p g l) q = (if q = p then g (port_of l p) else port_of l q)"
  by (simp add: port_of_def upd_port_def)

lemma upd_port_twice:
  "length (lk_port l) = DHP_PORT_COUNT \<Longrightarrow> real_port p \<Longrightarrow>
     upd_port p g (upd_port p h l) = upd_port p (\<lambda>x. g (h x)) l"
  by (simp add: upd_port_def port_of_def)

lemma link_wf_upd [simp]: "link_wf (upd_port p g l) = link_wf l"
  by (simp add: link_wf_def)

lemma link_wf_init: "link_wf (dhp_link_init self tx)"
  by (simp add: link_wf_def dhp_link_init_def tbl_wf_def link_seen_zero_def)

interpretation seen: addr_table sn_used sn_addr seen_claim
  by unfold_locales (simp_all add: seen_claim_def)

text \<open>What the replay check can change: the table only.\<close>

lemma seen_get_frame: "seen_get l a = (r, l') \<Longrightarrow> l' = l\<lparr>lk_seen := lk_seen l'\<rparr>"
  by (auto simp: seen_get_def split: prod.splits)

lemma seq_is_fresh_frame: "seq_is_fresh l a s = (l', b) \<Longrightarrow> l' = l\<lparr>lk_seen := lk_seen l'\<rparr>"
  by (auto simp: seq_is_fresh_def seen_get_def Let_def split: prod.splits option.splits if_splits)

lemma seq_is_fresh_simps [simp]:
  "lk_self (fst (seq_is_fresh l a s)) = lk_self l" "lk_key (fst (seq_is_fresh l a s)) = lk_key l"
  "lk_has_key (fst (seq_is_fresh l a s)) = lk_has_key l" "lk_tx (fst (seq_is_fresh l a s)) = lk_tx l"
  "lk_port (fst (seq_is_fresh l a s)) = lk_port l"
  by (auto simp: seq_is_fresh_def seen_get_def Let_def split: prod.splits option.splits)

lemma seq_is_fresh_upd_port [simp]:
  "snd (seq_is_fresh (upd_port p g l) a s) = snd (seq_is_fresh l a s)"
  "lk_seen (fst (seq_is_fresh (upd_port p g l) a s)) = lk_seen (fst (seq_is_fresh l a s))"
  by (simp_all add: seq_is_fresh_def seen_get_def Let_def split: prod.splits option.splits)

text \<open>The replay decision, for a source with a slot in the table.\<close>

lemma seen_get_Some:
  assumes "seen_get l a = (Some i, l')"
  shows "i < length (lk_seen l') \<and> tbl_find sn_used sn_addr a (lk_seen l') = Some i \<and>
    length (lk_seen l') = length (lk_seen l)"
proof -
  obtain t where t: "tbl_get sn_used sn_addr seen_claim a (lk_seen l) = (Some i, t)" "l' = l\<lparr>lk_seen := t\<rparr>"
    using assms by (auto simp: seen_get_def split: prod.splits)
  then show ?thesis
    using seen.get_entry [OF t(1)] seen.get_length [OF t(1)] seen.get_find [OF t(1)] by simp
qed

lemma fresh_known:
  assumes "tbl_find sn_used sn_addr a (lk_seen l) = Some i" "sn_primed (lk_seen l ! i)"
  shows "snd (seq_is_fresh l a s) \<longleftrightarrow>
    0 < seq_delta s (sn_high_seq (lk_seen l ! i)) \<or> seq_delta s (sn_high_seq (lk_seen l ! i)) < - 1024"
  using assms by (simp add: seq_is_fresh_def seen_get_def tbl_get_def Let_def)

lemma fresh_after:
  assumes "fst (seen_get l a) \<noteq> None"
  shows "\<exists>i. tbl_find sn_used sn_addr a (lk_seen (fst (seq_is_fresh l a s))) = Some i \<and>
    sn_primed (lk_seen (fst (seq_is_fresh l a s)) ! i) \<and>
    (snd (seq_is_fresh l a s) \<longrightarrow> sn_high_seq (lk_seen (fst (seq_is_fresh l a s)) ! i) = s) \<and>
    (\<not> snd (seq_is_fresh l a s) \<longrightarrow>
       \<not> (0 < seq_delta s (sn_high_seq (lk_seen (fst (seq_is_fresh l a s)) ! i)) \<or>
          seq_delta s (sn_high_seq (lk_seen (fst (seq_is_fresh l a s)) ! i)) < - 1024))"
proof -
  obtain i l1 where g: "seen_get l a = (Some i, l1)" using assms by (cases "seen_get l a") auto
  note e = seen_get_Some [OF g]
  have keep: "tbl_find sn_used sn_addr a ((lk_seen l1)[i := (lk_seen l1 ! i)\<lparr>sn_high_seq := s\<rparr>]) = Some i"
    "tbl_find sn_used sn_addr a ((lk_seen l1)[i := (lk_seen l1 ! i)\<lparr>sn_primed := True, sn_high_seq := s\<rparr>]) = Some i"
    using e by (subst seen.update_find; simp)+
  show ?thesis using e keep by (intro exI [of _ i]) (simp add: seq_is_fresh_def g Let_def)
qed

text \<open>A sequence number is never accepted twice in a row from a known source.\<close>

lemma fresh_not_twice:
  assumes "fst (seen_get l a) \<noteq> None"
  shows "\<not> snd (seq_is_fresh (fst (seq_is_fresh l a s)) a s)"
proof -
  obtain i where i: "tbl_find sn_used sn_addr a (lk_seen (fst (seq_is_fresh l a s))) = Some i"
    "sn_primed (lk_seen (fst (seq_is_fresh l a s)) ! i)"
    "snd (seq_is_fresh l a s) \<longrightarrow> sn_high_seq (lk_seen (fst (seq_is_fresh l a s)) ! i) = s"
    "\<not> snd (seq_is_fresh l a s) \<longrightarrow>
       \<not> (0 < seq_delta s (sn_high_seq (lk_seen (fst (seq_is_fresh l a s)) ! i)) \<or>
          seq_delta s (sn_high_seq (lk_seen (fst (seq_is_fresh l a s)) ! i)) < - 1024)"
    using fresh_after [OF assms] by blast
  then show ?thesis
    unfolding fresh_known [OF i(1,2)] by (cases "snd (seq_is_fresh l a s)") (auto simp: seq_delta_def)
qed

section \<open>Receiving a whole frame\<close>

definition link_key :: "dhp_link_t \<Rightarrow> u8 list option" where
  "link_key l = (if lk_has_key l then Some (lk_key l) else None)"

definition port_quiet :: "dhp_link_t \<Rightarrow> dhp_port_t \<Rightarrow> bool" where
  "port_quiet l p \<longleftrightarrow> (let fr = lp_framer (port_of l p)
     in \<not> (fm_in_frame fr \<and> \<not> fm_overflow fr \<and> fm_body fr \<noteq> []))"

definition good_body :: "u8 list \<Rightarrow> u8 list \<Rightarrow> bool" where
  "good_body key body \<longleftrightarrow> crc_ok body \<and> shape_ok body \<and> dhp_frame_mac_valid body key"

lemma link_key_upd [simp]: "link_key (upd_port p g l) = link_key l"
  by (simp add: link_key_def)

lemma rx_byte_Inl:
  "real_port p \<Longrightarrow> dhp_framer_push (lp_framer (port_of l p)) b (link_key l) = (fr, Inl e) \<Longrightarrow>
     dhp_link_rx_byte l p b now = (upd_port p (\<lambda>q. q\<lparr>lp_framer := fr\<rparr>) l, [], Inl e)"
  by (simp add: dhp_link_rx_byte_def link_key_def)

lemma rx_byte_Inr:
  "real_port p \<Longrightarrow> dhp_framer_push (lp_framer (port_of l p)) b (link_key l) = (fr, Inr f) \<Longrightarrow>
     dhp_link_rx_byte l p b now = link_accept (upd_port p (\<lambda>q. q\<lparr>lp_framer := fr\<rparr>) l) p f now"
  by (simp add: dhp_link_rx_byte_def link_key_def)

lemma link_rx_quiet:
  assumes "real_port p" "length (lk_port l) = DHP_PORT_COUNT"
    and "framer_run (link_key l) bs (lp_framer (port_of l p)) = (fr, rs)" "list_all isl rs"
  shows "link_rx p now bs l = (upd_port p (\<lambda>q. q\<lparr>lp_framer := fr\<rparr>) l, [], [])"
  using assms(2-)
proof (induction bs arbitrary: l rs)
  case Nil
  then have "fr = lp_framer (port_of l p)" by simp
  then show ?case by (simp add: upd_port_def port_of_def)
next
  case (Cons b bs)
  obtain fr1 r1 where push: "dhp_framer_push (lp_framer (port_of l p)) b (link_key l) = (fr1, r1)" by fastforce
  obtain rs' where run: "framer_run (link_key l) bs fr1 = (fr, rs')" "rs = r1 # rs'"
    using Cons.prems(2) push by (auto split: prod.splits)
  then obtain e where e: "r1 = Inl e" "list_all isl rs'" using Cons.prems(3) by (cases r1) auto
  let ?l = "upd_port p (\<lambda>q. q\<lparr>lp_framer := fr1\<rparr>) l"
  have "link_rx p now bs ?l = (upd_port p (\<lambda>q. q\<lparr>lp_framer := fr\<rparr>) ?l, [], [])"
    using Cons.prems(1) assms(1) run e by (intro Cons.IH [of ?l rs']) (simp_all add: port_of_upd)
  with rx_byte_Inl [OF assms(1) push [unfolded e(1)]] Cons.prems(1) assms(1) show ?case
    by (simp add: upd_port_twice)
qed

lemma link_rx_append:
  "link_rx p now (xs @ ys) l =
     (let (l1, tx1, fs1) = link_rx p now xs l; (l2, tx2, fs2) = link_rx p now ys l1
      in (l2, tx1 @ tx2, fs1 @ fs2))"
  by (induction xs arbitrary: l) (auto simp: Let_def split: prod.splits sum.splits)

text \<open>
  A well-formed frame on a quiet port: nothing happens until its closing flag, which hands
  the frame to \<open>link_accept\<close>.
\<close>

lemma link_rx_wire:
  assumes "real_port p" "length (lk_port l) = DHP_PORT_COUNT" "port_quiet l p" "lk_has_key l" "good_body (lk_key l) body"
  shows "\<exists>fr. fm_body fr = [] \<and> link_rx p now (frame_wire body) l =
    (let (l2, tx, r) = link_accept (upd_port p (\<lambda>q. q\<lparr>lp_framer := fr\<rparr>) l) p (frame_of_body body) now
     in (l2, tx, case r of Inl e \<Rightarrow> [] | Inr f \<Rightarrow> [f]))"
proof -
  let ?fr = "lp_framer (port_of l p)" and ?k = "link_key l"
  have g: "crc_ok body" "shape_ok body" "dhp_frame_mac_valid body (lk_key l)" using assms(5) by (simp_all add: good_body_def)
  have len: "15 \<le> length body" "length body \<le> DHP_BODY_MAX" using shape_ok_length [OF g(2)] by (simp_all add: dhp_consts)
  obtain fr1 where first: "dhp_framer_push ?fr DHP_FLAG ?k = (fr1, Inl DHP_ERR_AGAIN)"
    using assms(3) by (cases "fm_overflow ?fr") (auto simp: dhp_framer_push_def port_quiet_def Let_def)
  have fr1: "synced fr1" "fm_body fr1 = []" using push_flag_synced [OF first] by simp_all
  have mid: "framer_run ?k (DHP_FLAG # stuff body) ?fr =
      (fr1\<lparr>fm_body := body\<rparr>, Inl DHP_ERR_AGAIN # replicate (length (stuff body)) (Inl DHP_ERR_AGAIN))"
    using first fr1 len(2) by (simp add: framer_run_stuff)
  define l1 where "l1 = upd_port p (\<lambda>q. q\<lparr>lp_framer := fr1\<lparr>fm_body := body\<rparr>\<rparr>) l"
  have quiet: "link_rx p now (DHP_FLAG # stuff body) l = (l1, [], [])"
    unfolding l1_def by (rule link_rx_quiet [OF assms(1,2) mid]) (simp add: list_all_iff)
  have "finish (fr1\<lparr>fm_body := body\<rparr>) ?k =
      (fr1\<lparr>fm_body := body, fm_n_ok := fm_n_ok fr1 + 1\<rparr>, Inr (frame_of_body body))"
    by (subst finish_accept) (use g assms(4) in \<open>auto simp: link_key_def\<close>)
  moreover have "body \<noteq> []" using len by auto
  ultimately obtain fr2 where last: "dhp_framer_push (fr1\<lparr>fm_body := body\<rparr>) DHP_FLAG ?k = (fr2, Inr (frame_of_body body))"
    using fr1 by (simp add: dhp_framer_push_def synced_def)
  have fr2: "fm_body fr2 = []" using push_flag_synced [OF last] by simp
  have "port_of l1 p = (port_of l p)\<lparr>lp_framer := fr1\<lparr>fm_body := body\<rparr>\<rparr>" "link_key l1 = ?k"
    using assms(1,2) by (simp_all add: l1_def port_of_upd link_key_def)
  then have "dhp_link_rx_byte l1 p DHP_FLAG now =
      link_accept (upd_port p (\<lambda>q. q\<lparr>lp_framer := fr2\<rparr>) l1) p (frame_of_body body) now"
    using last by (intro rx_byte_Inr assms(1)) simp
  also have "upd_port p (\<lambda>q. q\<lparr>lp_framer := fr2\<rparr>) l1 = upd_port p (\<lambda>q. q\<lparr>lp_framer := fr2\<rparr>) l"
    unfolding l1_def using assms(1,2) by (simp add: upd_port_twice)
  finally have fin: "dhp_link_rx_byte l1 p DHP_FLAG now =
      link_accept (upd_port p (\<lambda>q. q\<lparr>lp_framer := fr2\<rparr>) l) p (frame_of_body body) now" .
  have "frame_wire body = (DHP_FLAG # stuff body) @ [DHP_FLAG]" by (simp add: frame_wire_def)
  then show ?thesis using fr2
    by (intro exI [of _ fr2]) (simp only: link_rx_append quiet Let_def, simp add: fin split: prod.splits sum.splits)
qed

section \<open>What an accepted frame does\<close>

lemma relay_good:
  assumes "good_body key body" "lk_tx l"
  shows "snd (relay l p (frame_of_body body)) =
    (case dhp_frame_forward_prepare body of Inl e \<Rightarrow> [] | Inr b \<Rightarrow> [(other_port p, frame_wire b)])"
proof -
  have len: "15 \<le> length body" "length body \<le> 79" using shape_ok_length assms(1) by (auto simp: good_body_def)
  then have "unat (of_nat (length body) :: u16) = length body" by (simp add: unsigned_of_nat take_bit_nat_eq_self)
  then show ?thesis using len assms(2)
    by (auto simp: relay_def frame_wire_def Let_def dhp_consts split: sum.split)
qed

lemma relay_simps [simp]:
  "lk_self (fst (relay l p f)) = lk_self l" "lk_key (fst (relay l p f)) = lk_key l"
  "lk_has_key (fst (relay l p f)) = lk_has_key l" "lk_tx (fst (relay l p f)) = lk_tx l"
  "lk_seen (fst (relay l p f)) = lk_seen l" "length (lk_port (fst (relay l p f))) = length (lk_port l)"
  by (simp_all add: relay_def Let_def split: sum.split)

lemma other_port_real [simp]: "real_port (other_port p)"
  by (simp add: other_port_def real_port_def)

lemma upd_port_framer:
  assumes "length (lk_port l) = DHP_PORT_COUNT" "\<And>x. lp_framer (g x) = lp_framer x"
  shows "lp_framer (port_of (upd_port p g l) q) = lp_framer (port_of l q)"
proof (cases "real_port p")
  case True
  with assms show ?thesis by (simp add: port_of_upd)
next
  case False
  with assms show ?thesis by (simp add: upd_port_def port_of_def list_update_beyond)
qed

lemma relay_framer:
  "length (lk_port l) = DHP_PORT_COUNT \<Longrightarrow> lp_framer (port_of (fst (relay l p f)) q) = lp_framer (port_of l q)"
  by (auto simp: relay_def Let_def upd_port_framer split: sum.split) (simp add: port_of_def)

text \<open>The outcome of \<open>link_accept\<close> on a paired board.\<close>

lemma link_accept_paired:
  assumes "lk_has_key l" "lk_tx l" "good_body key body"
  defines "f \<equiv> frame_of_body body"
  defines "ok \<equiv> fr_src f \<noteq> lk_self l \<and> snd (seq_is_fresh l (fr_src f) (fr_seq f))"
  shows "fst (snd (link_accept l p f now)) =
      (if ok \<and> fr_dst f \<noteq> lk_self l
       then (case dhp_frame_forward_prepare body of Inl e \<Rightarrow> [] | Inr b \<Rightarrow> [(other_port p, frame_wire b)]) else [])"
    and "(case snd (snd (link_accept l p f now)) of Inl e \<Rightarrow> [] | Inr g \<Rightarrow> [g]) =
      (if ok \<and> (fr_dst f = lk_self l \<or> fr_dst f = DHP_ADDR_BROADCAST) then [f] else [])"
proof -
  let ?l = "upd_port p (\<lambda>p. p\<lparr>lp_rx_frames := lp_rx_frames p + 1, lp_last_rx := now, lp_neighbour := True\<rparr>) l"
  obtain l1 b where fresh: "seq_is_fresh ?l (fr_src f) (fr_seq f) = (l1, b)" by fastforce
  have "b = snd (seq_is_fresh ?l (fr_src f) (fr_seq f))" using fresh by simp
  then have l1: "lk_self l1 = lk_self l" "lk_tx l1" "b = snd (seq_is_fresh l (fr_src f) (fr_seq f))"
    using seq_is_fresh_simps(1,4) [of ?l "fr_src f" "fr_seq f", unfolded fresh] assms(2)
    unfolding seq_is_fresh_upd_port by simp_all
  have r: "snd (relay l1 p f) = (case dhp_frame_forward_prepare body of Inl e \<Rightarrow> [] | Inr b \<Rightarrow> [(other_port p, frame_wire b)])"
    unfolding f_def by (rule relay_good [OF assms(3) l1(2)])
  show "fst (snd (link_accept l p f now)) =
      (if ok \<and> fr_dst f \<noteq> lk_self l
       then (case dhp_frame_forward_prepare body of Inl e \<Rightarrow> [] | Inr b \<Rightarrow> [(other_port p, frame_wire b)]) else [])"
    using assms(1) fresh l1 r by (auto simp: link_accept_def ok_def Let_def split: prod.splits)
  show "(case snd (snd (link_accept l p f now)) of Inl e \<Rightarrow> [] | Inr g \<Rightarrow> [g]) =
      (if ok \<and> (fr_dst f = lk_self l \<or> fr_dst f = DHP_ADDR_BROADCAST) then [f] else [])"
    using assms(1) fresh l1 by (auto simp: link_accept_def ok_def Let_def split: prod.splits)
qed

text \<open>One hop: what a paired board with a quiet port makes of a well-formed frame.\<close>

definition hop_ok :: "dhp_link_t \<Rightarrow> u8 list \<Rightarrow> bool" where
  "hop_ok l body \<longleftrightarrow> get16 (drop 2 body) \<noteq> lk_self l \<and>
     snd (seq_is_fresh l (get16 (drop 2 body)) (get16 (drop 6 body)))"

lemma link_hop:
  assumes "real_port p" "length (lk_port l) = DHP_PORT_COUNT" "port_quiet l p" "lk_has_key l" "lk_tx l"
    and "good_body (lk_key l) body"
  shows "fst (snd (link_rx p now (frame_wire body) l)) =
      (if hop_ok l body \<and> get16 (drop 4 body) \<noteq> lk_self l
       then (case dhp_frame_forward_prepare body of Inl e \<Rightarrow> [] | Inr b \<Rightarrow> [(other_port p, frame_wire b)]) else [])"
    and "snd (snd (link_rx p now (frame_wire body) l)) =
      (if hop_ok l body \<and> (get16 (drop 4 body) = lk_self l \<or> get16 (drop 4 body) = DHP_ADDR_BROADCAST)
       then [frame_of_body body] else [])"
proof -
  obtain fr where fr: "link_rx p now (frame_wire body) l =
    (let (l2, tx, r) = link_accept (upd_port p (\<lambda>q. q\<lparr>lp_framer := fr\<rparr>) l) p (frame_of_body body) now
     in (l2, tx, case r of Inl e \<Rightarrow> [] | Inr f \<Rightarrow> [f]))"
    using link_rx_wire [OF assms(1-4,6)] by blast
  note a = link_accept_paired [of "upd_port p (\<lambda>q. q\<lparr>lp_framer := fr\<rparr>) l" "lk_key l" body p now]
  show "fst (snd (link_rx p now (frame_wire body) l)) =
      (if hop_ok l body \<and> get16 (drop 4 body) \<noteq> lk_self l
       then (case dhp_frame_forward_prepare body of Inl e \<Rightarrow> [] | Inr b \<Rightarrow> [(other_port p, frame_wire b)]) else [])"
    using a(1) assms by (simp add: fr hop_ok_def Let_def split_beta)
  show "snd (snd (link_rx p now (frame_wire body) l)) =
      (if hop_ok l body \<and> (get16 (drop 4 body) = lk_self l \<or> get16 (drop 4 body) = DHP_ADDR_BROADCAST)
       then [frame_of_body body] else [])"
    using a(2) assms by (simp add: fr hop_ok_def Let_def split_beta)
qed

lemma forward_prepare_cases:
  assumes "15 \<le> length body"
  shows "body ! 1 \<le> 1 \<Longrightarrow> \<exists>e. dhp_frame_forward_prepare body = Inl e"
    and "1 < body ! 1 \<Longrightarrow> \<exists>b. dhp_frame_forward_prepare body = Inr b"
proof -
  have len: "\<not> length body < DHP_FRAME_OVERHEAD" "Suc 0 < length body" using assms by (simp_all add: dhp_consts)
  show "\<exists>e. dhp_frame_forward_prepare body = Inl e" if "body ! 1 \<le> 1"
  proof -
    have "body ! 1 = 0 \<or> body ! 1 = 1" using that by unat_arith
    then show ?thesis using len by (auto simp: dhp_frame_forward_prepare_def Let_def)
  qed
  show "\<exists>b. dhp_frame_forward_prepare body = Inr b" if "1 < body ! 1"
  proof -
    have "body ! 1 \<noteq> 0" "body ! 1 - 1 \<noteq> 0" using that by unat_arith+
    then show ?thesis using len by (simp add: dhp_frame_forward_prepare_def Let_def)
  qed
qed

lemma good_body_forward:
  assumes "good_body key body" "dhp_frame_forward_prepare body = Inr b"
  shows "good_body key b"
  using assms forward_prepare_bytes(2) [OF assms(2)] forward_prepare_frame(2) [OF assms(2)] forward_prepare_mac [OF assms(2)]
  by (simp add: good_body_def)

section \<open>Properties\<close>

text \<open>
  Boards in a line: the wire image enters the first on port \<open>p\<close>, and what a board sends out
  of the opposite port enters the next one on \<open>p\<close>. The result is what each delivers.
\<close>

definition out_of :: "dhp_port_t \<Rightarrow> link_tx list \<Rightarrow> u8 list" where
  "out_of p tx = concat (map snd (filter (\<lambda>t. fst t = p) tx))"

primrec chain_pass :: "dhp_port_t \<Rightarrow> dhp_time_t \<Rightarrow> dhp_link_t list \<Rightarrow> u8 list \<Rightarrow> dhp_frame_t list list" where
  "chain_pass p now [] wire = []"
| "chain_pass p now (l # ls) wire =
     (let (l', tx, fs) = link_rx p now wire l
      in fs # chain_pass p now ls (out_of (other_port p) tx))"

text \<open>A board that is paired with the chain, wired up, and has not heard this message yet.\<close>

definition board_ready :: "dhp_port_t \<Rightarrow> u8 list \<Rightarrow> dhp_addr_t \<Rightarrow> u16 \<Rightarrow> dhp_link_t \<Rightarrow> bool" where
  "board_ready p key src seq l \<longleftrightarrow> length (lk_port l) = DHP_PORT_COUNT \<and> port_quiet l p \<and> lk_has_key l \<and>
     lk_tx l \<and> lk_key l = key \<and> src \<noteq> lk_self l \<and> snd (seq_is_fresh l src seq)"

lemma chain_pass_broadcast:
  assumes "real_port p" "good_body key body" "get16 (drop 4 body) = DHP_ADDR_BROADCAST"
    and "list_all (board_ready p key (get16 (drop 2 body)) (get16 (drop 6 body))) ls"
    and "\<forall>l \<in> set ls. lk_self l \<noteq> DHP_ADDR_BROADCAST" "length ls \<le> unat (body ! 1)" "i < length ls"
  shows "\<exists>g. chain_pass p now ls (frame_wire body) ! i = [g] \<and> same_message (frame_of_body body) g \<and>
    unat (fr_ttl g) = unat (body ! 1) - i"
  using assms(2-)
proof (induction ls arbitrary: body i)
  case (Cons l ls)
  let ?src = "get16 (drop 2 body)" and ?seq = "get16 (drop 6 body)"
  have r: "length (lk_port l) = DHP_PORT_COUNT" "port_quiet l p" "lk_has_key l" "lk_tx l" "lk_key l = key" "hop_ok l body"
    using Cons.prems(3) by (auto simp: board_ready_def hop_ok_def)
  have self: "get16 (drop 4 body) \<noteq> lk_self l" using Cons.prems(2,4) by auto
  note hop = link_hop [OF assms(1) r(1-4), unfolded r(5), OF Cons.prems(1), of now]
  have fs: "snd (snd (link_rx p now (frame_wire body) l)) = [frame_of_body body]"
    using hop(2) r(6) Cons.prems(2) by simp
  show ?case
  proof (cases i)
    case 0
    then show ?thesis using fs by (auto simp: split_beta Let_def same_message_def)
  next
    case (Suc j)
    have len: "15 \<le> length body" using shape_ok_length Cons.prems(1) by (auto simp: good_body_def)
    have "2 \<le> unat (body ! 1)" using Cons.prems(5,6) Suc by simp
    then have "1 < body ! 1" by (simp add: word_less_nat_alt)
    then obtain b where b: "dhp_frame_forward_prepare body = Inr b" using forward_prepare_cases(2) [OF len] by blast
    have tx: "out_of (other_port p) (fst (snd (link_rx p now (frame_wire body) l))) = frame_wire b"
      using hop(1) r(6) self b by (simp add: out_of_def)
    have keep: "get16 (drop 2 b) = ?src" "get16 (drop 4 b) = get16 (drop 4 body)" "get16 (drop 6 b) = ?seq"
      using forward_prepare_get16 [OF b] len by simp_all
    have ttl: "unat (b ! 1) = unat (body ! 1) - 1"
      using forward_prepare_bytes(3) [OF b] \<open>1 < body ! 1\<close> by (simp add: unat_sub word_le_nat_alt word_less_nat_alt)
    have "\<exists>g. chain_pass p now ls (frame_wire b) ! j = [g] \<and> same_message (frame_of_body b) g \<and>
        unat (fr_ttl g) = unat (b ! 1) - j"
      using good_body_forward [OF Cons.prems(1) b] Cons.prems(2-6) Suc keep ttl
      by (intro Cons.IH) auto
    moreover have "same_message (frame_of_body body) (frame_of_body b)"
      using forward_prepare_frame(1) [OF b] Cons.prems(1) by (simp add: good_body_def)
    ultimately show ?thesis using Suc tx ttl by (auto simp: split_beta Let_def same_message_def)
  qed
qed simp

lemma good_body_encoded: "frame_ok f \<Longrightarrow> good_body key (frame_body f key)"
  by (simp add: good_body_def frame_body_crc frame_body_shape frame_body_mac_valid)

lemma link_send_paired:
  assumes "lk_has_key l" "lk_tx l" "length (lk_port l) = DHP_PORT_COUNT" "frame_ok (link_frame l type dst payload len)"
  shows "\<exists>l'. dhp_link_send l type dst payload len now =
    (l', [(DHP_PORT_UP, frame_wire (frame_body (link_frame l type dst payload len) (lk_key l))),
          (DHP_PORT_DOWN, frame_wire (frame_body (link_frame l type dst payload len) (lk_key l)))], DHP_OK)"
  using assms by (simp add: dhp_link_send_def emit_frame_def dhp_frame_encode_eq Let_def)

text \<open>The wire image of a broadcast, handed to a line of ready boards.\<close>

lemma broadcast_wire:
  assumes "frame_ok (link_frame l type DHP_ADDR_BROADCAST payload len)" "real_port p"
    and "list_all (board_ready p key (lk_self l) (lk_tx_seq l)) ls"
    and "\<forall>b \<in> set ls. lk_self b \<noteq> DHP_ADDR_BROADCAST" "length ls \<le> 20" "i < length ls"
  shows "\<exists>g. chain_pass p now ls (frame_wire (frame_body (link_frame l type DHP_ADDR_BROADCAST payload len) key)) ! i = [g] \<and>
    same_message (link_frame l type DHP_ADDR_BROADCAST payload len) g \<and> unat (fr_ttl g) = 20 - i"
proof -
  let ?f = "link_frame l type DHP_ADDR_BROADCAST payload len"
  let ?body = "frame_body ?f key"
  note n = frame_body_nth [OF assms(1), of key]
  have h: "get16 (drop 2 ?body) = lk_self l" "get16 (drop 4 ?body) = DHP_ADDR_BROADCAST"
    "get16 (drop 6 ?body) = lk_tx_seq l" "?body ! 1 = DHP_TTL_DEFAULT"
    unfolding n by (simp_all add: link_frame_def dhp_consts)
  have ttl: "unat (?body ! 1) = 20" unfolding h(4) by (simp add: dhp_consts)
  have "\<exists>g. chain_pass p now ls (frame_wire ?body) ! i = [g] \<and> same_message (frame_of_body ?body) g \<and>
      unat (fr_ttl g) = 20 - i"
    using chain_pass_broadcast [OF assms(2) good_body_encoded [OF assms(1)] h(2), of ls i now, unfolded h(1,3) ttl] assms(3-6)
    by blast
  moreover have "same_message ?f (frame_of_body ?body)" by (rule frame_of_body_frame_body(1) [OF assms(1)])
  ultimately show ?thesis unfolding same_message_def by metis
qed

text \<open>
  C16. A broadcast reaches the whole chain exactly once. What a paired board sends goes out of
  both ports as one frame; on either side every board of a line of up to twenty delivers it
  exactly once, with type, source, sequence number and payload unchanged and with a hop
  limit of twenty less the boards passed, so the receiver can tell how far away it is.
\<close>

theorem broadcast_reaches_chain:
  assumes "lk_has_key l" "lk_tx l" "length (lk_port l) = DHP_PORT_COUNT"
    and "frame_ok (link_frame l type DHP_ADDR_BROADCAST payload len)" "real_port p"
    and "list_all (board_ready p (lk_key l) (lk_self l) (lk_tx_seq l)) ls"
    and "\<forall>b \<in> set ls. lk_self b \<noteq> DHP_ADDR_BROADCAST" "length ls \<le> 20"
  shows "\<exists>l' wire. dhp_link_send l type DHP_ADDR_BROADCAST payload len now =
      (l', [(DHP_PORT_UP, wire), (DHP_PORT_DOWN, wire)], DHP_OK) \<and>
    (\<forall>i < length ls. \<exists>g. chain_pass p now ls wire ! i = [g] \<and>
       same_message (link_frame l type DHP_ADDR_BROADCAST payload len) g \<and> unat (fr_ttl g) = 20 - i)"
  using link_send_paired [OF assms(1-4), of now] broadcast_wire [OF assms(4-8), of _ now] by blast

definition demo_link :: "dhp_addr_t \<Rightarrow> dhp_link_t" where
  "demo_link a = dhp_link_set_key (dhp_link_init a True) (replicate 16 9)"

lemma fresh_unprimed:
  assumes "list_all (\<lambda>e. \<not> sn_primed e) (lk_seen l)"
  shows "snd (seq_is_fresh l a s)"
proof -
  obtain r t where g: "tbl_get sn_used sn_addr seen_claim a (lk_seen l) = (r, t)" by fastforce
  have u: "\<not> sn_primed (lk_seen l ! i)" if "i < length (lk_seen l)" for i
    using assms that by (simp add: list_all_length)
  show ?thesis using g
  proof (cases rule: seen.get_cases)
    case (found i)
    with seen.find_Some u show ?thesis by (simp add: seq_is_fresh_def seen_get_def g)
  next
    case (claimed i)
    with u show ?thesis by (simp add: seq_is_fresh_def seen_get_def g seen_claim_def)
  qed (simp add: seq_is_fresh_def seen_get_def g)
qed

lemma demo_link_ready: "a \<noteq> src \<Longrightarrow> board_ready DHP_PORT_UP (replicate 16 9) src seq (demo_link a)"
  using fresh_unprimed [of "demo_link a" src seq]
  by (simp add: board_ready_def demo_link_def dhp_link_set_key_def dhp_link_init_def port_quiet_def port_of_def
      link_port_zero_def dhp_framer_init_def link_seen_zero_def DHP_PORT_COUNT_def list_all_iff)

lemma demo_link_simps [simp]:
  "lk_has_key (demo_link a)" "lk_tx (demo_link a)" "length (lk_port (demo_link a)) = DHP_PORT_COUNT"
  "lk_key (demo_link a) = replicate 16 9" "lk_self (demo_link a) = a" "lk_tx_seq (demo_link a) = 0"
  by (simp_all add: demo_link_def dhp_link_set_key_def dhp_link_init_def)

theorem broadcast_reaches_chain_witness:
  "\<exists>wire. fst (snd (dhp_link_send (demo_link 1) 0 DHP_ADDR_BROADCAST (Some [1, 2]) 2 0)) =
      [(DHP_PORT_UP, wire), (DHP_PORT_DOWN, wire)] \<and>
    (\<exists>g. chain_pass DHP_PORT_UP 0 [demo_link 2, demo_link 3, demo_link 4] wire ! 2 = [g] \<and>
       frame_bytes g = [1, 2] \<and> unat (fr_ttl g) = 18)"
proof -
  have ok: "frame_ok (link_frame (demo_link 1) 0 DHP_ADDR_BROADCAST (Some [1, 2]) 2)"
    by (simp add: frame_ok_def link_frame_def dhp_consts)
  have b: "frame_bytes (link_frame (demo_link 1) 0 DHP_ADDR_BROADCAST (Some [1, 2]) 2) = [1, 2]"
    by (simp add: frame_bytes_def link_frame_def)
  have ls: "list_all (board_ready DHP_PORT_UP (lk_key (demo_link 1)) (lk_self (demo_link 1)) (lk_tx_seq (demo_link 1)))
      [demo_link 2, demo_link 3, demo_link 4]"
    using demo_link_ready by simp
  have dst: "\<forall>b \<in> set [demo_link 2, demo_link 3, demo_link 4]. lk_self b \<noteq> DHP_ADDR_BROADCAST"
    by (simp add: dhp_consts)
  have "real_port DHP_PORT_UP" by (simp add: real_port_def)
  from broadcast_reaches_chain [OF demo_link_simps(1-3) ok this ls dst, of 0]
  obtain l' wire where send: "dhp_link_send (demo_link 1) 0 DHP_ADDR_BROADCAST (Some [1, 2]) 2 0 =
      (l', [(DHP_PORT_UP, wire), (DHP_PORT_DOWN, wire)], DHP_OK)"
    and all: "\<forall>i < length [demo_link 2, demo_link 3, demo_link 4]. \<exists>g.
      chain_pass DHP_PORT_UP 0 [demo_link 2, demo_link 3, demo_link 4] wire ! i = [g] \<and>
      same_message (link_frame (demo_link 1) 0 DHP_ADDR_BROADCAST (Some [1, 2]) 2) g \<and> unat (fr_ttl g) = 20 - i"
    by auto
  have "2 < length [demo_link 2, demo_link 3, demo_link 4]" by simp
  with all obtain g where "chain_pass DHP_PORT_UP 0 [demo_link 2, demo_link 3, demo_link 4] wire ! 2 = [g]"
    "same_message (link_frame (demo_link 1) 0 DHP_ADDR_BROADCAST (Some [1, 2]) 2) g" "unat (fr_ttl g) = 20 - 2"
    by blast
  then show ?thesis unfolding send using b by (intro exI [of _ wire]) (simp add: same_message_def del: chain_pass.simps)
qed

lemma fresh_cong: "lk_seen l = lk_seen l' \<Longrightarrow> snd (seq_is_fresh l a s) = snd (seq_is_fresh l' a s)"
  by (simp add: seq_is_fresh_def seen_get_def Let_def split: prod.splits option.splits)

lemma seq_is_fresh_port_of: "port_of (fst (seq_is_fresh l a s)) q = port_of l q"
  by (simp add: port_of_def)

lemma link_accept_state:
  fixes l :: dhp_link_t and p q :: dhp_port_t and f :: dhp_frame_t and now :: dhp_time_t
  assumes "lk_has_key l" "length (lk_port l) = DHP_PORT_COUNT"
  defines "l' \<equiv> fst (link_accept l p f now)"
  shows "lk_self l' = lk_self l \<and> lk_key l' = lk_key l \<and> lk_has_key l' \<and> lk_tx l' = lk_tx l \<and>
    length (lk_port l') = DHP_PORT_COUNT \<and> lp_framer (port_of l' q) = lp_framer (port_of l q) \<and>
    lk_seen l' = (if fr_src f = lk_self l then lk_seen l else lk_seen (fst (seq_is_fresh l (fr_src f) (fr_seq f))))"
proof -
  let ?g = "\<lambda>p. p\<lparr>lp_rx_frames := lp_rx_frames p + 1, lp_last_rx := now, lp_neighbour := True\<rparr>"
  let ?l = "upd_port p ?g l"
  let ?s = "fst (seq_is_fresh ?l (fr_src f) (fr_seq f))"
  have s: "lk_self ?s = lk_self l" "lk_key ?s = lk_key l" "lk_has_key ?s" "lk_tx ?s = lk_tx l"
    "length (lk_port ?s) = DHP_PORT_COUNT" "lp_framer (port_of ?s q) = lp_framer (port_of l q)"
    "lk_seen ?s = lk_seen (fst (seq_is_fresh l (fr_src f) (fr_seq f)))"
    using assms(1,2) by (simp_all add: seq_is_fresh_port_of upd_port_framer)
  have "l' = ?l \<and> fr_src f = lk_self l \<or> fr_src f \<noteq> lk_self l \<and>
      (l' = ?s\<lparr>lk_n_replay := lk_n_replay ?s + 1\<rparr> \<or> l' = ?s \<or> l' = fst (relay ?s p f))"
    using assms(1) by (auto simp: l'_def link_accept_def Let_def split_beta)
  then show ?thesis
    using s relay_framer [OF s(5)] assms(1,2)
    by (elim disjE conjE) (simp_all add: upd_port_framer, simp_all add: port_of_def)
qed

lemma link_rx_state:
  fixes l :: dhp_link_t and p q :: dhp_port_t and now :: dhp_time_t
  assumes "real_port p" "length (lk_port l) = DHP_PORT_COUNT" "port_quiet l p" "lk_has_key l" "good_body (lk_key l) body"
  defines "l' \<equiv> fst (link_rx p now (frame_wire body) l)"
  shows "lk_self l' = lk_self l \<and> lk_key l' = lk_key l \<and> lk_has_key l' \<and> lk_tx l' = lk_tx l \<and>
    length (lk_port l') = DHP_PORT_COUNT \<and> (port_quiet l q \<longrightarrow> port_quiet l' q) \<and>
    lk_seen l' = (if get16 (drop 2 body) = lk_self l then lk_seen l
                  else lk_seen (fst (seq_is_fresh l (get16 (drop 2 body)) (get16 (drop 6 body)))))"
proof -
  obtain fr where fr: "fm_body fr = []" "link_rx p now (frame_wire body) l =
    (let (l2, tx, r) = link_accept (upd_port p (\<lambda>q. q\<lparr>lp_framer := fr\<rparr>) l) p (frame_of_body body) now
     in (l2, tx, case r of Inl e \<Rightarrow> [] | Inr f \<Rightarrow> [f]))"
    using link_rx_wire [OF assms(1-5)] by blast
  let ?l = "upd_port p (\<lambda>q. q\<lparr>lp_framer := fr\<rparr>) l"
  have l': "l' = fst (link_accept ?l p (frame_of_body body) now)"
    by (simp add: l'_def fr(2) Let_def split_beta)
  have "port_quiet l q \<longrightarrow> \<not> (fm_in_frame (lp_framer (port_of ?l q)) \<and> \<not> fm_overflow (lp_framer (port_of ?l q)) \<and>
      fm_body (lp_framer (port_of ?l q)) \<noteq> [])"
    using fr(1) assms(1,2) by (simp add: port_of_upd port_quiet_def Let_def)
  then show ?thesis
    using link_accept_state [of ?l p "frame_of_body body" now q] assms(2,4)
    unfolding l' by (simp add: port_quiet_def Let_def)
qed


lemma demo_link_quiet: "real_port p \<Longrightarrow> port_quiet (demo_link a) p"
  by (cases p) (simp_all add: port_quiet_def port_of_def demo_link_def dhp_link_set_key_def dhp_link_init_def
      link_port_zero_def dhp_framer_init_def DHP_PORT_COUNT_def real_port_def)

lemma seen_room: "e \<in> set (lk_seen l) \<Longrightarrow> \<not> sn_used e \<Longrightarrow> fst (seen_get l a) \<noteq> None"
  by (auto simp: seen_get_def tbl_get_def find_idx_None_iff split: option.split)

lemma demo_link_room: "fst (seen_get (demo_link a) src) \<noteq> None"
  by (rule seen_room [of link_seen_zero])
    (simp_all add: demo_link_def dhp_link_set_key_def dhp_link_init_def DHP_MAX_BOARDS_def link_seen_zero_def)

definition demo_body :: "u8 list" where
  "demo_body = frame_body (link_frame (demo_link 1) 0 DHP_ADDR_BROADCAST (Some [1, 2]) 2) (replicate 16 9)"

lemma demo_body_good: "good_body (replicate 16 9) demo_body"
  unfolding demo_body_def by (rule good_body_encoded) (simp add: frame_ok_def link_frame_def dhp_consts)


text \<open>
  The replay window. For a source whose high-water mark is known, a sequence number is
  accepted exactly when it lies ahead of the mark or more than 1024 behind it, on the
  wrapping 16-bit circle. So a recorded frame whose number has fallen more than 1024 behind
  the mark is delivered again, although its source never restarted.
\<close>

theorem stale_frame_accepted:
  assumes "real_port p" "length (lk_port l) = DHP_PORT_COUNT" "lk_has_key l" "lk_tx l" "port_quiet l p"
    and "good_body (lk_key l) body" "get16 (drop 2 body) \<noteq> lk_self l" "get16 (drop 4 body) = lk_self l"
    and "tbl_find sn_used sn_addr (get16 (drop 2 body)) (lk_seen l) = Some i" "sn_primed (lk_seen l ! i)"
  shows "snd (snd (link_rx p now (frame_wire body) l)) = [frame_of_body body] \<longleftrightarrow>
    (let delta = seq_delta (get16 (drop 6 body)) (sn_high_seq (lk_seen l ! i)) in 0 < delta \<or> delta < - 1024)"
  using link_hop(2) [OF assms(1,2,5,3,4,6), of now] fresh_known [OF assms(9,10)] assms(7,8)
  by (simp add: hop_ok_def Let_def)

definition demo_replay_link :: dhp_link_t where
  "demo_replay_link = (demo_link 2)\<lparr>lk_seen := \<lparr>sn_used = True, sn_primed = True, sn_addr = 1, sn_high_seq = 1025\<rparr> #
     replicate 15 link_seen_zero\<rparr>"

definition demo_unicast :: "u8 list" where
  "demo_unicast = frame_body (link_frame (demo_link 1) 0 2 (Some [1, 2]) 2) (replicate 16 9)"

theorem stale_frame_accepted_witness:
  "snd (snd (link_rx DHP_PORT_UP 0 (frame_wire demo_unicast) demo_replay_link)) = [frame_of_body demo_unicast]"
proof -
  let ?f = "link_frame (demo_link 1) 0 2 (Some [1, 2]) 2"
  have ok: "frame_ok ?f" by (simp add: frame_ok_def link_frame_def dhp_consts)
  note n = frame_body_nth [OF ok, of "replicate 16 9", folded demo_unicast_def]
  have h: "get16 (drop 2 demo_unicast) = 1" "get16 (drop 4 demo_unicast) = 2" "get16 (drop 6 demo_unicast) = 0"
    unfolding n by (simp_all add: link_frame_def)
  have good: "good_body (replicate 16 9) demo_unicast" unfolding demo_unicast_def by (rule good_body_encoded [OF ok])
  have s: "lk_has_key demo_replay_link" "lk_tx demo_replay_link" "lk_self demo_replay_link = 2"
    "length (lk_port demo_replay_link) = DHP_PORT_COUNT" "lk_key demo_replay_link = replicate 16 9"
    "port_of demo_replay_link p = port_of (demo_link 2) p" for p
    by (simp_all add: demo_replay_link_def port_of_def)
  have p: "real_port DHP_PORT_UP" "port_quiet demo_replay_link DHP_PORT_UP"
    using demo_link_quiet [of DHP_PORT_UP 2] by (simp_all add: real_port_def port_quiet_def s)
  have t: "tbl_find sn_used sn_addr 1 (lk_seen demo_replay_link) = Some 0" "sn_primed (lk_seen demo_replay_link ! 0)"
    "sn_high_seq (lk_seen demo_replay_link ! 0) = 1025"
    by (simp_all add: demo_replay_link_def tbl_find_def)
  have "seq_delta 0 1025 < - 1024" by (simp add: seq_delta_def)
  then show ?thesis
    using stale_frame_accepted [OF p(1) s(4,1,2) p(2), of demo_unicast 0 0] good h t s(3,5) by (simp add: Let_def)
qed

text \<open>
  An unpaired board is deaf and mute. Without a chain key it delivers and relays nothing
  but pairing frames; and everything it tries to originate, pairing offers included, is
  refused before a byte reaches a wire.
\<close>

theorem unpaired_board_isolated:
  assumes "\<not> lk_has_key l"
  shows "snd (dhp_link_send l type dst payload len now) = ([], DHP_ERR_STATE) \<and>
    fst (snd (dhp_link_send_port l p type dst payload len now)) = [] \<and>
    (\<forall>f. fr_type f \<noteq> msg_code DHP_MSG_PAIR \<longrightarrow> snd (link_accept l p f now) = ([], Inl DHP_ERR_AUTH))"
  using assms by (simp add: dhp_link_send_def dhp_link_send_port_def emit_frame_def link_accept_def Let_def)

theorem unpaired_board_isolated_witness:
  "snd (dhp_link_send (dhp_link_init 1 True) (msg_code DHP_MSG_PAIR) DHP_ADDR_BROADCAST (Some [0]) 1 0) = ([], DHP_ERR_STATE)"
  using unpaired_board_isolated [of "dhp_link_init 1 True"] by (simp add: dhp_link_init_def)

text \<open>
  Silence is noticed and leaves no residue. After a neighbour has been silent for the
  timeout, a tick marks its port as unconnected and empties the decoder, so a later
  connection starts on a clean frame boundary; a port that is not due keeps everything.
\<close>

theorem silent_neighbour_forgotten:
  assumes "link_wf l" "real_port p"
  shows "port_of (dhp_link_tick l now) p =
    (if dhp_link_has_neighbour l p \<and> dhp_time_after now (lp_last_rx (port_of l p) + ucast (lk_neighbour_timeout_ms l))
     then (port_of l p)\<lparr>lp_neighbour := False, lp_framer := dhp_framer_init\<rparr> else port_of l p)"
  using assms by (simp add: port_of_def dhp_link_tick_def link_age_port_def dhp_link_has_neighbour_def link_wf_def)

theorem silent_neighbour_forgotten_witness:
  "lp_neighbour (port_of (dhp_link_tick (upd_port DHP_PORT_UP (\<lambda>p. p\<lparr>lp_neighbour := True, lp_last_rx := 100\<rparr>)
     (dhp_link_init 1 True)) 600) DHP_PORT_UP) = False"
proof -
  let ?l = "upd_port DHP_PORT_UP (\<lambda>p. p\<lparr>lp_neighbour := True, lp_last_rx := 100\<rparr>) (dhp_link_init 1 True)"
  have p: "real_port DHP_PORT_UP" by (simp add: real_port_def)
  have "link_wf ?l" using link_wf_init by simp
  moreover have "length (lk_port (dhp_link_init 1 True)) = DHP_PORT_COUNT" "lk_neighbour_timeout_ms ?l = 500"
    by (simp_all add: dhp_link_init_def upd_port_def dhp_consts)
  ultimately show ?thesis
    using silent_neighbour_forgotten [of ?l DHP_PORT_UP 600] p
    by (simp add: port_of_upd dhp_link_has_neighbour_def dhp_time_after_def dhp_time_diff_def DHP_PORT_COUNT_def)
qed

end
