(* ===== verification/Dhp_Auth.thy ===== *)
theory Dhp_Auth
  imports Dhp_Integrity Dhp_Msg
begin

text \<open>
  Trust establishment, \<open>core/src/auth.c\<close>. The cryptographic primitives are supplied by the
  caller in the source, and here: \<open>dhp_crypto_t\<close> is a record of functions. Randomness and key
  generation read and change the backend's context, which they return; the shared secret and
  the key derivation are functions of their arguments, as \<open>dhp/auth.h\<close> documents them. The
  buffers a build function fills are returned, with the empty list for a length of zero.
\<close>

definition DHP_DH_PUBLIC_BYTES :: nat where [dhp_consts]: "DHP_DH_PUBLIC_BYTES = 32"

definition DHP_DH_SECRET_BYTES :: nat where [dhp_consts]: "DHP_DH_SECRET_BYTES = 32"

definition DHP_NONCE_BYTES :: nat where [dhp_consts]: "DHP_NONCE_BYTES = 8"

definition DHP_CONFIRM_BYTES :: nat where [dhp_consts]: "DHP_CONFIRM_BYTES = 16"

definition DHP_SAS_BYTES :: nat where [dhp_consts]: "DHP_SAS_BYTES = 3"

definition DHP_SIPHASH_KEY_BYTES :: nat where [dhp_consts]: "DHP_SIPHASH_KEY_BYTES = 16"

record 'c dhp_crypto_t =
  cr_random :: "'c \<Rightarrow> nat \<Rightarrow> u8 list \<times> 'c"
  cr_dh_keypair :: "'c \<Rightarrow> (u8 list \<times> u8 list) \<times> 'c"
  cr_dh_shared :: "u8 list \<Rightarrow> u8 list \<Rightarrow> u8 list option"
  cr_kdf :: "nat \<Rightarrow> u8 list \<Rightarrow> u8 list \<Rightarrow> u8 list"
  cr_ctx :: 'c

definition DHP_PAIR_OFFER :: u8 where [dhp_consts]: "DHP_PAIR_OFFER = 0"

definition DHP_PAIR_CONFIRM :: u8 where [dhp_consts]: "DHP_PAIR_CONFIRM = 1"

definition DHP_PAIR_ABORT :: u8 where [dhp_consts]: "DHP_PAIR_ABORT = 2"

datatype dhp_pair_state_t =
    DHP_PAIR_IDLE
  | DHP_PAIR_WAITING
  | DHP_PAIR_CONFIRM_WAIT
  | DHP_PAIR_DONE
  | DHP_PAIR_ABORTED

datatype dhp_pair_abort_t =
    DHP_ABORT_NONE
  | DHP_ABORT_THIRD_PARTY
  | DHP_ABORT_TIMEOUT
  | DHP_ABORT_BAD_CONFIRM
  | DHP_ABORT_BAD_KEY
  | DHP_ABORT_PEER

primrec abort_code :: "dhp_pair_abort_t \<Rightarrow> u8" where
  "abort_code DHP_ABORT_NONE = 0"
| "abort_code DHP_ABORT_THIRD_PARTY = 1"
| "abort_code DHP_ABORT_TIMEOUT = 2"
| "abort_code DHP_ABORT_BAD_CONFIRM = 3"
| "abort_code DHP_ABORT_BAD_KEY = 4"
| "abort_code DHP_ABORT_PEER = 5"

record dhp_pair_events_t =
  pe_send_offer :: bool
  pe_send_confirm :: bool
  pe_send_abort :: bool
  pe_completed :: bool
  pe_aborted :: bool
  pe_abort_reason :: u8

record 'c dhp_pair_t =
  pr_crypto :: "'c dhp_crypto_t"
  pr_self_uid :: dhp_uid_t
  pr_state :: dhp_pair_state_t
  pr_t_started :: dhp_time_t
  pr_window_ms :: u16
  pr_secret :: "u8 list"
  pr_self_public :: "u8 list"
  pr_self_nonce :: "u8 list"
  pr_peer_uid :: dhp_uid_t
  pr_peer_public :: "u8 list"
  pr_peer_nonce :: "u8 list"
  pr_have_peer :: bool
  pr_offers_seen :: u8
  pr_chain_key :: "u8 list"
  pr_expect_confirm :: "u8 list"
  pr_sas :: "u8 list"
  pr_peer_confirmed :: bool
  pr_abort_reason :: dhp_pair_abort_t
  pr_ev :: dhp_pair_events_t

definition pair_events_zero :: dhp_pair_events_t where
  "pair_events_zero = \<lparr>pe_send_offer = False, pe_send_confirm = False, pe_send_abort = False,
     pe_completed = False, pe_aborted = False, pe_abort_reason = 0\<rparr>"

text \<open>The context strings, with the terminating zero that \<open>sizeof\<close> counts.\<close>

definition INFO_KEY :: "u8 list" where
  "INFO_KEY = map of_char ''dhp/v1 chain-key'' @ [0]"

definition INFO_CONFIRM :: "u8 list" where
  "INFO_CONFIRM = map of_char ''dhp/v1 confirm'' @ [0]"

definition INFO_SAS :: "u8 list" where
  "INFO_SAS = map of_char ''dhp/v1 sas'' @ [0]"

primrec dhp_pair_state_name :: "dhp_pair_state_t \<Rightarrow> string" where
  "dhp_pair_state_name DHP_PAIR_IDLE = ''idle''"
| "dhp_pair_state_name DHP_PAIR_WAITING = ''waiting''"
| "dhp_pair_state_name DHP_PAIR_CONFIRM_WAIT = ''confirming''"
| "dhp_pair_state_name DHP_PAIR_DONE = ''done''"
| "dhp_pair_state_name DHP_PAIR_ABORTED = ''aborted''"

primrec dhp_pair_abort_name :: "dhp_pair_abort_t \<Rightarrow> string" where
  "dhp_pair_abort_name DHP_ABORT_NONE = ''none''"
| "dhp_pair_abort_name DHP_ABORT_THIRD_PARTY = ''third party joined''"
| "dhp_pair_abort_name DHP_ABORT_TIMEOUT = ''timed out''"
| "dhp_pair_abort_name DHP_ABORT_BAD_CONFIRM = ''confirmation mismatch''"
| "dhp_pair_abort_name DHP_ABORT_BAD_KEY = ''bad public key''"
| "dhp_pair_abort_name DHP_ABORT_PEER = ''peer aborted''"

section \<open>Operations\<close>

definition abort_with :: "'c dhp_pair_t \<Rightarrow> dhp_pair_abort_t \<Rightarrow> 'c dhp_pair_t" where
  "abort_with p why =
     (if pr_state p = DHP_PAIR_ABORTED then p
      else p\<lparr>pr_state := DHP_PAIR_ABORTED, pr_abort_reason := why,
             pr_ev := (pr_ev p)\<lparr>pe_send_abort := True, pe_aborted := True, pe_abort_reason := abort_code why\<rparr>,
             pr_chain_key := replicate DHP_SIPHASH_KEY_BYTES 0,
             pr_secret := replicate DHP_DH_SECRET_BYTES 0\<rparr>)"

text \<open>The zeroed struct with the fields both set-up functions keep.\<close>

definition pair_zero :: "'c dhp_crypto_t \<Rightarrow> dhp_uid_t \<Rightarrow> 'c dhp_pair_t" where
  "pair_zero crypto uid =
     \<lparr>pr_crypto = crypto, pr_self_uid = uid, pr_state = DHP_PAIR_IDLE, pr_t_started = 0, pr_window_ms = 0,
      pr_secret = replicate DHP_DH_SECRET_BYTES 0, pr_self_public = replicate DHP_DH_PUBLIC_BYTES 0,
      pr_self_nonce = replicate DHP_NONCE_BYTES 0, pr_peer_uid = 0,
      pr_peer_public = replicate DHP_DH_PUBLIC_BYTES 0, pr_peer_nonce = replicate DHP_NONCE_BYTES 0,
      pr_have_peer = False, pr_offers_seen = 0, pr_chain_key = replicate DHP_SIPHASH_KEY_BYTES 0,
      pr_expect_confirm = replicate DHP_CONFIRM_BYTES 0, pr_sas = replicate DHP_SAS_BYTES 0,
      pr_peer_confirmed = False, pr_abort_reason = DHP_ABORT_NONE, pr_ev = pair_events_zero\<rparr>"

definition dhp_pair_init :: "'c dhp_crypto_t \<Rightarrow> dhp_uid_t \<Rightarrow> 'c dhp_pair_t" where
  "dhp_pair_init crypto uid = pair_zero crypto uid"

definition dhp_pair_begin :: "'c dhp_pair_t \<Rightarrow> dhp_time_t \<Rightarrow> u16 \<Rightarrow> 'c dhp_pair_t" where
  "dhp_pair_begin p now window_ms =
     (let c = pr_crypto p;
          ((secret, public), ctx1) = cr_dh_keypair c (cr_ctx c);
          (nonce, ctx2) = cr_random c ctx1 DHP_NONCE_BYTES
      in (pair_zero (c\<lparr>cr_ctx := ctx2\<rparr>) (pr_self_uid p))
           \<lparr>pr_state := DHP_PAIR_WAITING, pr_t_started := now,
            pr_window_ms := (if window_ms \<noteq> 0 then window_ms else 30000),
            pr_secret := secret, pr_self_public := public, pr_self_nonce := nonce,
            pr_ev := pair_events_zero\<lparr>pe_send_offer := True\<rparr>\<rparr>)"

definition build_transcript :: "'c dhp_pair_t \<Rightarrow> u8 list" where
  "build_transcript p =
     (let self_first = pr_self_uid p < pr_peer_uid p;
          pub_a = (if self_first then pr_self_public p else pr_peer_public p);
          non_a = (if self_first then pr_self_nonce p else pr_peer_nonce p);
          pub_b = (if self_first then pr_peer_public p else pr_self_public p);
          non_b = (if self_first then pr_peer_nonce p else pr_self_nonce p);
          uid_a = (if self_first then pr_self_uid p else pr_peer_uid p);
          uid_b = (if self_first then pr_peer_uid p else pr_self_uid p)
      in put64 uid_a @ pub_a @ non_a @ put64 uid_b @ pub_b @ non_b)"

definition derive :: "'c dhp_pair_t \<Rightarrow> 'c dhp_pair_t option" where
  "derive p =
     (case cr_dh_shared (pr_crypto p) (pr_secret p) (pr_peer_public p) of
        None \<Rightarrow> None
      | Some shared \<Rightarrow>
          let transcript = build_transcript p;
              kdf = cr_kdf (pr_crypto p)
          in Some (p\<lparr>pr_chain_key := kdf DHP_SIPHASH_KEY_BYTES shared (INFO_KEY @ transcript),
                     pr_sas := kdf DHP_SAS_BYTES shared (INFO_SAS @ transcript),
                     pr_expect_confirm :=
                       kdf DHP_CONFIRM_BYTES shared (INFO_CONFIRM @ transcript @ put64 (pr_peer_uid p))\<rparr>))"

definition build_own_confirm :: "'c dhp_pair_t \<Rightarrow> u8 list option" where
  "build_own_confirm p =
     (case cr_dh_shared (pr_crypto p) (pr_secret p) (pr_peer_public p) of
        None \<Rightarrow> None
      | Some shared \<Rightarrow>
          Some (cr_kdf (pr_crypto p) DHP_CONFIRM_BYTES shared
                  (INFO_CONFIRM @ build_transcript p @ put64 (pr_self_uid p))))"

definition rx_offer :: "'c dhp_pair_t \<Rightarrow> u8 list \<Rightarrow> 'c dhp_pair_t" where
  "rx_offer p b =
     (if length b < 1 + 8 + DHP_DH_PUBLIC_BYTES + DHP_NONCE_BYTES then p
      else
        let uid = get64 (drop 1 b)
        in if uid = pr_self_uid p then p
           else if pr_have_peer p \<and> uid = pr_peer_uid p then
             (if pr_state p = DHP_PAIR_CONFIRM_WAIT
              then p\<lparr>pr_ev := (pr_ev p)\<lparr>pe_send_confirm := True\<rparr>\<rparr> else p)
           else if pr_have_peer p then
             abort_with (p\<lparr>pr_offers_seen := pr_offers_seen p + 1\<rparr>) DHP_ABORT_THIRD_PARTY
           else
             let q = p\<lparr>pr_peer_uid := uid,
                       pr_peer_public := take DHP_DH_PUBLIC_BYTES (drop 9 b),
                       pr_peer_nonce := take DHP_NONCE_BYTES (drop (9 + DHP_DH_PUBLIC_BYTES) b),
                       pr_have_peer := True, pr_offers_seen := 1\<rparr>
             in case derive q of
                  None \<Rightarrow> abort_with q DHP_ABORT_BAD_KEY
                | Some d \<Rightarrow> d\<lparr>pr_state := DHP_PAIR_CONFIRM_WAIT,
                             pr_ev := (pr_ev d)\<lparr>pe_send_confirm := True, pe_send_offer := True\<rparr>\<rparr>)"

definition rx_confirm :: "'c dhp_pair_t \<Rightarrow> u8 list \<Rightarrow> 'c dhp_pair_t" where
  "rx_confirm p b =
     (if length b < 1 + 8 + DHP_CONFIRM_BYTES \<or> \<not> pr_have_peer p then p
      else if get64 (drop 1 b) \<noteq> pr_peer_uid p then p
      else if \<not> dhp_ct_equal (drop 9 b) (pr_expect_confirm p) DHP_CONFIRM_BYTES
      then abort_with p DHP_ABORT_BAD_CONFIRM
      else
        let q = p\<lparr>pr_peer_confirmed := True\<rparr>
        in if pr_state q = DHP_PAIR_CONFIRM_WAIT
           then q\<lparr>pr_state := DHP_PAIR_DONE, pr_ev := (pr_ev q)\<lparr>pe_completed := True\<rparr>\<rparr> else q)"

definition dhp_pair_rx :: "'c dhp_pair_t \<Rightarrow> u8 list \<Rightarrow> dhp_time_t \<Rightarrow> 'c dhp_pair_t" where
  "dhp_pair_rx p payload now =
     (if length payload < 1 \<or> pr_state p = DHP_PAIR_IDLE \<or> pr_state p = DHP_PAIR_ABORTED then p
      else if payload ! 0 = DHP_PAIR_OFFER then
        (if pr_state p = DHP_PAIR_DONE then
           let window_open = \<not> dhp_time_after now (pr_t_started p + ucast (pr_window_ms p))
           in if window_open \<and> 9 \<le> length payload \<and> get64 (drop 1 payload) \<noteq> pr_peer_uid p \<and>
                 get64 (drop 1 payload) \<noteq> pr_self_uid p
              then abort_with p DHP_ABORT_THIRD_PARTY else p
         else rx_offer p payload)
      else if payload ! 0 = DHP_PAIR_CONFIRM then rx_confirm p payload
      else if payload ! 0 = DHP_PAIR_ABORT then abort_with p DHP_ABORT_PEER
      else p)"

definition dhp_pair_tick :: "'c dhp_pair_t \<Rightarrow> dhp_time_t \<Rightarrow> 'c dhp_pair_t" where
  "dhp_pair_tick p now =
     (if pr_state p \<noteq> DHP_PAIR_WAITING \<and> pr_state p \<noteq> DHP_PAIR_CONFIRM_WAIT then p
      else if dhp_time_after now (pr_t_started p + ucast (pr_window_ms p)) then abort_with p DHP_ABORT_TIMEOUT
      else p)"

definition dhp_pair_take_events :: "'c dhp_pair_t \<Rightarrow> 'c dhp_pair_t \<times> dhp_pair_events_t" where
  "dhp_pair_take_events p = (p\<lparr>pr_ev := pair_events_zero\<rparr>, pr_ev p)"

definition dhp_pair_build_offer :: "'c dhp_pair_t \<Rightarrow> nat \<Rightarrow> u8 list" where
  "dhp_pair_build_offer p cap =
     (if cap < 1 + 8 + DHP_DH_PUBLIC_BYTES + DHP_NONCE_BYTES then []
      else [DHP_PAIR_OFFER] @ put64 (pr_self_uid p) @ pr_self_public p @ pr_self_nonce p)"

definition dhp_pair_build_confirm :: "'c dhp_pair_t \<Rightarrow> nat \<Rightarrow> u8 list" where
  "dhp_pair_build_confirm p cap =
     (if cap < 1 + 8 + DHP_CONFIRM_BYTES \<or> \<not> pr_have_peer p then []
      else case build_own_confirm p of
             None \<Rightarrow> []
           | Some tag \<Rightarrow> [DHP_PAIR_CONFIRM] @ put64 (pr_self_uid p) @ tag)"

definition dhp_pair_build_abort :: "'c dhp_pair_t \<Rightarrow> nat \<Rightarrow> u8 list" where
  "dhp_pair_build_abort p cap =
     (if cap < 2 then [] else [DHP_PAIR_ABORT, abort_code (pr_abort_reason p)])"

definition dhp_pair_chain_key :: "'c dhp_pair_t \<Rightarrow> u8 list option" where
  "dhp_pair_chain_key p = (if pr_state p = DHP_PAIR_DONE then Some (pr_chain_key p) else None)"

definition hex_digit :: "u8 \<Rightarrow> char" where
  "hex_digit n = ''0123456789ABCDEF'' ! unat (n AND 0xF)"

definition dhp_pair_sas_string :: "'c dhp_pair_t \<Rightarrow> string" where
  "dhp_pair_sas_string p =
     concat (map (\<lambda>i. [hex_digit (drop_bit 4 (pr_sas p ! i)), hex_digit (pr_sas p ! i)]) [0..<DHP_SAS_BYTES])"

section \<open>Invariant\<close>

text \<open>The three derived values are the ones \<open>derive\<close> computes from the exchange.\<close>

definition keys_derived :: "'c dhp_pair_t \<Rightarrow> bool" where
  "keys_derived p \<longleftrightarrow> (\<exists>shared. cr_dh_shared (pr_crypto p) (pr_secret p) (pr_peer_public p) = Some shared \<and>
     pr_chain_key p = cr_kdf (pr_crypto p) DHP_SIPHASH_KEY_BYTES shared (INFO_KEY @ build_transcript p) \<and>
     pr_sas p = cr_kdf (pr_crypto p) DHP_SAS_BYTES shared (INFO_SAS @ build_transcript p) \<and>
     pr_expect_confirm p = cr_kdf (pr_crypto p) DHP_CONFIRM_BYTES shared
       (INFO_CONFIRM @ build_transcript p @ put64 (pr_peer_uid p)))"

definition pair_inv :: "'c dhp_pair_t \<Rightarrow> bool" where
  "pair_inv p \<longleftrightarrow>
     (case pr_state p of
        DHP_PAIR_IDLE \<Rightarrow> pr_chain_key p = replicate DHP_SIPHASH_KEY_BYTES 0
      | DHP_PAIR_WAITING \<Rightarrow> \<not> pr_have_peer p \<and> pr_chain_key p = replicate DHP_SIPHASH_KEY_BYTES 0
      | DHP_PAIR_CONFIRM_WAIT \<Rightarrow> pr_have_peer p \<and> pr_peer_uid p \<noteq> pr_self_uid p \<and> keys_derived p
      | DHP_PAIR_DONE \<Rightarrow> pr_have_peer p \<and> pr_peer_uid p \<noteq> pr_self_uid p \<and> pr_peer_confirmed p \<and> keys_derived p
      | DHP_PAIR_ABORTED \<Rightarrow> pr_chain_key p = replicate DHP_SIPHASH_KEY_BYTES 0 \<and>
          pr_secret p = replicate DHP_DH_SECRET_BYTES 0)"

lemma transcript_frame [simp]:
  "build_transcript (p\<lparr>pr_chain_key := k\<rparr>) = build_transcript p"
  "build_transcript (p\<lparr>pr_sas := x\<rparr>) = build_transcript p"
  "build_transcript (p\<lparr>pr_expect_confirm := y\<rparr>) = build_transcript p"
  "build_transcript (p\<lparr>pr_state := st\<rparr>) = build_transcript p"
  "build_transcript (p\<lparr>pr_ev := e\<rparr>) = build_transcript p"
  "build_transcript (p\<lparr>pr_peer_confirmed := b\<rparr>) = build_transcript p"
  "build_transcript (p\<lparr>pr_offers_seen := n\<rparr>) = build_transcript p"
  by (simp_all add: build_transcript_def Let_def)

lemma keys_derived_frame [simp]:
  "keys_derived (p\<lparr>pr_state := st\<rparr>) = keys_derived p"
  "keys_derived (p\<lparr>pr_ev := e\<rparr>) = keys_derived p"
  "keys_derived (p\<lparr>pr_peer_confirmed := b\<rparr>) = keys_derived p"
  by (simp_all add: keys_derived_def)

lemma derive_Some:
  assumes "derive p = Some d"
  shows "keys_derived d \<and> pr_state d = pr_state p \<and> pr_have_peer d = pr_have_peer p \<and>
    pr_self_uid d = pr_self_uid p \<and> pr_peer_uid d = pr_peer_uid p \<and> pr_ev d = pr_ev p"
  using assms by (auto simp: derive_def keys_derived_def Let_def split: option.splits)

lemma pair_inv_abort: "pair_inv p \<Longrightarrow> pair_inv (abort_with p why)"
  by (auto simp: abort_with_def pair_inv_def)

lemma abort_with_state [simp]: "pr_state (abort_with p why) = DHP_PAIR_ABORTED"
  by (simp add: abort_with_def)

lemma pair_inv_aborted: "pr_state p \<noteq> DHP_PAIR_ABORTED \<Longrightarrow> pair_inv (abort_with p why)"
  by (simp add: abort_with_def pair_inv_def)

lemma pair_inv_begin: "pair_inv (dhp_pair_begin p now w)"
  by (simp add: dhp_pair_begin_def pair_inv_def pair_zero_def Let_def split: prod.split)

lemma pair_inv_ev: "pair_inv p \<Longrightarrow> pair_inv (p\<lparr>pr_ev := e\<rparr>)"
  by (simp add: pair_inv_def split: dhp_pair_state_t.splits)

lemma pair_inv_rx_offer:
  assumes "pair_inv p" "pr_state p = DHP_PAIR_WAITING \<or> pr_state p = DHP_PAIR_CONFIRM_WAIT"
  shows "pair_inv (rx_offer p b)"
proof -
  have na: "pr_state p \<noteq> DHP_PAIR_ABORTED" using assms(2) by auto
  show ?thesis
  proof (cases "pr_have_peer p")
    case True
    with assms na show ?thesis
      by (auto simp: rx_offer_def Let_def intro: pair_inv_ev pair_inv_aborted)
  next
    case False
    then show ?thesis using assms na
      by (auto simp: rx_offer_def Let_def pair_inv_def dest!: derive_Some split: option.splits)
        (auto simp: abort_with_def)
  qed
qed

lemma pair_inv_rx_confirm:
  assumes "pair_inv p" "pr_state p \<noteq> DHP_PAIR_IDLE" "pr_state p \<noteq> DHP_PAIR_ABORTED"
  shows "pair_inv (rx_confirm p b)"
proof -
  have "pair_inv (p\<lparr>pr_peer_confirmed := True\<rparr>)" using assms(1) by (simp add: pair_inv_def split: dhp_pair_state_t.splits)
  moreover have "pair_inv (p\<lparr>pr_peer_confirmed := True, pr_state := DHP_PAIR_DONE, pr_ev := e\<rparr>)"
    if "pr_state p = DHP_PAIR_CONFIRM_WAIT" for e
    using assms(1) that by (simp add: pair_inv_def)
  ultimately show ?thesis using assms by (auto simp: rx_confirm_def Let_def intro: pair_inv_aborted)
qed

lemma pair_inv_rx: "pair_inv p \<Longrightarrow> pair_inv (dhp_pair_rx p payload now)"
  by (cases "pr_state p")
    (auto simp: dhp_pair_rx_def Let_def intro: pair_inv_rx_offer pair_inv_rx_confirm pair_inv_abort)

lemma pair_inv_tick: "pair_inv p \<Longrightarrow> pair_inv (dhp_pair_tick p now)"
  by (simp add: dhp_pair_tick_def pair_inv_abort)

inductive pair_step :: "'c dhp_pair_t \<Rightarrow> 'c dhp_pair_t \<Rightarrow> bool" where
  begin_pairing: "pair_step p (dhp_pair_begin p now w)"
| receive: "pair_step p (dhp_pair_rx p payload now)"
| tick: "pair_step p (dhp_pair_tick p now)"
| take: "pair_step p (fst (dhp_pair_take_events p))"

inductive_cases pair_stepE: "pair_step p q"

interpretation pairing: transition_system "\<lambda>p. \<exists>crypto uid. p = dhp_pair_init crypto uid" pair_step pair_inv
proof
  show "pair_inv s" if "\<exists>crypto uid. s = dhp_pair_init crypto uid" for s :: "'a dhp_pair_t"
    using that by (auto simp: dhp_pair_init_def pair_inv_def pair_zero_def)
  show "pair_inv t" if "pair_inv s" "pair_step s t" for s t :: "'a dhp_pair_t"
    using that(2) by (cases) (simp_all add: that(1) pair_inv_begin pair_inv_rx pair_inv_tick pair_inv_ev dhp_pair_take_events_def)
qed

section \<open>Properties\<close>


text \<open>
  Whoever else joins, everybody refuses. Once a peer has been heard, an offer of any
  third device within the window aborts the exchange, before and after completion, and no
  key is handed out.
\<close>

theorem third_party_aborts:
  assumes "pair_inv p" "pr_state p = DHP_PAIR_CONFIRM_WAIT \<or> pr_state p = DHP_PAIR_DONE"
    and "\<not> dhp_time_after now (pr_t_started p + ucast (pr_window_ms p))"
    and "49 \<le> length payload" "payload ! 0 = DHP_PAIR_OFFER"
    and "get64 (drop 1 payload) \<noteq> pr_self_uid p" "get64 (drop 1 payload) \<noteq> pr_peer_uid p"
  shows "pr_state (dhp_pair_rx p payload now) = DHP_PAIR_ABORTED \<and>
    pr_abort_reason (dhp_pair_rx p payload now) = DHP_ABORT_THIRD_PARTY \<and>
    pe_send_abort (pr_ev (dhp_pair_rx p payload now)) \<and>
    dhp_pair_chain_key (dhp_pair_rx p payload now) = None \<and>
    pr_chain_key (dhp_pair_rx p payload now) = replicate 16 0"
proof -
  have ne: "payload \<noteq> []" using assms(4) by auto
  have "dhp_pair_rx p payload now = abort_with p DHP_ABORT_THIRD_PARTY \<or>
      dhp_pair_rx p payload now = abort_with (p\<lparr>pr_offers_seen := pr_offers_seen p + 1\<rparr>) DHP_ABORT_THIRD_PARTY"
    using assms ne
    by (auto simp: dhp_pair_rx_def rx_offer_def Let_def dhp_consts pair_inv_def)
  then show ?thesis using assms(2) by (auto simp: abort_with_def dhp_pair_chain_key_def DHP_SIPHASH_KEY_BYTES_def)
qed

text \<open>
  Completion needs the peer's confirmation. The only call that completes an exchange is
  the receipt of a CONFIRM of the peer whose tag is the one derived for that peer; a wrong
  tag aborts.
\<close>

theorem completion_needs_confirmation:
  assumes "length (pr_expect_confirm p) = DHP_CONFIRM_BYTES"
    and "pr_state p \<noteq> DHP_PAIR_DONE" "pr_state (dhp_pair_rx p payload now) = DHP_PAIR_DONE"
  shows "payload ! 0 = DHP_PAIR_CONFIRM \<and> get64 (drop 1 payload) = pr_peer_uid p \<and>
    take DHP_CONFIRM_BYTES (drop 9 payload) = pr_expect_confirm p"
proof -
  have st: "pr_state (rx_offer p payload) \<noteq> DHP_PAIR_DONE"
    using assms(2) by (auto simp: rx_offer_def Let_def split: option.splits)
  have c: "payload ! 0 = DHP_PAIR_CONFIRM" "pr_state (rx_confirm p payload) = DHP_PAIR_DONE"
    using assms(2,3) st by (auto simp: dhp_pair_rx_def split: if_splits)
  have "get64 (drop 1 payload) = pr_peer_uid p" "dhp_ct_equal (drop 9 payload) (pr_expect_confirm p) DHP_CONFIRM_BYTES"
    "1 + 8 + DHP_CONFIRM_BYTES \<le> length payload"
    using c(2) assms(2) by (auto simp: rx_confirm_def Let_def split: if_splits)
  with c(1) assms(1) show ?thesis by (simp add: dhp_ct_equal_iff)
qed

text \<open>
  The window closes. A tick at or after the end of the pairing window aborts an exchange
  that is still waiting, and a tick before it changes nothing.
\<close>

theorem pairing_window_closes:
  "pr_state (dhp_pair_tick p now) =
     (if pr_state p \<in> {DHP_PAIR_WAITING, DHP_PAIR_CONFIRM_WAIT} \<and>
         dhp_time_after now (pr_t_started p + ucast (pr_window_ms p))
      then DHP_PAIR_ABORTED else pr_state p) \<and>
   (\<not> dhp_time_after now (pr_t_started p + ucast (pr_window_ms p)) \<longrightarrow> dhp_pair_tick p now = p)"
  by (auto simp: dhp_pair_tick_def)

section \<open>Two boards\<close>

text \<open>A board that has just begun pairing and heard nobody.\<close>

definition pair_ready :: "'c dhp_pair_t \<Rightarrow> bool" where
  "pair_ready p \<longleftrightarrow> pr_state p = DHP_PAIR_WAITING \<and> \<not> pr_have_peer p \<and>
     length (pr_self_public p) = DHP_DH_PUBLIC_BYTES \<and> length (pr_self_nonce p) = DHP_NONCE_BYTES"

lemma get64_at_1: "get64 (drop 1 (x # put64 u @ r)) = u"
  by simp

lemma rx_offer_of:
  assumes "pair_ready a" "pair_ready b" "pr_self_uid a \<noteq> pr_self_uid b"
    and "cr_dh_shared (pr_crypto a) (pr_secret a) (pr_self_public b) = Some sh"
  shows "\<exists>a1. dhp_pair_rx a (dhp_pair_build_offer b 64) now = a1 \<and> pr_state a1 = DHP_PAIR_CONFIRM_WAIT \<and>
    pr_have_peer a1 \<and> pr_peer_uid a1 = pr_self_uid b \<and> pr_self_uid a1 = pr_self_uid a \<and>
    pr_peer_public a1 = pr_self_public b \<and> pr_peer_nonce a1 = pr_self_nonce b \<and>
    pr_self_public a1 = pr_self_public a \<and> pr_self_nonce a1 = pr_self_nonce a \<and>
    pr_secret a1 = pr_secret a \<and> pr_crypto a1 = pr_crypto a \<and> keys_derived a1"
proof -
  let ?o = "dhp_pair_build_offer b 64"
  have o: "?o = DHP_PAIR_OFFER # put64 (pr_self_uid b) @ pr_self_public b @ pr_self_nonce b"
    by (simp add: dhp_pair_build_offer_def dhp_consts)
  have len: "length ?o = 49" using assms(2) by (simp add: o pair_ready_def dhp_consts)
  have parts: "get64 (drop 1 ?o) = pr_self_uid b" "take 32 (drop 9 ?o) = pr_self_public b"
    "take 8 (drop 41 ?o) = pr_self_nonce b"
    using assms(2) unfolding o by (simp_all add: pair_ready_def dhp_consts)
  define q where "q = a\<lparr>pr_peer_uid := pr_self_uid b, pr_peer_public := pr_self_public b,
     pr_peer_nonce := pr_self_nonce b, pr_have_peer := True, pr_offers_seen := 1\<rparr>"
  obtain d where d: "derive q = Some d" using assms(4) by (simp add: derive_def q_def Let_def)
  have keep: "pr_peer_public d = pr_self_public b" "pr_peer_nonce d = pr_self_nonce b" "pr_peer_uid d = pr_self_uid b"
    "pr_self_public d = pr_self_public a" "pr_self_nonce d = pr_self_nonce a" "pr_self_uid d = pr_self_uid a"
    "pr_secret d = pr_secret a" "pr_crypto d = pr_crypto a" "pr_have_peer d"
    using d by (auto simp: derive_def q_def Let_def split: option.splits)
  have "dhp_pair_rx a ?o now = rx_offer a ?o"
    using assms(1) len by (auto simp: dhp_pair_rx_def pair_ready_def o)
  also have "\<dots> = d\<lparr>pr_state := DHP_PAIR_CONFIRM_WAIT, pr_ev := (pr_ev d)\<lparr>pe_send_confirm := True, pe_send_offer := True\<rparr>\<rparr>"
    using assms(1,2,3) len parts d by (simp add: rx_offer_def pair_ready_def dhp_consts q_def [symmetric] Let_def)
  finally show ?thesis using keep derive_Some [OF d] by simp
qed

lemma transcript_symmetric:
  assumes "pr_self_uid a \<noteq> pr_self_uid b" "pr_peer_uid a = pr_self_uid b" "pr_peer_uid b = pr_self_uid a"
    and "pr_peer_public a = pr_self_public b" "pr_peer_public b = pr_self_public a"
    and "pr_peer_nonce a = pr_self_nonce b" "pr_peer_nonce b = pr_self_nonce a"
  shows "build_transcript a = build_transcript b"
proof (cases "pr_self_uid a < pr_self_uid b")
  case True
  then have "\<not> pr_self_uid b < pr_self_uid a" by simp
  with True assms show ?thesis by (simp add: build_transcript_def Let_def)
next
  case False
  with assms(1) have "pr_self_uid b < pr_self_uid a" by simp
  with False assms show ?thesis by (simp add: build_transcript_def Let_def)
qed

text \<open>The confirmation a board receives from a peer that derived the same values.\<close>

lemma rx_confirm_of:
  assumes "pr_state a = DHP_PAIR_CONFIRM_WAIT" "pr_have_peer a" "pr_peer_uid a = pr_self_uid b" "pr_have_peer b"
    and "build_own_confirm b = Some (pr_expect_confirm a)" "length (pr_expect_confirm a) = DHP_CONFIRM_BYTES"
  shows "dhp_pair_chain_key (dhp_pair_rx a (dhp_pair_build_confirm b 64) now) = Some (pr_chain_key a) \<and>
    pr_sas (dhp_pair_rx a (dhp_pair_build_confirm b 64) now) = pr_sas a"
proof -
  have c: "dhp_pair_build_confirm b 64 = DHP_PAIR_CONFIRM # put64 (pr_self_uid b) @ pr_expect_confirm a"
    using assms(4,5) by (simp add: dhp_pair_build_confirm_def dhp_consts)
  have "dhp_ct_equal (drop 9 (dhp_pair_build_confirm b 64)) (pr_expect_confirm a) DHP_CONFIRM_BYTES"
    using assms(6) by (subst dhp_ct_equal_iff) (simp_all add: c)
  then have "dhp_pair_rx a (dhp_pair_build_confirm b 64) now =
      a\<lparr>pr_peer_confirmed := True, pr_state := DHP_PAIR_DONE, pr_ev := (pr_ev a)\<lparr>pe_completed := True\<rparr>\<rparr>"
    using assms by (simp add: dhp_pair_rx_def rx_confirm_def c dhp_consts Let_def)
  then show ?thesis by (simp add: dhp_pair_chain_key_def)
qed

text \<open>
  Two boards that pair end with the same key. If the backend's key agreement gives both
  sides the same shared secret and its key derivation is the same function of the requested
  length on both, then after the two offers and the two confirmations have crossed, both
  boards have completed, hold the same chain key and show the same authentication string.
\<close>

theorem pairing_agrees:
  assumes ready: "pair_ready a" "pair_ready b" "pr_self_uid a \<noteq> pr_self_uid b"
    and kdf_same: "cr_kdf (pr_crypto a) = cr_kdf (pr_crypto b)"
    and kdf_length: "\<And>n k i. length (cr_kdf (pr_crypto a) n k i) = n"
    and dh_a: "cr_dh_shared (pr_crypto a) (pr_secret a) (pr_self_public b) = Some shared"
    and dh_b: "cr_dh_shared (pr_crypto b) (pr_secret b) (pr_self_public a) = Some shared"
    and a1: "a1 = dhp_pair_rx a (dhp_pair_build_offer b 64) t1"
    and b1: "b1 = dhp_pair_rx b (dhp_pair_build_offer a 64) t2"
    and a2: "a2 = dhp_pair_rx a1 (dhp_pair_build_confirm b1 64) t3"
    and b2: "b2 = dhp_pair_rx b1 (dhp_pair_build_confirm a1 64) t4"
  shows "\<exists>key. dhp_pair_chain_key a2 = Some key \<and> dhp_pair_chain_key b2 = Some key \<and>
    length key = DHP_SIPHASH_KEY_BYTES \<and> dhp_pair_sas_string a2 = dhp_pair_sas_string b2"
proof -
  note A = rx_offer_of [OF ready dh_a, of t1, folded a1, simplified]
    and B = rx_offer_of [OF ready(2,1) ready(3) [symmetric] dh_b, of t2, folded b1, simplified]
  have tr: "build_transcript a1 = build_transcript b1"
    using A B ready(3) by (intro transcript_symmetric) simp_all
  have "pr_chain_key a1 = pr_chain_key b1" "pr_sas a1 = pr_sas b1"
    and ca: "build_own_confirm b1 = Some (pr_expect_confirm a1)"
    and cb: "build_own_confirm a1 = Some (pr_expect_confirm b1)"
    and len: "length (pr_expect_confirm a1) = DHP_CONFIRM_BYTES" "length (pr_expect_confirm b1) = DHP_CONFIRM_BYTES"
      "length (pr_chain_key a1) = DHP_SIPHASH_KEY_BYTES"
    using A B dh_a dh_b kdf_same kdf_length tr by (auto simp: keys_derived_def build_own_confirm_def)
  moreover have "dhp_pair_chain_key a2 = Some (pr_chain_key a1) \<and> pr_sas a2 = pr_sas a1"
    unfolding a2 using A B ca len by (intro rx_confirm_of) simp_all
  moreover have "dhp_pair_chain_key b2 = Some (pr_chain_key b1) \<and> pr_sas b2 = pr_sas b1"
    unfolding b2 using A B cb len by (intro rx_confirm_of) simp_all
  ultimately show ?thesis by (simp add: dhp_pair_sas_string_def)
qed

section \<open>Witnesses\<close>

text \<open>
  A concrete backend for the witnesses: secrets that are their own public keys, bytewise
  exclusive or as key agreement, and a derivation that repeats a checksum byte.
\<close>

definition demo_crypto :: "u8 \<Rightarrow> nat dhp_crypto_t" where
  "demo_crypto s = \<lparr>cr_random = (\<lambda>c n. (replicate n (of_nat c), Suc c)),
     cr_dh_keypair = (\<lambda>c. ((replicate 32 s, replicate 32 s), Suc c)),
     cr_dh_shared = (\<lambda>x y. if x = y then None else Some (map2 (XOR) x y)),
     cr_kdf = (\<lambda>n k i. replicate n (sum_list k + sum_list i)), cr_ctx = 0\<rparr>"

definition demo_pair :: "u8 \<Rightarrow> dhp_uid_t \<Rightarrow> nat dhp_pair_t" where
  "demo_pair s uid = dhp_pair_begin (dhp_pair_init (demo_crypto s) uid) 0 30000"

lemma demo_pair_simps:
  "pair_ready (demo_pair s uid)" "pr_self_uid (demo_pair s uid) = uid"
  "cr_kdf (pr_crypto (demo_pair s uid)) = (\<lambda>n k i. replicate n (sum_list k + sum_list i))"
  "cr_dh_shared (pr_crypto (demo_pair s uid)) = (\<lambda>x y. if x = y then None else Some (map2 (XOR) x y))"
  "pr_secret (demo_pair s uid) = replicate 32 s" "pr_self_public (demo_pair s uid) = replicate 32 s"
  "pr_t_started (demo_pair s uid) = 0" "pr_window_ms (demo_pair s uid) = 30000"
  by (simp_all add: demo_pair_def dhp_pair_begin_def dhp_pair_init_def demo_crypto_def pair_zero_def pair_ready_def
      dhp_consts)

theorem pairing_agrees_witness:
  "\<exists>key. dhp_pair_chain_key (dhp_pair_rx (dhp_pair_rx (demo_pair 3 7) (dhp_pair_build_offer (demo_pair 5 9) 64) 1)
       (dhp_pair_build_confirm (dhp_pair_rx (demo_pair 5 9) (dhp_pair_build_offer (demo_pair 3 7) 64) 1) 64) 2) = Some key \<and>
     length key = 16"
proof -
  have ne: "replicate 32 (3 :: u8) \<noteq> replicate 32 5" by (simp add: replicate_eq_replicate)
  have sym: "map2 (XOR) (replicate 32 (5 :: u8)) (replicate 32 3) = map2 (XOR) (replicate 32 3) (replicate 32 5)"
    by (simp add: zip_replicate xor.commute)
  have dh: "cr_dh_shared (pr_crypto (demo_pair 3 7)) (pr_secret (demo_pair 3 7)) (pr_self_public (demo_pair 5 9)) =
      Some (map2 (XOR) (replicate 32 3) (replicate 32 5))"
    "cr_dh_shared (pr_crypto (demo_pair 5 9)) (pr_secret (demo_pair 5 9)) (pr_self_public (demo_pair 3 7)) =
      Some (map2 (XOR) (replicate 32 3) (replicate 32 5))"
    unfolding demo_pair_simps using ne sym by simp_all
  have kdf: "cr_kdf (pr_crypto (demo_pair 3 7)) = cr_kdf (pr_crypto (demo_pair 5 9))"
    "length (cr_kdf (pr_crypto (demo_pair 3 7)) n k i) = n" for n k i
    by (simp_all add: demo_pair_simps)
  show ?thesis
    using pairing_agrees [OF demo_pair_simps(1) demo_pair_simps(1) _ kdf dh refl refl refl refl, of 1 1 2 2]
    by (auto simp: demo_pair_simps(2) DHP_SIPHASH_KEY_BYTES_def)
qed

definition same_window :: "'c dhp_pair_t \<Rightarrow> 'c dhp_pair_t \<Rightarrow> bool" where
  "same_window p q \<longleftrightarrow> pr_t_started q = pr_t_started p \<and> pr_window_ms q = pr_window_ms p"

lemma abort_window: "same_window p q \<Longrightarrow> same_window p (abort_with q why)"
  by (simp add: same_window_def abort_with_def)

lemma derive_window: "derive q = Some d \<Longrightarrow> same_window p q \<Longrightarrow> same_window p d"
  by (auto simp: same_window_def derive_def Let_def split: option.splits)

lemma rx_offer_window: "same_window p (rx_offer p b)"
proof -
  have "same_window p q" if "q = p\<lparr>pr_peer_uid := u, pr_peer_public := k, pr_peer_nonce := n, pr_have_peer := h, pr_offers_seen := o'\<rparr>"
    for q u k n h o' using that by (simp add: same_window_def)
  then show ?thesis
    by (auto simp: rx_offer_def Let_def intro!: abort_window split: option.split)
      (auto simp: same_window_def dest!: derive_window [unfolded same_window_def])
qed

lemma rx_keeps_window: "same_window p (dhp_pair_rx p b now)"
proof -
  have "same_window p (rx_confirm p b)" by (auto simp: rx_confirm_def Let_def intro!: abort_window) (simp_all add: same_window_def)
  moreover have "same_window p p" by (simp add: same_window_def)
  ultimately show ?thesis using rx_offer_window [of p b] by (simp add: dhp_pair_rx_def abort_window Let_def)
qed

text \<open>The board of the first witness after the offer of the second has arrived.\<close>

definition demo_offered :: "nat dhp_pair_t" where
  "demo_offered = dhp_pair_rx (demo_pair 3 7) (dhp_pair_build_offer (demo_pair 5 9) 64) 1"

lemma demo_offered_facts:
  "pr_state demo_offered = DHP_PAIR_CONFIRM_WAIT" "pr_have_peer demo_offered" "pr_peer_uid demo_offered = 9"
  "pr_self_uid demo_offered = 7" "keys_derived demo_offered" "pr_crypto demo_offered = pr_crypto (demo_pair 3 7)"
proof -
  have dh: "cr_dh_shared (pr_crypto (demo_pair 3 7)) (pr_secret (demo_pair 3 7)) (pr_self_public (demo_pair 5 9)) =
      Some (map2 (XOR) (replicate 32 3) (replicate 32 5))"
    unfolding demo_pair_simps by (simp add: replicate_eq_replicate)
  note A = rx_offer_of [OF demo_pair_simps(1) demo_pair_simps(1) _ dh, of 1, folded demo_offered_def]
  show "pr_state demo_offered = DHP_PAIR_CONFIRM_WAIT" "pr_have_peer demo_offered" "pr_peer_uid demo_offered = 9"
    "pr_self_uid demo_offered = 7" "keys_derived demo_offered" "pr_crypto demo_offered = pr_crypto (demo_pair 3 7)"
    using A by (auto simp: demo_pair_simps(2))
qed

lemma demo_offered_reachable: "pair_step\<^sup>*\<^sup>* (dhp_pair_init (demo_crypto 3) 7) demo_offered"
proof -
  have "pair_step (dhp_pair_init (demo_crypto 3) 7) (demo_pair 3 7)"
    unfolding demo_pair_def by (rule pair_step.begin_pairing)
  moreover have "pair_step (demo_pair 3 7) demo_offered"
    unfolding demo_offered_def by (rule pair_step.receive)
  ultimately show ?thesis by auto
qed

text \<open>A third device's offer, and the confirmation the board waits for.\<close>

definition demo_third :: "u8 list" where
  "demo_third = dhp_pair_build_offer (demo_pair 6 11) 64"

definition demo_confirm :: "u8 list" where
  "demo_confirm = [DHP_PAIR_CONFIRM] @ put64 9 @ pr_expect_confirm demo_offered"

lemma demo_expect_length: "length (pr_expect_confirm demo_offered) = DHP_CONFIRM_BYTES"
  using demo_offered_facts(5,6) by (auto simp: keys_derived_def demo_pair_simps)

lemma demo_done:
  "pr_state (dhp_pair_rx demo_offered demo_confirm 2) = DHP_PAIR_DONE"
proof -
  have "dhp_ct_equal (drop 9 demo_confirm) (pr_expect_confirm demo_offered) DHP_CONFIRM_BYTES"
    using demo_expect_length by (subst dhp_ct_equal_iff) (simp_all add: demo_confirm_def)
  then show ?thesis
    using demo_offered_facts demo_expect_length
    by (simp add: dhp_pair_rx_def rx_confirm_def demo_confirm_def dhp_consts Let_def)
qed


theorem third_party_aborts_witness:
  "pr_state (dhp_pair_rx demo_offered demo_third 29999) = DHP_PAIR_ABORTED"
proof -
  have inv: "pair_inv demo_offered" using demo_offered_facts by (simp add: pair_inv_def)
  have o: "demo_third = DHP_PAIR_OFFER # put64 11 @ replicate 32 6 @ pr_self_nonce (demo_pair 6 11)"
    by (simp add: demo_third_def dhp_pair_build_offer_def dhp_consts demo_pair_simps)
  have len: "49 \<le> length demo_third"
    using demo_pair_simps(1) [of 6 11] by (simp add: o pair_ready_def dhp_consts)
  have "pr_t_started demo_offered = 0" "pr_window_ms demo_offered = 30000"
    using rx_keeps_window [of "demo_pair 3 7" _ 1] by (simp_all add: demo_offered_def same_window_def demo_pair_simps)
  then show ?thesis
    using third_party_aborts [OF inv, of 29999 demo_third] demo_offered_facts len
    by (simp add: o dhp_time_after_def dhp_time_diff_def)
qed

theorem completion_needs_confirmation_witness:
  "take DHP_CONFIRM_BYTES (drop 9 demo_confirm) = pr_expect_confirm demo_offered"
  using completion_needs_confirmation [OF demo_expect_length _ demo_done] demo_offered_facts(1) by simp

theorem pairing_window_closes_witness:
  "pr_state (dhp_pair_tick (demo_pair 3 7) 30000) = DHP_PAIR_ABORTED \<and> dhp_pair_tick (demo_pair 3 7) 29999 = demo_pair 3 7"
  using pairing_window_closes [of "demo_pair 3 7" 30000] pairing_window_closes [of "demo_pair 3 7" 29999]
    demo_pair_simps(1) [of 3 7]
  by (simp add: demo_pair_simps pair_ready_def dhp_time_after_def dhp_time_diff_def)

end
