(* ===== verification/Dhp_Data.thy ===== *)
theory Dhp_Data
  imports Dhp_Link
begin

text \<open>
  Bulk transfer, \<open>core/src/data.c\<close>: up to four streams in each direction, an offer phase and a
  go-back-N window over \<open>DHP_MSG_DATA\<close> frames, with an end-to-end checksum.

  The link the source reaches through a pointer is an explicit argument and result. What
  leaves the component is a trace of events in program order: the bytes handed to the link's
  transmit callback and the four application hooks. A hook that is not installed produces no
  event; what the application does in a hook is a later call. A table slot is its index.
\<close>

definition DHP_DATA_MAX_STREAMS :: nat where [dhp_consts]: "DHP_DATA_MAX_STREAMS = 4"

definition DHP_DATA_CHUNK_BYTES :: nat where
  [dhp_consts]: "DHP_DATA_CHUNK_BYTES = DHP_MAX_PAYLOAD - 4"

definition DHP_DATA_NAME_MAX :: nat where [dhp_consts]: "DHP_DATA_NAME_MAX = 48"

definition DHP_DATA_OK :: u8 where [dhp_consts]: "DHP_DATA_OK = 0"

definition DHP_DATA_REFUSED :: u8 where [dhp_consts]: "DHP_DATA_REFUSED = 1"

definition DHP_DATA_TIMEOUT :: u8 where [dhp_consts]: "DHP_DATA_TIMEOUT = 2"

definition DHP_DATA_CORRUPT :: u8 where [dhp_consts]: "DHP_DATA_CORRUPT = 3"

definition DHP_DATA_TOO_BIG :: u8 where [dhp_consts]: "DHP_DATA_TOO_BIG = 4"

definition DHP_DATA_CANCELLED :: u8 where [dhp_consts]: "DHP_DATA_CANCELLED = 5"

definition DHP_DATA_NO_STREAM :: u8 where [dhp_consts]: "DHP_DATA_NO_STREAM = 6"

definition OP_OFFER :: u8 where [dhp_consts]: "OP_OFFER = 0"

definition OP_ACCEPT :: u8 where [dhp_consts]: "OP_ACCEPT = 1"

definition OP_REJECT :: u8 where [dhp_consts]: "OP_REJECT = 2"

definition OP_CHUNK :: u8 where [dhp_consts]: "OP_CHUNK = 3"

definition OP_ACK :: u8 where [dhp_consts]: "OP_ACK = 4"

definition OP_DONE :: u8 where [dhp_consts]: "OP_DONE = 5"

definition OP_ABORT :: u8 where [dhp_consts]: "OP_ABORT = 6"

definition OFFER_FIXED :: nat where [dhp_consts]: "OFFER_FIXED = 11"

definition NO_REWIND :: u16 where [dhp_consts]: "NO_REWIND = 0xFFFF"

datatype dhp_data_state_t =
    DHP_ST_FREE
  | DHP_ST_OFFERING
  | DHP_ST_SENDING
  | DHP_ST_DRAINING
  | DHP_ST_OFFERED
  | DHP_ST_RECEIVING

record dhp_data_hooks_t =
  dh_on_offer :: bool
  dh_on_chunk :: bool
  dh_on_received :: bool
  dh_on_sent :: bool

record dhp_data_stream_t =
  ds_state :: dhp_data_state_t
  ds_id :: u8
  ds_outbound :: bool
  ds_peer :: dhp_addr_t
  ds_kind :: u8
  ds_name :: "u8 list"
  ds_total :: u32
  ds_crc :: u32
  ds_running :: u32
  ds_next_seq :: u16
  ds_acked :: u16
  ds_rewound_to :: u16
  ds_window :: u8
  ds_src :: "u8 list"
  ds_last_rx :: dhp_time_t
  ds_last_tx :: dhp_time_t
  ds_retries :: u8

record dhp_data_t =
  da_hooks :: dhp_data_hooks_t
  da_s :: "dhp_data_stream_t list"
  da_next_id :: u8
  da_window :: u8
  da_ack_timeout_ms :: u16
  da_offer_timeout_ms :: u16
  da_offer_retries :: u8
  da_idle_timeout_ms :: u16
  da_max_retries :: u8
  da_max_inbound :: u32
  da_n_sent :: u32
  da_n_received :: u32
  da_n_retransmits :: u32
  da_n_refused :: u32

datatype data_event =
    EvTx link_tx
  | EvOffer nat dhp_addr_t u8 u32 "u8 list"
  | EvChunk nat u32 "u8 list"
  | EvReceived nat u8
  | EvSent nat u8

definition stream_zero :: dhp_data_stream_t where
  "stream_zero = \<lparr>ds_state = DHP_ST_FREE, ds_id = 0, ds_outbound = False, ds_peer = 0, ds_kind = 0, ds_name = [],
     ds_total = 0, ds_crc = 0, ds_running = 0, ds_next_seq = 0, ds_acked = 0, ds_rewound_to = 0, ds_window = 0,
     ds_src = [], ds_last_rx = 0, ds_last_tx = 0, ds_retries = 0\<rparr>"

definition stream_at :: "dhp_data_t \<Rightarrow> nat \<Rightarrow> dhp_data_stream_t" where
  "stream_at d i = da_s d ! i"

definition set_stream :: "nat \<Rightarrow> dhp_data_stream_t \<Rightarrow> dhp_data_t \<Rightarrow> dhp_data_t" where
  "set_stream i s d = d\<lparr>da_s := (da_s d)[i := s]\<rparr>"

section \<open>Checksum\<close>

definition ADLER_INIT :: u32 where [dhp_consts]: "ADLER_INIT = 1"

definition ADLER_MOD :: u32 where [dhp_consts]: "ADLER_MOD = 65521"

definition adler_step :: "u8 \<Rightarrow> u32 \<times> u32 \<Rightarrow> u32 \<times> u32" where
  "adler_step x ab =
     (let a = fst ab + ucast x;
          a = (if ADLER_MOD \<le> a then a - ADLER_MOD else a);
          b = snd ab + a;
          b = (if ADLER_MOD \<le> b then b - ADLER_MOD else b)
      in (a, b))"

definition adler32_update :: "u32 \<Rightarrow> u8 list \<Rightarrow> u32" where
  "adler32_update state data =
     (let (a, b) = fold adler_step data (state AND 0xFFFF, drop_bit 16 state AND 0xFFFF)
      in push_bit 16 b OR a)"

definition content_crc :: "u8 list \<Rightarrow> u32" where
  "content_crc data = adler32_update ADLER_INIT data"

section \<open>Streams\<close>

definition slot_base :: "bool \<Rightarrow> nat" where
  "slot_base outbound = (if outbound then 0 else DHP_DATA_MAX_STREAMS)"

definition slot_free :: "dhp_data_t \<Rightarrow> bool \<Rightarrow> nat option" where
  "slot_free d outbound =
     map_option (\<lambda>i. slot_base outbound + i)
       (find_idx (\<lambda>s. ds_state s = DHP_ST_FREE) (take DHP_DATA_MAX_STREAMS (drop (slot_base outbound) (da_s d))))"

definition slot_find :: "dhp_data_t \<Rightarrow> dhp_addr_t \<Rightarrow> u8 \<Rightarrow> bool \<Rightarrow> nat option" where
  "slot_find d peer sid outbound =
     map_option (\<lambda>i. slot_base outbound + i)
       (find_idx (\<lambda>s. ds_state s \<noteq> DHP_ST_FREE \<and> ds_id s = sid \<and> ds_peer s = peer)
          (take DHP_DATA_MAX_STREAMS (drop (slot_base outbound) (da_s d))))"

definition by_handle :: "dhp_data_t \<Rightarrow> nat \<Rightarrow> nat option" where
  "by_handle d h =
     (if DHP_DATA_MAX_STREAMS * 2 \<le> h \<or> ds_state (stream_at d h) = DHP_ST_FREE then None else Some h)"

definition chunks_for :: "u32 \<Rightarrow> u16" where
  "chunks_for tot = ucast ((tot + 60 - 1) div 60)"

definition send_op ::
  "dhp_link_t \<Rightarrow> dhp_data_stream_t \<Rightarrow> u8 \<Rightarrow> u8 list \<Rightarrow> dhp_time_t \<Rightarrow>
     dhp_link_t \<times> dhp_data_stream_t \<times> data_event list" where
  "send_op l s oper extra now =
     (let buf = oper # ds_id s # extra;
          (l1, tx, r) = dhp_link_send l (msg_code DHP_MSG_DATA) (ds_peer s) (Some buf) (of_nat (length buf)) now
      in (l1, s\<lparr>ds_last_tx := now\<rparr>, map EvTx tx))"

definition data_finish :: "dhp_data_t \<Rightarrow> nat \<Rightarrow> u8 \<Rightarrow> dhp_data_t \<times> data_event list" where
  "data_finish d0 i result =
     (let outbound = ds_outbound (stream_at d0 i);
          d = set_stream i stream_zero d0
      in if outbound then
           (if result = DHP_DATA_OK then d\<lparr>da_n_sent := da_n_sent d + 1\<rparr> else d,
            if dh_on_sent (da_hooks d) then [EvSent i result] else [])
         else
           (if result = DHP_DATA_OK then d\<lparr>da_n_received := da_n_received d + 1\<rparr> else d,
            if dh_on_received (da_hooks d) then [EvReceived i result] else []))"

definition dhp_data_init :: "dhp_data_hooks_t option \<Rightarrow> dhp_data_t" where
  "dhp_data_init hooks =
     \<lparr>da_hooks = (case hooks of Some h \<Rightarrow> h
        | None \<Rightarrow> \<lparr>dh_on_offer = False, dh_on_chunk = False, dh_on_received = False, dh_on_sent = False\<rparr>),
      da_s = replicate (DHP_DATA_MAX_STREAMS * 2) stream_zero, da_next_id = 1, da_window = 8,
      da_ack_timeout_ms = 250, da_offer_timeout_ms = 1000, da_offer_retries = 8, da_idle_timeout_ms = 15000,
      da_max_retries = 6, da_max_inbound = 8 * 1024 * 1024,
      da_n_sent = 0, da_n_received = 0, da_n_retransmits = 0, da_n_refused = 0\<rparr>"

definition dhp_data_result_name :: "u8 \<Rightarrow> string" where
  "dhp_data_result_name r =
     (if r = DHP_DATA_OK then ''ok'' else if r = DHP_DATA_REFUSED then ''refused''
      else if r = DHP_DATA_TIMEOUT then ''timed out'' else if r = DHP_DATA_CORRUPT then ''corrupt''
      else if r = DHP_DATA_TOO_BIG then ''too big'' else if r = DHP_DATA_CANCELLED then ''cancelled''
      else if r = DHP_DATA_NO_STREAM then ''no free stream'' else ''?'')"

section \<open>Sending\<close>

definition offer_extra :: "dhp_data_stream_t \<Rightarrow> u8 list" where
  "offer_extra s = [ds_kind s] @ put32 (ds_total s) @ put32 (ds_crc s) @ [of_nat (length (ds_name s))] @ ds_name s"

text \<open>A C string argument is the list of its bytes before the terminating zero.\<close>

definition dhp_data_send ::
  "dhp_data_t \<Rightarrow> dhp_link_t \<Rightarrow> dhp_addr_t \<Rightarrow> u8 \<Rightarrow> u8 list option \<Rightarrow> u8 list \<Rightarrow> dhp_time_t \<Rightarrow>
     dhp_data_t \<times> dhp_link_t \<times> data_event list \<times> (u8 + nat)" where
  "dhp_data_send d l to kind name data now =
     (if data = [] then (d, l, [], Inl DHP_DATA_CORRUPT)
      else case slot_free d True of
             None \<Rightarrow> (d, l, [], Inl DHP_DATA_NO_STREAM)
           | Some i \<Rightarrow>
               let s = stream_zero\<lparr>ds_state := DHP_ST_OFFERING, ds_outbound := True, ds_id := da_next_id d,
                         ds_peer := to, ds_kind := kind, ds_total := of_nat (length data), ds_src := data,
                         ds_crc := content_crc data, ds_window := da_window d, ds_rewound_to := NO_REWIND,
                         ds_last_rx := now, ds_retries := 0,
                         ds_name := (case name of None \<Rightarrow> [] | Some n \<Rightarrow> take DHP_DATA_NAME_MAX n)\<rparr>;
                   nid = da_next_id d + 1;
                   d1 = d\<lparr>da_next_id := (if nid = 0 then 1 else nid)\<rparr>;
                   (l1, s1, evs) = send_op l s OP_OFFER (offer_extra s) now
               in (set_stream i s1 d1, l1, evs, Inr i))"

text \<open>
  The loop of \<open>pump_sender\<close>. The number of chunks is a 16-bit value and every round adds one
  to \<open>next_seq\<close>, so the rounds left are bounded by their difference.
\<close>

definition chunk_extra :: "dhp_data_stream_t \<Rightarrow> u8 list" where
  "chunk_extra s =
     (let off = unat (ds_next_seq s) * DHP_DATA_CHUNK_BYTES;
          n = unat (ds_total s - of_nat off);
          n = (if DHP_DATA_CHUNK_BYTES < n then DHP_DATA_CHUNK_BYTES else n)
      in put16 (ds_next_seq s) @ take n (drop off (ds_src s)))"

lemma send_op_next_seq:
  "send_op l s oper extra now = (l1, s1, evs) \<Longrightarrow> s1 = s\<lparr>ds_last_tx := now\<rparr>"
  by (auto simp: send_op_def Let_def split: prod.splits)

function pump_loop ::
  "dhp_link_t \<Rightarrow> dhp_data_stream_t \<Rightarrow> u16 \<Rightarrow> dhp_time_t \<Rightarrow> dhp_link_t \<times> dhp_data_stream_t \<times> data_event list" where
  "pump_loop l s total_chunks now =
     (if ds_next_seq s < total_chunks \<and> unat (ds_next_seq s - ds_acked s) < unat (ds_window s) then
        let (l1, s1, evs) = send_op l s OP_CHUNK (chunk_extra s) now;
            (l2, s2, evs') = pump_loop l1 (s1\<lparr>ds_next_seq := ds_next_seq s1 + 1\<rparr>) total_chunks now
        in (l2, s2, evs @ evs')
      else (l, s, []))"
  by pat_completeness auto
termination
proof (relation "measure (\<lambda>(l, s, tot, now). unat tot - unat (ds_next_seq s))", goal_cases)
  case (2 l s tot now r l1 y s1 evs)
  then have s1: "ds_next_seq s1 = ds_next_seq s" using send_op_next_seq [of l s OP_CHUNK "chunk_extra s" now l1 s1 evs] by simp
  have lt: "ds_next_seq s < tot" using 2(1) by simp
  then have "unat (ds_next_seq s + 1) = unat (ds_next_seq s) + 1" by unat_arith
  moreover have "unat (ds_next_seq s) < unat tot" using lt by (simp add: word_less_nat_alt)
  ultimately show ?case using s1 by simp
qed simp

declare pump_loop.simps [simp del]

definition pump_sender ::
  "dhp_link_t \<Rightarrow> dhp_data_stream_t \<Rightarrow> dhp_time_t \<Rightarrow> dhp_link_t \<times> dhp_data_stream_t \<times> data_event list" where
  "pump_sender l s now =
     (let total_chunks = chunks_for (ds_total s);
          (l1, s1, evs) = pump_loop l s total_chunks now
      in (l1, if total_chunks \<le> ds_next_seq s1 \<and> ds_state s1 = DHP_ST_SENDING
              then s1\<lparr>ds_state := DHP_ST_DRAINING\<rparr> else s1, evs))"

section \<open>Application calls\<close>

definition dhp_data_accept ::
  "dhp_data_t \<Rightarrow> dhp_link_t \<Rightarrow> nat \<Rightarrow> dhp_time_t \<Rightarrow> dhp_data_t \<times> dhp_link_t \<times> data_event list" where
  "dhp_data_accept d l stream now =
     (case by_handle d stream of
        None \<Rightarrow> (d, l, [])
      | Some i \<Rightarrow>
          if ds_state (stream_at d i) \<noteq> DHP_ST_OFFERED then (d, l, [])
          else
            let (l1, s1, evs) =
                  send_op l ((stream_at d i)\<lparr>ds_state := DHP_ST_RECEIVING, ds_last_rx := now\<rparr>) OP_ACCEPT [da_window d] now
            in (set_stream i s1 d, l1, evs))"

definition dhp_data_reject ::
  "dhp_data_t \<Rightarrow> dhp_link_t \<Rightarrow> nat \<Rightarrow> dhp_time_t \<Rightarrow> dhp_data_t \<times> dhp_link_t \<times> data_event list" where
  "dhp_data_reject d l stream now =
     (case by_handle d stream of
        None \<Rightarrow> (d, l, [])
      | Some i \<Rightarrow>
          if ds_state (stream_at d i) \<noteq> DHP_ST_OFFERED then (d, l, [])
          else
            let (l1, s1, evs) = send_op l (stream_at d i) OP_REJECT [DHP_DATA_REFUSED] now
            in (set_stream i stream_zero (d\<lparr>da_n_refused := da_n_refused d + 1\<rparr>), l1, evs))"

definition dhp_data_cancel ::
  "dhp_data_t \<Rightarrow> dhp_link_t \<Rightarrow> nat \<Rightarrow> dhp_time_t \<Rightarrow> dhp_data_t \<times> dhp_link_t \<times> data_event list" where
  "dhp_data_cancel d l stream now =
     (case by_handle d stream of
        None \<Rightarrow> (d, l, [])
      | Some i \<Rightarrow>
          let (l1, s1, evs) = send_op l (stream_at d i) OP_ABORT [DHP_DATA_CANCELLED] now;
              (d1, evs') = data_finish (set_stream i s1 d) i DHP_DATA_CANCELLED
          in (d1, l1, evs @ evs'))"

definition send_ack ::
  "dhp_link_t \<Rightarrow> dhp_data_stream_t \<Rightarrow> dhp_time_t \<Rightarrow> dhp_link_t \<times> dhp_data_stream_t \<times> data_event list" where
  "send_ack l s now = send_op l s OP_ACK (put16 (ds_next_seq s) @ [ds_window s]) now"

section \<open>Receive path\<close>

text \<open>
  The payload handed to the handlers is the part after the operation and the stream number.
  \<open>p ! 9\<close> is read before it is known to be there; every value it could have is then ignored,
  because \<open>10 + nl\<close> exceeds a length of nine.
\<close>

definition data_rx_offer ::
  "dhp_data_t \<Rightarrow> dhp_link_t \<Rightarrow> dhp_addr_t \<Rightarrow> u8 \<Rightarrow> u8 list \<Rightarrow> dhp_time_t \<Rightarrow> dhp_data_t \<times> dhp_link_t \<times> data_event list" where
  "data_rx_offer d l from sid p now =
     (if length p < OFFER_FIXED - 2 then (d, l, [])
      else
        let kind = p ! 0; tot = get32 (drop 1 p); crc = get32 (drop 5 p);
            nl = unat (p ! 9);
            nl = (if DHP_DATA_NAME_MAX < nl \<or> length p < 10 + nl then 0 else nl)
        in case slot_find d from sid False of
             Some i \<Rightarrow>
               if ds_state (stream_at d i) = DHP_ST_RECEIVING then
                 let (l1, s1, evs) = send_ack l (stream_at d i) now in (set_stream i s1 d, l1, evs)
               else (d, l, [])
           | None \<Rightarrow>
               (case slot_free d False of
                  None \<Rightarrow>
                    let (l1, tmp, evs) =
                          send_op l (stream_zero\<lparr>ds_id := sid, ds_peer := from\<rparr>) OP_REJECT [DHP_DATA_NO_STREAM] now
                    in (d, l1, evs)
                | Some i \<Rightarrow>
                    let s = stream_zero\<lparr>ds_state := DHP_ST_OFFERED, ds_outbound := False, ds_id := sid, ds_peer := from,
                              ds_kind := kind, ds_total := tot, ds_crc := crc, ds_window := da_window d,
                              ds_running := ADLER_INIT, ds_last_rx := now, ds_name := take nl (drop 10 p)\<rparr>
                    in if tot = 0 \<or> da_max_inbound d < tot then
                         let (l1, s1, evs) = send_op l s OP_REJECT [DHP_DATA_TOO_BIG] now
                         in (set_stream i stream_zero d, l1, evs)
                       else (set_stream i s d, l,
                             if dh_on_offer (da_hooks d)
                             then [EvOffer i from kind tot (takeWhile (\<lambda>c. c \<noteq> 0) (ds_name s))] else [])))"

definition rx_chunk ::
  "dhp_data_t \<Rightarrow> dhp_link_t \<Rightarrow> nat \<Rightarrow> u8 list \<Rightarrow> dhp_time_t \<Rightarrow> dhp_data_t \<times> dhp_link_t \<times> data_event list" where
  "rx_chunk d l i p now =
     (if length p < 2 \<or> ds_state (stream_at d i) \<noteq> DHP_ST_RECEIVING then (d, l, [])
      else
        let seq = get16 p; dat = drop 2 p;
            s = (stream_at d i)\<lparr>ds_last_rx := now\<rparr>
        in if seq \<noteq> ds_next_seq s then
             (if dhp_time_after now (ds_last_tx s + 20) then
                let (l1, s1, evs) = send_ack l s now in (set_stream i s1 d, l1, evs)
              else (set_stream i s d, l, []))
           else
             let off = ucast seq * 60 :: u32
             in if ds_total s < off + of_nat (length dat) then
                  let (l1, s1, evs) = send_op l s OP_ABORT [DHP_DATA_CORRUPT] now;
                      (d1, evs') = data_finish (set_stream i s1 d) i DHP_DATA_CORRUPT
                  in (d1, l1, evs @ evs')
                else
                  let evc = (if dh_on_chunk (da_hooks d) then [EvChunk i off dat] else []);
                      s = s\<lparr>ds_running := adler32_update (ds_running s) dat, ds_next_seq := ds_next_seq s + 1,
                            ds_acked := ds_next_seq s + 1\<rparr>
                  in if chunks_for (ds_total s) \<le> ds_next_seq s then
                       let verdict = (if ds_running s = ds_crc s then DHP_DATA_OK else DHP_DATA_CORRUPT);
                           (l1, s1, evs) = send_op l s OP_DONE [verdict] now;
                           (d1, evs') = data_finish (set_stream i s1 d) i verdict
                       in (d1, l1, evc @ evs @ evs')
                     else if unat (ds_next_seq s) mod (if unat (ds_window s) div 2 \<noteq> 0 then unat (ds_window s) div 2 else 1) = 0 then
                       let (l1, s1, evs) = send_ack l s now in (set_stream i s1 d, l1, evc @ evs)
                     else (set_stream i s d, l, evc))"

text \<open>The \<open>OP_ACCEPT\<close> and \<open>OP_ACK\<close> branches of \<open>dhp_data_rx\<close>, on the stream that was found.\<close>

definition rx_accept ::
  "dhp_data_t \<Rightarrow> dhp_link_t \<Rightarrow> nat \<Rightarrow> u8 list \<Rightarrow> dhp_time_t \<Rightarrow> dhp_data_t \<times> dhp_link_t \<times> data_event list" where
  "rx_accept d l i p now =
     (let s = stream_at d i
      in if ds_state s = DHP_ST_OFFERING then
           let s = (if 1 \<le> length p \<and> 0 < p ! 0 then s\<lparr>ds_window := p ! 0\<rparr> else s);
               (l1, s1, evs) = pump_sender l (s\<lparr>ds_state := DHP_ST_SENDING\<rparr>) now
           in (set_stream i s1 d, l1, evs)
         else (d, l, []))"

definition rx_ack ::
  "dhp_data_t \<Rightarrow> dhp_link_t \<Rightarrow> nat \<Rightarrow> u8 list \<Rightarrow> dhp_time_t \<Rightarrow> dhp_data_t \<times> dhp_link_t \<times> data_event list" where
  "rx_ack d l i p now =
     (let s = stream_at d i
      in if 2 \<le> length p \<and> (ds_state s = DHP_ST_SENDING \<or> ds_state s = DHP_ST_DRAINING) then
           let next = get16 p;
               s = (if ds_acked s < next then s\<lparr>ds_acked := next, ds_rewound_to := NO_REWIND\<rparr> else s);
               rewind = next < ds_next_seq s \<and> ds_rewound_to s \<noteq> next;
               s = (if rewind then s\<lparr>ds_next_seq := next, ds_rewound_to := next\<rparr> else s);
               d = (if rewind then d\<lparr>da_n_retransmits := da_n_retransmits d + 1\<rparr> else d);
               s = (if 3 \<le> length p \<and> 0 < p ! 2 then s\<lparr>ds_window := p ! 2\<rparr> else s);
               (l1, s1, evs) = pump_sender l (s\<lparr>ds_state := DHP_ST_SENDING\<rparr>) now
           in (set_stream i s1 d, l1, evs)
         else (d, l, []))"

text \<open>The stream a frame other than an offer belongs to.\<close>

definition rx_slot :: "dhp_data_t \<Rightarrow> dhp_addr_t \<Rightarrow> u8 \<Rightarrow> u8 \<Rightarrow> nat option" where
  "rx_slot d src sid oper =
     (let answers_our_send = oper = OP_ACCEPT \<or> oper = OP_ACK \<or> oper = OP_DONE
      in case slot_find d src sid answers_our_send of
           Some i \<Rightarrow> Some i
         | None \<Rightarrow>
             if answers_our_send then None
             else case slot_find d src sid False of
                    Some i \<Rightarrow> Some i
                  | None \<Rightarrow> slot_find d src sid True)"

text \<open>The bookkeeping and the \<open>switch\<close> of \<open>dhp_data_rx\<close>, on the stream that was found.\<close>

definition rx_dispatch ::
  "dhp_data_t \<Rightarrow> dhp_link_t \<Rightarrow> nat \<Rightarrow> u8 \<Rightarrow> u8 list \<Rightarrow> dhp_time_t \<Rightarrow> dhp_data_t \<times> dhp_link_t \<times> data_event list" where
  "rx_dispatch d0 l i oper p now =
     (let d = set_stream i ((stream_at d0 i)\<lparr>ds_last_rx := now, ds_retries := 0\<rparr>) d0;
          verdict = (\<lambda>r. case data_finish d i (if 1 \<le> length p then p ! 0 else r) of (d1, evs) \<Rightarrow> (d1, l, evs))
      in if oper = OP_ACCEPT then rx_accept d l i p now
         else if oper = OP_REJECT then verdict DHP_DATA_REFUSED
         else if oper = OP_CHUNK then rx_chunk d l i p now
         else if oper = OP_ACK then rx_ack d l i p now
         else if oper = OP_DONE then verdict DHP_DATA_OK
         else if oper = OP_ABORT then verdict DHP_DATA_CANCELLED
         else (d, l, []))"

definition dhp_data_rx ::
  "dhp_data_t \<Rightarrow> dhp_link_t \<Rightarrow> dhp_frame_t \<Rightarrow> dhp_time_t \<Rightarrow> dhp_data_t \<times> dhp_link_t \<times> data_event list" where
  "dhp_data_rx d l f now =
     (if fr_type f \<noteq> msg_code DHP_MSG_DATA \<or> fr_len f < 2 then (d, l, [])
      else
        let oper = frame_bytes f ! 0; sid = frame_bytes f ! 1; p = drop 2 (frame_bytes f)
        in if oper = OP_OFFER then data_rx_offer d l (fr_src f) sid p now
           else case rx_slot d (fr_src f) sid oper of
                  None \<Rightarrow> (d, l, [])
                | Some i \<Rightarrow> rx_dispatch d l i oper p now)"

section \<open>Time\<close>

text \<open>The body of the loop in \<open>dhp_data_tick\<close>, and the loop.\<close>

definition tick_stream ::
  "dhp_time_t \<Rightarrow> nat \<Rightarrow> dhp_data_t \<times> dhp_link_t \<times> data_event list \<Rightarrow> dhp_data_t \<times> dhp_link_t \<times> data_event list" where
  "tick_stream now i st =
     (let (d, l, evs0) = st; s = stream_at d i
      in if ds_state s = DHP_ST_FREE then st
         else if dhp_time_after now (ds_last_rx s + ucast (da_idle_timeout_ms d)) then
           let (d1, evs) = data_finish d i DHP_DATA_TIMEOUT in (d1, l, evs0 @ evs)
         else if \<not> ds_outbound s then st
         else
           let offering = ds_state s = DHP_ST_OFFERING;
               patience = (if offering then da_offer_timeout_ms d else da_ack_timeout_ms d);
               budget = (if offering then da_offer_retries d else da_max_retries d)
           in if \<not> dhp_time_after now (ds_last_tx s + ucast patience) then st
              else
                let s = s\<lparr>ds_retries := ds_retries s + 1\<rparr>
                in if budget < ds_retries s then
                     let (l1, s1, evs) = send_op l s OP_ABORT [DHP_DATA_TIMEOUT] now;
                         (d1, evs') = data_finish (set_stream i s1 d) i DHP_DATA_TIMEOUT
                     in (d1, l1, evs0 @ evs @ evs')
                   else if ds_state s = DHP_ST_OFFERING then
                     let (l1, s1, evs) = send_op l s OP_OFFER (offer_extra s) now
                     in (set_stream i s1 d, l1, evs0 @ evs)
                   else if ds_state s = DHP_ST_SENDING \<or> ds_state s = DHP_ST_DRAINING then
                     let (l1, s1, evs) = pump_sender l (s\<lparr>ds_next_seq := ds_acked s, ds_rewound_to := NO_REWIND,
                                           ds_state := DHP_ST_SENDING\<rparr>) now
                     in (set_stream i s1 (d\<lparr>da_n_retransmits := da_n_retransmits d + 1\<rparr>), l1, evs0 @ evs)
                   else (set_stream i s d, l, evs0))"

definition dhp_data_tick ::
  "dhp_data_t \<Rightarrow> dhp_link_t \<Rightarrow> dhp_time_t \<Rightarrow> dhp_data_t \<times> dhp_link_t \<times> data_event list" where
  "dhp_data_tick d l now = fold (tick_stream now) [0..<DHP_DATA_MAX_STREAMS * 2] (d, l, [])"

definition dhp_data_active :: "dhp_data_t \<Rightarrow> u8" where
  "dhp_data_active d = of_nat (count_idx (\<lambda>s. ds_state s \<noteq> DHP_ST_FREE) (da_s d))"

section \<open>The checksum is Adler-32\<close>

text \<open>The two sums of Adler-32 over the naturals.\<close>

fun adler_sums :: "u8 list \<Rightarrow> nat \<times> nat \<Rightarrow> nat \<times> nat" where
  "adler_sums [] ab = ab"
| "adler_sums (x # xs) (a, b) = (let a' = (a + unat x) mod 65521 in adler_sums xs (a', (b + a') mod 65521))"

definition adler_ok :: "u32 \<times> u32 \<Rightarrow> bool" where
  "adler_ok ab \<longleftrightarrow> unat (fst ab) < 65521 \<and> unat (snd ab) < 65521"

lemma reduce_once:
  assumes "unat (a :: u32) < 65521" "unat (x :: u32) < 65521"
  shows "unat (if ADLER_MOD \<le> a + x then a + x - ADLER_MOD else a + x) = (unat a + unat x) mod 65521"
proof -
  have s: "unat (a + x) = unat a + unat x" using assms by (simp add: unat_plus_simple word_le_nat_alt unat_word_ariths)
  show ?thesis
  proof (cases "ADLER_MOD \<le> a + x")
    case True
    then have "65521 \<le> unat a + unat x" by (simp add: word_le_nat_alt s ADLER_MOD_def)
    then have "(unat a + unat x) mod 65521 = unat a + unat x - 65521"
      using assms mod_if [of "unat a + unat x" 65521] by (simp add: le_mod_geq)
    moreover have "unat (a + x - ADLER_MOD) = unat a + unat x - 65521"
      using True by (simp add: unat_sub s ADLER_MOD_def)
    ultimately show ?thesis using True by simp
  next
    case False
    then have "unat a + unat x < 65521" by (simp add: word_le_nat_alt s ADLER_MOD_def)
    then show ?thesis using False by (simp add: s)
  qed
qed

lemma adler_step_nat:
  assumes "adler_ok ab" "adler_step x ab = (a', b')"
  shows "unat a' = (unat (fst ab) + unat x) mod 65521 \<and> unat b' = (unat (snd ab) + unat a') mod 65521 \<and> adler_ok (a', b')"
proof -
  have x: "unat (ucast x :: u32) = unat x" using unsigned_less [of x, where ?'a = nat] by (simp add: unsigned_ucast_eq take_bit_nat_eq_self)
  moreover have "unat x < 65521" using unsigned_less [of x, where ?'a = nat] by simp
  ultimately have a: "unat a' = (unat (fst ab) + unat x) mod 65521"
    using assms reduce_once [of "fst ab" "ucast x"] by (auto simp: adler_step_def Let_def adler_ok_def)
  moreover have "unat a' < 65521" by (simp add: a)
  moreover from this have "unat b' = (unat (snd ab) + unat a') mod 65521"
    using assms reduce_once [of "snd ab" a'] by (auto simp: adler_step_def Let_def adler_ok_def)
  ultimately show ?thesis by (simp add: adler_ok_def)
qed

lemma adler_fold_ok: "adler_ok ab \<Longrightarrow> adler_ok (fold adler_step xs ab)"
proof (induction xs arbitrary: ab)
  case (Cons x xs)
  then show ?case using adler_step_nat [of ab x "fst (adler_step x ab)" "snd (adler_step x ab)"] by simp
qed simp

lemma adler_fold_sums:
  "adler_ok ab \<Longrightarrow> map_prod unat unat (fold adler_step xs ab) = adler_sums xs (map_prod unat unat ab)"
proof (induction xs arbitrary: ab)
  case (Cons x xs)
  obtain a' b' where s: "adler_step x ab = (a', b')" by fastforce
  with Cons adler_step_nat [of ab x a' b'] show ?case by (cases ab) (simp add: Let_def)
qed simp

definition adler_pack :: "u32 \<times> u32 \<Rightarrow> u32" where
  "adler_pack ab = push_bit 16 (snd ab) OR fst ab"

definition adler_unpack :: "u32 \<Rightarrow> u32 \<times> u32" where
  "adler_unpack state = (state AND 0xFFFF, drop_bit 16 state AND 0xFFFF)"

lemma adler_unpack_pack:
  assumes "adler_ok ab" shows "adler_unpack (adler_pack ab) = ab"
proof -
  have m: "(0xFFFF :: u32) = mask 16" by (simp add: mask_eq_exp_minus_1)
  have "take_bit 16 w = w" if "unat w < 65521" for w :: u32
    using that by (subst word_unat_eq_iff) (simp add: unsigned_take_bit_eq take_bit_nat_eq_self)
  then have "take_bit 16 (fst ab) = fst ab" "take_bit 16 (snd ab) = snd ab"
    using assms by (simp_all add: adler_ok_def)
  then have b: "bit (fst ab) k \<Longrightarrow> k < 16" "bit (snd ab) k \<Longrightarrow> k < 16" for k
    by (metis bit_take_bit_iff)+
  have "adler_pack ab AND 0xFFFF = fst ab"
    unfolding adler_pack_def m by (rule bit_word_eqI) (use b in \<open>auto simp: bit_simps not_le dest: leD\<close>)
  moreover have "drop_bit 16 (adler_pack ab) AND 0xFFFF = snd ab"
    unfolding adler_pack_def m
    by (rule bit_word_eqI) (use b in \<open>auto simp: bit_simps not_le dest: leD bit_imp_le_length\<close>)
  ultimately show ?thesis by (simp add: adler_unpack_def prod_eq_iff)
qed

lemma adler32_update_alt: "adler32_update st xs = adler_pack (fold adler_step xs (adler_unpack st))"
  by (simp add: adler32_update_def adler_pack_def adler_unpack_def split: prod.splits)

lemma adler_init_ok: "adler_ok (adler_unpack ADLER_INIT)"
  by (simp add: adler_ok_def adler_unpack_def ADLER_INIT_def)

text \<open>Chunk by chunk or in one pass, the checksum is the same.\<close>

lemma content_crc_append: "content_crc (xs @ ys) = adler32_update (content_crc xs) ys"
  by (simp add: content_crc_def adler32_update_alt adler_unpack_pack adler_fold_ok adler_init_ok)

lemma content_crc_reference:
  "unat (content_crc xs AND 0xFFFF) = fst (adler_sums xs (1, 0)) \<and>
   unat (drop_bit 16 (content_crc xs) AND 0xFFFF) = snd (adler_sums xs (1, 0))"
proof -
  have "adler_unpack (content_crc xs) = fold adler_step xs (adler_unpack ADLER_INIT)"
    by (simp add: content_crc_def adler32_update_alt adler_unpack_pack adler_fold_ok adler_init_ok)
  moreover have "map_prod unat unat (adler_unpack ADLER_INIT) = (1, 0)"
    by (simp add: adler_unpack_def ADLER_INIT_def)
  ultimately have "map_prod unat unat (adler_unpack (content_crc xs)) = adler_sums xs (1, 0)"
    using adler_fold_sums [OF adler_init_ok, of xs] by simp
  then show ?thesis by (metis adler_unpack_def fst_map_prod snd_map_prod fst_conv snd_conv)
qed

section \<open>The stream table invariant\<close>

text \<open>
  The first half of the table only ever holds senders and the second half only receivers, and
  no peer has two inbound streams under one number.
\<close>

definition slot_ok :: "nat \<Rightarrow> dhp_data_stream_t \<Rightarrow> bool" where
  "slot_ok i s \<longleftrightarrow>
     ds_state s = DHP_ST_FREE \<or>
     (if i < DHP_DATA_MAX_STREAMS
      then ds_outbound s \<and> (ds_state s = DHP_ST_OFFERING \<or> ds_state s = DHP_ST_SENDING \<or> ds_state s = DHP_ST_DRAINING)
      else \<not> ds_outbound s \<and> (ds_state s = DHP_ST_OFFERED \<or> ds_state s = DHP_ST_RECEIVING))"

definition same_transfer :: "dhp_data_stream_t \<Rightarrow> dhp_data_stream_t \<Rightarrow> bool" where
  "same_transfer s s' \<longleftrightarrow> ds_state s \<noteq> DHP_ST_FREE \<and> ds_peer s' = ds_peer s \<and> ds_id s' = ds_id s"

definition data_wf :: "dhp_data_t \<Rightarrow> bool" where
  "data_wf d \<longleftrightarrow>
     length (da_s d) = 2 * DHP_DATA_MAX_STREAMS \<and>
     (\<forall>i < length (da_s d). slot_ok i (stream_at d i)) \<and>
     (\<forall>i < length (da_s d). \<forall>j < length (da_s d).
        DHP_DATA_MAX_STREAMS \<le> i \<and> DHP_DATA_MAX_STREAMS \<le> j \<and>
        same_transfer (stream_at d i) (stream_at d j) \<and> ds_state (stream_at d j) \<noteq> DHP_ST_FREE \<longrightarrow> i = j)"

lemma stream_at_set: "stream_at (set_stream i s d) j = (if j = i \<and> i < length (da_s d) then s else stream_at d j)"
  by (cases "i < length (da_s d)") (auto simp: stream_at_def set_stream_def nth_list_update list_update_beyond)

lemma set_stream_simps [simp]:
  "length (da_s (set_stream i s d)) = length (da_s d)" "da_hooks (set_stream i s d) = da_hooks d"
  "da_window (set_stream i s d) = da_window d" "da_n_received (set_stream i s d) = da_n_received d"
  by (simp_all add: set_stream_def)

lemma set_stream_same [simp]: "set_stream i s (set_stream i s' d) = set_stream i s d"
  by (simp add: set_stream_def)

lemma set_stream_counter: "da_s (set_stream i s (d\<lparr>da_n_retransmits := n\<rparr>)) = da_s (set_stream i s d)"
  by (simp add: set_stream_def)

lemma stream_zero_state [simp]: "ds_state stream_zero = DHP_ST_FREE"
  by (simp add: stream_zero_def)

lemma data_wf_cong: "da_s d' = da_s d \<Longrightarrow> data_wf d' = data_wf d"
  by (simp add: data_wf_def stream_at_def)

lemma data_wfD:
  assumes "data_wf d"
  shows "length (da_s d) = 2 * DHP_DATA_MAX_STREAMS" "i < length (da_s d) \<Longrightarrow> slot_ok i (stream_at d i)"
    "DHP_DATA_MAX_STREAMS \<le> i \<Longrightarrow> DHP_DATA_MAX_STREAMS \<le> j \<Longrightarrow> i < length (da_s d) \<Longrightarrow> j < length (da_s d) \<Longrightarrow>
     same_transfer (stream_at d i) (stream_at d j) \<Longrightarrow> ds_state (stream_at d j) \<noteq> DHP_ST_FREE \<Longrightarrow> i = j"
  using assms by (simp_all add: data_wf_def)

text \<open>
  Writing one slot keeps the invariant when no other inbound slot holds the transfer that is
  written.
\<close>

lemma data_wf_write:
  assumes wf: "data_wf d" and ok: "slot_ok i s"
    and other: "\<And>j. DHP_DATA_MAX_STREAMS \<le> i \<Longrightarrow> DHP_DATA_MAX_STREAMS \<le> j \<Longrightarrow> j < length (da_s d) \<Longrightarrow> j \<noteq> i \<Longrightarrow>
      ds_state s \<noteq> DHP_ST_FREE \<Longrightarrow> ds_state (stream_at d j) \<noteq> DHP_ST_FREE \<Longrightarrow>
      ds_peer (stream_at d j) = ds_peer s \<Longrightarrow> ds_id (stream_at d j) = ds_id s \<Longrightarrow> False"
  shows "data_wf (set_stream i s d)"
  unfolding data_wf_def
proof (intro conjI allI impI)
  show "length (da_s (set_stream i s d)) = 2 * DHP_DATA_MAX_STREAMS" using data_wfD(1) [OF wf] by simp
  show "slot_ok j (stream_at (set_stream i s d) j)" if "j < length (da_s (set_stream i s d))" for j
    using that ok data_wfD(2) [OF wf] by (simp add: stream_at_set)
  show "j = k" if "j < length (da_s (set_stream i s d))" "k < length (da_s (set_stream i s d))"
    "DHP_DATA_MAX_STREAMS \<le> j \<and> DHP_DATA_MAX_STREAMS \<le> k \<and>
     same_transfer (stream_at (set_stream i s d) j) (stream_at (set_stream i s d) k) \<and>
     ds_state (stream_at (set_stream i s d) k) \<noteq> DHP_ST_FREE" for j k
  proof (cases "j = i \<or> k = i")
    case True
    then show ?thesis using that other [of j] other [of k]
      by (cases "j = i"; cases "k = i") (auto simp: stream_at_set same_transfer_def)
  next
    case False
    then show ?thesis using that data_wfD(3) [OF wf, of j k] by (simp add: stream_at_set)
  qed
qed

lemma data_wf_set:
  assumes "data_wf d" "slot_ok i s" "i < length (da_s d)"
    and "ds_state s = DHP_ST_FREE \<or> i < DHP_DATA_MAX_STREAMS \<or> same_transfer (stream_at d i) s"
  shows "data_wf (set_stream i s d)"
proof (rule data_wf_write [OF assms(1,2)])
  fix j
  assume "DHP_DATA_MAX_STREAMS \<le> i" "DHP_DATA_MAX_STREAMS \<le> j" "j < length (da_s d)" "j \<noteq> i"
    "ds_state s \<noteq> DHP_ST_FREE" "ds_state (stream_at d j) \<noteq> DHP_ST_FREE"
    "ds_peer (stream_at d j) = ds_peer s" "ds_id (stream_at d j) = ds_id s"
  with assms data_wfD(3) [OF assms(1), of i j] show False by (simp add: same_transfer_def)
qed

lemma data_wf_new:
  assumes "data_wf d" "slot_ok i s" "slot_find d (ds_peer s) (ds_id s) False = None"
  shows "data_wf (set_stream i s d)"
proof (rule data_wf_write [OF assms(1,2)])
  fix j
  assume j: "DHP_DATA_MAX_STREAMS \<le> j" "j < length (da_s d)" "ds_state (stream_at d j) \<noteq> DHP_ST_FREE"
    "ds_peer (stream_at d j) = ds_peer s" "ds_id (stream_at d j) = ds_id s"
  have "length (da_s d) = 8" using data_wfD(1) [OF assms(1)] by (simp add: DHP_DATA_MAX_STREAMS_def)
  then have "da_s d ! j \<in> set (take DHP_DATA_MAX_STREAMS (drop (slot_base False) (da_s d)))"
    using j(1,2) by (simp add: slot_base_def DHP_DATA_MAX_STREAMS_def in_set_conv_nth) (intro exI [of _ "j - 4"], simp)
  with j assms(3) show False by (auto simp: slot_find_def find_idx_None_iff stream_at_def)
qed

lemma half_table:
  assumes "find_idx P (take DHP_DATA_MAX_STREAMS (drop (slot_base b) (da_s d))) = Some k" "data_wf d"
  shows "P (stream_at d (slot_base b + k))" "slot_base b + k < length (da_s d)"
    "b \<longleftrightarrow> slot_base b + k < DHP_DATA_MAX_STREAMS"
  using find_idx_SomeD [OF assms(1)] assms(2)
  by (auto simp: slot_base_def stream_at_def data_wf_def)

lemma slot_free_Some:
  assumes "slot_free d b = Some i" "data_wf d"
  shows "i < length (da_s d)" "ds_state (stream_at d i) = DHP_ST_FREE" "b \<longleftrightarrow> i < DHP_DATA_MAX_STREAMS"
  using assms half_table [of _ b d] by (auto simp: slot_free_def)

lemma slot_find_Some:
  assumes "slot_find d peer sid b = Some i" "data_wf d"
  shows "i < length (da_s d)" "ds_state (stream_at d i) \<noteq> DHP_ST_FREE" "ds_id (stream_at d i) = sid"
    "ds_peer (stream_at d i) = peer" "b \<longleftrightarrow> i < DHP_DATA_MAX_STREAMS"
  using assms half_table [of _ b d] by (auto simp: slot_find_def)

lemma rx_slot_Some:
  assumes "rx_slot d peer sid oper = Some i" "data_wf d"
  shows "i < length (da_s d)" "ds_state (stream_at d i) \<noteq> DHP_ST_FREE"
  using assms slot_find_Some [of d peer sid _ i]
  by (auto simp: rx_slot_def Let_def split: option.splits if_splits)

lemma by_handle_Some: "by_handle d h = Some i \<Longrightarrow> i = h \<and> h < 2 * DHP_DATA_MAX_STREAMS \<and> ds_state (stream_at d h) \<noteq> DHP_ST_FREE"
  by (auto simp: by_handle_def split: if_splits)

lemma data_finish_table: "data_finish d i r = (d', evs) \<Longrightarrow> da_s d' = da_s (set_stream i stream_zero d)"
  by (auto simp: data_finish_def Let_def split: if_splits)

lemma data_wf_clear: "data_wf d \<Longrightarrow> data_wf (set_stream i stream_zero d)"
  by (rule data_wf_write) (simp_all add: slot_ok_def)

lemma data_finish_wf: "data_wf d \<Longrightarrow> data_finish d i r = (d', evs) \<Longrightarrow> data_wf d'"
  using data_wf_cong [OF data_finish_table] data_wf_clear by blast

lemma data_finish_set: "data_finish (set_stream i s d) i r = (d', evs) \<Longrightarrow> ds_outbound s = ds_outbound (stream_at d i) \<Longrightarrow>
    i < length (da_s d) \<Longrightarrow> data_finish d i r = (d', evs)"
  by (simp add: data_finish_def stream_at_set)

lemma pump_loop_frame:
  "pump_loop l s n now = (l', s', evs) \<Longrightarrow> s' = s\<lparr>ds_next_seq := ds_next_seq s', ds_last_tx := ds_last_tx s'\<rparr>"
proof (induction l s n now arbitrary: l' s' evs rule: pump_loop.induct)
  case (1 l s n now)
  show ?case
  proof (cases "ds_next_seq s < n \<and> unat (ds_next_seq s - ds_acked s) < unat (ds_window s)")
    case True
    obtain l1 s1 evs1 where o: "send_op l s OP_CHUNK (chunk_extra s) now = (l1, s1, evs1)" by (metis prod_cases3)
    obtain l2 s2 evs2 where p: "pump_loop l1 (s1\<lparr>ds_next_seq := ds_next_seq s1 + 1\<rparr>) n now = (l2, s2, evs2)"
      by (metis prod_cases3)
    have "s' = s2" using "1.prems" True by (subst (asm) pump_loop.simps) (simp add: o p)
    with "1.IH" [OF True o [symmetric] refl refl p] send_op_next_seq [OF o] show ?thesis by simp
  next
    case False
    with "1.prems" show ?thesis by (subst (asm) pump_loop.simps) auto
  qed
qed

lemma pump_loop_kept:
  assumes "pump_loop l s n now = (l', s', evs)"
  shows "ds_peer s' = ds_peer s" "ds_id s' = ds_id s" "ds_outbound s' = ds_outbound s" "ds_state s' = ds_state s"
proof -
  obtain x y where "s' = s\<lparr>ds_next_seq := x, ds_last_tx := y\<rparr>" using pump_loop_frame [OF assms] by blast
  then show "ds_peer s' = ds_peer s" "ds_id s' = ds_id s" "ds_outbound s' = ds_outbound s" "ds_state s' = ds_state s"
    by simp_all
qed

lemma pump_sender_frame:
  assumes "pump_sender l s now = (l', s', evs)"
  shows "ds_peer s' = ds_peer s" "ds_id s' = ds_id s" "ds_outbound s' = ds_outbound s"
    "ds_state s = DHP_ST_SENDING \<Longrightarrow> ds_state s' = DHP_ST_SENDING \<or> ds_state s' = DHP_ST_DRAINING"
proof -
  obtain l1 s1 evs1 where p: "pump_loop l s (chunks_for (ds_total s)) now = (l1, s1, evs1)" by (metis prod_cases3)
  then have "s' = (if chunks_for (ds_total s) \<le> ds_next_seq s1 \<and> ds_state s1 = DHP_ST_SENDING
              then s1\<lparr>ds_state := DHP_ST_DRAINING\<rparr> else s1)"
    using assms by (simp add: pump_sender_def)
  with pump_loop_kept [OF p] show "ds_peer s' = ds_peer s" "ds_id s' = ds_id s" "ds_outbound s' = ds_outbound s"
    "ds_state s = DHP_ST_SENDING \<Longrightarrow> ds_state s' = DHP_ST_SENDING \<or> ds_state s' = DHP_ST_DRAINING"
    by simp_all
qed

lemma slot_ok_kept:
  "slot_ok i s \<Longrightarrow> ds_state s' = ds_state s \<Longrightarrow> ds_outbound s' = ds_outbound s \<Longrightarrow> slot_ok i s'"
  unfolding slot_ok_def by simp metis

text \<open>A write that leaves a stream in its state, or moves it to another state of its half.\<close>

lemma data_wf_touch:
  assumes "data_wf d" "i < length (da_s d)" "ds_state (stream_at d i) \<noteq> DHP_ST_FREE" "slot_ok i s"
    "ds_peer s = ds_peer (stream_at d i)" "ds_id s = ds_id (stream_at d i)"
  shows "data_wf (set_stream i s d)"
  using assms by (intro data_wf_set) (auto simp: same_transfer_def)

lemma data_wf_same:
  assumes "data_wf d" "i < length (da_s d)" "ds_state (stream_at d i) \<noteq> DHP_ST_FREE" "ds_state s = ds_state (stream_at d i)"
    "ds_outbound s = ds_outbound (stream_at d i)" "ds_peer s = ds_peer (stream_at d i)" "ds_id s = ds_id (stream_at d i)"
  shows "data_wf (set_stream i s d)"
  using assms data_wfD(2) [OF assms(1,2)] by (intro data_wf_touch) (auto intro: slot_ok_kept)

lemma data_send_wf:
  assumes "data_wf d" "dhp_data_send d l to kind name data now = (d', l', evs, r)"
  shows "data_wf d'"
proof (cases "data = []")
  case True
  with assms show ?thesis by (simp add: dhp_data_send_def)
next
  case False
  show ?thesis
  proof (cases "slot_free d True")
    case None
    with False assms show ?thesis by (simp add: dhp_data_send_def)
  next
    case (Some i)
    from slot_free_Some [OF Some assms(1)] have i: "i < length (da_s d)" "i < DHP_DATA_MAX_STREAMS" by simp_all
    from False Some assms(2) obtain s d1 where "d' = set_stream i s d1" "da_s d1 = da_s d" "ds_state s = DHP_ST_OFFERING" "ds_outbound s"
      by (auto simp: dhp_data_send_def Let_def split: prod.splits dest!: send_op_next_seq)
    moreover from this have "data_wf d1" using assms(1) data_wf_cong by blast
    ultimately show ?thesis using i by (auto intro!: data_wf_set simp: slot_ok_def)
  qed
qed

lemma data_accept_wf:
  assumes "data_wf d" "dhp_data_accept d l h now = (d', l', evs)"
  shows "data_wf d'"
proof (cases "by_handle d h = Some h \<and> ds_state (stream_at d h) = DHP_ST_OFFERED")
  case True
  then have i: "h < length (da_s d)" using by_handle_Some [of d h h] data_wfD(1) [OF assms(1)] by simp
  from True assms(2) obtain s where "d' = set_stream h s d" "ds_state s = DHP_ST_RECEIVING" "ds_outbound s = ds_outbound (stream_at d h)"
      "ds_peer s = ds_peer (stream_at d h)" "ds_id s = ds_id (stream_at d h)"
    by (auto simp: dhp_data_accept_def split: prod.splits dest!: send_op_next_seq)
  then show ?thesis using True i data_wfD(2) [OF assms(1) i] assms(1) by (auto intro!: data_wf_touch simp: slot_ok_def split: if_splits)
next
  case False
  with assms show ?thesis by (auto simp: dhp_data_accept_def split: option.splits if_splits dest: by_handle_Some)
qed

lemma data_reject_wf:
  assumes "data_wf d" "dhp_data_reject d l h now = (d', l', evs)"
  shows "data_wf d'"
proof -
  have "da_s d' = da_s d \<or> (\<exists>i. da_s d' = da_s (set_stream i stream_zero d))"
    using assms(2) by (auto simp: dhp_data_reject_def set_stream_def split: option.splits if_splits prod.splits)
  then show ?thesis using assms(1) data_wf_clear data_wf_cong by blast
qed

lemma data_cancel_wf:
  assumes "data_wf d" "dhp_data_cancel d l h now = (d', l', evs)"
  shows "data_wf d'"
proof -
  have "d' = d \<or> (\<exists>i. da_s d' = da_s (set_stream i stream_zero d))"
    using assms(2) by (auto simp: dhp_data_cancel_def split: option.splits prod.splits dest!: data_finish_table)
  then show ?thesis using assms(1) data_wf_clear data_wf_cong by blast
qed

lemma rx_offer_cases:
  assumes "data_rx_offer d l from sid p now = (d', l', evs)"
  obtains (same) "d' = d"
  | (clear) i where "d' = set_stream i stream_zero d" "slot_free d False = Some i"
  | (ack) i s where "d' = set_stream i s d" "slot_find d from sid False = Some i" "s = (stream_at d i)\<lparr>ds_last_tx := now\<rparr>"
  | (new) i s where "d' = set_stream i s d" "slot_find d from sid False = None" "slot_free d False = Some i"
      "ds_state s = DHP_ST_OFFERED" "\<not> ds_outbound s" "ds_peer s = from" "ds_id s = sid"
  using assms
  by (auto simp: data_rx_offer_def send_ack_def Let_def split: option.splits if_splits prod.splits dest!: send_op_next_seq)

lemma rx_offer_wf:
  assumes wf: "data_wf d" and rx: "data_rx_offer d l from sid p now = (d', l', evs)"
  shows "data_wf d'"
  using rx
proof (cases rule: rx_offer_cases)
  case (ack i s)
  then show ?thesis using slot_find_Some [OF ack(2) wf] wf by (auto intro!: data_wf_same)
next
  case (new i s)
  then show ?thesis using slot_free_Some [OF new(3) wf] wf by (auto intro!: data_wf_new simp: slot_ok_def)
qed (use wf data_wf_clear in auto)

lemma rx_offer_outbound:
  assumes wf: "data_wf d" and rx: "data_rx_offer d l from sid p now = (d', l', evs)"
  shows "take DHP_DATA_MAX_STREAMS (da_s d') = take DHP_DATA_MAX_STREAMS (da_s d)"
proof -
  have eq: "take DHP_DATA_MAX_STREAMS (da_s (set_stream i s d)) = take DHP_DATA_MAX_STREAMS (da_s d)"
    if "\<not> i < DHP_DATA_MAX_STREAMS" for i s using that by (simp add: set_stream_def)
  show ?thesis using rx
  proof (cases rule: rx_offer_cases)
    case (clear i)
    then show ?thesis using slot_free_Some(3) [OF clear(2) wf] eq by simp
  next
    case (ack i s)
    then show ?thesis using slot_find_Some(5) [OF ack(2) wf] eq by simp
  next
    case (new i s)
    then show ?thesis using slot_free_Some(3) [OF new(3) wf] eq by simp
  qed simp
qed

lemma rx_chunk_cases:
  assumes "rx_chunk d l i p now = (d', l', evs)"
  obtains (same) "d' = d"
  | (cleared) "da_s d' = da_s (set_stream i stream_zero d)"
  | (kept) s where "d' = set_stream i s d" "ds_state s = ds_state (stream_at d i)" "ds_outbound s = ds_outbound (stream_at d i)"
      "ds_peer s = ds_peer (stream_at d i)" "ds_id s = ds_id (stream_at d i)"
  using assms
  by (auto simp: rx_chunk_def send_ack_def Let_def split: if_splits prod.splits dest!: send_op_next_seq data_finish_table)

lemma rx_chunk_wf:
  assumes "data_wf d" "i < length (da_s d)" "ds_state (stream_at d i) \<noteq> DHP_ST_FREE" "rx_chunk d l i p now = (d', l', evs)"
  shows "data_wf d'"
  using assms(4)
proof (cases rule: rx_chunk_cases)
  case same
  then show ?thesis using assms(1) by simp
next
  case cleared
  then show ?thesis using assms(1) data_wf_clear data_wf_cong by blast
next
  case (kept s)
  then show ?thesis using assms by (auto intro: data_wf_same)
qed

lemma sender_slot: "slot_ok i s \<Longrightarrow> ds_state s = DHP_ST_OFFERING \<or> ds_state s = DHP_ST_SENDING \<or> ds_state s = DHP_ST_DRAINING \<Longrightarrow>
    i < DHP_DATA_MAX_STREAMS \<and> ds_outbound s"
  by (auto simp: slot_ok_def split: if_splits)

text \<open>Running the sender on a stream of the outbound half.\<close>

lemma pump_wf:
  assumes wf: "data_wf d" "i < length (da_s d)"
    and st: "ds_state (stream_at d i) = DHP_ST_OFFERING \<or> ds_state (stream_at d i) = DHP_ST_SENDING \<or> ds_state (stream_at d i) = DHP_ST_DRAINING"
    and s: "ds_state s = DHP_ST_SENDING" "ds_outbound s = ds_outbound (stream_at d i)"
    and pump: "pump_sender l s now = (l', s', evs)" and d': "da_s d' = da_s (set_stream i s' d)"
  shows "data_wf d'"
proof -
  from sender_slot [OF data_wfD(2) [OF wf] st] have i: "i < DHP_DATA_MAX_STREAMS" "ds_outbound (stream_at d i)" by simp_all
  have "slot_ok i s'" using pump_sender_frame [OF pump] s i by (auto simp: slot_ok_def)
  then have "data_wf (set_stream i s' d)" using wf i by (intro data_wf_set) simp_all
  then show ?thesis using data_wf_cong [OF d'] by simp
qed

lemma rx_accept_wf:
  assumes "data_wf d" "i < length (da_s d)" "rx_accept d l i p now = (d', l', evs)"
  shows "data_wf d'"
proof (cases "ds_state (stream_at d i) = DHP_ST_OFFERING")
  case True
  define s where "s = (if 1 \<le> length p \<and> 0 < p ! 0 then (stream_at d i)\<lparr>ds_window := p ! 0\<rparr> else stream_at d i)\<lparr>ds_state := DHP_ST_SENDING\<rparr>"
  from True assms(3) obtain s' where "pump_sender l s now = (l', s', evs)" "d' = set_stream i s' d"
    by (auto simp: rx_accept_def s_def Let_def split: prod.splits)
  moreover have "ds_state s = DHP_ST_SENDING" "ds_outbound s = ds_outbound (stream_at d i)" by (simp_all add: s_def)
  ultimately show ?thesis using True assms(1,2) pump_wf [of d i s l now l' s' evs d'] by simp
next
  case False
  with assms show ?thesis by (simp add: rx_accept_def Let_def)
qed

lemma rx_ack_cases:
  assumes "rx_ack d l i p now = (d', l', evs)"
  obtains (same) "d' = d"
  | (pump) s s' where "pump_sender l s now = (l', s', evs)" "ds_state s = DHP_ST_SENDING"
      "ds_outbound s = ds_outbound (stream_at d i)" "da_s d' = da_s (set_stream i s' d)"
      "ds_state (stream_at d i) = DHP_ST_OFFERING \<or> ds_state (stream_at d i) = DHP_ST_SENDING \<or> ds_state (stream_at d i) = DHP_ST_DRAINING"
  using assms by (auto simp: rx_ack_def Let_def set_stream_def split: if_splits prod.splits)

lemma rx_ack_wf:
  assumes "data_wf d" "i < length (da_s d)" "rx_ack d l i p now = (d', l', evs)"
  shows "data_wf d'"
  using assms(3)
proof (cases rule: rx_ack_cases)
  case (pump s s')
  then show ?thesis using assms(1,2) pump_wf [of d i s l now l' s' evs d'] by blast
qed (use assms in simp)

lemma rx_dispatch_wf:
  assumes "data_wf d" "i < length (da_s d)" "ds_state (stream_at d i) \<noteq> DHP_ST_FREE"
    and rx: "rx_dispatch d l i oper p now = (d', l', evs)"
  shows "data_wf d'"
proof -
  define d0 where "d0 = set_stream i ((stream_at d i)\<lparr>ds_last_rx := now, ds_retries := 0\<rparr>) d"
  have d0: "data_wf d0" "i < length (da_s d0)" "ds_state (stream_at d0 i) \<noteq> DHP_ST_FREE"
    unfolding d0_def using assms(1-3) by (auto intro!: data_wf_same simp: stream_at_set)
  consider (finish) r where "data_finish d0 i r = (d', evs)" | (chunk) "rx_chunk d0 l i p now = (d', l', evs)"
    | (accept) "rx_accept d0 l i p now = (d', l', evs)" | (ack) "rx_ack d0 l i p now = (d', l', evs)" | (none) "d' = d0"
    using rx unfolding rx_dispatch_def d0_def [symmetric] Let_def by (auto split: if_splits prod.splits)
  then show ?thesis
    by cases (auto intro: data_finish_wf [OF d0(1)] rx_chunk_wf [OF d0] rx_accept_wf [OF d0(1,2)] rx_ack_wf [OF d0(1,2)] d0(1))
qed

lemma data_rx_cases:
  assumes "dhp_data_rx d l f now = (d', l', evs)"
  obtains (same) "d' = d" "l' = l" "evs = []"
  | (offer) p sid where "data_rx_offer d l (fr_src f) sid p now = (d', l', evs)"
  | (found) i sid oper p where "rx_slot d (fr_src f) sid oper = Some i" "rx_dispatch d l i oper p now = (d', l', evs)"
proof (cases "fr_type f \<noteq> msg_code DHP_MSG_DATA \<or> fr_len f < 2")
  case True
  with assms same show thesis by (simp add: dhp_data_rx_def)
next
  case False
  with assms same offer found show thesis
    by (cases "rx_slot d (fr_src f) (frame_bytes f ! 1) (frame_bytes f ! 0)") (auto simp: dhp_data_rx_def Let_def split: if_splits)
qed

lemma data_rx_wf:
  assumes wf: "data_wf d" and rx: "dhp_data_rx d l f now = (d', l', evs)"
  shows "data_wf d'"
  using rx
proof (cases rule: data_rx_cases)
  case same
  then show ?thesis using wf by simp
next
  case (offer p sid)
  then show ?thesis by (rule rx_offer_wf [OF wf])
next
  case (found i sid oper p)
  then show ?thesis using rx_dispatch_wf [OF wf] rx_slot_Some [OF found(1) wf] by simp
qed

lemma tick_stream_wf:
  assumes "data_wf d" "i < length (da_s d)" "tick_stream now i (d, l, evs0) = (d', l', evs)"
  shows "data_wf d'"
proof -
  have "slot_ok i (stream_at d i)" using data_wfD(2) [OF assms(1,2)] .
  consider (same) "d' = d" | (cleared) "da_s d' = da_s (set_stream i stream_zero d)"
    | (kept) s where "d' = set_stream i s d" "ds_state (stream_at d i) \<noteq> DHP_ST_FREE" "ds_state s = ds_state (stream_at d i)"
        "ds_outbound s = ds_outbound (stream_at d i)" "ds_peer s = ds_peer (stream_at d i)" "ds_id s = ds_id (stream_at d i)"
    | (pump) s s' evs1 where "pump_sender l s now = (l', s', evs1)" "ds_state s = DHP_ST_SENDING"
      "ds_outbound s = ds_outbound (stream_at d i)" "da_s d' = da_s (set_stream i s' d)"
      "ds_state (stream_at d i) = DHP_ST_SENDING \<or> ds_state (stream_at d i) = DHP_ST_DRAINING"
    using assms(3)
    by (auto simp: tick_stream_def Let_def set_stream_counter
          split: if_splits prod.splits dest!: send_op_next_seq data_finish_table)
  then show ?thesis
  proof cases
    case pump
    then show ?thesis using assms(1,2) pump_wf [of d i s l now l' s' evs1 d'] by blast
  next
    case cleared
    then show ?thesis using assms(1) data_wf_clear data_wf_cong by blast
  qed (use assms in \<open>auto intro: data_wf_same\<close>)
qed

lemma tick_fold_wf:
  assumes "data_wf (fst st)" "\<forall>i \<in> set is. i < 2 * DHP_DATA_MAX_STREAMS"
  shows "data_wf (fst (fold (tick_stream now) is st))"
  using assms
proof (induction "is" arbitrary: st)
  case (Cons i "is")
  obtain d l evs where st: "st = (d, l, evs)" by (metis prod_cases3)
  obtain d' l' evs' where st': "tick_stream now i st = (d', l', evs')" by (metis prod_cases3)
  have "data_wf d" "i < length (da_s d)" using Cons.prems data_wfD(1) [of d] by (simp_all add: st)
  from tick_stream_wf [OF this st' [unfolded st]] have "data_wf d'" .
  then show ?case using Cons.IH [of "tick_stream now i st"] Cons.prems st' by simp
qed simp

lemma data_tick_wf:
  assumes "data_wf d" "dhp_data_tick d l now = (d', l', evs)"
  shows "data_wf d'"
  using tick_fold_wf [of "(d, l, [])" "[0..<DHP_DATA_MAX_STREAMS * 2]" now] assms by (simp add: dhp_data_tick_def)

lemma data_init_wf: "data_wf (dhp_data_init hooks)"
  by (auto simp: dhp_data_init_def data_wf_def stream_at_def slot_ok_def same_transfer_def)

inductive data_step :: "dhp_data_t \<Rightarrow> dhp_data_t \<Rightarrow> bool" where
  step_send: "dhp_data_send d l to kind name data now = (d', l', evs, r) \<Longrightarrow> data_step d d'"
| step_accept: "dhp_data_accept d l h now = (d', l', evs) \<Longrightarrow> data_step d d'"
| step_reject: "dhp_data_reject d l h now = (d', l', evs) \<Longrightarrow> data_step d d'"
| step_cancel: "dhp_data_cancel d l h now = (d', l', evs) \<Longrightarrow> data_step d d'"
| step_rx: "dhp_data_rx d l f now = (d', l', evs) \<Longrightarrow> data_step d d'"
| step_tick: "dhp_data_tick d l now = (d', l', evs) \<Longrightarrow> data_step d d'"

lemma data_step_wf:
  assumes "data_step d d'" "data_wf d" shows "data_wf d'"
  using assms(1)
proof cases
  case (step_send l to kind name data now l' evs r)
  then show ?thesis using data_send_wf [OF assms(2)] by simp
next
  case (step_accept l h now l' evs)
  then show ?thesis using data_accept_wf [OF assms(2)] by simp
next
  case (step_reject l h now l' evs)
  then show ?thesis using data_reject_wf [OF assms(2)] by simp
next
  case (step_cancel l h now l' evs)
  then show ?thesis using data_cancel_wf [OF assms(2)] by simp
next
  case (step_rx l f now l' evs)
  then show ?thesis using data_rx_wf [OF assms(2)] by simp
next
  case (step_tick l now l' evs)
  then show ?thesis using data_tick_wf [OF assms(2)] by simp
qed

interpretation streams: transition_system "\<lambda>d. \<exists>hooks. d = dhp_data_init hooks" data_step data_wf
  by unfold_locales (use data_init_wf data_step_wf in auto)

text \<open>
  Whatever frames arrive and whatever calls the application makes, in any order, the
  sending half of the table holds only senders and the receiving half only receivers, and a
  peer never has two inbound streams under one number, so a repeated offer cannot open a
  second stream; and an offer, whoever sends it, leaves the free sending slots as they were.
\<close>

theorem data_table_invariant:
  assumes "data_step\<^sup>*\<^sup>* (dhp_data_init hooks) d"
  shows "length (da_s d) = 8 \<and>
    (\<forall>i < 8. ds_state (da_s d ! i) \<noteq> DHP_ST_FREE \<longrightarrow>
      (i < 4 \<longleftrightarrow> ds_outbound (da_s d ! i)) \<and>
      (i < 4 \<longleftrightarrow> ds_state (da_s d ! i) \<in> {DHP_ST_OFFERING, DHP_ST_SENDING, DHP_ST_DRAINING}) \<and>
      (4 \<le> i \<longleftrightarrow> ds_state (da_s d ! i) \<in> {DHP_ST_OFFERED, DHP_ST_RECEIVING})) \<and>
    (\<forall>i j. 4 \<le> i \<and> i < j \<and> j < 8 \<and> ds_state (da_s d ! i) \<noteq> DHP_ST_FREE \<and> ds_state (da_s d ! j) \<noteq> DHP_ST_FREE \<longrightarrow>
      (ds_peer (da_s d ! i), ds_id (da_s d ! i)) \<noteq> (ds_peer (da_s d ! j), ds_id (da_s d ! j))) \<and>
    (\<forall>l f now. frame_bytes f ! 0 = OP_OFFER \<longrightarrow>
      take 4 (da_s (fst (dhp_data_rx d l f now))) = take 4 (da_s d))"
proof (intro conjI allI impI)
  have wf: "data_wf d" using streams.inv_reachable assms by blast
  then show len: "length (da_s d) = 8" by (simp add: data_wf_def DHP_DATA_MAX_STREAMS_def)
  fix i assume i: "i < 8" "ds_state (da_s d ! i) \<noteq> DHP_ST_FREE"
  with data_wfD(2) [OF wf, of i] len
  show "i < 4 \<longleftrightarrow> ds_outbound (da_s d ! i)"
    "i < 4 \<longleftrightarrow> ds_state (da_s d ! i) \<in> {DHP_ST_OFFERING, DHP_ST_SENDING, DHP_ST_DRAINING}"
    "4 \<le> i \<longleftrightarrow> ds_state (da_s d ! i) \<in> {DHP_ST_OFFERED, DHP_ST_RECEIVING}"
    by (auto simp: slot_ok_def stream_at_def DHP_DATA_MAX_STREAMS_def split: if_splits)
next
  have wf: "data_wf d" using streams.inv_reachable assms by blast
  fix i j
  assume "4 \<le> i \<and> i < j \<and> j < 8 \<and> ds_state (da_s d ! i) \<noteq> DHP_ST_FREE \<and> ds_state (da_s d ! j) \<noteq> DHP_ST_FREE"
  then show "(ds_peer (da_s d ! i), ds_id (da_s d ! i)) \<noteq> (ds_peer (da_s d ! j), ds_id (da_s d ! j))"
    using data_wfD(1) [OF wf] data_wfD(3) [OF wf, of i j] by (auto simp: same_transfer_def stream_at_def DHP_DATA_MAX_STREAMS_def)
next
  have wf: "data_wf d" using streams.inv_reachable assms by blast
  fix l f now assume "frame_bytes f ! 0 = OP_OFFER"
  moreover obtain d' l' evs where
    "data_rx_offer d l (fr_src f) (frame_bytes f ! 1) (drop 2 (frame_bytes f)) now = (d', l', evs)" by (metis prod_cases3)
  ultimately show "take 4 (da_s (fst (dhp_data_rx d l f now))) = take 4 (da_s d)"
    using rx_offer_outbound [OF wf] by (simp add: dhp_data_rx_def DHP_DATA_MAX_STREAMS_def)
qed

definition demo_offer_frame :: dhp_frame_t where
  "demo_offer_frame =
     (let b = [OP_OFFER, 5] @ [0] @ put32 61 @ put32 0 @ [0] in
     \<lparr>fr_type = msg_code DHP_MSG_DATA, fr_ttl = 9, fr_src = 3, fr_dst = 1, fr_seq = 0, fr_len = of_nat (length b),
      fr_payload = Some b, fr_body = [], fr_body_len = 0\<rparr>)"

definition demo_offered_rx :: dhp_data_t where
  "demo_offered_rx = fst (dhp_data_rx (dhp_data_init None) (dhp_link_init 1 True) demo_offer_frame 10)"

theorem data_table_invariant_witness:
  "ds_state (da_s demo_offered_rx ! 4) = DHP_ST_OFFERED \<and> \<not> ds_outbound (da_s demo_offered_rx ! 4) \<and>
   take 4 (da_s (fst (dhp_data_rx demo_offered_rx (dhp_link_init 1 True) demo_offer_frame 11))) = take 4 (da_s demo_offered_rx)"
proof -
  have len: "fr_len demo_offer_frame = 12" "frame_bytes demo_offer_frame = [OP_OFFER, 5] @ [0] @ put32 61 @ put32 0 @ [0]"
    by (simp_all add: demo_offer_frame_def frame_bytes_def)
  obtain d' l' evs where rx: "dhp_data_rx (dhp_data_init None) (dhp_link_init 1 True) demo_offer_frame 10 = (d', l', evs)"
    by (metis prod_cases3)
  then have reach: "data_step\<^sup>*\<^sup>* (dhp_data_init None) demo_offered_rx"
    by (auto simp: demo_offered_rx_def intro: data_step.intros)
  have at: "find_idx (\<lambda>s. ds_state s = DHP_ST_FREE) (take 4 (drop 4 (da_s (dhp_data_init None)))) = Some 0"
    "find_idx (\<lambda>s. ds_state s \<noteq> DHP_ST_FREE \<and> ds_id s = 5 \<and> ds_peer s = 3) (take 4 (drop 4 (da_s (dhp_data_init None)))) = None"
    by (simp_all add: dhp_data_init_def dhp_consts eval_nat_numeral)
  have off: "dhp_data_rx (dhp_data_init None) (dhp_link_init 1 True) demo_offer_frame 10 =
      data_rx_offer (dhp_data_init None) (dhp_link_init 1 True) 3 5 ([0] @ put32 61 @ put32 0 @ [0]) 10"
    by (simp add: dhp_data_rx_def len) (simp add: demo_offer_frame_def)
  have "length (put32 61 @ put32 0 @ [0 :: u8]) = 9" by simp
  then have st: "ds_state (da_s demo_offered_rx ! 4) = DHP_ST_OFFERED"
    unfolding demo_offered_rx_def off
    by (simp add: data_rx_offer_def slot_find_def slot_free_def slot_base_def at dhp_consts Let_def)
      (simp add: dhp_data_init_def set_stream_def dhp_consts)
  moreover have "\<not> ds_outbound (da_s demo_offered_rx ! 4)"
    using data_table_invariant [OF reach] st by (elim conjE allE [of _ 4]) simp
  moreover have "take 4 (da_s (fst (dhp_data_rx demo_offered_rx (dhp_link_init 1 True) demo_offer_frame 11))) = take 4 (da_s demo_offered_rx)"
    using data_table_invariant [OF reach] len by simp
  ultimately show ?thesis by blast
qed

end
