(* ===== verification/Dhp_Transfer.thy ===== *)
theory Dhp_Transfer
  imports Dhp_Data "HOL-Library.Sublist"
begin

text \<open>
  What the bulk transport of \<open>core/src/data.c\<close> delivers, over the model in \<open>Dhp_Data\<close>: the
  receiver hands on exactly the content under any loss, duplication and reordering of its
  chunks, and the sender's loop is the reference that sends a window of chunks.
\<close>

section \<open>Receiving a transfer\<close>

definition chunk_count :: "u8 list \<Rightarrow> nat" where
  "chunk_count src = (length src + 59) div 60"

definition chunk_at :: "u8 list \<Rightarrow> nat \<Rightarrow> u8 list" where
  "chunk_at src k = take 60 (drop (60 * k) src)"

text \<open>A frame carrying chunk \<open>k\<close> of \<open>src\<close>, as the peer's sender builds it.\<close>

definition honest_chunk :: "dhp_addr_t \<Rightarrow> u8 \<Rightarrow> u8 list \<Rightarrow> nat \<Rightarrow> dhp_frame_t \<Rightarrow> bool" where
  "honest_chunk peer sid src k f \<longleftrightarrow>
     k < chunk_count src \<and> fr_type f = msg_code DHP_MSG_DATA \<and> fr_src f = peer \<and> 2 \<le> fr_len f \<and>
     frame_bytes f = [OP_CHUNK, sid] @ put16 (of_nat k) @ chunk_at src k"

definition receiving :: "nat \<Rightarrow> dhp_addr_t \<Rightarrow> u8 \<Rightarrow> u8 list \<Rightarrow> nat \<Rightarrow> dhp_data_t \<Rightarrow> bool" where
  "receiving i peer sid src m d \<longleftrightarrow>
     data_wf d \<and> i < length (da_s d) \<and> ds_state (stream_at d i) = DHP_ST_RECEIVING \<and>
     ds_peer (stream_at d i) = peer \<and> ds_id (stream_at d i) = sid \<and>
     ds_total (stream_at d i) = of_nat (length src) \<and> ds_crc (stream_at d i) = content_crc src \<and>
     ds_next_seq (stream_at d i) = of_nat m \<and> ds_running (stream_at d i) = content_crc (take (60 * m) src) \<and>
     m < chunk_count src \<and> dh_on_chunk (da_hooks d) \<and> dh_on_received (da_hooks d)"

definition received :: "dhp_addr_t \<Rightarrow> u8 \<Rightarrow> dhp_data_t \<Rightarrow> bool" where
  "received peer sid d \<longleftrightarrow> data_wf d \<and> slot_find d peer sid False = None"

primrec rx_frames ::
  "(dhp_frame_t \<times> dhp_time_t) list \<Rightarrow> dhp_data_t \<times> dhp_link_t \<Rightarrow> (dhp_data_t \<times> dhp_link_t) \<times> data_event list" where
  "rx_frames [] st = (st, [])"
| "rx_frames (x # xs) st =
     (let (d1, l1, evs) = dhp_data_rx (fst st) (snd st) (fst x) (snd x); (st', evs') = rx_frames xs (d1, l1)
      in (st', evs @ evs'))"

text \<open>What the application was handed for stream \<open>i\<close>: the chunks, and the verdicts.\<close>

definition chunk_log :: "nat \<Rightarrow> data_event list \<Rightarrow> (u32 \<times> u8 list) list" where
  "chunk_log i evs = concat (map (\<lambda>e. case e of EvChunk j off dat \<Rightarrow> if j = i then [(off, dat)] else [] | _ \<Rightarrow> []) evs)"

definition verdict_log :: "nat \<Rightarrow> data_event list \<Rightarrow> u8 list" where
  "verdict_log i evs = concat (map (\<lambda>e. case e of EvReceived j r \<Rightarrow> if j = i then [r] else [] | _ \<Rightarrow> []) evs)"

lemma log_simps [simp]:
  "chunk_log i [] = []" "verdict_log i [] = []"
  "chunk_log i (xs @ ys) = chunk_log i xs @ chunk_log i ys" "verdict_log i (xs @ ys) = verdict_log i xs @ verdict_log i ys"
  "chunk_log i (EvChunk i off dat # ys) = (off, dat) # chunk_log i ys" "verdict_log i (EvChunk j off dat # ys) = verdict_log i ys"
  "chunk_log i (EvReceived j r # ys) = chunk_log i ys" "verdict_log i (EvReceived i r # ys) = r # verdict_log i ys"
  "chunk_log i (map EvTx tx) = []" "verdict_log i (map EvTx tx) = []"
  by (simp_all add: chunk_log_def verdict_log_def concat_eq_Nil_conv)

lemma send_op_logs:
  assumes "send_op l s oper extra now = (l1, s1, evs)"
  shows "s1 = s\<lparr>ds_last_tx := now\<rparr>" "chunk_log i evs = []" "verdict_log i evs = []"
  using assms by (auto simp: send_op_def Let_def split: prod.splits)

lemma finish_logs: "data_finish d i r = (d', evs) \<Longrightarrow> chunk_log i evs = []"
  by (auto simp: data_finish_def Let_def chunk_log_def split: if_splits)

lemma data_finish_received:
  "data_finish d i r = (d', evs) \<Longrightarrow> \<not> ds_outbound (stream_at d i) \<Longrightarrow> dh_on_received (da_hooks d) \<Longrightarrow> evs = [EvReceived i r]"
  by (auto simp: data_finish_def Let_def split: if_splits)

lemma unat_of_nat_small: "n < 2 ^ LENGTH('a) \<Longrightarrow> unat (of_nat n :: 'a::len word) = n"
  by (simp add: unsigned_of_nat take_bit_nat_eq_self)

lemma chunks_for_exact:
  assumes "n \<le> 3932100"
  shows "unat (chunks_for (of_nat n)) = (n + 59) div 60"
proof -
  have "(of_nat n + 60 - 1 :: u32) = of_nat (n + 59)" by (simp add: algebra_simps)
  moreover have "unat (of_nat (n + 59) :: u32) = n + 59" using assms by (intro unat_of_nat_small) simp
  ultimately have "unat ((of_nat n + 60 - 1 :: u32) div 60) = (n + 59) div 60" by (simp only: unat_div) simp
  moreover have "(n + 59) div 60 < 65536" using assms by simp
  ultimately show ?thesis by (simp add: chunks_for_def unsigned_ucast_eq take_bit_nat_eq_self)
qed

lemma chunk_count_bound: "length src \<le> 3932100 \<Longrightarrow> k < chunk_count src \<Longrightarrow> k < 65535 \<and> 60 * k < length src"
  by (auto simp: chunk_count_def)

lemma chunk_offset:
  assumes "length src \<le> 3932100" "k < chunk_count src"
  shows "unat (ucast (of_nat k :: u16) * 60 :: u32) = 60 * k" "(ucast (of_nat k :: u16) * 60 :: u32) = of_nat (60 * k)"
proof -
  note k = chunk_count_bound [OF assms]
  have "(ucast (of_nat k :: u16) :: u32) = of_nat k"
    using k by (subst word_unat_eq_iff) (simp add: unat_of_nat_small)
  then show e: "(ucast (of_nat k :: u16) * 60 :: u32) = of_nat (60 * k)" by simp
  show "unat (ucast (of_nat k :: u16) * 60 :: u32) = 60 * k"
    unfolding e using k assms(1) by (intro unat_of_nat_small) simp
qed

lemma chunk_fits:
  assumes "length src \<le> 3932100" "k < chunk_count src"
  shows "\<not> (of_nat (length src) :: u32) < ucast (of_nat k :: u16) * 60 + of_nat (length (chunk_at src k))"
proof -
  have "60 * k + length (chunk_at src k) \<le> length src"
    using chunk_count_bound [OF assms] by (simp add: chunk_at_def) linarith
  then have "unat (of_nat (60 * k + length (chunk_at src k)) :: u32) \<le> unat (of_nat (length src) :: u32)"
    using assms(1) unat_of_nat_small [of "length src", where 'a = 32]
      unat_of_nat_small [of "60 * k + length (chunk_at src k)", where 'a = 32] by (simp del: of_nat_add)
  then show ?thesis unfolding chunk_offset(2) [OF assms] by (simp add: word_less_nat_alt)
qed

lemma take_chunk: "take (60 * m) src @ chunk_at src m = take (60 * Suc m) src"
  by (simp add: chunk_at_def take_add [symmetric] add.commute)

lemma slot_find_receiving:
  assumes "data_wf d" "i < length (da_s d)" "ds_state (stream_at d i) = DHP_ST_RECEIVING"
  shows "slot_find d (ds_peer (stream_at d i)) (ds_id (stream_at d i)) False = Some i"
proof -
  have len: "length (da_s d) = 8" using data_wfD(1) [OF assms(1)] by (simp add: DHP_DATA_MAX_STREAMS_def)
  have i: "4 \<le> i" using data_wfD(2) [OF assms(1,2)] assms(3)
    by (auto simp: slot_ok_def DHP_DATA_MAX_STREAMS_def split: if_splits)
  let ?P = "\<lambda>s. ds_state s \<noteq> DHP_ST_FREE \<and> ds_id s = ds_id (stream_at d i) \<and> ds_peer s = ds_peer (stream_at d i)"
  have "find_idx ?P (take DHP_DATA_MAX_STREAMS (drop 4 (da_s d))) = Some (i - 4)"
  proof (rule find_idx_SomeI)
    show "i - 4 < length (take DHP_DATA_MAX_STREAMS (drop 4 (da_s d)))" using assms(2) i len by (simp add: DHP_DATA_MAX_STREAMS_def)
    show "?P (take DHP_DATA_MAX_STREAMS (drop 4 (da_s d)) ! (i - 4))"
      using assms(2,3) i len by (simp add: DHP_DATA_MAX_STREAMS_def stream_at_def)
    show "\<not> ?P (take DHP_DATA_MAX_STREAMS (drop 4 (da_s d)) ! j)" if j: "j < i - 4" for j
      using j assms(2,3) i len data_wfD(3) [OF assms(1), of i "4 + j"] less_diff_conv [of j i 4]
      by (auto simp: DHP_DATA_MAX_STREAMS_def stream_at_def same_transfer_def)
  qed
  then show ?thesis using i by (simp add: slot_find_def slot_base_def DHP_DATA_MAX_STREAMS_def)
qed

text \<open>The branch of \<open>rx_chunk\<close> that takes the expected chunk.\<close>

definition chunk_taken :: "dhp_data_stream_t \<Rightarrow> u8 list \<Rightarrow> dhp_time_t \<Rightarrow> dhp_data_stream_t" where
  "chunk_taken s dat now =
     s\<lparr>ds_last_rx := now, ds_running := adler32_update (ds_running s) dat, ds_next_seq := ds_next_seq s + 1,
       ds_acked := ds_next_seq s + 1\<rparr>"

lemma rx_chunk_next:
  assumes "2 \<le> length p" "ds_state (stream_at d i) = DHP_ST_RECEIVING" "get16 p = ds_next_seq (stream_at d i)"
    and "\<not> ds_total (stream_at d i) < ucast (get16 p) * 60 + of_nat (length (drop 2 p))"
    and on: "dh_on_chunk (da_hooks d)" and rx: "rx_chunk d l i p now = (d', l', evs)"
  obtains evs' where "evs = EvChunk i (ucast (get16 p) * 60) (drop 2 p) # evs'" "chunk_log i evs' = []"
    "\<not> chunks_for (ds_total (stream_at d i)) \<le> ds_next_seq (stream_at d i) + 1 \<Longrightarrow>
       verdict_log i evs' = [] \<and> (\<exists>t. d' = set_stream i ((chunk_taken (stream_at d i) (drop 2 p) now)\<lparr>ds_last_tx := t\<rparr>) d)"
    "chunks_for (ds_total (stream_at d i)) \<le> ds_next_seq (stream_at d i) + 1 \<Longrightarrow> \<not> ds_outbound (stream_at d i) \<Longrightarrow>
       i < length (da_s d) \<Longrightarrow> dh_on_received (da_hooks d) \<Longrightarrow>
       da_s d' = da_s (set_stream i stream_zero d) \<and> verdict_log i evs' =
         [if adler32_update (ds_running (stream_at d i)) (drop 2 p) = ds_crc (stream_at d i) then DHP_DATA_OK else DHP_DATA_CORRUPT]"
proof -
  define s1 where "s1 = chunk_taken (stream_at d i) (drop 2 p) now"
  have f: "ds_total s1 = ds_total (stream_at d i)" "ds_next_seq s1 = ds_next_seq (stream_at d i) + 1"
    "ds_running s1 = adler32_update (ds_running (stream_at d i)) (drop 2 p)" "ds_crc s1 = ds_crc (stream_at d i)"
    "ds_outbound s1 = ds_outbound (stream_at d i)"
    by (simp_all add: s1_def chunk_taken_def)
  let ?evc = "EvChunk i (ucast (get16 p) * 60) (drop 2 p)"
  let ?v = "if ds_running s1 = ds_crc s1 then DHP_DATA_OK else DHP_DATA_CORRUPT"
  consider (fin) l1 s2 evs1 evs2 where "chunks_for (ds_total s1) \<le> ds_next_seq s1" "send_op l s1 OP_DONE [?v] now = (l1, s2, evs1)"
      "data_finish (set_stream i s2 d) i ?v = (d', evs2)" "evs = ?evc # evs1 @ evs2"
    | (ack) l1 s2 evs1 where "\<not> chunks_for (ds_total s1) \<le> ds_next_seq s1" "send_ack l s1 now = (l1, s2, evs1)"
        "d' = set_stream i s2 d" "evs = ?evc # evs1"
    | (plain) "\<not> chunks_for (ds_total s1) \<le> ds_next_seq s1" "d' = set_stream i s1 d" "evs = [?evc]"
    using rx assms(1-4) on unfolding rx_chunk_def s1_def chunk_taken_def Let_def
    by (simp split: prod.splits if_splits)
  then show thesis
  proof cases
    case fin
    note s = send_op_logs [OF fin(2)]
    show thesis
    proof (rule that [of "evs1 @ evs2"])
      show "chunk_log i (evs1 @ evs2) = []" using s(2) finish_logs [OF fin(3)] by simp
      show "da_s d' = da_s (set_stream i stream_zero d) \<and> verdict_log i (evs1 @ evs2) =
         [if adler32_update (ds_running (stream_at d i)) (drop 2 p) = ds_crc (stream_at d i) then DHP_DATA_OK else DHP_DATA_CORRUPT]"
        if "\<not> ds_outbound (stream_at d i)" "i < length (da_s d)" "dh_on_received (da_hooks d)"
        using data_finish_received [OF fin(3)] data_finish_table [OF fin(3)] that s f by (simp add: stream_at_set)
    qed (use fin f in simp_all)
  next
    case ack
    note s = send_op_logs [OF ack(2) [unfolded send_ack_def]]
    show thesis
      by (rule that [of evs1]) (use ack s f in \<open>auto simp: s1_def\<close>)
  next
    case plain
    have "\<exists>t. d' = set_stream i (s1\<lparr>ds_last_tx := t\<rparr>) d" using plain(2) by (intro exI [of _ "ds_last_tx s1"]) simp
    then show thesis
      by (intro that [of "[]"]) (use plain f in \<open>simp_all add: s1_def\<close>)
  qed
qed

lemma receivingD:
  assumes "receiving i peer sid src m d"
  shows "data_wf d" "i < length (da_s d)" "ds_state (stream_at d i) = DHP_ST_RECEIVING" "ds_peer (stream_at d i) = peer"
    "ds_id (stream_at d i) = sid" "ds_total (stream_at d i) = of_nat (length src)" "ds_crc (stream_at d i) = content_crc src"
    "ds_next_seq (stream_at d i) = of_nat m" "ds_running (stream_at d i) = content_crc (take (60 * m) src)"
    "m < chunk_count src" "dh_on_chunk (da_hooks d)" "dh_on_received (da_hooks d)" "\<not> ds_outbound (stream_at d i)"
proof -
  show w: "data_wf d" "i < length (da_s d)" "ds_state (stream_at d i) = DHP_ST_RECEIVING"
    using assms by (simp_all add: receiving_def)
  show "\<not> ds_outbound (stream_at d i)" using data_wfD(2) [OF w(1,2)] w(3) by (auto simp: slot_ok_def split: if_splits)
qed (use assms in \<open>simp_all add: receiving_def\<close>)

lemma receiving_touch:
  assumes "receiving i peer sid src m d" "ds_state s = ds_state (stream_at d i)" "ds_outbound s = ds_outbound (stream_at d i)"
    "ds_peer s = ds_peer (stream_at d i)" "ds_id s = ds_id (stream_at d i)" "ds_total s = ds_total (stream_at d i)"
    "ds_crc s = ds_crc (stream_at d i)" "ds_next_seq s = of_nat m'" "ds_running s = content_crc (take (60 * m') src)" "m' < chunk_count src"
  shows "receiving i peer sid src m' (set_stream i s d)"
proof -
  note R = receivingD [OF assms(1)]
  have "data_wf (set_stream i s d)" using R assms by (intro data_wf_same) simp_all
  then show ?thesis using R assms by (simp add: receiving_def stream_at_set)
qed

lemma received_clear:
  assumes "receiving i peer sid src m d" "da_s d' = da_s (set_stream i stream_zero d)"
  shows "received peer sid d'"
proof -
  note R = receivingD [OF assms(1)]
  have "data_wf d'" using data_wf_cong [OF assms(2)] data_wf_clear [OF R(1)] by simp
  moreover have "slot_find d' peer sid False = None"
  proof (rule ccontr)
    assume "slot_find d' peer sid False \<noteq> None"
    then obtain j where j: "slot_find d' peer sid False = Some j" by blast
    note J = slot_find_Some [OF j \<open>data_wf d'\<close>]
    have at: "stream_at d' j = stream_at (set_stream i stream_zero d) j" using assms(2) by (simp add: stream_at_def)
    then have "j \<noteq> i" using J R(2) by (auto simp: stream_at_set)
    moreover from this have "stream_at d' j = stream_at d j" using at by (simp add: stream_at_set)
    moreover have "j < length (da_s d)" using J(1) assms(2) by simp
    moreover have "\<not> i < DHP_DATA_MAX_STREAMS" using data_wfD(2) [OF R(1,2)] R(3) by (auto simp: slot_ok_def split: if_splits)
    ultimately show False using data_wfD(3) [OF R(1), of i j] J R by (simp add: same_transfer_def not_less)
  qed
  ultimately show ?thesis by (simp add: received_def)
qed

lemma rx_chunk_expected:
  assumes len: "length src \<le> 3932100" and r: "receiving i peer sid src m d"
    and rx: "rx_chunk d l i (put16 (of_nat m) @ chunk_at src m) now = (d', l', evs)"
  shows "chunk_log i evs = [(of_nat (60 * m), chunk_at src m)] \<and>
    (if Suc m < chunk_count src then receiving i peer sid src (Suc m) d' \<and> verdict_log i evs = []
     else received peer sid d' \<and> verdict_log i evs = [DHP_DATA_OK])"
proof -
  note R = receivingD [OF r]
  let ?p = "put16 (of_nat m) @ chunk_at src m"
  have next1: "(of_nat m + 1 :: u16) = of_nat (Suc m)" by simp
  have full: "chunks_for (of_nat (length src)) \<le> (of_nat (Suc m) :: u16) \<longleftrightarrow> \<not> Suc m < chunk_count src"
    using chunk_count_bound [OF len R(10)] R(10) len
    by (simp add: word_le_nat_alt unat_of_nat_small chunks_for_exact chunk_count_def del: of_nat_Suc) linarith
  have run: "adler32_update (content_crc (take (60 * m) src)) (chunk_at src m) = content_crc (take (60 * Suc m) src)"
    unfolding take_chunk [symmetric] content_crc_append ..
  have p: "2 \<le> length ?p" "get16 ?p = ds_next_seq (stream_at d i)"
    "\<not> ds_total (stream_at d i) < ucast (get16 ?p) * 60 + of_nat (length (drop 2 ?p))"
    using R chunk_fits [OF len R(10)] by simp_all
  have d2: "drop 2 ?p = chunk_at src m" by simp
  have g: "get16 ?p = of_nat m" by simp
  obtain evs' where E: "evs = EvChunk i (of_nat (60 * m)) (chunk_at src m) # evs'" "chunk_log i evs' = []"
    "Suc m < chunk_count src \<Longrightarrow> verdict_log i evs' = [] \<and>
       (\<exists>t. d' = set_stream i ((chunk_taken (stream_at d i) (chunk_at src m) now)\<lparr>ds_last_tx := t\<rparr>) d)"
    "\<not> Suc m < chunk_count src \<Longrightarrow> da_s d' = da_s (set_stream i stream_zero d) \<and> verdict_log i evs' =
         [if content_crc (take (60 * Suc m) src) = content_crc src then DHP_DATA_OK else DHP_DATA_CORRUPT]"
    using rx_chunk_next [OF p(1) R(3) p(2) p(3) R(11) rx]
    unfolding d2 g R(6-9) next1 full run chunk_offset(2) [OF len R(10)] using R(2,12,13) by blast
  show ?thesis
  proof (cases "Suc m < chunk_count src")
    case True
    with E(3) obtain t where d': "d' = set_stream i ((chunk_taken (stream_at d i) (chunk_at src m) now)\<lparr>ds_last_tx := t\<rparr>) d"
      by blast
    have "receiving i peer sid src (Suc m) d'"
      unfolding d' using R True by (intro receiving_touch [OF r]) (simp_all add: chunk_taken_def run [simplified])
    with True E show ?thesis by simp
  next
    case False
    then have "take (60 * Suc m) src = src" by (intro take_all) (simp add: chunk_count_def)
    with E False received_clear [OF r] show ?thesis by (simp del: mult_Suc_right)
  qed
qed

lemma rx_chunk_unexpected:
  assumes len: "length src \<le> 3932100" and r: "receiving i peer sid src m d" and k: "k < chunk_count src" "k \<noteq> m"
    and rx: "rx_chunk d l i (put16 (of_nat k) @ chunk_at src k) now = (d', l', evs)"
  shows "receiving i peer sid src m d' \<and> chunk_log i evs = [] \<and> verdict_log i evs = []"
proof -
  note R = receivingD [OF r]
  let ?s = "(stream_at d i)\<lparr>ds_last_rx := now\<rparr>"
  have "(of_nat k :: u16) \<noteq> of_nat m"
    using k(2) chunk_count_bound [OF len k(1)] chunk_count_bound [OF len R(10)] by (simp add: word_unat_eq_iff unat_of_nat_small)
  then consider l1 s1 where "send_ack l ?s now = (l1, s1, evs)" "d' = set_stream i s1 d" | "d' = set_stream i ?s d" "evs = []"
    using rx R by (auto simp: rx_chunk_def Let_def split: if_splits prod.splits)
  then show ?thesis
  proof cases
    case 1
    note s = send_op_logs [OF 1(1) [unfolded send_ack_def]]
    have "receiving i peer sid src m d'" unfolding 1(2) s(1) by (rule receiving_touch [OF r]) (use R in simp_all)
    with s show ?thesis by simp
  next
    case 2
    have "receiving i peer sid src m d'" unfolding 2(1) by (rule receiving_touch [OF r]) (use R in simp_all)
    with 2 show ?thesis by simp
  qed
qed

text \<open>What the chunk the stream waits for becomes, frame by frame.\<close>

definition expect :: "nat \<Rightarrow> nat \<Rightarrow> nat" where
  "expect k m = (if k = m then Suc m else m)"

definition rx_state :: "nat \<Rightarrow> dhp_addr_t \<Rightarrow> u8 \<Rightarrow> u8 list \<Rightarrow> nat \<Rightarrow> dhp_data_t \<Rightarrow> bool" where
  "rx_state i peer sid src m d \<longleftrightarrow> (if m < chunk_count src then receiving i peer sid src m d else received peer sid d)"

lemma honest_rx:
  assumes "honest_chunk peer sid src k f"
  shows "dhp_data_rx d l f now =
    (case rx_slot d peer sid OP_CHUNK of None \<Rightarrow> (d, l, [])
     | Some i \<Rightarrow> rx_chunk (set_stream i ((stream_at d i)\<lparr>ds_last_rx := now, ds_retries := 0\<rparr>) d) l i
                   (put16 (of_nat k) @ chunk_at src k) now)"
  using assms
  by (auto simp: honest_chunk_def dhp_data_rx_def rx_dispatch_def Let_def OP_OFFER_def OP_CHUNK_def OP_ACCEPT_def OP_REJECT_def
        not_less split: option.splits)

lemma rx_honest_receiving:
  assumes len: "length src \<le> 3932100" and r: "receiving i peer sid src m d" and h: "honest_chunk peer sid src k f"
    and rx: "dhp_data_rx d l f now = (d', l', evs)"
  shows "rx_state i peer sid src (expect k m) d' \<and>
    chunk_log i evs = (if k = m then [(of_nat (60 * m), chunk_at src m)] else []) \<and>
    verdict_log i evs = (if k = m \<and> Suc m = chunk_count src then [DHP_DATA_OK] else [])"
proof -
  note R = receivingD [OF r]
  let ?d = "set_stream i ((stream_at d i)\<lparr>ds_last_rx := now, ds_retries := 0\<rparr>) d"
  have "rx_slot d peer sid OP_CHUNK = Some i"
    using slot_find_receiving [OF R(1-3)] R(4,5) by (simp add: rx_slot_def OP_CHUNK_def OP_ACCEPT_def OP_ACK_def OP_DONE_def)
  then have rx': "rx_chunk ?d l i (put16 (of_nat k) @ chunk_at src k) now = (d', l', evs)" using rx honest_rx [OF h] by simp
  have r': "receiving i peer sid src m ?d" by (rule receiving_touch [OF r]) (use R in simp_all)
  show ?thesis
  proof (cases "k = m")
    case True
    with rx_chunk_expected [OF len r'] rx' R(10) show ?thesis by (auto simp: rx_state_def expect_def split: if_splits)
  next
    case False
    with rx_chunk_unexpected [OF len r' _ False rx'] h R(10) show ?thesis by (simp add: rx_state_def expect_def honest_chunk_def)
  qed
qed

lemma rx_honest_received:
  assumes r: "received peer sid d" and h: "honest_chunk peer sid src k f" and rx: "dhp_data_rx d l f now = (d', l', evs)"
  shows "received peer sid d' \<and> evs = []"
proof (cases "rx_slot d peer sid OP_CHUNK")
  case None
  then show ?thesis using r rx honest_rx [OF h] by simp
next
  case (Some j)
  have wf: "data_wf d" and none: "slot_find d peer sid False = None" using r by (simp_all add: received_def)
  then have j: "slot_find d peer sid True = Some j"
    using Some by (simp add: rx_slot_def OP_CHUNK_def OP_ACCEPT_def OP_ACK_def OP_DONE_def)
  note J = slot_find_Some [OF j wf]
  have "ds_state (stream_at d j) \<noteq> DHP_ST_RECEIVING" using data_wfD(2) [OF wf J(1)] J(5) by (auto simp: slot_ok_def)
  then have d': "d' = set_stream j ((stream_at d j)\<lparr>ds_last_rx := now, ds_retries := 0\<rparr>) d" "evs = []"
    using rx honest_rx [OF h] Some J(1) by (simp_all add: rx_chunk_def stream_at_set)
  have "data_wf d'" unfolding d'(1) using wf J by (intro data_wf_same) simp_all
  moreover have "slot_find d' peer sid False = None"
    using none J(5) by (simp add: slot_find_def d'(1) set_stream_def slot_base_def)
  ultimately show ?thesis using d'(2) by (simp add: received_def)
qed

lemma rx_frames_honest:
  assumes len: "length src \<le> 3932100"
  shows "rx_state i peer sid src m d \<Longrightarrow> \<forall>(k, f, now) \<in> set fs. honest_chunk peer sid src k f \<Longrightarrow> m \<le> chunk_count src \<Longrightarrow>
    rx_frames (map snd fs) (d, l) = ((d', l'), evs) \<Longrightarrow> m' = fold expect (map fst fs) m \<Longrightarrow>
    m \<le> m' \<and> m' \<le> chunk_count src \<and> rx_state i peer sid src m' d' \<and>
    chunk_log i evs = map (\<lambda>k. (of_nat (60 * k), chunk_at src k)) [m..<m'] \<and>
    verdict_log i evs = (if m < chunk_count src \<and> m' = chunk_count src then [DHP_DATA_OK] else [])"
proof (induction fs arbitrary: m d l evs)
  case Nil
  then show ?case by simp
next
  case (Cons x fs)
  obtain k f now where x: "x = (k, f, now)" by (metis prod_cases3)
  obtain d1 l1 evs1 where rx1: "dhp_data_rx d l f now = (d1, l1, evs1)" by (metis prod_cases3)
  obtain d2 l2 evs2 where rx2: "rx_frames (map snd fs) (d1, l1) = ((d2, l2), evs2)" by (metis surj_pair)
  have eq: "d' = d2" "l' = l2" "evs = evs1 @ evs2" using Cons.prems(4) rx1 rx2 by (simp_all add: x)
  have h: "honest_chunk peer sid src k f" "k < chunk_count src" using Cons.prems(2) by (auto simp: x honest_chunk_def)
  have one: "rx_state i peer sid src (expect k m) d1 \<and>
    chunk_log i evs1 = (if k = m then [(of_nat (60 * m), chunk_at src m)] else []) \<and>
    verdict_log i evs1 = (if k = m \<and> Suc m = chunk_count src then [DHP_DATA_OK] else [])"
  proof (cases "m < chunk_count src")
    case True
    then show ?thesis using rx_honest_receiving [OF len _ h(1) rx1] Cons.prems(1) by (simp add: rx_state_def)
  next
    case False
    then show ?thesis using rx_honest_received [OF _ h(1) rx1] Cons.prems(1,3) h(2) by (simp add: rx_state_def expect_def)
  qed
  have "expect k m \<le> chunk_count src" using Cons.prems(3) h(2) by (simp add: expect_def)
  moreover have "m' = fold expect (map fst fs) (expect k m)" using Cons.prems(5) by (simp add: x)
  ultimately have IH: "expect k m \<le> m' \<and> m' \<le> chunk_count src \<and> rx_state i peer sid src m' d' \<and>
    chunk_log i evs2 = map (\<lambda>k. (of_nat (60 * k), chunk_at src k)) [expect k m..<m'] \<and>
    verdict_log i evs2 = (if expect k m < chunk_count src \<and> m' = chunk_count src then [DHP_DATA_OK] else [])"
    using Cons.IH [of "expect k m" d1 l1 evs2] one rx2 Cons.prems(2) eq by simp
  then show ?case using one eq h(2) by (cases "k = m") (auto simp: expect_def upt_conv_Cons)
qed

lemma expect_complete:
  "subseq [m..<n] ks \<Longrightarrow> \<forall>k \<in> set ks. k < n \<Longrightarrow> m \<le> n \<Longrightarrow> fold expect ks m = n"
proof (induction ks arbitrary: m)
  case Nil
  then have "[m..<n] = []" by (cases "[m..<n]") auto
  with Nil show ?case by (auto simp: upt_eq_Nil_conv)
next
  case (Cons k ks)
  show ?case
  proof (cases "k = m")
    case True
    then have "subseq [Suc m..<n] ks" "m < n" using Cons.prems by (auto simp: upt_conv_Cons)
    with Cons.IH [of "Suc m"] Cons.prems True show ?thesis by (simp add: expect_def Suc_le_eq)
  next
    case False
    have "subseq [m..<n] ks" using Cons.prems(1) False
      by (cases "m < n") (auto simp: upt_conv_Cons elim: list_emb.cases)
    with Cons.IH [of m] Cons.prems False show ?thesis by (simp add: expect_def)
  qed
qed

lemma concat_chunks: "concat (map (chunk_at src) [0..<m]) = take (60 * m) src"
  by (induction m) (simp_all add: take_chunk [symmetric] del: mult_Suc_right)

text \<open>
  C9. Go-back-N delivers exactly the content. Let an accepted transfer of up to 3932100
  bytes receive any sequence of its sender's chunk frames, reordered, duplicated or with
  losses, at any times. Then the application is handed chunk 0, 1, 2 and so on, each once and
  at its offset, so that what it holds is a prefix of the content; the stream finishes exactly
  when that prefix is everything, with the verdict \<open>DHP_DATA_OK\<close> given once; and it does finish
  as soon as the chunks have arrived in order, whatever came between them.
\<close>

theorem bulk_receive_exact:
  assumes "length src \<le> 3932100" "receiving i peer sid src 0 d"
    and "\<forall>(k, f, now) \<in> set fs. honest_chunk peer sid src k f"
    and "rx_frames (map snd fs) (d, l) = ((d', l'), evs)"
  shows "\<exists>m \<le> chunk_count src.
    chunk_log i evs = map (\<lambda>k. (of_nat (60 * k), chunk_at src k)) [0..<m] \<and>
    concat (map snd (chunk_log i evs)) = take (60 * m) src \<and>
    (if concat (map snd (chunk_log i evs)) = src
     then verdict_log i evs = [DHP_DATA_OK] \<and> slot_find d' peer sid False = None
     else verdict_log i evs = [] \<and> receiving i peer sid src m d') \<and>
    (subseq [0..<chunk_count src] (map fst fs) \<longrightarrow> concat (map snd (chunk_log i evs)) = src)"
proof -
  define m where "m = fold expect (map fst fs) 0"
  have pos: "0 < chunk_count src" using receivingD(10) [OF assms(2)] .
  have all: "m \<le> chunk_count src" "rx_state i peer sid src m d'"
    "chunk_log i evs = map (\<lambda>k. (of_nat (60 * k), chunk_at src k)) [0..<m]"
    "verdict_log i evs = (if m = chunk_count src then [DHP_DATA_OK] else [])"
    using rx_frames_honest [OF assms(1) _ assms(3) _ assms(4) m_def] assms(2) pos by (simp_all add: rx_state_def)
  have pre: "concat (map snd (chunk_log i evs)) = take (60 * m) src"
    unfolding all(3) by (simp add: concat_chunks comp_def)
  have whole: "take (60 * m) src = src \<longleftrightarrow> m = chunk_count src"
    using all(1) chunk_count_bound [OF assms(1), of m] by (auto simp: chunk_count_def)
  have "m = chunk_count src" if "subseq [0..<chunk_count src] (map fst fs)"
    unfolding m_def by (rule expect_complete [OF that]) (use assms(3) in \<open>auto simp: honest_chunk_def\<close>)
  with all pre whole show ?thesis by (intro exI [of _ m]) (auto simp: rx_state_def received_def)
qed

definition demo_src :: "u8 list" where
  "demo_src = replicate 60 7 @ [9]"

definition demo_rx :: dhp_data_t where
  "demo_rx = set_stream 4 (stream_zero\<lparr>ds_state := DHP_ST_RECEIVING, ds_peer := 3, ds_id := 5, ds_total := 61,
       ds_crc := content_crc demo_src, ds_running := ADLER_INIT, ds_window := 8\<rparr>)
     (dhp_data_init (Some \<lparr>dh_on_offer = True, dh_on_chunk = True, dh_on_received = True, dh_on_sent = True\<rparr>))"

definition demo_chunk :: "nat \<Rightarrow> dhp_frame_t" where
  "demo_chunk k = (let b = [OP_CHUNK, 5] @ put16 (of_nat k) @ chunk_at demo_src k in
     \<lparr>fr_type = msg_code DHP_MSG_DATA, fr_ttl = 9, fr_src = 3, fr_dst = 1, fr_seq = 0, fr_len = of_nat (length b),
      fr_payload = Some b, fr_body = [], fr_body_len = 0\<rparr>)"

lemma demo_src_count: "chunk_count demo_src = 2"
  by (simp add: chunk_count_def demo_src_def)

lemma demo_receiving: "receiving 4 3 5 demo_src 0 demo_rx"
proof -
  have "data_wf demo_rx"
    unfolding demo_rx_def by (rule data_wf_new [OF data_init_wf]) (simp_all add: slot_ok_def DHP_DATA_MAX_STREAMS_def
        stream_zero_def slot_find_def dhp_data_init_def slot_base_def find_idx_None_iff)
  moreover have "length (da_s demo_rx) = 8" by (simp add: demo_rx_def dhp_data_init_def DHP_DATA_MAX_STREAMS_def)
  ultimately show ?thesis
    by (simp add: receiving_def demo_src_count)
      (simp add: demo_rx_def stream_at_set dhp_data_init_def DHP_DATA_MAX_STREAMS_def stream_zero_def demo_src_def
        content_crc_def adler32_update_def ADLER_INIT_def)
qed

lemma demo_chunk_honest: "k < 2 \<Longrightarrow> honest_chunk 3 5 demo_src k (demo_chunk k)"
  by (auto simp: honest_chunk_def demo_chunk_def chunk_count_def frame_bytes_def Let_def chunk_at_def demo_src_def
      less_2_cases_iff)

theorem bulk_receive_exact_witness:
  "subseq [0..<2] [1, 0, 0, 1 :: nat] \<and>
   concat (map snd (chunk_log 4 (snd (rx_frames
     [(demo_chunk 1, 10), (demo_chunk 0, 40), (demo_chunk 0, 41), (demo_chunk 1, 42)] (demo_rx, dhp_link_init 1 True))))) = demo_src"
proof -
  let ?fs = "[(1, demo_chunk 1, 10), (0, demo_chunk 0, 40), (0, demo_chunk 0, 41), (1, demo_chunk 1, 42)] :: (nat \<times> dhp_frame_t \<times> dhp_time_t) list"
  obtain d' l' evs where e: "rx_frames (map snd ?fs) (demo_rx, dhp_link_init 1 True) = ((d', l'), evs)" by (metis surj_pair)
  have sub: "subseq [0..<2] (map fst ?fs)" by (simp add: upt_rec)
  have "length demo_src \<le> 3932100" by (simp add: demo_src_def)
  moreover have "\<forall>(k, f, now) \<in> set ?fs. honest_chunk 3 5 demo_src k f" by (simp add: demo_chunk_honest)
  ultimately have "concat (map snd (chunk_log 4 evs)) = demo_src"
    using bulk_receive_exact [OF _ demo_receiving _ e] sub demo_src_count by auto
  with e sub show ?thesis by simp
qed

section \<open>Sending a transfer\<close>

text \<open>The reference for the sender: chunks \<open>ks\<close> of \<open>src\<close>, one frame each, in that order.\<close>

primrec send_list ::
  "u8 list \<Rightarrow> dhp_time_t \<Rightarrow> nat list \<Rightarrow> dhp_link_t \<Rightarrow> dhp_data_stream_t \<Rightarrow> dhp_link_t \<times> dhp_data_stream_t \<times> data_event list" where
  "send_list src now [] l s = (l, s, [])"
| "send_list src now (k # ks) l s =
     (let (l1, s1, evs) = send_op l s OP_CHUNK (put16 (of_nat k) @ chunk_at src k) now;
          (l2, s2, evs') = send_list src now ks l1 (s1\<lparr>ds_next_seq := of_nat (Suc k)\<rparr>)
      in (l2, s2, evs @ evs'))"

definition sending :: "u8 list \<Rightarrow> dhp_data_stream_t \<Rightarrow> bool" where
  "sending src s \<longleftrightarrow> ds_src s = src \<and> ds_total s = of_nat (length src) \<and> length src \<le> 3932100 \<and> ds_acked s \<le> ds_next_seq s"

lemma chunk_extra_honest:
  assumes "sending src s" "unat (ds_next_seq s) < chunk_count src"
  shows "chunk_extra s = put16 (ds_next_seq s) @ chunk_at src (unat (ds_next_seq s))"
proof -
  define k where "k = unat (ds_next_seq s)"
  have b: "60 * k < length src" "length src \<le> 3932100"
    using chunk_count_bound [of src k] assms by (simp_all add: k_def sending_def)
  have "unat (of_nat (length src) - of_nat (k * 60) :: u32) = length src - k * 60"
  proof -
    have "unat (of_nat (length src) :: u32) = length src" "unat (of_nat (k * 60) :: u32) = k * 60"
      using b unat_of_nat_small [of "length src", where 'a = 32] unat_of_nat_small [of "k * 60", where 'a = 32] by simp_all
    then show ?thesis using b by (simp add: unat_sub word_le_nat_alt del: of_nat_mult)
  qed
  then show ?thesis
    using assms(1) by (simp add: chunk_extra_def Let_def sending_def DHP_DATA_CHUNK_BYTES_def DHP_MAX_PAYLOAD_def
        chunk_at_def mult.commute flip: k_def del: of_nat_mult)
qed

lemma pump_loop_reference:
  assumes "sending src s"
  shows "pump_loop l s (chunks_for (ds_total s)) now =
    send_list src now [unat (ds_next_seq s)..<min (chunk_count src) (unat (ds_acked s) + unat (ds_window s))] l s"
  using assms
proof (induction "chunk_count src - unat (ds_next_seq s)" arbitrary: l s rule: less_induct)
  case less
  note S = less.prems [unfolded sending_def]
  let ?k = "unat (ds_next_seq s)" and ?n = "min (chunk_count src) (unat (ds_acked s) + unat (ds_window s))"
  have tc: "unat (chunks_for (ds_total s)) = chunk_count src"
    using S by (simp add: chunks_for_exact chunk_count_def)
  have cond: "ds_next_seq s < chunks_for (ds_total s) \<and> unat (ds_next_seq s - ds_acked s) < unat (ds_window s) \<longleftrightarrow> ?k < ?n"
    using S tc by (auto simp: word_less_nat_alt word_le_nat_alt unat_sub)
  show ?case
  proof (cases "?k < ?n")
    case False
    with cond show ?thesis by (subst pump_loop.simps) auto
  next
    case True
    then have k: "?k < chunk_count src" by simp
    have nx: "ds_next_seq s + 1 = of_nat (Suc ?k)" by simp
    have un: "unat (ds_next_seq s + 1) = Suc ?k"
      unfolding nx using chunk_count_bound [of src ?k] k S by (intro unat_of_nat_small) simp
    obtain l1 s1 evs where o: "send_op l s OP_CHUNK (chunk_extra s) now = (l1, s1, evs)" by (metis prod_cases3)
    note s1 = send_op_next_seq [OF o]
    let ?s = "s1\<lparr>ds_next_seq := ds_next_seq s1 + 1\<rparr>"
    have "sending src ?s" using S un by (simp add: sending_def s1 word_le_nat_alt)
    then have IH: "pump_loop l1 ?s (chunks_for (ds_total s)) now = send_list src now [Suc ?k..<?n] l1 ?s"
      using less.hyps [of ?s l1] k un by (simp add: s1)
    have "[?k..<?n] = ?k # [Suc ?k..<?n]" using True by (simp add: upt_conv_Cons)
    then show ?thesis
      using True cond o IH chunk_extra_honest [OF less.prems k] nx
      by (subst pump_loop.simps) (simp add: s1 del: of_nat_Suc)
  qed
qed

lemma send_list_next:
  "send_list src now ks l s = (l', s', evs) \<Longrightarrow>
   s' = s\<lparr>ds_next_seq := (if ks = [] then ds_next_seq s else of_nat (Suc (last ks))), ds_last_tx := (if ks = [] then ds_last_tx s else now)\<rparr>"
proof (induction ks arbitrary: l s l' s' evs)
  case (Cons k ks)
  obtain l1 s1 e1 where o: "send_op l s OP_CHUNK (put16 (of_nat k) @ chunk_at src k) now = (l1, s1, e1)" by (metis prod_cases3)
  obtain l2 s2 e2 where p: "send_list src now ks l1 (s1\<lparr>ds_next_seq := of_nat (Suc k)\<rparr>) = (l2, s2, e2)" by (metis prod_cases3)
  have "s' = s2" using Cons.prems by (simp add: o p del: of_nat_Suc)
  with Cons.IH [OF p] send_op_next_seq [OF o] show ?case by (cases "ks = []") (simp_all del: of_nat_Suc)
qed simp

text \<open>
  C34. The sender fills the window with the right bytes. For content of up to 3932100 bytes the
  loop of \<open>pump_sender\<close> ends, and what it does is send the chunks from the next unsent one up to
  the window's end or the content's end, in order, each frame carrying its number and exactly
  its slice of the caller's buffer; it never has more than a window of chunks unacknowledged,
  and moves to the draining state exactly when the last chunk has been sent.
\<close>

theorem pump_fills_window:
  assumes "sending src s" "ds_state s = DHP_ST_SENDING" "unat (ds_next_seq s) \<le> chunk_count src"
    and "ks = [unat (ds_next_seq s)..<min (chunk_count src) (unat (ds_acked s) + unat (ds_window s))]"
    and "pump_sender l s now = (l', s', evs)"
  shows "(\<exists>s1. send_list src now ks l s = (l', s1, evs) \<and> s' = s1\<lparr>ds_state := ds_state s'\<rparr>) \<and>
    length ks \<le> unat (ds_window s) \<and>
    unat (ds_next_seq s') = unat (ds_next_seq s) + length ks \<and>
    (ds_state s' = DHP_ST_DRAINING \<longleftrightarrow> unat (ds_next_seq s') = chunk_count src)"
proof -
  note S = assms(1) [unfolded sending_def]
  obtain s1 where p: "send_list src now ks l s = (l', s1, evs)"
    and s': "s' = (if chunks_for (ds_total s) \<le> ds_next_seq s1 \<and> ds_state s1 = DHP_ST_SENDING then s1\<lparr>ds_state := DHP_ST_DRAINING\<rparr> else s1)"
    using assms(5) pump_loop_reference [OF assms(1), of l now] assms(4)
    by (auto simp: pump_sender_def split: prod.splits)
  note n = send_list_next [OF p]
  have st: "ds_state s1 = DHP_ST_SENDING" unfolding n using assms(2) by simp
  have nx: "unat (ds_next_seq s1) = unat (ds_next_seq s) + length ks"
  proof (cases "ks = []")
    case True
    then show ?thesis unfolding n by simp
  next
    case False
    then have "last ks \<in> set ks" by simp
    then have "last ks < chunk_count src" by (subst (asm) (2) assms(4)) simp
    moreover have "Suc (last ks) = unat (ds_next_seq s) + length ks"
      using False assms(4) last_upt [of "unat (ds_next_seq s)" "min (chunk_count src) (unat (ds_acked s) + unat (ds_window s))"]
      by (simp add: not_le)
    moreover have "last ks < 65535" using chunk_count_bound [of src "last ks"] S calculation by simp
    moreover from this have "unat (of_nat (Suc (last ks)) :: u16) = Suc (last ks)" by (intro unat_of_nat_small) simp
    ultimately show ?thesis unfolding n using False by (simp del: of_nat_Suc)
  qed
  have tc: "unat (chunks_for (ds_total s)) = chunk_count src" using S by (simp add: chunks_for_exact chunk_count_def)
  have le: "unat (ds_next_seq s) + length ks \<le> chunk_count src" "length ks \<le> unat (ds_window s)"
    using assms(3,4) S by (auto simp: word_le_nat_alt)
  have fin: "chunks_for (ds_total s) \<le> ds_next_seq s1 \<longleftrightarrow> unat (ds_next_seq s1) = chunk_count src"
    using nx tc le by (auto simp: word_le_nat_alt)
  have "s' = s1\<lparr>ds_state := ds_state s'\<rparr>" using s' by simp
  moreover have "ds_next_seq s' = ds_next_seq s1" using s' by simp
  moreover have "ds_state s' = DHP_ST_DRAINING \<longleftrightarrow> unat (ds_next_seq s1) = chunk_count src"
    using s' fin st by simp
  ultimately show ?thesis using p nx le by (intro conjI exI [of _ s1]) simp_all
qed

definition demo_tx :: dhp_data_stream_t where
  "demo_tx = stream_zero\<lparr>ds_state := DHP_ST_SENDING, ds_outbound := True, ds_total := 61, ds_src := demo_src, ds_window := 8\<rparr>"

theorem pump_fills_window_witness:
  "ds_state (fst (snd (pump_sender (dhp_link_init 1 True) demo_tx 10))) = DHP_ST_DRAINING \<and>
   ds_next_seq (fst (snd (pump_sender (dhp_link_init 1 True) demo_tx 10))) = 2"
proof -
  have s: "sending demo_src demo_tx" "ds_state demo_tx = DHP_ST_SENDING" "unat (ds_next_seq demo_tx) \<le> chunk_count demo_src"
    by (simp_all add: sending_def demo_tx_def stream_zero_def demo_src_def)
  obtain l' s' evs where p: "pump_sender (dhp_link_init 1 True) demo_tx 10 = (l', s', evs)" by (metis prod_cases3)
  have "min (chunk_count demo_src) (unat (ds_acked demo_tx) + unat (ds_window demo_tx)) = 2" "unat (ds_next_seq demo_tx) = 0"
    by (simp_all add: demo_src_count) (simp_all add: demo_tx_def stream_zero_def)
  with pump_fills_window [OF s refl p] have "unat (ds_next_seq s') = 2" "ds_state s' = DHP_ST_DRAINING"
    by (simp_all add: demo_src_count)
  moreover from this have "ds_next_seq s' = 2" by (simp add: word_unat_eq_iff)
  ultimately show ?thesis using p by simp
qed

text \<open>
  The bound on the content is the code's: the number of chunks is cut to 16 bits, so a transfer
  that the receiver's default limit of eight megabytes would admit may never send all its bytes.
\<close>

lemma oversize_transfer_truncated:
  assumes "3932100 < n" "n \<le> 8 * 1024 * 1024"
  shows "60 * unat (chunks_for (of_nat n)) < n" and "(of_nat n :: u32) \<le> da_max_inbound (dhp_data_init hooks)"
proof -
  have un: "unat (of_nat n :: u32) = n" using assms by (intro unat_of_nat_small) simp
  have "(of_nat n + 60 - 1 :: u32) = of_nat (n + 59)" by (simp add: algebra_simps)
  moreover have "unat (of_nat (n + 59) :: u32) = n + 59" using assms by (intro unat_of_nat_small) simp
  ultimately have "unat ((of_nat n + 60 - 1 :: u32) div 60) = (n + 59) div 60" by (simp only: unat_div) simp
  then have "unat (chunks_for (of_nat n)) = (n + 59) div 60 mod 65536"
    by (simp add: chunks_for_def unsigned_ucast_eq take_bit_eq_mod)
  then show "60 * unat (chunks_for (of_nat n)) < n" using assms by linarith
  show "(of_nat n :: u32) \<le> da_max_inbound (dhp_data_init hooks)"
    using un assms by (simp add: dhp_data_init_def word_le_nat_alt)
qed

end
