(* ===== verification/Dhp_Router.thy ===== *)
theory Dhp_Router
  imports Dhp_Link Dhp_Hid Dhp_Pointer Dhp_Uhrp
begin

text \<open>
  Focus and input routing, \<open>core/src/router.c\<close>: the chain table with positions read off
  arriving frames, the focused machine, the release that goes before every switch, the
  election's outputs turned into frames, and the dispatch of every received message.

  The link the source reaches through a pointer is a field. What leaves the component is a
  field too, \<open>rt_out\<close>: every byte string handed to the transmit callback and every hook call is
  appended to it in program order, so that an operation maps a router to a router and ordering
  is visible in one list. A hook that is not installed leaves nothing in it. An operation that
  reaches the pointer integrator is \<open>None\<close> where the C program would overflow a signed integer.
\<close>

section \<open>State\<close>

record dhp_chain_entry_t =
  ce_used :: bool
  ce_addr :: dhp_addr_t
  ce_uid :: dhp_uid_t
  ce_caps :: u16
  ce_rel_pos :: int
  ce_last_seen :: dhp_time_t

record dhp_router_hooks_t =
  rh_deliver_kbd :: bool
  rh_deliver_mouse :: bool
  rh_focus_changed :: bool
  rh_level_changed :: bool
  rh_deliver_data :: bool

record dhp_router_cfg_t =
  rc_self :: dhp_addr_t
  rc_uid :: dhp_uid_t
  rc_caps :: u16
  rc_preempt :: bool
  rc_timing :: dhp_uhrp_timing_t
  rc_pointer :: dhp_pointer_cfg_t

datatype router_event =
    RTx link_tx
  | RDeliverKbd dhp_kbd_report_t
  | RDeliverMouse dhp_mouse_report_t
  | RFocusChanged dhp_addr_t bool
  | RLevelChanged dhp_level_t
  | RDeliverData dhp_frame_t

record dhp_router_t =
  rt_cfg :: dhp_router_cfg_t
  rt_link :: dhp_link_t
  rt_hooks :: dhp_router_hooks_t
  rt_uhrp :: dhp_uhrp_t
  rt_pointer :: dhp_pointer_t
  rt_hid :: dhp_hid_tracker_t
  rt_chain :: "dhp_chain_entry_t list"
  rt_self_slot :: nat
  rt_focus :: dhp_addr_t
  rt_level :: dhp_level_t
  rt_n_switches :: u32
  rt_n_releases_sent :: u32
  rt_out :: "router_event list"

definition chain_zero :: dhp_chain_entry_t where
  "chain_zero = \<lparr>ce_used = False, ce_addr = 0, ce_uid = 0, ce_caps = 0, ce_rel_pos = 0, ce_last_seen = 0\<rparr>"

definition dhp_router_level :: "dhp_router_t \<Rightarrow> dhp_level_t" where
  "dhp_router_level r = rt_level r"

definition dhp_router_focus :: "dhp_router_t \<Rightarrow> dhp_addr_t" where
  "dhp_router_focus r = rt_focus r"

definition dhp_router_is_active :: "dhp_router_t \<Rightarrow> bool" where
  "dhp_router_is_active r = dhp_uhrp_is_active (rt_uhrp r)"

text \<open>The hook calls and the calls of \<open>dhp_link_send\<close>.\<close>

definition call_hook :: "(dhp_router_hooks_t \<Rightarrow> bool) \<Rightarrow> router_event \<Rightarrow> dhp_router_t \<Rightarrow> dhp_router_t" where
  "call_hook installed e r = (if installed (rt_hooks r) then r\<lparr>rt_out := rt_out r @ [e]\<rparr> else r)"

definition router_send ::
  "dhp_msg_type_t \<Rightarrow> dhp_addr_t \<Rightarrow> u8 list option \<Rightarrow> dhp_time_t \<Rightarrow> dhp_router_t \<Rightarrow> dhp_router_t" where
  "router_send type dst payload now r =
     (let len = (case payload of None \<Rightarrow> 0 | Some p \<Rightarrow> of_nat (length p));
          (l, tx, res) = dhp_link_send (rt_link r) (msg_code type) dst payload len now
      in r\<lparr>rt_link := l, rt_out := rt_out r @ map RTx tx\<rparr>)"

section \<open>Chain table\<close>

definition chain_claim :: "dhp_addr_t \<Rightarrow> dhp_chain_entry_t \<Rightarrow> dhp_chain_entry_t" where
  "chain_claim a e = chain_zero\<lparr>ce_used := True, ce_addr := a\<rparr>"

definition chain_find :: "dhp_router_t \<Rightarrow> dhp_addr_t \<Rightarrow> nat option" where
  "chain_find r a = tbl_find ce_used ce_addr a (rt_chain r)"

definition chain_get :: "dhp_router_t \<Rightarrow> dhp_addr_t \<Rightarrow> nat option \<times> dhp_router_t" where
  "chain_get r a =
     (let (i, t) = tbl_get ce_used ce_addr chain_claim a (rt_chain r) in (i, r\<lparr>rt_chain := t\<rparr>))"

definition upd_chain :: "nat \<Rightarrow> (dhp_chain_entry_t \<Rightarrow> dhp_chain_entry_t) \<Rightarrow> dhp_router_t \<Rightarrow> dhp_router_t" where
  "upd_chain i g r = r\<lparr>rt_chain := (rt_chain r)[i := g (rt_chain r ! i)]\<rparr>"

definition slot_of :: "dhp_router_t \<Rightarrow> dhp_addr_t \<Rightarrow> nat" where
  "slot_of r a =
     (if a = rc_self (rt_cfg r) then rt_self_slot r
      else case chain_find r a of None \<Rightarrow> rt_self_slot r | Some i \<Rightarrow> i)"

definition rel_pos_from_frame :: "dhp_frame_t \<Rightarrow> dhp_port_t \<Rightarrow> int" where
  "rel_pos_from_frame f in_port =
     (let distance = uint DHP_TTL_DEFAULT - uint (fr_ttl f) + 1;
          distance = (if distance < 1 then 1 else distance);
          distance = (if 127 < distance then 127 else distance)
      in if in_port = DHP_PORT_UP then - distance else distance)"

definition dhp_router_chain_size :: "dhp_router_t \<Rightarrow> u8" where
  "dhp_router_chain_size r = of_nat (count_idx ce_used (rt_chain r))"

text \<open>
  The three loops that look for the best board keep the address found so far,
  \<open>DHP_ADDR_NONE\<close> at the start, and its position.
\<close>

definition entry_pos :: "dhp_router_t \<Rightarrow> dhp_chain_entry_t \<Rightarrow> int" where
  "entry_pos r e = (if ce_addr e = rc_self (rt_cfg r) then 0 else ce_rel_pos e)"

definition neighbour_step ::
  "dhp_router_t \<Rightarrow> dhp_addr_t \<Rightarrow> int \<Rightarrow> int \<Rightarrow> dhp_chain_entry_t \<Rightarrow> dhp_addr_t \<times> int \<Rightarrow> dhp_addr_t \<times> int" where
  "neighbour_step r from from_pos direction e best =
     (if \<not> ce_used e \<or> ce_addr e = from then best
      else if ce_caps e AND DHP_CAP_HID_OUT = 0 \<and> ce_addr e \<noteq> rc_self (rt_cfg r) then best
      else
        let pos = entry_pos r e
        in if 0 < direction \<and> from_pos < pos \<and> (fst best = DHP_ADDR_NONE \<or> pos < snd best) then (ce_addr e, pos)
           else if direction < 0 \<and> pos < from_pos \<and> (fst best = DHP_ADDR_NONE \<or> snd best < pos) then (ce_addr e, pos)
           else best)"

definition neighbour_of :: "dhp_router_t \<Rightarrow> dhp_addr_t \<Rightarrow> int \<Rightarrow> dhp_addr_t" where
  "neighbour_of r from direction =
     (let scan_from = (\<lambda>from_pos. fst (fold (neighbour_step r from from_pos direction) (rt_chain r) (DHP_ADDR_NONE, 0)))
      in if from \<noteq> rc_self (rt_cfg r) then
           (case chain_find r from of
              None \<Rightarrow> DHP_ADDR_NONE
            | Some i \<Rightarrow> scan_from (ce_rel_pos (rt_chain r ! i)))
         else scan_from 0)"

section \<open>Sending input onward\<close>

definition send_kbd_to :: "dhp_router_t \<Rightarrow> dhp_addr_t \<Rightarrow> dhp_kbd_report_t \<Rightarrow> dhp_time_t \<Rightarrow> dhp_router_t" where
  "send_kbd_to r0 dst rep now =
     (let r = r0\<lparr>rt_hid := dhp_hid_note_kbd (rt_hid r0) (slot_of r0 dst) rep\<rparr>
      in if dst = rc_self (rt_cfg r) then call_hook rh_deliver_kbd (RDeliverKbd rep) r
         else router_send DHP_MSG_KBD dst (Some (dhp_kbd_pack rep)) now r)"

definition send_mouse_to :: "dhp_router_t \<Rightarrow> dhp_addr_t \<Rightarrow> dhp_mouse_report_t \<Rightarrow> dhp_time_t \<Rightarrow> dhp_router_t" where
  "send_mouse_to r0 dst rep now =
     (let r = r0\<lparr>rt_hid := dhp_hid_note_mouse (rt_hid r0) (slot_of r0 dst) (mo_buttons rep)\<rparr>
      in if dst = rc_self (rt_cfg r) then call_hook rh_deliver_mouse (RDeliverMouse rep) r
         else router_send DHP_MSG_MOUSE dst (Some (dhp_mouse_pack rep)) now r)"

text \<open>Handing a keyboard and a mouse report to this board's own machine.\<close>

definition deliver_both :: "dhp_kbd_report_t \<Rightarrow> dhp_mouse_report_t \<Rightarrow> dhp_router_t \<Rightarrow> dhp_router_t" where
  "deliver_both k m r = call_hook rh_deliver_mouse (RDeliverMouse m) (call_hook rh_deliver_kbd (RDeliverKbd k) r)"

definition release_machine :: "dhp_router_t \<Rightarrow> dhp_addr_t \<Rightarrow> dhp_time_t \<Rightarrow> dhp_router_t" where
  "release_machine r addr now =
     (case dhp_hid_build_release (rt_hid r) (slot_of r addr) of
        (t, None) \<Rightarrow> r\<lparr>rt_hid := t\<rparr>
      | (t, Some (k, m)) \<Rightarrow>
          let r1 = r\<lparr>rt_hid := t, rt_n_releases_sent := rt_n_releases_sent r + 1\<rparr>
          in if addr = rc_self (rt_cfg r) then deliver_both k m r1
             else router_send DHP_MSG_MOUSE addr (Some (dhp_mouse_pack m)) now
                    (router_send DHP_MSG_KBD addr (Some (dhp_kbd_pack k)) now r1))"

section \<open>Focus\<close>

definition announce_focus :: "dhp_addr_t \<Rightarrow> u8 \<Rightarrow> dhp_edge_t \<Rightarrow> dhp_time_t \<Rightarrow> dhp_router_t \<Rightarrow> dhp_router_t" where
  "announce_focus target reason edge now r =
     router_send DHP_MSG_FOCUS DHP_ADDR_BROADCAST
       (Some (dhp_focus_pack \<lparr>fo_target = target, fo_reason = reason, fo_edge = edge_code edge\<rparr>)) now r"

definition apply_focus ::
  "dhp_router_t \<Rightarrow> dhp_addr_t \<Rightarrow> u8 \<Rightarrow> dhp_edge_t \<Rightarrow> dhp_time_t \<Rightarrow> bool \<Rightarrow> dhp_router_t option" where
  "apply_focus r target reason edge now announce =
     (if target = DHP_ADDR_NONE \<or> target = rt_focus r then Some r
      else
        let r1 = release_machine r (rt_focus r) now;
            r2 = r1\<lparr>rt_focus := target, rt_n_switches := rt_n_switches r1 + 1\<rparr>
        in case dhp_pointer_arrive (rt_pointer r2) edge now of
             None \<Rightarrow> None
           | Some p \<Rightarrow>
               let r3 = r2\<lparr>rt_pointer := p\<rparr>;
                   r4 = (if announce then announce_focus target reason edge now r3 else r3)
               in Some (call_hook rh_focus_changed (RFocusChanged target (target = rc_self (rt_cfg r4))) r4))"

definition dhp_router_set_focus :: "dhp_router_t \<Rightarrow> dhp_addr_t \<Rightarrow> u8 \<Rightarrow> dhp_time_t \<Rightarrow> dhp_router_t option" where
  "dhp_router_set_focus r target reason now = apply_focus r target reason DHP_EDGE_NONE now True"

text \<open>The loop of \<open>dhp_router_button\<close>: next board down-chain, and the far up-chain end to wrap to.\<close>

definition button_step ::
  "dhp_router_t \<Rightarrow> int \<Rightarrow> dhp_chain_entry_t \<Rightarrow> (dhp_addr_t \<times> int) \<times> (dhp_addr_t \<times> int) \<Rightarrow>
     (dhp_addr_t \<times> int) \<times> (dhp_addr_t \<times> int)" where
  "button_step r cur_pos e st =
     (if \<not> ce_used e \<or> ce_caps e AND DHP_CAP_HID_OUT = 0 then st
      else
        let (next, wrap) = st; pos = entry_pos r e
        in (if cur_pos < pos \<and> (fst next = DHP_ADDR_NONE \<or> pos < snd next) then (ce_addr e, pos) else next,
            if fst wrap = DHP_ADDR_NONE \<or> pos < snd wrap then (ce_addr e, pos) else wrap))"

definition button_target :: "dhp_router_t \<Rightarrow> dhp_addr_t" where
  "button_target r =
     (let cur_pos = (if rt_focus r = rc_self (rt_cfg r) then 0
                     else case chain_find r (rt_focus r) of Some i \<Rightarrow> ce_rel_pos (rt_chain r ! i) | None \<Rightarrow> 0);
          (next, wrap) = fold (button_step r cur_pos) (rt_chain r) ((DHP_ADDR_NONE, 0), (DHP_ADDR_NONE, 0))
      in if fst next = DHP_ADDR_NONE then fst wrap else fst next)"

definition dhp_router_button :: "dhp_router_t \<Rightarrow> dhp_time_t \<Rightarrow> dhp_router_t option" where
  "dhp_router_button r now =
     (if \<not> dhp_router_is_active r then Some r
      else apply_focus r (button_target r) DHP_FOCUS_R_BUTTON DHP_EDGE_NONE now True)"

section \<open>Level\<close>

definition recompute_level :: "dhp_router_t \<Rightarrow> dhp_router_t" where
  "recompute_level r =
     (let caps = dhp_uhrp_reachable_caps (rt_uhrp r);
          elected = dhp_router_is_active r \<or> u_active (rt_uhrp r) \<noteq> DHP_ADDR_NONE;
          l = dhp_level_of caps elected
      in if l \<noteq> rt_level r then call_hook rh_level_changed (RLevelChanged l) (r\<lparr>rt_level := l\<rparr>) else r)"

section \<open>UHRP plumbing\<close>

definition forget_used :: "dhp_chain_entry_t list \<Rightarrow> dhp_hid_tracker_t \<Rightarrow> dhp_hid_tracker_t" where
  "forget_used chain t =
     fold (\<lambda>i t. if ce_used (chain ! i) then dhp_hid_forget t i else t) [0..<DHP_MAX_BOARDS] t"

definition broadcast_release_all :: "dhp_router_t \<Rightarrow> dhp_time_t \<Rightarrow> dhp_router_t" where
  "broadcast_release_all r now =
     (let r1 = router_send DHP_MSG_RELEASE DHP_ADDR_BROADCAST None now r
      in deliver_both kbd_empty mouse_empty (r1\<lparr>rt_hid := forget_used (rt_chain r1) (rt_hid r1)\<rparr>))"

definition default_step :: "dhp_router_t \<Rightarrow> dhp_chain_entry_t \<Rightarrow> dhp_addr_t \<times> int \<Rightarrow> dhp_addr_t \<times> int" where
  "default_step r e best =
     (if \<not> ce_used e \<or> ce_addr e = rc_self (rt_cfg r) \<or> ce_caps e AND DHP_CAP_HID_OUT = 0 then best
      else
        let dist = (if ce_rel_pos e < 0 then - ce_rel_pos e else ce_rel_pos e)
        in if fst best = DHP_ADDR_NONE \<or> dist < snd best then (ce_addr e, dist) else best)"

definition pick_default_focus :: "dhp_router_t \<Rightarrow> dhp_addr_t" where
  "pick_default_focus r =
     (if rc_caps (rt_cfg r) AND DHP_CAP_HID_OUT \<noteq> 0 then rc_self (rt_cfg r)
      else fst (fold (default_step r) (rt_chain r) (DHP_ADDR_NONE, 0)))"

text \<open>What a board that has just become active does about the focus.\<close>

definition adopt_focus :: "dhp_router_t \<Rightarrow> dhp_time_t \<Rightarrow> dhp_router_t" where
  "adopt_focus r now =
     (let f = (if rt_focus r = DHP_ADDR_NONE \<or> chain_find r (rt_focus r) = None
               then pick_default_focus r else rt_focus r)
      in if f \<noteq> DHP_ADDR_NONE then
           let r1 = announce_focus f DHP_FOCUS_R_FAILOVER DHP_EDGE_NONE now r
           in if f \<noteq> rt_focus r1
              then call_hook rh_focus_changed (RFocusChanged f (f = rc_self (rt_cfg r1))) (r1\<lparr>rt_focus := f\<rparr>)
              else r1
         else r)"

definition drain_uhrp :: "dhp_router_t \<Rightarrow> dhp_time_t \<Rightarrow> dhp_router_t" where
  "drain_uhrp r0 now =
     (let (u, ev) = dhp_uhrp_take_events (rt_uhrp r0);
          r1 = r0\<lparr>rt_uhrp := u\<rparr>;
          r2 = (if ue_broadcast_release ev then broadcast_release_all r1 now else r1);
          r3 = (if ue_send_resign ev then router_send DHP_MSG_RESIGN DHP_ADDR_BROADCAST None now r2 else r2);
          r4 = (if ue_send_hello ev
                then router_send DHP_MSG_HELLO DHP_ADDR_BROADCAST
                       (Some (dhp_hello_pack (dhp_uhrp_build_hello (rt_uhrp r3)))) now r3
                else r3)
      in if ue_state_changed ev then
           recompute_level (if dhp_router_is_active r4 then adopt_focus r4 now else r4)
         else r4)"

section \<open>Entry points\<close>

definition dhp_router_init ::
  "dhp_router_cfg_t \<Rightarrow> dhp_link_t \<Rightarrow> dhp_router_hooks_t option \<Rightarrow> dhp_router_t" where
  "dhp_router_init cfg l hooks =
     (let r = \<lparr>rt_cfg = cfg, rt_link = l,
            rt_hooks = (case hooks of Some h \<Rightarrow> h
              | None \<Rightarrow> \<lparr>rh_deliver_kbd = False, rh_deliver_mouse = False, rh_focus_changed = False,
                         rh_level_changed = False, rh_deliver_data = False\<rparr>),
            rt_uhrp = dhp_uhrp_init \<lparr>uc_uid = rc_uid cfg, uc_addr = rc_self cfg, uc_priority = 0,
              uc_caps = rc_caps cfg, uc_preempt = rc_preempt cfg, uc_timing = rc_timing cfg\<rparr>,
            rt_pointer = dhp_pointer_init (Some (rc_pointer cfg)), rt_hid = dhp_hid_tracker_init,
            rt_chain = replicate DHP_MAX_BOARDS chain_zero, rt_self_slot = 0, rt_focus = 0,
            rt_level = DHP_LEVEL_ISOLATED, rt_n_switches = 0, rt_n_releases_sent = 0, rt_out = []\<rparr>;
          (i, r1) = chain_get r (rc_self cfg);
          self = (case i of Some i \<Rightarrow> i | None \<Rightarrow> 0);
          r2 = upd_chain self (\<lambda>e. e\<lparr>ce_uid := rc_uid cfg, ce_caps := rc_caps cfg, ce_rel_pos := 0\<rparr>) r1
      in r2\<lparr>rt_self_slot := self, rt_focus := DHP_ADDR_NONE, rt_level := DHP_LEVEL_ISOLATED\<rparr>)"

definition dhp_router_start :: "dhp_router_t \<Rightarrow> dhp_time_t \<Rightarrow> dhp_router_t option" where
  "dhp_router_start r now =
     map_option (\<lambda>p. drain_uhrp (r\<lparr>rt_uhrp := dhp_uhrp_start (rt_uhrp r) now, rt_pointer := p\<rparr>) now)
       (dhp_pointer_arrive (rt_pointer r) DHP_EDGE_NONE now)"

definition forward_input :: "dhp_router_t \<Rightarrow> u8 \<Rightarrow> u8 list \<Rightarrow> dhp_time_t \<Rightarrow> dhp_router_t \<times> bool" where
  "forward_input r kind report now =
     (if dhp_router_is_active r then (r, False)
      else if rc_caps (rt_cfg r) AND DHP_CAP_HID_IN = 0 then (r, True)
      else if u_active (rt_uhrp r) = DHP_ADDR_NONE then (r, True)
      else (router_send DHP_MSG_INPUT (u_active (rt_uhrp r)) (Some (kind # report)) now r, True))"

text \<open>The end of both input handlers: the election learns whether anything is held.\<close>

definition note_held :: "dhp_router_t \<Rightarrow> dhp_time_t \<Rightarrow> dhp_router_t" where
  "note_held r now = drain_uhrp (r\<lparr>rt_uhrp := dhp_uhrp_set_keys_held (rt_uhrp r) (dhp_hid_any_held (rt_hid r))\<rparr>) now"

definition dhp_router_local_kbd :: "dhp_router_t \<Rightarrow> dhp_kbd_report_t \<Rightarrow> dhp_time_t \<Rightarrow> dhp_router_t" where
  "dhp_router_local_kbd r rep now =
     (case forward_input r DHP_INPUT_KIND_KBD (dhp_kbd_pack rep) now of
        (r1, True) \<Rightarrow> r1
      | (r1, False) \<Rightarrow> note_held (send_kbd_to r1 (rt_focus r1) rep now) now)"

definition dhp_router_local_mouse :: "dhp_router_t \<Rightarrow> dhp_mouse_report_t \<Rightarrow> dhp_time_t \<Rightarrow> dhp_router_t option" where
  "dhp_router_local_mouse r rep now =
     (case forward_input r DHP_INPUT_KIND_MOUSE (dhp_mouse_pack rep) now of
        (r1, True) \<Rightarrow> Some r1
      | (r1, False) \<Rightarrow>
          (case dhp_pointer_feed (rt_pointer r1) (mo_dx rep) (mo_dy rep) now of
             None \<Rightarrow> None
           | Some (p, edge) \<Rightarrow>
               let r2 = r1\<lparr>rt_pointer := p\<rparr>;
                   dir = (if edge = DHP_EDGE_LEFT \<or> edge = DHP_EDGE_UP then -1 else 1);
                   target = neighbour_of r2 (rt_focus r2) dir
               in if edge \<noteq> DHP_EDGE_NONE \<and> target \<noteq> DHP_ADDR_NONE
                  then apply_focus r2 target DHP_FOCUS_R_EDGE edge now True
                  else Some (note_held (send_mouse_to r2 (rt_focus r2) rep now) now)))"

text \<open>Every frame says where its sender sits.\<close>

definition note_position :: "dhp_router_t \<Rightarrow> dhp_frame_t \<Rightarrow> dhp_port_t \<Rightarrow> dhp_time_t \<Rightarrow> dhp_router_t" where
  "note_position r f in_port now =
     (if fr_src f \<noteq> rc_self (rt_cfg r) \<and> port_index in_port < DHP_PORT_COUNT then
        (case chain_get r (fr_src f) of
           (None, r1) \<Rightarrow> r1
         | (Some i, r1) \<Rightarrow> upd_chain i (\<lambda>e. e\<lparr>ce_rel_pos := rel_pos_from_frame f in_port, ce_last_seen := now\<rparr>) r1)
      else r)"

definition rx_hello_frame :: "dhp_router_t \<Rightarrow> dhp_addr_t \<Rightarrow> dhp_hello_t \<Rightarrow> dhp_time_t \<Rightarrow> dhp_router_t" where
  "rx_hello_frame r src h now =
     (let r1 = (case chain_get r src of
                  (None, r1) \<Rightarrow> r1
                | (Some i, r1) \<Rightarrow> upd_chain i (\<lambda>e. e\<lparr>ce_uid := he_uid h, ce_caps := he_caps h\<rparr>) r1)
      in recompute_level (drain_uhrp (r1\<lparr>rt_uhrp := dhp_uhrp_rx_hello (rt_uhrp r1) src h now\<rparr>) now))"

definition rx_focus_frame :: "dhp_router_t \<Rightarrow> dhp_focus_t \<Rightarrow> dhp_time_t \<Rightarrow> dhp_router_t" where
  "rx_focus_frame r fo now =
     (if dhp_router_is_active r then r
      else
        let was_self = rt_focus r = rc_self (rt_cfg r);
            is_self = fo_target fo = rc_self (rt_cfg r);
            r1 = call_hook rh_focus_changed (RFocusChanged (fo_target fo) is_self) (r\<lparr>rt_focus := fo_target fo\<rparr>)
        in if was_self \<and> \<not> is_self then release_machine r1 (rc_self (rt_cfg r1)) now else r1)"

definition rx_input_frame :: "dhp_router_t \<Rightarrow> dhp_frame_t \<Rightarrow> dhp_time_t \<Rightarrow> dhp_router_t option" where
  "rx_input_frame r f now =
     (if \<not> dhp_router_is_active r \<or> fr_len f < 1 then Some r
      else case chain_find r (fr_src f) of
             None \<Rightarrow> Some r
           | Some i \<Rightarrow>
               if ce_caps (rt_chain r ! i) AND DHP_CAP_HID_IN = 0 then Some r
               else if frame_bytes f ! 0 = DHP_INPUT_KIND_KBD then
                 (case dhp_kbd_unpack (drop 1 (frame_bytes f)) of
                    None \<Rightarrow> Some r
                  | Some rep \<Rightarrow> Some (dhp_router_local_kbd r rep now))
               else if frame_bytes f ! 0 = DHP_INPUT_KIND_MOUSE then
                 (case dhp_mouse_unpack (drop 1 (frame_bytes f)) of
                    None \<Rightarrow> Some r
                  | Some rep \<Rightarrow> dhp_router_local_mouse r rep now)
               else Some r)"

definition dhp_router_rx :: "dhp_router_t \<Rightarrow> dhp_frame_t \<Rightarrow> dhp_port_t \<Rightarrow> dhp_time_t \<Rightarrow> dhp_router_t option" where
  "dhp_router_rx r0 f in_port now =
     (let r = note_position r0 f in_port now
      in if fr_type f = msg_code DHP_MSG_HELLO then
           (case dhp_hello_unpack (frame_bytes f) of
              None \<Rightarrow> Some r
            | Some h \<Rightarrow> Some (rx_hello_frame r (fr_src f) h now))
         else if fr_type f = msg_code DHP_MSG_RESIGN then
           Some (recompute_level (drain_uhrp (r\<lparr>rt_uhrp := dhp_uhrp_rx_resign (rt_uhrp r) (fr_src f) now\<rparr>) now))
         else if fr_type f = msg_code DHP_MSG_KBD then
           (case dhp_kbd_unpack (frame_bytes f) of
              None \<Rightarrow> Some r
            | Some rep \<Rightarrow> Some (call_hook rh_deliver_kbd (RDeliverKbd rep) r))
         else if fr_type f = msg_code DHP_MSG_MOUSE then
           (case dhp_mouse_unpack (frame_bytes f) of
              None \<Rightarrow> Some r
            | Some rep \<Rightarrow> Some (call_hook rh_deliver_mouse (RDeliverMouse rep) r))
         else if fr_type f = msg_code DHP_MSG_FOCUS then
           (case dhp_focus_unpack (frame_bytes f) of
              None \<Rightarrow> Some r
            | Some fo \<Rightarrow> Some (rx_focus_frame r fo now))
         else if fr_type f = msg_code DHP_MSG_DATA then Some (call_hook rh_deliver_data (RDeliverData f) r)
         else if fr_type f = msg_code DHP_MSG_INPUT then rx_input_frame r f now
         else if fr_type f = msg_code DHP_MSG_RELEASE then
           Some (deliver_both kbd_empty mouse_empty (r\<lparr>rt_hid := dhp_hid_forget (rt_hid r) (rt_self_slot r)\<rparr>))
         else Some r)"

definition dhp_router_set_caps :: "dhp_router_t \<Rightarrow> u16 \<Rightarrow> dhp_router_t" where
  "dhp_router_set_caps r caps =
     (if caps = rc_caps (rt_cfg r) then r
      else
        let u = rt_uhrp r;
            r1 = r\<lparr>rt_cfg := (rt_cfg r)\<lparr>rc_caps := caps\<rparr>,
                   rt_uhrp := u\<lparr>u_cfg := (u_cfg u)\<lparr>uc_caps := caps, uc_priority := dhp_uhrp_priority_from_caps caps\<rparr>\<rparr>\<rparr>
        in case chain_find r1 (rc_self (rt_cfg r1)) of
             None \<Rightarrow> r1
           | Some i \<Rightarrow> upd_chain i (\<lambda>e. e\<lparr>ce_caps := caps\<rparr>) r1)"

definition dhp_router_tick :: "dhp_router_t \<Rightarrow> dhp_time_t \<Rightarrow> dhp_router_t" where
  "dhp_router_tick r now =
     (let r1 = r\<lparr>rt_link := dhp_link_tick (rt_link r) now\<rparr>;
          r2 = r1\<lparr>rt_uhrp := dhp_uhrp_tick (rt_uhrp r1) now\<rparr>
      in recompute_level (drain_uhrp r2 now))"

section \<open>What the building blocks keep\<close>

text \<open>Sending and hook calls touch nothing but the link and the trace.\<close>

definition same_core :: "dhp_router_t \<Rightarrow> dhp_router_t \<Rightarrow> bool" where
  "same_core r r' \<longleftrightarrow> r' = r\<lparr>rt_link := rt_link r', rt_out := rt_out r'\<rparr>"

lemma call_hook_simps [simp]:
  "rt_cfg (call_hook g e r) = rt_cfg r" "rt_hooks (call_hook g e r) = rt_hooks r" "rt_uhrp (call_hook g e r) = rt_uhrp r"
  "rt_pointer (call_hook g e r) = rt_pointer r" "rt_hid (call_hook g e r) = rt_hid r" "rt_chain (call_hook g e r) = rt_chain r"
  "rt_self_slot (call_hook g e r) = rt_self_slot r" "rt_focus (call_hook g e r) = rt_focus r" "rt_level (call_hook g e r) = rt_level r"
  "rt_link (call_hook g e r) = rt_link r"
  by (simp_all add: call_hook_def)

lemma router_send_simps [simp]:
  "rt_cfg (router_send ty d p now r) = rt_cfg r" "rt_hooks (router_send ty d p now r) = rt_hooks r"
  "rt_uhrp (router_send ty d p now r) = rt_uhrp r" "rt_pointer (router_send ty d p now r) = rt_pointer r"
  "rt_hid (router_send ty d p now r) = rt_hid r" "rt_chain (router_send ty d p now r) = rt_chain r"
  "rt_self_slot (router_send ty d p now r) = rt_self_slot r" "rt_focus (router_send ty d p now r) = rt_focus r"
  "rt_level (router_send ty d p now r) = rt_level r"
  by (simp_all add: router_send_def Let_def split: prod.splits)

lemma deliver_both_simps [simp]:
  "rt_cfg (deliver_both k m r) = rt_cfg r" "rt_hooks (deliver_both k m r) = rt_hooks r" "rt_uhrp (deliver_both k m r) = rt_uhrp r"
  "rt_pointer (deliver_both k m r) = rt_pointer r" "rt_hid (deliver_both k m r) = rt_hid r" "rt_chain (deliver_both k m r) = rt_chain r"
  "rt_self_slot (deliver_both k m r) = rt_self_slot r" "rt_focus (deliver_both k m r) = rt_focus r"
  by (simp_all add: deliver_both_def)

lemma recompute_level_simps [simp]:
  "rt_cfg (recompute_level r) = rt_cfg r" "rt_hooks (recompute_level r) = rt_hooks r" "rt_uhrp (recompute_level r) = rt_uhrp r"
  "rt_pointer (recompute_level r) = rt_pointer r" "rt_hid (recompute_level r) = rt_hid r" "rt_chain (recompute_level r) = rt_chain r"
  "rt_self_slot (recompute_level r) = rt_self_slot r" "rt_focus (recompute_level r) = rt_focus r"
  by (simp_all add: recompute_level_def Let_def)

lemma announce_focus_simps [simp]:
  "rt_cfg (announce_focus tg rs e now r) = rt_cfg r" "rt_hooks (announce_focus tg rs e now r) = rt_hooks r"
  "rt_uhrp (announce_focus tg rs e now r) = rt_uhrp r" "rt_pointer (announce_focus tg rs e now r) = rt_pointer r"
  "rt_hid (announce_focus tg rs e now r) = rt_hid r" "rt_chain (announce_focus tg rs e now r) = rt_chain r"
  "rt_self_slot (announce_focus tg rs e now r) = rt_self_slot r" "rt_focus (announce_focus tg rs e now r) = rt_focus r"
  by (simp_all add: announce_focus_def)

lemma release_machine_simps [simp]:
  "rt_cfg (release_machine r a now) = rt_cfg r" "rt_hooks (release_machine r a now) = rt_hooks r"
  "rt_uhrp (release_machine r a now) = rt_uhrp r" "rt_pointer (release_machine r a now) = rt_pointer r"
  "rt_hid (release_machine r a now) = fst (dhp_hid_build_release (rt_hid r) (slot_of r a))"
  "rt_chain (release_machine r a now) = rt_chain r" "rt_self_slot (release_machine r a now) = rt_self_slot r"
  "rt_focus (release_machine r a now) = rt_focus r"
  by (auto simp: release_machine_def Let_def split: prod.splits option.splits)

lemma broadcast_release_simps [simp]:
  "rt_cfg (broadcast_release_all r now) = rt_cfg r" "rt_hooks (broadcast_release_all r now) = rt_hooks r"
  "rt_uhrp (broadcast_release_all r now) = rt_uhrp r"
  "rt_hid (broadcast_release_all r now) = forget_used (rt_chain r) (rt_hid r)"
  "rt_chain (broadcast_release_all r now) = rt_chain r" "rt_self_slot (broadcast_release_all r now) = rt_self_slot r"
  "rt_focus (broadcast_release_all r now) = rt_focus r"
  by (simp_all add: broadcast_release_all_def Let_def)

lemma adopt_focus_simps [simp]:
  "rt_cfg (adopt_focus r now) = rt_cfg r" "rt_hooks (adopt_focus r now) = rt_hooks r" "rt_uhrp (adopt_focus r now) = rt_uhrp r"
  "rt_hid (adopt_focus r now) = rt_hid r" "rt_chain (adopt_focus r now) = rt_chain r" "rt_self_slot (adopt_focus r now) = rt_self_slot r"
  by (simp_all add: adopt_focus_def Let_def)

lemma drain_uhrp_simps [simp]:
  "rt_cfg (drain_uhrp r now) = rt_cfg r" "rt_hooks (drain_uhrp r now) = rt_hooks r"
  "rt_uhrp (drain_uhrp r now) = (rt_uhrp r)\<lparr>u_ev := events_zero\<rparr>"
  "rt_hid (drain_uhrp r now) = (if ue_broadcast_release (u_ev (rt_uhrp r)) then forget_used (rt_chain r) (rt_hid r) else rt_hid r)"
  "rt_chain (drain_uhrp r now) = rt_chain r" "rt_self_slot (drain_uhrp r now) = rt_self_slot r"
  by (simp_all add: drain_uhrp_def dhp_uhrp_take_events_def Let_def)

section \<open>The chain table is an address table\<close>

interpretation chain: addr_table ce_used ce_addr chain_claim
  by unfold_locales (simp_all add: chain_claim_def)

text \<open>No operation takes an entry out of the table.\<close>

definition chain_grows :: "dhp_chain_entry_t list \<Rightarrow> dhp_chain_entry_t list \<Rightarrow> bool" where
  "chain_grows t t' \<longleftrightarrow> length t' = length t \<and> (\<forall>i < length t. ce_used (t ! i) \<longrightarrow> ce_used (t' ! i))"

lemma chain_grows_refl [simp]: "chain_grows t t"
  by (simp add: chain_grows_def)

lemma chain_grows_trans: "chain_grows t u \<Longrightarrow> chain_grows u v \<Longrightarrow> chain_grows t v"
  by (simp add: chain_grows_def)

lemma chain_get_grows:
  assumes "chain_get r a = (i, r')"
  shows "chain_grows (rt_chain r) (rt_chain r')" "r' = r\<lparr>rt_chain := rt_chain r'\<rparr>"
proof -
  obtain t where t: "tbl_get ce_used ce_addr chain_claim a (rt_chain r) = (i, t)" "r' = r\<lparr>rt_chain := t\<rparr>"
    using assms by (auto simp: chain_get_def split: prod.splits)
  from t(1) show "chain_grows (rt_chain r) (rt_chain r')"
    by (cases rule: chain.get_cases) (auto simp: t(2) chain_grows_def nth_list_update chain_claim_def)
  show "r' = r\<lparr>rt_chain := rt_chain r'\<rparr>" by (simp add: t(2))
qed

lemma chain_grows_update: "ce_used e = ce_used (t ! i) \<Longrightarrow> chain_grows t (t[i := e])"
  by (cases "i < length t") (auto simp: chain_grows_def nth_list_update list_update_beyond)

lemma upd_chain_grows: "(\<And>e. ce_used (g e) = ce_used e) \<Longrightarrow> chain_grows (rt_chain r) (rt_chain (upd_chain i g r))"
  by (simp add: upd_chain_def chain_grows_update)

lemma upd_chain_simps [simp]:
  "rt_cfg (upd_chain i g r) = rt_cfg r" "rt_hooks (upd_chain i g r) = rt_hooks r" "rt_uhrp (upd_chain i g r) = rt_uhrp r"
  "rt_pointer (upd_chain i g r) = rt_pointer r" "rt_hid (upd_chain i g r) = rt_hid r" "rt_self_slot (upd_chain i g r) = rt_self_slot r"
  "rt_focus (upd_chain i g r) = rt_focus r" "rt_link (upd_chain i g r) = rt_link r" "rt_out (upd_chain i g r) = rt_out r"
  "rt_level (upd_chain i g r) = rt_level r"
  by (simp_all add: upd_chain_def)

lemma note_position_frame:
  "\<exists>c. note_position r f port now = r\<lparr>rt_chain := c\<rparr> \<and> chain_grows (rt_chain r) c"
proof -
  obtain i r1 where g: "chain_get r (fr_src f) = (i, r1)" by fastforce
  note G = chain_get_grows [OF g]
  obtain c where r1: "r1 = r\<lparr>rt_chain := c\<rparr>" using G(2) by blast
  have c: "chain_grows (rt_chain r) c" using G(1) r1 by simp
  let ?g = "\<lambda>e. e\<lparr>ce_rel_pos := rel_pos_from_frame f port, ce_last_seen := now\<rparr>"
  consider "note_position r f port now = r\<lparr>rt_chain := rt_chain r\<rparr>" | "note_position r f port now = r1"
    | j where "note_position r f port now = upd_chain j ?g r1"
    using g by (cases "fr_src f \<noteq> rc_self (rt_cfg r) \<and> real_port port"; cases i) (simp_all add: note_position_def)
  then show ?thesis
  proof cases
    case (3 j)
    have "chain_grows (rt_chain r1) (rt_chain (upd_chain j ?g r1))" by (rule upd_chain_grows) simp
    then have "chain_grows (rt_chain r) (c[j := ?g (c ! j)])"
      using c chain_grows_trans by (simp add: r1 upd_chain_def)
    then show ?thesis using 3 by (auto simp: r1 upd_chain_def)
  qed (use c r1 in \<open>auto intro: exI [of _ "rt_chain r"]\<close>)
qed

section \<open>The tracker and the election agree\<close>

text \<open>
  The tracker is indexed by chain slot: a slot with something held belongs to a board of the
  table, and the election's flag covers everything that is held.
\<close>

definition hid_inv :: "dhp_router_t \<Rightarrow> bool" where
  "hid_inv r \<longleftrightarrow>
     hid_wf (rt_hid r) \<and> length (rt_chain r) = DHP_MAX_BOARDS \<and> rt_self_slot r < DHP_MAX_BOARDS \<and>
     ce_used (rt_chain r ! rt_self_slot r) \<and>
     (\<forall>i < DHP_MAX_BOARDS. dhp_hid_slot_held (rt_hid r) i \<longrightarrow> ce_used (rt_chain r ! i))"

definition keys_ok :: "dhp_router_t \<Rightarrow> bool" where
  "keys_ok r \<longleftrightarrow> (dhp_hid_any_held (rt_hid r) \<longrightarrow> u_keys_held (rt_uhrp r))"

definition router_inv :: "dhp_router_t \<Rightarrow> bool" where
  "router_inv r \<longleftrightarrow> hid_inv r \<and> keys_ok r \<and> (\<not> u_started (rt_uhrp r) \<longrightarrow> u_state (rt_uhrp r) = DHP_UHRP_INIT)"

lemma router_invD:
  assumes "router_inv r"
  shows "hid_inv r" "keys_ok r" "\<not> u_started (rt_uhrp r) \<longrightarrow> u_state (rt_uhrp r) = DHP_UHRP_INIT"
  using assms by (simp_all add: router_inv_def)

text \<open>Every operation either touches one slot of the table or holds no more than before.\<close>

definition holds_less :: "dhp_hid_tracker_t \<Rightarrow> dhp_hid_tracker_t \<Rightarrow> bool" where
  "holds_less t t' \<longleftrightarrow> hid_wf t' \<and> (\<forall>i. dhp_hid_slot_held t' i \<longrightarrow> dhp_hid_slot_held t i)"

lemma holds_less_refl [simp]: "hid_wf t \<Longrightarrow> holds_less t t"
  by (simp add: holds_less_def)

lemma holds_less_any: "hid_wf t \<Longrightarrow> holds_less t t' \<Longrightarrow> dhp_hid_any_held t' \<Longrightarrow> dhp_hid_any_held t"
  by (auto simp: holds_less_def hid.any_held_iff)

lemma view_held_cong:
  "hid_wf t \<Longrightarrow> hid_wf t' \<Longrightarrow> hid_view t' i = hid_view t i \<Longrightarrow> dhp_hid_slot_held t' i = dhp_hid_slot_held t i"
  using hid.held_out [of i] by (cases "i < DHP_MAX_BOARDS") (simp_all add: hid.held_iff)

lemma release_holds_less:
  assumes "hid_wf t" "slot < DHP_MAX_BOARDS"
  shows "holds_less t (fst (dhp_hid_build_release t slot))"
  unfolding holds_less_def
proof (intro conjI allI impI)
  show wf: "hid_wf (fst (dhp_hid_build_release t slot))" using assms hid.wf_release by blast
  fix i assume h: "dhp_hid_slot_held (fst (dhp_hid_build_release t slot)) i"
  then have "i \<noteq> slot" using hid.release_not_held [OF assms(1)] by blast
  then show "dhp_hid_slot_held t i" using h view_held_cong [OF assms(1) wf] hid.release_other [OF assms] by blast
qed

lemma forget_held:
  assumes "hid_wf t" "slot < DHP_MAX_BOARDS"
  shows "hid_wf (dhp_hid_forget t slot) \<and>
    (dhp_hid_slot_held (dhp_hid_forget t slot) i \<longleftrightarrow> i \<noteq> slot \<and> dhp_hid_slot_held t i)"
proof -
  have wf: "hid_wf (dhp_hid_forget t slot)" using assms hid.wf_forget by blast
  moreover have "dhp_hid_slot_held (dhp_hid_forget t slot) i \<longleftrightarrow> i \<noteq> slot \<and> dhp_hid_slot_held t i"
  proof (cases "i = slot")
    case True
    with assms wf hid.held_iff [OF wf assms(2)] show ?thesis by (simp add: hid.view_forget)
  next
    case False
    with assms view_held_cong [OF assms(1) wf, of i] show ?thesis by (simp add: hid.view_forget)
  qed
  ultimately show ?thesis by blast
qed

lemma forget_used_held:
  assumes "hid_wf t"
  shows "hid_wf (forget_used chain t) \<and>
    (dhp_hid_slot_held (forget_used chain t) i \<longleftrightarrow> dhp_hid_slot_held t i \<and> \<not> ce_used (chain ! i))"
proof -
  have "hid_wf (fold (\<lambda>i t. if ce_used (chain ! i) then dhp_hid_forget t i else t) [0..<n] t) \<and>
    (\<forall>i. dhp_hid_slot_held (fold (\<lambda>i t. if ce_used (chain ! i) then dhp_hid_forget t i else t) [0..<n] t) i \<longleftrightarrow>
       dhp_hid_slot_held t i \<and> \<not> (i < n \<and> ce_used (chain ! i)))" if "n \<le> DHP_MAX_BOARDS" for n
    using that
  proof (induction n)
    case (Suc n)
    then show ?case using forget_held [of "fold (\<lambda>i t. if ce_used (chain ! i) then dhp_hid_forget t i else t) [0..<n] t" n]
      by (auto simp: less_Suc_eq)
  qed (simp add: assms)
  from this [of DHP_MAX_BOARDS] show ?thesis
    using hid.held_out [of i t] by (auto simp: forget_used_def not_less [symmetric] simp del: not_less)
qed

lemma hid_inv_less:
  assumes "hid_inv r" "holds_less (rt_hid r) (rt_hid r')" "chain_grows (rt_chain r) (rt_chain r')" "rt_self_slot r' = rt_self_slot r"
  shows "hid_inv r'"
  using assms by (auto simp: hid_inv_def holds_less_def chain_grows_def)

lemma keys_ok_less:
  assumes "keys_ok r" "hid_wf (rt_hid r)" "holds_less (rt_hid r) (rt_hid r')" "u_keys_held (rt_uhrp r') = u_keys_held (rt_uhrp r)"
  shows "keys_ok r'"
  using assms holds_less_any [of "rt_hid r" "rt_hid r'"] by (auto simp: keys_ok_def)

lemma hid_invD: "hid_inv r \<Longrightarrow> hid_wf (rt_hid r)"
  by (simp add: hid_inv_def)

lemma slot_of_used:
  assumes "hid_inv r"
  shows "slot_of r a < DHP_MAX_BOARDS \<and> ce_used (rt_chain r ! slot_of r a)"
  using assms chain.find_Some [of a "rt_chain r"]
  by (auto simp: slot_of_def chain_find_def hid_inv_def split: option.splits)

text \<open>A step of the router that holds no more than before keeps the whole invariant.\<close>

definition calms :: "dhp_router_t \<Rightarrow> dhp_router_t \<Rightarrow> bool" where
  "calms r r' \<longleftrightarrow>
     holds_less (rt_hid r) (rt_hid r') \<and> chain_grows (rt_chain r) (rt_chain r') \<and> rt_self_slot r' = rt_self_slot r \<and>
     rc_self (rt_cfg r') = rc_self (rt_cfg r) \<and>
     u_keys_held (rt_uhrp r') = u_keys_held (rt_uhrp r) \<and> u_started (rt_uhrp r') = u_started (rt_uhrp r) \<and>
     (\<not> u_started (rt_uhrp r) \<longrightarrow> u_state (rt_uhrp r') = u_state (rt_uhrp r))"

lemma calms_refl [simp]: "hid_inv r \<Longrightarrow> calms r r"
  by (simp add: calms_def hid_inv_def)

lemma calms_inv: "router_inv r \<Longrightarrow> calms r r' \<Longrightarrow> router_inv r'"
  using hid_inv_less [of r r'] keys_ok_less [of r r'] by (auto simp: router_inv_def calms_def hid_inv_def)

lemma calms_hid_inv: "hid_inv r \<Longrightarrow> calms r r' \<Longrightarrow> hid_inv r'"
  using hid_inv_less [of r r'] by (simp add: calms_def)

lemma calms_trans: "calms r s \<Longrightarrow> calms s v \<Longrightarrow> calms r v"
  unfolding calms_def using chain_grows_trans by (auto simp: holds_less_def)

lemma calms_release: "hid_inv r \<Longrightarrow> calms r (release_machine r a now)"
  using slot_of_used [of r a] release_holds_less [of "rt_hid r" "slot_of r a"] by (simp add: calms_def hid_inv_def)

lemma calms_core:
  assumes "hid_inv r" "rt_hid r' = rt_hid r" "rt_chain r' = rt_chain r" "rt_self_slot r' = rt_self_slot r" "rt_cfg r' = rt_cfg r"
    "rt_uhrp r' = rt_uhrp r"
  shows "calms r r'"
  using assms by (simp add: calms_def hid_inv_def)

lemma calms_drain:
  assumes "hid_inv r"
  shows "calms r (drain_uhrp r now)"
  using forget_used_held [OF hid_invD [OF assms], of "rt_chain r"] hid_invD [OF assms]
  by (auto simp: calms_def holds_less_def)

lemma calms_apply_focus:
  assumes "hid_inv r" "apply_focus r target reason edge now announce = Some r'"
  shows "calms r r'"
proof (cases "target = DHP_ADDR_NONE \<or> target = rt_focus r")
  case True
  with assms show ?thesis by (simp add: apply_focus_def)
next
  case False
  let ?r1 = "release_machine r (rt_focus r) now"
  obtain p where "dhp_pointer_arrive (rt_pointer r) edge now = Some p"
    using assms(2) False by (auto simp: apply_focus_def Let_def split: option.splits)
  with assms(2) False have "rt_hid r' = rt_hid ?r1" "rt_chain r' = rt_chain ?r1" "rt_self_slot r' = rt_self_slot ?r1"
      "rt_cfg r' = rt_cfg ?r1" "rt_uhrp r' = rt_uhrp ?r1"
    by (auto simp: apply_focus_def Let_def)
  then have "calms ?r1 r'" using calms_hid_inv [OF assms(1) calms_release [OF assms(1)]] by (intro calms_core)
  with calms_release [OF assms(1)] show ?thesis by (rule calms_trans)
qed

lemma uhrp_calls_keep:
  "u_keys_held (dhp_uhrp_rx_hello u src h now) = u_keys_held u" "u_started (dhp_uhrp_rx_hello u src h now) = u_started u"
  "u_keys_held (dhp_uhrp_rx_resign u src now) = u_keys_held u" "u_started (dhp_uhrp_rx_resign u src now) = u_started u"
  "u_keys_held (dhp_uhrp_tick u now) = u_keys_held u" "u_started (dhp_uhrp_tick u now) = u_started u"
  "\<not> u_started u \<Longrightarrow> u_state (dhp_uhrp_rx_hello u src h now) = u_state u"
  "\<not> u_started u \<Longrightarrow> u_state (dhp_uhrp_rx_resign u src now) = u_state u"
  "\<not> u_started u \<Longrightarrow> u_state (dhp_uhrp_tick u now) = u_state u"
proof -
  obtain r u1 where g: "peer_get u src = (r, u1)" by fastforce
  from peer_get_same_role [OF g] have "u_keys_held u1 = u_keys_held u" "u_started u1 = u_started u" by (simp_all add: same_role_def)
  then show "u_keys_held (dhp_uhrp_rx_hello u src h now) = u_keys_held u" "u_started (dhp_uhrp_rx_hello u src h now) = u_started u"
    by (cases r; simp add: dhp_uhrp_rx_hello_def g Let_def)+
qed (simp_all add: dhp_uhrp_rx_resign_def dhp_uhrp_tick_def dhp_uhrp_rx_hello_def Let_def split: option.split)

text \<open>An election call followed by its drain.\<close>

lemma calms_election:
  assumes "hid_inv r" "u_keys_held u = u_keys_held (rt_uhrp r)" "u_started u = u_started (rt_uhrp r)"
    "\<not> u_started (rt_uhrp r) \<Longrightarrow> u_state u = u_state (rt_uhrp r)"
  shows "calms r (drain_uhrp (r\<lparr>rt_uhrp := u\<rparr>) now)"
proof -
  have "hid_inv (r\<lparr>rt_uhrp := u\<rparr>)" using assms(1) by (simp add: hid_inv_def)
  from calms_drain [OF this, of now] show ?thesis using assms by (simp add: calms_def)
qed

lemma hid_inv_note:
  assumes "hid_inv r" "hid_wf t'" "\<And>i. i \<noteq> slot_of r a \<Longrightarrow> dhp_hid_slot_held t' i = dhp_hid_slot_held (rt_hid r) i"
    "rt_hid r' = t'" "rt_chain r' = rt_chain r" "rt_self_slot r' = rt_self_slot r"
  shows "hid_inv r'"
  using assms slot_of_used [OF assms(1), of a] unfolding hid_inv_def by metis

lemma note_kbd_other:
  assumes "hid_wf t" "kbd_wf k" "slot < DHP_MAX_BOARDS" "i \<noteq> slot"
  shows "dhp_hid_slot_held (dhp_hid_note_kbd t slot k) i = dhp_hid_slot_held t i"
  using assms by (intro view_held_cong) (simp_all add: hid.wf_kbd hid.view_kbd)

lemma note_mouse_other:
  assumes "hid_wf t" "slot < DHP_MAX_BOARDS" "i \<noteq> slot"
  shows "dhp_hid_slot_held (dhp_hid_note_mouse t slot b) i = dhp_hid_slot_held t i"
  using assms by (intro view_held_cong) (simp_all add: hid.wf_mouse hid.view_mouse)

lemma send_kbd_to_inv:
  assumes "hid_inv r" "kbd_wf k"
  shows "hid_inv (send_kbd_to r a k now)" "rt_uhrp (send_kbd_to r a k now) = rt_uhrp r"
proof -
  show "hid_inv (send_kbd_to r a k now)"
    by (rule hid_inv_note [OF assms(1) hid.wf_kbd [OF hid_invD [OF assms(1)] assms(2)], of a])
      (use slot_of_used [OF assms(1), of a] note_kbd_other [OF hid_invD [OF assms(1)] assms(2)] in \<open>auto simp: send_kbd_to_def Let_def\<close>)
qed (simp add: send_kbd_to_def Let_def)

lemma send_mouse_to_inv:
  assumes "hid_inv r"
  shows "hid_inv (send_mouse_to r a m now)" "rt_uhrp (send_mouse_to r a m now) = rt_uhrp r"
proof -
  show "hid_inv (send_mouse_to r a m now)"
    by (rule hid_inv_note [OF assms(1) hid.wf_mouse [OF hid_invD [OF assms(1)]], of a])
      (use slot_of_used [OF assms(1), of a] note_mouse_other [OF hid_invD [OF assms(1)]] in \<open>auto simp: send_mouse_to_def Let_def\<close>)
qed (simp add: send_mouse_to_def Let_def)

lemma note_held_inv:
  assumes "hid_inv r" "\<not> u_started (rt_uhrp r) \<longrightarrow> u_state (rt_uhrp r) = DHP_UHRP_INIT"
  shows "router_inv (note_held r now)"
proof -
  let ?r = "r\<lparr>rt_uhrp := dhp_uhrp_set_keys_held (rt_uhrp r) (dhp_hid_any_held (rt_hid r))\<rparr>"
  have "router_inv ?r" using assms by (simp add: router_inv_def hid_inv_def keys_ok_def dhp_uhrp_set_keys_held_def)
  moreover from this have "calms ?r (drain_uhrp ?r now)" by (intro calms_drain) (simp add: router_inv_def)
  ultimately show ?thesis unfolding note_held_def by (rule calms_inv)
qed

lemma forward_input_core:
  assumes "forward_input r kind report now = (r1, b)"
  shows "rt_cfg r1 = rt_cfg r" "rt_uhrp r1 = rt_uhrp r" "rt_hid r1 = rt_hid r" "rt_chain r1 = rt_chain r" "rt_self_slot r1 = rt_self_slot r"
    "rt_pointer r1 = rt_pointer r" "rt_focus r1 = rt_focus r" "b \<longleftrightarrow> \<not> dhp_router_is_active r" "\<not> b \<Longrightarrow> r1 = r"
  using assms by (auto simp: forward_input_def split: if_splits)

lemma local_kbd_inv:
  assumes "router_inv r" "kbd_wf k"
  shows "router_inv (dhp_router_local_kbd r k now)"
proof -
  obtain r1 b where f: "forward_input r DHP_INPUT_KIND_KBD (dhp_kbd_pack k) now = (r1, b)" by fastforce
  note F = forward_input_core [OF f]
  show ?thesis
  proof (cases b)
    case True
    have "calms r r1" using assms(1) F by (intro calms_core) (simp_all add: router_inv_def)
    with assms(1) True f show ?thesis by (simp add: dhp_router_local_kbd_def calms_inv)
  next
    case False
    with f F(9) show ?thesis
      using send_kbd_to_inv [OF _ assms(2), of r "rt_focus r" now] router_invD [OF assms(1)]
      by (simp add: dhp_router_local_kbd_def note_held_inv)
  qed
qed

lemma local_mouse_inv:
  assumes "router_inv r" "dhp_router_local_mouse r m now = Some r'"
  shows "router_inv r'"
proof -
  obtain r1 b where f: "forward_input r DHP_INPUT_KIND_MOUSE (dhp_mouse_pack m) now = (r1, b)" by fastforce
  note F = forward_input_core [OF f]
  have h: "hid_inv r" using assms(1) by (simp add: router_inv_def)
  show ?thesis
  proof (cases b)
    case True
    have "calms r r1" using h F by (intro calms_core)
    with assms True f show ?thesis by (simp add: dhp_router_local_mouse_def calms_inv)
  next
    case False
    with F(9) have "r1 = r" by simp
    with f False assms(2) obtain p edge where "dhp_pointer_feed (rt_pointer r) (mo_dx m) (mo_dy m) now = Some (p, edge)"
      by (auto simp: dhp_router_local_mouse_def split: option.splits)
    let ?r = "r\<lparr>rt_pointer := p\<rparr>"
    have ri: "router_inv ?r" "hid_inv ?r" using assms(1) by (simp_all add: router_inv_def hid_inv_def keys_ok_def)
    consider target edge where "apply_focus ?r target DHP_FOCUS_R_EDGE edge now True = Some r'"
      | "r' = note_held (send_mouse_to ?r (rt_focus r) m now) now"
      using assms(2) f False \<open>r1 = r\<close> \<open>dhp_pointer_feed _ _ _ _ = _\<close>
      by (auto simp: dhp_router_local_mouse_def Let_def split: if_splits)
    then show ?thesis
    proof cases
      case 1
      then show ?thesis using calms_inv [OF ri(1) calms_apply_focus [OF ri(2)]] by blast
    next
      case 2
      then show ?thesis using send_mouse_to_inv [OF ri(2), of "rt_focus r" m now] router_invD [OF assms(1)]
        by (simp add: note_held_inv)
    qed
  qed
qed

lemma calms_chain:
  assumes "hid_inv r" "rt_hid r' = rt_hid r" "chain_grows (rt_chain r) (rt_chain r')" "rt_self_slot r' = rt_self_slot r"
    "rc_self (rt_cfg r') = rc_self (rt_cfg r)" "u_keys_held (rt_uhrp r') = u_keys_held (rt_uhrp r)"
    "u_started (rt_uhrp r') = u_started (rt_uhrp r)" "u_state (rt_uhrp r') = u_state (rt_uhrp r)"
  shows "calms r r'"
  using assms by (simp add: calms_def hid_inv_def)

lemma calms_position:
  assumes "hid_inv r" shows "calms r (note_position r f port now)"
proof -
  obtain c where "note_position r f port now = r\<lparr>rt_chain := c\<rparr>" "chain_grows (rt_chain r) c" using note_position_frame by blast
  then show ?thesis using assms by (intro calms_chain) simp_all
qed

lemma calms_level: "hid_inv r \<Longrightarrow> calms r (recompute_level r)"
  by (rule calms_core) simp_all

lemma calms_rx_hello:
  assumes "hid_inv r" shows "calms r (rx_hello_frame r src h now)"
proof -
  obtain i r1 where g: "chain_get r src = (i, r1)" by fastforce
  note G = chain_get_grows [OF g]
  let ?g = "\<lambda>e. e\<lparr>ce_uid := he_uid h, ce_caps := he_caps h\<rparr>"
  define r2 where "r2 = (case i of None \<Rightarrow> r1 | Some i \<Rightarrow> upd_chain i ?g r1)"
  have "chain_grows (rt_chain r) (rt_chain r2)"
    using G(1) chain_grows_trans [OF G(1) upd_chain_grows [of ?g r1]] by (simp add: r2_def split: option.split)
  moreover obtain c where "r1 = r\<lparr>rt_chain := c\<rparr>" using G(2) by blast
  ultimately have c2: "calms r r2" using assms by (intro calms_chain) (simp_all add: r2_def split: option.split)
  let ?r3 = "drain_uhrp (r2\<lparr>rt_uhrp := dhp_uhrp_rx_hello (rt_uhrp r2) src h now\<rparr>) now"
  have h2: "hid_inv r2" using calms_hid_inv [OF assms c2] .
  have c3: "calms r2 ?r3" by (rule calms_election [OF h2]) (simp_all add: uhrp_calls_keep)
  have "rx_hello_frame r src h now = recompute_level ?r3"
    using g by (cases i) (simp_all add: rx_hello_frame_def r2_def)
  then show ?thesis using c2 c3 calms_level [OF calms_hid_inv [OF h2 c3]] calms_trans by metis
qed

lemma calms_rx_focus:
  assumes "hid_inv r" shows "calms r (rx_focus_frame r fo now)"
proof -
  have "calms r (call_hook g e (r\<lparr>rt_focus := a\<rparr>)) \<and> calms r (release_machine (call_hook g e (r\<lparr>rt_focus := a\<rparr>)) b now)" for g e a b
  proof -
    have c: "calms r (call_hook g e (r\<lparr>rt_focus := a\<rparr>))" using assms by (intro calms_core) simp_all
    with calms_release [OF calms_hid_inv [OF assms c]] calms_trans show ?thesis by blast
  qed
  with assms show ?thesis by (simp add: rx_focus_frame_def Let_def)
qed

lemma rx_input_cases:
  assumes "rx_input_frame r f now = Some r'"
  obtains (same) "r' = r"
  | (kbd) i k where "dhp_router_is_active r" "chain_find r (fr_src f) = Some i" "ce_caps (rt_chain r ! i) AND DHP_CAP_HID_IN \<noteq> 0"
      "dhp_kbd_unpack (drop 1 (frame_bytes f)) = Some k" "r' = dhp_router_local_kbd r k now"
  | (mouse) i m where "dhp_router_is_active r" "chain_find r (fr_src f) = Some i" "ce_caps (rt_chain r ! i) AND DHP_CAP_HID_IN \<noteq> 0"
      "dhp_mouse_unpack (drop 1 (frame_bytes f)) = Some m" "dhp_router_local_mouse r m now = Some r'"
proof (cases "dhp_router_is_active r \<and> \<not> fr_len f < 1")
  case False
  with assms same show thesis by (simp add: rx_input_frame_def)
next
  case True
  show thesis
  proof (cases "chain_find r (fr_src f)")
    case None
    with True assms same show thesis by (simp add: rx_input_frame_def)
  next
    case (Some i)
    note act = True
    show thesis
    proof (cases "ce_caps (rt_chain r ! i) AND DHP_CAP_HID_IN = 0")
      case True
      show thesis by (rule same) (use assms act Some True in \<open>simp add: rx_input_frame_def\<close>)
    next
      case cap: False
      show thesis
      proof (cases "frame_bytes f ! 0 = DHP_INPUT_KIND_KBD")
        case k: True
        show thesis
        proof (cases "dhp_kbd_unpack (drop 1 (frame_bytes f))")
          case None
          show thesis by (rule same) (use assms act Some cap k None in \<open>simp add: rx_input_frame_def\<close>)
        next
          case (Some rep)
          show thesis by (rule kbd [of i rep])
              (use assms act \<open>chain_find r (fr_src f) = Some i\<close> cap k Some in \<open>simp_all add: rx_input_frame_def\<close>)
        qed
      next
        case k: False
        show thesis
        proof (cases "frame_bytes f ! 0 = DHP_INPUT_KIND_MOUSE \<and> dhp_mouse_unpack (drop 1 (frame_bytes f)) \<noteq> None")
          case True
          then obtain rep where "dhp_mouse_unpack (drop 1 (frame_bytes f)) = Some rep" by blast
          then show thesis by (intro mouse [of i rep]) (use assms act Some cap k True in \<open>simp_all add: rx_input_frame_def\<close>)
        next
          case False
          show thesis by (rule same) (use assms act Some cap k False in \<open>auto simp: rx_input_frame_def split: if_splits\<close>)
        qed
      qed
    qed
  qed
qed

lemma rx_input_inv:
  assumes "router_inv r" "rx_input_frame r f now = Some r'"
  shows "router_inv r'"
  using assms(2)
proof (cases rule: rx_input_cases)
  case same
  with assms(1) show ?thesis by simp
next
  case (kbd i k)
  then show ?thesis using local_kbd_inv [OF assms(1)] kbd_sound [OF kbd(4)] by simp
next
  case (mouse i m)
  then show ?thesis using local_mouse_inv [OF assms(1)] by simp
qed

lemma router_rx_cases:
  assumes "dhp_router_rx r0 f port now = Some r'" and r: "r = note_position r0 f port now"
  obtains (same) "r' = r"
  | (hello) h where "r' = rx_hello_frame r (fr_src f) h now"
  | (resign) "r' = recompute_level (drain_uhrp (r\<lparr>rt_uhrp := dhp_uhrp_rx_resign (rt_uhrp r) (fr_src f) now\<rparr>) now)"
  | (deliver) g e where "r' = call_hook g e r"
  | (focus) fo where "r' = rx_focus_frame r fo now"
  | (input) "rx_input_frame r f now = Some r'"
  | (release) "r' = deliver_both kbd_empty mouse_empty (r\<lparr>rt_hid := dhp_hid_forget (rt_hid r) (rt_self_slot r)\<rparr>)"
proof -
  note rx = assms(1) [unfolded dhp_router_rx_def Let_def, folded r]
  consider "fr_type f = msg_code DHP_MSG_HELLO" | "fr_type f = msg_code DHP_MSG_RESIGN" | "fr_type f = msg_code DHP_MSG_KBD"
    | "fr_type f = msg_code DHP_MSG_MOUSE" | "fr_type f = msg_code DHP_MSG_FOCUS" | "fr_type f = msg_code DHP_MSG_DATA"
    | "fr_type f = msg_code DHP_MSG_INPUT" | "fr_type f = msg_code DHP_MSG_RELEASE"
    | "fr_type f \<noteq> msg_code DHP_MSG_HELLO" "fr_type f \<noteq> msg_code DHP_MSG_RESIGN" "fr_type f \<noteq> msg_code DHP_MSG_KBD"
      "fr_type f \<noteq> msg_code DHP_MSG_MOUSE" "fr_type f \<noteq> msg_code DHP_MSG_FOCUS" "fr_type f \<noteq> msg_code DHP_MSG_DATA"
      "fr_type f \<noteq> msg_code DHP_MSG_INPUT" "fr_type f \<noteq> msg_code DHP_MSG_RELEASE" by blast
  then show thesis
  proof cases
    case 1 with rx same hello show thesis by (cases "dhp_hello_unpack (frame_bytes f)") auto
  next
    case 2 with rx resign show thesis by auto
  next
    case 3 with rx same deliver show thesis by (cases "dhp_kbd_unpack (frame_bytes f)") auto
  next
    case 4 with rx same deliver show thesis by (cases "dhp_mouse_unpack (frame_bytes f)") auto
  next
    case 5 with rx same focus show thesis by (cases "dhp_focus_unpack (frame_bytes f)") auto
  next
    case 6 with rx deliver show thesis by auto
  next
    case 7 with rx input show thesis by auto
  next
    case 8 with rx release show thesis by auto
  next
    case 9 with rx same show thesis by auto
  qed
qed

lemma router_rx_inv:
  assumes "router_inv r0" "dhp_router_rx r0 f port now = Some r'"
  shows "router_inv r'"
proof -
  define r where "r = note_position r0 f port now"
  have ri: "router_inv r" unfolding r_def using calms_inv [OF assms(1) calms_position] router_invD(1) [OF assms(1)] by blast
  note h = router_invD(1) [OF ri]
  from assms(2) r_def show ?thesis
  proof (cases rule: router_rx_cases)
    case (hello hl)
    then show ?thesis using calms_inv [OF ri calms_rx_hello [OF h]] by simp
  next
    case resign
    let ?d = "drain_uhrp (r\<lparr>rt_uhrp := dhp_uhrp_rx_resign (rt_uhrp r) (fr_src f) now\<rparr>) now"
    have c: "calms r ?d" by (rule calms_election [OF h]) (simp_all add: uhrp_calls_keep)
    then show ?thesis using resign calms_inv [OF ri calms_trans [OF c calms_level [OF calms_hid_inv [OF h c]]]] by simp
  next
    case (deliver g e)
    have "calms r r'" unfolding deliver by (rule calms_core [OF h]) simp_all
    then show ?thesis by (rule calms_inv [OF ri])
  next
    case (focus fo)
    then show ?thesis using calms_inv [OF ri calms_rx_focus [OF h]] by simp
  next
    case input
    then show ?thesis by (rule rx_input_inv [OF ri])
  next
    case release
    have "rt_self_slot r < DHP_MAX_BOARDS" "hid_wf (rt_hid r)" using h by (simp_all add: hid_inv_def)
    then have "holds_less (rt_hid r) (rt_hid r')" using forget_held release by (simp add: holds_less_def)
    then have "calms r r'" using release by (simp add: calms_def)
    then show ?thesis by (rule calms_inv [OF ri])
  qed (use ri in simp)
qed

section \<open>Calls in any order\<close>

text \<open>
  What a board does to its router: it starts it once, feeds it input, button presses, frames and
  ticks, and between the calls the link receives bytes and the trace is taken out.
\<close>

inductive router_step :: "dhp_router_t \<Rightarrow> dhp_router_t \<Rightarrow> bool" where
  start: "\<not> u_started (rt_uhrp r) \<Longrightarrow> dhp_router_start r now = Some r' \<Longrightarrow> router_step r r'"
| kbd: "kbd_wf k \<Longrightarrow> router_step r (dhp_router_local_kbd r k now)"
| mouse: "dhp_router_local_mouse r m now = Some r' \<Longrightarrow> router_step r r'"
| button: "dhp_router_button r now = Some r' \<Longrightarrow> router_step r r'"
| set_focus: "dhp_router_set_focus r target reason now = Some r' \<Longrightarrow> router_step r r'"
| rx: "dhp_router_rx r f port now = Some r' \<Longrightarrow> router_step r r'"
| set_caps: "router_step r (dhp_router_set_caps r caps)"
| tick: "router_step r (dhp_router_tick r now)"
| outside: "router_step r (r\<lparr>rt_link := l, rt_out := evs\<rparr>)"

inductive_cases router_stepE: "router_step r r'"

lemma router_start_inv:
  assumes "router_inv r" "\<not> u_started (rt_uhrp r)" "dhp_router_start r now = Some r'"
  shows "router_inv r'"
proof -
  obtain p where r': "r' = drain_uhrp (r\<lparr>rt_uhrp := dhp_uhrp_start (rt_uhrp r) now, rt_pointer := p\<rparr>) now"
    using assms(3) by (auto simp: dhp_router_start_def)
  let ?r = "r\<lparr>rt_uhrp := dhp_uhrp_start (rt_uhrp r) now, rt_pointer := p\<rparr>"
  have "router_inv ?r" using router_invD [OF assms(1)] by (simp add: router_inv_def hid_inv_def keys_ok_def dhp_uhrp_start_def)
  then show ?thesis unfolding r' using calms_inv calms_drain router_invD(1) by blast
qed

lemma calms_set_caps:
  assumes "hid_inv r" shows "calms r (dhp_router_set_caps r caps)"
proof -
  have "chain_grows (rt_chain r) (rt_chain (dhp_router_set_caps r caps))"
    by (auto simp: dhp_router_set_caps_def Let_def upd_chain_def chain_grows_update split: option.splits)
  then show ?thesis using assms
    by (intro calms_chain) (simp_all add: dhp_router_set_caps_def Let_def split: option.split)
qed

lemma calms_tick:
  assumes "hid_inv r" shows "calms r (dhp_router_tick r now)"
proof -
  let ?r1 = "r\<lparr>rt_link := dhp_link_tick (rt_link r) now\<rparr>"
  have c1: "calms r ?r1" using assms by (intro calms_core) simp_all
  let ?r2 = "drain_uhrp (?r1\<lparr>rt_uhrp := dhp_uhrp_tick (rt_uhrp ?r1) now\<rparr>) now"
  have c2: "calms ?r1 ?r2" by (rule calms_election [OF calms_hid_inv [OF assms c1]]) (simp_all add: uhrp_calls_keep)
  have c: "calms r ?r2" using calms_trans [OF c1 c2] .
  have "dhp_router_tick r now = recompute_level ?r2" by (simp add: dhp_router_tick_def)
  then show ?thesis using calms_trans [OF c calms_level [OF calms_hid_inv [OF assms c]]] by simp
qed

lemma calms_button:
  assumes "hid_inv r" "dhp_router_button r now = Some r'" shows "calms r r'"
  using assms calms_apply_focus [OF assms(1)] by (auto simp: dhp_router_button_def split: if_splits)

lemma router_step_inv:
  assumes "router_step r r'" "router_inv r" shows "router_inv r'"
proof -
  note h = router_invD(1) [OF assms(2)] and ci = calms_inv [OF assms(2)]
  from assms(1) show ?thesis
  proof cases
    case (start now)
    then show ?thesis using router_start_inv [OF assms(2)] by blast
  next
    case (outside l evs)
    have "calms r r'" unfolding outside by (rule calms_core [OF h]) simp_all
    then show ?thesis by (rule ci)
  next
    case (set_focus target reason now)
    then show ?thesis using ci calms_apply_focus [OF h] by (simp add: dhp_router_set_focus_def)
  qed (use assms(2) local_kbd_inv local_mouse_inv router_rx_inv ci calms_button [OF h] calms_set_caps [OF h] calms_tick [OF h] in blast)+
qed

lemma router_init_inv: "router_inv (dhp_router_init cfg l hooks)"
proof -
  let ?c = "replicate DHP_MAX_BOARDS chain_zero"
  have n: "0 < DHP_MAX_BOARDS" by (simp add: DHP_MAX_BOARDS_def)
  have f: "tbl_find ce_used ce_addr a ?c = None" "find_idx (\<lambda>e. \<not> ce_used e) ?c = Some 0" for a
    by (auto simp: chain.find_None chain_zero_def find_idx_Some_iff DHP_MAX_BOARDS_def)
  have "\<not> dhp_hid_any_held dhp_hid_tracker_init"
    using hid.not_any_held [OF hid_wf_init] hid_view_init by blast
  moreover from this have "\<not> dhp_hid_slot_held dhp_hid_tracker_init i" if "i < DHP_MAX_BOARDS" for i
    using that hid.any_held_iff [OF hid_wf_init] by blast
  moreover let ?r = "dhp_router_init cfg l hooks"
  have "rt_chain ?r = ?c[0 := (chain_claim (rc_self cfg) chain_zero)\<lparr>ce_uid := rc_uid cfg, ce_caps := rc_caps cfg, ce_rel_pos := 0\<rparr>]"
    "rt_self_slot ?r = 0" "rt_hid ?r = dhp_hid_tracker_init" "\<not> u_keys_held (rt_uhrp ?r)" "u_state (rt_uhrp ?r) = DHP_UHRP_INIT"
    using n by (simp_all add: dhp_router_init_def Let_def chain_get_def tbl_get_def f upd_chain_def)
      (simp_all add: dhp_uhrp_init_def Let_def)
  ultimately show ?thesis
    using hid_wf_init by (simp add: router_inv_def hid_inv_def keys_ok_def chain_claim_def DHP_MAX_BOARDS_def)
qed

interpretation router: transition_system "\<lambda>r. \<exists>cfg l hooks. r = dhp_router_init cfg l hooks" router_step router_inv
  by unfold_locales (use router_init_inv router_step_inv in auto)

section \<open>Giving up the role\<close>

lemma role_leaves_releases:
  assumes "u_started u" "u_state u = DHP_UHRP_ACTIVE" "\<forall>t. c \<noteq> Start t" "u_state (uhrp_do c u) \<noteq> DHP_UHRP_ACTIVE" "u_keys_held u"
  shows "ue_broadcast_release (u_ev (uhrp_do c u))"
proof -
  obtain v now where v: "same_role u v" "u_state (uhrp_do c u) = u_state (reevaluate v now)"
    "ue_broadcast_release (u_ev (uhrp_do c u)) = ue_broadcast_release (u_ev (reevaluate v now))"
    using role_change_reevaluates [OF assms(1,3)] assms(2,4) by metis
  then show ?thesis using reevaluate_leaves [of v now] assms by (simp add: same_role_def)
qed

lemma drained_nothing_held:
  assumes "hid_inv r" "keys_ok r" "u_keys_held (rt_uhrp r) \<longrightarrow> ue_broadcast_release (u_ev (rt_uhrp r))"
  shows "\<not> dhp_hid_any_held (rt_hid (drain_uhrp r now))"
proof (cases "ue_broadcast_release (u_ev (rt_uhrp r))")
  case True
  have "\<not> dhp_hid_slot_held (forget_used (rt_chain r) (rt_hid r)) i" for i
    using forget_used_held [OF hid_invD [OF assms(1)], of "rt_chain r" i] assms(1) hid.held_out [of i]
    by (cases "i < DHP_MAX_BOARDS") (auto simp: hid_inv_def)
  then show ?thesis using True hid.any_held_iff forget_used_held [OF hid_invD [OF assms(1)]] by simp
next
  case False
  with assms(2,3) show ?thesis by (simp add: keys_ok_def)
qed

lemma election_handover:
  assumes "router_inv r" "u_state (rt_uhrp r) = DHP_UHRP_ACTIVE" "\<forall>t. c \<noteq> Start t" "\<forall>b. c \<noteq> SetKeysHeld b"
    "u_state (uhrp_do c (rt_uhrp r)) \<noteq> DHP_UHRP_ACTIVE"
  shows "\<not> dhp_hid_any_held (rt_hid (drain_uhrp (r\<lparr>rt_uhrp := uhrp_do c (rt_uhrp r)\<rparr>) now))"
proof (rule drained_nothing_held)
  have "u_keys_held (uhrp_do c (rt_uhrp r)) = u_keys_held (rt_uhrp r)"
  proof (cases c)
    case (SetKeysHeld b)
    with assms(4) show ?thesis by blast
  qed (use assms(3) in \<open>simp_all add: uhrp_calls_keep dhp_uhrp_take_events_def\<close>)
  moreover have "u_started (rt_uhrp r)" using router_invD(3) [OF assms(1)] assms(2) by auto
  ultimately show "hid_inv (r\<lparr>rt_uhrp := uhrp_do c (rt_uhrp r)\<rparr>)" "keys_ok (r\<lparr>rt_uhrp := uhrp_do c (rt_uhrp r)\<rparr>)"
    "u_keys_held (rt_uhrp (r\<lparr>rt_uhrp := uhrp_do c (rt_uhrp r)\<rparr>)) \<longrightarrow>
       ue_broadcast_release (u_ev (rt_uhrp (r\<lparr>rt_uhrp := uhrp_do c (rt_uhrp r)\<rparr>)))"
    using router_invD [OF assms(1)] role_leaves_releases [OF _ assms(2,3,5)] by (simp_all add: hid_inv_def keys_ok_def)
qed

lemma rx_hello_handover:
  assumes ri: "router_inv r" and act: "u_state (rt_uhrp r) = DHP_UHRP_ACTIVE" and r': "r' = rx_hello_frame r src h now"
    and "\<not> dhp_router_is_active r'"
  shows "\<not> dhp_hid_any_held (rt_hid r')"
proof -
  obtain i r1 where g: "chain_get r src = (i, r1)" by fastforce
  let ?g = "\<lambda>e. e\<lparr>ce_uid := he_uid h, ce_caps := he_caps h\<rparr>"
  define r2 where "r2 = (case i of None \<Rightarrow> r1 | Some i \<Rightarrow> upd_chain i ?g r1)"
  note G = chain_get_grows [OF g]
  obtain c where r1: "r1 = r\<lparr>rt_chain := c\<rparr>" using G(2) by blast
  have "chain_grows (rt_chain r) (rt_chain r2)"
    using G(1) chain_grows_trans [OF G(1) upd_chain_grows [of ?g r1]] by (simp add: r2_def split: option.split)
  then have "calms r r2" using router_invD(1) [OF ri] r1 by (intro calms_chain) (simp_all add: r2_def split: option.split)
  then have ri2: "router_inv r2" using calms_inv [OF ri] by blast
  have u2: "rt_uhrp r2 = rt_uhrp r" by (simp add: r2_def r1 split: option.split)
  have "r' = recompute_level (drain_uhrp (r2\<lparr>rt_uhrp := dhp_uhrp_rx_hello (rt_uhrp r2) src h now\<rparr>) now)"
    using g by (cases i) (simp_all add: r' rx_hello_frame_def r2_def)
  then show ?thesis
    using election_handover [OF ri2, of "RxHello src h now" now] u2 act assms(4)
    by (simp add: dhp_router_is_active_def dhp_uhrp_is_active_def)
qed

lemma role_kept:
  "dhp_router_is_active (dhp_router_local_kbd r k now) = dhp_router_is_active r"
  "dhp_router_local_mouse r m now = Some r' \<Longrightarrow> dhp_router_is_active r' = dhp_router_is_active r"
  "apply_focus r target reason edge now announce = Some r' \<Longrightarrow> dhp_router_is_active r' = dhp_router_is_active r"
  "dhp_router_is_active (dhp_router_set_caps r caps) = dhp_router_is_active r"
  "dhp_router_is_active (rx_focus_frame r fo now) = dhp_router_is_active r"
proof -
  have nh: "dhp_router_is_active (note_held s now) = dhp_router_is_active s" for s
    by (simp add: dhp_router_is_active_def note_held_def dhp_uhrp_is_active_def dhp_uhrp_set_keys_held_def)
  have af: "dhp_router_is_active r' = dhp_router_is_active r"
    if "apply_focus r target reason edge now announce = Some r'" for r r' target reason edge announce
    using that by (auto simp: apply_focus_def dhp_router_is_active_def Let_def split: if_splits option.splits)
  obtain r1 b where f: "forward_input r DHP_INPUT_KIND_KBD (dhp_kbd_pack k) now = (r1, b)" by fastforce
  from forward_input_core [OF f] show "dhp_router_is_active (dhp_router_local_kbd r k now) = dhp_router_is_active r"
    by (cases b) (simp_all add: dhp_router_local_kbd_def f nh, simp_all add: dhp_router_is_active_def send_kbd_to_def Let_def)
  show "dhp_router_is_active r' = dhp_router_is_active r" if lm: "dhp_router_local_mouse r m now = Some r'"
  proof -
    obtain r1 b where f: "forward_input r DHP_INPUT_KIND_MOUSE (dhp_mouse_pack m) now = (r1, b)" by fastforce
    note F = forward_input_core [OF f]
    consider "r' = r1" | p target edge where "apply_focus (r1\<lparr>rt_pointer := p\<rparr>) target DHP_FOCUS_R_EDGE edge now True = Some r'"
      | p where "r' = note_held (send_mouse_to (r1\<lparr>rt_pointer := p\<rparr>) (rt_focus r1) m now) now"
      using lm f by (cases b) (auto simp: dhp_router_local_mouse_def Let_def split: option.splits if_splits)
    then show ?thesis
      by cases (use F(2) af nh in \<open>auto simp: dhp_router_is_active_def send_mouse_to_def Let_def\<close>)
  qed
qed (auto simp: dhp_router_is_active_def dhp_uhrp_is_active_def dhp_router_set_caps_def rx_focus_frame_def apply_focus_def Let_def
       split: option.splits if_splits)

lemma is_active_simps [simp]:
  "dhp_router_is_active (recompute_level r) = dhp_router_is_active r"
  "dhp_router_is_active (drain_uhrp r now) = dhp_router_is_active r"
  "dhp_router_is_active (call_hook g e r) = dhp_router_is_active r"
  "dhp_router_is_active (deliver_both k m r) = dhp_router_is_active r"
  by (simp_all add: dhp_router_is_active_def dhp_uhrp_is_active_def)

text \<open>
  C1. Handing over never strands a key. Take any router that was initialised and then called
  in any way and order. Whenever a call makes it give up the active role, then afterwards its
  record of what the machines of the chain were told holds nothing: either everything was
  already up, or every board has been ordered to release.
\<close>

theorem handover_leaves_nothing_held:
  assumes "router_step\<^sup>*\<^sup>* (dhp_router_init cfg l hooks) r" "router_step r r'"
    and "dhp_router_is_active r" "\<not> dhp_router_is_active r'"
  shows "\<not> dhp_hid_any_held (rt_hid r')"
proof -
  have ri: "router_inv r" using router.inv_reachable assms(1) by blast
  have act: "u_state (rt_uhrp r) = DHP_UHRP_ACTIVE" using assms(3) by (simp add: dhp_router_is_active_def dhp_uhrp_is_active_def)
  then have started: "u_started (rt_uhrp r)" using router_invD(3) [OF ri] by auto
  from assms(2) show ?thesis
  proof cases
    case (tick now)
    let ?r = "r\<lparr>rt_link := dhp_link_tick (rt_link r) now\<rparr>"
    have "router_inv ?r" using router_step_inv [OF router_step.outside [of r "rt_out r" "dhp_link_tick (rt_link r) now"] ri] by simp
    then show ?thesis
      using election_handover [of ?r "Tick now" now] act assms(4) tick
      by (simp add: dhp_router_tick_def dhp_router_is_active_def dhp_uhrp_is_active_def)
  next
    case (rx f port now)
    define r1 where "r1 = note_position r f port now"
    have ri1: "router_inv r1" unfolding r1_def using calms_inv [OF ri calms_position] router_invD(1) [OF ri] by blast
    have u1: "rt_uhrp r1 = rt_uhrp r" using note_position_frame [of r f port now] by (auto simp: r1_def)
    from rx(1) r1_def show ?thesis
    proof (cases rule: router_rx_cases)
      case (hello h)
      then show ?thesis using rx_hello_handover [OF ri1] u1 act assms(4) by simp
    next
      case resign
      then show ?thesis
        using election_handover [OF ri1, of "RxResign (fr_src f) now" now] u1 act assms(4)
        by (simp add: dhp_router_is_active_def dhp_uhrp_is_active_def)
    next
      case (focus fo)
      then show ?thesis using assms(3,4) role_kept(5) [of r1 fo now] u1 by (simp add: dhp_router_is_active_def)
    next
      case input
      then have "dhp_router_is_active r' = dhp_router_is_active r1"
        by (cases rule: rx_input_cases) (auto simp: role_kept)
      then show ?thesis using assms(3,4) u1 by (simp add: dhp_router_is_active_def)
    qed (use assms(3,4) u1 in \<open>simp_all add: dhp_router_is_active_def\<close>)
  next
    case (button now)
    then show ?thesis using assms(3,4) role_kept(3) by (auto simp: dhp_router_button_def)
  next
    case (set_focus target reason now)
    then show ?thesis using assms(3,4) role_kept(3) by (auto simp: dhp_router_set_focus_def)
  next
    case (mouse m now)
    then show ?thesis using assms(3,4) role_kept(2) by blast
  qed (use assms(3,4) role_kept started in \<open>auto simp: dhp_router_is_active_def\<close>)
qed

text \<open>A board alone on the chain, a key pressed on its own machine, and a stronger board that wants the role.\<close>

definition demo_cfg :: dhp_router_cfg_t where
  "demo_cfg = \<lparr>rc_self = 1, rc_uid = 7, rc_caps = 3, rc_preempt = False, rc_timing = DHP_UHRP_TIMING_DEFAULT,
     rc_pointer = DHP_POINTER_CFG_DEFAULT\<rparr>"

definition demo_hooks :: dhp_router_hooks_t where
  "demo_hooks = \<lparr>rh_deliver_kbd = True, rh_deliver_mouse = True, rh_focus_changed = True, rh_level_changed = True,
     rh_deliver_data = True\<rparr>"

definition demo_router :: dhp_router_t where
  "demo_router = dhp_router_init demo_cfg (dhp_link_init 1 True) (Some demo_hooks)"

definition demo_active :: dhp_router_t where
  "demo_active = dhp_router_tick (the (dhp_router_start demo_router 0)) 150"

definition demo_key :: dhp_kbd_report_t where
  "demo_key = \<lparr>kb_modifiers = 0, kb_keys = [4, 0, 0, 0, 0, 0]\<rparr>"

definition demo_typing :: dhp_router_t where
  "demo_typing = dhp_router_local_kbd demo_active demo_key 155"

definition demo_hello :: dhp_frame_t where
  "demo_hello =
     \<lparr>fr_type = msg_code DHP_MSG_HELLO, fr_ttl = 20, fr_src = 2, fr_dst = 0xFFFF, fr_seq = 0, fr_len = 16,
      fr_payload = Some (dhp_hello_pack \<lparr>he_state = uhrp_state_code DHP_UHRP_LISTEN, he_priority = 200,
        he_flags = DHP_HELLO_F_PREEMPT, he_hold_cs = 15, he_uid = 9, he_caps = 0x103, he_reserved = 0\<rparr>),
      fr_body = [], fr_body_len = 0\<rparr>"

definition demo_challenged :: dhp_router_t where
  "demo_challenged = the (dhp_router_rx demo_typing demo_hello DHP_PORT_DOWN 160)"

lemma demo_active_eval: "dhp_router_start demo_router 0 \<noteq> None \<and> dhp_router_is_active demo_active \<and> rt_focus demo_active = 1"
  by code_simp

lemma demo_challenged_eval:
  "dhp_router_rx demo_typing demo_hello DHP_PORT_DOWN 160 \<noteq> None \<and> dhp_router_is_active demo_challenged \<and>
   dhp_hid_any_held (rt_hid demo_challenged) \<and> \<not> dhp_router_is_active (dhp_router_tick demo_challenged 2200)"
  by code_simp

lemma demo_steps: "router_step\<^sup>*\<^sup>* demo_router demo_challenged"
proof -
  have "dhp_router_start demo_router 0 = Some (the (dhp_router_start demo_router 0))" using demo_active_eval by simp
  then have "router_step demo_router (the (dhp_router_start demo_router 0))"
    by (intro router_step.start) (simp_all add: demo_router_def dhp_router_init_def chain_get_def dhp_uhrp_init_def Let_def split: prod.split)
  moreover have "router_step (the (dhp_router_start demo_router 0)) demo_active" unfolding demo_active_def by (rule router_step.tick)
  moreover have "router_step demo_active demo_typing"
    unfolding demo_typing_def by (rule router_step.kbd) (simp add: kbd_wf_def demo_key_def)
  moreover have "router_step demo_typing demo_challenged"
    by (rule router_step.rx [of _ demo_hello DHP_PORT_DOWN 160]) (use demo_challenged_eval in \<open>simp add: demo_challenged_def\<close>)
  ultimately show ?thesis by (meson rtranclp.rtrancl_refl rtranclp.rtrancl_into_rtrancl)
qed

theorem handover_leaves_nothing_held_witness:
  "dhp_hid_any_held (rt_hid demo_challenged) \<and> \<not> dhp_hid_any_held (rt_hid (dhp_router_tick demo_challenged 2200))"
  using handover_leaves_nothing_held [OF demo_steps [unfolded demo_router_def] router_step.tick [of _ 2200]] demo_challenged_eval
  by simp

text \<open>
  The election always knows. Whatever a router has been through, if anything is still held
  on any machine of the chain, then the election's flag that delays a handover is set, and the
  machine belongs to a board in the chain table, so that the release of everything reaches it.
\<close>

theorem election_knows_held_keys:
  assumes "router_step\<^sup>*\<^sup>* (dhp_router_init cfg l hooks) r" "dhp_hid_slot_held (rt_hid r) i"
  shows "u_keys_held (rt_uhrp r) \<and> i < length (rt_chain r) \<and> ce_used (rt_chain r ! i) \<and>
    \<not> dhp_hid_any_held (rt_hid (broadcast_release_all r now))"
proof -
  have ri: "router_inv r" using router.inv_reachable assms(1) by blast
  note h = router_invD(1) [OF ri]
  have i: "i < DHP_MAX_BOARDS" using assms(2) hid.held_out not_le by blast
  then have "dhp_hid_any_held (rt_hid r)" using assms(2) hid.any_held_iff [OF hid_invD [OF h]] by blast
  moreover have "\<not> dhp_hid_any_held (forget_used (rt_chain r) (rt_hid r))"
    using forget_used_held [OF hid_invD [OF h]] h by (simp add: hid.any_held_iff hid_inv_def)
  ultimately show ?thesis using router_invD(2) [OF ri] h i assms(2) by (simp add: keys_ok_def hid_inv_def)
qed

theorem election_knows_held_keys_witness:
  "u_keys_held (rt_uhrp demo_challenged) \<and> \<not> dhp_hid_any_held (rt_hid (broadcast_release_all demo_challenged 161))"
proof -
  have "dhp_hid_slot_held (rt_hid demo_challenged) 0" by code_simp
  from election_knows_held_keys [OF demo_steps [unfolded demo_router_def] this] show ?thesis by blast
qed

section \<open>Switching\<close>

text \<open>The reference for a switch: a sequence of frames handed to the link.\<close>

primrec link_sends ::
  "dhp_time_t \<Rightarrow> (dhp_msg_type_t \<times> dhp_addr_t \<times> u8 list) list \<Rightarrow> dhp_link_t \<Rightarrow> dhp_link_t \<times> link_tx list" where
  "link_sends now [] l = (l, [])"
| "link_sends now (m # ms) l =
     (let (l1, tx, res) = dhp_link_send l (msg_code (fst m)) (fst (snd m)) (Some (snd (snd m))) (of_nat (length (snd (snd m)))) now;
          (l2, tx') = link_sends now ms l1
      in (l2, tx @ tx'))"

definition release_msgs :: "dhp_addr_t \<Rightarrow> (dhp_msg_type_t \<times> dhp_addr_t \<times> u8 list) list" where
  "release_msgs a = [(DHP_MSG_KBD, a, dhp_kbd_pack kbd_empty), (DHP_MSG_MOUSE, a, dhp_mouse_pack mouse_empty)]"

definition focus_msg :: "dhp_addr_t \<Rightarrow> u8 \<Rightarrow> dhp_edge_t \<Rightarrow> dhp_msg_type_t \<times> dhp_addr_t \<times> u8 list" where
  "focus_msg target reason edge =
     (DHP_MSG_FOCUS, DHP_ADDR_BROADCAST, dhp_focus_pack \<lparr>fo_target = target, fo_reason = reason, fo_edge = edge_code edge\<rparr>)"

lemma router_send_out:
  "rt_out (router_send ty d (Some p) now r) = rt_out r @ map RTx (snd (link_sends now [(ty, d, p)] (rt_link r)))"
  "rt_link (router_send ty d (Some p) now r) = fst (link_sends now [(ty, d, p)] (rt_link r))"
  by (simp_all add: router_send_def Let_def split: prod.splits)

lemma link_sends_append:
  "link_sends now (xs @ ys) l =
     (fst (link_sends now ys (fst (link_sends now xs l))),
      snd (link_sends now xs l) @ snd (link_sends now ys (fst (link_sends now xs l))))"
proof (induction xs arbitrary: l)
  case (Cons m xs)
  then show ?case by (cases "dhp_link_send l (msg_code (fst m)) (fst (snd m)) (Some (snd (snd m))) (of_nat (length (snd (snd m)))) now")
      (simp add: Let_def split: prod.split)
qed simp

lemma release_machine_out:
  assumes "rh_deliver_kbd (rt_hooks r)" "rh_deliver_mouse (rt_hooks r)"
  shows "rt_out (release_machine r a now) = rt_out r @
      (if \<not> dhp_hid_slot_held (rt_hid r) (slot_of r a) then []
       else if a = rc_self (rt_cfg r) then [RDeliverKbd kbd_empty, RDeliverMouse mouse_empty]
       else map RTx (snd (link_sends now (release_msgs a) (rt_link r))))"
    and "rt_link (release_machine r a now) =
      (if dhp_hid_slot_held (rt_hid r) (slot_of r a) \<and> a \<noteq> rc_self (rt_cfg r)
       then fst (link_sends now (release_msgs a) (rt_link r)) else rt_link r)"
proof -
  have s: "(snd (dhp_hid_build_release (rt_hid r) (slot_of r a)) = None) \<longleftrightarrow> \<not> dhp_hid_slot_held (rt_hid r) (slot_of r a)"
    by (rule hid.release_None)
  have two: "rt_out (router_send t2 d (Some p2) now (router_send t1 d (Some p1) now r1)) =
      rt_out r1 @ map RTx (snd (link_sends now [(t1, d, p1), (t2, d, p2)] (rt_link r1)))"
    "rt_link (router_send t2 d (Some p2) now (router_send t1 d (Some p1) now r1)) =
      fst (link_sends now [(t1, d, p1), (t2, d, p2)] (rt_link r1))" for t1 t2 d p1 p2 r1
    using link_sends_append [of now "[(t1, d, p1)]" "[(t2, d, p2)]" "rt_link r1"] by (simp_all add: router_send_out del: link_sends.simps)
  show "rt_out (release_machine r a now) = rt_out r @
      (if \<not> dhp_hid_slot_held (rt_hid r) (slot_of r a) then []
       else if a = rc_self (rt_cfg r) then [RDeliverKbd kbd_empty, RDeliverMouse mouse_empty]
       else map RTx (snd (link_sends now (release_msgs a) (rt_link r))))"
    "rt_link (release_machine r a now) =
      (if dhp_hid_slot_held (rt_hid r) (slot_of r a) \<and> a \<noteq> rc_self (rt_cfg r)
       then fst (link_sends now (release_msgs a) (rt_link r)) else rt_link r)"
    using s assms hid.release_Some [of "rt_hid r" "slot_of r a"]
    by (auto simp: release_machine_def Let_def two release_msgs_def deliver_both_def call_hook_def split: prod.splits option.splits)
qed

text \<open>
  C2. A switch lets go first. When the focus moves, everything the old machine still holds is
  released before anything else leaves the board: by two empty reports to the machine, or to
  this board's own machine, and by nothing at all when nothing was held; only then the new
  focus is announced to the chain and to the board. Afterwards the old machine holds nothing
  and what any other machine holds is unchanged.
\<close>

theorem switch_releases_first:
  assumes "router_step\<^sup>*\<^sup>* (dhp_router_init cfg l hooks) r" "rh_deliver_kbd (rt_hooks r)" "rh_deliver_mouse (rt_hooks r)"
    "rh_focus_changed (rt_hooks r)"
    and "target \<noteq> DHP_ADDR_NONE" "target \<noteq> rt_focus r" "apply_focus r target reason edge now True = Some r'"
    and "held = dhp_hid_slot_held (rt_hid r) (slot_of r (rt_focus r))" "own = (rt_focus r = rc_self (rt_cfg r))"
  shows "rt_out r' = rt_out r
      @ (if held \<and> own then [RDeliverKbd kbd_empty, RDeliverMouse mouse_empty] else [])
      @ map RTx (snd (link_sends now ((if held \<and> \<not> own then release_msgs (rt_focus r) else []) @ [focus_msg target reason edge]) (rt_link r)))
      @ [RFocusChanged target (target = rc_self (rt_cfg r))] \<and>
    rt_focus r' = target \<and>
    \<not> dhp_hid_slot_held (rt_hid r') (slot_of r (rt_focus r)) \<and>
    (\<forall>i. i \<noteq> slot_of r (rt_focus r) \<longrightarrow> hid_view (rt_hid r') i = hid_view (rt_hid r) i)"
proof -
  have h: "hid_inv r" using router.inv_reachable assms(1) router_invD(1) by blast
  let ?r1 = "release_machine r (rt_focus r) now"
  obtain p where p: "dhp_pointer_arrive (rt_pointer r) edge now = Some p"
    using assms(5-7) by (auto simp: apply_focus_def Let_def split: option.splits)
  let ?r3 = "?r1\<lparr>rt_focus := target, rt_n_switches := rt_n_switches ?r1 + 1, rt_pointer := p\<rparr>"
  have r': "r' = call_hook rh_focus_changed (RFocusChanged target (target = rc_self (rt_cfg r))) (announce_focus target reason edge now ?r3)"
    using assms(5-7) p by (simp add: apply_focus_def Let_def)
  note out = release_machine_out [OF assms(2,3), of "rt_focus r" now, folded assms(8,9)]
  have "rt_out r' = rt_out ?r1 @ map RTx (snd (link_sends now [focus_msg target reason edge] (rt_link ?r1)))
      @ [RFocusChanged target (target = rc_self (rt_cfg r))]"
    using assms(4) by (simp add: r' call_hook_def announce_focus_def router_send_out focus_msg_def)
  then have trace: "rt_out r' = rt_out r
      @ (if held \<and> own then [RDeliverKbd kbd_empty, RDeliverMouse mouse_empty] else [])
      @ map RTx (snd (link_sends now ((if held \<and> \<not> own then release_msgs (rt_focus r) else []) @ [focus_msg target reason edge]) (rt_link r)))
      @ [RFocusChanged target (target = rc_self (rt_cfg r))]"
    unfolding out by (cases held; cases own) (simp_all add: link_sends_append del: link_sends.simps)
  have hid: "rt_hid r' = fst (dhp_hid_build_release (rt_hid r) (slot_of r (rt_focus r)))" "rt_focus r' = target" by (simp_all add: r')
  show ?thesis
    using trace hid hid.release_not_held [OF hid_invD [OF h]] hid.release_other [OF hid_invD [OF h]] slot_of_used [OF h] by simp
qed

theorem switch_releases_first_witness:
  "\<exists>r'. apply_focus demo_challenged 2 DHP_FOCUS_R_BUTTON DHP_EDGE_NONE 161 True = Some r' \<and>
     rt_focus r' = 2 \<and> \<not> dhp_hid_slot_held (rt_hid r') 0 \<and>
     take 2 (drop (length (rt_out demo_challenged)) (rt_out r')) = [RDeliverKbd kbd_empty, RDeliverMouse mouse_empty]"
proof -
  have e: "apply_focus demo_challenged 2 DHP_FOCUS_R_BUTTON DHP_EDGE_NONE 161 True \<noteq> None \<and> slot_of demo_challenged 1 = 0 \<and>
      rh_deliver_kbd (rt_hooks demo_challenged) \<and> rh_deliver_mouse (rt_hooks demo_challenged) \<and> rh_focus_changed (rt_hooks demo_challenged) \<and>
      rt_focus demo_challenged = 1 \<and> dhp_hid_slot_held (rt_hid demo_challenged) 0 \<and> rc_self (rt_cfg demo_challenged) = 1" by code_simp
  then obtain r' where r': "apply_focus demo_challenged 2 DHP_FOCUS_R_BUTTON DHP_EDGE_NONE 161 True = Some r'" by blast
  from e switch_releases_first [OF demo_steps [unfolded demo_router_def] _ _ _ _ _ r' refl refl]
  show ?thesis using r' by (simp add: DHP_ADDR_NONE_def)
qed

end
