(* ===== verification/Dhp_Focus.thy ===== *)
theory Dhp_Focus
  imports Dhp_Router
begin

text \<open>
  Where the focus goes, over the model in \<open>Dhp_Router\<close>: the loops of \<open>neighbour_of\<close>,
  \<open>dhp_router_button\<close> and \<open>pick_default_focus\<close> find the nearest board, positions are hop counts,
  and input reaches the chain only through a board that has input devices.
\<close>

section \<open>Loops that keep the best entry\<close>

text \<open>
  The three loops of the router share one shape: an address, \<open>DHP_ADDR_NONE\<close> while nothing
  has been found, and the key of the entry it came from.
\<close>

locale best_loop =
  fixes before :: "int \<Rightarrow> int \<Rightarrow> bool"
  assumes irrefl: "\<not> before x x"
    and trans: "before x y \<Longrightarrow> before y z \<Longrightarrow> before x z"
    and total: "before x y \<or> x = y \<or> before y x"
begin

definition best_of :: "('e \<Rightarrow> bool) \<Rightarrow> ('e \<Rightarrow> dhp_addr_t) \<Rightarrow> ('e \<Rightarrow> int) \<Rightarrow> 'e list \<Rightarrow> dhp_addr_t \<times> int \<Rightarrow> bool" where
  "best_of P addr key xs b \<longleftrightarrow>
     (fst b = DHP_ADDR_NONE \<longleftrightarrow> (\<forall>x \<in> set xs. \<not> P x)) \<and>
     (fst b \<noteq> DHP_ADDR_NONE \<longrightarrow>
        (\<exists>x \<in> set xs. P x \<and> addr x = fst b \<and> key x = snd b \<and> (\<forall>y \<in> set xs. P y \<longrightarrow> \<not> before (key y) (key x))))"

definition best_step :: "('e \<Rightarrow> bool) \<Rightarrow> ('e \<Rightarrow> dhp_addr_t) \<Rightarrow> ('e \<Rightarrow> int) \<Rightarrow> 'e \<Rightarrow> dhp_addr_t \<times> int \<Rightarrow> dhp_addr_t \<times> int" where
  "best_step P addr key e b =
     (if P e \<and> (fst b = DHP_ADDR_NONE \<or> before (key e) (snd b)) then (addr e, key e) else b)"

lemma best_of_step:
  assumes "best_of P addr key xs b" "P e \<Longrightarrow> addr e \<noteq> DHP_ADDR_NONE"
  shows "best_of P addr key (xs @ [e]) (best_step P addr key e b)"
proof (cases "P e")
  case False
  then show ?thesis using assms(1) by (auto simp: best_of_def best_step_def)
next
  case True
  show ?thesis
  proof (cases "fst b = DHP_ADDR_NONE")
    case none: True
    then have "\<forall>x \<in> set xs. \<not> P x" using assms(1) by (simp add: best_of_def)
    with True none assms(2) irrefl show ?thesis by (auto simp: best_of_def best_step_def)
  next
    case False
    then obtain x where x: "x \<in> set xs" "P x" "addr x = fst b" "key x = snd b" "\<forall>y \<in> set xs. P y \<longrightarrow> \<not> before (key y) (key x)"
      using assms(1) by (auto simp: best_of_def)
    show ?thesis
    proof (cases "before (key e) (snd b)")
      case better: True
      have "\<not> before (key y) (key e)" if "y \<in> set (xs @ [e])" "P y" for y
        using that x(4,5) better trans [of "key y" "key e" "snd b"] irrefl by auto
      with True better assms(2) show ?thesis by (auto simp: best_of_def best_step_def)
    next
      case worse: False
      then have "\<forall>y \<in> set (xs @ [e]). P y \<longrightarrow> \<not> before (key y) (key x)" using x(4,5) by auto
      with worse False x show ?thesis by (auto simp: best_of_def best_step_def)
    qed
  qed
qed

lemma best_fold_from:
  assumes "best_of P addr key xs b" "\<forall>y \<in> set ys. P y \<longrightarrow> addr y \<noteq> DHP_ADDR_NONE"
  shows "best_of P addr key (xs @ ys) (fold (best_step P addr key) ys b)"
  using assms
proof (induction ys arbitrary: xs b)
  case (Cons y ys)
  have "best_of P addr key (xs @ [y]) (best_step P addr key y b)" using Cons.prems by (intro best_of_step) auto
  from Cons.IH [OF this] Cons.prems show ?case by simp
qed simp

lemma best_fold:
  assumes "\<forall>y \<in> set ys. P y \<longrightarrow> addr y \<noteq> DHP_ADDR_NONE"
  shows "best_of P addr key ys (fold (best_step P addr key) ys (DHP_ADDR_NONE, k))"
  using best_fold_from [OF _ assms, of key "[]" "(DHP_ADDR_NONE, k)"] by (simp add: best_of_def)

lemma not_before: "\<not> before y x \<longleftrightarrow> x = y \<or> before x y"
  using total irrefl trans by metis

end

interpretation lowest: best_loop "(<) :: int \<Rightarrow> int \<Rightarrow> bool"
  by unfold_locales auto

interpretation highest: best_loop "(\<lambda>x y. y < x) :: int \<Rightarrow> int \<Rightarrow> bool"
  by unfold_locales auto

section \<open>Positions\<close>

text \<open>A board one can move to from \<open>from\<close>, and where it sits.\<close>

definition screen_at :: "dhp_router_t \<Rightarrow> dhp_addr_t \<Rightarrow> dhp_chain_entry_t \<Rightarrow> bool" where
  "screen_at r from e \<longleftrightarrow>
     ce_used e \<and> ce_addr e \<noteq> from \<and> (ce_caps e AND DHP_CAP_HID_OUT \<noteq> 0 \<or> ce_addr e = rc_self (rt_cfg r))"

definition position_of :: "dhp_router_t \<Rightarrow> dhp_addr_t \<Rightarrow> int option" where
  "position_of r a =
     (if a = rc_self (rt_cfg r) then Some 0 else map_option (\<lambda>i. ce_rel_pos (rt_chain r ! i)) (chain_find r a))"

lemma neighbour_step_down:
  "neighbour_step r from p 1 = lowest.best_step (\<lambda>e. screen_at r from e \<and> p < entry_pos r e) ce_addr (entry_pos r)"
  by (auto simp: fun_eq_iff neighbour_step_def lowest.best_step_def screen_at_def Let_def)

lemma neighbour_step_up:
  "neighbour_step r from p (-1) = highest.best_step (\<lambda>e. screen_at r from e \<and> entry_pos r e < p) ce_addr (entry_pos r)"
  by (auto simp: fun_eq_iff neighbour_step_def highest.best_step_def screen_at_def Let_def)

lemma neighbour_of_fold:
  assumes "position_of r from = Some p"
  shows "neighbour_of r from d = fst (fold (neighbour_step r from p d) (rt_chain r) (DHP_ADDR_NONE, 0))"
  using assms by (auto simp: neighbour_of_def position_of_def Let_def split: if_splits option.splits)


text \<open>The button goes to the next screen down-chain and wraps to the far up-chain end.\<close>

definition has_screen :: "dhp_chain_entry_t \<Rightarrow> bool" where
  "has_screen e \<longleftrightarrow> ce_used e \<and> ce_caps e AND DHP_CAP_HID_OUT \<noteq> 0"

lemma button_step_pair:
  "button_step r p e (a, b) =
     (lowest.best_step (\<lambda>e. has_screen e \<and> p < entry_pos r e) ce_addr (entry_pos r) e a,
      lowest.best_step has_screen ce_addr (entry_pos r) e b)"
  by (auto simp: button_step_def lowest.best_step_def has_screen_def Let_def)

lemma button_fold_pair:
  "fold (button_step r p) xs (a, b) =
     (fold (lowest.best_step (\<lambda>e. has_screen e \<and> p < entry_pos r e) ce_addr (entry_pos r)) xs a,
      fold (lowest.best_step has_screen ce_addr (entry_pos r)) xs b)"
  by (induction xs arbitrary: a b) (simp_all add: button_step_pair)

text \<open>
  The switch button walks the chain. From the focused machine it goes to the nearest screen
  further down-chain; from the last one it wraps to the screen furthest up-chain; it finds
  nothing only when the chain has no screen at all.
\<close>

theorem button_walks_chain:
  assumes "position_of r (rt_focus r) = Some p" "\<forall>e \<in> set (rt_chain r). ce_used e \<longrightarrow> ce_addr e \<noteq> DHP_ADDR_NONE"
  shows "(button_target r = DHP_ADDR_NONE \<longleftrightarrow> (\<forall>e \<in> set (rt_chain r). \<not> has_screen e)) \<and>
    (button_target r \<noteq> DHP_ADDR_NONE \<longrightarrow>
      (\<exists>e \<in> set (rt_chain r). ce_addr e = button_target r \<and> has_screen e \<and>
        (if \<exists>e' \<in> set (rt_chain r). has_screen e' \<and> p < entry_pos r e'
         then p < entry_pos r e \<and> (\<forall>e' \<in> set (rt_chain r). has_screen e' \<and> p < entry_pos r e' \<longrightarrow> entry_pos r e \<le> entry_pos r e')
         else \<forall>e' \<in> set (rt_chain r). has_screen e' \<longrightarrow> entry_pos r e \<le> entry_pos r e')))"
proof -
  let ?P = "\<lambda>e. has_screen e \<and> p < entry_pos r e"
  let ?n = "fold (lowest.best_step ?P ce_addr (entry_pos r)) (rt_chain r) (DHP_ADDR_NONE, 0)"
  let ?w = "fold (lowest.best_step has_screen ce_addr (entry_pos r)) (rt_chain r) (DHP_ADDR_NONE, 0)"
  have p: "(if rt_focus r = rc_self (rt_cfg r) then 0
       else case chain_find r (rt_focus r) of Some i \<Rightarrow> ce_rel_pos (rt_chain r ! i) | None \<Rightarrow> 0) = p"
    using assms(1) by (auto simp: position_of_def split: if_splits)
  have n: "lowest.best_of ?P ce_addr (entry_pos r) (rt_chain r) ?n"
    by (rule lowest.best_fold) (use assms(2) in \<open>auto simp: has_screen_def\<close>)
  have w: "lowest.best_of has_screen ce_addr (entry_pos r) (rt_chain r) ?w"
    by (rule lowest.best_fold) (use assms(2) in \<open>auto simp: has_screen_def\<close>)
  have b: "button_target r = (if fst ?n = DHP_ADDR_NONE then fst ?w else fst ?n)"
    unfolding button_target_def p button_fold_pair by simp
  show ?thesis
  proof (cases "fst ?n = DHP_ADDR_NONE")
    case True
    then have no: "\<not> (\<exists>e' \<in> set (rt_chain r). has_screen e' \<and> p < entry_pos r e')"
      using n by (auto simp: lowest.best_of_def)
    have t: "button_target r = fst ?w" using True b by simp
    show ?thesis unfolding t if_not_P [OF no] using w unfolding lowest.best_of_def not_less by blast
  next
    case False
    then obtain e where e: "e \<in> set (rt_chain r)" "?P e" "ce_addr e = fst ?n" "\<forall>y \<in> set (rt_chain r). ?P y \<longrightarrow> entry_pos r e \<le> entry_pos r y"
      using n by (auto simp: lowest.best_of_def not_less)
    then have "\<exists>e' \<in> set (rt_chain r). has_screen e' \<and> p < entry_pos r e'" by blast
    moreover have "button_target r = fst ?n" "fst ?n \<noteq> DHP_ADDR_NONE" using False b by simp_all
    ultimately show ?thesis using e by auto
  qed
qed

text \<open>Board 1 holds the focus; boards 2 and 3 sit below it, board 4 above it and has no machine attached.\<close>

definition demo_desk :: dhp_router_t where
  "demo_desk = demo_router\<lparr>rt_focus := 1, rt_chain :=
     [chain_zero\<lparr>ce_used := True, ce_addr := 1, ce_caps := 3\<rparr>,
      chain_zero\<lparr>ce_used := True, ce_addr := 3, ce_caps := 3, ce_rel_pos := 2\<rparr>,
      chain_zero\<lparr>ce_used := True, ce_addr := 2, ce_caps := 3, ce_rel_pos := 1\<rparr>,
      chain_zero\<lparr>ce_used := True, ce_addr := 4, ce_caps := 2, ce_rel_pos := -1\<rparr>, chain_zero]\<rparr>"

lemma demo_desk_self: "rc_self (rt_cfg demo_desk) = 1"
  by code_simp

lemma demo_desk_named: "\<forall>e \<in> set (rt_chain demo_desk). ce_used e \<longrightarrow> ce_addr e \<noteq> DHP_ADDR_NONE"
  by (simp add: demo_desk_def chain_zero_def DHP_ADDR_NONE_def)

lemma demo_desk_position: "position_of demo_desk (rt_focus demo_desk) = Some 0" "rt_focus demo_desk = 1"
  by (simp_all add: position_of_def demo_desk_self) (simp_all add: demo_desk_def)

lemma demo_desk_chain:
  "rt_chain demo_desk =
     [chain_zero\<lparr>ce_used := True, ce_addr := 1, ce_caps := 3\<rparr>,
      chain_zero\<lparr>ce_used := True, ce_addr := 3, ce_caps := 3, ce_rel_pos := 2\<rparr>,
      chain_zero\<lparr>ce_used := True, ce_addr := 2, ce_caps := 3, ce_rel_pos := 1\<rparr>,
      chain_zero\<lparr>ce_used := True, ce_addr := 4, ce_caps := 2, ce_rel_pos := -1\<rparr>, chain_zero]"
  by (simp add: demo_desk_def)

lemmas demo_desk_simps = demo_desk_chain demo_desk_self demo_desk_position(2) chain_zero_def screen_at_def has_screen_def
  entry_pos_def DHP_CAP_HID_OUT_def


theorem button_walks_chain_witness: "button_target demo_desk = 2"
  using button_walks_chain [OF demo_desk_position(1) demo_desk_named]
  by (simp add: demo_desk_simps)

section \<open>Who may send input\<close>

lemma chain_get_caps:
  assumes "chain_get r a = (Some i, r')" "\<forall>j. chain_find r a = Some j \<longrightarrow> ce_caps (rt_chain r ! j) AND m = 0"
  shows "chain_find r' a = Some i" "ce_caps (rt_chain r' ! i) AND m = 0" "i < length (rt_chain r')"
proof -
  obtain t where t: "tbl_get ce_used ce_addr chain_claim a (rt_chain r) = (Some i, t)" "r' = r\<lparr>rt_chain := t\<rparr>"
    using assms(1) by (auto simp: chain_get_def split: prod.splits)
  show "chain_find r' a = Some i" using chain.get_find [OF t(1)] by (simp add: t(2) chain_find_def)
  show "i < length (rt_chain r')" using chain.get_entry [OF t(1)] chain.get_length [OF t(1)] by (simp add: t(2))
  from t(1) show "ce_caps (rt_chain r' ! i) AND m = 0"
    by (cases rule: chain.get_cases)
      (use assms(2) in \<open>simp_all add: t(2) chain_find_def chain_claim_def chain_zero_def\<close>)
qed

lemma note_position_caps:
  assumes "\<forall>j. chain_find r (fr_src f) = Some j \<longrightarrow> ce_caps (rt_chain r ! j) AND m = 0"
    and "chain_find (note_position r f port now) (fr_src f) = Some i"
  shows "ce_caps (rt_chain (note_position r f port now) ! i) AND m = 0"
proof -
  obtain j r1 where g: "chain_get r (fr_src f) = (j, r1)" by fastforce
  let ?g = "\<lambda>e. e\<lparr>ce_rel_pos := rel_pos_from_frame f port, ce_last_seen := now\<rparr>"
  show ?thesis
  proof (cases "fr_src f \<noteq> rc_self (rt_cfg r) \<and> real_port port \<and> j \<noteq> None")
    case True
    then obtain k where k: "j = Some k" by blast
    note G = chain_get_caps [OF g [unfolded k] assms(1)]
    have eq: "note_position r f port now = upd_chain k ?g r1" using True g k by (simp add: note_position_def)
    have "chain_find (upd_chain k ?g r1) (fr_src f) = chain_find r1 (fr_src f)"
      using G(3) by (simp add: chain_find_def upd_chain_def chain.update_find)
    then have "i = k" using assms(2) G(1) eq by simp
    then show ?thesis using G(2,3) by (simp add: eq upd_chain_def)
  next
    case False
    have "rt_chain (note_position r f port now) = rt_chain r"
    proof (cases "fr_src f \<noteq> rc_self (rt_cfg r) \<and> real_port port")
      case True
      with False have "j = None" by simp
      moreover obtain t where "tbl_get ce_used ce_addr chain_claim (fr_src f) (rt_chain r) = (j, t)" "r1 = r\<lparr>rt_chain := t\<rparr>"
        using g by (auto simp: chain_get_def split: prod.splits)
      ultimately show ?thesis using True g by (auto simp: note_position_def elim: chain.get_cases)
    qed (auto simp: note_position_def)
    then show ?thesis using assms by (simp add: chain_find_def)
  qed
qed

text \<open>
  Only a board with input devices can type. An INPUT frame changes nothing except the
  sender's position in the chain table, and nothing leaves the board, unless this board holds the
  active role and the sender has advertised that it has input devices.
\<close>

theorem input_needs_authority:
  assumes "fr_type f = msg_code DHP_MSG_INPUT"
    and "\<not> dhp_router_is_active r \<or> (\<forall>i. chain_find r (fr_src f) = Some i \<longrightarrow> ce_caps (rt_chain r ! i) AND DHP_CAP_HID_IN = 0)"
  shows "dhp_router_rx r f port now = Some (note_position r f port now) \<and>
    (\<exists>c. note_position r f port now = r\<lparr>rt_chain := c\<rparr>)"
proof -
  let ?r = "note_position r f port now"
  obtain c where c: "?r = r\<lparr>rt_chain := c\<rparr>" using note_position_frame by blast
  have "rx_input_frame ?r f now = Some ?r"
  proof (cases "dhp_router_is_active r")
    case False
    then show ?thesis by (simp add: rx_input_frame_def dhp_router_is_active_def c)
  next
    case True
    then have "\<forall>i. chain_find ?r (fr_src f) = Some i \<longrightarrow> ce_caps (rt_chain ?r ! i) AND DHP_CAP_HID_IN = 0"
      using assms(2) note_position_caps [of r f DHP_CAP_HID_IN port now] by blast
    then show ?thesis by (simp add: rx_input_frame_def split: option.split)
  qed
  with assms(1) c show ?thesis by (auto simp: dhp_router_rx_def Let_def)
qed

definition demo_input :: dhp_frame_t where
  "demo_input =
     \<lparr>fr_type = msg_code DHP_MSG_INPUT, fr_ttl = 19, fr_src = 3, fr_dst = 1, fr_seq = 0, fr_len = 8,
      fr_payload = Some (DHP_INPUT_KIND_KBD # dhp_kbd_pack demo_key), fr_body = [], fr_body_len = 0\<rparr>"

theorem input_needs_authority_witness:
  "dhp_router_is_active demo_active \<and>
   (\<exists>c. dhp_router_rx demo_active demo_input DHP_PORT_DOWN 170 = Some (demo_active\<lparr>rt_chain := c\<rparr>))"
proof -
  have "chain_find demo_active (fr_src demo_input) = None" by code_simp
  moreover have "fr_type demo_input = msg_code DHP_MSG_INPUT" by (simp add: demo_input_def)
  ultimately show ?thesis using input_needs_authority [of demo_input demo_active DHP_PORT_DOWN 170] demo_active_eval by auto
qed

end
