(* ===== verification/Dhp_Ring.thy ===== *)
theory Dhp_Ring
  imports Dhp_Prelude
begin

text \<open>
  The two circular byte buffers of the firmware, \<open>ring_t\<close> of \<open>firmware/rp2040/src/board.c\<close>
  here and the client queue of \<open>clientlink.c\<close> in \<open>Dhp_Clientlink\<close>, implement one contract: a
  bounded first-in first-out queue that refuses a byte when it is full. The contract is a
  locale, the index arithmetic behind both buffers is proved once over natural numbers, and the
  interrupt that may run between any two statements of \<open>ring_push\<close> and \<open>ring_pop\<close> is a step
  relation on their statements.
\<close>

section \<open>A bounded queue\<close>

locale bounded_fifo =
  fixes inv :: "'q \<Rightarrow> bool"
    and contents :: "'q \<Rightarrow> 'b list"
    and capacity :: nat
    and push :: "'q \<Rightarrow> 'b \<Rightarrow> 'q \<times> bool"
    and pop :: "'q \<Rightarrow> ('b \<times> 'q) option"
  assumes bounded: "inv q \<Longrightarrow> length (contents q) \<le> capacity"
    and push_room: "inv q \<Longrightarrow> length (contents q) < capacity \<Longrightarrow>
      \<exists>q'. push q b = (q', True) \<and> inv q' \<and> contents q' = contents q @ [b]"
    and push_full: "inv q \<Longrightarrow> length (contents q) = capacity \<Longrightarrow> push q b = (q, False)"
    and pop_empty: "inv q \<Longrightarrow> contents q = [] \<Longrightarrow> pop q = None"
    and pop_first: "inv q \<Longrightarrow> contents q = b # bs \<Longrightarrow> \<exists>q'. pop q = Some (b, q') \<and> inv q' \<and> contents q' = bs"
begin

primrec push_list :: "'b list \<Rightarrow> 'q \<Rightarrow> 'q" where
  "push_list [] q = q"
| "push_list (b # bs) q = push_list bs (fst (push q b))"

primrec pop_list :: "nat \<Rightarrow> 'q \<Rightarrow> 'b list \<times> 'q" where
  "pop_list 0 q = ([], q)"
| "pop_list (Suc n) q =
     (case pop q of None \<Rightarrow> ([], q) | Some (b, q') \<Rightarrow> let (bs, q'') = pop_list n q' in (b # bs, q''))"

lemma push_cases:
  assumes "inv q"
  obtains (room) q' where "push q b = (q', True)" "inv q'" "contents q' = contents q @ [b]" "length (contents q) < capacity"
  | (full) "push q b = (q, False)" "length (contents q) = capacity"
proof (cases "length (contents q) < capacity")
  case True
  with push_room [OF assms this, of b] show thesis using room by blast
next
  case False
  with bounded [OF assms] have "length (contents q) = capacity" by simp
  with push_full [OF assms this] show thesis by (intro full)
qed

lemma push_list_spec:
  assumes "inv q"
  shows "inv (push_list bs q) \<and> contents (push_list bs q) = take capacity (contents q @ bs)"
  using assms
proof (induction bs arbitrary: q)
  case Nil
  then show ?case using bounded by simp
next
  case (Cons b bs)
  from Cons.prems show ?case
  proof (cases rule: push_cases [where b = b])
    case (room q')
    with Cons.IH [of q'] show ?thesis by simp
  next
    case full
    with Cons.IH [OF Cons.prems] show ?thesis by simp
  qed
qed

lemma pop_list_spec:
  assumes "inv q" "pop_list n q = (bs, q')"
  shows "bs = take n (contents q) \<and> inv q' \<and> contents q' = drop n (contents q)"
  using assms
proof (induction n arbitrary: q bs q')
  case 0
  then show ?case by simp
next
  case (Suc n)
  show ?case
  proof (cases "contents q")
    case Nil
    with Suc.prems pop_empty show ?thesis by simp
  next
    case (Cons b cs)
    from pop_first [OF Suc.prems(1) Cons] obtain q1 where "pop q = Some (b, q1)" "inv q1" "contents q1 = cs" by blast
    with Suc.prems Suc.IH [of q1] Cons show ?thesis by (auto split: prod.splits)
  qed
qed

text \<open>What fits goes in unchanged and comes out in the same order.\<close>

lemma fifo_roundtrip:
  assumes "inv q" "contents q = []" "length bs \<le> capacity" "pop_list n (push_list bs q) = (out, q')" "length bs \<le> n"
  shows "out = bs \<and> contents q' = []"
  using pop_list_spec [OF _ assms(4)] push_list_spec [OF assms(1), of bs] assms(2,3,5) by simp

end

section \<open>Index arithmetic\<close>

definition ring_used :: "nat \<Rightarrow> nat \<Rightarrow> nat \<Rightarrow> nat" where
  "ring_used n head tail = (head + n - tail) mod n"

definition ring_contents :: "nat \<Rightarrow> 'b list \<Rightarrow> nat \<Rightarrow> nat \<Rightarrow> 'b list" where
  "ring_contents n buf head tail = map (\<lambda>k. buf ! ((tail + k) mod n)) [0..<ring_used n head tail]"

lemma length_ring_contents [simp]: "length (ring_contents n buf head tail) = ring_used n head tail"
  by (simp add: ring_contents_def)

lemma ring_used_cases:
  assumes "head < n" "tail < n"
  shows "ring_used n head tail = (if tail \<le> head then head - tail else head + n - tail)"
proof (cases "tail \<le> head")
  case True
  then have "head + n - tail = (head - tail) + n" by simp
  then have "ring_used n head tail = (head - tail) mod n" by (simp add: ring_used_def)
  with True assms show ?thesis by simp
qed (use assms in \<open>simp add: ring_used_def\<close>)

lemma ring_next_cases: "i < n \<Longrightarrow> Suc i mod n = (if Suc i = n then 0 else Suc i)"
  by auto

lemma ring_used_less: "0 < n \<Longrightarrow> ring_used n head tail < n"
  by (simp add: ring_used_def)

lemma ring_full_iff:
  assumes "head < n" "tail < n"
  shows "Suc head mod n = tail \<longleftrightarrow> ring_used n head tail = n - 1"
  unfolding ring_next_cases [OF assms(1)] ring_used_cases [OF assms] using assms by auto

lemma ring_empty_iff: "head < n \<Longrightarrow> tail < n \<Longrightarrow> head = tail \<longleftrightarrow> ring_used n head tail = 0"
  by (auto simp: ring_used_cases)

lemma ring_used_push:
  assumes "head < n" "tail < n" "Suc head mod n \<noteq> tail"
  shows "ring_used n (Suc head mod n) tail = Suc (ring_used n head tail)"
proof -
  have "Suc head mod n < n" using assms(1) by simp
  from ring_used_cases [OF this assms(2)] ring_used_cases [OF assms(1,2)] ring_next_cases [OF assms(1)] assms
  show ?thesis by (auto split: if_splits)
qed

lemma ring_used_pop:
  assumes "head < n" "tail < n" "head \<noteq> tail"
  shows "ring_used n head tail = Suc (ring_used n head (Suc tail mod n))"
proof -
  have "Suc tail mod n < n" using assms(1) by simp
  from ring_used_cases [OF assms(1) this] ring_used_cases [OF assms(1,2)] ring_next_cases [OF assms(2)] assms
  show ?thesis by (auto split: if_splits)
qed

text \<open>The live bytes sit in the slots from \<open>tail\<close> up to, not including, \<open>head\<close>.\<close>

lemma ring_slot_head: "head < n \<Longrightarrow> tail < n \<Longrightarrow> (tail + ring_used n head tail) mod n = head"
  by (auto simp: ring_used_cases)

lemma ring_slot_live:
  assumes "head < n" "tail < n" "k < ring_used n head tail"
  shows "(tail + k) mod n \<noteq> head"
proof (cases "tail \<le> head")
  case True
  with assms show ?thesis by (simp add: ring_used_cases)
next
  case False
  show ?thesis
  proof (cases "tail + k < n")
    case True
    with False assms show ?thesis by simp
  next
    case out: False
    with assms False have "(tail + k) mod n = tail + k - n" by (simp add: mod_if ring_used_cases)
    with out assms False show ?thesis by (simp add: ring_used_cases)
  qed
qed

lemma ring_contents_write:
  assumes "head < n" "tail < n"
  shows "ring_contents n (buf[head := b]) head tail = ring_contents n buf head tail"
  unfolding ring_contents_def
proof (rule map_cong [OF refl])
  fix k
  assume "k \<in> set [0..<ring_used n head tail]"
  then have "head \<noteq> (tail + k) mod n" using ring_slot_live [OF assms, of k] by auto
  then show "buf[head := b] ! ((tail + k) mod n) = buf ! ((tail + k) mod n)" by (rule nth_list_update_neq)
qed

lemma ring_contents_push:
  assumes "head < n" "tail < n" "Suc head mod n \<noteq> tail"
  shows "ring_contents n buf (Suc head mod n) tail = ring_contents n buf head tail @ [buf ! head]"
  using ring_slot_head [OF assms(1,2)] unfolding ring_contents_def ring_used_push [OF assms] by simp

lemma ring_contents_pop:
  assumes "head < n" "tail < n" "head \<noteq> tail"
  shows "ring_contents n buf head tail = buf ! tail # ring_contents n buf head (Suc tail mod n)"
proof -
  have "(\<lambda>k. buf ! ((tail + Suc k) mod n)) = (\<lambda>k. buf ! ((Suc tail mod n + k) mod n))"
    by (simp add: fun_eq_iff mod_add_left_eq)
  then have "map (\<lambda>k. buf ! ((tail + k) mod n)) (map Suc [0..<m]) = map (\<lambda>k. buf ! ((Suc tail mod n + k) mod n)) [0..<m]" for m
    unfolding map_map comp_def by simp
  then show ?thesis
    using assms(2) unfolding ring_contents_def ring_used_pop [OF assms] upt_conv_Cons [OF zero_less_Suc] map_Suc_upt [symmetric]
    by simp
qed

section \<open>The UART rings\<close>

definition RING_BITS :: nat where [dhp_consts]: "RING_BITS = 10"
definition RING_SIZE :: u32 where [dhp_consts]: "RING_SIZE = push_bit RING_BITS 1"
definition RING_MASK :: u32 where [dhp_consts]: "RING_MASK = RING_SIZE - 1"

record ring_t =
  rg_buf :: "u8 list"
  rg_head :: u16
  rg_tail :: u16

definition ring_zero :: ring_t where
  "ring_zero = \<lparr>rg_buf = replicate (unat RING_SIZE) 0, rg_head = 0, rg_tail = 0\<rparr>"

definition ring_next :: "u16 \<Rightarrow> u16" where
  "ring_next i = ucast ((ucast i + 1 :: u32) AND RING_MASK)"

definition ring_push :: "ring_t \<Rightarrow> u8 \<Rightarrow> ring_t \<times> bool" where
  "ring_push r b =
     (let next = ring_next (rg_head r)
      in if next = rg_tail r then (r, False)
         else (r\<lparr>rg_buf := (rg_buf r)[unat (rg_head r) := b], rg_head := next\<rparr>, True))"

definition ring_pop :: "ring_t \<Rightarrow> (u8 \<times> ring_t) option" where
  "ring_pop r =
     (if rg_head r = rg_tail r then None
      else Some (rg_buf r ! unat (rg_tail r), r\<lparr>rg_tail := ring_next (rg_tail r)\<rparr>))"

definition ring_inv :: "ring_t \<Rightarrow> bool" where
  "ring_inv r \<longleftrightarrow> length (rg_buf r) = 1024 \<and> unat (rg_head r) < 1024 \<and> unat (rg_tail r) < 1024"

definition ring_bytes :: "ring_t \<Rightarrow> u8 list" where
  "ring_bytes r = ring_contents 1024 (rg_buf r) (unat (rg_head r)) (unat (rg_tail r))"

lemma unat_ring_next [simp]: "unat (ring_next i) = Suc (unat i) mod 1024"
proof -
  have i: "unat i < 65536" using unsigned_less [of i, where ?'a = nat] by simp
  then have "unat (ucast i + 1 :: u32) = Suc (unat i)" by (simp add: unat_word_ariths)
  moreover have "(ucast i + 1 :: u32) AND RING_MASK = take_bit 10 (ucast i + 1)"
    by (simp add: dhp_consts take_bit_eq_mask mask_eq_exp_minus_1)
  ultimately have s: "unat ((ucast i + 1 :: u32) AND RING_MASK) = Suc (unat i) mod 1024"
    by (simp only: unsigned_take_bit_eq) (simp add: take_bit_eq_mod)
  have "Suc (unat i) mod 1024 < 65536" using mod_less_divisor [of 1024 "Suc (unat i)"] by linarith
  with s show ?thesis unfolding ring_next_def by (simp add: unsigned_ucast_eq take_bit_nat_eq_self)
qed

lemma ring_inv_zero: "ring_inv ring_zero" "ring_bytes ring_zero = []"
  by (simp_all add: ring_inv_def ring_zero_def ring_bytes_def ring_contents_def ring_used_def dhp_consts)

lemma ring_push_eq:
  assumes "ring_inv r"
  shows "ring_push r b =
    (if length (ring_bytes r) = 1023 then (r, False)
     else (r\<lparr>rg_buf := (rg_buf r)[unat (rg_head r) := b], rg_head := ring_next (rg_head r)\<rparr>, True))"
proof -
  have "ring_next (rg_head r) = rg_tail r \<longleftrightarrow> Suc (unat (rg_head r)) mod 1024 = unat (rg_tail r)"
    by (metis unat_ring_next unsigned_word_eqI)
  also have "\<dots> \<longleftrightarrow> length (ring_bytes r) = 1023"
    using assms ring_full_iff [of "unat (rg_head r)" 1024 "unat (rg_tail r)"] by (simp add: ring_inv_def ring_bytes_def)
  finally show ?thesis by (simp add: ring_push_def Let_def)
qed

interpretation uart_ring: bounded_fifo ring_inv ring_bytes 1023 ring_push ring_pop
proof unfold_locales
  fix q :: ring_t and b :: u8 and bs :: "u8 list"
  assume inv: "ring_inv q"
  then have i: "unat (rg_head q) < 1024" "unat (rg_tail q) < 1024" "length (rg_buf q) = 1024" by (simp_all add: ring_inv_def)
  show "length (ring_bytes q) \<le> 1023" using ring_used_less [of 1024] by (simp add: ring_bytes_def less_Suc_eq_le [symmetric])
  show "ring_push q b = (q, False)" if "length (ring_bytes q) = 1023" using ring_push_eq [OF inv] that by simp
  show "ring_pop q = None" if "ring_bytes q = []"
  proof -
    have "ring_used 1024 (unat (rg_head q)) (unat (rg_tail q)) = 0" using that length_ring_contents by (metis list.size(3) ring_bytes_def)
    with ring_empty_iff [OF i(1,2)] have "rg_head q = rg_tail q" by (simp add: unsigned_word_eqI)
    then show ?thesis by (simp add: ring_pop_def)
  qed
  show "\<exists>q'. ring_push q b = (q', True) \<and> ring_inv q' \<and> ring_bytes q' = ring_bytes q @ [b]" if "length (ring_bytes q) < 1023"
  proof -
    let ?q = "q\<lparr>rg_buf := (rg_buf q)[unat (rg_head q) := b], rg_head := ring_next (rg_head q)\<rparr>"
    have "Suc (unat (rg_head q)) mod 1024 \<noteq> unat (rg_tail q)"
      using that ring_full_iff [OF i(1,2)] by (simp add: ring_bytes_def)
    then have "ring_bytes ?q = ring_bytes q @ [b]"
      using ring_contents_push [OF i(1,2), of "(rg_buf q)[unat (rg_head q) := b]"] i
      by (simp add: ring_bytes_def ring_contents_write)
    moreover have "ring_inv ?q" using i by (simp add: ring_inv_def)
    ultimately show ?thesis using ring_push_eq [OF inv] that by simp
  qed
  show "\<exists>q'. ring_pop q = Some (b, q') \<and> ring_inv q' \<and> ring_bytes q' = bs" if c: "ring_bytes q = b # bs"
  proof -
    have "ring_used 1024 (unat (rg_head q)) (unat (rg_tail q)) \<noteq> 0" using arg_cong [OF c, of length] by (simp add: ring_bytes_def)
    then have ne: "unat (rg_head q) \<noteq> unat (rg_tail q)" using ring_empty_iff [OF i(1,2)] by simp
    have "ring_pop q = Some (rg_buf q ! unat (rg_tail q), q\<lparr>rg_tail := ring_next (rg_tail q)\<rparr>)" using ne by (auto simp: ring_pop_def)
    moreover have "ring_bytes q = rg_buf q ! unat (rg_tail q) # ring_bytes (q\<lparr>rg_tail := ring_next (rg_tail q)\<rparr>)"
      using ring_contents_pop [OF i(1,2) ne] by (simp add: ring_bytes_def)
    ultimately show ?thesis using c i by (simp add: ring_inv_def)
  qed
qed

section \<open>Interrupts between the statements\<close>

text \<open>
  One side of each ring is the main loop, the other the UART interrupt, which may run between
  any two statements. A program counter on each side says which statement is next; \<open>rr_accepted\<close>
  and \<open>rr_taken\<close> record the bytes pushed and popped so far. The relation allows every
  interleaving, not only an interrupt that runs to completion.
\<close>

datatype push_pc = PushIdle | PushStore u8 | PushPublish u8
datatype pop_pc = PopIdle | PopLoad | PopAdvance u8

record ring_race =
  rr_ring :: ring_t
  rr_push :: push_pc
  rr_pop :: pop_pc
  rr_accepted :: "u8 list"
  rr_taken :: "u8 list"

inductive race_step :: "ring_race \<Rightarrow> ring_race \<Rightarrow> bool" where
  push_check: "rr_push c = PushIdle \<Longrightarrow> ring_next (rg_head (rr_ring c)) \<noteq> rg_tail (rr_ring c) \<Longrightarrow>
    race_step c (c\<lparr>rr_push := PushStore b\<rparr>)"
| push_store: "rr_push c = PushStore b \<Longrightarrow>
    race_step c (c\<lparr>rr_push := PushPublish b,
      rr_ring := (rr_ring c)\<lparr>rg_buf := (rg_buf (rr_ring c))[unat (rg_head (rr_ring c)) := b]\<rparr>\<rparr>)"
| push_publish: "rr_push c = PushPublish b \<Longrightarrow>
    race_step c (c\<lparr>rr_push := PushIdle, rr_accepted := rr_accepted c @ [b],
      rr_ring := (rr_ring c)\<lparr>rg_head := ring_next (rg_head (rr_ring c))\<rparr>\<rparr>)"
| pop_check: "rr_pop c = PopIdle \<Longrightarrow> rg_head (rr_ring c) \<noteq> rg_tail (rr_ring c) \<Longrightarrow>
    race_step c (c\<lparr>rr_pop := PopLoad\<rparr>)"
| pop_load: "rr_pop c = PopLoad \<Longrightarrow>
    race_step c (c\<lparr>rr_pop := PopAdvance (rg_buf (rr_ring c) ! unat (rg_tail (rr_ring c)))\<rparr>)"
| pop_advance: "rr_pop c = PopAdvance b \<Longrightarrow>
    race_step c (c\<lparr>rr_pop := PopIdle, rr_taken := rr_taken c @ [b],
      rr_ring := (rr_ring c)\<lparr>rg_tail := ring_next (rg_tail (rr_ring c))\<rparr>\<rparr>)"

definition race_start :: "ring_race \<Rightarrow> bool" where
  "race_start c \<longleftrightarrow> c = \<lparr>rr_ring = ring_zero, rr_push = PushIdle, rr_pop = PopIdle, rr_accepted = [], rr_taken = []\<rparr>"

text \<open>Uninterrupted, the statements are the two functions.\<close>

lemma race_push:
  assumes "rr_push c = PushIdle" "ring_push (rr_ring c) b = (r, True)"
  shows "race_step\<^sup>*\<^sup>* c (c\<lparr>rr_ring := r, rr_accepted := rr_accepted c @ [b]\<rparr>)"
proof -
  let ?r = "rr_ring c"
  have n: "ring_next (rg_head ?r) \<noteq> rg_tail ?r" and r: "r = ?r\<lparr>rg_buf := (rg_buf ?r)[unat (rg_head ?r) := b], rg_head := ring_next (rg_head ?r)\<rparr>"
    using assms(2) by (auto simp: ring_push_def Let_def split: if_splits)
  note steps = push_check [OF assms(1) n, of b] push_store [of "c\<lparr>rr_push := PushStore b\<rparr>" b]
    push_publish [of "c\<lparr>rr_push := PushPublish b, rr_ring := ?r\<lparr>rg_buf := (rg_buf ?r)[unat (rg_head ?r) := b]\<rparr>\<rparr>" b]
  show ?thesis using assms(1) by (cases c) (use steps in \<open>auto simp: r intro: converse_rtranclp_into_rtranclp\<close>)
qed

lemma race_pop:
  assumes "rr_pop c = PopIdle" "ring_pop (rr_ring c) = Some (b, r)"
  shows "race_step\<^sup>*\<^sup>* c (c\<lparr>rr_ring := r, rr_taken := rr_taken c @ [b]\<rparr>)"
proof -
  let ?r = "rr_ring c"
  have n: "rg_head ?r \<noteq> rg_tail ?r" and b: "b = rg_buf ?r ! unat (rg_tail ?r)" and r: "r = ?r\<lparr>rg_tail := ring_next (rg_tail ?r)\<rparr>"
    using assms(2) by (auto simp: ring_pop_def split: if_splits)
  note steps = pop_check [OF assms(1) n] pop_load [of "c\<lparr>rr_pop := PopLoad\<rparr>"] pop_advance [of "c\<lparr>rr_pop := PopAdvance b\<rparr>" b]
  show ?thesis using assms(1) by (cases c) (use steps in \<open>auto simp: r b intro: converse_rtranclp_into_rtranclp\<close>)
qed

definition race_inv :: "ring_race \<Rightarrow> bool" where
  "race_inv c \<longleftrightarrow>
     ring_inv (rr_ring c) \<and> rr_accepted c = rr_taken c @ ring_bytes (rr_ring c) \<and>
     (case rr_push c of
        PushIdle \<Rightarrow> True
      | PushStore b \<Rightarrow> length (ring_bytes (rr_ring c)) < 1023
      | PushPublish b \<Rightarrow> length (ring_bytes (rr_ring c)) < 1023 \<and> rg_buf (rr_ring c) ! unat (rg_head (rr_ring c)) = b) \<and>
     (case rr_pop c of
        PopIdle \<Rightarrow> True
      | PopLoad \<Rightarrow> ring_bytes (rr_ring c) \<noteq> []
      | PopAdvance b \<Rightarrow> ring_bytes (rr_ring c) \<noteq> [] \<and> hd (ring_bytes (rr_ring c)) = b)"

lemma ring_store:
  assumes "ring_inv r"
  shows "ring_inv (r\<lparr>rg_buf := (rg_buf r)[unat (rg_head r) := b]\<rparr>)"
    "ring_bytes (r\<lparr>rg_buf := (rg_buf r)[unat (rg_head r) := b]\<rparr>) = ring_bytes r"
  using assms by (simp_all add: ring_inv_def ring_bytes_def ring_contents_write)

lemma ring_publish:
  assumes "ring_inv r" "length (ring_bytes r) < 1023"
  shows "ring_inv (r\<lparr>rg_head := ring_next (rg_head r)\<rparr>)"
    "ring_bytes (r\<lparr>rg_head := ring_next (rg_head r)\<rparr>) = ring_bytes r @ [rg_buf r ! unat (rg_head r)]"
proof -
  have "Suc (unat (rg_head r)) mod 1024 \<noteq> unat (rg_tail r)"
    using assms ring_full_iff [of "unat (rg_head r)" 1024 "unat (rg_tail r)"] by (simp add: ring_inv_def ring_bytes_def)
  then show "ring_bytes (r\<lparr>rg_head := ring_next (rg_head r)\<rparr>) = ring_bytes r @ [rg_buf r ! unat (rg_head r)]"
    using assms by (simp add: ring_inv_def ring_bytes_def ring_contents_push)
qed (use assms in \<open>simp add: ring_inv_def\<close>)

lemma ring_advance:
  assumes "ring_inv r" "ring_bytes r \<noteq> []"
  shows "ring_inv (r\<lparr>rg_tail := ring_next (rg_tail r)\<rparr>)"
    "ring_bytes r = rg_buf r ! unat (rg_tail r) # ring_bytes (r\<lparr>rg_tail := ring_next (rg_tail r)\<rparr>)"
proof -
  have "ring_used 1024 (unat (rg_head r)) (unat (rg_tail r)) \<noteq> 0"
    using assms(2) by (metis length_0_conv length_ring_contents ring_bytes_def)
  then have "unat (rg_head r) \<noteq> unat (rg_tail r)"
    using assms(1) ring_empty_iff [of "unat (rg_head r)" 1024 "unat (rg_tail r)"] by (simp add: ring_inv_def)
  then show "ring_bytes r = rg_buf r ! unat (rg_tail r) # ring_bytes (r\<lparr>rg_tail := ring_next (rg_tail r)\<rparr>)"
    using assms(1) ring_contents_pop [of "unat (rg_head r)" 1024 "unat (rg_tail r)" "rg_buf r"] by (simp add: ring_inv_def ring_bytes_def)
qed (use assms in \<open>simp add: ring_inv_def\<close>)

lemma ring_not_full: "ring_inv r \<Longrightarrow> ring_next (rg_head r) \<noteq> rg_tail r \<Longrightarrow> length (ring_bytes r) < 1023"
  using ring_push_eq [of r 0] uart_ring.bounded [of r] by (auto simp: ring_push_def Let_def split: if_splits)

lemma ring_not_empty: "ring_inv r \<Longrightarrow> rg_head r \<noteq> rg_tail r \<Longrightarrow> ring_bytes r \<noteq> []"
  using uart_ring.pop_empty [of r] by (auto simp: ring_pop_def)

lemma race_inv_step:
  assumes "race_inv c" "race_step c c'"
  shows "race_inv c'"
  using assms(2,1)
proof (cases rule: race_step.cases)
  case (push_check b)
  then show ?thesis using assms(1) ring_not_full [of "rr_ring c"] by (simp add: race_inv_def split: pop_pc.splits)
next
  case (push_store b)
  then show ?thesis using assms(1) ring_store [of "rr_ring c" b]
    by (auto simp: race_inv_def ring_inv_def split: pop_pc.splits)
next
  case (push_publish b)
  have i: "ring_inv (rr_ring c)" "length (ring_bytes (rr_ring c)) < 1023" using assms(1) push_publish by (simp_all add: race_inv_def)
  show ?thesis using assms(1) push_publish ring_publish [OF i]
    by (auto simp: race_inv_def hd_append split: pop_pc.splits)
next
  case pop_check
  then show ?thesis using assms(1) ring_not_empty [of "rr_ring c"] by (simp add: race_inv_def split: push_pc.splits)
next
  case pop_load
  then have i: "ring_inv (rr_ring c)" "ring_bytes (rr_ring c) \<noteq> []" using assms(1) by (simp_all add: race_inv_def)
  from pop_load assms(1) arg_cong [OF ring_advance(2) [OF i], of hd] show ?thesis by (simp add: race_inv_def split: push_pc.splits)
next
  case (pop_advance b)
  then have i: "ring_inv (rr_ring c)" "ring_bytes (rr_ring c) \<noteq> []" "b = hd (ring_bytes (rr_ring c))"
    using assms(1) by (simp_all add: race_inv_def)
  define cs where "cs = ring_bytes ((rr_ring c)\<lparr>rg_tail := ring_next (rg_tail (rr_ring c))\<rparr>)"
  note a = ring_advance [OF i(1,2), folded cs_def]
  have "rr_accepted c = rr_taken c @ b # cs" "length cs < length (ring_bytes (rr_ring c))"
    using assms(1) a(2) i(3) by (simp_all add: race_inv_def)
  then show ?thesis using assms(1) pop_advance a(1) by (auto simp: race_inv_def cs_def [symmetric] split: push_pc.splits)
qed

interpretation ring_race: transition_system race_start race_step race_inv
  by unfold_locales (simp add: race_start_def race_inv_def ring_inv_zero, rule race_inv_step)

text \<open>
  C18. The UART rings lose and reorder nothing, whenever the interrupt strikes. Whatever the
  interleaving of the statements of \<open>ring_push\<close> on one side with those of \<open>ring_pop\<close> on the
  other, the bytes taken so far followed by the bytes in the ring are exactly the bytes
  accepted so far, in order, and the indices stay inside the array.
\<close>

theorem ring_survives_interrupts:
  assumes "race_start c0" "race_step\<^sup>*\<^sup>* c0 c"
  shows "rr_accepted c = rr_taken c @ ring_bytes (rr_ring c) \<and>
    unat (rg_head (rr_ring c)) < unat RING_SIZE \<and> unat (rg_tail (rr_ring c)) < unat RING_SIZE"
proof -
  have "race_inv c" using ring_race.inv_reachable [OF assms] .
  then show ?thesis by (simp add: race_inv_def ring_inv_def dhp_consts)
qed

text \<open>
  The interrupt takes the first byte after the second has been stored but before it is
  published.
\<close>

theorem ring_survives_interrupts_witness:
  "\<exists>c0 c. race_start c0 \<and> race_step\<^sup>*\<^sup>* c0 c \<and> rr_accepted c = [1, 2] \<and> [1, 2] = rr_taken c @ ring_bytes (rr_ring c)"
proof -
  let ?s0 = "\<lparr>rr_ring = ring_zero, rr_push = PushIdle, rr_pop = PopIdle, rr_accepted = [], rr_taken = []\<rparr>"
  let ?r1 = "ring_zero\<lparr>rg_buf := (rg_buf ring_zero)[0 := 1], rg_head := 1\<rparr>"
  let ?r2 = "?r1\<lparr>rg_buf := (rg_buf ?r1)[1 := 2]\<rparr>"
  let ?s1 = "?s0\<lparr>rr_ring := ?r1, rr_accepted := [1]\<rparr>"
  let ?s2 = "?s1\<lparr>rr_push := PushPublish 2, rr_ring := ?r2\<rparr>"
  let ?r3 = "?r2\<lparr>rg_tail := 1\<rparr>"
  let ?s3 = "?s2\<lparr>rr_ring := ?r3, rr_taken := [1]\<rparr>"
  let ?s4 = "?s3\<lparr>rr_push := PushIdle, rr_accepted := [1, 2], rr_ring := ?r3\<lparr>rg_head := 2\<rparr>\<rparr>"
  have n: "ring_next 0 = 1" "ring_next 1 = 2" by (simp_all add: ring_next_def dhp_consts)
  have "race_step\<^sup>*\<^sup>* ?s0 ?s1" using race_push [of ?s0 1] by (simp add: ring_push_def ring_zero_def n)
  moreover have "race_step\<^sup>*\<^sup>* ?s1 ?s2"
    using push_check [of ?s1 2] push_store [of "?s1\<lparr>rr_push := PushStore 2\<rparr>" 2]
    by (auto simp: n ring_zero_def intro: converse_rtranclp_into_rtranclp)
  moreover have "race_step\<^sup>*\<^sup>* ?s2 ?s3" using race_pop [of ?s2] by (simp add: ring_pop_def ring_zero_def n dhp_consts)
  moreover have "race_step ?s3 ?s4" using push_publish [of ?s3 2] by (simp add: n ring_zero_def)
  ultimately have s: "race_step\<^sup>*\<^sup>* ?s0 ?s4" by (meson rtranclp.rtrancl_into_rtrancl rtranclp_trans)
  from ring_survives_interrupts [OF _ s] s show ?thesis by (auto simp: race_start_def)
qed

end
