(* ===== verification/Dhp_Board.thy ===== *)
theory Dhp_Board
  imports Dhp_Ring
begin

text \<open>
  The hardware layer of a chain board, \<open>firmware/rp2040/src/board.c\<close>: the wire address, the
  interrupt-driven UARTs over the rings of \<open>Dhp_Ring\<close>, the debounced buttons, the LED and the
  chain key in flash.

  Registers and pins are inputs: an interrupt is given the words it reads from the receive
  register and the number of free places in the transmit FIFO, a button poll the level of its
  pin and the time. The flash functions of the SDK and the error bits of its UART are
  parameters. A \<open>static\<close> variable is a field of the component's record.
\<close>

section \<open>Identity\<close>

definition uid_of_bytes :: "u8 list \<Rightarrow> dhp_uid_t" where
  "uid_of_bytes uid_bytes = fold (\<lambda>i u. u OR push_bit (8 * i) (ucast (uid_bytes ! i))) [0..<8] 0"

definition board_addr :: "dhp_uid_t \<Rightarrow> dhp_addr_t" where
  "board_addr uid =
     (let a = ucast (uid XOR drop_bit 16 uid XOR drop_bit 32 uid XOR drop_bit 48 uid)
      in if a = DHP_ADDR_NONE \<or> a = DHP_ADDR_BROADCAST then 1 else a)"

lemma uid_of_bytes_get64: "uid_of_bytes p = get64 p"
  by (simp add: uid_of_bytes_def get64_def upt_rec eval_nat_numeral)

lemma board_addr_valid: "board_addr uid \<noteq> DHP_ADDR_NONE" "board_addr uid \<noteq> DHP_ADDR_BROADCAST"
  by (simp_all add: board_addr_def Let_def dhp_consts)

section \<open>Link ports\<close>

record uart_port =
  up_rx :: ring_t
  up_tx :: ring_t
  up_txim :: bool

definition uart_port_zero :: uart_port where
  "uart_port_zero = \<lparr>up_rx = ring_zero, up_tx = ring_zero, up_txim = False\<rparr>"

primrec isr_receive :: "u32 \<Rightarrow> u32 list \<Rightarrow> ring_t \<Rightarrow> ring_t" where
  "isr_receive err [] r = r"
| "isr_receive err (dr # drs) r =
     isr_receive err drs (if dr AND err \<noteq> 0 then r else fst (ring_push r (ucast dr)))"

primrec isr_transmit :: "nat \<Rightarrow> ring_t \<Rightarrow> ring_t \<times> u8 list \<times> bool" where
  "isr_transmit 0 r = (r, [], False)"
| "isr_transmit (Suc room) r =
     (case ring_pop r of
        None \<Rightarrow> (r, [], True)
      | Some (b, r1) \<Rightarrow> let (r2, bs, idle) = isr_transmit room r1 in (r2, b # bs, idle))"

definition port_isr :: "u32 \<Rightarrow> u32 list \<Rightarrow> nat \<Rightarrow> uart_port \<Rightarrow> uart_port \<times> u8 list" where
  "port_isr err drs room p =
     (let rx = isr_receive err drs (up_rx p);
          (tx, sent, idle) = isr_transmit room (up_tx p)
      in (p\<lparr>up_rx := rx, up_tx := tx, up_txim := up_txim p \<and> \<not> idle\<rparr>, sent))"

definition board_uart_write :: "u8 list \<Rightarrow> uart_port \<Rightarrow> uart_port" where
  "board_uart_write data p = p\<lparr>up_tx := fold (\<lambda>b r. fst (ring_push r b)) data (up_tx p), up_txim := True\<rparr>"

definition board_uart_read :: "uart_port \<Rightarrow> (u8 \<times> uart_port) option" where
  "board_uart_read p = map_option (\<lambda>(b, r). (b, p\<lparr>up_rx := r\<rparr>)) (ring_pop (up_rx p))"

section \<open>Buttons\<close>

definition DEBOUNCE_MS :: dhp_time_t where [dhp_consts]: "DEBOUNCE_MS = 25"
definition PAIR_HOLD_MS :: dhp_time_t where [dhp_consts]: "PAIR_HOLD_MS = 3000"
definition UNPAIR_HOLD_MS :: dhp_time_t where [dhp_consts]: "UNPAIR_HOLD_MS = 10000"

record switch_button =
  sw_last :: bool
  sw_change :: dhp_time_t

definition board_switch_pressed :: "switch_button \<Rightarrow> bool \<Rightarrow> dhp_time_t \<Rightarrow> switch_button \<times> bool" where
  "board_switch_pressed s down now =
     (if down \<noteq> sw_last s then
        (if dhp_time_after now (sw_change s + DEBOUNCE_MS) then (s\<lparr>sw_last := down, sw_change := now\<rparr>, down)
         else (s, False))
      else (s\<lparr>sw_change := now\<rparr>, False))"

datatype board_pair_btn_t = BOARD_PAIR_BTN_NONE | BOARD_PAIR_BTN_PAIR | BOARD_PAIR_BTN_UNPAIR

record pair_button =
  pb_down_since :: dhp_time_t
  pb_pair_reported :: bool
  pb_unpair_reported :: bool

definition board_pair_button :: "pair_button \<Rightarrow> bool \<Rightarrow> dhp_time_t \<Rightarrow> pair_button \<times> board_pair_btn_t" where
  "board_pair_button b down now =
     (if \<not> down then (b\<lparr>pb_down_since := 0, pb_pair_reported := False, pb_unpair_reported := False\<rparr>, BOARD_PAIR_BTN_NONE)
      else if pb_down_since b = 0 then (b\<lparr>pb_down_since := now\<rparr>, BOARD_PAIR_BTN_NONE)
      else if \<not> pb_unpair_reported b \<and> dhp_time_after now (pb_down_since b + UNPAIR_HOLD_MS)
      then (b\<lparr>pb_unpair_reported := True\<rparr>, BOARD_PAIR_BTN_UNPAIR)
      else if \<not> pb_pair_reported b \<and> dhp_time_after now (pb_down_since b + PAIR_HOLD_MS)
      then (b\<lparr>pb_pair_reported := True\<rparr>, BOARD_PAIR_BTN_PAIR)
      else (b, BOARD_PAIR_BTN_NONE))"

section \<open>Indication\<close>

datatype led_state_t =
    LED_OFF | LED_FOCUSED | LED_ACTIVE | LED_ACTIVE_FOCUSED | LED_STANDBY | LED_PAIRING | LED_UNPAIRED | LED_ERROR

definition LED_REFRESH_MS :: dhp_time_t where [dhp_consts]: "LED_REFRESH_MS = 16"

record board_led_t =
  led_ready :: bool
  led_unavailable :: bool
  led_state :: led_state_t
  led_next :: dhp_time_t
  led_last_grb :: u32

definition led_zero :: board_led_t where
  "led_zero = \<lparr>led_ready = False, led_unavailable = False, led_state = LED_OFF, led_next = 0, led_last_grb = 0xFFFFFFFF\<rparr>"

text \<open>Whether a state machine could be claimed is the PIO driver's answer.\<close>

definition board_led_hw_init :: "board_led_t \<Rightarrow> bool \<Rightarrow> board_led_t" where
  "board_led_hw_init l claimed =
     (if led_ready l \<or> led_unavailable l then l
      else if \<not> claimed then l\<lparr>led_unavailable := True\<rparr>
      else l\<lparr>led_ready := True\<rparr>)"

definition board_led :: "board_led_t \<Rightarrow> led_state_t \<Rightarrow> board_led_t" where
  "board_led l s = l\<lparr>led_state := s\<rparr>"

definition grb :: "u8 \<Rightarrow> u8 \<Rightarrow> u8 \<Rightarrow> u32" where
  "grb r g b = push_bit 24 (ucast g) OR push_bit 16 (ucast r) OR push_bit 8 (ucast b)"

definition scale :: "u8 \<Rightarrow> u8 \<Rightarrow> u8" where
  "scale v pct = ucast ((ucast v * ucast pct :: u32) div 100)"

definition breathe :: "dhp_time_t \<Rightarrow> u32 \<Rightarrow> u8 \<Rightarrow> u8 \<Rightarrow> u8" where
  "breathe now period_ms lo hi =
     (let phase = now mod period_ms;
          half = period_ms div 2;
          up = (if phase < half then phase else period_ms - phase)
      in ucast (ucast lo + (ucast hi - ucast lo) * up div half))"

definition colour_for :: "led_state_t \<Rightarrow> dhp_time_t \<Rightarrow> u32" where
  "colour_for s now =
     (case s of
        LED_FOCUSED \<Rightarrow> grb 120 120 120
      | LED_ACTIVE \<Rightarrow> grb 0 0 150
      | LED_ACTIVE_FOCUSED \<Rightarrow> grb 0 140 140
      | LED_STANDBY \<Rightarrow> grb 0 0 20
      | LED_PAIRING \<Rightarrow> (let v = breathe now 1600 20 255 in grb v (scale v 55) 0)
      | LED_UNPAIRED \<Rightarrow> grb 40 22 0
      | LED_ERROR \<Rightarrow> (if now mod 300 < 150 then grb 200 0 0 else 0)
      | LED_OFF \<Rightarrow> 0)"

definition board_led_task :: "board_led_t \<Rightarrow> bool \<Rightarrow> dhp_time_t \<Rightarrow> board_led_t \<times> u32 option" where
  "board_led_task l fifo_full now =
     (if \<not> led_ready l then (l, None)
      else if \<not> dhp_time_after now (led_next l) then (l, None)
      else
        let l1 = l\<lparr>led_next := now + LED_REFRESH_MS\<rparr>;
            c = colour_for (led_state l) now
        in if c = led_last_grb l1 then (l1, None)
           else if fifo_full then (l1, None)
           else (l1\<lparr>led_last_grb := c\<rparr>, Some c))"

section \<open>Persistent chain key\<close>

definition KEY_MAGIC :: u32 where [dhp_consts]: "KEY_MAGIC = 0x4448504b"

record key_record_t =
  kr_magic :: u32
  kr_key :: "u8 list"
  kr_check :: u32

text \<open>The record as the bytes of flash it is copied to and read from.\<close>

definition key_record_bytes :: "key_record_t \<Rightarrow> u8 list" where
  "key_record_bytes rec = put32 (kr_magic rec) @ kr_key rec @ put32 (kr_check rec)"

definition key_record_at :: "u8 list \<Rightarrow> key_record_t" where
  "key_record_at p = \<lparr>kr_magic = get32 p, kr_key = take 16 (drop 4 p), kr_check = get32 (drop 20 p)\<rparr>"

definition key_check :: "u8 list \<Rightarrow> u32" where
  "key_check key = fold (\<lambda>i c. c XOR get32 (drop (i * 4) key)) [0..<4] KEY_MAGIC"

definition board_key_load :: "u8 list \<Rightarrow> u8 list option" where
  "board_key_load sector =
     (let rec = key_record_at sector
      in if kr_magic rec \<noteq> KEY_MAGIC \<or> kr_check rec \<noteq> key_check (kr_key rec) then None
         else Some (kr_key rec))"

definition key_page :: "nat \<Rightarrow> u8 list \<Rightarrow> u8 list" where
  "key_page page_size key =
     (let rec = \<lparr>kr_magic = KEY_MAGIC, kr_key = take 16 key, kr_check = key_check key\<rparr>
      in key_record_bytes rec @ replicate (page_size - 24) 0xFF)"

definition board_key_save :: "('f \<Rightarrow> 'f) \<Rightarrow> (u8 list \<Rightarrow> 'f \<Rightarrow> 'f) \<Rightarrow> nat \<Rightarrow> 'f \<Rightarrow> u8 list \<Rightarrow> 'f" where
  "board_key_save flash_range_erase flash_range_program page_size flash key =
     flash_range_program (key_page page_size key) (flash_range_erase flash)"

definition board_key_erase :: "('f \<Rightarrow> 'f) \<Rightarrow> 'f \<Rightarrow> 'f" where
  "board_key_erase flash_range_erase flash = flash_range_erase flash"

section \<open>The UARTs as queues\<close>

lemma push_all_list: "fold (\<lambda>b r. fst (ring_push r b)) bs r = uart_ring.push_list bs r"
  by (induction bs arbitrary: r) simp_all

lemma isr_transmit_pops:
  "isr_transmit n r = (r', bs, idle) \<Longrightarrow> uart_ring.pop_list n r = (bs, r') \<and> (idle \<longleftrightarrow> length bs < n)"
proof (induction n arbitrary: r bs)
  case (Suc n)
  then show ?case by (cases "ring_pop r") (auto split: prod.splits)
qed simp

lemma isr_receive_inv: "ring_inv r \<Longrightarrow> ring_inv (isr_receive err drs r)"
proof (induction drs arbitrary: r)
  case (Cons dr drs)
  have "ring_inv (fst (ring_push r (ucast dr)))"
    using Cons.prems by (rule uart_ring.push_cases [where b = "ucast dr"]) (simp_all add: Cons.prems)
  with Cons show ?case by simp
qed simp

text \<open>
  A port with what has been accepted for transmission and what has left so far. Writes come
  from the main loop and take as many bytes as fit; interrupts come whenever they come.
\<close>

record uart_run =
  ur_port :: uart_port
  ur_queued :: "u8 list"
  ur_sent :: "u8 list"

inductive uart_step :: "uart_run \<Rightarrow> uart_run \<Rightarrow> bool" where
  uart_write: "uart_step u (u\<lparr>ur_port := board_uart_write data (ur_port u),
    ur_queued := ur_queued u @ take (1023 - length (ring_bytes (up_tx (ur_port u)))) data\<rparr>)"
| uart_isr: "port_isr err drs room (ur_port u) = (p, sent) \<Longrightarrow>
    uart_step u (u\<lparr>ur_port := p, ur_sent := ur_sent u @ sent\<rparr>)"
| uart_read: "board_uart_read (ur_port u) = Some (b, p) \<Longrightarrow> uart_step u (u\<lparr>ur_port := p\<rparr>)"

definition uart_start :: "uart_run \<Rightarrow> bool" where
  "uart_start u \<longleftrightarrow> u = \<lparr>ur_port = uart_port_zero, ur_queued = [], ur_sent = []\<rparr>"

definition uart_inv :: "uart_run \<Rightarrow> bool" where
  "uart_inv u \<longleftrightarrow>
     ring_inv (up_rx (ur_port u)) \<and> ring_inv (up_tx (ur_port u)) \<and>
     ur_queued u = ur_sent u @ ring_bytes (up_tx (ur_port u)) \<and>
     (ring_bytes (up_tx (ur_port u)) \<noteq> [] \<longrightarrow> up_txim (ur_port u))"

lemma port_isr_transmits:
  assumes "ring_inv (up_tx p)" "port_isr err drs room p = (p', sent)"
  shows "sent = take room (ring_bytes (up_tx p))" "ring_inv (up_tx p')" "ring_bytes (up_tx p') = drop room (ring_bytes (up_tx p))"
    "up_rx p' = isr_receive err drs (up_rx p)" "up_txim p' \<longleftrightarrow> up_txim p \<and> room \<le> length sent"
proof -
  obtain tx bs idle where t: "isr_transmit room (up_tx p) = (tx, bs, idle)" by (cases "isr_transmit room (up_tx p)") auto
  note q = isr_transmit_pops [OF t]
  note c = uart_ring.pop_list_spec [OF assms(1) conjunct1 [OF q]]
  have eq: "p' = p\<lparr>up_rx := isr_receive err drs (up_rx p), up_tx := tx, up_txim := up_txim p \<and> \<not> idle\<rparr>" "sent = bs"
    using assms(2) by (simp_all add: port_isr_def t)
  show "sent = take room (ring_bytes (up_tx p))" "ring_inv (up_tx p')" "ring_bytes (up_tx p') = drop room (ring_bytes (up_tx p))"
    "up_rx p' = isr_receive err drs (up_rx p)" "up_txim p' \<longleftrightarrow> up_txim p \<and> room \<le> length sent"
    using c q by (auto simp: eq)
qed

lemma uart_inv_step:
  assumes "uart_inv u" "uart_step u u'"
  shows "uart_inv u'"
  using assms(2)
proof (cases rule: uart_step.cases)
  case (uart_write data)
  have i: "ring_inv (up_tx (ur_port u))" using assms(1) by (simp add: uart_inv_def)
  from uart_ring.push_list_spec [OF i, of data] uart_ring.bounded [OF i] uart_write assms(1)
  show ?thesis by (simp add: uart_inv_def board_uart_write_def push_all_list)
next
  case (uart_isr err drs room p sent)
  have i: "ring_inv (up_tx (ur_port u))" using assms(1) by (simp add: uart_inv_def)
  from port_isr_transmits [OF i uart_isr(2)] uart_isr(1) assms(1) show ?thesis
    by (auto simp: uart_inv_def isr_receive_inv)
next
  case (uart_read b p)
  then obtain r where r: "ring_pop (up_rx (ur_port u)) = Some (b, r)" "p = (ur_port u)\<lparr>up_rx := r\<rparr>"
    by (auto simp: board_uart_read_def)
  have i: "ring_inv (up_rx (ur_port u))" using assms(1) by (simp add: uart_inv_def)
  have "ring_inv r" using r(1) i by (auto simp: ring_pop_def ring_inv_def split: if_splits)
  with r(2) uart_read(1) assms(1) show ?thesis by (simp add: uart_inv_def)
qed

interpretation uart: transition_system uart_start uart_step uart_inv
  by unfold_locales (simp add: uart_start_def uart_inv_def uart_port_zero_def ring_inv_zero, rule uart_inv_step)

text \<open>
  A link port never stalls and never corrupts what it accepted. After any sequence of
  writes, interrupts and reads the bytes that have left are a prefix of the bytes accepted, the
  rest is in the ring in order, and whenever something is left the transmit interrupt is armed;
  the next interrupt with enough room sends exactly the rest.
\<close>

theorem uart_never_stalls:
  assumes "uart_start u0" "uart_step\<^sup>*\<^sup>* u0 u"
  shows "ur_queued u = ur_sent u @ ring_bytes (up_tx (ur_port u)) \<and>
    (ring_bytes (up_tx (ur_port u)) \<noteq> [] \<longrightarrow> up_txim (ur_port u)) \<and>
    (\<forall>err drs room. length (ring_bytes (up_tx (ur_port u))) \<le> room \<longrightarrow>
       ur_sent u @ snd (port_isr err drs room (ur_port u)) = ur_queued u)"
proof -
  have "uart_inv u" using uart.inv_reachable [OF assms] .
  then have i: "ring_inv (up_tx (ur_port u))" "ur_queued u = ur_sent u @ ring_bytes (up_tx (ur_port u))"
    "ring_bytes (up_tx (ur_port u)) \<noteq> [] \<longrightarrow> up_txim (ur_port u)" by (simp_all add: uart_inv_def)
  have "snd (port_isr err drs room (ur_port u)) = take room (ring_bytes (up_tx (ur_port u)))" for err drs room
    using port_isr_transmits(1) [OF i(1)] by (metis prod.collapse)
  with i(2,3) show ?thesis by simp
qed

theorem uart_never_stalls_witness:
  "\<exists>u. uart_step\<^sup>*\<^sup>* \<lparr>ur_port = uart_port_zero, ur_queued = [], ur_sent = []\<rparr> u \<and> ur_queued u = [1, 2, 3] \<and>
     ur_sent u @ snd (port_isr 0 [] 16 (ur_port u)) = [1, 2, 3]"
proof -
  let ?start = "\<lparr>ur_port = uart_port_zero, ur_queued = [], ur_sent = []\<rparr>"
  let ?next = "?start\<lparr>ur_port := board_uart_write [1, 2, 3] uart_port_zero, ur_queued := [1, 2, 3]\<rparr>"
  have "uart_step ?start ?next" using uart_write [of ?start "[1, 2, 3]"] by (simp add: uart_port_zero_def ring_inv_zero)
  then have s: "uart_step\<^sup>*\<^sup>* ?start ?next" by blast
  have t: "length (ring_bytes (up_tx (ur_port ?next))) \<le> 16"
    using uart_ring.push_list_spec [OF ring_inv_zero(1), of "[1, 2, 3]"]
    by (simp add: board_uart_write_def uart_port_zero_def ring_inv_zero flip: push_all_list)
  have "uart_start ?start" by (simp add: uart_start_def)
  from uart_never_stalls [OF this s] t have "ur_sent ?next @ snd (port_isr 0 [] 16 (ur_port ?next)) = ur_queued ?next" by blast
  with s show ?thesis by fastforce
qed

section \<open>What the buttons report\<close>

primrec switch_reports :: "switch_button \<Rightarrow> (bool \<times> dhp_time_t) list \<Rightarrow> bool list" where
  "switch_reports s [] = []"
| "switch_reports s (x # xs) =
     (let (s', r) = board_switch_pressed s (fst x) (snd x) in r # switch_reports s' xs)"

lemma switch_held: "sw_last s \<Longrightarrow> \<forall>x \<in> set xs. fst x \<Longrightarrow> True \<notin> set (switch_reports s xs)"
  by (induction xs arbitrary: s) (auto simp: board_switch_pressed_def)

text \<open>
  One press, one switch. From the last moment the button was seen up, however often it is
  polled while down, at most one press is reported, and one is reported exactly when some poll
  sees it down for the debounce time; a shorter glitch reports nothing.
\<close>

theorem press_reported_once:
  assumes "\<not> sw_last s" "sw_change s = t" "\<forall>e \<in> set es. unat e < 2 ^ 31"
  shows "count_list (switch_reports s (map (\<lambda>e. (True, t + e)) es)) True =
    (if \<exists>e \<in> set es. DEBOUNCE_MS \<le> e then 1 else 0)"
  using assms
proof (induction es arbitrary: s)
  case (Cons e es)
  have d: "dhp_time_after (t + e) (t + DEBOUNCE_MS) \<longleftrightarrow> DEBOUNCE_MS \<le> e"
    using Cons.prems(3) by (intro dhp_time_after_deadline) (simp_all add: dhp_consts)
  show ?case
  proof (cases "DEBOUNCE_MS \<le> e")
    case True
    then have "True \<notin> set (switch_reports (s\<lparr>sw_last := True, sw_change := t + e\<rparr>) (map (\<lambda>e. (True, t + e)) es))"
      by (intro switch_held) auto
    with True d Cons.prems show ?thesis by (simp add: board_switch_pressed_def count_list_0_iff)
  next
    case False
    with d Cons show ?thesis by (simp add: board_switch_pressed_def)
  qed
qed simp

theorem press_reported_once_witness:
  "count_list (switch_reports \<lparr>sw_last = False, sw_change = 100\<rparr> (map (\<lambda>e. (True, 100 + e)) [1, 24, 25, 26, 500])) True = 1"
  using press_reported_once [of "\<lparr>sw_last = False, sw_change = 100\<rparr>" 100 "[1, 24, 25, 26, 500]"] by (simp add: dhp_consts)

primrec pair_reports :: "pair_button \<Rightarrow> (bool \<times> dhp_time_t) list \<Rightarrow> board_pair_btn_t list" where
  "pair_reports b [] = []"
| "pair_reports b (x # xs) =
     (let (b', r) = board_pair_button b (fst x) (snd x) in r # pair_reports b' xs)"

text \<open>The reports while the button stays down, polled \<open>es\<close> milliseconds after the press was seen.\<close>

definition hold_reports :: "pair_button \<Rightarrow> dhp_time_t list \<Rightarrow> board_pair_btn_t list" where
  "hold_reports b es = filter (\<lambda>r. r \<noteq> BOARD_PAIR_BTN_NONE) (pair_reports b (map (\<lambda>e. (True, pb_down_since b + e)) es))"

definition poll_ok :: "dhp_time_t list \<Rightarrow> bool" where
  "poll_ok es \<longleftrightarrow> (\<forall>e \<in> set es. unat e < 2 ^ 31)"

lemma hold_reports_Cons:
  assumes "pb_down_since b \<noteq> 0" "poll_ok (e # es)"
  shows "hold_reports b (e # es) =
    (if \<not> pb_unpair_reported b \<and> UNPAIR_HOLD_MS \<le> e then BOARD_PAIR_BTN_UNPAIR # hold_reports (b\<lparr>pb_unpair_reported := True\<rparr>) es
     else if \<not> pb_pair_reported b \<and> PAIR_HOLD_MS \<le> e then BOARD_PAIR_BTN_PAIR # hold_reports (b\<lparr>pb_pair_reported := True\<rparr>) es
     else hold_reports b es)"
proof -
  have "dhp_time_after (pb_down_since b + e) (pb_down_since b + d) \<longleftrightarrow> d \<le> e" if "unat d < 2 ^ 31" for d
    using assms(2) that by (intro dhp_time_after_deadline) (simp_all add: poll_ok_def)
  from this [of UNPAIR_HOLD_MS] this [of PAIR_HOLD_MS] assms(1) show ?thesis
    by (simp add: hold_reports_def board_pair_button_def dhp_consts)
qed

lemma hold_both_reported:
  "pb_down_since b \<noteq> 0 \<Longrightarrow> pb_pair_reported b \<Longrightarrow> pb_unpair_reported b \<Longrightarrow> poll_ok es \<Longrightarrow> hold_reports b es = []"
  by (induction es) (simp_all add: hold_reports_def poll_ok_def board_pair_button_def)

lemma hold_pair_reported:
  assumes "pb_down_since b \<noteq> 0" "pb_pair_reported b" "\<not> pb_unpair_reported b" "poll_ok es"
  shows "hold_reports b es = (if \<exists>e \<in> set es. UNPAIR_HOLD_MS \<le> e then [BOARD_PAIR_BTN_UNPAIR] else [])"
  using assms(4)
proof (induction es)
  case (Cons e es)
  have "poll_ok es" using Cons.prems by (simp add: poll_ok_def)
  with Cons.IH assms hold_both_reported [of "b\<lparr>pb_unpair_reported := True\<rparr>" es] show ?case
    by (simp add: hold_reports_Cons [OF assms(1) Cons.prems])
qed (simp add: hold_reports_def)

text \<open>
  What a hold of the pair button means. Polled at times that do not skip the whole interval
  between the two thresholds, a hold shorter than three seconds asks for nothing, a hold of three
  to ten seconds asks once for pairing, and a longer one asks once for pairing and then once for
  unpairing, however often it is polled.
\<close>

theorem pair_hold_actions:
  assumes "pb_down_since b \<noteq> 0" "\<not> pb_pair_reported b" "\<not> pb_unpair_reported b" "poll_ok es" "sorted es"
    and "(\<exists>e \<in> set es. PAIR_HOLD_MS \<le> e) \<longrightarrow> (\<exists>e \<in> set es. PAIR_HOLD_MS \<le> e \<and> e < UNPAIR_HOLD_MS)"
  shows "hold_reports b es =
    (if \<forall>e \<in> set es. e < PAIR_HOLD_MS then []
     else if \<forall>e \<in> set es. e < UNPAIR_HOLD_MS then [BOARD_PAIR_BTN_PAIR]
     else [BOARD_PAIR_BTN_PAIR, BOARD_PAIR_BTN_UNPAIR])"
  using assms(4-)
proof (induction es)
  case (Cons e es)
  have ok: "poll_ok es" "sorted es" "\<forall>x \<in> set es. e \<le> x" using Cons.prems by (simp_all add: poll_ok_def)
  have less: "PAIR_HOLD_MS < UNPAIR_HOLD_MS" by (simp add: dhp_consts)
  show ?case
  proof (cases "PAIR_HOLD_MS \<le> e")
    case True
    with Cons.prems(3) ok(3) have u: "e < UNPAIR_HOLD_MS" by fastforce
    have "hold_reports (b\<lparr>pb_pair_reported := True\<rparr>) es = (if \<exists>x \<in> set es. UNPAIR_HOLD_MS \<le> x then [BOARD_PAIR_BTN_UNPAIR] else [])"
      using hold_pair_reported [of "b\<lparr>pb_pair_reported := True\<rparr>" es] assms(1,3) ok(1) by simp
    with True u assms(2) show ?thesis by (auto simp: hold_reports_Cons [OF assms(1) Cons.prems(1)] not_less not_le)
  next
    case False
    with less have "\<not> UNPAIR_HOLD_MS \<le> e" by simp
    moreover have "(\<exists>e \<in> set es. PAIR_HOLD_MS \<le> e) \<longrightarrow> (\<exists>e \<in> set es. PAIR_HOLD_MS \<le> e \<and> e < UNPAIR_HOLD_MS)"
      using Cons.prems(3) False by auto
    ultimately show ?thesis using False less Cons.IH [OF ok(1,2)]
      by (auto simp: hold_reports_Cons [OF assms(1) Cons.prems(1)] not_le)
  qed
qed (simp add: hold_reports_def)

theorem pair_hold_actions_witness:
  "hold_reports \<lparr>pb_down_since = 7, pb_pair_reported = False, pb_unpair_reported = False\<rparr> [10, 2999, 3000, 3001, 9999, 10000, 10001] =
     [BOARD_PAIR_BTN_PAIR, BOARD_PAIR_BTN_UNPAIR]"
  using pair_hold_actions [of "\<lparr>pb_down_since = 7, pb_pair_reported = False, pb_unpair_reported = False\<rparr>"
      "[10, 2999, 3000, 3001, 9999, 10000, 10001]"]
  by (simp add: poll_ok_def dhp_consts)

text \<open>A main loop stalled past both thresholds unpairs first and then asks for pairing as well.\<close>

lemma late_poll_pairs_after_unpair:
  "hold_reports \<lparr>pb_down_since = 7, pb_pair_reported = False, pb_unpair_reported = False\<rparr> [2000, 10500, 10501] =
     [BOARD_PAIR_BTN_UNPAIR, BOARD_PAIR_BTN_PAIR]"
  by code_simp

section \<open>The key survives a reset, a damaged record does not\<close>

lemma get32_eq_take: "4 \<le> length p \<Longrightarrow> 4 \<le> length q \<Longrightarrow> get32 p = get32 q \<longleftrightarrow> take 4 p = take 4 q"
proof
  assume "4 \<le> length p" "4 \<le> length q" "get32 p = get32 q"
  then show "take 4 p = take 4 q" by (metis put32_get32)
next
  assume l: "4 \<le> length p" "4 \<le> length q" and "take 4 p = take 4 q"
  then have "p ! i = q ! i" if "i < 4" for i using that by (metis nth_take)
  then show "get32 p = get32 q" by (simp add: get32_def eval_nat_numeral)
qed

lemma get32_update:
  assumes "n \<le> i" "i < n + 4" "n + 4 \<le> length p" "v \<noteq> p ! i"
  shows "get32 (drop n (p[i := v])) \<noteq> get32 (drop n p)"
proof
  assume "get32 (drop n (p[i := v])) = get32 (drop n p)"
  then have "take 4 (drop n (p[i := v])) ! (i - n) = take 4 (drop n p) ! (i - n)"
    using assms get32_eq_take [of "drop n (p[i := v])" "drop n p"] by simp
  with assms show False by simp
qed

lemma get32_update_other:
  assumes "i < n \<or> n + 4 \<le> i" "n + 4 \<le> length p"
  shows "get32 (drop n (p[i := v])) = get32 (drop n p)"
proof -
  have "take 4 (drop n (p[i := v])) = take 4 (drop n p)"
    using assms by (intro nth_equalityI) auto
  with assms(2) show ?thesis by (simp add: get32_eq_take)
qed

lemma key_check_words:
  "key_check key = KEY_MAGIC XOR get32 key XOR get32 (drop 4 key) XOR get32 (drop 8 key) XOR get32 (drop 12 key)"
  by (simp add: key_check_def upt_rec xor.assoc)

lemma key_check_update:
  assumes "length key = 16" "i < 16" "v \<noteq> key ! i"
  shows "key_check (key[i := v]) \<noteq> key_check key"
proof -
  have cancel: "a XOR b = a XOR c \<longleftrightarrow> b = c" "b XOR a = c XOR a \<longleftrightarrow> b = c" for a b c :: u32
    by (metis bit.xor_left_self xor.commute)+
  note other = get32_update_other [where p = key and i = i and v = v]
  note own = get32_update [where p = key and i = i and v = v]
  consider "i < 4" | "4 \<le> i" "i < 8" | "8 \<le> i" "i < 12" | "12 \<le> i" "i < 16" using assms(2) by linarith
  then show ?thesis
  proof cases
    case 1
    then show ?thesis using own [of 0] other [of 4] other [of 8] other [of 12] assms by (simp add: key_check_words cancel)
  next
    case 2
    then show ?thesis using own [of 4] other [of 0] other [of 8] other [of 12] assms by (simp add: key_check_words cancel)
  next
    case 3
    then show ?thesis using own [of 8] other [of 0] other [of 4] other [of 12] assms by (simp add: key_check_words cancel)
  next
    case 4
    then show ?thesis using own [of 12] other [of 0] other [of 4] other [of 8] assms by (simp add: key_check_words cancel)
  qed
qed

text \<open>The bytes of flash that hold a saved key, and what is after them.\<close>

lemma key_load_saved:
  assumes "length key = 16" "take 24 p = key_record_bytes \<lparr>kr_magic = KEY_MAGIC, kr_key = key, kr_check = key_check key\<rparr>"
  shows "key_record_at p = \<lparr>kr_magic = KEY_MAGIC, kr_key = key, kr_check = key_check key\<rparr>"
proof -
  have p: "p = put32 KEY_MAGIC @ key @ put32 (key_check key) @ drop 24 p"
    using assms(2) by (metis append.assoc append_take_drop_id key_record_bytes_def key_record_t.select_convs)
  have "get32 p = KEY_MAGIC" by (subst p) simp
  moreover have "take 16 (drop 4 p) = key" by (subst p) (simp add: assms(1))
  moreover have "get32 (drop 20 p) = key_check key" by (subst p) (simp add: assms(1))
  ultimately show ?thesis by (simp add: key_record_at_def)
qed

lemma key_load_damaged:
  assumes "key_record_at p = \<lparr>kr_magic = KEY_MAGIC, kr_key = key, kr_check = key_check key\<rparr>" "24 \<le> length p" "i < 24" "v \<noteq> p ! i"
  shows "board_key_load (p[i := v]) = None"
proof -
  have k: "get32 p = KEY_MAGIC" "take 16 (drop 4 p) = key" "get32 (drop 20 p) = key_check key"
    using assms(1) by (simp_all add: key_record_at_def)
  have l: "length key = 16" using k(2) assms(2) by auto
  consider "i < 4" | "4 \<le> i" "i < 20" | "20 \<le> i" using assms(3) by linarith
  then show ?thesis
  proof cases
    case 1
    then show ?thesis using get32_update [of 0 i p v] assms k by (simp add: board_key_load_def key_record_at_def)
  next
    case 2
    have "take 16 (drop 4 (p[i := v])) = key[i - 4 := v]"
      using 2 k(2) assms(2) by (auto simp: drop_update_swap take_update_swap)
    moreover have "key_check (key[i - 4 := v]) \<noteq> key_check key"
      using 2 assms(2,4) k(2) l by (intro key_check_update) auto
    moreover have "get32 (drop 20 (p[i := v])) = key_check key" using get32_update_other [of i 20 p v] 2 assms(2) k by simp
    ultimately show ?thesis by (simp add: board_key_load_def key_record_at_def)
  next
    case 3
    have "take 16 (drop 4 (p[i := v])) = key" using 3 k(2) l by (simp add: drop_update_swap take_update_swap list_update_beyond)
    moreover have "get32 (drop 20 (p[i := v])) \<noteq> key_check key" using get32_update [of 20 i p v] 3 assms k by simp
    ultimately show ?thesis by (simp add: board_key_load_def key_record_at_def)
  qed
qed

lemma key_save_load:
  fixes flash_range_erase :: "'f \<Rightarrow> 'f" and f :: 'f
  assumes "\<And>f page. length page = page_size \<Longrightarrow> take page_size (xip (flash_range_program page (flash_range_erase f))) = page"
    and "\<And>f. take 24 (xip (flash_range_erase f)) = replicate 24 0xFF"
    and "24 \<le> page_size" "length key = 16"
  defines "p \<equiv> xip (board_key_save flash_range_erase flash_range_program page_size f key)"
  shows "key_record_at p = \<lparr>kr_magic = KEY_MAGIC, kr_key = key, kr_check = key_check key\<rparr>" "24 \<le> length p"
    "board_key_load p = Some key" "board_key_load (xip (board_key_erase flash_range_erase f)) = None"
proof -
  let ?rec = "\<lparr>kr_magic = KEY_MAGIC, kr_key = key, kr_check = key_check key\<rparr>"
  have pl: "length (key_page page_size key) = page_size" using assms(3,4) by (simp add: key_page_def key_record_bytes_def Let_def)
  then have t: "take page_size p = key_page page_size key" using assms(1) by (simp add: board_key_save_def p_def)
  have "take 24 (take page_size p) = key_record_bytes ?rec"
    unfolding t using assms(4) by (simp add: key_page_def key_record_bytes_def Let_def)
  then have "take 24 p = key_record_bytes ?rec" using assms(3) by (simp add: min_def)
  then show r: "key_record_at p = ?rec" using key_load_saved [OF assms(4)] by simp
  then show "board_key_load p = Some key" by (simp add: board_key_load_def)
  show "24 \<le> length p" using t pl assms(3) by (metis length_take min.bounded_iff)
  let ?e = "xip (flash_range_erase f)"
  have "take 4 ?e = replicate 4 0xFF" using arg_cong [OF assms(2) [of f], of "take 4"] by simp
  then have "take 4 ?e = take 4 (replicate 4 (0xFF :: u8))" "4 \<le> length ?e" by (simp, metis length_replicate length_take min.bounded_iff order_refl)
  then have "get32 ?e = get32 (replicate 4 0xFF)" using get32_eq_take [of ?e "replicate 4 0xFF"] by simp
  also have "\<dots> \<noteq> KEY_MAGIC" by code_simp
  finally show "board_key_load (xip (board_key_erase flash_range_erase f)) = None"
    by (simp add: board_key_load_def key_record_at_def board_key_erase_def)
qed

text \<open>
  The chain key survives a power cycle. Given flash functions that program a page into an
  erased sector, a key that was saved is loaded again; erasing forgets it; and a record with any
  one byte damaged is not taken for a key.
\<close>

theorem key_persists:
  fixes flash_range_erase :: "'f \<Rightarrow> 'f"
  assumes "\<And>f page. length page = page_size \<Longrightarrow> take page_size (xip (flash_range_program page (flash_range_erase f))) = page"
    and "\<And>f. take 24 (xip (flash_range_erase f)) = replicate 24 0xFF"
    and "24 \<le> page_size" "length key = 16"
  shows "board_key_load (xip (board_key_save flash_range_erase flash_range_program page_size f key)) = Some key \<and>
    board_key_load (xip (board_key_erase flash_range_erase f)) = None \<and>
    (\<forall>i v. i < 24 \<and> v \<noteq> xip (board_key_save flash_range_erase flash_range_program page_size f key) ! i \<longrightarrow>
       board_key_load ((xip (board_key_save flash_range_erase flash_range_program page_size f key))[i := v]) = None)"
proof -
  note k = key_save_load [where xip = xip and flash_range_program = flash_range_program and flash_range_erase = flash_range_erase
      and f = f, OF assms]
  from k(3,4) key_load_damaged [OF k(1,2)] show ?thesis by simp
qed

text \<open>Flash as a list of bytes: erasing sets every bit, programming overwrites the first page.\<close>

definition demo_key16 :: "u8 list" where
  "demo_key16 = [1, 2, 3, 4, 5, 6, 7, 8, 9, 10, 11, 12, 13, 14, 15, 16]"

theorem key_persists_witness:
  "board_key_load (board_key_save (\<lambda>f. replicate 4096 0xFF) (\<lambda>page f. page @ drop 256 f) 256 [] demo_key16) = Some demo_key16"
  using key_persists [of 256 "\<lambda>f. f" "\<lambda>page f. page @ drop 256 f" "\<lambda>f. replicate 4096 0xFF" demo_key16 "[]"]
  by (simp add: demo_key16_def)

end
