(* ===== verification/Dhp_Clientlink.thy ===== *)
theory Dhp_Clientlink
  imports Dhp_Ring Dhp_Router
begin

text \<open>
  The gate between a board and the level 3 client on its machine,
  \<open>firmware/rp2040/src/clientlink.c\<close>: bytes from the client are framed under the published local
  key, only DATA frames go on to the chain, and frames for the client wait in a ring that is
  drained one 64-byte report at a time.

  The two pointers of \<open>clientlink_t\<close>, to the chain link and to the router, are one argument here,
  the router that contains the link. The USB endpoint is an input, whether it is free, and an
  output, the report sent.
\<close>

section \<open>State\<close>

definition CLIENTLINK_REPORT_BYTES :: nat where [dhp_consts]: "CLIENTLINK_REPORT_BYTES = 64"
definition CLIENTLINK_TIMEOUT_MS :: dhp_time_t where [dhp_consts]: "CLIENTLINK_TIMEOUT_MS = 5000"
definition CLIENTLINK_TX_BYTES :: nat where [dhp_consts]: "CLIENTLINK_TX_BYTES = 2048"

definition LOCAL_KEY :: "u8 list" where
  "LOCAL_KEY = [0x64, 0x68, 0x70, 0x2D, 0x6C, 0x6F, 0x63, 0x61, 0x6C, 0x2D, 0x76, 0x31, 0, 0, 0, 0]"

record clientlink_t =
  cl_framer :: dhp_framer_t
  cl_key :: "u8 list"
  cl_tx :: "u8 list"
  cl_tx_head :: u16
  cl_tx_tail :: u16
  cl_tx_seq :: u16
  cl_attached :: bool
  cl_client_caps :: u16
  cl_last_rx :: dhp_time_t
  cl_next_status :: dhp_time_t
  cl_n_proxied :: u32
  cl_n_to_client :: u32
  cl_n_refused :: u32

definition clientlink_init :: clientlink_t where
  "clientlink_init =
     \<lparr>cl_framer = dhp_framer_init, cl_key = LOCAL_KEY, cl_tx = replicate CLIENTLINK_TX_BYTES 0,
      cl_tx_head = 0, cl_tx_tail = 0, cl_tx_seq = 0, cl_attached = False, cl_client_caps = 0,
      cl_last_rx = 0, cl_next_status = 0, cl_n_proxied = 0, cl_n_to_client = 0, cl_n_refused = 0\<rparr>"

section \<open>Outbound queue\<close>

definition tx_next :: "u16 \<Rightarrow> u16" where
  "tx_next i = of_nat ((unat i + 1) mod CLIENTLINK_TX_BYTES)"

text \<open>One round of the loop of \<open>tx_push\<close>, and one of the draining loop of \<open>clientlink_task\<close>.\<close>

definition tx_put :: "clientlink_t \<Rightarrow> u8 \<Rightarrow> clientlink_t \<times> bool" where
  "tx_put cl b =
     (let next = tx_next (cl_tx_head cl)
      in if next = cl_tx_tail cl then (cl, False)
         else (cl\<lparr>cl_tx := (cl_tx cl)[unat (cl_tx_head cl) := b], cl_tx_head := next\<rparr>, True))"

definition tx_take :: "clientlink_t \<Rightarrow> (u8 \<times> clientlink_t) option" where
  "tx_take cl =
     (if cl_tx_tail cl = cl_tx_head cl then None
      else Some (cl_tx cl ! unat (cl_tx_tail cl), cl\<lparr>cl_tx_tail := tx_next (cl_tx_tail cl)\<rparr>))"

primrec tx_push :: "u8 list \<Rightarrow> clientlink_t \<Rightarrow> clientlink_t" where
  "tx_push [] cl = cl"
| "tx_push (b # bs) cl = (case tx_put cl b of (cl', False) \<Rightarrow> cl | (cl', True) \<Rightarrow> tx_push bs cl')"

definition tx_pending :: "clientlink_t \<Rightarrow> nat" where
  "tx_pending cl = (unat (cl_tx_head cl) + CLIENTLINK_TX_BYTES - unat (cl_tx_tail cl)) mod CLIENTLINK_TX_BYTES"

section \<open>Frames toward the client\<close>

definition local_frame :: "u8 \<Rightarrow> dhp_addr_t \<Rightarrow> dhp_addr_t \<Rightarrow> u16 \<Rightarrow> u8 list option \<Rightarrow> u8 \<Rightarrow> dhp_frame_t" where
  "local_frame type src dst seq payload len =
     \<lparr>fr_type = type, fr_ttl = DHP_TTL_DEFAULT, fr_src = src, fr_dst = dst, fr_seq = seq, fr_len = len,
      fr_payload = payload, fr_body = [], fr_body_len = 0\<rparr>"

definition send_local :: "u8 \<Rightarrow> dhp_addr_t \<Rightarrow> dhp_addr_t \<Rightarrow> u16 \<Rightarrow> u8 list option \<Rightarrow> u8 \<Rightarrow> clientlink_t \<Rightarrow> clientlink_t" where
  "send_local type src dst seq payload len cl =
     (case dhp_frame_encode (local_frame type src dst seq payload len) (cl_key cl) DHP_WIRE_MAX of
        Inl e \<Rightarrow> cl
      | Inr wire \<Rightarrow> tx_push wire cl)"

definition clientlink_deliver :: "clientlink_t \<Rightarrow> dhp_frame_t \<Rightarrow> clientlink_t \<times> bool" where
  "clientlink_deliver cl f =
     (if \<not> cl_attached cl then (cl, False)
      else
        let cl1 = send_local (fr_type f) (fr_src f) (fr_dst f) (fr_seq f) (fr_payload f) (fr_len f) cl
        in (cl1\<lparr>cl_n_to_client := cl_n_to_client cl1 + 1\<rparr>, True))"

definition send_status :: "clientlink_t \<Rightarrow> dhp_router_t \<Rightarrow> dhp_time_t \<Rightarrow> clientlink_t" where
  "send_status cl r now =
     (let st = \<lparr>ls_self = rc_self (rt_cfg r), ls_focus = dhp_router_focus r,
                ls_level = of_nat (level_code (dhp_router_level r)), ls_boards = dhp_router_chain_size r\<rparr>;
          buf = dhp_local_status_pack st;
          cl1 = send_local (msg_code DHP_MSG_CAP) (rc_self (rt_cfg r)) 0x00FF (cl_tx_seq cl) (Some buf)
                  (of_nat DHP_LOCAL_STATUS_BYTES) (cl\<lparr>cl_tx_seq := cl_tx_seq cl + 1\<rparr>)
      in cl1\<lparr>cl_next_status := now + 1000\<rparr>)"

section \<open>Frames from the client\<close>

definition CLIENT_CAPS_MASK :: u16 where
  [dhp_consts]: "CLIENT_CAPS_MASK = DHP_CAP_CLIPBOARD OR DHP_CAP_FILES OR DHP_CAP_IMAGES OR DHP_CAP_SHARE"

definition handle_from_client ::
  "clientlink_t \<times> dhp_router_t \<Rightarrow> dhp_frame_t \<Rightarrow> dhp_time_t \<Rightarrow> clientlink_t \<times> dhp_router_t" where
  "handle_from_client s f now =
     (let cl = (fst s)\<lparr>cl_last_rx := now\<rparr>; r = snd s
      in if fr_type f = msg_code DHP_MSG_CAP then
           (case dhp_local_attach_unpack (frame_bytes f) of
              None \<Rightarrow> (cl, r)
            | Some a \<Rightarrow>
                let cl1 = cl\<lparr>cl_client_caps := la_caps a AND CLIENT_CAPS_MASK\<rparr>
                in (if \<not> cl_attached cl1 then cl1\<lparr>cl_attached := True, cl_next_status := 0\<rparr> else cl1, r))
         else if fr_type f \<noteq> msg_code DHP_MSG_DATA then (cl\<lparr>cl_n_refused := cl_n_refused cl + 1\<rparr>, r)
         else if \<not> cl_attached cl then (cl, r)
         else
           let (l, tx, res) = dhp_link_send (rt_link r) (msg_code DHP_MSG_DATA) (fr_dst f) (fr_payload f) (fr_len f) now
           in (cl\<lparr>cl_n_proxied := cl_n_proxied cl + 1\<rparr>, r\<lparr>rt_link := l, rt_out := rt_out r @ map RTx tx\<rparr>))"

definition client_byte :: "dhp_time_t \<Rightarrow> u8 \<Rightarrow> clientlink_t \<times> dhp_router_t \<Rightarrow> clientlink_t \<times> dhp_router_t" where
  "client_byte now b s =
     (let (fr, res) = dhp_framer_push (cl_framer (fst s)) b (Some (cl_key (fst s)));
          s1 = ((fst s)\<lparr>cl_framer := fr\<rparr>, snd s)
      in case res of Inl e \<Rightarrow> s1 | Inr f \<Rightarrow> handle_from_client s1 f now)"

definition clientlink_rx_report ::
  "clientlink_t \<Rightarrow> dhp_router_t \<Rightarrow> u8 list \<Rightarrow> dhp_time_t \<Rightarrow> clientlink_t \<times> dhp_router_t" where
  "clientlink_rx_report cl r data now = fold (client_byte now) data (cl, r)"

section \<open>Periodic\<close>

primrec fill_report :: "nat \<Rightarrow> clientlink_t \<Rightarrow> u8 list \<times> clientlink_t" where
  "fill_report 0 cl = ([], cl)"
| "fill_report (Suc room) cl =
     (case tx_take cl of
        None \<Rightarrow> ([], cl)
      | Some (b, cl1) \<Rightarrow> let (bs, cl2) = fill_report room cl1 in (b # bs, cl2))"

definition pad_report :: "u8 list \<Rightarrow> u8 list" where
  "pad_report bs = bs @ replicate (CLIENTLINK_REPORT_BYTES - length bs) DHP_FLAG"

definition clientlink_task ::
  "clientlink_t \<Rightarrow> dhp_router_t \<Rightarrow> bool \<Rightarrow> dhp_time_t \<Rightarrow> clientlink_t \<times> u8 list option" where
  "clientlink_task cl r vendor_ready now =
     (if cl_attached cl \<and> dhp_time_after now (cl_last_rx cl + CLIENTLINK_TIMEOUT_MS) then
        (cl\<lparr>cl_attached := False, cl_client_caps := 0, cl_tx_head := 0, cl_tx_tail := 0, cl_framer := dhp_framer_init\<rparr>, None)
      else if \<not> cl_attached cl then (cl, None)
      else
        let cl1 = (if dhp_time_after now (cl_next_status cl) then send_status cl r now else cl)
        in if tx_pending cl1 = 0 \<or> \<not> vendor_ready then (cl1, None)
           else
             let (bs, cl2) = fill_report CLIENTLINK_REPORT_BYTES cl1
             in (cl2, Some (pad_report bs)))"

definition clientlink_caps :: "clientlink_t \<Rightarrow> u16" where
  "clientlink_caps cl = (if cl_attached cl then cl_client_caps cl else 0)"

definition clientlink_attached :: "clientlink_t \<Rightarrow> bool" where
  "clientlink_attached cl = cl_attached cl"

section \<open>The queue\<close>

definition tx_inv :: "clientlink_t \<Rightarrow> bool" where
  "tx_inv cl \<longleftrightarrow> length (cl_tx cl) = 2048 \<and> unat (cl_tx_head cl) < 2048 \<and> unat (cl_tx_tail cl) < 2048"

definition tx_bytes :: "clientlink_t \<Rightarrow> u8 list" where
  "tx_bytes cl = ring_contents 2048 (cl_tx cl) (unat (cl_tx_head cl)) (unat (cl_tx_tail cl))"

lemma unat_tx_next [simp]: "unat (tx_next i) = Suc (unat i) mod 2048"
proof -
  have "Suc (unat i) mod 2048 < 65536" using mod_less_divisor [of 2048 "Suc (unat i)"] by linarith
  then show ?thesis by (simp add: tx_next_def dhp_consts unsigned_of_nat take_bit_nat_eq_self)
qed

lemma tx_put_eq:
  assumes "tx_inv cl"
  shows "tx_put cl b =
    (if length (tx_bytes cl) = 2047 then (cl, False)
     else (cl\<lparr>cl_tx := (cl_tx cl)[unat (cl_tx_head cl) := b], cl_tx_head := tx_next (cl_tx_head cl)\<rparr>, True))"
proof -
  have "tx_next (cl_tx_head cl) = cl_tx_tail cl \<longleftrightarrow> Suc (unat (cl_tx_head cl)) mod 2048 = unat (cl_tx_tail cl)"
    by (metis unat_tx_next unsigned_word_eqI)
  also have "\<dots> \<longleftrightarrow> length (tx_bytes cl) = 2047"
    using assms ring_full_iff [of "unat (cl_tx_head cl)" 2048 "unat (cl_tx_tail cl)"] by (simp add: tx_inv_def tx_bytes_def)
  finally show ?thesis by (simp add: tx_put_def Let_def)
qed

interpretation client_queue: bounded_fifo tx_inv tx_bytes 2047 tx_put tx_take
proof unfold_locales
  fix q :: clientlink_t and b :: u8 and bs :: "u8 list"
  assume inv: "tx_inv q"
  then have i: "unat (cl_tx_head q) < 2048" "unat (cl_tx_tail q) < 2048" "length (cl_tx q) = 2048" by (simp_all add: tx_inv_def)
  show "length (tx_bytes q) \<le> 2047" using ring_used_less [of 2048] by (simp add: tx_bytes_def less_Suc_eq_le [symmetric])
  show "tx_put q b = (q, False)" if "length (tx_bytes q) = 2047" using tx_put_eq [OF inv] that by simp
  show "tx_take q = None" if "tx_bytes q = []"
  proof -
    have "ring_used 2048 (unat (cl_tx_head q)) (unat (cl_tx_tail q)) = 0"
      using arg_cong [OF that, of length] by (simp add: tx_bytes_def)
    with ring_empty_iff [OF i(1,2)] have "cl_tx_head q = cl_tx_tail q" by (simp add: unsigned_word_eqI)
    then show ?thesis by (simp add: tx_take_def)
  qed
  show "\<exists>q'. tx_put q b = (q', True) \<and> tx_inv q' \<and> tx_bytes q' = tx_bytes q @ [b]" if "length (tx_bytes q) < 2047"
  proof -
    let ?q = "q\<lparr>cl_tx := (cl_tx q)[unat (cl_tx_head q) := b], cl_tx_head := tx_next (cl_tx_head q)\<rparr>"
    have "Suc (unat (cl_tx_head q)) mod 2048 \<noteq> unat (cl_tx_tail q)"
      using that ring_full_iff [OF i(1,2)] by (simp add: tx_bytes_def)
    then have "tx_bytes ?q = tx_bytes q @ [b]"
      using ring_contents_push [OF i(1,2), of "(cl_tx q)[unat (cl_tx_head q) := b]"] i
      by (simp add: tx_bytes_def ring_contents_write)
    moreover have "tx_inv ?q" using i by (simp add: tx_inv_def)
    ultimately show ?thesis using tx_put_eq [OF inv] that by simp
  qed
  show "\<exists>q'. tx_take q = Some (b, q') \<and> tx_inv q' \<and> tx_bytes q' = bs" if c: "tx_bytes q = b # bs"
  proof -
    let ?q = "q\<lparr>cl_tx_tail := tx_next (cl_tx_tail q)\<rparr>"
    have "ring_used 2048 (unat (cl_tx_head q)) (unat (cl_tx_tail q)) \<noteq> 0" using arg_cong [OF c, of length] by (simp add: tx_bytes_def)
    then have ne: "unat (cl_tx_head q) \<noteq> unat (cl_tx_tail q)" using ring_empty_iff [OF i(1,2)] by simp
    then have "tx_take q = Some (cl_tx q ! unat (cl_tx_tail q), ?q)" by (auto simp: tx_take_def)
    moreover have "tx_bytes q = cl_tx q ! unat (cl_tx_tail q) # tx_bytes ?q"
      using ring_contents_pop [OF i(1,2) ne] by (simp add: tx_bytes_def)
    ultimately show ?thesis using c i by (simp add: tx_inv_def)
  qed
qed

lemma tx_push_list:
  assumes "tx_inv cl"
  shows "tx_push bs cl = client_queue.push_list bs cl"
  using assms
proof (induction bs arbitrary: cl)
  case (Cons b bs)
  show ?case
  proof (rule client_queue.push_cases [OF Cons.prems, where b = b])
    fix cl'
    assume "tx_put cl b = (cl', True)" "tx_inv cl'"
    with Cons.IH show ?thesis by simp
  next
    assume full: "tx_put cl b = (cl, False)"
    then have "client_queue.push_list bs cl = cl" for bs
      by (induction bs) (auto simp: tx_put_def Let_def split: if_splits)
    with full show ?thesis by simp
  qed
qed simp

lemma tx_push_spec: "tx_inv cl \<Longrightarrow> tx_inv (tx_push bs cl) \<and> tx_bytes (tx_push bs cl) = take 2047 (tx_bytes cl @ bs)"
  using client_queue.push_list_spec by (simp add: tx_push_list)

lemma fill_report_list: "fill_report n cl = client_queue.pop_list n cl"
  by (induction n arbitrary: cl) (auto split: option.split)

lemma fill_report_spec:
  "tx_inv cl \<Longrightarrow> fill_report n cl = (bs, cl') \<Longrightarrow> bs = take n (tx_bytes cl) \<and> tx_inv cl' \<and> tx_bytes cl' = drop n (tx_bytes cl)"
  unfolding fill_report_list by (rule client_queue.pop_list_spec)

lemma tx_pending_length: "tx_pending cl = length (tx_bytes cl)"
  by (simp add: tx_pending_def tx_bytes_def ring_used_def dhp_consts)

text \<open>The queue operations touch nothing but the queue.\<close>

lemma tx_put_frame: "\<exists>t h. fst (tx_put cl b) = cl\<lparr>cl_tx := t, cl_tx_head := h\<rparr>"
proof (cases "tx_next (cl_tx_head cl) = cl_tx_tail cl")
  case True
  then have "fst (tx_put cl b) = cl\<lparr>cl_tx := cl_tx cl, cl_tx_head := cl_tx_head cl\<rparr>" by (simp add: tx_put_def)
  then show ?thesis by blast
qed (auto simp: tx_put_def Let_def)

lemma tx_push_frame: "\<exists>t h. tx_push bs cl = cl\<lparr>cl_tx := t, cl_tx_head := h\<rparr>"
proof (induction bs arbitrary: cl)
  case Nil
  have "tx_push [] cl = cl\<lparr>cl_tx := cl_tx cl, cl_tx_head := cl_tx_head cl\<rparr>" by simp
  then show ?case by blast
next
  case (Cons b bs)
  obtain cl' ok where p: "tx_put cl b = (cl', ok)" by fastforce
  obtain t h where t: "cl' = cl\<lparr>cl_tx := t, cl_tx_head := h\<rparr>" using tx_put_frame [of cl b] p by auto
  show ?case
  proof (cases ok)
    case True
    obtain t' h' where "tx_push bs cl' = cl'\<lparr>cl_tx := t', cl_tx_head := h'\<rparr>" using Cons by blast
    then have "tx_push (b # bs) cl = cl\<lparr>cl_tx := t', cl_tx_head := h'\<rparr>" using True p t by simp
    then show ?thesis by blast
  next
    case False
    then have "tx_push (b # bs) cl = cl\<lparr>cl_tx := cl_tx cl, cl_tx_head := cl_tx_head cl\<rparr>" using p by simp
    then show ?thesis by blast
  qed
qed

lemma send_local_frame: "\<exists>t h. send_local ty s d q p n cl = cl\<lparr>cl_tx := t, cl_tx_head := h\<rparr>"
proof (cases "dhp_frame_encode (local_frame ty s d q p n) (cl_key cl) DHP_WIRE_MAX")
  case (Inl e)
  then have "send_local ty s d q p n cl = cl\<lparr>cl_tx := cl_tx cl, cl_tx_head := cl_tx_head cl\<rparr>" by (simp add: send_local_def)
  then show ?thesis by blast
next
  case (Inr w)
  then show ?thesis using tx_push_frame [of w cl] by (simp add: send_local_def)
qed

lemma send_local_keeps [simp]:
  "cl_framer (send_local ty s d q p n cl) = cl_framer cl"
  "cl_key (send_local ty s d q p n cl) = cl_key cl"
  "cl_tx_tail (send_local ty s d q p n cl) = cl_tx_tail cl"
  "cl_tx_seq (send_local ty s d q p n cl) = cl_tx_seq cl"
  "cl_attached (send_local ty s d q p n cl) = cl_attached cl"
  "cl_client_caps (send_local ty s d q p n cl) = cl_client_caps cl"
  "cl_last_rx (send_local ty s d q p n cl) = cl_last_rx cl"
  "cl_next_status (send_local ty s d q p n cl) = cl_next_status cl"
  "cl_n_to_client (send_local ty s d q p n cl) = cl_n_to_client cl"
  using send_local_frame [of ty s d q p n cl] by auto

lemma send_local_spec:
  assumes "tx_inv cl" "frame_ok (local_frame ty s d q p n)"
  shows "tx_inv (send_local ty s d q p n cl)"
    "tx_bytes (send_local ty s d q p n cl) = take 2047 (tx_bytes cl @ frame_wire (frame_body (local_frame ty s d q p n) (cl_key cl)))"
  using tx_push_spec [OF assms(1)] by (simp_all add: send_local_def dhp_frame_encode_eq [OF assms(2)])

lemma send_local_inv: "tx_inv cl \<Longrightarrow> tx_inv (send_local ty s d q p n cl)"
  using tx_push_spec by (simp add: send_local_def split: sum.split)

lemma fill_report_frame: "fill_report n cl = (bs, cl') \<Longrightarrow> \<exists>t. cl' = cl\<lparr>cl_tx_tail := t\<rparr>"
proof (induction n arbitrary: cl bs)
  case 0
  then have "cl' = cl\<lparr>cl_tx_tail := cl_tx_tail cl\<rparr>" by simp
  then show ?case by blast
next
  case (Suc n)
  show ?case
  proof (cases "cl_tx_tail cl = cl_tx_head cl")
    case True
    then have "cl' = cl\<lparr>cl_tx_tail := cl_tx_tail cl\<rparr>" using Suc.prems by (simp add: tx_take_def)
    then show ?thesis by blast
  next
    case False
    let ?c = "cl\<lparr>cl_tx_tail := tx_next (cl_tx_tail cl)\<rparr>"
    obtain bs' where "fill_report n ?c = (bs', cl')" using False Suc.prems by (auto simp: tx_take_def split: prod.splits)
    from Suc.IH [OF this] show ?thesis by auto
  qed
qed

section \<open>Reachable states\<close>

text \<open>Everything that happens to the gate: a report from the client, a frame for it, a poll.\<close>

inductive client_step :: "clientlink_t \<Rightarrow> clientlink_t \<Rightarrow> bool" where
  client_report: "clientlink_rx_report cl r data now = (cl', r') \<Longrightarrow> client_step cl cl'"
| client_deliver: "clientlink_deliver cl f = (cl', ok) \<Longrightarrow> client_step cl cl'"
| client_task: "clientlink_task cl r ready now = (cl', rep) \<Longrightarrow> client_step cl cl'"

definition client_inv :: "clientlink_t \<Rightarrow> bool" where
  "client_inv cl \<longleftrightarrow> tx_inv cl \<and> cl_key cl = LOCAL_KEY \<and> cl_client_caps cl AND CLIENT_CAPS_MASK = cl_client_caps cl"

lemma handle_from_client_inv: "client_inv (fst s) \<Longrightarrow> client_inv (fst (handle_from_client s f now))"
  by (auto simp: handle_from_client_def Let_def client_inv_def tx_inv_def and.assoc split: option.split prod.split)

lemma client_byte_inv: "client_inv (fst s) \<Longrightarrow> client_inv (fst (client_byte now b s))"
proof -
  assume i: "client_inv (fst s)"
  obtain fr res where p: "dhp_framer_push (cl_framer (fst s)) b (Some (cl_key (fst s))) = (fr, res)" by fastforce
  have "client_inv (fst ((fst s)\<lparr>cl_framer := fr\<rparr>, snd s))" using i by (simp add: client_inv_def tx_inv_def)
  with handle_from_client_inv p show ?thesis by (simp add: client_byte_def Let_def split: sum.split)
qed

lemma client_rx_inv: "client_inv (fst s) \<Longrightarrow> client_inv (fst (fold (client_byte now) data s))"
  by (induction data arbitrary: s) (simp_all add: client_byte_inv)

lemma client_inv_send_local: "client_inv cl \<Longrightarrow> client_inv (send_local ty s d q p n cl)"
  by (simp add: client_inv_def send_local_inv)

lemma client_inv_cong:
  "client_inv cl \<Longrightarrow> cl_tx cl' = cl_tx cl \<Longrightarrow> cl_tx_head cl' = cl_tx_head cl \<Longrightarrow> cl_tx_tail cl' = cl_tx_tail cl \<Longrightarrow>
     cl_key cl' = cl_key cl \<Longrightarrow> cl_client_caps cl' = cl_client_caps cl \<Longrightarrow> client_inv cl'"
  by (simp add: client_inv_def tx_inv_def)

lemma client_inv_status:
  assumes "client_inv cl"
  shows "client_inv (send_status cl r now)"
proof -
  have "client_inv (cl\<lparr>cl_tx_seq := cl_tx_seq cl + 1\<rparr>)" using assms by (rule client_inv_cong) simp_all
  note sent = client_inv_send_local [OF this]
  show ?thesis unfolding send_status_def Let_def by (rule client_inv_cong [OF sent]) simp_all
qed

lemma client_task_inv:
  assumes "client_inv cl" "clientlink_task cl r ready now = (cl', rep)"
  shows "client_inv cl'"
proof -
  let ?c = "if dhp_time_after now (cl_next_status cl) then send_status cl r now else cl"
  have c: "client_inv ?c" using assms(1) client_inv_status by simp
  obtain bs c2 where f: "fill_report CLIENTLINK_REPORT_BYTES ?c = (bs, c2)" by fastforce
  obtain t where t: "c2 = ?c\<lparr>cl_tx_tail := t\<rparr>" using fill_report_frame [OF f] by blast
  have "client_inv c2" using c fill_report_spec [OF _ f] t by (simp add: client_inv_def)
  moreover have "client_inv (cl\<lparr>cl_attached := False, cl_client_caps := 0, cl_tx_head := 0, cl_tx_tail := 0, cl_framer := dhp_framer_init\<rparr>)"
    using assms(1) by (simp add: client_inv_def tx_inv_def)
  ultimately show ?thesis using assms c f by (auto simp: clientlink_task_def Let_def split: if_splits)
qed

lemma client_inv_step: "client_inv cl \<Longrightarrow> client_step cl cl' \<Longrightarrow> client_inv cl'"
proof (erule client_step.cases)
  fix c r data now c' r'
  assume "client_inv cl" "cl = c" "cl' = c'" "clientlink_rx_report c r data now = (c', r')"
  then show "client_inv cl'" using client_rx_inv [of "(c, r)" now data] by (simp add: clientlink_rx_report_def)
next
  fix c f c' ok
  assume "client_inv cl" "cl = c" "cl' = c'" "clientlink_deliver c f = (c', ok)"
  then show "client_inv cl'"
    by (auto simp: clientlink_deliver_def Let_def split: if_splits intro: client_inv_cong [OF client_inv_send_local])
qed (use client_task_inv in blast)

interpretation client: transition_system "\<lambda>cl. cl = clientlink_init" client_step client_inv
  by unfold_locales (simp add: clientlink_init_def client_inv_def tx_inv_def dhp_consts, rule client_inv_step)

section \<open>What a client can and cannot do\<close>

lemma priority_ignores_client_caps:
  assumes "c AND CLIENT_CAPS_MASK = c"
  shows "dhp_uhrp_priority_from_caps (base OR c) = dhp_uhrp_priority_from_caps base" "c AND DHP_CAP_HID_IN = 0"
proof -
  have z: "c AND m = 0" if "CLIENT_CAPS_MASK AND m = 0" for m
    using assms that by (metis and.assoc and_zero_eq)
  have m: "CLIENT_CAPS_MASK AND DHP_CAP_COORD = 0" "CLIENT_CAPS_MASK AND DHP_CAP_HID_IN = 0"
    "CLIENT_CAPS_MASK AND DHP_CAP_DISPLAY = 0" "CLIENT_CAPS_MASK AND DHP_CAP_CONFIG = 0" by (simp_all add: dhp_consts)
  have d: "(base OR c) AND m = base AND m" if "CLIENT_CAPS_MASK AND m = 0" for m
    using z [OF that] by (simp add: bit.conj_disj_distrib2)
  show "dhp_uhrp_priority_from_caps (base OR c) = dhp_uhrp_priority_from_caps base"
    unfolding dhp_uhrp_priority_from_caps_def m [THEN d] ..
  show "c AND DHP_CAP_HID_IN = 0" using z m by blast
qed


text \<open>A DATA frame decoded from the client is sent on as its bytes.\<close>

lemma link_send_bytes:
  assumes "shape_ok body"
  shows "dhp_link_send l ty d (fr_payload (frame_of_body body)) (fr_len (frame_of_body body)) now =
    dhp_link_send l ty d (Some (frame_bytes (frame_of_body body))) (of_nat (length (frame_bytes (frame_of_body body)))) now"
proof -
  have "length (frame_bytes (frame_of_body body)) = unat (body ! 8)"
    using assms by (auto simp: shape_ok_def dhp_consts)
  then have n: "of_nat (length (frame_bytes (frame_of_body body))) = body ! 8" by simp
  show ?thesis
  proof (cases "body ! 8 = 0")
    case True
    have e: "emit_frame k p (link_frame l ty d None 0) = emit_frame k p (link_frame l ty d (Some []) 0)" for k p
      by (simp add: emit_frame_def dhp_frame_encode_def link_frame_def frame_body_def frame_header_def frame_bytes_def)
    have "dhp_link_send l ty d None 0 now = dhp_link_send l ty d (Some []) 0 now"
      unfolding dhp_link_send_def Let_def e by (simp add: link_frame_def)
    moreover have "fr_payload (frame_of_body body) = None" "frame_bytes (frame_of_body body) = []"
      using True by (simp_all add: frame_of_body_def frame_bytes_def)
    ultimately show ?thesis using True by simp
  next
    case False
    then have "fr_payload (frame_of_body body) = Some (frame_bytes (frame_of_body body))"
      by (simp add: frame_of_body_def frame_bytes_def Let_def)
    with n show ?thesis by simp
  qed
qed

text \<open>The effect on the chain: a sequence of DATA frames handed to the link.\<close>

definition sends_data :: "dhp_time_t \<Rightarrow> (dhp_addr_t \<times> u8 list) list \<Rightarrow> dhp_router_t \<Rightarrow> dhp_router_t" where
  "sends_data now ds r =
     (let (l, tx) = link_sends now (map (\<lambda>d. (DHP_MSG_DATA, fst d, snd d)) ds) (rt_link r)
      in r\<lparr>rt_link := l, rt_out := rt_out r @ map RTx tx\<rparr>)"

lemma sends_data_Nil [simp]: "sends_data now [] r = r"
  by (simp add: sends_data_def)

lemma sends_data_append: "sends_data now (ds @ es) r = sends_data now es (sends_data now ds r)"
  by (simp add: sends_data_def link_sends_append Let_def split: prod.split)

lemma client_byte_sends:
  "\<exists>ds. snd (client_byte now b s) = sends_data now ds (snd s) \<and> (ds \<noteq> [] \<longrightarrow> clientlink_attached (fst s)) \<and> length ds \<le> 1"
proof -
  obtain fr res where p: "dhp_framer_push (cl_framer (fst s)) b (Some (cl_key (fst s))) = (fr, res)" by fastforce
  let ?s = "((fst s)\<lparr>cl_framer := fr\<rparr>, snd s)"
  show ?thesis
  proof (cases "\<exists>f. res = Inr f \<and> fr_type f = msg_code DHP_MSG_DATA \<and> cl_attached (fst s)")
    case True
    then obtain f where f: "res = Inr f" "fr_type f = msg_code DHP_MSG_DATA" "cl_attached (fst s)" by blast
    from push_Inr [OF p [unfolded f(1)]] obtain body where body: "f = frame_of_body body" "shape_ok body" by auto
    have "snd (client_byte now b s) = sends_data now [(fr_dst f, frame_bytes f)] (snd s)"
      using f p link_send_bytes [OF body(2), folded body(1), of "rt_link (snd s)" "msg_code DHP_MSG_DATA" "fr_dst f" now]
      by (simp add: client_byte_def handle_from_client_def sends_data_def Let_def split: prod.split)
    then show ?thesis using f(3) by (intro exI [of _ "[(fr_dst f, frame_bytes f)]"]) (simp add: clientlink_attached_def)
  next
    case False
    have "snd (client_byte now b s) = snd s"
    proof (cases res)
      case (Inr f)
      with False p show ?thesis
        by (auto simp: client_byte_def handle_from_client_def Let_def split: option.split)
    qed (simp add: client_byte_def p)
    then show ?thesis by (intro exI [of _ "[]"]) simp
  qed
qed

lemma client_bytes_send: "\<exists>ds. snd (fold (client_byte now) data s) = sends_data now ds (snd s)"
proof (induction data arbitrary: s)
  case Nil
  show ?case by (intro exI [of _ "[]"]) simp
next
  case (Cons b data)
  obtain ds where "snd (client_byte now b s) = sends_data now ds (snd s)" using client_byte_sends by blast
  moreover obtain es where "snd (fold (client_byte now) data (client_byte now b s)) = sends_data now es (snd (client_byte now b s))"
    using Cons by blast
  ultimately show ?case by (intro exI [of _ "ds @ es"]) (simp add: sends_data_append)
qed

text \<open>Every frame the link emits for such a sequence carries this board's address and the chain key.\<close>

definition data_wire :: "dhp_link_t \<Rightarrow> u8 list \<Rightarrow> bool" where
  "data_wire l w \<longleftrightarrow> (\<exists>g. fr_type g = msg_code DHP_MSG_DATA \<and> fr_src g = lk_self l \<and> w = frame_wire (frame_body g (lk_key l)))"

lemma emit_frame_wire:
  assumes "emit_frame l p f = (l', tx, res)"
  shows "(\<forall>(q, w) \<in> set tx. w = frame_wire (frame_body f (lk_key l))) \<and> lk_self l' = lk_self l \<and> lk_key l' = lk_key l"
  using assms by (auto simp: emit_frame_def upd_port_def dest: dhp_frame_encode_Inr split: if_splits sum.splits)

lemma link_send_wire:
  assumes "dhp_link_send l (msg_code DHP_MSG_DATA) d p n now = (l', tx, res)"
  shows "(\<forall>(q, w) \<in> set tx. data_wire l w) \<and> lk_self l' = lk_self l \<and> lk_key l' = lk_key l"
proof -
  let ?f = "link_frame l (msg_code DHP_MSG_DATA) d p n"
  obtain l1 tx1 r1 where e1: "emit_frame l DHP_PORT_UP ?f = (l1, tx1, r1)" by (cases "emit_frame l DHP_PORT_UP ?f") auto
  obtain l2 tx2 r2 where e2: "emit_frame l1 DHP_PORT_DOWN ?f = (l2, tx2, r2)" by (cases "emit_frame l1 DHP_PORT_DOWN ?f") auto
  have "data_wire l (frame_wire (frame_body ?f (lk_key l)))"
    unfolding data_wire_def by (rule exI [of _ ?f]) (simp add: link_frame_def)
  moreover have "l' = l2\<lparr>lk_tx_seq := lk_tx_seq l2 + 1\<rparr>" "tx = tx1 @ tx2"
    using assms unfolding dhp_link_send_def Let_def e1 e2 prod.case by auto
  ultimately show ?thesis using emit_frame_wire [OF e1] emit_frame_wire [OF e2] by auto
qed

lemma link_sends_wire:
  assumes "link_sends now (map (\<lambda>d. (DHP_MSG_DATA, fst d, snd d)) ds) l = (l', tx)"
  shows "\<forall>(q, w) \<in> set tx. data_wire l w"
  using assms
proof (induction ds arbitrary: l tx)
  case (Cons d ds)
  obtain l1 tx1 r1 where s: "dhp_link_send l (msg_code DHP_MSG_DATA) (fst d) (Some (snd d)) (of_nat (length (snd d))) now = (l1, tx1, r1)"
    by (cases "dhp_link_send l (msg_code DHP_MSG_DATA) (fst d) (Some (snd d)) (of_nat (length (snd d))) now") auto
  obtain tx2 where t: "link_sends now (map (\<lambda>d. (DHP_MSG_DATA, fst d, snd d)) ds) l1 = (l', tx2)" "tx = tx1 @ tx2"
    using Cons.prems s by (auto split: prod.splits)
  from Cons.IH [OF t(1)] link_send_wire [OF s] t(2) show ?case by (auto simp: data_wire_def)
qed simp

lemma client_passes_data:
  assumes "clientlink_rx_report cl r data now = (cl', r')"
  shows "\<exists>ds l tx. link_sends now (map (\<lambda>d. (DHP_MSG_DATA, fst d, snd d)) ds) (rt_link r) = (l, tx) \<and>
    r' = r\<lparr>rt_link := l, rt_out := rt_out r @ map RTx tx\<rparr>"
proof -
  obtain ds where "r' = sends_data now ds r"
    using client_bytes_send [of now data "(cl, r)"] assms by (auto simp: clientlink_rx_report_def)
  then show ?thesis by (auto simp: sends_data_def split: prod.splits)
qed


section \<open>What the client receives\<close>

text \<open>The frames among the results of a decoder.\<close>

definition delivered :: "(dhp_result_t + dhp_frame_t) list \<Rightarrow> dhp_frame_t list" where
  "delivered rs = concat (map (case_sum (\<lambda>_. []) (\<lambda>f. [f])) rs)"

lemma delivered_simps [simp]:
  "delivered [] = []" "delivered (Inl e # rs) = delivered rs" "delivered (Inr f # rs) = f # delivered rs"
  "delivered (xs @ ys) = delivered xs @ delivered ys" "delivered (replicate n (Inl e)) = []"
  by (induction n) (simp_all add: delivered_def)

text \<open>A decoder that has no half-received frame.\<close>

definition between_frames :: "dhp_framer_t \<Rightarrow> bool" where
  "between_frames fr \<longleftrightarrow> \<not> (fm_in_frame fr \<and> \<not> fm_overflow fr \<and> fm_body fr \<noteq> [])"

lemma push_flag_between:
  assumes "between_frames fr"
  shows "\<exists>fr'. dhp_framer_push fr DHP_FLAG key = (fr', Inl DHP_ERR_AGAIN) \<and> between_frames fr'"
proof -
  obtain fr' res where p: "dhp_framer_push fr DHP_FLAG key = (fr', res)" by fastforce
  have "res = Inl DHP_ERR_AGAIN" using p assms by (auto simp: dhp_framer_push_def between_frames_def Let_def split: if_splits)
  moreover have "between_frames fr'" using push_flag_synced [OF p] by (simp add: between_frames_def)
  ultimately show ?thesis using p by blast
qed

lemma run_flags_between:
  "between_frames fr \<Longrightarrow> between_frames (fst (framer_run key (replicate n DHP_FLAG) fr)) \<and>
     delivered (snd (framer_run key (replicate n DHP_FLAG) fr)) = []"
proof (induction n arbitrary: fr)
  case (Suc n)
  from push_flag_between [OF Suc.prems, of key] obtain fr' where
    "dhp_framer_push fr DHP_FLAG key = (fr', Inl DHP_ERR_AGAIN)" "between_frames fr'" by blast
  with Suc.IH [of fr'] show ?case by (simp add: split_beta)
qed simp

lemma run_wire_between:
  assumes "between_frames fr" "frame_ok f"
  shows "between_frames (fst (framer_run (Some key) (frame_wire (frame_body f key)) fr)) \<and>
    delivered (snd (framer_run (Some key) (frame_wire (frame_body f key)) fr)) = [frame_of_body (frame_body f key)]"
proof -
  let ?body = "frame_body f key"
  from push_flag_between [OF assms(1)] obtain fr1 where
    first: "dhp_framer_push fr DHP_FLAG (Some key) = (fr1, Inl DHP_ERR_AGAIN)" by blast
  have fin: "finish (fr1\<lparr>fm_body := ?body\<rparr>) (Some key) =
      ((fr1\<lparr>fm_body := ?body\<rparr>)\<lparr>fm_n_ok := fm_n_ok fr1 + 1\<rparr>, Inr (frame_of_body ?body))"
    by (subst finish_accept) (use assms(2) frame_body_crc frame_body_shape frame_body_mac_valid in auto)
  have "?body \<noteq> []" using length_frame_body [OF assms(2), of key] by auto
  from framer_run_wire [OF length_frame_body_le [OF assms(2)] this first fin] show ?thesis
    by (simp add: between_frames_def)
qed

lemma run_stream_between:
  assumes "between_frames fr" "\<forall>f \<in> set fs. frame_ok f"
  shows "between_frames (fst (framer_run (Some key) (concat (map (\<lambda>f. frame_wire (frame_body f key)) fs)) fr)) \<and>
    delivered (snd (framer_run (Some key) (concat (map (\<lambda>f. frame_wire (frame_body f key)) fs)) fr)) =
      map (\<lambda>f. frame_of_body (frame_body f key)) fs"
  using assms
proof (induction fs arbitrary: fr)
  case (Cons f fs)
  let ?w = "frame_wire (frame_body f key)"
  have w: "between_frames (fst (framer_run (Some key) ?w fr))"
    "delivered (snd (framer_run (Some key) ?w fr)) = [frame_of_body (frame_body f key)]"
    using run_wire_between [of fr f key] Cons.prems by simp_all
  from Cons.IH [OF w(1)] Cons.prems(2) w(2) show ?case by (simp add: framer_run_append split_beta)
qed simp

text \<open>A burst of frames for the client, and the polls that drain it.\<close>

definition deliver_all :: "dhp_frame_t list \<Rightarrow> clientlink_t \<Rightarrow> clientlink_t" where
  "deliver_all fs cl = fold (\<lambda>f cl. fst (clientlink_deliver cl f)) fs cl"

primrec run_tasks :: "dhp_router_t \<Rightarrow> dhp_time_t \<Rightarrow> nat \<Rightarrow> clientlink_t \<Rightarrow> clientlink_t \<times> u8 list list" where
  "run_tasks r now 0 cl = (cl, [])"
| "run_tasks r now (Suc n) cl =
     (let (cl1, rep) = clientlink_task cl r True now;
          (cl2, reps) = run_tasks r now n cl1
      in (cl2, (case rep of None \<Rightarrow> [] | Some b \<Rightarrow> [b]) @ reps))"

abbreviation local_image :: "dhp_frame_t \<Rightarrow> dhp_frame_t" where
  "local_image f \<equiv> local_frame (fr_type f) (fr_src f) (fr_dst f) (fr_seq f) (fr_payload f) (fr_len f)"

definition client_quiet :: "clientlink_t \<Rightarrow> dhp_time_t \<Rightarrow> bool" where
  "client_quiet cl now \<longleftrightarrow>
     cl_attached cl \<and> \<not> dhp_time_after now (cl_last_rx cl + CLIENTLINK_TIMEOUT_MS) \<and> \<not> dhp_time_after now (cl_next_status cl)"

lemma local_image_ok: "frame_ok f \<Longrightarrow> frame_ok (local_image f)"
  by (simp add: frame_ok_def local_frame_def split: option.splits)

lemma local_image_same: "same_message (local_image f) g \<longleftrightarrow> same_message f g"
  by (simp add: same_message_def local_frame_def frame_bytes_def split: option.split)

lemma deliver_queues:
  assumes "client_inv cl" "cl_attached cl" "frame_ok f"
  shows "client_inv (fst (clientlink_deliver cl f))" "cl_attached (fst (clientlink_deliver cl f))"
    "client_quiet (fst (clientlink_deliver cl f)) now \<longleftrightarrow> client_quiet cl now"
    "tx_bytes (fst (clientlink_deliver cl f)) = take 2047 (tx_bytes cl @ frame_wire (frame_body (local_image f) LOCAL_KEY))"
proof -
  let ?c = "send_local (fr_type f) (fr_src f) (fr_dst f) (fr_seq f) (fr_payload f) (fr_len f) cl"
  have d: "fst (clientlink_deliver cl f) = ?c\<lparr>cl_n_to_client := cl_n_to_client ?c + 1\<rparr>"
    using assms(2) by (simp add: clientlink_deliver_def Let_def)
  show "client_inv (fst (clientlink_deliver cl f))"
    unfolding d by (rule client_inv_cong [OF client_inv_send_local [OF assms(1)]]) simp_all
  show "cl_attached (fst (clientlink_deliver cl f))" unfolding d using assms(2) by simp
  show "client_quiet (fst (clientlink_deliver cl f)) now \<longleftrightarrow> client_quiet cl now" unfolding d by (simp add: client_quiet_def)
  have "tx_inv cl" "cl_key cl = LOCAL_KEY" using assms(1) by (simp_all add: client_inv_def)
  with send_local_spec(2) [OF _ local_image_ok [OF assms(3)]]
  show "tx_bytes (fst (clientlink_deliver cl f)) = take 2047 (tx_bytes cl @ frame_wire (frame_body (local_image f) LOCAL_KEY))"
    unfolding d by (simp add: tx_bytes_def)
qed

abbreviation client_wires :: "dhp_frame_t list \<Rightarrow> u8 list" where
  "client_wires fs \<equiv> concat (map (\<lambda>f. frame_wire (frame_body (local_image f) LOCAL_KEY)) fs)"

lemma deliver_all_queues:
  assumes "client_inv cl" "client_quiet cl now" "\<forall>f \<in> set fs. frame_ok f" "length (tx_bytes cl @ client_wires fs) \<le> 2047"
  shows "client_inv (deliver_all fs cl) \<and> client_quiet (deliver_all fs cl) now \<and> tx_bytes (deliver_all fs cl) = tx_bytes cl @ client_wires fs"
  using assms
proof (induction fs arbitrary: cl)
  case (Cons f fs)
  have a: "cl_attached cl" "frame_ok f" using Cons.prems by (simp_all add: client_quiet_def)
  note d = deliver_queues [OF Cons.prems(1) a]
  have t: "tx_bytes (fst (clientlink_deliver cl f)) = tx_bytes cl @ frame_wire (frame_body (local_image f) LOCAL_KEY)"
    using d(4) Cons.prems(4) by simp
  have "client_quiet (fst (clientlink_deliver cl f)) now" using d(3) Cons.prems(2) by blast
  moreover have "length (tx_bytes (fst (clientlink_deliver cl f)) @ client_wires fs) \<le> 2047" using Cons.prems(4) unfolding t by simp
  moreover have "deliver_all (f # fs) cl = deliver_all fs (fst (clientlink_deliver cl f))" by (simp add: deliver_all_def)
  ultimately show ?case using Cons.IH [OF d(1)] Cons.prems(3) unfolding t by simp
qed (simp add: deliver_all_def)

lemma run_tasks_drain:
  assumes "client_inv cl" "client_quiet cl now" "run_tasks r now n cl = (cl', reps)"
  shows "\<exists>k. concat reps = take (64 * n) (tx_bytes cl) @ replicate k DHP_FLAG \<and> (length (tx_bytes cl) \<le> 64 * n \<or> k = 0) \<and>
    (\<forall>rep \<in> set reps. length rep = CLIENTLINK_REPORT_BYTES)"
  using assms
proof (induction n arbitrary: cl reps)
  case (Suc n)
  obtain bs c2 where f: "fill_report 64 cl = (bs, c2)" by fastforce
  have tx: "tx_inv cl" using Suc.prems(1) by (simp add: client_inv_def)
  note b = fill_report_spec [OF tx f]
  obtain t where t: "c2 = cl\<lparr>cl_tx_tail := t\<rparr>" using fill_report_frame [OF f] by blast
  have c2: "client_inv c2" "client_quiet c2 now" using Suc.prems(1,2) b t by (simp_all add: client_inv_def client_quiet_def)
  show ?case
  proof (cases "tx_bytes cl = []")
    case True
    then have "clientlink_task cl r True now = (cl, None)"
      using Suc.prems(2) by (simp add: clientlink_task_def client_quiet_def tx_pending_length)
    with Suc.prems(3) obtain reps' where "run_tasks r now n cl = (cl', reps')" "reps = reps'" by (auto split: prod.splits)
    with Suc.IH [OF Suc.prems(1,2)] True show ?thesis by simp
  next
    case False
    then have "clientlink_task cl r True now = (c2, Some (pad_report bs))"
      using Suc.prems(2) f by (simp add: clientlink_task_def client_quiet_def tx_pending_length dhp_consts)
    with Suc.prems(3) obtain reps' where r: "run_tasks r now n c2 = (cl', reps')" "reps = pad_report bs # reps'" by (auto split: prod.splits)
    from Suc.IH [OF c2 r(1)] obtain k where
      k: "concat reps' = take (64 * n) (tx_bytes c2) @ replicate k DHP_FLAG" "length (tx_bytes c2) \<le> 64 * n \<or> k = 0"
        "\<forall>rep \<in> set reps'. length rep = CLIENTLINK_REPORT_BYTES" by blast
    have p: "length (pad_report bs) = CLIENTLINK_REPORT_BYTES" using b by (simp add: pad_report_def dhp_consts)
    have "\<exists>k. concat reps = take (64 * Suc n) (tx_bytes cl) @ replicate k DHP_FLAG \<and> (length (tx_bytes cl) \<le> 64 * Suc n \<or> k = 0)"
    proof (cases "length (tx_bytes cl) < 64")
      case True
      then have "concat reps = tx_bytes cl @ replicate (64 - length (tx_bytes cl)) DHP_FLAG @ replicate k DHP_FLAG"
        using b k(1) by (simp add: r(2) pad_report_def CLIENTLINK_REPORT_BYTES_def)
      then have "concat reps = tx_bytes cl @ replicate ((64 - length (tx_bytes cl)) + k) DHP_FLAG" by (simp only: replicate_add)
      with True show ?thesis by (intro exI [of _ "(64 - length (tx_bytes cl)) + k"]) simp
    next
      case long: False
      then have "concat reps = take (64 * Suc n) (tx_bytes cl) @ replicate k DHP_FLAG"
        using b k(1) by (simp add: r(2) pad_report_def CLIENTLINK_REPORT_BYTES_def take_add)
      moreover have "length (tx_bytes cl) \<le> 64 * Suc n \<or> k = 0" using k(2) b by auto
      ultimately show ?thesis by blast
    qed
    with p k(3) r(2) show ?thesis by auto
  qed
qed (intro exI [of _ 0], simp)

text \<open>
  C31. The client receives exactly what was sent to it. A burst of frames that fits the queue,
  drained by enough polls while the client is alive and no status is due, arrives as full 64-byte
  reports whose bytes a decoder under the local key turns back into exactly those frames, once
  each and in order, with their original source addresses; the padding is never mistaken for
  content.
\<close>

theorem client_stream_exact:
  assumes "client_step\<^sup>*\<^sup>* clientlink_init cl" "client_quiet cl now" "tx_bytes cl = []"
    and "\<forall>f \<in> set fs. frame_ok f" "length (client_wires fs) \<le> 2047" "length (client_wires fs) \<le> 64 * n"
    and "run_tasks r now n (deliver_all fs cl) = (cl', reps)" "between_frames fr"
  shows "(\<forall>rep \<in> set reps. length rep = CLIENTLINK_REPORT_BYTES) \<and>
    list_all2 same_message fs (delivered (snd (framer_run (Some LOCAL_KEY) (concat reps) fr)))"
proof -
  have i: "client_inv cl" using client.inv_reachable [OF refl assms(1)] .
  have q: "client_inv (deliver_all fs cl)" "client_quiet (deliver_all fs cl) now" "tx_bytes (deliver_all fs cl) = client_wires fs"
    using deliver_all_queues [OF i assms(2,4)] assms(3,5) by simp_all
  obtain k where k: "concat reps = client_wires fs @ replicate k DHP_FLAG" "\<forall>rep \<in> set reps. length rep = CLIENTLINK_REPORT_BYTES"
    using run_tasks_drain [OF q(1,2) assms(7)] assms(6) by (auto simp: q(3))
  have ok: "\<forall>f \<in> set (map local_image fs). frame_ok f" using assms(4) local_image_ok by auto
  have w: "client_wires fs = concat (map (\<lambda>f. frame_wire (frame_body f LOCAL_KEY)) (map local_image fs))" by (simp add: comp_def)
  note s = run_stream_between [OF assms(8) ok, of LOCAL_KEY, folded w]
  have "delivered (snd (framer_run (Some LOCAL_KEY) (concat reps) fr)) = map (\<lambda>f. frame_of_body (frame_body (local_image f) LOCAL_KEY)) fs"
    using s run_flags_between [OF conjunct1 [OF s], of "Some LOCAL_KEY" k] by (simp add: k(1) framer_run_append split_beta comp_def)
  moreover have "same_message f (frame_of_body (frame_body (local_image f) LOCAL_KEY))" if "f \<in> set fs" for f
    using frame_of_body_frame_body(1) [OF local_image_ok, of f LOCAL_KEY] that assms(4) by (simp add: local_image_same)
  ultimately show ?thesis using k(2) by (simp add: list_all2_conv_all_nth)
qed

section \<open>A client at work\<close>

definition demo_attach :: "u8 list" where
  "demo_attach =
     frame_wire (frame_body (local_frame (msg_code DHP_MSG_CAP) 0 0 1 (Some (dhp_local_attach_pack \<lparr>la_caps = 0x1FF\<rparr>)) 3) LOCAL_KEY)"

definition demo_client :: clientlink_t where
  "demo_client = fst (clientlink_rx_report clientlink_init demo_router demo_attach 100)"

text \<open>After the first poll, which tells the client who it is talking to.\<close>

definition demo_client_idle :: clientlink_t where
  "demo_client_idle = fst (clientlink_task demo_client demo_router True 101)"

definition demo_data :: dhp_frame_t where
  "demo_data = local_frame (msg_code DHP_MSG_DATA) 5 1 9 (Some [0x7E, 1, 2]) 3"

lemma demo_client_steps: "client_step\<^sup>*\<^sup>* clientlink_init demo_client" "client_step\<^sup>*\<^sup>* clientlink_init demo_client_idle"
proof -
  have "client_step clientlink_init demo_client"
    unfolding demo_client_def by (rule client_report [OF surjective_pairing])
  moreover have "client_step demo_client demo_client_idle"
    unfolding demo_client_idle_def by (rule client_task [OF surjective_pairing])
  ultimately show "client_step\<^sup>*\<^sup>* clientlink_init demo_client" "client_step\<^sup>*\<^sup>* clientlink_init demo_client_idle" by auto
qed

text \<open>A whole frame from the client is handled once, on its closing flag.\<close>

lemma client_bytes_quiet:
  assumes "framer_run (Some (cl_key cl)) bs (cl_framer cl) = (fr, rs)" "delivered rs = []"
  shows "fold (client_byte now) bs (cl, r) = (cl\<lparr>cl_framer := fr\<rparr>, r)"
  using assms
proof (induction bs arbitrary: cl rs)
  case (Cons b bs)
  obtain fr1 e where p: "dhp_framer_push (cl_framer cl) b (Some (cl_key cl)) = (fr1, e)" by fastforce
  let ?c = "cl\<lparr>cl_framer := fr1\<rparr>"
  obtain rs1 where run: "framer_run (Some (cl_key ?c)) bs (cl_framer ?c) = (fr, rs1)" "rs = e # rs1"
    using Cons.prems(1) p by (auto split: prod.splits)
  then obtain x where x: "e = Inl x" "delivered rs1 = []" using Cons.prems(2) by (cases e) auto
  from Cons.IH [OF run(1) x(2)] show ?case by (simp add: client_byte_def p x(1))
qed simp

lemma client_rx_wire:
  assumes "between_frames (cl_framer cl)" "frame_ok f"
  shows "\<exists>fr. clientlink_rx_report cl r (frame_wire (frame_body f (cl_key cl))) now =
    handle_from_client (cl\<lparr>cl_framer := fr\<rparr>, r) (frame_of_body (frame_body f (cl_key cl))) now"
proof -
  let ?body = "frame_body f (cl_key cl)"
  let ?k = "Some (cl_key cl)"
  obtain fr1 where first: "dhp_framer_push (cl_framer cl) DHP_FLAG ?k = (fr1, Inl DHP_ERR_AGAIN)"
    using push_flag_between [OF assms(1)] by blast
  have y: "synced fr1" "fm_body fr1 = []" using push_flag_synced [OF first] by simp_all
  have run: "framer_run ?k (stuff ?body) fr1 = (fr1\<lparr>fm_body := ?body\<rparr>, replicate (length (stuff ?body)) (Inl DHP_ERR_AGAIN))"
    using framer_run_stuff [OF y(1), of ?body ?k] length_frame_body_le [OF assms(2)] y(2) by simp
  have fin: "finish (fr1\<lparr>fm_body := ?body\<rparr>) ?k = ((fr1\<lparr>fm_body := ?body\<rparr>)\<lparr>fm_n_ok := fm_n_ok fr1 + 1\<rparr>, Inr (frame_of_body ?body))"
    by (subst finish_accept) (use assms(2) frame_body_crc frame_body_shape frame_body_mac_valid in auto)
  have "?body \<noteq> []" using length_frame_body [OF assms(2), of "cl_key cl"] by auto
  then obtain fr2 where last: "dhp_framer_push (fr1\<lparr>fm_body := ?body\<rparr>) DHP_FLAG ?k = (fr2, Inr (frame_of_body ?body))"
    using y fin by (auto simp: dhp_framer_push_def synced_def)
  have "clientlink_rx_report cl r (frame_wire ?body) now =
      client_byte now DHP_FLAG (fold (client_byte now) (DHP_FLAG # stuff ?body) (cl, r))"
    by (simp add: clientlink_rx_report_def frame_wire_def)
  also have "fold (client_byte now) (DHP_FLAG # stuff ?body) (cl, r) = (cl\<lparr>cl_framer := fr1\<lparr>fm_body := ?body\<rparr>\<rparr>, r)"
    by (rule client_bytes_quiet [where rs = "Inl DHP_ERR_AGAIN # replicate (length (stuff ?body)) (Inl DHP_ERR_AGAIN)"])
      (simp_all add: first run)
  also have "client_byte now DHP_FLAG \<dots> = handle_from_client (cl\<lparr>cl_framer := fr2\<rparr>, r) (frame_of_body ?body) now"
    by (simp add: client_byte_def last)
  finally show ?thesis by blast
qed

lemma demo_client_eval:
  "\<exists>fr. demo_client = clientlink_init\<lparr>cl_framer := fr, cl_last_rx := 100, cl_client_caps := CLIENT_CAPS_MASK, cl_attached := True\<rparr>"
proof -
  let ?f = "local_frame (msg_code DHP_MSG_CAP) 0 0 1 (Some (dhp_local_attach_pack \<lparr>la_caps = 0x1FF\<rparr>)) 3"
  let ?g = "frame_of_body (frame_body ?f LOCAL_KEY)"
  have ok: "frame_ok ?f" by (simp add: frame_ok_def local_frame_def dhp_local_attach_pack_def dhp_consts)
  note g = frame_of_body_frame_body(1) [OF ok, of LOCAL_KEY, unfolded same_message_def]
  have "frame_bytes ?g = dhp_local_attach_pack \<lparr>la_caps = 0x1FF\<rparr>"
    using g by (simp add: frame_bytes_def local_frame_def dhp_local_attach_pack_def)
  then have "dhp_local_attach_unpack (frame_bytes ?g) = Some \<lparr>la_caps = 0x1FF\<rparr>" using attach.unpack_pack [of "\<lparr>la_caps = 0x1FF\<rparr>" "[]"] by simp
  moreover have "fr_type ?g = msg_code DHP_MSG_CAP" using g by (simp add: local_frame_def)
  moreover have "between_frames (cl_framer clientlink_init)" by (simp add: clientlink_init_def between_frames_def dhp_framer_init_def)
  ultimately show ?thesis
    using client_rx_wire [OF _ ok, of clientlink_init demo_router 100]
    by (auto simp: demo_client_def demo_attach_def clientlink_init_def handle_from_client_def Let_def dhp_consts)
qed

lemma status_frame_ok: "frame_ok (local_frame (msg_code DHP_MSG_CAP) s d q (Some (dhp_local_status_pack st)) (of_nat DHP_LOCAL_STATUS_BYTES))"
  by (simp add: frame_ok_def local_frame_def dhp_local_status_pack_def dhp_consts)

lemma tx_queue_other [simp]:
  "tx_inv (cl\<lparr>cl_tx_seq := x\<rparr>) = tx_inv cl" "tx_bytes (cl\<lparr>cl_tx_seq := x\<rparr>) = tx_bytes cl"
  "tx_inv (cl\<lparr>cl_next_status := t\<rparr>) = tx_inv cl" "tx_bytes (cl\<lparr>cl_next_status := t\<rparr>) = tx_bytes cl"
  by (simp_all add: tx_inv_def tx_bytes_def)

lemma send_status_spec:
  assumes "tx_inv cl" "tx_bytes cl = []"
  shows "tx_inv (send_status cl r now)" "tx_bytes (send_status cl r now) \<noteq> []" "length (tx_bytes (send_status cl r now)) \<le> 64"
proof -
  define st where "st = \<lparr>ls_self = rc_self (rt_cfg r), ls_focus = dhp_router_focus r, ls_level = of_nat (level_code (dhp_router_level r)),
    ls_boards = dhp_router_chain_size r\<rparr>"
  define f where "f = local_frame (msg_code DHP_MSG_CAP) (rc_self (rt_cfg r)) 0x00FF (cl_tx_seq cl) (Some (dhp_local_status_pack st))
    (of_nat DHP_LOCAL_STATUS_BYTES)"
  have ok: "frame_ok f" unfolding f_def by (rule status_frame_ok)
  have inv: "tx_inv (cl\<lparr>cl_tx_seq := cl_tx_seq cl + 1\<rparr>)" using assms(1) by simp
  note sp = send_local_spec [OF inv ok [unfolded f_def], folded f_def]
  show "tx_inv (send_status cl r now)" using sp(1) by (simp add: send_status_def st_def [symmetric] Let_def)
  have t: "tx_bytes (send_status cl r now) = take 2047 (frame_wire (frame_body f (cl_key cl)))"
    using sp(2) assms(2) by (simp add: send_status_def st_def [symmetric] Let_def)
  show "tx_bytes (send_status cl r now) \<noteq> []" unfolding t by (simp add: frame_wire_def)
  have "unat (fr_len f) = 7" by (simp add: f_def local_frame_def dhp_consts)
  then show "length (tx_bytes (send_status cl r now)) \<le> 64"
    using length_stuff_le [of "frame_body f (cl_key cl)"] length_frame_body [OF ok, of "cl_key cl"] unfolding t by (simp add: frame_wire_def)
qed

lemma send_status_keeps [simp]:
  "cl_attached (send_status cl r now) = cl_attached cl" "cl_last_rx (send_status cl r now) = cl_last_rx cl"
  "cl_next_status (send_status cl r now) = now + 1000"
  by (simp_all add: send_status_def Let_def)

lemma demo_client_idle_eval: "client_quiet demo_client_idle 102 \<and> tx_bytes demo_client_idle = []"
proof -
  let ?c = "send_status demo_client demo_router 101"
  obtain fr where c: "demo_client = clientlink_init\<lparr>cl_framer := fr, cl_last_rx := 100, cl_client_caps := CLIENT_CAPS_MASK, cl_attached := True\<rparr>"
    using demo_client_eval by blast
  have d: "tx_inv demo_client" "tx_bytes demo_client = []" "cl_attached demo_client" "cl_last_rx demo_client = 100" "cl_next_status demo_client = 0"
    by (simp_all add: c tx_inv_def tx_bytes_def clientlink_init_def ring_contents_def ring_used_def dhp_consts)
  note s = send_status_spec [OF d(1,2), of demo_router 101]
  obtain bs c2 where f: "fill_report 64 ?c = (bs, c2)" by fastforce
  have "tx_bytes c2 = []" using fill_report_spec [OF s(1) f] s(3) by simp
  moreover obtain t where "c2 = ?c\<lparr>cl_tx_tail := t\<rparr>" using fill_report_frame [OF f] by blast
  then have "client_quiet c2 102" using d by (simp add: client_quiet_def dhp_time_after_iff dhp_consts)
  moreover have "demo_client_idle = c2"
    using f d s(2) by (simp add: demo_client_idle_def clientlink_task_def dhp_time_after_iff tx_pending_length dhp_consts)
  ultimately show ?thesis by blast
qed



theorem client_stream_exact_witness:
  "list_all2 same_message [demo_data]
     (delivered (snd (framer_run (Some LOCAL_KEY) (concat (snd (run_tasks demo_router 102 1 (deliver_all [demo_data] demo_client_idle)))) dhp_framer_init)))"
proof -
  have ok: "\<forall>f \<in> set [demo_data]. frame_ok f" by (simp add: demo_data_def local_frame_def frame_ok_def dhp_consts)
  have "length (frame_body (local_image demo_data) LOCAL_KEY) = 18"
    using length_frame_body [OF local_image_ok [of demo_data]] ok by (simp add: demo_data_def local_frame_def)
  then have len: "length (client_wires [demo_data]) \<le> 64"
    using length_stuff_le [of "frame_body (local_image demo_data) LOCAL_KEY"] by (simp add: frame_wire_def)
  have t: "tx_bytes demo_client_idle = []" using demo_client_idle_eval by blast
  have q: "client_quiet demo_client_idle 102" using demo_client_idle_eval by blast
  have "between_frames dhp_framer_init" by (simp add: between_frames_def dhp_framer_init_def)
  note stream = client_stream_exact [OF demo_client_steps(2) q t ok _ _ surjective_pairing this, of 1 demo_router]
  show ?thesis by (rule conjunct2 [OF stream]) (use len in linarith)+
qed

end
