(* ===== verification/Dhp_Firmware.thy ===== *)
theory Dhp_Firmware
  imports Dhp_Board Dhp_Clientlink Dhp_Auth
begin

text \<open>
  The board as a whole, \<open>firmware/rp2040/src/main.c\<close> and \<open>hid_bridge.c\<close> in the normal build: the
  globals of both files are one record, one pass of the main loop maps it to the next, and the
  hooks of the router are functions on it.

  What the hardware and the USB stack contribute to a pass is its input \<open>fw_env\<close>: the clock, the
  reports taken from the two queues of core 1, the button levels, whether each endpoint is free
  at the n-th report of the pass, and the reports of the client. The clock is read once per
  pass. The flash functions and the cryptographic backend are parameters. A pass is \<open>None\<close> where
  the pointer integrator would overflow.

  The router collects what it sends and calls in \<open>rt_out\<close>; after each call of the router the
  entries are carried out in order. No hook reads a router field that changes between the hook
  call and the end of the router operation, so this is the order of effects of the program.
\<close>

section \<open>USB reports\<close>

datatype hid_protocol = HID_PROTOCOL_KEYBOARD | HID_PROTOCOL_MOUSE | HID_PROTOCOL_OTHER

datatype usb_report =
    UsbKbd u8 "u8 list"
  | UsbMouse u8 u8 u8 u8 u8
  | UsbVendor "u8 list"

text \<open>What a report of an attached device adds to the queues of core 0.\<close>

definition tuh_hid_report_received_cb :: "hid_protocol \<Rightarrow> u8 list \<Rightarrow> (dhp_kbd_report_t + dhp_mouse_report_t) option" where
  "tuh_hid_report_received_cb proto report =
     (if proto = HID_PROTOCOL_KEYBOARD \<and> 8 \<le> length report then
        Some (Inl \<lparr>kb_modifiers = report ! 0, kb_keys = take 6 (drop 2 report)\<rparr>)
      else if proto = HID_PROTOCOL_MOUSE \<and> 3 \<le> length report then
        Some (Inr \<lparr>mo_dx = scast (report ! 1), mo_dy = scast (report ! 2),
          mo_wheel = (if 4 \<le> length report then report ! 3 else 0), mo_pan = 0, mo_buttons = report ! 0\<rparr>)
      else None)"

definition hid_bridge_send_kbd :: "bool \<Rightarrow> dhp_kbd_report_t \<Rightarrow> usb_report list" where
  "hid_bridge_send_kbd ready r = (if \<not> ready then [] else [UsbKbd (kb_modifiers r) (kb_keys r)])"

definition clamp_delta :: "u16 \<Rightarrow> u8" where
  "clamp_delta d = word_of_int (if 127 < sint d then 127 else if sint d < -127 then -127 else sint d)"

definition hid_bridge_send_mouse :: "bool \<Rightarrow> dhp_mouse_report_t \<Rightarrow> usb_report list" where
  "hid_bridge_send_mouse ready r =
     (if \<not> ready then []
      else [UsbMouse (mo_buttons r) (clamp_delta (mo_dx r)) (clamp_delta (mo_dy r)) (mo_wheel r) (mo_pan r)])"

section \<open>State\<close>

record 'f flash_driver =
  fd_erase :: "'f \<Rightarrow> 'f"
  fd_program :: "u8 list \<Rightarrow> 'f \<Rightarrow> 'f"
  fd_page_size :: nat
  fd_xip :: "'f \<Rightarrow> u8 list"

record ('c, 'f) firmware =
  fw_router :: dhp_router_t
  fw_pair :: "'c dhp_pair_t"
  fw_client :: clientlink_t
  fw_paired :: bool
  fw_self :: dhp_addr_t
  fw_uid :: dhp_uid_t
  fw_error_until :: dhp_time_t
  fw_error_active :: bool
  fw_last_caps :: u16
  fw_ports :: "uart_port list"
  fw_switch :: switch_button
  fw_pair_btn :: pair_button
  fw_led :: board_led_t
  fw_flash :: 'f
  fw_have_kbd :: bool
  fw_have_mouse :: bool
  fw_usb :: "usb_report list"
  fw_n_kbd :: nat
  fw_n_mouse :: nat

record fw_env =
  en_now :: dhp_time_t
  en_kbd :: "dhp_kbd_report_t list"
  en_mouse :: "dhp_mouse_report_t list"
  en_switch :: bool
  en_pair :: bool
  en_kbd_ready :: "nat \<Rightarrow> bool"
  en_mouse_ready :: "nat \<Rightarrow> bool"
  en_vendor_ready :: bool
  en_vendor_out :: "u8 list list"
  en_led_full :: bool

definition hid_bridge_has_input_device :: "('c, 'f) firmware \<Rightarrow> bool" where
  "hid_bridge_has_input_device fw \<longleftrightarrow> fw_have_kbd fw \<or> fw_have_mouse fw"

definition tuh_hid_mount_cb :: "hid_protocol \<Rightarrow> ('c, 'f) firmware \<Rightarrow> ('c, 'f) firmware" where
  "tuh_hid_mount_cb proto fw =
     (case proto of
        HID_PROTOCOL_KEYBOARD \<Rightarrow> fw\<lparr>fw_have_kbd := True\<rparr>
      | HID_PROTOCOL_MOUSE \<Rightarrow> fw\<lparr>fw_have_mouse := True\<rparr>
      | HID_PROTOCOL_OTHER \<Rightarrow> fw)"

definition tuh_hid_umount_cb :: "hid_protocol \<Rightarrow> ('c, 'f) firmware \<Rightarrow> ('c, 'f) firmware" where
  "tuh_hid_umount_cb proto fw =
     (case proto of
        HID_PROTOCOL_KEYBOARD \<Rightarrow> fw\<lparr>fw_have_kbd := False\<rparr>
      | HID_PROTOCOL_MOUSE \<Rightarrow> fw\<lparr>fw_have_mouse := False\<rparr>
      | HID_PROTOCOL_OTHER \<Rightarrow> fw)"

section \<open>Hooks\<close>

definition upd_port_fw :: "dhp_port_t \<Rightarrow> (uart_port \<Rightarrow> uart_port) \<Rightarrow> ('c, 'f) firmware \<Rightarrow> ('c, 'f) firmware" where
  "upd_port_fw p g fw = fw\<lparr>fw_ports := (fw_ports fw)[port_index p := g (fw_ports fw ! port_index p)]\<rparr>"

definition on_tx :: "link_tx \<Rightarrow> ('c, 'f) firmware \<Rightarrow> ('c, 'f) firmware" where
  "on_tx tx fw = upd_port_fw (fst tx) (board_uart_write (snd tx)) fw"

definition on_kbd :: "fw_env \<Rightarrow> dhp_kbd_report_t \<Rightarrow> ('c, 'f) firmware \<Rightarrow> ('c, 'f) firmware" where
  "on_kbd env r fw =
     fw\<lparr>fw_usb := fw_usb fw @ hid_bridge_send_kbd (en_kbd_ready env (fw_n_kbd fw)) r, fw_n_kbd := fw_n_kbd fw + 1\<rparr>"

definition on_mouse :: "fw_env \<Rightarrow> dhp_mouse_report_t \<Rightarrow> ('c, 'f) firmware \<Rightarrow> ('c, 'f) firmware" where
  "on_mouse env r fw =
     fw\<lparr>fw_usb := fw_usb fw @ hid_bridge_send_mouse (en_mouse_ready env (fw_n_mouse fw)) r, fw_n_mouse := fw_n_mouse fw + 1\<rparr>"

definition set_led :: "led_state_t \<Rightarrow> ('c, 'f) firmware \<Rightarrow> ('c, 'f) firmware" where
  "set_led s fw = fw\<lparr>fw_led := board_led (fw_led fw) s\<rparr>"

definition refresh_led :: "dhp_time_t \<Rightarrow> ('c, 'f) firmware \<Rightarrow> ('c, 'f) firmware" where
  "refresh_led now fw =
     (if fw_error_active fw \<and> \<not> dhp_time_after now (fw_error_until fw) then set_led LED_ERROR fw
      else
        let fw = fw\<lparr>fw_error_active := False\<rparr>;
            focused = dhp_router_focus (fw_router fw) = fw_self fw;
            active = dhp_router_is_active (fw_router fw)
        in if pr_state (fw_pair fw) = DHP_PAIR_WAITING \<or> pr_state (fw_pair fw) = DHP_PAIR_CONFIRM_WAIT then set_led LED_PAIRING fw
           else if \<not> fw_paired fw then set_led LED_UNPAIRED fw
           else if active \<and> focused then set_led LED_ACTIVE_FOCUSED fw
           else if active then set_led LED_ACTIVE fw
           else if focused then set_led LED_FOCUSED fw
           else if u_state (rt_uhrp (fw_router fw)) = DHP_UHRP_STANDBY then set_led LED_STANDBY fw
           else set_led LED_OFF fw)"

definition on_focus :: "fw_env \<Rightarrow> ('c, 'f) firmware \<Rightarrow> ('c, 'f) firmware" where
  "on_focus env fw = refresh_led (en_now env) fw"

definition on_data :: "dhp_frame_t \<Rightarrow> ('c, 'f) firmware \<Rightarrow> ('c, 'f) firmware" where
  "on_data f fw = fw\<lparr>fw_client := fst (clientlink_deliver (fw_client fw) f)\<rparr>"

primrec router_hook :: "fw_env \<Rightarrow> router_event \<Rightarrow> ('c, 'f) firmware \<Rightarrow> ('c, 'f) firmware" where
  "router_hook env (RTx tx) fw = on_tx tx fw"
| "router_hook env (RDeliverKbd r) fw = on_kbd env r fw"
| "router_hook env (RDeliverMouse r) fw = on_mouse env r fw"
| "router_hook env (RFocusChanged f is_self) fw = on_focus env fw"
| "router_hook env (RLevelChanged l) fw = fw"
| "router_hook env (RDeliverData f) fw = on_data f fw"

text \<open>A call of the router: its new state, then the effects it collected.\<close>

definition put_router :: "fw_env \<Rightarrow> dhp_router_t \<Rightarrow> ('c, 'f) firmware \<Rightarrow> ('c, 'f) firmware" where
  "put_router env r fw = fold (router_hook env) (rt_out r) (fw\<lparr>fw_router := r\<lparr>rt_out := []\<rparr>\<rparr>)"

definition call_router ::
  "fw_env \<Rightarrow> (dhp_router_t \<Rightarrow> dhp_router_t option) \<Rightarrow> ('c, 'f) firmware \<Rightarrow> ('c, 'f) firmware option" where
  "call_router env g fw = map_option (\<lambda>r. put_router env r fw) (g (fw_router fw))"

section \<open>The steps of a pass\<close>

definition current_caps :: "('c, 'f) firmware \<Rightarrow> u16" where
  "current_caps fw =
     (DHP_CAP_HID_OUT OR (if hid_bridge_has_input_device fw then DHP_CAP_HID_IN else 0)) OR clientlink_caps (fw_client fw)"

definition send_pair :: "fw_env \<Rightarrow> u8 list \<Rightarrow> ('c, 'f) firmware \<Rightarrow> ('c, 'f) firmware" where
  "send_pair env buf fw =
     (if buf = [] then fw
      else put_router env (router_send DHP_MSG_PAIR DHP_ADDR_BROADCAST (Some buf) (en_now env) (fw_router fw)) fw)"

definition set_link_key :: "u8 list \<Rightarrow> ('c, 'f) firmware \<Rightarrow> ('c, 'f) firmware" where
  "set_link_key key fw = fw\<lparr>fw_router := (fw_router fw)\<lparr>rt_link := dhp_link_set_key (rt_link (fw_router fw)) key\<rparr>\<rparr>"

definition pairing_drain :: "'f flash_driver \<Rightarrow> fw_env \<Rightarrow> ('c, 'f) firmware \<Rightarrow> ('c, 'f) firmware" where
  "pairing_drain dev env fw0 =
     (let (p, ev) = dhp_pair_take_events (fw_pair fw0);
          fw1 = fw0\<lparr>fw_pair := p\<rparr>;
          fw2 = (if pe_send_offer ev then send_pair env (dhp_pair_build_offer p 64) fw1 else fw1);
          fw3 = (if pe_send_confirm ev then send_pair env (dhp_pair_build_confirm p 64) fw2 else fw2);
          fw4 = (if pe_send_abort ev
                 then (send_pair env (dhp_pair_build_abort p 64) fw3)\<lparr>fw_error_until := en_now env + 4000, fw_error_active := True\<rparr>
                 else fw3)
      in if pe_completed ev then
           (case dhp_pair_chain_key p of
              None \<Rightarrow> fw4
            | Some key \<Rightarrow>
                (set_link_key key fw4)
                  \<lparr>fw_flash := board_key_save (fd_erase dev) (fd_program dev) (fd_page_size dev) (fw_flash fw4) key,
                   fw_paired := True, fw_error_active := False\<rparr>)
         else fw4)"

definition hid_bridge_on_vendor_out :: "fw_env \<Rightarrow> u8 list \<Rightarrow> ('c, 'f) firmware \<Rightarrow> ('c, 'f) firmware" where
  "hid_bridge_on_vendor_out env data fw =
     (let (cl, r) = clientlink_rx_report (fw_client fw) (fw_router fw) data (en_now env)
      in put_router env r (fw\<lparr>fw_client := cl\<rparr>))"

definition fw_rx_byte :: "fw_env \<Rightarrow> dhp_port_t \<Rightarrow> u8 \<Rightarrow> ('c, 'f) firmware \<Rightarrow> ('c, 'f) firmware option" where
  "fw_rx_byte env p b fw =
     (let r = fw_router fw;
          (l, tx, res) = dhp_link_rx_byte (rt_link r) p b (en_now env);
          fw1 = put_router env (r\<lparr>rt_link := l, rt_out := rt_out r @ map RTx tx\<rparr>) fw
      in case res of
           Inl e \<Rightarrow> Some fw1
         | Inr f \<Rightarrow>
             if fr_type f = msg_code DHP_MSG_PAIR
             then Some (fw1\<lparr>fw_pair := dhp_pair_rx (fw_pair fw1) (frame_bytes f) (en_now env)\<rparr>)
             else if fw_paired fw1 then call_router env (\<lambda>r. dhp_router_rx r f p (en_now env)) fw1
             else Some fw1)"

text \<open>\<open>while (board_uart_read(p, &b))\<close>: no more rounds than the ring has slots.\<close>

primrec drain_port :: "fw_env \<Rightarrow> dhp_port_t \<Rightarrow> nat \<Rightarrow> ('c, 'f) firmware \<Rightarrow> ('c, 'f) firmware option" where
  "drain_port env p 0 fw = Some fw"
| "drain_port env p (Suc n) fw =
     (case board_uart_read (fw_ports fw ! port_index p) of
        None \<Rightarrow> Some fw
      | Some (b, port) \<Rightarrow> Option.bind (fw_rx_byte env p b (upd_port_fw p (\<lambda>_. port) fw)) (drain_port env p n))"

primrec each_report :: "('r \<Rightarrow> 's \<Rightarrow> 's option) \<Rightarrow> 'r list \<Rightarrow> 's \<Rightarrow> 's option" where
  "each_report g [] s = Some s"
| "each_report g (x # xs) s = Option.bind (g x s) (each_report g xs)"

definition poll_switch :: "fw_env \<Rightarrow> ('c, 'f) firmware \<Rightarrow> ('c, 'f) firmware option" where
  "poll_switch env fw =
     (let (s, pressed) = board_switch_pressed (fw_switch fw) (en_switch env) (en_now env);
          fw1 = fw\<lparr>fw_switch := s\<rparr>
      in if pressed then call_router env (\<lambda>r. dhp_router_button r (en_now env)) fw1 else Some fw1)"

definition unpair :: "'f flash_driver \<Rightarrow> fw_env \<Rightarrow> ('c, 'f) firmware \<Rightarrow> ('c, 'f) firmware" where
  "unpair dev env fw =
     fw\<lparr>fw_flash := board_key_erase (fd_erase dev) (fw_flash fw),
        fw_router := (fw_router fw)\<lparr>rt_link := dhp_link_clear_key (rt_link (fw_router fw))\<rparr>,
        fw_paired := False,
        fw_pair := dhp_pair_init (pr_crypto (fw_pair fw)) (fw_uid fw),
        fw_error_until := en_now env + 1500, fw_error_active := True\<rparr>"

definition poll_pair_button :: "'f flash_driver \<Rightarrow> fw_env \<Rightarrow> ('c, 'f) firmware \<Rightarrow> ('c, 'f) firmware" where
  "poll_pair_button dev env fw =
     (let (b, action) = board_pair_button (fw_pair_btn fw) (en_pair env) (en_now env);
          fw1 = fw\<lparr>fw_pair_btn := b\<rparr>
      in case action of
           BOARD_PAIR_BTN_PAIR \<Rightarrow>
             if pr_state (fw_pair fw1) \<noteq> DHP_PAIR_WAITING
             then fw1\<lparr>fw_pair := dhp_pair_begin (fw_pair fw1) (en_now env) 30000\<rparr> else fw1
         | BOARD_PAIR_BTN_UNPAIR \<Rightarrow> unpair dev env fw1
         | BOARD_PAIR_BTN_NONE \<Rightarrow> fw1)"

definition update_caps :: "fw_env \<Rightarrow> ('c, 'f) firmware \<Rightarrow> ('c, 'f) firmware" where
  "update_caps env fw =
     (let caps = current_caps fw
      in if caps \<noteq> fw_last_caps fw
         then (put_router env (dhp_router_set_caps (fw_router fw) caps) fw)\<lparr>fw_last_caps := caps\<rparr>
         else fw)"

definition run_clientlink :: "fw_env \<Rightarrow> ('c, 'f) firmware \<Rightarrow> ('c, 'f) firmware" where
  "run_clientlink env fw =
     (let (cl, report) = clientlink_task (fw_client fw) (fw_router fw) (en_vendor_ready env) (en_now env)
      in fw\<lparr>fw_client := cl, fw_usb := fw_usb fw @ (case report of None \<Rightarrow> [] | Some b \<Rightarrow> [UsbVendor b])\<rparr>)"

definition run_led :: "fw_env \<Rightarrow> ('c, 'f) firmware \<Rightarrow> ('c, 'f) firmware" where
  "run_led env fw = fw\<lparr>fw_led := fst (board_led_task (fw_led fw) (en_led_full env) (en_now env))\<rparr>"

section \<open>The main loop\<close>

definition fw_housekeeping :: "'f flash_driver \<Rightarrow> fw_env \<Rightarrow> ('c, 'f) firmware \<Rightarrow> ('c, 'f) firmware" where
  "fw_housekeeping dev env fw =
     (let fw1 = poll_pair_button dev env fw;
          fw2 = update_caps env fw1;
          fw3 = run_clientlink env fw2;
          fw4 = fw3\<lparr>fw_pair := dhp_pair_tick (fw_pair fw3) (en_now env)\<rparr>;
          fw5 = pairing_drain dev env fw4;
          fw6 = run_led env (refresh_led (en_now env) fw5)
      in put_router env (dhp_router_tick (fw_router fw6) (en_now env)) fw6)"

definition fw_pass :: "'f flash_driver \<Rightarrow> fw_env \<Rightarrow> ('c, 'f) firmware \<Rightarrow> ('c, 'f) firmware option" where
  "fw_pass dev env fw0 =
     do {
       let now = en_now env;
       let fw = fold (hid_bridge_on_vendor_out env) (en_vendor_out env) (fw0\<lparr>fw_n_kbd := 0, fw_n_mouse := 0\<rparr>);
       fw \<leftarrow> drain_port env DHP_PORT_UP (unat RING_SIZE) fw;
       fw \<leftarrow> drain_port env DHP_PORT_DOWN (unat RING_SIZE) fw;
       fw \<leftarrow> each_report (\<lambda>k. call_router env (\<lambda>r. Some (dhp_router_local_kbd r k now))) (en_kbd env) fw;
       fw \<leftarrow> each_report (\<lambda>m. call_router env (\<lambda>r. dhp_router_local_mouse r m now)) (en_mouse env) fw;
       fw \<leftarrow> poll_switch env fw;
       Some (fw_housekeeping dev env fw)
     }"

definition fw_hooks :: dhp_router_hooks_t where
  "fw_hooks = \<lparr>rh_deliver_kbd = True, rh_deliver_mouse = True, rh_focus_changed = True, rh_level_changed = True,
     rh_deliver_data = True\<rparr>"

definition fw_cfg :: "dhp_uid_t \<Rightarrow> dhp_router_cfg_t" where
  "fw_cfg uid = \<lparr>rc_self = board_addr uid, rc_uid = uid, rc_caps = DHP_CAP_HID_OUT, rc_preempt = False,
     rc_timing = DHP_UHRP_TIMING_DEFAULT, rc_pointer = DHP_POINTER_CFG_DEFAULT\<rparr>"

text \<open>Everything in \<open>main\<close> before the loop, up to the start of the router.\<close>

definition fw_init :: "'f flash_driver \<Rightarrow> 'c dhp_crypto_t \<Rightarrow> dhp_uid_t \<Rightarrow> 'f \<Rightarrow> ('c, 'f) firmware" where
  "fw_init dev crypto uid flash =
     (let addr = board_addr uid;
          stored = board_key_load (fd_xip dev flash);
          l0 = dhp_link_init addr True;
          l = (case stored of None \<Rightarrow> l0 | Some key \<Rightarrow> dhp_link_set_key l0 key)
      in \<lparr>fw_router = dhp_router_init (fw_cfg uid) l (Some fw_hooks), fw_pair = dhp_pair_init crypto uid,
          fw_client = clientlink_init, fw_paired = stored \<noteq> None, fw_self = addr, fw_uid = uid,
          fw_error_until = 0, fw_error_active = False, fw_last_caps = rc_caps (fw_cfg uid),
          fw_ports = replicate DHP_PORT_COUNT uart_port_zero,
          fw_switch = \<lparr>sw_last = False, sw_change = 0\<rparr>,
          fw_pair_btn = \<lparr>pb_down_since = 0, pb_pair_reported = False, pb_unpair_reported = False\<rparr>,
          fw_led = led_zero, fw_flash = flash, fw_have_kbd = False, fw_have_mouse = False, fw_usb = [],
          fw_n_kbd = 0, fw_n_mouse = 0\<rparr>)"

definition fw_boot ::
  "'f flash_driver \<Rightarrow> 'c dhp_crypto_t \<Rightarrow> dhp_uid_t \<Rightarrow> 'f \<Rightarrow> fw_env \<Rightarrow> ('c, 'f) firmware option" where
  "fw_boot dev crypto uid flash env =
     call_router env (\<lambda>r. dhp_router_start r (en_now env)) (fw_init dev crypto uid flash)"

text \<open>A pass, an interrupt, or a device coming and going on core 1.\<close>

inductive fw_step :: "'f flash_driver \<Rightarrow> ('c, 'f) firmware \<Rightarrow> ('c, 'f) firmware \<Rightarrow> bool" for dev where
  pass: "fw_pass dev env fw = Some fw' \<Longrightarrow> fw_step dev fw fw'"
| isr: "fw_step dev fw (upd_port_fw p (\<lambda>port. fst (port_isr err drs room port)) fw)"
| mount: "fw_step dev fw (tuh_hid_mount_cb proto fw)"
| umount: "fw_step dev fw (tuh_hid_umount_cb proto fw)"
| led: "fw_step dev fw (fw\<lparr>fw_led := board_led_hw_init (fw_led fw) claimed\<rparr>)"

end
