(* ===== verification/Dhp_Settings.thy ===== *)
theory Dhp_Settings
  imports Dhp_Router
begin

text \<open>
  What no call of the router changes, across \<open>router.c\<close>, \<open>uhrp.c\<close>, \<open>pointer.c\<close> and \<open>link.c\<close>: the chain key
  of the link, and the settings the router, the election and the pointer integrator run on.
  Shared by the life of a board and of the coordinator.
\<close>

section \<open>Routing leaves the chain key alone\<close>

abbreviation key_of :: "dhp_router_t \<Rightarrow> u8 list option" where
  "key_of r \<equiv> link_key (rt_link r)"

lemma emit_frame_key: "emit_frame l p f = (l', tx, res) \<Longrightarrow> link_key l' = link_key l"
  by (auto simp: emit_frame_def link_key_def upd_port_def split: if_splits sum.splits)

lemma link_send_key: "dhp_link_send l ty d p n now = (l', tx, res) \<Longrightarrow> link_key l' = link_key l"
proof -
  assume s: "dhp_link_send l ty d p n now = (l', tx, res)"
  let ?f = "link_frame l ty d p n"
  obtain l1 tx1 r1 where e1: "emit_frame l DHP_PORT_UP ?f = (l1, tx1, r1)" by (cases "emit_frame l DHP_PORT_UP ?f") auto
  obtain l2 tx2 r2 where e2: "emit_frame l1 DHP_PORT_DOWN ?f = (l2, tx2, r2)" by (cases "emit_frame l1 DHP_PORT_DOWN ?f") auto
  have "l' = l2\<lparr>lk_tx_seq := lk_tx_seq l2 + 1\<rparr>" using s unfolding dhp_link_send_def Let_def e1 e2 prod.case by auto
  then show ?thesis using emit_frame_key [OF e1] emit_frame_key [OF e2] by (auto simp: link_key_def split: if_splits)
qed

lemma link_tick_key [simp]: "link_key (dhp_link_tick l now) = link_key l"
  by (simp add: dhp_link_tick_def link_key_def link_age_port_def upd_port_def Let_def)

lemma relay_key: "link_key (fst (relay l p f)) = link_key l"
  by (simp add: link_key_def relay_simps)

lemma fresh_key: "link_key (fst (seq_is_fresh l a s)) = link_key l"
  by (simp add: link_key_def)

lemma link_accept_key: "link_key (fst (link_accept l p f now)) = link_key l"
proof -
  let ?l = "upd_port p (\<lambda>q. q\<lparr>lp_rx_frames := lp_rx_frames q + 1, lp_last_rx := now, lp_neighbour := True\<rparr>) l"
  obtain l1 fresh where s: "seq_is_fresh ?l (fr_src f) (fr_seq f) = (l1, fresh)" by fastforce
  obtain l2 tx where r: "relay l1 p f = (l2, tx)" by fastforce
  have k: "link_key l1 = link_key l" "link_key l2 = link_key l1"
    using fresh_key [of ?l "fr_src f" "fr_seq f"] relay_key [of l1 p f] by (simp_all add: s r)
  have n: "link_key (l1\<lparr>lk_n_replay := n\<rparr>) = link_key l1" for n by (simp add: link_key_def)
  show ?thesis by (simp add: link_accept_def Let_def s r k n)
qed

lemma link_rx_byte_key: "dhp_link_rx_byte l p b now = (l', tx, res) \<Longrightarrow> link_key l' = link_key l"
  using link_accept_key by (auto simp: dhp_link_rx_byte_def Let_def split: if_splits prod.splits sum.splits dest!: arg_cong [where f = fst])

lemma link_sends_key: "link_sends now ms l = (l', tx) \<Longrightarrow> link_key l' = link_key l"
  by (induction ms arbitrary: l tx) (auto split: prod.splits dest: link_send_key)

lemma key_router_send [simp]: "key_of (router_send ty d p now r) = key_of r"
  by (auto simp: router_send_def Let_def split: prod.split dest: link_send_key)

lemma key_deliver_both [simp]: "rt_link (deliver_both k m r) = rt_link r"
  by (simp add: deliver_both_def)

lemma key_recompute_level [simp]: "rt_link (recompute_level r) = rt_link r"
  by (simp add: recompute_level_def Let_def)

lemma key_announce_focus [simp]: "key_of (announce_focus t rs e now r) = key_of r"
  by (simp add: announce_focus_def)

lemma key_release_machine [simp]: "key_of (release_machine r a now) = key_of r"
  by (auto simp: release_machine_def Let_def split: prod.split option.split)

lemma key_broadcast_release [simp]: "key_of (broadcast_release_all r now) = key_of r"
  by (simp add: broadcast_release_all_def Let_def)

lemma key_adopt_focus [simp]: "key_of (adopt_focus r now) = key_of r"
  by (simp add: adopt_focus_def Let_def)

lemma key_drain [simp]: "key_of (drain_uhrp r now) = key_of r"
  by (simp add: drain_uhrp_def dhp_uhrp_take_events_def Let_def)

lemma key_send_to [simp]: "key_of (send_kbd_to r d k now) = key_of r" "key_of (send_mouse_to r d m now) = key_of r"
  by (simp_all add: send_kbd_to_def send_mouse_to_def Let_def)

lemma key_note_held [simp]: "key_of (note_held r now) = key_of r"
  by (simp add: note_held_def)

lemma key_apply_focus: "apply_focus r t rs e now an = Some r' \<Longrightarrow> key_of r' = key_of r"
  by (auto simp: apply_focus_def Let_def split: if_splits option.splits)

lemma key_forward_input: "forward_input r k b now = (r', done') \<Longrightarrow> key_of r' = key_of r"
  by (auto simp: forward_input_def split: if_splits)

lemma key_local_kbd [simp]: "key_of (dhp_router_local_kbd r k now) = key_of r"
  using key_forward_input [of r DHP_INPUT_KIND_KBD "dhp_kbd_pack k" now]
  by (auto simp: dhp_router_local_kbd_def split: prod.split bool.split)

lemma key_local_mouse: "dhp_router_local_mouse r m now = Some r' \<Longrightarrow> key_of r' = key_of r"
  using key_forward_input [of r DHP_INPUT_KIND_MOUSE "dhp_mouse_pack m" now]
  by (auto simp: dhp_router_local_mouse_def Let_def dest!: key_apply_focus split: prod.splits bool.splits option.splits if_splits)

lemma key_note_position [simp]: "rt_link (note_position r f p now) = rt_link r"
  using note_position_frame [of r f p now] by auto

lemma key_rx_hello [simp]: "key_of (rx_hello_frame r a h now) = key_of r"
proof -
  obtain i r1 where g: "chain_get r a = (i, r1)" by fastforce
  obtain c where "r1 = r\<lparr>rt_chain := c\<rparr>" using chain_get_grows(2) [OF g] by blast
  then show ?thesis using g by (simp add: rx_hello_frame_def Let_def split: option.split)
qed

lemma key_rx_focus [simp]: "key_of (rx_focus_frame r fo now) = key_of r"
  by (simp add: rx_focus_frame_def Let_def)

lemma key_rx_input: "rx_input_frame r f now = Some r' \<Longrightarrow> key_of r' = key_of r"
  by (cases rule: rx_input_cases) (auto dest: key_local_mouse)

lemma key_router_rx: "dhp_router_rx r f p now = Some r' \<Longrightarrow> key_of r' = key_of r"
proof -
  assume "dhp_router_rx r f p now = Some r'"
  then show ?thesis
    by (cases rule: router_rx_cases [OF _ refl]) (auto dest: key_rx_input)
qed

lemma key_button: "dhp_router_button r now = Some r' \<Longrightarrow> key_of r' = key_of r"
  by (auto simp: dhp_router_button_def dest: key_apply_focus split: if_splits)

lemma key_set_caps [simp]: "key_of (dhp_router_set_caps r c) = key_of r"
  by (simp add: dhp_router_set_caps_def Let_def split: option.split)

lemma key_tick [simp]: "key_of (dhp_router_tick r now) = key_of r"
  by (simp add: dhp_router_tick_def Let_def)

lemma key_start: "dhp_router_start r now = Some r' \<Longrightarrow> key_of r' = key_of r"
  by (auto simp: dhp_router_start_def)

lemma key_init [simp]: "rt_link (dhp_router_init cfg l h) = l"
proof -
  have "rt_link r1 = rt_link r" if "chain_get r a = (i, r1)" for r a i r1
    using chain_get_grows(2) [OF that] by (metis dhp_router_t.select_convs(2) dhp_router_t.surjective dhp_router_t.update_convs(7))
  then show ?thesis by (auto simp: dhp_router_init_def Let_def split: prod.split)
qed

section \<open>Routing leaves the settings alone\<close>

definition settings_of :: "dhp_router_t \<Rightarrow> dhp_router_cfg_t \<times> dhp_uhrp_config_t \<times> dhp_pointer_cfg_t" where
  "settings_of r = (rt_cfg r, u_cfg (rt_uhrp r), pt_cfg (rt_pointer r))"

lemma settings_cong:
  "rt_cfg r' = rt_cfg r \<Longrightarrow> u_cfg (rt_uhrp r') = u_cfg (rt_uhrp r) \<Longrightarrow> pt_cfg (rt_pointer r') = pt_cfg (rt_pointer r) \<Longrightarrow>
    settings_of r' = settings_of r"
  by (simp add: settings_of_def)

lemma settings_updates [simp]:
  "settings_of (r\<lparr>rt_link := l\<rparr>) = settings_of r" "settings_of (r\<lparr>rt_out := evs\<rparr>) = settings_of r"
  "settings_of (r\<lparr>rt_chain := c\<rparr>) = settings_of r" "settings_of (r\<lparr>rt_hid := t\<rparr>) = settings_of r"
  "settings_of (r\<lparr>rt_focus := a\<rparr>) = settings_of r" "settings_of (r\<lparr>rt_n_switches := n\<rparr>) = settings_of r"
  by (simp_all add: settings_of_def)

lemma arrive_cfg: "dhp_pointer_arrive p e now = Some q \<Longrightarrow> pt_cfg q = pt_cfg p"
  by (cases e) (auto simp: dhp_pointer_arrive_def Let_def bind_eq_Some_conv)

lemma decay_cfg: "decay p now = Some q \<Longrightarrow> pt_cfg q = pt_cfg p"
  by (auto simp: decay_def Let_def bind_eq_Some_conv split: if_splits)

lemma feed_cfg: "dhp_pointer_feed p dx dy now = Some (q, e) \<Longrightarrow> pt_cfg q = pt_cfg p"
  by (auto simp: dhp_pointer_feed_def Let_def bind_eq_Some_conv dest!: decay_cfg arrive_cfg split: if_splits prod.splits)

lemma uhrp_calls_cfg [simp]:
  "u_cfg (dhp_uhrp_rx_hello u src h now) = u_cfg u" "u_cfg (dhp_uhrp_rx_resign u src now) = u_cfg u"
  "u_cfg (dhp_uhrp_tick u now) = u_cfg u" "u_cfg (dhp_uhrp_set_keys_held u held) = u_cfg u"
  "u_cfg (dhp_uhrp_start u now) = u_cfg u"
proof -
  obtain r u1 where g: "peer_get u src = (r, u1)" by fastforce
  from peer_get_same_role [OF g] have "u_cfg u1 = u_cfg u" by (simp add: same_role_def)
  then show "u_cfg (dhp_uhrp_rx_hello u src h now) = u_cfg u"
    by (cases r) (simp_all add: dhp_uhrp_rx_hello_def g Let_def)
qed (simp_all add: dhp_uhrp_rx_resign_def dhp_uhrp_tick_def dhp_uhrp_set_keys_held_def dhp_uhrp_start_def Let_def split: option.split)

lemma broadcast_release_pointer [simp]: "rt_pointer (broadcast_release_all r now) = rt_pointer r"
  by (simp add: broadcast_release_all_def Let_def)

lemma adopt_focus_pointer [simp]: "rt_pointer (adopt_focus r now) = rt_pointer r"
  by (simp add: adopt_focus_def Let_def)

lemma drain_uhrp_pointer [simp]: "rt_pointer (drain_uhrp r now) = rt_pointer r"
  by (simp add: drain_uhrp_def dhp_uhrp_take_events_def Let_def)

lemma settings_calls [simp]:
  "settings_of (router_send ty d p now r) = settings_of r" "settings_of (call_hook g e r) = settings_of r"
  "settings_of (deliver_both k m r) = settings_of r" "settings_of (recompute_level r) = settings_of r"
  "settings_of (release_machine r a now) = settings_of r" "settings_of (drain_uhrp r now) = settings_of r"
  by (simp_all add: settings_of_def)

lemma settings_election [simp]: "u_cfg u = u_cfg (rt_uhrp r) \<Longrightarrow> settings_of (r\<lparr>rt_uhrp := u\<rparr>) = settings_of r"
  by (simp add: settings_of_def)

lemma settings_pointer: "pt_cfg p = pt_cfg (rt_pointer r) \<Longrightarrow> settings_of (r\<lparr>rt_pointer := p\<rparr>) = settings_of r"
  by (simp add: settings_of_def)

lemma settings_send_to [simp]:
  "settings_of (send_kbd_to r d k now) = settings_of r" "settings_of (send_mouse_to r d m now) = settings_of r"
  by (simp_all add: send_kbd_to_def send_mouse_to_def Let_def)

lemma settings_note_held [simp]: "settings_of (note_held r now) = settings_of r"
  by (simp add: note_held_def)

lemma settings_apply_focus:
  assumes "apply_focus r t rs e now an = Some r'"
  shows "settings_of r' = settings_of r"
proof (cases "t = DHP_ADDR_NONE \<or> t = rt_focus r")
  case True
  with assms show ?thesis by (simp add: apply_focus_def)
next
  case False
  then obtain p where "dhp_pointer_arrive (rt_pointer r) e now = Some p"
    using assms by (auto simp: apply_focus_def Let_def split: option.splits)
  with assms False arrive_cfg [OF this] show ?thesis
    by (auto simp: apply_focus_def Let_def announce_focus_def intro!: settings_cong)
qed

lemma settings_forward_input: "forward_input r k b now = (r', done') \<Longrightarrow> settings_of r' = settings_of r"
  by (auto simp: forward_input_def split: if_splits)

lemma settings_local_kbd [simp]: "settings_of (dhp_router_local_kbd r k now) = settings_of r"
  using settings_forward_input [of r DHP_INPUT_KIND_KBD "dhp_kbd_pack k" now]
  by (auto simp: dhp_router_local_kbd_def split: prod.split bool.split)

lemma settings_local_mouse: "dhp_router_local_mouse r m now = Some r' \<Longrightarrow> settings_of r' = settings_of r"
  using settings_forward_input [of r DHP_INPUT_KIND_MOUSE "dhp_mouse_pack m" now]
  by (auto simp: dhp_router_local_mouse_def Let_def settings_pointer [OF feed_cfg] dest!: settings_apply_focus
      split: prod.splits bool.splits option.splits if_splits)

lemma settings_note_position [simp]: "settings_of (note_position r f p now) = settings_of r"
  using note_position_frame [of r f p now] by auto

lemma settings_rx_hello [simp]: "settings_of (rx_hello_frame r a h now) = settings_of r"
proof -
  obtain i r1 where g: "chain_get r a = (i, r1)" by fastforce
  obtain c where "r1 = r\<lparr>rt_chain := c\<rparr>" using chain_get_grows(2) [OF g] by blast
  then show ?thesis using g by (simp add: rx_hello_frame_def Let_def upd_chain_def split: option.split)
qed

lemma settings_rx_focus [simp]: "settings_of (rx_focus_frame r fo now) = settings_of r"
  by (simp add: rx_focus_frame_def Let_def)

lemma settings_rx_input: "rx_input_frame r f now = Some r' \<Longrightarrow> settings_of r' = settings_of r"
  by (cases rule: rx_input_cases) (auto dest: settings_local_mouse)

lemma settings_router_rx: "dhp_router_rx r f p now = Some r' \<Longrightarrow> settings_of r' = settings_of r"
proof -
  assume "dhp_router_rx r f p now = Some r'"
  then show ?thesis
    by (cases rule: router_rx_cases [OF _ refl]) (auto dest: settings_rx_input)
qed

lemma settings_set_focus: "dhp_router_set_focus r t rs now = Some r' \<Longrightarrow> settings_of r' = settings_of r"
  unfolding dhp_router_set_focus_def by (rule settings_apply_focus)

lemma settings_tick [simp]: "settings_of (dhp_router_tick r now) = settings_of r"
  by (simp add: dhp_router_tick_def Let_def)

lemma settings_start: "dhp_router_start r now = Some r' \<Longrightarrow> settings_of r' = settings_of r"
  by (auto simp: dhp_router_start_def dest!: arrive_cfg intro!: settings_cong)

lemma settings_init:
  assumes "0 < pc_span (rc_pointer cfg)" "ut_hello_ms (rc_timing cfg) \<noteq> 0"
  shows "settings_of (dhp_router_init cfg l hooks) =
    (cfg, \<lparr>uc_uid = rc_uid cfg, uc_addr = rc_self cfg, uc_priority = dhp_uhrp_priority_from_caps (rc_caps cfg),
       uc_caps = rc_caps cfg, uc_preempt = rc_preempt cfg, uc_timing = rc_timing cfg\<rparr>, rc_pointer cfg)"
proof -
  have "settings_of r1 = settings_of r" if "chain_get r a = (i, r1)" for r a i r1
    using chain_get_grows(2) [OF that] settings_updates(3) [where r = r and c = "rt_chain r1"] by argo
  moreover have "settings_of (upd_chain i g r\<lparr>rt_self_slot := s, rt_focus := a, rt_level := lv\<rparr>) = settings_of r" for i g r s a lv
    by (simp add: settings_of_def upd_chain_def)
  ultimately show ?thesis using assms
    by (auto simp: dhp_router_init_def Let_def settings_of_def dhp_uhrp_init_def dhp_pointer_init_def split: prod.split)
qed

end
