(* ===== verification/Dhp_Lifecycle.thy ===== *)
theory Dhp_Lifecycle
  imports Dhp_Firmware Dhp_Settings
begin

text \<open>
  The chain key over the life of a board, across \<open>main.c\<close>, \<open>board.c\<close>, \<open>auth.c\<close>, \<open>link.c\<close> and
  \<open>router.c\<close>: the key the link uses, the key in flash and the \<open>g_paired\<close> flag never disagree,
  from power-up through pairing, unpairing and any traffic.
\<close>

section \<open>The invariant\<close>

text \<open>What the flash functions and the key derivation are documented to do.\<close>

definition flash_ok :: "'f flash_driver \<Rightarrow> bool" where
  "flash_ok dev \<longleftrightarrow>
     24 \<le> fd_page_size dev \<and>
     (\<forall>f page. length page = fd_page_size dev \<longrightarrow> take (fd_page_size dev) (fd_xip dev (fd_program dev page (fd_erase dev f))) = page) \<and>
     (\<forall>f. take 24 (fd_xip dev (fd_erase dev f)) = replicate 24 0xFF)"

definition kdf_ok :: "'c dhp_crypto_t \<Rightarrow> bool" where
  "kdf_ok c \<longleftrightarrow> (\<forall>n secret info. length (cr_kdf c n secret info) = n)"

definition fw_inv :: "'f flash_driver \<Rightarrow> ('c, 'f) firmware \<Rightarrow> bool" where
  "fw_inv dev fw \<longleftrightarrow>
     key_of (fw_router fw) = board_key_load (fd_xip dev (fw_flash fw)) \<and>
     (fw_paired fw \<longleftrightarrow> key_of (fw_router fw) \<noteq> None) \<and>
     pair_inv (fw_pair fw) \<and> kdf_ok (pr_crypto (fw_pair fw))"

lemma fw_inv_cong:
  "fw_inv dev fw \<Longrightarrow> key_of (fw_router fw') = key_of (fw_router fw) \<Longrightarrow> fw_flash fw' = fw_flash fw \<Longrightarrow>
     fw_paired fw' = fw_paired fw \<Longrightarrow> pair_inv (fw_pair fw') \<Longrightarrow> pr_crypto (fw_pair fw') = pr_crypto (fw_pair fw) \<Longrightarrow> fw_inv dev fw'"
  by (simp add: fw_inv_def)

lemma fw_inv_same:
  "fw_inv dev fw \<Longrightarrow> key_of (fw_router fw') = key_of (fw_router fw) \<Longrightarrow> fw_flash fw' = fw_flash fw \<Longrightarrow>
     fw_paired fw' = fw_paired fw \<Longrightarrow> fw_pair fw' = fw_pair fw \<Longrightarrow> fw_inv dev fw'"
  by (simp add: fw_inv_def)

text \<open>The hooks touch none of it.\<close>

lemma refresh_led_keeps [simp]:
  "fw_router (refresh_led now fw) = fw_router fw" "fw_flash (refresh_led now fw) = fw_flash fw"
  "fw_paired (refresh_led now fw) = fw_paired fw" "fw_pair (refresh_led now fw) = fw_pair fw"
  by (simp_all add: refresh_led_def set_led_def Let_def)

lemma router_hook_keeps [simp]:
  "fw_router (router_hook env e fw) = fw_router fw" "fw_flash (router_hook env e fw) = fw_flash fw"
  "fw_paired (router_hook env e fw) = fw_paired fw" "fw_pair (router_hook env e fw) = fw_pair fw"
  by (cases e; simp add: on_tx_def on_kbd_def on_mouse_def on_focus_def on_data_def upd_port_fw_def)+

lemma router_hooks_keep [simp]:
  "fw_router (fold (router_hook env) es fw) = fw_router fw" "fw_flash (fold (router_hook env) es fw) = fw_flash fw"
  "fw_paired (fold (router_hook env) es fw) = fw_paired fw" "fw_pair (fold (router_hook env) es fw) = fw_pair fw"
  by (induction es arbitrary: fw) simp_all

lemma put_router_keeps [simp]:
  "key_of (fw_router (put_router env r fw)) = key_of r" "fw_flash (put_router env r fw) = fw_flash fw"
  "fw_paired (put_router env r fw) = fw_paired fw" "fw_pair (put_router env r fw) = fw_pair fw"
  by (simp_all add: put_router_def)

lemma put_router_inv: "fw_inv dev fw \<Longrightarrow> key_of r = key_of (fw_router fw) \<Longrightarrow> fw_inv dev (put_router env r fw)"
  by (erule fw_inv_same) simp_all

lemma call_router_inv:
  assumes "fw_inv dev fw" "call_router env g fw = Some fw'" "\<And>r. g (fw_router fw) = Some r \<Longrightarrow> key_of r = key_of (fw_router fw)"
  shows "fw_inv dev fw'"
  using assms by (auto simp: call_router_def intro: put_router_inv)

lemma send_pair_inv: "fw_inv dev fw \<Longrightarrow> fw_inv dev (send_pair env buf fw)"
  by (simp add: send_pair_def put_router_inv)

lemma send_pair_keeps [simp]:
  "fw_pair (send_pair env buf fw) = fw_pair fw" "key_of (fw_router (send_pair env buf fw)) = key_of (fw_router fw)"
  "fw_flash (send_pair env buf fw) = fw_flash fw" "fw_paired (send_pair env buf fw) = fw_paired fw"
  by (simp_all add: send_pair_def)

section \<open>Pairing\<close>

lemma abort_with_crypto [simp]: "pr_crypto (abort_with p w) = pr_crypto p"
  by (simp add: abort_with_def)

lemma derive_crypto: "derive p = Some d \<Longrightarrow> pr_crypto d = pr_crypto p"
  by (auto simp: derive_def Let_def split: option.splits)

lemma pair_rx_crypto [simp]: "pr_crypto (dhp_pair_rx p b now) = pr_crypto p"
proof -
  have "pr_crypto (rx_offer p b) = pr_crypto p"
    by (auto simp: rx_offer_def Let_def split: option.split dest: derive_crypto)
  moreover have "pr_crypto (rx_confirm p b) = pr_crypto p" by (simp add: rx_confirm_def Let_def)
  ultimately show ?thesis by (simp add: dhp_pair_rx_def Let_def)
qed

lemma pair_tick_crypto [simp]: "pr_crypto (dhp_pair_tick p now) = pr_crypto p"
  by (simp add: dhp_pair_tick_def)

lemma pair_begin_kdf: "kdf_ok (pr_crypto p) \<Longrightarrow> kdf_ok (pr_crypto (dhp_pair_begin p now w))"
  by (simp add: dhp_pair_begin_def pair_zero_def kdf_ok_def Let_def split: prod.split)

lemma chain_key_length:
  assumes "pair_inv p" "kdf_ok (pr_crypto p)" "dhp_pair_chain_key p = Some key"
  shows "length key = 16"
  using assms by (auto simp: dhp_pair_chain_key_def pair_inv_def keys_derived_def kdf_ok_def dhp_consts split: if_splits)

lemma saved_key_loads:
  assumes "flash_ok dev" "length key = 16"
  shows "board_key_load (fd_xip dev (board_key_save (fd_erase dev) (fd_program dev) (fd_page_size dev) f key)) = Some key"
    "board_key_load (fd_xip dev (board_key_erase (fd_erase dev) f)) = None"
  using key_save_load [where page_size = "fd_page_size dev" and xip = "fd_xip dev" and flash_range_program = "fd_program dev"
      and flash_range_erase = "fd_erase dev" and key = key and f = f] assms by (simp_all add: flash_ok_def)

lemma set_link_key_of: "length key = 16 \<Longrightarrow> key_of (fw_router (set_link_key key fw)) = Some key"
  by (simp add: set_link_key_def dhp_link_set_key_def link_key_def)

lemma pairing_drain_inv:
  assumes "fw_inv dev fw" "flash_ok dev"
  shows "fw_inv dev (pairing_drain dev env fw)"
proof -
  define p where "p = (fw_pair fw)\<lparr>pr_ev := pair_events_zero\<rparr>"
  define ev where "ev = pr_ev (fw_pair fw)"
  define fw2 where "fw2 = (if pe_send_offer ev then send_pair env (dhp_pair_build_offer p 64) (fw\<lparr>fw_pair := p\<rparr>) else fw\<lparr>fw_pair := p\<rparr>)"
  define fw3 where "fw3 = (if pe_send_confirm ev then send_pair env (dhp_pair_build_confirm p 64) fw2 else fw2)"
  define fw4 where "fw4 = (if pe_send_abort ev
    then (send_pair env (dhp_pair_build_abort p 64) fw3)\<lparr>fw_error_until := en_now env + 4000, fw_error_active := True\<rparr> else fw3)"
  have d: "pairing_drain dev env fw = (if pe_completed ev then (case dhp_pair_chain_key p of None \<Rightarrow> fw4
      | Some key \<Rightarrow> (set_link_key key fw4)\<lparr>fw_flash := board_key_save (fd_erase dev) (fd_program dev) (fd_page_size dev) (fw_flash fw4) key,
          fw_paired := True, fw_error_active := False\<rparr>) else fw4)"
    unfolding pairing_drain_def dhp_pair_take_events_def prod.case Let_def
    unfolding p_def [symmetric] ev_def [symmetric] unfolding fw2_def [symmetric] unfolding fw3_def [symmetric] unfolding fw4_def [symmetric] ..
  have p: "pair_inv p" "kdf_ok (pr_crypto p)" using assms(1) by (simp_all add: p_def fw_inv_def pair_inv_ev)
  have 1: "fw_inv dev (fw\<lparr>fw_pair := p\<rparr>)" by (rule fw_inv_cong [OF assms(1)]) (use p in \<open>simp_all add: p_def\<close>)
  have 2: "fw_inv dev fw2" "fw_pair fw2 = p" using 1 by (simp_all add: fw2_def send_pair_inv)
  have 3: "fw_inv dev fw3" "fw_pair fw3 = p" using 2 by (simp_all add: fw3_def send_pair_inv)
  have 4: "fw_inv dev fw4" "fw_pair fw4 = p"
  proof -
    have "fw_inv dev (send_pair env b fw3\<lparr>fw_error_until := t, fw_error_active := True\<rparr>)" for b t
      by (rule fw_inv_same [OF 3(1)]) simp_all
    with 3 show "fw_inv dev fw4" "fw_pair fw4 = p" by (simp_all add: fw4_def)
  qed
  show ?thesis
  proof (cases "pe_completed ev \<and> dhp_pair_chain_key p \<noteq> None")
    case True
    then obtain key where key: "dhp_pair_chain_key p = Some key" by blast
    have l: "length key = 16" using chain_key_length [OF p key] .
    have "fw_pair (set_link_key key fw4) = p" using 4(2) by (simp add: set_link_key_def)
    with True key p saved_key_loads(1) [OF assms(2) l] set_link_key_of [OF l, of fw4] show ?thesis
      by (simp add: d fw_inv_def)
  next
    case False
    then have "pairing_drain dev env fw = fw4" unfolding d by auto
    with 4(1) show ?thesis by simp
  qed
qed

lemma unpair_inv:
  assumes "fw_inv dev fw" "flash_ok dev"
  shows "fw_inv dev (unpair dev env fw)"
proof -
  have "length (replicate 16 (0 :: u8)) = 16" by simp
  note e = saved_key_loads(2) [OF assms(2) this]
  have "pair_inv (dhp_pair_init c u)" for c :: "'c dhp_crypto_t" and u by (simp add: dhp_pair_init_def pair_zero_def pair_inv_def)
  with e assms(1) show ?thesis
    by (simp add: unpair_def fw_inv_def link_key_def dhp_link_clear_key_def dhp_pair_init_def pair_zero_def)
qed

lemma poll_pair_button_inv:
  assumes "fw_inv dev fw" "flash_ok dev"
  shows "fw_inv dev (poll_pair_button dev env fw)"
proof -
  obtain b action where a: "board_pair_button (fw_pair_btn fw) (en_pair env) (en_now env) = (b, action)" by fastforce
  let ?fw = "fw\<lparr>fw_pair_btn := b\<rparr>"
  have i: "fw_inv dev ?fw" by (rule fw_inv_same [OF assms(1)]) simp_all
  have "fw_inv dev (?fw\<lparr>fw_pair := dhp_pair_begin (fw_pair ?fw) t w\<rparr>)" for t w
    using i by (simp add: fw_inv_def pair_inv_begin pair_begin_kdf)
  with a i unpair_inv [OF i assms(2)] show ?thesis
    by (auto simp: poll_pair_button_def Let_def split: board_pair_btn_t.split)
qed

section \<open>A pass keeps it\<close>

lemma vendor_out_inv:
  assumes "fw_inv dev fw"
  shows "fw_inv dev (hid_bridge_on_vendor_out env data fw)"
proof -
  obtain cl r where c: "clientlink_rx_report (fw_client fw) (fw_router fw) data (en_now env) = (cl, r)" by fastforce
  obtain ds l tx where g: "link_sends (en_now env) (map (\<lambda>d. (DHP_MSG_DATA, fst d, snd d)) ds) (rt_link (fw_router fw)) = (l, tx)"
    "r = (fw_router fw)\<lparr>rt_link := l, rt_out := rt_out (fw_router fw) @ map RTx tx\<rparr>"
    using client_passes_data [OF c] by blast
  have "link_key l = key_of (fw_router fw)" using link_sends_key [OF g(1)] .
  then have "fw_inv dev (put_router env r (fw\<lparr>fw_client := cl\<rparr>))"
    by (intro put_router_inv fw_inv_same [OF assms]) (simp_all add: g(2))
  then show ?thesis by (simp add: hid_bridge_on_vendor_out_def c)
qed

lemma rx_byte_inv:
  assumes "fw_inv dev fw" "fw_rx_byte env p b fw = Some fw'"
  shows "fw_inv dev fw'"
proof -
  let ?r = "fw_router fw"
  obtain l tx res where x: "dhp_link_rx_byte (rt_link ?r) p b (en_now env) = (l, tx, res)"
    by (cases "dhp_link_rx_byte (rt_link ?r) p b (en_now env)") auto
  let ?fw = "put_router env (?r\<lparr>rt_link := l, rt_out := rt_out ?r @ map RTx tx\<rparr>) fw"
  have i: "fw_inv dev ?fw" using link_rx_byte_key [OF x] by (intro put_router_inv assms(1)) simp
  have "fw_inv dev (?fw\<lparr>fw_pair := dhp_pair_rx (fw_pair ?fw) q t\<rparr>)" for q t
    by (rule fw_inv_cong [OF i]) (use i in \<open>simp_all add: fw_inv_def pair_inv_rx\<close>)
  with i assms(2) show ?thesis
    by (auto simp: fw_rx_byte_def x Let_def dest: call_router_inv [OF i] key_router_rx split: sum.splits if_splits)
qed

lemma drain_port_inv: "fw_inv dev fw \<Longrightarrow> drain_port env p n fw = Some fw' \<Longrightarrow> fw_inv dev fw'"
proof (induction n arbitrary: fw)
  case (Suc n)
  show ?case
  proof (cases "board_uart_read (fw_ports fw ! port_index p)")
    case None
    with Suc.prems show ?thesis by simp
  next
    case (Some x)
    obtain b port where x: "x = (b, port)" by fastforce
    have "fw_inv dev (upd_port_fw p (\<lambda>_. port) fw)" by (rule fw_inv_same [OF Suc.prems(1)]) (simp_all add: upd_port_fw_def)
    moreover obtain y where y: "fw_rx_byte env p b (upd_port_fw p (\<lambda>_. port) fw) = Some y" "drain_port env p n y = Some fw'"
      using Suc.prems(2) Some x by (auto simp: bind_eq_Some_conv)
    ultimately show ?thesis using Suc.IH [OF rx_byte_inv [OF _ y(1)] y(2)] by blast
  qed
qed simp

lemma each_report_inv:
  assumes "\<And>x s s'. P s \<Longrightarrow> g x s = Some s' \<Longrightarrow> P s'"
  shows "P s \<Longrightarrow> each_report g xs s = Some s' \<Longrightarrow> P s'"
  by (induction xs arbitrary: s) (auto simp: bind_eq_Some_conv dest: assms)

lemma housekeeping_inv:
  assumes "fw_inv dev fw" "flash_ok dev"
  shows "fw_inv dev (fw_housekeeping dev env fw)"
proof -
  note 1 = poll_pair_button_inv [OF assms, of env]
  have 2: "fw_inv dev (update_caps env fw)" if "fw_inv dev fw" for fw :: "('b, 'a) firmware"
    using that by (auto simp: update_caps_def Let_def intro: fw_inv_same [OF put_router_inv])
  have 3: "fw_inv dev (run_clientlink env fw)" if "fw_inv dev fw" for fw :: "('b, 'a) firmware"
    by (rule fw_inv_same [OF that]) (simp_all add: run_clientlink_def split: prod.split)
  have 4: "fw_inv dev (fw\<lparr>fw_pair := dhp_pair_tick (fw_pair fw) t\<rparr>)" if "fw_inv dev fw" for t and fw :: "('b, 'a) firmware"
    by (rule fw_inv_cong [OF that]) (use that in \<open>simp_all add: fw_inv_def pair_inv_tick\<close>)
  have 5: "fw_inv dev (run_led env (refresh_led t fw))" if "fw_inv dev fw" for t and fw :: "('b, 'a) firmware"
    by (rule fw_inv_same [OF that]) (simp_all add: run_led_def)
  have 6: "fw_inv dev (put_router env (dhp_router_tick (fw_router fw) t) fw)" if "fw_inv dev fw" for t and fw :: "('b, 'a) firmware"
    by (rule put_router_inv [OF that]) simp
  show ?thesis unfolding fw_housekeeping_def Let_def
    by (intro 6 5 pairing_drain_inv 4 3 2 1 assms(2))
qed

lemma poll_switch_inv: "fw_inv dev fw \<Longrightarrow> poll_switch env fw = Some fw' \<Longrightarrow> fw_inv dev fw'"
proof -
  assume i: "fw_inv dev fw" and p: "poll_switch env fw = Some fw'"
  obtain s b where s: "board_switch_pressed (fw_switch fw) (en_switch env) (en_now env) = (s, b)" by fastforce
  have j: "fw_inv dev (fw\<lparr>fw_switch := s\<rparr>)" by (rule fw_inv_same [OF i]) simp_all
  have "fw_inv dev fw'" if "call_router env (\<lambda>r. dhp_router_button r (en_now env)) (fw\<lparr>fw_switch := s\<rparr>) = Some fw'"
    using call_router_inv [OF j that] key_button by blast
  with p s j show ?thesis by (auto simp: poll_switch_def Let_def split: if_splits)
qed

lemma pass_inv:
  assumes "fw_inv dev fw" "flash_ok dev" "fw_pass dev env fw = Some fw'"
  shows "fw_inv dev fw'"
proof -
  let ?kbd = "\<lambda>k. call_router env (\<lambda>r. Some (dhp_router_local_kbd r k (en_now env))) :: ('b, 'a) firmware \<Rightarrow> ('b, 'a) firmware option"
  let ?mouse = "\<lambda>m. call_router env (\<lambda>r. dhp_router_local_mouse r m (en_now env)) :: ('b, 'a) firmware \<Rightarrow> ('b, 'a) firmware option"
  have "fw_inv dev (fw\<lparr>fw_n_kbd := 0, fw_n_mouse := 0\<rparr>)" by (rule fw_inv_same [OF assms(1)]) simp_all
  moreover have "fw_inv dev (fold (hid_bridge_on_vendor_out env) ds g)" if "fw_inv dev g" for ds and g :: "('b, 'a) firmware"
    using that by (induction ds arbitrary: g) (simp_all add: vendor_out_inv)
  ultimately have 0: "fw_inv dev (fold (hid_bridge_on_vendor_out env) (en_vendor_out env) (fw\<lparr>fw_n_kbd := 0, fw_n_mouse := 0\<rparr>))" by blast
  obtain f1 f2 f3 f4 f5 where steps:
    "drain_port env DHP_PORT_UP (unat RING_SIZE) (fold (hid_bridge_on_vendor_out env) (en_vendor_out env) (fw\<lparr>fw_n_kbd := 0, fw_n_mouse := 0\<rparr>)) = Some f1"
    "drain_port env DHP_PORT_DOWN (unat RING_SIZE) f1 = Some f2" "each_report ?kbd (en_kbd env) f2 = Some f3"
    "each_report ?mouse (en_mouse env) f3 = Some f4" "poll_switch env f4 = Some f5" "fw' = fw_housekeeping dev env f5"
    using assms(3) by (auto simp: fw_pass_def Let_def bind_eq_Some_conv)
  have k: "fw_inv dev s'" if "fw_inv dev s" "?kbd x s = Some s'" for x s s'
    using call_router_inv [OF that] by simp
  have m: "fw_inv dev s'" if "fw_inv dev s" "?mouse x s = Some s'" for x s s'
    using call_router_inv [OF that] key_local_mouse by blast
  have "fw_inv dev f2" using drain_port_inv [OF drain_port_inv [OF 0 steps(1)] steps(2)] .
  then have "fw_inv dev f3" by (rule each_report_inv [where P = "fw_inv dev" and g = ?kbd, rotated, OF _ steps(3)]) (rule k)
  then have "fw_inv dev f4" by (rule each_report_inv [where P = "fw_inv dev" and g = ?mouse, rotated, OF _ steps(4)]) (rule m)
  then show ?thesis using poll_switch_inv [OF _ steps(5)] housekeeping_inv [OF _ assms(2)] steps(6) by blast
qed

lemma fw_step_inv:
  assumes "flash_ok dev" "fw_inv dev fw" "fw_step dev fw fw'"
  shows "fw_inv dev fw'"
  using assms(3)
proof (cases rule: fw_step.cases)
  case (pass env)
  then show ?thesis using pass_inv assms by blast
next
  case (mount proto)
  then show ?thesis by (cases proto) (auto simp: tuh_hid_mount_cb_def intro: fw_inv_same [OF assms(2)])
next
  case (umount proto)
  then show ?thesis by (cases proto) (auto simp: tuh_hid_umount_cb_def intro: fw_inv_same [OF assms(2)])
qed (auto simp: upd_port_fw_def intro: fw_inv_same [OF assms(2)])

lemma fw_init_key:
  "key_of (fw_router (fw_init dev crypto uid flash)) = board_key_load (fd_xip dev flash)"
  "fw_paired (fw_init dev crypto uid flash) \<longleftrightarrow> board_key_load (fd_xip dev flash) \<noteq> None"
  "fw_flash (fw_init dev crypto uid flash) = flash" "fw_pair (fw_init dev crypto uid flash) = dhp_pair_init crypto uid"
  by (auto simp: fw_init_def Let_def link_key_def dhp_link_init_def dhp_link_set_key_def board_key_load_def key_record_at_def
      split: option.split if_splits)

lemma fw_boot_inv:
  assumes "kdf_ok crypto" "fw_boot dev crypto uid flash env = Some fw"
  shows "fw_inv dev fw"
proof -
  have "fw_inv dev (fw_init dev crypto uid flash)"
    using assms(1) by (simp add: fw_inv_def fw_init_key dhp_pair_init_def pair_zero_def pair_inv_def)
  then show ?thesis using assms(2) call_router_inv key_start unfolding fw_boot_def by blast
qed

text \<open>
  C7. A board always runs on the key it would come up with after a power cut. Given flash and key
  derivation functions that do what they document, after any passes, interrupts and device
  changes since power-up the key the link uses is the one stored in flash, \<open>g_paired\<close> says
  whether there is one, and a reboot from that flash content restores both.
\<close>

theorem key_survives_power_cut:
  assumes "flash_ok dev" "kdf_ok crypto" "fw_boot dev crypto uid flash env = Some fw0" "(fw_step dev)\<^sup>*\<^sup>* fw0 fw"
  shows "link_key (rt_link (fw_router fw)) = board_key_load (fd_xip dev (fw_flash fw)) \<and>
    (fw_paired fw \<longleftrightarrow> link_key (rt_link (fw_router fw)) \<noteq> None) \<and>
    link_key (rt_link (fw_router (fw_init dev crypto' uid' (fw_flash fw)))) = link_key (rt_link (fw_router fw)) \<and>
    fw_paired (fw_init dev crypto' uid' (fw_flash fw)) = fw_paired fw"
proof -
  have i: "fw_inv dev fw"
    using assms(4) by (induction rule: rtranclp_induct) (use fw_boot_inv [OF assms(2,3)] fw_step_inv [OF assms(1)] in auto)
  then have k: "key_of (fw_router fw) = board_key_load (fd_xip dev (fw_flash fw))" "fw_paired fw \<longleftrightarrow> key_of (fw_router fw) \<noteq> None"
    by (auto simp: fw_inv_def)
  show ?thesis unfolding fw_init_key k by simp
qed

definition demo_flash :: "(u8 list) flash_driver" where
  "demo_flash = \<lparr>fd_erase = (\<lambda>f. replicate 4096 0xFF), fd_program = (\<lambda>page f. page @ drop 256 f), fd_page_size = 256, fd_xip = (\<lambda>f. f)\<rparr>"

definition demo_sector :: "u8 list" where
  "demo_sector = board_key_save (fd_erase demo_flash) (fd_program demo_flash) 256 [] demo_key16"

definition demo_env :: fw_env where
  "demo_env = \<lparr>en_now = 0, en_kbd = [], en_mouse = [], en_switch = False, en_pair = False, en_kbd_ready = (\<lambda>_. True),
     en_mouse_ready = (\<lambda>_. True), en_vendor_ready = True, en_vendor_out = [], en_led_full = False\<rparr>"

lemma demo_flash_ok: "flash_ok demo_flash"
  by (simp add: flash_ok_def demo_flash_def)

lemma demo_sector_key: "board_key_load (fd_xip demo_flash demo_sector) = Some demo_key16"
  using saved_key_loads(1) [OF demo_flash_ok, of demo_key16 "[]"] by (simp add: demo_sector_def demo_flash_def demo_key16_def)

lemma router_init_pointer: "rt_pointer (dhp_router_init cfg l h) = dhp_pointer_init (Some (rc_pointer cfg))"
proof -
  have "rt_pointer r1 = rt_pointer r" if "chain_get r a = (i, r1)" for r a i r1
    using chain_get_grows(2) [OF that] by (metis dhp_router_t.select_convs(5) dhp_router_t.surjective dhp_router_t.update_convs(7))
  then show ?thesis by (auto simp: dhp_router_init_def Let_def split: prod.split)
qed

text \<open>A paired board that comes up and takes a keyboard.\<close>

theorem key_survives_power_cut_witness:
  "\<exists>fw0 fw. fw_boot demo_flash (demo_crypto 3) 7 demo_sector demo_env = Some fw0 \<and> fw_step demo_flash fw0 fw \<and> fw_have_kbd fw \<and>
     link_key (rt_link (fw_router fw)) = Some demo_key16 \<and> fw_paired fw"
proof -
  have "dhp_pointer_arrive (dhp_pointer_init (Some DHP_POINTER_CFG_DEFAULT)) DHP_EDGE_NONE 0 \<noteq> None" by code_simp
  then obtain fw0 where b: "fw_boot demo_flash (demo_crypto 3) 7 demo_sector demo_env = Some fw0"
    by (auto simp: fw_boot_def call_router_def dhp_router_start_def fw_init_def router_init_pointer fw_cfg_def demo_env_def Let_def)
  let ?fw = "tuh_hid_mount_cb HID_PROTOCOL_KEYBOARD fw0"
  have s: "fw_step demo_flash fw0 ?fw" by (rule fw_step.mount)
  have "kdf_ok (demo_crypto 3)" by (simp add: kdf_ok_def demo_crypto_def)
  from key_survives_power_cut [OF demo_flash_ok this b r_into_rtranclp [of "fw_step demo_flash", OF s]]
  have k: "link_key (rt_link (fw_router ?fw)) = board_key_load (fd_xip demo_flash (fw_flash ?fw))"
    "fw_paired ?fw \<longleftrightarrow> link_key (rt_link (fw_router ?fw)) \<noteq> None" by blast+
  have "fw_flash fw0 = demo_sector" using b by (auto simp: fw_boot_def call_router_def fw_init_def Let_def)
  then have "link_key (rt_link (fw_router ?fw)) = Some demo_key16" using k(1) demo_sector_key by (simp add: tuh_hid_mount_cb_def)
  with b s k(2) show ?thesis by (auto simp: tuh_hid_mount_cb_def)
qed

section \<open>A report the host does not collect\<close>

text \<open>
  \<open>hid_bridge_send_kbd\<close> drops a report while the endpoint is busy, also a release: the machine
  keeps the key down although the tracker holds nothing.
\<close>

lemma dropped_release_leaves_key:
  assumes "en_kbd_ready env (fw_n_kbd fw)" "\<not> en_kbd_ready env (Suc (fw_n_kbd fw))"
  shows "fw_usb (on_kbd env kbd_empty (on_kbd env k fw)) = fw_usb fw @ [UsbKbd (kb_modifiers k) (kb_keys k)] \<and>
    \<not> dhp_hid_any_held (dhp_hid_note_kbd (dhp_hid_note_kbd dhp_hid_tracker_init 0 k) 0 kbd_empty)"
proof -
  have "ht_target (dhp_hid_note_kbd (dhp_hid_note_kbd dhp_hid_tracker_init 0 k) 0 kbd_empty) =
      hid_sent_zero\<lparr>hs_used := True\<rparr> # replicate 15 hid_sent_zero"
    by (simp add: dhp_hid_note_kbd_def dhp_hid_tracker_init_def kbd_empty_def hid_sent_zero_def dhp_consts numeral_eq_Suc)
  moreover have "\<not> slot_held hid_sent_zero" "\<not> slot_held (hid_sent_zero\<lparr>hs_used := True\<rparr>)" by code_simp+
  ultimately have "\<not> dhp_hid_any_held (dhp_hid_note_kbd (dhp_hid_note_kbd dhp_hid_tracker_init 0 k) 0 kbd_empty)"
    by (simp add: dhp_hid_any_held_def list_ex_iff)
  then show ?thesis using assms by (simp add: on_kbd_def hid_bridge_send_kbd_def)
qed

section \<open>The receive loop ends\<close>

text \<open>Handling a byte transmits, but reads nothing from the rings.\<close>

definition rx_rings :: "('c, 'f) firmware \<Rightarrow> ring_t list" where
  "rx_rings fw = map up_rx (fw_ports fw)"

lemma rx_rings_hook [simp]: "rx_rings (router_hook env e fw) = rx_rings fw"
proof (cases e)
  case (RTx tx)
  have "map up_rx (ps[i := board_uart_write d (ps ! i)]) = map up_rx ps" for ps d i
  proof (cases "i < length ps")
    case True
    then have "map up_rx (ps[i := board_uart_write d (ps ! i)]) = (map up_rx ps)[i := map up_rx ps ! i]"
      by (simp add: map_update board_uart_write_def)
    then show ?thesis by (simp only: list_update_id)
  qed (simp add: list_update_beyond)
  with RTx show ?thesis by (simp add: rx_rings_def on_tx_def upd_port_fw_def)
qed (simp_all add: rx_rings_def on_kbd_def on_mouse_def on_focus_def on_data_def refresh_led_def set_led_def Let_def)

lemma rx_rings_put_router [simp]: "rx_rings (put_router env r fw) = rx_rings fw"
proof -
  have "rx_rings (fold (router_hook env) es g) = rx_rings g" for es and g :: "('a, 'b) firmware" by (induction es arbitrary: g) simp_all
  then show ?thesis by (simp add: put_router_def) (simp add: rx_rings_def)
qed

lemma rx_rings_rx_byte: "fw_rx_byte env p b fw = Some fw' \<Longrightarrow> rx_rings fw' = rx_rings fw"
proof -
  have "rx_rings (g\<lparr>fw_pair := q\<rparr>) = rx_rings g" for g :: "('a, 'b) firmware" and q by (simp add: rx_rings_def)
  moreover assume "fw_rx_byte env p b fw = Some fw'"
  ultimately show ?thesis
    by (auto simp: fw_rx_byte_def call_router_def Let_def split: prod.splits sum.splits if_splits)
qed

definition rx_waiting :: "dhp_port_t \<Rightarrow> ('c, 'f) firmware \<Rightarrow> u8 list" where
  "rx_waiting p fw = ring_bytes (rx_rings fw ! port_index p)"

definition ports_ok :: "('c, 'f) firmware \<Rightarrow> bool" where
  "ports_ok fw \<longleftrightarrow> length (fw_ports fw) = DHP_PORT_COUNT \<and> (\<forall>r \<in> set (rx_rings fw). ring_inv r)"

lemma drain_port_next:
  assumes "ports_ok fw" "real_port p" "board_uart_read (fw_ports fw ! port_index p) = Some (b, port)"
  shows "ports_ok (upd_port_fw p (\<lambda>_. port) fw) \<and> rx_waiting p fw = b # rx_waiting p (upd_port_fw p (\<lambda>_. port) fw)"
proof -
  let ?q = "fw_ports fw ! port_index p"
  have i: "port_index p < length (fw_ports fw)" using assms(1,2) by (simp add: ports_ok_def)
  then have ri: "ring_inv (up_rx ?q)" using assms(1) by (simp add: ports_ok_def rx_rings_def)
  obtain r where r: "ring_pop (up_rx ?q) = Some (b, r)" "port = ?q\<lparr>up_rx := r\<rparr>" using assms(3) by (auto simp: board_uart_read_def)
  have "ring_bytes (up_rx ?q) \<noteq> []" using uart_ring.pop_empty [OF ri] r(1) by auto
  then obtain c cs where c: "ring_bytes (up_rx ?q) = c # cs" by (cases "ring_bytes (up_rx ?q)") auto
  from uart_ring.pop_first [OF ri c] r(1) have "ring_inv r" "ring_bytes r = cs" "c = b" by auto
  with c i r(2) assms(1) show ?thesis
    by (auto simp: ports_ok_def rx_waiting_def rx_rings_def upd_port_fw_def map_update dest!: set_update_subset_insert [THEN subsetD])
qed

lemma drain_port_empties:
  assumes "ports_ok fw" "real_port p" "length (rx_waiting p fw) \<le> n" "drain_port env p n fw = Some fw'"
  shows "rx_waiting p fw' = [] \<and> (\<forall>m \<ge> length (rx_waiting p fw). drain_port env p m fw = Some fw')"
  using assms(1,3,4)
proof (induction n arbitrary: fw)
  case 0
  then have "ring_bytes (up_rx (fw_ports fw ! port_index p)) = []" "port_index p < length (fw_ports fw)"
    using assms(2) by (simp_all add: rx_waiting_def rx_rings_def ports_ok_def)
  moreover have "ring_inv (up_rx (fw_ports fw ! port_index p))" using 0 calculation(2) by (simp add: ports_ok_def rx_rings_def)
  ultimately have "board_uart_read (fw_ports fw ! port_index p) = None" using uart_ring.pop_empty by (simp add: board_uart_read_def)
  then have "drain_port env p m fw = Some fw" for m by (cases m) simp_all
  with 0 show ?case by simp
next
  case (Suc n)
  show ?case
  proof (cases "board_uart_read (fw_ports fw ! port_index p)")
    case None
    have i: "port_index p < length (fw_ports fw)" using Suc.prems(1) assms(2) by (simp add: ports_ok_def)
    then have ri: "ring_inv (up_rx (fw_ports fw ! port_index p))" using Suc.prems(1) by (simp add: ports_ok_def rx_rings_def)
    have "ring_bytes (up_rx (fw_ports fw ! port_index p)) = []"
      using None uart_ring.pop_first [OF ri] by (cases "ring_bytes (up_rx (fw_ports fw ! port_index p))") (auto simp: board_uart_read_def)
    moreover have "drain_port env p m fw = Some fw" for m using None by (cases m) simp_all
    ultimately show ?thesis using Suc.prems(3) None i by (simp add: rx_waiting_def rx_rings_def)
  next
    case (Some x)
    obtain b port where x: "x = (b, port)" by fastforce
    let ?u = "upd_port_fw p (\<lambda>_. port) fw"
    note nx = drain_port_next [OF Suc.prems(1) assms(2) Some [unfolded x]]
    obtain y where y: "fw_rx_byte env p b ?u = Some y" "drain_port env p n y = Some fw'"
      using Suc.prems(3) Some x by (auto simp: bind_eq_Some_conv)
    have r: "rx_rings y = rx_rings ?u" using rx_rings_rx_byte [OF y(1)] .
    have len: "length (fw_ports y) = length (fw_ports ?u)" using arg_cong [OF r, of length] by (simp add: rx_rings_def)
    have "ports_ok y" "rx_waiting p y = rx_waiting p ?u" using nx r len by (simp_all add: ports_ok_def rx_waiting_def)
    with Suc.IH [of y] y(2) nx Suc.prems(2)
    have h: "rx_waiting p fw' = []" "\<forall>m \<ge> length (rx_waiting p ?u). drain_port env p m y = Some fw'" by simp_all
    have "drain_port env p m fw = Some fw'" if m: "length (rx_waiting p fw) \<le> m" for m
    proof -
      obtain k where k: "m = Suc k" "length (rx_waiting p ?u) \<le> k" using m nx by (cases m) auto
      with h(2) Some x y(1) show ?thesis by simp
    qed
    with h(1) show ?thesis by blast
  qed
qed


text \<open>A board with one byte of line noise waiting.\<close>

definition demo_noise :: "(nat, u8 list) firmware" where
  "demo_noise = upd_port_fw DHP_PORT_UP (\<lambda>port. fst (port_isr 0 [5] 0 port)) (fw_init demo_flash (demo_crypto 3) 7 demo_sector)"

lemma demo_noise_port:
  "fw_ports demo_noise ! 0 = fst (port_isr 0 [5] 0 uart_port_zero)" "length (fw_ports demo_noise) = 2"
  "rx_rings demo_noise = [fst (ring_push ring_zero 5), ring_zero]"
proof -
  have p: "fw_ports (fw_init dev c u f) = [uart_port_zero, uart_port_zero]" for dev and c :: "nat dhp_crypto_t" and u and f :: "u8 list"
    by (simp add: fw_init_def Let_def DHP_PORT_COUNT_def numeral_2_eq_2)
  show "fw_ports demo_noise ! 0 = fst (port_isr 0 [5] 0 uart_port_zero)" "length (fw_ports demo_noise) = 2"
    by (simp_all add: demo_noise_def upd_port_fw_def p)
  show "rx_rings demo_noise = [fst (ring_push ring_zero 5), ring_zero]"
    by (simp add: demo_noise_def upd_port_fw_def p rx_rings_def port_isr_def) (simp add: uart_port_zero_def)
qed

lemma noise_byte:
  assumes "\<not> fm_in_frame (lp_framer (port_of (rt_link (fw_router fw)) p))" "b \<noteq> DHP_FLAG"
  shows "fw_rx_byte env p b fw \<noteq> None"
proof -
  have "\<exists>l tx e. dhp_link_rx_byte (rt_link (fw_router fw)) p b (en_now env) = (l, tx, Inl e)"
    using assms by (auto simp: dhp_link_rx_byte_def dhp_framer_push_def Let_def)
  then show ?thesis by (auto simp: fw_rx_byte_def Let_def)
qed


end
