(* ===== verification/Dhp_Text.thy ===== *)
theory Dhp_Text
  imports Dhp_Prelude
begin

text \<open>
  The C library's text functions, as far as the hosted programs (the coordinator and the client)
  use them: \<^verbatim>\<open>fgets\<close>, \<^verbatim>\<open>strchr\<close>, \<^verbatim>\<open>strtol\<close> and \<^verbatim>\<open>strtoul\<close>, \<^verbatim>\<open>strcasecmp\<close>, \<^verbatim>\<open>strtok\<close>, and
  \<^verbatim>\<open>snprintf\<close> with \<^verbatim>\<open>%s\<close>, \<^verbatim>\<open>%u\<close>, \<^verbatim>\<open>%d\<close> and \<^verbatim>\<open>%02x\<close>.  A C string is the list of its characters before
  the terminating NUL, in the C locale; \<^verbatim>\<open>long\<close> is 64 bits wide, and number prefixes are those of C17.
  The lemmas are the ones the readers and writers of text share: numbers survive printing and reading,
  lines survive concatenation and splitting.
\<close>

section \<open>Characters and buffers\<close>

abbreviation NUL :: char where "NUL \<equiv> CHR 0x00"

abbreviation NL :: char where "NL \<equiv> CHR 0x0A"

definition cstr :: "string \<Rightarrow> string" where
  "cstr buf = takeWhile (\<lambda>c. c \<noteq> NUL) buf"

definition snprintf_str :: "nat \<Rightarrow> string \<Rightarrow> string" where
  "snprintf_str cap s = take (cap - 1) s"

definition is_blank :: "char \<Rightarrow> bool" where
  "is_blank c \<longleftrightarrow> c = CHR '' '' \<or> c = CHR 0x09"

definition is_space :: "char \<Rightarrow> bool" where
  "is_space c \<longleftrightarrow> c \<in> {CHR '' '', CHR 0x09, CHR 0x0A, CHR 0x0B, CHR 0x0C, CHR 0x0D}"

definition tolower :: "char \<Rightarrow> char" where
  "tolower c = (if 65 \<le> (of_char c :: nat) \<and> (of_char c :: nat) \<le> 90 then char_of ((of_char c :: nat) + 32) else c)"

definition strcaseeq :: "string \<Rightarrow> string \<Rightarrow> bool" where
  "strcaseeq a b \<longleftrightarrow> map tolower a = map tolower b"

text \<open>\<^verbatim>\<open>strchr\<close> at the first \<open>c\<close>: the text before it, and the text after it if there is one.\<close>

definition before_char :: "char \<Rightarrow> string \<Rightarrow> string" where
  "before_char c s = takeWhile (\<lambda>x. x \<noteq> c) s"

definition after_char :: "char \<Rightarrow> string \<Rightarrow> string option" where
  "after_char c s = (case dropWhile (\<lambda>x. x \<noteq> c) s of [] \<Rightarrow> None | _ # r \<Rightarrow> Some r)"

section \<open>Lines\<close>

text \<open>\<^verbatim>\<open>fgets\<close> into a buffer with room for \<open>n\<close> characters and the NUL.\<close>

fun fgets_aux :: "nat \<Rightarrow> string \<Rightarrow> string \<times> string" where
  "fgets_aux 0 s = ([], s)"
| "fgets_aux (Suc n) [] = ([], [])"
| "fgets_aux (Suc n) (c # s) =
     (if c = NL then ([c], s) else (case fgets_aux n s of (l, r) \<Rightarrow> (c # l, r)))"

lemma fgets_aux_split: "fgets_aux n s = (l, r) \<Longrightarrow> s = l @ r \<and> length l \<le> n"
  by (induction n s arbitrary: l r rule: fgets_aux.induct) (auto split: if_splits prod.splits)

lemma fgets_aux_nonempty: "fgets_aux (Suc n) (c # s) = (l, r) \<Longrightarrow> length r < length (c # s)"
  by (auto split: if_splits prod.splits dest: fgets_aux_split)

lemma fgets_shorter:
  assumes "s \<noteq> []" "\<not> cap < 2" "fgets_aux (cap - 1) s = (l, r)"
  shows "length r < length s"
proof -
  have "cap - 1 = Suc (cap - 2)" using assms(2) by simp
  with assms show ?thesis using fgets_aux_nonempty[of "cap - 2" "hd s" "tl s" l r] by simp
qed

text \<open>The lines a loop over \<^verbatim>\<open>fgets(line, cap, f)\<close> sees.\<close>

function fgets_lines :: "nat \<Rightarrow> string \<Rightarrow> string list" where
  "fgets_lines cap s =
     (if s = [] \<or> cap < 2 then []
      else case fgets_aux (cap - 1) s of (l, r) \<Rightarrow> l # fgets_lines cap r)"
  by pat_completeness auto
termination
  by (relation "measure (\<lambda>(cap, s). length s)") (auto dest: fgets_shorter[OF _ _ sym])

declare fgets_lines.simps [simp del]

section \<open>Numbers\<close>

definition digit_val :: "char \<Rightarrow> nat option" where
  "digit_val c = (let n = of_char c in
     if 48 \<le> n \<and> n \<le> 57 then Some (n - 48)
     else if 97 \<le> n \<and> n \<le> 122 then Some (n - 87)
     else if 65 \<le> n \<and> n \<le> 90 then Some (n - 55)
     else None)"

definition is_digit :: "nat \<Rightarrow> char \<Rightarrow> bool" where
  "is_digit base c = (case digit_val c of Some d \<Rightarrow> d < base | None \<Rightarrow> False)"

definition digits_val :: "nat \<Rightarrow> string \<Rightarrow> nat" where
  "digits_val base s = fold (\<lambda>c acc. acc * base + the (digit_val c)) s 0"

definition has_hex_prefix :: "string \<Rightarrow> bool" where
  "has_hex_prefix s \<longleftrightarrow> (case s of z # x # d # _ \<Rightarrow>
     z = CHR ''0'' \<and> (x = CHR ''x'' \<or> x = CHR ''X'') \<and> is_digit 16 d | _ \<Rightarrow> False)"

definition strto_base :: "nat \<Rightarrow> string \<Rightarrow> nat \<times> string" where
  "strto_base base s =
     (if (base = 0 \<or> base = 16) \<and> has_hex_prefix s then (16, drop 2 s)
      else if base = 0 then (if s \<noteq> [] \<and> hd s = CHR ''0'' then 8 else 10, s)
      else (base, s))"

definition strto_sign :: "string \<Rightarrow> bool \<times> string" where
  "strto_sign s = (case s of c # r \<Rightarrow> if c = CHR ''-'' then (True, r) else if c = CHR ''+'' then (False, r)
     else (False, s) | [] \<Rightarrow> (False, []))"

text \<open>
  The subject sequence of the \<^verbatim>\<open>strto*\<close> functions: sign, magnitude, and where \<^verbatim>\<open>end\<close> points.  When there
  are no digits nothing is converted: the value is 0 and \<^verbatim>\<open>end\<close> points at the whole input.
\<close>

definition strto :: "nat \<Rightarrow> string \<Rightarrow> bool \<times> nat \<times> string" where
  "strto base s = (let (neg, s1) = strto_sign (dropWhile is_space s);
        (b, s2) = strto_base base s1;
        ds = takeWhile (is_digit b) s2
      in if ds = [] then (False, 0, s) else (neg, digits_val b ds, dropWhile (is_digit b) s2))"

definition LONG_MAX :: int where "LONG_MAX = 2 ^ 63 - 1"

definition LONG_MIN :: int where "LONG_MIN = - (2 ^ 63)"

definition strtol :: "nat \<Rightarrow> string \<Rightarrow> int \<times> string" where
  "strtol base s = (case strto base s of (neg, m, r) \<Rightarrow>
     (max LONG_MIN (min LONG_MAX (if neg then - int m else int m)), r))"

definition strtoul :: "nat \<Rightarrow> string \<Rightarrow> u64 \<times> string" where
  "strtoul base s = (case strto base s of (neg, m, r) \<Rightarrow>
     (if 2 ^ 64 \<le> m then - 1 else if neg then - of_nat m else of_nat m, r))"

definition digit_char :: "nat \<Rightarrow> char" where
  "digit_char d = char_of (if d < 10 then 48 + d else 87 + d)"

function show_base :: "nat \<Rightarrow> nat \<Rightarrow> string" where
  "show_base b n = (if b < 2 \<or> n < b then [digit_char n]
     else show_base b (n div b) @ [digit_char (n mod b)])"
  by pat_completeness auto
termination by (relation "measure snd") (auto intro!: div_less_dividend)

declare show_base.simps [simp del]

definition show_u :: "nat \<Rightarrow> string" where
  "show_u n = show_base 10 n"

definition show_d :: "int \<Rightarrow> string" where
  "show_d i = (if i < 0 then CHR ''-'' # show_u (nat (- i)) else show_u (nat i))"

text \<open>\<^verbatim>\<open>%0<w>x\<close> and \<^verbatim>\<open>%0<w>u\<close>: zero padded to at least \<open>w\<close> digits.\<close>

definition pad0 :: "nat \<Rightarrow> string \<Rightarrow> string" where
  "pad0 w s = replicate (w - length s) (CHR ''0'') @ s"

section \<open>Words of a line\<close>

text \<open>\<^verbatim>\<open>strtok\<close> with the delimiters of the control socket: the next word and what is left after it.\<close>

definition is_delim :: "char \<Rightarrow> bool" where
  "is_delim c \<longleftrightarrow> c \<in> {CHR '' '', CHR 0x09, NL}"

definition strtok :: "string \<Rightarrow> (string \<times> string) option" where
  "strtok s = (let t = dropWhile is_delim s in
     if t = [] then None
     else Some (takeWhile (\<lambda>c. \<not> is_delim c) t, drop 1 (dropWhile (\<lambda>c. \<not> is_delim c) t)))"

section \<open>Lines survive splitting\<close>

definition text_line :: "nat \<Rightarrow> string \<Rightarrow> bool" where
  "text_line cap l \<longleftrightarrow> length l < cap \<and> l \<noteq> [] \<and> last l = NL \<and> NL \<notin> set (butlast l)"

lemma fgets_aux_line: "NL \<notin> set l \<Longrightarrow> length l < n \<Longrightarrow> fgets_aux n (l @ NL # r) = (l @ [NL], r)"
proof (induction l arbitrary: n)
  case Nil
  then show ?case by (cases n) auto
next
  case (Cons c l)
  then show ?case by (cases n) auto
qed

lemma fgets_lines_Cons:
  assumes "text_line cap l"
  shows "fgets_lines cap (l @ r) = l # fgets_lines cap r"
proof -
  have l: "l = butlast l @ [NL]" using assms by (metis append_butlast_last_id text_line_def)
  moreover have "length (butlast l) < cap - 1"
    using assms by (cases l rule: rev_cases) (auto simp: text_line_def)
  ultimately have "fgets_aux (cap - 1) (l @ r) = (l, r)"
    using fgets_aux_line[of "butlast l" "cap - 1" r] assms
    by (metis append.assoc append_Cons append_Nil text_line_def)
  moreover have "2 \<le> cap" using assms by (cases l) (auto simp: text_line_def)
  moreover have "l \<noteq> []" using assms by (simp add: text_line_def)
  ultimately show ?thesis by (subst fgets_lines.simps) simp
qed

lemma fgets_lines_Nil [simp]: "fgets_lines cap [] = []"
  by (subst fgets_lines.simps) simp

lemma fgets_lines_concat: "list_all (text_line cap) ls \<Longrightarrow> fgets_lines cap (concat ls) = ls"
  by (induction ls) (simp_all add: fgets_lines_Cons)

lemma fgets_lines_length: "l \<in> set (fgets_lines cap s) \<Longrightarrow> length l < cap"
proof (induction cap s rule: fgets_lines.induct)
  case (1 cap s)
  from "1.prems" show ?case
    by (subst (asm) fgets_lines.simps)
      (auto split: if_splits prod.splits dest: fgets_aux_split[OF sym] intro: "1.IH")
qed

section \<open>Numbers survive printing\<close>

lemma char_code: "n < 256 \<Longrightarrow> (of_char (char_of n :: char) :: nat) = n"
  by (simp add: of_char_of)

lemma digit_val_char: "d < 16 \<Longrightarrow> digit_val (digit_char d) = Some d"
  by (auto simp: digit_val_def digit_char_def char_code Let_def)

lemma is_digit_char: "d < b \<Longrightarrow> b \<le> 16 \<Longrightarrow> is_digit b (digit_char d)"
  by (simp add: is_digit_def digit_val_char)

lemma digits_val_snoc: "digits_val b (s @ [c]) = digits_val b s * b + the (digit_val c)"
  by (simp add: digits_val_def)

lemma show_base_ok:
  assumes "2 \<le> b" "b \<le> 16"
  shows "digits_val b (show_base b n) = n \<and> list_all (is_digit b) (show_base b n) \<and> show_base b n \<noteq> []"
proof (induction n rule: less_induct)
  case (less n)
  show ?case
  proof (cases "n < b")
    case True
    with assms show ?thesis
      by (subst (1 2 3) show_base.simps) (simp add: digits_val_def digit_val_char is_digit_char)
  next
    case False
    then have "n div b < n" using assms by (intro div_less_dividend) auto
    from less[OF this] False assms show ?thesis
      by (subst (1 2 3) show_base.simps)
        (simp add: digits_val_snoc digit_val_char is_digit_char mod_less_divisor[THEN less_le_trans])
  qed
qed

lemma show_base_hd:
  assumes "2 \<le> b" "b \<le> 16" "0 < n"
  shows "\<exists>d. 0 < d \<and> d < b \<and> hd (show_base b n) = digit_char d"
  using assms(3)
proof (induction n rule: less_induct)
  case (less n)
  show ?case
  proof (cases "n < b")
    case True
    with less.prems show ?thesis by (subst show_base.simps) auto
  next
    case False
    then have "n div b < n" "0 < n div b" using assms by (auto intro!: div_less_dividend simp: div_greater_zero_iff)
    from less.IH[OF this] False assms show_base_ok[OF assms(1,2), of "n div b"] show ?thesis
      by (subst show_base.simps) auto
  qed
qed

lemma show_base_0 [simp]: "show_base 10 0 = ''0''" "show_base 16 0 = ''0''"
  by (subst show_base.simps, simp, code_simp)+

lemma show_base_length: "2 \<le> b \<Longrightarrow> n < b ^ k \<Longrightarrow> 0 < k \<Longrightarrow> length (show_base b n) \<le> k"
proof (induction k arbitrary: n)
  case (Suc k)
  show ?case
  proof (cases "n < b")
    case True
    then show ?thesis by (subst show_base.simps) simp
  next
    case False
    then have "0 < k" using Suc.prems(2) by (cases k) auto
    moreover have "n div b < b ^ k" using Suc.prems by (simp add: less_mult_imp_div_less mult.commute)
    ultimately have "length (show_base b (n div b)) \<le> k" using Suc by simp
    with False show ?thesis by (subst show_base.simps) simp
  qed
qed simp

lemma takeWhile_all: "list_all P s \<Longrightarrow> takeWhile P s = s" "list_all P s \<Longrightarrow> dropWhile P s = []"
  by (auto simp: list_all_iff)

lemma digit_not_space: "is_digit b c \<Longrightarrow> \<not> is_space c \<and> c \<noteq> CHR ''-'' \<and> c \<noteq> CHR ''+''"
  by (auto simp: is_digit_def is_space_def digit_val_def Let_def)

lemma digit10_alpha: "is_digit 10 c \<Longrightarrow> c \<noteq> CHR ''x'' \<and> c \<noteq> CHR ''X''"
  by (auto simp: is_digit_def digit_val_def Let_def)

text \<open>A number with no sign in front of it, in the base that its first characters announce.\<close>

lemma strto_digits:
  assumes "list_all (is_digit b) ds" "ds \<noteq> []" "strto_base 0 s = (b, ds)" "s \<noteq> []"
    "is_digit 10 (hd s)"
  shows "strto 0 s = (False, digits_val b ds, [])"
proof -
  have "dropWhile is_space s = s" using assms(4,5) digit_not_space[of 10 "hd s"] by (cases s) auto
  moreover have "strto_sign s = (False, s)"
    using assms(4,5) digit_not_space[of 10 "hd s"] by (cases s) (auto simp: strto_sign_def)
  ultimately show ?thesis using assms by (simp add: strto_def takeWhile_all)
qed

lemma digit_char_nonzero: "0 < d \<Longrightarrow> d < 10 \<Longrightarrow> digit_char d \<noteq> CHR ''0''"
  by (auto simp: digit_char_def dest!: arg_cong[where f = "of_char :: char \<Rightarrow> nat"] simp: char_code)

lemma strto_show_u: "strto 0 (show_u n) = (False, n, [])"
proof (cases "n = 0")
  case True
  then show ?thesis by (simp add: show_u_def) code_simp
next
  case False
  let ?s = "show_base 10 n"
  have ok: "digits_val 10 ?s = n" "list_all (is_digit 10) ?s" "?s \<noteq> []"
    using show_base_ok[of 10 n] by auto
  from False obtain d where "0 < d" "d < 10" "hd ?s = digit_char d"
    using show_base_hd[of 10 n] by auto
  then have "hd ?s \<noteq> CHR ''0''" using digit_char_nonzero by simp
  then have "strto_base 0 ?s = (10, ?s)"
    using ok(3) by (auto simp: strto_base_def has_hex_prefix_def split: list.splits)
  moreover have "is_digit 10 (hd ?s)" using ok(2,3) by (cases ?s) auto
  ultimately show ?thesis using strto_digits[of 10 ?s ?s] ok by (simp add: show_u_def)
qed

lemma digits_val_pad0: "digits_val b (pad0 w s) = digits_val b s"
proof -
  have "fold (\<lambda>c acc. acc * b + the (digit_val c)) (replicate k (CHR ''0'')) 0 = 0" for k
    by (induction k) (simp_all add: digit_val_def)
  then show ?thesis by (simp add: digits_val_def pad0_def)
qed

lemma pad0_digits: "2 \<le> b \<Longrightarrow> list_all (is_digit b) s \<Longrightarrow> list_all (is_digit b) (pad0 w s)"
  by (auto simp: pad0_def list_all_iff is_digit_def digit_val_def)

lemma strto_show_hex: "strto 0 (''0x'' @ pad0 w (show_base 16 n)) = (False, n, [])"
proof -
  let ?s = "pad0 w (show_base 16 n)"
  have ok: "digits_val 16 ?s = n" "list_all (is_digit 16) ?s" "?s \<noteq> []"
    using show_base_ok[of 16 n] by (auto simp: digits_val_pad0 pad0_digits) (simp add: pad0_def)
  then have "strto_base 0 (''0x'' @ ?s) = (16, ?s)"
    by (cases ?s) (auto simp: strto_base_def has_hex_prefix_def)
  then show ?thesis
    using strto_digits[of 16 ?s "''0x'' @ ?s"] ok by (simp add: is_digit_def digit_val_def)
qed

lemma strtol_show_u: "int n \<le> LONG_MAX \<Longrightarrow> strtol 0 (show_u n) = (int n, [])"
  by (simp add: strtol_def strto_show_u LONG_MIN_def)

lemma strtol_show_hex: "int n \<le> LONG_MAX \<Longrightarrow> strtol 0 (''0x'' @ pad0 w (show_base 16 n)) = (int n, [])"
  unfolding strtol_def strto_show_hex by (simp add: LONG_MIN_def)

lemma strtol_show_d: "0 \<le> i \<Longrightarrow> i \<le> LONG_MAX \<Longrightarrow> strtol 0 (show_d i) = (i, [])"
  by (simp add: show_d_def strtol_show_u)

lemma show_u_length: "n < 10 ^ k \<Longrightarrow> 0 < k \<Longrightarrow> length (show_u n) \<le> k"
  by (simp add: show_u_def show_base_length)

end
