(* ===== verification/Dhp_Config.thy ===== *)
theory Dhp_Config
  imports Dhp_Text Dhp_Pointer Dhp_Uhrp
begin

text \<open>
  The coordinator's configuration, \<^verbatim>\<open>coordinator/src/config.c\<close>: the defaults, one key set from a string,
  the file reader and writer, and the chain key's file.  Files live in a map from paths to contents and
  permission bits; what the operating system decides (an open, write, close or rename that fails, and where
  standard I/O flushes) is an argument of the operations that call it, and an operation returns every state
  of the file system it passes through, so a power cut is any of them.
\<close>

section \<open>The configuration and its defaults\<close>

record coord_config_t =
  cc_serial_dev :: string
  cc_link_baud :: u32
  cc_at_head :: bool
  cc_i2c_dev :: string
  cc_i2c_addr :: u8
  cc_headless :: bool
  cc_timing :: dhp_uhrp_timing_t
  cc_pointer :: dhp_pointer_cfg_t
  cc_key_path :: string
  cc_ctl_path :: string

definition coord_config_defaults :: coord_config_t where
  "coord_config_defaults =
     \<lparr>cc_serial_dev = snprintf_str 128 ''/dev/serial0'', cc_link_baud = 2000000, cc_at_head = False,
      cc_i2c_dev = snprintf_str 128 ''/dev/i2c-1'', cc_i2c_addr = 0x3C, cc_headless = False,
      cc_timing = DHP_UHRP_TIMING_DEFAULT, cc_pointer = DHP_POINTER_CFG_DEFAULT,
      cc_key_path = snprintf_str 256 ''/var/lib/deskhop/chain.key'',
      cc_ctl_path = snprintf_str 256 ''/run/deskhop-coord.sock''\<rparr>"

section \<open>One key from a string\<close>

definition trim_end :: "char \<Rightarrow> bool" where
  "trim_end c \<longleftrightarrow> c = CHR '' '' \<or> c = CHR 0x09 \<or> c = NL \<or> c = CHR 0x0D"

definition trim :: "string \<Rightarrow> string" where
  "trim s = rev (dropWhile trim_end (rev (dropWhile is_blank s)))"

definition parse_bool :: "string \<Rightarrow> bool option" where
  "parse_bool v =
     (if v = ''1'' \<or> strcaseeq v ''true'' \<or> strcaseeq v ''yes'' then Some True
      else if v = ''0'' \<or> strcaseeq v ''false'' \<or> strcaseeq v ''no'' then Some False
      else None)"

datatype config_error =
    MustBe string int int
  | MustBeBool string
  | UnknownKey string

definition u32_key :: "string \<Rightarrow> int \<Rightarrow> int \<Rightarrow> string \<Rightarrow> (int \<Rightarrow> coord_config_t) \<Rightarrow> config_error + coord_config_t" where
  "u32_key name lo hi value set_field = (case strtol 0 value of (v, end) \<Rightarrow>
     if end \<noteq> [] \<or> v < lo \<or> hi < v then Inl (MustBe name lo hi) else Inr (set_field v))"

definition bool_key :: "string \<Rightarrow> string \<Rightarrow> (bool \<Rightarrow> coord_config_t) \<Rightarrow> config_error + coord_config_t" where
  "bool_key name value set_field = (case parse_bool value of
     None \<Rightarrow> Inl (MustBeBool name) | Some b \<Rightarrow> Inr (set_field b))"

definition set_timing :: "coord_config_t \<Rightarrow> (dhp_uhrp_timing_t \<Rightarrow> dhp_uhrp_timing_t) \<Rightarrow> coord_config_t" where
  "set_timing c f = c\<lparr>cc_timing := f (cc_timing c)\<rparr>"

definition set_pointer :: "coord_config_t \<Rightarrow> (dhp_pointer_cfg_t \<Rightarrow> dhp_pointer_cfg_t) \<Rightarrow> coord_config_t" where
  "set_pointer c f = c\<lparr>cc_pointer := f (cc_pointer c)\<rparr>"

definition coord_config_set :: "coord_config_t \<Rightarrow> string \<Rightarrow> string \<Rightarrow> config_error + coord_config_t" where
  "coord_config_set c key value =
    (if key = ''serial_dev'' then Inr (c\<lparr>cc_serial_dev := snprintf_str 128 value\<rparr>)
     else if key = ''i2c_dev'' then Inr (c\<lparr>cc_i2c_dev := snprintf_str 128 value\<rparr>)
     else if key = ''key_path'' then Inr (c\<lparr>cc_key_path := snprintf_str 256 value\<rparr>)
     else if key = ''ctl_path'' then Inr (c\<lparr>cc_ctl_path := snprintf_str 256 value\<rparr>)
     else if key = ''link_baud'' then
       u32_key key 115200 4000000 value (\<lambda>v. c\<lparr>cc_link_baud := word_of_int v\<rparr>)
     else if key = ''i2c_addr'' then
       u32_key key 0x03 0x77 value (\<lambda>v. c\<lparr>cc_i2c_addr := word_of_int v\<rparr>)
     else if key = ''at_head'' then bool_key key value (\<lambda>b. c\<lparr>cc_at_head := b\<rparr>)
     else if key = ''headless'' then bool_key key value (\<lambda>b. c\<lparr>cc_headless := b\<rparr>)
     else if key = ''hello_ms'' then
       u32_key key 10 1000 value (\<lambda>v. set_timing c (\<lambda>t. t\<lparr>ut_hello_ms := word_of_int v\<rparr>))
     else if key = ''hold_ms'' then
       u32_key key 30 3000 value (\<lambda>v. set_timing c (\<lambda>t. t\<lparr>ut_hold_ms := word_of_int v\<rparr>))
     else if key = ''handover_defer_max_ms'' then
       u32_key key 100 30000 value (\<lambda>v. set_timing c (\<lambda>t. t\<lparr>ut_handover_defer_max_ms := word_of_int v\<rparr>))
     else if key = ''pointer_span'' then
       u32_key key 500 100000 value (\<lambda>v. set_pointer c (\<lambda>p. p\<lparr>pc_span := v\<rparr>))
     else if key = ''pointer_push'' then
       u32_key key 50 10000 value (\<lambda>v. set_pointer c (\<lambda>p. p\<lparr>pc_push_threshold := v\<rparr>))
     else if key = ''pointer_decay'' then
       u32_key key 0 100 value (\<lambda>v. set_pointer c (\<lambda>p. p\<lparr>pc_push_decay_per_ms := v\<rparr>))
     else if key = ''pointer_guard'' then
       u32_key key 0 50000 value (\<lambda>v. set_pointer c (\<lambda>p. p\<lparr>pc_reentry_guard := v\<rparr>))
     else if key = ''pointer_vertical'' then
       bool_key key value (\<lambda>b. set_pointer c (\<lambda>p. p\<lparr>pc_vertical_enabled := b\<rparr>))
     else Inl (UnknownKey key))"

section \<open>Reading the file\<close>

datatype complaint =
    ExpectedKeyValue nat
  | Ignored nat config_error

definition load_line :: "nat \<Rightarrow> string \<Rightarrow> coord_config_t \<Rightarrow> coord_config_t \<times> complaint list" where
  "load_line lineno line c =
     (let s = trim (before_char (CHR ''#'') (cstr line)) in
      if s = [] then (c, [])
      else case after_char (CHR ''='') s of
        None \<Rightarrow> (c, [ExpectedKeyValue lineno])
      | Some v \<Rightarrow> (case coord_config_set c (trim (before_char (CHR ''='') s)) (trim v) of
            Inl e \<Rightarrow> (c, [Ignored lineno e])
          | Inr c' \<Rightarrow> (c', [])))"

fun load_lines :: "nat \<Rightarrow> string list \<Rightarrow> coord_config_t \<Rightarrow> coord_config_t \<times> complaint list" where
  "load_lines n [] c = (c, [])"
| "load_lines n (l # ls) c =
     (case load_line (n + 1) l c of (c1, e1) \<Rightarrow>
        case load_lines (n + 1) ls c1 of (c2, e2) \<Rightarrow> (c2, e1 @ e2))"

datatype fopen_result =
    Opened string
  | NoEntry
  | OpenError

definition coord_config_load :: "coord_config_t \<Rightarrow> fopen_result \<Rightarrow> unit + coord_config_t \<times> complaint list" where
  "coord_config_load c f = (case f of
      NoEntry \<Rightarrow> Inr (c, [])
    | OpenError \<Rightarrow> Inl ()
    | Opened text \<Rightarrow> Inr (load_lines 0 (fgets_lines 512 text) c))"

section \<open>The file system\<close>

record 'a host_file =
  f_mode :: u16
  f_data :: "'a list"

type_synonym 'a fs = "string \<Rightarrow> 'a host_file option"

definition fs_create :: "u16 \<Rightarrow> string \<Rightarrow> 'a fs \<Rightarrow> 'a fs" where
  "fs_create mode p s = s(p \<mapsto> (case s p of
     Some f \<Rightarrow> f\<lparr>f_data := []\<rparr> | None \<Rightarrow> \<lparr>f_mode = mode, f_data = []\<rparr>))"

definition fs_fill :: "string \<Rightarrow> 'a list \<Rightarrow> 'a fs \<Rightarrow> 'a fs" where
  "fs_fill p d s = s(p := map_option (\<lambda>f. f\<lparr>f_data := d\<rparr>) (s p))"

definition fs_rename :: "string \<Rightarrow> string \<Rightarrow> 'a fs \<Rightarrow> 'a fs" where
  "fs_rename a b s = (if a = b then s else (s(b := s a))(a := None))"

definition fs_unlink :: "string \<Rightarrow> 'a fs \<Rightarrow> 'a fs" where
  "fs_unlink p s = s(p := None)"

definition fopen_read :: "char fs \<Rightarrow> string \<Rightarrow> fopen_result" where
  "fopen_read s p = (case s p of None \<Rightarrow> NoEntry | Some f \<Rightarrow> Opened (f_data f))"

definition tmp_path :: "string \<Rightarrow> string" where
  "tmp_path path = snprintf_str 512 (path @ ''.tmp'')"

section \<open>Writing the file\<close>

definition show_bool :: "bool \<Rightarrow> string" where
  "show_bool b = (if b then ''true'' else ''false'')"

definition kv :: "string \<Rightarrow> string \<Rightarrow> string" where
  "kv k v = k @ '' = '' @ v @ [NL]"

text \<open>The lines \<^verbatim>\<open>coord_config_save\<close> prints, in its order.\<close>

definition config_lines :: "coord_config_t \<Rightarrow> string list" where
  "config_lines c =
    [''# deskhop coordinator configuration'' @ [NL],
     ''# written automatically; edits are preserved on next save'' @ [NL], [NL],
     kv ''serial_dev'' (cc_serial_dev c),
     kv ''link_baud'' (show_u (unat (cc_link_baud c))),
     kv ''at_head'' (show_bool (cc_at_head c)),
     [NL], kv ''i2c_dev'' (cc_i2c_dev c),
     kv ''i2c_addr'' (''0x'' @ pad0 2 (show_base 16 (unat (cc_i2c_addr c)))),
     kv ''headless'' (show_bool (cc_headless c)),
     [NL], kv ''hello_ms'' (show_u (unat (ut_hello_ms (cc_timing c)))),
     kv ''hold_ms'' (show_u (unat (ut_hold_ms (cc_timing c)))),
     kv ''handover_defer_max_ms'' (show_u (unat (ut_handover_defer_max_ms (cc_timing c)))),
     [NL], kv ''pointer_span'' (show_d (pc_span (cc_pointer c))),
     kv ''pointer_push'' (show_d (pc_push_threshold (cc_pointer c))),
     kv ''pointer_decay'' (show_d (pc_push_decay_per_ms (cc_pointer c))),
     kv ''pointer_guard'' (show_d (pc_reentry_guard (cc_pointer c))),
     kv ''pointer_vertical'' (show_bool (pc_vertical_enabled (cc_pointer c))),
     [NL], kv ''key_path'' (cc_key_path c),
     kv ''ctl_path'' (cc_ctl_path c)]"

definition config_text :: "coord_config_t \<Rightarrow> string" where
  "config_text c = concat (config_lines c)"

datatype save_error = SaveOpen string | SaveWrite string | SaveRename

text \<open>What the system does: whether each call succeeds, the umask, and after how many characters standard
  I/O flushes what has been printed so far.\<close>

record save_io =
  io_umask :: u16
  io_open :: bool
  io_flush :: "nat list"
  io_close :: bool
  io_rename :: bool

definition coord_config_save ::
    "save_io \<Rightarrow> coord_config_t \<Rightarrow> string \<Rightarrow> char fs \<Rightarrow> (save_error + unit) \<times> char fs list" where
  "coord_config_save io c path s =
     (let tmp = tmp_path path in
      if \<not> io_open io then (Inl (SaveOpen tmp), [s])
      else let s1 = fs_create (0x1B6 AND NOT (io_umask io)) tmp s;
               part = map (\<lambda>n. fs_fill tmp (take n (config_text c)) s1) (io_flush io)
        in if \<not> io_close io then (Inl (SaveWrite tmp), [s, s1] @ part)
           else let s2 = fs_fill tmp (config_text c) s1
             in if \<not> io_rename io then (Inl SaveRename, [s, s1] @ part @ [s2])
                else (Inr (), [s, s1] @ part @ [s2, fs_rename tmp path s2]))"

section \<open>The chain key's file\<close>

definition coord_key_load :: "string \<Rightarrow> u8 fs \<Rightarrow> u8 list option" where
  "coord_key_load path s = (case s path of
      None \<Rightarrow> None
    | Some f \<Rightarrow> if length (take 16 (f_data f)) = 16 then Some (take 16 (f_data f)) else None)"

datatype key_error = KeyOpen string | KeyWrite | KeyRename

text \<open>\<open>ko_written\<close> is how many of the 16 bytes \<^verbatim>\<open>write\<close> took (0 when it failed).\<close>

record key_io =
  ko_umask :: u16
  ko_open :: bool
  ko_written :: nat
  ko_rename :: bool

definition coord_key_save ::
    "key_io \<Rightarrow> string \<Rightarrow> u8 list \<Rightarrow> u8 fs \<Rightarrow> (key_error + unit) \<times> u8 fs list" where
  "coord_key_save io path key s =
     (let tmp = tmp_path path in
      if \<not> ko_open io then (Inl (KeyOpen tmp), [s])
      else let s1 = fs_create (0x180 AND NOT (ko_umask io)) tmp s;
               s2 = fs_fill tmp (take (ko_written io) (take 16 key)) s1
        in if ko_written io \<noteq> 16 then (Inl KeyWrite, [s, s1, s2, fs_unlink tmp s2])
           else if \<not> ko_rename io then (Inl KeyRename, [s, s1, s2, fs_unlink tmp s2])
           else (Inr (), [s, s1, s2, fs_rename tmp path s2]))"

section \<open>Lines written are lines read\<close>

definition clean_str :: "string \<Rightarrow> bool" where
  "clean_str v \<longleftrightarrow> set v \<inter> {CHR ''#'', NL, NUL} = {} \<and>
     (v = [] \<or> \<not> is_blank (hd v) \<and> \<not> trim_end (last v))"

definition key_name :: "string \<Rightarrow> bool" where
  "key_name k \<longleftrightarrow> k \<noteq> [] \<and>
     list_all (\<lambda>c. c \<notin> {CHR ''#'', CHR ''='', NUL, NL, CHR '' '', CHR 0x09, CHR 0x0D}) k"

lemma trim_core:
  assumes "list_all is_blank pre" "list_all trim_end post" "m \<noteq> []" "\<not> is_blank (hd m)" "\<not> trim_end (last m)"
  shows "trim (pre @ m @ post) = m"
proof -
  have "dropWhile is_blank (pre @ m @ post) = m @ post"
    using assms(1,3,4) by (cases m) (simp_all add: dropWhile_append2 list_all_iff)
  moreover have "dropWhile trim_end (rev (m @ post)) = rev m"
    using assms(2,3,5) dropWhile_append2[of "rev post" trim_end "rev m"]
    by (cases m rule: rev_cases) (simp_all add: list_all_iff)
  ultimately show ?thesis by (simp add: trim_def)
qed

lemma blank_trim_end: "is_blank c \<Longrightarrow> trim_end c"
  by (auto simp: is_blank_def trim_end_def)

lemma key_name_ends:
  assumes "key_name k"
  shows "k \<noteq> []" "\<not> is_blank (hd k)" "\<not> trim_end (last k)"
  using assms by (auto simp: key_name_def list_all_iff is_blank_def trim_end_def
      dest: bspec[OF _ hd_in_set] bspec[OF _ last_in_set])

lemma trim_kv:
  assumes "key_name k" "clean_str v"
  shows "trim (kv k v) = k @ '' ='' @ (if v = [] then [] else CHR '' '' # v)"
proof (cases "v = []")
  case True
  have "trim ([] @ (k @ '' ='') @ ['' '' ! 0, NL]) = k @ '' =''"
    using key_name_ends[OF assms(1)] by (intro trim_core) (auto simp: trim_end_def)
  with True show ?thesis by (simp add: kv_def)
next
  case False
  have "trim ([] @ (k @ '' = '' @ v) @ [NL]) = k @ '' = '' @ v"
    using key_name_ends[OF assms(1)] False assms(2)
    by (intro trim_core) (auto simp: trim_end_def clean_str_def)
  with False show ?thesis by (simp add: kv_def)
qed

lemma takeWhile_notin: "x \<notin> set s \<Longrightarrow> takeWhile (\<lambda>c. c \<noteq> x) s = s"
  by (induction s) auto

lemma takeWhile_split: "x \<notin> set a \<Longrightarrow> takeWhile (\<lambda>c. c \<noteq> x) (a @ x # b) = a"
  by (induction a) auto

lemma dropWhile_split: "x \<notin> set a \<Longrightarrow> dropWhile (\<lambda>c. c \<noteq> x) (a @ x # b) = x # b"
  by (induction a) auto

lemma trim_clean: "clean_str v \<Longrightarrow> trim v = v"
  using trim_core[of "[]" "[]" v] by (cases "v = []") (auto simp: clean_str_def trim_def)

lemma load_line_kv:
  assumes k: "key_name k" and v: "clean_str v"
  shows "load_line n (kv k v) c = (case coord_config_set c k v of
    Inl e \<Rightarrow> (c, [Ignored n e]) | Inr c' \<Rightarrow> (c', []))"
proof -
  let ?r = "if v = [] then [] else CHR '' '' # v"
  have no: "NUL \<notin> set k" "CHR ''#'' \<notin> set k" "CHR ''='' \<notin> set k"
    using k by (auto simp: key_name_def list_all_iff)
  have nov: "NUL \<notin> set v" "CHR ''#'' \<notin> set v" using v by (auto simp: clean_str_def)
  have "cstr (kv k v) = kv k v"
    using no nov unfolding cstr_def by (intro takeWhile_notin) (auto simp: kv_def)
  moreover have "before_char (CHR ''#'') (kv k v) = kv k v"
    using no nov unfolding before_char_def by (intro takeWhile_notin) (auto simp: kv_def)
  moreover have "before_char (CHR ''='') (k @ '' ='' @ ?r) = k @ '' ''"
    using no takeWhile_split[of "CHR ''=''" "k @ '' ''" ?r] by (simp add: before_char_def)
  moreover have "after_char (CHR ''='') (k @ '' ='' @ ?r) = Some ?r"
    using no dropWhile_split[of "CHR ''=''" "k @ '' ''" ?r] by (simp add: after_char_def)
  moreover have "trim (k @ '' '') = k"
    using trim_core[of "[]" "'' ''" k] key_name_ends[OF k] by (simp add: trim_end_def)
  moreover have "trim ?r = v"
    using trim_core[of "'' ''" "[]" v] v trim_clean[of "[]"]
    by (auto simp: clean_str_def is_blank_def trim_def)
  ultimately show ?thesis
    using key_name_ends(1)[OF k] by (simp add: load_line_def trim_kv[OF k v] Let_def)
qed

lemma load_line_quiet:
  "load_line n [NL] c = (c, [])"
  "load_line n (CHR ''#'' # s) c = (c, [])"
  by (simp_all add: load_line_def cstr_def before_char_def trim_def trim_end_def is_blank_def)

lemma text_line_kv: "NL \<notin> set k \<Longrightarrow> clean_str v \<Longrightarrow> length k + length v + 4 < cap \<Longrightarrow> text_line cap (kv k v)"
  by (auto simp: text_line_def kv_def clean_str_def butlast_append)

section \<open>The bounds every stored value keeps\<close>

definition config_bounds :: "coord_config_t \<Rightarrow> bool" where
  "config_bounds c \<longleftrightarrow>
     length (cc_serial_dev c) < 128 \<and> length (cc_i2c_dev c) < 128 \<and>
     length (cc_key_path c) < 256 \<and> length (cc_ctl_path c) < 256 \<and>
     uint (cc_link_baud c) \<in> {115200..4000000} \<and> uint (cc_i2c_addr c) \<in> {0x03..0x77} \<and>
     uint (ut_hello_ms (cc_timing c)) \<in> {10..1000} \<and> uint (ut_hold_ms (cc_timing c)) \<in> {30..3000} \<and>
     uint (ut_handover_defer_max_ms (cc_timing c)) \<in> {100..30000} \<and>
     pc_span (cc_pointer c) \<in> {500..100000} \<and> pc_push_threshold (cc_pointer c) \<in> {50..10000} \<and>
     pc_push_decay_per_ms (cc_pointer c) \<in> {0..100} \<and> pc_reentry_guard (cc_pointer c) \<in> {0..50000}"

lemma uint_in_range:
  assumes "lo \<le> v" "v \<le> hi" "0 \<le> lo" "hi < 2 ^ LENGTH('w)"
  shows "uint (word_of_int v :: 'w::len word) = v"
  using assms by (simp add: word_of_int_inverse uint_word_of_int)

lemma snprintf_str_length: "0 < cap \<Longrightarrow> length (snprintf_str cap s) < cap"
  by (simp add: snprintf_str_def)

text \<open>What every accepted value leads to; the rules follow the shape of \<open>coord_config_set\<close>.\<close>

definition accepted :: "(coord_config_t \<Rightarrow> bool) \<Rightarrow> config_error + coord_config_t \<Rightarrow> bool" where
  "accepted P r = (case r of Inl _ \<Rightarrow> True | Inr c \<Rightarrow> P c)"

lemma accepted_intros:
  "P c \<Longrightarrow> accepted P (Inr c)"
  "accepted P (Inl e)"
  "(b \<Longrightarrow> accepted P x) \<Longrightarrow> (\<not> b \<Longrightarrow> accepted P y) \<Longrightarrow> accepted P (if b then x else y)"
  "(\<And>i. lo \<le> i \<Longrightarrow> i \<le> hi \<Longrightarrow> P (f i)) \<Longrightarrow> accepted P (u32_key k lo hi v f)"
  "(\<And>t. P (g t)) \<Longrightarrow> accepted P (bool_key k v g)"
  by (auto simp: accepted_def u32_key_def bool_key_def split: prod.splits option.splits)

lemma config_set_accepted: "config_bounds c \<Longrightarrow> accepted config_bounds (coord_config_set c k v)"
  unfolding coord_config_set_def
  by (intro accepted_intros;
      simp add: config_bounds_def snprintf_str_length set_timing_def set_pointer_def uint_in_range)

lemma config_set_bounds: "config_bounds c \<Longrightarrow> coord_config_set c k v = Inr c' \<Longrightarrow> config_bounds c'"
  using config_set_accepted[of c k v] by (simp add: accepted_def)

lemma load_line_bounds: "config_bounds c \<Longrightarrow> config_bounds (fst (load_line n l c))"
  by (auto simp: load_line_def Let_def split: option.splits sum.splits dest: config_set_bounds)

lemma load_lines_bounds: "config_bounds c \<Longrightarrow> config_bounds (fst (load_lines n ls c))"
proof (induction ls arbitrary: n c)
  case (Cons l ls)
  obtain c1 e1 where 1: "load_line (n + 1) l c = (c1, e1)" by fastforce
  then have "config_bounds c1" using load_line_bounds[OF Cons.prems, of "n + 1" l] by simp
  from Cons.IH[OF this, of "n + 1"] 1 show ?case by (auto split: prod.splits)
qed simp

lemma config_bounds_defaults: "config_bounds coord_config_defaults"
  by (simp add: config_bounds_def coord_config_defaults_def snprintf_str_def
      DHP_UHRP_TIMING_DEFAULT_def DHP_POINTER_CFG_DEFAULT_def)

lemma load_bounds: "config_bounds c \<Longrightarrow> coord_config_load c f = Inr (c', e) \<Longrightarrow> config_bounds c'"
  using load_lines_bounds by (auto simp: coord_config_load_def split: fopen_result.splits) (metis fst_conv)

section \<open>Values printed are values set\<close>

definition config_ok :: "coord_config_t \<Rightarrow> bool" where
  "config_ok c \<longleftrightarrow> config_bounds c \<and> clean_str (cc_serial_dev c) \<and> clean_str (cc_i2c_dev c) \<and>
     clean_str (cc_key_path c) \<and> clean_str (cc_ctl_path c)"

lemma u32_key_show_u:
  "lo \<le> uint w \<Longrightarrow> uint w \<le> hi \<Longrightarrow> hi \<le> LONG_MAX \<Longrightarrow>
   u32_key k lo hi (show_u (unat w)) f = Inr (f (uint w))"
  using strtol_show_u[of "unat w"] by (simp add: u32_key_def)

lemma u32_key_show_hex:
  "lo \<le> uint w \<Longrightarrow> uint w \<le> hi \<Longrightarrow> hi \<le> LONG_MAX \<Longrightarrow>
   u32_key k lo hi (CHR ''0'' # CHR ''x'' # pad0 2 (show_base 16 (unat w))) f = Inr (f (uint w))"
  using strtol_show_hex[of "unat w" 2] by (simp add: u32_key_def)

lemma u32_key_show_d:
  "0 \<le> lo \<Longrightarrow> lo \<le> i \<Longrightarrow> i \<le> hi \<Longrightarrow> hi \<le> LONG_MAX \<Longrightarrow> u32_key k lo hi (show_d i) f = Inr (f i)"
  by (simp add: u32_key_def strtol_show_d)

lemma parse_show_bool: "parse_bool (show_bool b) = Some b"
  by (cases b; simp; code_simp)

lemma bool_key_show: "bool_key k (show_bool b) f = Inr (f b)"
  by (simp add: bool_key_def parse_show_bool)

lemma config_set_str:
  assumes "config_bounds c"
  shows "coord_config_set d ''serial_dev'' (cc_serial_dev c) = Inr (d\<lparr>cc_serial_dev := cc_serial_dev c\<rparr>)"
    "coord_config_set d ''i2c_dev'' (cc_i2c_dev c) = Inr (d\<lparr>cc_i2c_dev := cc_i2c_dev c\<rparr>)"
    "coord_config_set d ''key_path'' (cc_key_path c) = Inr (d\<lparr>cc_key_path := cc_key_path c\<rparr>)"
    "coord_config_set d ''ctl_path'' (cc_ctl_path c) = Inr (d\<lparr>cc_ctl_path := cc_ctl_path c\<rparr>)"
  using assms by (simp_all add: coord_config_set_def config_bounds_def snprintf_str_def)

lemma config_set_bool:
  "coord_config_set d ''at_head'' (show_bool b) = Inr (d\<lparr>cc_at_head := b\<rparr>)"
  "coord_config_set d ''headless'' (show_bool b) = Inr (d\<lparr>cc_headless := b\<rparr>)"
  "coord_config_set d ''pointer_vertical'' (show_bool b) =
     Inr (set_pointer d (\<lambda>p. p\<lparr>pc_vertical_enabled := b\<rparr>))"
  by (simp_all add: coord_config_set_def bool_key_show)

lemma config_set_word:
  assumes "config_bounds c"
  shows "coord_config_set d ''link_baud'' (show_u (unat (cc_link_baud c))) =
      Inr (d\<lparr>cc_link_baud := cc_link_baud c\<rparr>)"
    "coord_config_set d ''i2c_addr'' (''0x'' @ pad0 2 (show_base 16 (unat (cc_i2c_addr c)))) =
      Inr (d\<lparr>cc_i2c_addr := cc_i2c_addr c\<rparr>)"
    "coord_config_set d ''hello_ms'' (show_u (unat (ut_hello_ms (cc_timing c)))) =
      Inr (set_timing d (\<lambda>t. t\<lparr>ut_hello_ms := ut_hello_ms (cc_timing c)\<rparr>))"
    "coord_config_set d ''hold_ms'' (show_u (unat (ut_hold_ms (cc_timing c)))) =
      Inr (set_timing d (\<lambda>t. t\<lparr>ut_hold_ms := ut_hold_ms (cc_timing c)\<rparr>))"
    "coord_config_set d ''handover_defer_max_ms'' (show_u (unat (ut_handover_defer_max_ms (cc_timing c)))) =
      Inr (set_timing d (\<lambda>t. t\<lparr>ut_handover_defer_max_ms := ut_handover_defer_max_ms (cc_timing c)\<rparr>))"
  using assms unfolding coord_config_set_def config_bounds_def
  by (simp_all add: u32_key_show_u u32_key_show_hex LONG_MAX_def)

lemma config_set_pointer:
  assumes "config_bounds c"
  shows "coord_config_set d ''pointer_span'' (show_d (pc_span (cc_pointer c))) =
      Inr (set_pointer d (\<lambda>p. p\<lparr>pc_span := pc_span (cc_pointer c)\<rparr>))"
    "coord_config_set d ''pointer_push'' (show_d (pc_push_threshold (cc_pointer c))) =
      Inr (set_pointer d (\<lambda>p. p\<lparr>pc_push_threshold := pc_push_threshold (cc_pointer c)\<rparr>))"
    "coord_config_set d ''pointer_decay'' (show_d (pc_push_decay_per_ms (cc_pointer c))) =
      Inr (set_pointer d (\<lambda>p. p\<lparr>pc_push_decay_per_ms := pc_push_decay_per_ms (cc_pointer c)\<rparr>))"
    "coord_config_set d ''pointer_guard'' (show_d (pc_reentry_guard (cc_pointer c))) =
      Inr (set_pointer d (\<lambda>p. p\<lparr>pc_reentry_guard := pc_reentry_guard (cc_pointer c)\<rparr>))"
  using assms by (simp_all add: coord_config_set_def config_bounds_def u32_key_show_d LONG_MAX_def)

lemma clean_digits: "list_all (is_digit b) s \<Longrightarrow> clean_str s"
proof -
  assume s: "list_all (is_digit b) s"
  have d: "is_digit b c \<Longrightarrow> c \<notin> {CHR ''#'', NL, NUL} \<and> \<not> is_blank c \<and> \<not> trim_end c" for c
    by (auto simp: is_digit_def digit_val_def is_blank_def trim_end_def Let_def)
  show ?thesis using s d unfolding clean_str_def list_all_iff by (cases "s = []") auto
qed

lemma clean_show_u: "clean_str (show_u n)"
  using show_base_ok[of 10 n] clean_digits by (auto simp: show_u_def)

lemma clean_show_d: "0 \<le> i \<Longrightarrow> clean_str (show_d i)"
  by (simp add: show_d_def clean_show_u)

lemma clean_show_bool: "clean_str (show_bool b)"
  by (cases b; simp add: show_bool_def; code_simp)

lemma clean_show_hex: "clean_str (CHR ''0'' # CHR ''x'' # pad0 2 (show_base 16 n))"
proof -
  have "list_all (is_digit 16) (pad0 2 (show_base 16 n))"
    using show_base_ok[of 16 n] by (simp add: pad0_digits)
  then have "list_all (is_digit 36) (pad0 2 (show_base 16 n))"
    by (auto simp: list_all_iff is_digit_def split: option.splits)
  then show ?thesis
    by (intro clean_digits[of 36]) (simp add: is_digit_def digit_val_def)
qed

section \<open>The file written is the file read\<close>

lemma load_lines_quiet:
  "load_lines n ([NL] # ls) c = load_lines (n + 1) ls c"
  "load_lines n ((CHR ''#'' # s) # ls) c = load_lines (n + 1) ls c"
  by (simp_all add: load_line_quiet split: prod.splits)

lemma load_lines_kv:
  "coord_config_set c k v = Inr c' \<Longrightarrow> key_name k \<Longrightarrow> clean_str v \<Longrightarrow>
   load_lines n (kv k v # ls) c = load_lines (n + 1) ls c'"
  by (simp add: load_line_kv split: prod.splits)

lemma hex_cons: "''0x'' @ s = CHR ''0'' # CHR ''x'' # s"
  by simp

lemma load_config_lines:
  assumes "config_ok c"
  shows "load_lines 0 (config_lines c) d =
    (c\<lparr>cc_timing := (cc_timing c)\<lparr>ut_learn_ms := ut_learn_ms (cc_timing d)\<rparr>\<rparr>, [])"
proof -
  have b: "config_bounds c" and
    clean: "clean_str (cc_serial_dev c)" "clean_str (cc_i2c_dev c)" "clean_str (cc_key_path c)"
      "clean_str (cc_ctl_path c)"
    using assms by (simp_all add: config_ok_def)
  have pos: "0 \<le> pc_span (cc_pointer c)" "0 \<le> pc_push_threshold (cc_pointer c)"
    "0 \<le> pc_push_decay_per_ms (cc_pointer c)" "0 \<le> pc_reentry_guard (cc_pointer c)"
    using b by (simp_all add: config_bounds_def)
  note steps = config_set_str[OF b, THEN load_lines_kv] config_set_bool[THEN load_lines_kv]
    config_set_word[OF b, unfolded hex_cons, THEN load_lines_kv] config_set_pointer[OF b, THEN load_lines_kv]
  show ?thesis
    unfolding config_lines_def hex_cons append_Cons append_Nil
    by (simp add: load_lines_quiet steps key_name_def clean clean_show_u clean_show_hex clean_show_bool
        clean_show_d pos set_timing_def set_pointer_def del: load_lines.simps(2))
qed

lemma show_word_length: "uint w < 10 ^ 9 \<Longrightarrow> length (show_u (unat w)) \<le> 9"
proof (rule show_u_length)
  assume "uint w < 10 ^ 9"
  then have "int (unat w) < int (10 ^ 9)" by simp
  then show "unat w < 10 ^ 9" by (simp only: of_nat_less_iff)
qed simp

lemma show_d_length: "0 \<le> i \<Longrightarrow> i < 10 ^ 9 \<Longrightarrow> length (show_d i) \<le> 9"
  using show_u_length[of "nat i" 9] by (simp add: show_d_def nat_less_iff)

lemma show_hex_length: "length (pad0 2 (show_base 16 (unat (w :: u8)))) \<le> 2"
  using show_base_length[of 16 "unat w" 2] unsigned_less[of w, where 'a = nat] by (simp add: pad0_def)

lemma config_text_lines:
  assumes "config_ok c"
  shows "list_all (text_line 512) (config_lines c)"
proof -
  have b: "config_bounds c" and
    clean: "clean_str (cc_serial_dev c)" "clean_str (cc_i2c_dev c)" "clean_str (cc_key_path c)"
      "clean_str (cc_ctl_path c)"
    using assms by (simp_all add: config_ok_def)
  have pos: "0 \<le> pc_span (cc_pointer c)" "0 \<le> pc_push_threshold (cc_pointer c)"
    "0 \<le> pc_push_decay_per_ms (cc_pointer c)" "0 \<le> pc_reentry_guard (cc_pointer c)"
    using b by (simp_all add: config_bounds_def)
  have str: "length (cc_serial_dev c) \<le> 255" "length (cc_i2c_dev c) \<le> 255"
    "length (cc_key_path c) \<le> 255" "length (cc_ctl_path c) \<le> 255"
    using b by (simp_all add: config_bounds_def)
  have num: "length (show_u (unat (cc_link_baud c))) \<le> 9" "length (show_u (unat (ut_hello_ms (cc_timing c)))) \<le> 9"
    "length (show_u (unat (ut_hold_ms (cc_timing c)))) \<le> 9"
    "length (show_u (unat (ut_handover_defer_max_ms (cc_timing c)))) \<le> 9"
    "length (show_d (pc_span (cc_pointer c))) \<le> 9" "length (show_d (pc_push_threshold (cc_pointer c))) \<le> 9"
    "length (show_d (pc_push_decay_per_ms (cc_pointer c))) \<le> 9"
    "length (show_d (pc_reentry_guard (cc_pointer c))) \<le> 9"
    using b by (auto simp: config_bounds_def intro!: show_word_length show_d_length)
  have bool: "length (show_bool t) \<le> 5" for t by (simp add: show_bool_def)
  have line: "NL \<notin> set k \<Longrightarrow> length k \<le> 30 \<Longrightarrow> clean_str v \<Longrightarrow> length v \<le> 255 \<Longrightarrow> text_line 512 (kv k v)" for k v
    by (rule text_line_kv) simp_all
  have cmt: "NL \<notin> set s \<Longrightarrow> length s < 500 \<Longrightarrow> text_line 512 (s @ [NL])" for s
    by (simp add: text_line_def)
  note cs = clean clean_show_u clean_show_hex clean_show_bool clean_show_d[OF pos(1)]
    clean_show_d[OF pos(2)] clean_show_d[OF pos(3)] clean_show_d[OF pos(4)]
  note ls = str num[THEN order_trans] bool[THEN order_trans] show_hex_length[THEN order_trans]
  show ?thesis
    unfolding config_lines_def list.pred_inject
    using cmt[of "[]"] by (intro conjI cmt line TrueI)
      (simp_all add: ls cs)
qed

lemma load_config_text:
  assumes "config_ok c"
  shows "coord_config_load d (Opened (config_text c)) =
    Inr (c\<lparr>cc_timing := (cc_timing c)\<lparr>ut_learn_ms := ut_learn_ms (cc_timing d)\<rparr>\<rparr>, [])"
  using assms by (simp add: coord_config_load_def config_text_def fgets_lines_concat config_text_lines
      load_config_lines)

section \<open>Replacing a file by renaming over it\<close>

lemma tmp_path_other: "length path \<le> 507 \<Longrightarrow> tmp_path path \<noteq> path"
  by (simp add: tmp_path_def snprintf_str_def)

lemma fs_simps [simp]:
  "q \<noteq> p \<Longrightarrow> fs_create m p s q = s q"
  "q \<noteq> p \<Longrightarrow> fs_fill p d s q = s q"
  "q \<noteq> a \<Longrightarrow> q \<noteq> b \<Longrightarrow> fs_rename a b s q = s q"
  "a \<noteq> b \<Longrightarrow> fs_rename a b s b = s a"
  "q \<noteq> p \<Longrightarrow> fs_unlink p s q = s q"
  by (simp_all add: fs_create_def fs_fill_def fs_rename_def fs_unlink_def)

lemma fs_fill_create: "\<exists>f. fs_fill p d (fs_create m p s) p = Some f \<and> f_data f = d"
  by (simp add: fs_fill_def fs_create_def split: option.splits)

lemma fs_fill_new: "s p = None \<Longrightarrow> fs_fill p d (fs_create m p s) p = Some \<lparr>f_mode = m, f_data = d\<rparr>"
  by (simp add: fs_fill_def fs_create_def)

lemma fs_unlink_new: "s p = None \<Longrightarrow> fs_unlink p (fs_fill p d (fs_create m p s)) = s"
  by (auto simp: fs_unlink_def fs_fill_def fs_create_def)

section \<open>The properties\<close>

text \<open>A history of the configuration: files loaded and keys set, in any order.\<close>

datatype config_op = LoadFile fopen_result | SetKey string string

fun config_do :: "config_op \<Rightarrow> coord_config_t \<Rightarrow> coord_config_t" where
  "config_do (LoadFile f) c = (case coord_config_load c f of Inl _ \<Rightarrow> c | Inr (c', _) \<Rightarrow> c')"
| "config_do (SetKey k v) c = (case coord_config_set c k v of Inl _ \<Rightarrow> c | Inr c' \<Rightarrow> c')"

lemma config_do_bounds: "config_bounds c \<Longrightarrow> config_bounds (config_do op c)"
  by (cases op) (auto split: sum.splits dest: load_bounds config_set_bounds)

lemma config_fold_bounds: "config_bounds c \<Longrightarrow> config_bounds (fold config_do ops c)"
  by (induction ops arbitrary: c) (simp_all add: config_do_bounds)

text \<open>
  C28.  Whatever files are loaded and whatever keys are set from the control socket, starting from the
  defaults: every stored value stays inside the bounds \<^verbatim>\<open>coord_config_set\<close> states (strings fit their
  buffers, the conversions to the narrower integer types lose nothing), and the pointer settings meet what
  the pointer code needs for its arithmetic exactly when the re-entry guard is no wider than the span.
\<close>

theorem config_always_bounded:
  "config_bounds (fold config_do ops coord_config_defaults) \<and>
   pcfg_ok (cc_pointer (fold config_do ops coord_config_defaults)) =
     (pc_reentry_guard (cc_pointer (fold config_do ops coord_config_defaults))
        \<le> pc_span (cc_pointer (fold config_do ops coord_config_defaults)))"
proof -
  have b: "config_bounds (fold config_do ops coord_config_defaults)"
    by (rule config_fold_bounds[OF config_bounds_defaults])
  then show ?thesis by (auto simp: config_bounds_def pcfg_ok_def)
qed

text \<open>
  C12.  A configuration saved without an I/O error and loaded at the next start is the same configuration,
  with no complaint about any line: every field but the learn time, which has no key and keeps the value
  the loading daemon starts from.  The strings must be ones the file format can hold: no \<^verbatim>\<open>#\<close>, no newline,
  no blank at either end.
\<close>

theorem config_survives_restart:
  assumes "config_ok c" "length path \<le> 507" "io_open io" "io_close io" "io_rename io"
  shows "case coord_config_save io c path s of (r, states) \<Rightarrow>
    r = Inr () \<and> coord_config_load d (fopen_read (last states) path) =
      Inr (c\<lparr>cc_timing := (cc_timing c)\<lparr>ut_learn_ms := ut_learn_ms (cc_timing d)\<rparr>\<rparr>, [])"
proof -
  let ?tmp = "tmp_path path" and ?m = "0x1B6 AND NOT (io_umask io)"
  have save: "coord_config_save io c path s = (Inr (), [s, fs_create ?m ?tmp s] @
      map (\<lambda>n. fs_fill ?tmp (take n (config_text c)) (fs_create ?m ?tmp s)) (io_flush io) @
      [fs_fill ?tmp (config_text c) (fs_create ?m ?tmp s),
       fs_rename ?tmp path (fs_fill ?tmp (config_text c) (fs_create ?m ?tmp s))])"
    using assms(3-5) by (simp add: coord_config_save_def Let_def)
  obtain f where "fs_fill ?tmp (config_text c) (fs_create ?m ?tmp s) ?tmp = Some f" "f_data f = config_text c"
    using fs_fill_create[of ?tmp "config_text c" ?m s] by blast
  then have "fopen_read (fs_rename ?tmp path (fs_fill ?tmp (config_text c) (fs_create ?m ?tmp s))) path =
      Opened (config_text c)"
    using tmp_path_other[OF assms(2)] by (simp add: fopen_read_def)
  then show ?thesis using load_config_text[OF assms(1), of d] by (simp add: save)
qed



section \<open>Concrete runs\<close>

definition demo_io :: save_io where
  "demo_io = \<lparr>io_umask = 0x12, io_open = True, io_flush = [7, 100], io_close = True, io_rename = True\<rparr>"

definition demo_path :: string where
  "demo_path = ''/etc/deskhop/coordinator.conf''"

lemma demo_path_short: "length demo_path \<le> 507"
  by (simp add: demo_path_def)

lemma config_ok_defaults: "config_ok coord_config_defaults"
  unfolding config_ok_def
  by (simp add: config_bounds_defaults) (simp add: coord_config_defaults_def snprintf_str_def clean_str_def
      is_blank_def trim_end_def)

theorem config_survives_restart_witness:
  "case coord_config_save demo_io coord_config_defaults demo_path (\<lambda>_. None) of (r, states) \<Rightarrow>
    r = Inr () \<and> coord_config_load coord_config_defaults (fopen_read (last states) demo_path) =
      Inr (coord_config_defaults\<lparr>cc_timing := (cc_timing coord_config_defaults)
        \<lparr>ut_learn_ms := ut_learn_ms (cc_timing coord_config_defaults)\<rparr>\<rparr>, [])"
  by (rule config_survives_restart) (simp_all add: config_ok_defaults demo_path_short demo_io_def)



section \<open>What the bounds let through\<close>

text \<open>
  The bounds are per key.  A hold time of 30 ms is accepted with hellos every second, although the comment
  beside the bounds gives two hello intervals as the least that keeps one lost frame from changing the role.
\<close>

theorem hold_below_hello_accepted:
  "\<exists>c. c = fold config_do [SetKey ''hello_ms'' ''1000'', SetKey ''hold_ms'' ''30''] coord_config_defaults \<and>
     ut_hello_ms (cc_timing c) = 1000 \<and> ut_hold_ms (cc_timing c) = 30"
  by simp code_simp

text \<open>A guard wider than twice the span is accepted: a pointer that crosses to the right then arrives beyond
  the right edge of the next screen, where the re-entry guard was to keep it near the left one.\<close>

definition wide_guard :: coord_config_t where
  "wide_guard = fold config_do [SetKey ''pointer_span'' ''500'', SetKey ''pointer_guard'' ''50000'']
     coord_config_defaults"

lemmas strtol_eval = strtol_def strto_def strto_sign_def strto_base_def has_hex_prefix_def is_space_def
  is_digit_def digits_val_def digit_val_def LONG_MAX_def LONG_MIN_def

lemma wide_guard_pointer:
  "cc_pointer wide_guard = \<lparr>pc_span = 500, pc_push_threshold = 600, pc_push_decay_per_ms = 4,
     pc_reentry_guard = 50000, pc_vertical_enabled = False\<rparr>"
  by (simp add: wide_guard_def coord_config_set_def u32_key_def strtol_eval set_pointer_def
      coord_config_defaults_def DHP_POINTER_CFG_DEFAULT_def)

theorem guard_beyond_span_accepted:
  "pc_span (cc_pointer wide_guard) = 500 \<and>
   map_option pt_travel_x (dhp_pointer_arrive (dhp_pointer_init (Some (cc_pointer wide_guard))) DHP_EDGE_RIGHT 0) =
     Some 49500"
  by (simp add: wide_guard_pointer dhp_pointer_arrive_def dhp_pointer_init_def s32_def)

text \<open>A value with no digits at all reads as zero where zero is in range.\<close>

theorem empty_value_is_zero:
  "coord_config_set c ''pointer_guard'' [] = Inr (set_pointer c (\<lambda>p. p\<lparr>pc_reentry_guard := 0\<rparr>))"
  by (simp add: coord_config_set_def u32_key_def strtol_eval)

text \<open>A path with a \<^verbatim>\<open>#\<close> in it is set and saved, and comes back cut short.\<close>

theorem hash_cut_on_reload:
  "cc_key_path (fst (load_line 1 (kv ''key_path'' ''/srv/a#b'') coord_config_defaults)) = ''/srv/a''"
  by code_simp

end
