(* ===== verification/Dhp_Display.thy ===== *)
theory Dhp_Display
  imports Dhp_Text Dhp_Level Dhp_Auth "HOL-Library.Multiset"
begin

text \<open>
  The coordinator's status screen, \<^verbatim>\<open>coordinator/src/display.c\<close> with its font, and the transport to the
  panel, \<^verbatim>\<open>coordinator/src/ssd1306.c\<close>.  The frame buffer is the list of its 1024 bytes, 8 pages of 128
  columns.  \<^verbatim>\<open>qsort\<close> may leave boards at equal positions in any order, so it is an argument of the renderer,
  of which only \<open>qsort_ok\<close> is used; \<^verbatim>\<open>write\<close> on the I2C bus is an argument of the transport.
  The reference is a screen of text: what each of the 21 columns of each text row reads.
\<close>

section \<open>Font\<close>

definition FONT_FIRST :: nat where "FONT_FIRST = 0x20"

definition FONT_LAST :: nat where "FONT_LAST = 0x5F"

definition FONT_W :: nat where "FONT_W = 5"

definition FONT_ADVANCE :: int where "FONT_ADVANCE = 6"

definition font5x7 :: "u8 list list" where
  "font5x7 = [
    [0x00, 0x00, 0x00, 0x00, 0x00], [0x00, 0x00, 0x5F, 0x00, 0x00], [0x00, 0x07, 0x00, 0x07, 0x00],
    [0x14, 0x7F, 0x14, 0x7F, 0x14], [0x24, 0x2A, 0x7F, 0x2A, 0x12], [0x23, 0x13, 0x08, 0x64, 0x62],
    [0x36, 0x49, 0x55, 0x22, 0x50], [0x00, 0x05, 0x03, 0x00, 0x00], [0x00, 0x1C, 0x22, 0x41, 0x00],
    [0x00, 0x41, 0x22, 0x1C, 0x00], [0x14, 0x08, 0x3E, 0x08, 0x14], [0x08, 0x08, 0x3E, 0x08, 0x08],
    [0x00, 0x50, 0x30, 0x00, 0x00], [0x08, 0x08, 0x08, 0x08, 0x08], [0x00, 0x60, 0x60, 0x00, 0x00],
    [0x20, 0x10, 0x08, 0x04, 0x02], [0x3E, 0x51, 0x49, 0x45, 0x3E], [0x00, 0x42, 0x7F, 0x40, 0x00],
    [0x42, 0x61, 0x51, 0x49, 0x46], [0x21, 0x41, 0x45, 0x4B, 0x31], [0x18, 0x14, 0x12, 0x7F, 0x10],
    [0x27, 0x45, 0x45, 0x45, 0x39], [0x3C, 0x4A, 0x49, 0x49, 0x30], [0x01, 0x71, 0x09, 0x05, 0x03],
    [0x36, 0x49, 0x49, 0x49, 0x36], [0x06, 0x49, 0x49, 0x29, 0x1E], [0x00, 0x36, 0x36, 0x00, 0x00],
    [0x00, 0x56, 0x36, 0x00, 0x00], [0x08, 0x14, 0x22, 0x41, 0x00], [0x14, 0x14, 0x14, 0x14, 0x14],
    [0x00, 0x41, 0x22, 0x14, 0x08], [0x02, 0x01, 0x51, 0x09, 0x06], [0x32, 0x49, 0x79, 0x41, 0x3E],
    [0x7E, 0x11, 0x11, 0x11, 0x7E], [0x7F, 0x49, 0x49, 0x49, 0x36], [0x3E, 0x41, 0x41, 0x41, 0x22],
    [0x7F, 0x41, 0x41, 0x22, 0x1C], [0x7F, 0x49, 0x49, 0x49, 0x41], [0x7F, 0x09, 0x09, 0x09, 0x01],
    [0x3E, 0x41, 0x49, 0x49, 0x7A], [0x7F, 0x08, 0x08, 0x08, 0x7F], [0x00, 0x41, 0x7F, 0x41, 0x00],
    [0x20, 0x40, 0x41, 0x3F, 0x01], [0x7F, 0x08, 0x14, 0x22, 0x41], [0x7F, 0x40, 0x40, 0x40, 0x40],
    [0x7F, 0x02, 0x0C, 0x02, 0x7F], [0x7F, 0x04, 0x08, 0x10, 0x7F], [0x3E, 0x41, 0x41, 0x41, 0x3E],
    [0x7F, 0x09, 0x09, 0x09, 0x06], [0x3E, 0x41, 0x51, 0x21, 0x5E], [0x7F, 0x09, 0x19, 0x29, 0x46],
    [0x46, 0x49, 0x49, 0x49, 0x31], [0x01, 0x01, 0x7F, 0x01, 0x01], [0x3F, 0x40, 0x40, 0x40, 0x3F],
    [0x1F, 0x20, 0x40, 0x20, 0x1F], [0x3F, 0x40, 0x38, 0x40, 0x3F], [0x63, 0x14, 0x08, 0x14, 0x63],
    [0x07, 0x08, 0x70, 0x08, 0x07], [0x61, 0x51, 0x49, 0x45, 0x43], [0x00, 0x7F, 0x41, 0x41, 0x00],
    [0x02, 0x04, 0x08, 0x10, 0x20], [0x00, 0x41, 0x41, 0x7F, 0x00], [0x04, 0x02, 0x01, 0x02, 0x04],
    [0x40, 0x40, 0x40, 0x40, 0x40]]"

section \<open>Frame buffer\<close>

definition DSP_W :: int where "DSP_W = 128"

definition DSP_H :: int where "DSP_H = 64"

definition DSP_PAGES :: int where "DSP_PAGES = DSP_H div 8"

definition DSP_FB_BYTES :: nat where "DSP_FB_BYTES = nat (DSP_W * DSP_PAGES)"

definition DSP_COLS :: int where "DSP_COLS = DSP_W div 6"

lemmas dsp_consts = DSP_W_def DSP_H_def DSP_PAGES_def DSP_FB_BYTES_def DSP_COLS_def FONT_ADVANCE_def
  FONT_W_def FONT_FIRST_def FONT_LAST_def

record dsp_t =
  dp_px :: "u8 list"
  dp_dirty :: bool

definition dsp_clear :: "dsp_t \<Rightarrow> dsp_t" where
  "dsp_clear d = d\<lparr>dp_px := replicate DSP_FB_BYTES 0, dp_dirty := True\<rparr>"

definition set_col :: "int \<Rightarrow> int \<Rightarrow> u8 \<Rightarrow> bool \<Rightarrow> dsp_t \<Rightarrow> dsp_t" where
  "set_col x page bits invert d =
     (if x < 0 \<or> DSP_W \<le> x \<or> page < 0 \<or> DSP_PAGES \<le> page then d
      else d\<lparr>dp_px := (dp_px d)[nat (page * DSP_W + x) := if invert then NOT bits else bits]\<rparr>)"

definition font_char :: "char \<Rightarrow> nat" where
  "font_char c = (let n = of_char c;
        u = (if 97 \<le> n \<and> n \<le> 122 then n - 97 + 65 else n)
      in if u < FONT_FIRST \<or> FONT_LAST < u then 63 else u)"

fun draw_cols :: "int \<Rightarrow> int \<Rightarrow> u8 list \<Rightarrow> bool \<Rightarrow> dsp_t \<Rightarrow> dsp_t" where
  "draw_cols x row [] invert d = d"
| "draw_cols x row (g # gs) invert d = draw_cols (x + 1) row gs invert (set_col x row g invert d)"

fun text_loop :: "int \<Rightarrow> int \<Rightarrow> string \<Rightarrow> bool \<Rightarrow> dsp_t \<Rightarrow> dsp_t" where
  "text_loop x row [] invert d = d"
| "text_loop x row (c # s) invert d =
     (if x < DSP_W
      then text_loop (x + FONT_ADVANCE) row s invert
             (set_col (x + int FONT_W) row 0x00 invert
               (draw_cols x row (font5x7 ! (font_char c - FONT_FIRST)) invert d))
      else d)"

definition dsp_text :: "int \<Rightarrow> int \<Rightarrow> string \<Rightarrow> bool \<Rightarrow> dsp_t \<Rightarrow> dsp_t" where
  "dsp_text col row s invert d = (text_loop (col * FONT_ADVANCE) row s invert d)\<lparr>dp_dirty := True\<rparr>"

definition hrule_cols :: "nat \<Rightarrow> u8 \<Rightarrow> u8 list \<Rightarrow> u8 list" where
  "hrule_cols page b px = fold (\<lambda>x px. px[page * 128 + x := px ! (page * 128 + x) OR b]) [0..<nat DSP_W] px"

definition dsp_hrule :: "int \<Rightarrow> dsp_t \<Rightarrow> dsp_t" where
  "dsp_hrule y d =
     (if y < 0 \<or> DSP_H \<le> y then d
      else d\<lparr>dp_px := hrule_cols (nat (y div 8)) (push_bit (nat (y mod 8)) 1) (dp_px d), dp_dirty := True\<rparr>)"

section \<open>The status screen\<close>

record dsp_board_t =
  db_addr :: dhp_addr_t
  db_rel_pos :: int
  db_is_self :: bool
  db_is_active :: bool
  db_is_focus :: bool
  db_has_input :: bool
  db_is_coord :: bool

text \<open>\<open>ds_board\<close> is the first \<^verbatim>\<open>n_boards\<close> entries of the array; \<open>None\<close> is a null pointer.\<close>

record dsp_status_t =
  ds_level :: dhp_level_t
  ds_board :: "dsp_board_t list"
  ds_we_are_active :: bool
  ds_state_name :: "string option"
  ds_link_baud :: u32
  ds_crc_errors :: u32
  ds_auth_errors :: u32
  ds_uptime_s :: u32
  ds_pairing :: bool
  ds_sas :: "string option"
  ds_message :: "string option"

definition by_position :: "dsp_board_t \<Rightarrow> dsp_board_t \<Rightarrow> int" where
  "by_position x y = db_rel_pos x - db_rel_pos y"

definition qsort_ok :: "(dsp_board_t list \<Rightarrow> dsp_board_t list) \<Rightarrow> bool" where
  "qsort_ok qs \<longleftrightarrow> (\<forall>bs. mset (qs bs) = mset bs \<and> sorted_wrt (\<lambda>x y. by_position x y \<le> 0) (qs bs))"

definition line_buf :: "string \<Rightarrow> string" where
  "line_buf s = snprintf_str (nat DSP_COLS + 1) s"

text \<open>The loop over the sorted boards; \<open>col\<close> and \<open>machine\<close> are its variables.\<close>

fun chain_loop :: "dsp_board_t list \<Rightarrow> int \<Rightarrow> nat \<Rightarrow> dsp_t \<Rightarrow> dsp_t" where
  "chain_loop [] col machine d = d"
| "chain_loop (b # bs) col machine d =
     (if \<not> col < DSP_COLS - 2 then d
      else
        let machine' = (if db_is_coord b then machine else machine + 1);
            cell = snprintf_str 5 (if db_is_coord b then ''C'' else show_u (machine' mod 100));
            d1 = dsp_text col 2 cell (db_is_focus b) d;
            col1 = col + int (length cell);
            (d2, col2) = (if db_has_input b then (dsp_text col1 2 ''*'' False d1, col1 + 1) else (d1, col1));
            (d3, col3) = (if bs \<noteq> [] then (dsp_text col2 2 ''-'' False d2, col2 + 1) else (d2, col2))
        in chain_loop bs col3 machine' d3)"

definition clamp_count :: "u32 \<Rightarrow> string" where
  "clamp_count n = (if 9999 < n then show_u 9999 @ ''+'' else show_u (unat n))"

definition routing_line :: "dsp_status_t \<Rightarrow> string" where
  "routing_line st = (if ds_we_are_active st then ''ROUTING: THIS''
     else line_buf (''ROUTING: BOARD/'' @ (case ds_state_name st of Some s \<Rightarrow> s | None \<Rightarrow> ''?'')))"

definition link_line :: "dsp_status_t \<Rightarrow> string" where
  "link_line st = line_buf (''LINK '' @ show_u (unat (ds_link_baud st div 1000000)) @ ''.'' @
     show_u (unat ((ds_link_baud st div 100000) mod 10)) @ ''M'')"

definition errors_line :: "dsp_status_t \<Rightarrow> string" where
  "errors_line st = line_buf (''CRC '' @ clamp_count (ds_crc_errors st) @ '' AUTH '' @
     clamp_count (ds_auth_errors st))"

definition uptime_line :: "dsp_status_t \<Rightarrow> string" where
  "uptime_line st = line_buf (''UP '' @ show_u (unat (ds_uptime_s st div 3600)) @ ''H'' @
     pad0 2 (show_u (unat ((ds_uptime_s st div 60) mod 60))) @ ''M'')"

definition middle_rows :: "dsp_status_t \<Rightarrow> dsp_t \<Rightarrow> dsp_t" where
  "middle_rows st d =
     (if ds_pairing st then
        (let d1 = dsp_text 0 4 ''PAIRING - COMPARE:'' False d in
         case ds_sas st of
           Some sas \<Rightarrow> dsp_text 0 5 (line_buf (''   '' @ sas)) True d1
         | None \<Rightarrow> dsp_text 0 5 ''   WAITING...'' False d1)
      else dsp_text 0 5 (errors_line st) False (dsp_text 0 4 (link_line st) False d))"

definition dsp_render_status :: "(dsp_board_t list \<Rightarrow> dsp_board_t list) \<Rightarrow> dsp_status_t \<Rightarrow> dsp_t \<Rightarrow> dsp_t" where
  "dsp_render_status qs st d0 =
     (let d1 = dsp_text 0 0 (line_buf ''DESKHOP+'') False (dsp_clear d0);
          d2 = dsp_text (DSP_COLS - 2) 0 (line_buf (''L'' @ show_u (level_code (ds_level st)))) False d1;
          d3 = dsp_hrule 9 d2;
          d4 = chain_loop (qs (take 16 (ds_board st))) 0 0 d3;
          d5 = dsp_text 0 3 (routing_line st) False d4;
          d6 = middle_rows st d5;
          d7 = dsp_hrule 55 d6
      in (case ds_message st of
            Some m \<Rightarrow> dsp_text 0 7 m False d7
          | None \<Rightarrow> dsp_text 0 7 (uptime_line st) False d7))"

definition dump_edge :: string where
  "dump_edge = ''+'' @ replicate (nat DSP_W) (CHR ''-'') @ ''+'' @ [NL]"

definition dump_row :: "dsp_t \<Rightarrow> nat \<Rightarrow> string" where
  "dump_row d y = ''|'' @ map (\<lambda>x. if dp_px d ! ((y div 8) * 128 + x) AND push_bit (y mod 8) 1 \<noteq> 0
       then CHR ''#'' else CHR '' '') [0..<nat DSP_W] @ ''|'' @ [NL]"

definition dsp_dump :: "dsp_t \<Rightarrow> string" where
  "dsp_dump d = dump_edge @ concat (map (dump_row d) [0..<nat DSP_H]) @ dump_edge"

section \<open>The panel\<close>

definition CTRL_CMD :: u8 where "CTRL_CMD = 0x00"

definition CTRL_DATA :: u8 where "CTRL_DATA = 0x40"

text \<open>
  The bus: \<open>wr n\<close> is how many bytes the kernel takes of the \<open>n\<close>-th write of a run, out of those offered
  (a negative number is an error).  An operation returns what it offered, in order.
\<close>

type_synonym bus = "nat \<Rightarrow> nat \<Rightarrow> int"

definition write_cmds :: "bus \<Rightarrow> nat \<Rightarrow> u8 list \<Rightarrow> bool \<times> u8 list list" where
  "write_cmds wr k cmds =
     (if 64 < length cmds + 1 then (False, [])
      else (wr k (length cmds + 1) = int (length cmds + 1), [CTRL_CMD # cmds]))"

function blit_loop :: "bus \<Rightarrow> nat \<Rightarrow> nat \<Rightarrow> u8 list \<Rightarrow> bool \<times> u8 list list" where
  "blit_loop wr k off fb =
     (if length fb \<le> off then (True, [])
      else
        let n = (if length fb - off < 128 then length fb - off else 128);
            buf = CTRL_DATA # take n (drop off fb)
        in if wr k (n + 1) \<noteq> int (n + 1) then (False, [buf])
           else case blit_loop wr (k + 1) (off + 128) fb of (ok, w) \<Rightarrow> (ok, buf # w))"
  by pat_completeness auto
termination by (relation "measure (\<lambda>(wr, k, off, fb). length fb - off)") auto

declare blit_loop.simps [simp del]

definition blit_window :: "u8 list" where
  "blit_window = [0x21, 0x00, word_of_int (DSP_W - 1), 0x22, 0x00, word_of_int (DSP_PAGES - 1)]"

definition ssd1306_blit :: "bus \<Rightarrow> u8 list \<Rightarrow> bool \<times> u8 list list" where
  "ssd1306_blit wr fb =
     (if length fb \<noteq> DSP_FB_BYTES then (False, [])
      else case write_cmds wr 0 blit_window of (ok, w) \<Rightarrow>
        if \<not> ok then (False, w)
        else case blit_loop wr 1 0 fb of (ok', w') \<Rightarrow> (ok', w @ w'))"

definition ssd1306_init :: "u8 list" where
  "ssd1306_init = [0xAE, 0xD5, 0x80, 0xA8, 0x3F, 0xD3, 0x00, 0x40, 0x8D, 0x14, 0x20, 0x00, 0xA1, 0xC8,
     0xDA, 0x12, 0x81, 0x7F, 0xD9, 0xF1, 0xDB, 0x40, 0xA4, 0xA6, 0x2E, 0xAF]"

text \<open>\<open>opened\<close> and \<open>addressed\<close> are the results of \<^verbatim>\<open>open\<close> and of the \<^verbatim>\<open>ioctl\<close>, \<open>room\<close> of \<^verbatim>\<open>calloc\<close>.\<close>

definition ssd1306_open :: "bool \<Rightarrow> bool \<Rightarrow> bool \<Rightarrow> bus \<Rightarrow> bool \<times> u8 list list" where
  "ssd1306_open opened addressed room wr =
     (if \<not> opened \<or> \<not> addressed \<or> \<not> room then (False, [])
      else write_cmds wr 0 ssd1306_init)"

definition ssd1306_close :: "bus \<Rightarrow> u8 list list" where
  "ssd1306_close wr = snd (write_cmds wr 0 [0xAE])"

section \<open>Pixels\<close>

definition fb_ok :: "dsp_t \<Rightarrow> bool" where
  "fb_ok d \<longleftrightarrow> length (dp_px d) = DSP_FB_BYTES"

definition pix :: "dsp_t \<Rightarrow> int \<Rightarrow> int \<Rightarrow> u8" where
  "pix d r x = dp_px d ! nat (r * DSP_W + x)"

definition on_screen :: "int \<Rightarrow> int \<Rightarrow> bool" where
  "on_screen r x \<longleftrightarrow> 0 \<le> r \<and> r < DSP_PAGES \<and> 0 \<le> x \<and> x < DSP_W"

lemma font_shape: "length font5x7 = 64" "list_all (\<lambda>g. length g = 5) font5x7"
  by (simp_all add: font5x7_def)

lemma font_char_range: "FONT_FIRST \<le> font_char c \<and> font_char c \<le> FONT_LAST"
  by (simp add: font_char_def FONT_FIRST_def FONT_LAST_def Let_def)

lemma font_row_length: "length (font5x7 ! (font_char c - FONT_FIRST)) = 5"
proof -
  have "font_char c - FONT_FIRST < length font5x7"
    using font_char_range[of c] unfolding font_shape FONT_FIRST_def FONT_LAST_def by arith
  then show ?thesis using font_shape(2) by (simp add: list_all_length)
qed

lemma fb_ok_set_col [simp]: "fb_ok (set_col x row b iv d) = fb_ok d"
  by (simp add: fb_ok_def set_col_def)

lemma fb_ok_draw_cols [simp]: "fb_ok (draw_cols x row gs iv d) = fb_ok d"
  by (induction gs arbitrary: x d) simp_all

lemma fb_ok_text_loop [simp]: "fb_ok (text_loop x row s iv d) = fb_ok d"
  by (induction s arbitrary: x d) simp_all

lemma fb_ok_text [simp]: "fb_ok (dsp_text col row s iv d) = fb_ok d"
  using fb_ok_text_loop[of "col * FONT_ADVANCE" row s iv d] by (simp add: dsp_text_def fb_ok_def)

lemma pix_set_col:
  assumes "fb_ok d" "on_screen r x'"
  shows "pix (set_col x row b iv d) r x' = (if r = row \<and> x' = x then (if iv then NOT b else b) else pix d r x')"
proof (cases "on_screen row x")
  case True
  have lt: "nat (row * 128 + x) < 1024" using True by (auto simp: on_screen_def dsp_consts)
  have "r * 128 + x' = row * 128 + x \<Longrightarrow> r = row \<and> x' = x"
    using True assms(2) unfolding on_screen_def dsp_consts
    by (cases r row rule: linorder_cases) linarith+
  then have eq: "nat (row * 128 + x) = nat (r * 128 + x') \<longleftrightarrow> r = row \<and> x' = x"
    using True assms(2) by (auto simp: on_screen_def dsp_consts nat_eq_iff2)
  show ?thesis
    using True assms(1) lt eq by (auto simp: set_col_def pix_def on_screen_def fb_ok_def dsp_consts nth_list_update)
next
  case False
  then show ?thesis using assms(2) by (auto simp: set_col_def on_screen_def not_le not_less)
qed

lemma pix_draw_cols:
  assumes "fb_ok d" "on_screen r x'"
  shows "pix (draw_cols x row gs iv d) r x' =
    (if r = row \<and> x \<le> x' \<and> x' < x + int (length gs)
     then (if iv then NOT (gs ! nat (x' - x)) else gs ! nat (x' - x)) else pix d r x')"
  using assms(1)
proof (induction gs arbitrary: x d)
  case (Cons g gs)
  have ok: "fb_ok (set_col x row g iv d)" using Cons.prems by simp
  have nth: "x < x' \<Longrightarrow> (g # gs) ! nat (x' - x) = gs ! nat (x' - (x + 1))"
  proof -
    assume "x < x'"
    then have "nat (x' - x) = Suc (nat (x' - (x + 1)))" by linarith
    then show ?thesis by simp
  qed
  consider "x' < x" | "x' = x" | "x < x'" by linarith
  then show ?case
    unfolding draw_cols.simps Cons.IH[OF ok] pix_set_col[OF Cons.prems assms(2)]
    by cases (use nth in simp_all)
qed auto

text \<open>Column \<open>k\<close> of a character's cell: five columns of the glyph and the gap.\<close>

definition glyph_col :: "char \<Rightarrow> bool \<Rightarrow> nat \<Rightarrow> u8" where
  "glyph_col c iv k = (let b = (font5x7 ! (font_char c - FONT_FIRST) @ [0]) ! k in if iv then NOT b else b)"

lemma pix_text_loop:
  assumes "fb_ok d" "on_screen r x'"
  shows "pix (text_loop x row s iv d) r x' =
    (if r = row \<and> x \<le> x' \<and> x' < x + 6 * int (length s)
     then glyph_col (s ! nat ((x' - x) div 6)) iv (nat ((x' - x) mod 6)) else pix d r x')"
  using assms(1)
proof (induction s arbitrary: x d)
  case (Cons c s)
  let ?g = "font5x7 ! (font_char c - FONT_FIRST)"
  let ?d = "set_col (x + int FONT_W) row 0x00 iv (draw_cols x row ?g iv d)"
  have ok: "fb_ok ?d" using Cons.prems by simp
  have d: "pix ?d r x' = (if r = row \<and> x \<le> x' \<and> x' < x + 6 then glyph_col c iv (nat (x' - x)) else pix d r x')"
  proof -
    have "(?g @ [0]) ! nat (x' - x) = (if x' = x + 5 then 0 else ?g ! nat (x' - x))"
      if "x \<le> x'" "x' < x + 6"
      using that by (auto simp: nth_append font_row_length nat_less_iff)
    then show ?thesis
      using Cons.prems assms(2)
      by (auto simp: pix_set_col pix_draw_cols font_row_length FONT_W_def glyph_col_def Let_def)
  qed
  show ?case
  proof (cases "x < DSP_W")
    case False
    with assms(2) show ?thesis by (simp add: on_screen_def)
  next
    case True
    have "pix (text_loop x row (c # s) iv d) r x' = pix (text_loop (x + 6) row s iv ?d) r x'"
      using True by (simp add: FONT_ADVANCE_def)
    also have "\<dots> = (if r = row \<and> x + 6 \<le> x' \<and> x' < x + 6 + 6 * int (length s)
       then glyph_col (s ! nat ((x' - (x + 6)) div 6)) iv (nat ((x' - (x + 6)) mod 6)) else pix ?d r x')"
      by (rule Cons.IH[OF ok])
    also have "\<dots> = (if r = row \<and> x \<le> x' \<and> x' < x + 6 * int (length (c # s))
       then glyph_col ((c # s) ! nat ((x' - x) div 6)) iv (nat ((x' - x) mod 6)) else pix d r x')"
    proof -
      have far: "(x' - x) mod 6 = (x' - (x + 6)) mod 6"
        "x + 6 \<le> x' \<Longrightarrow> nat ((x' - x) div 6) = Suc (nat ((x' - (x + 6)) div 6))"
      proof -
        have e: "x' - x = (x' - (x + 6)) + 6" by simp
        show "(x' - x) mod 6 = (x' - (x + 6)) mod 6" by (subst e) (simp only: mod_add_self2)
        assume "x + 6 \<le> x'"
        then have "0 \<le> (x' - (x + 6)) div 6" by simp
        moreover have "(x' - x) div 6 = (x' - (x + 6)) div 6 + 1" by (subst e) (simp only: div_add_self2)
        ultimately show "nat ((x' - x) div 6) = Suc (nat ((x' - (x + 6)) div 6))" by simp
      qed
      consider "x' < x" | "x \<le> x'" "x' < x + 6" | "x + 6 \<le> x'" by linarith
      then show ?thesis
      proof cases
        case 2
        then have "(x' - x) div 6 = 0" "(x' - x) mod 6 = x' - x" by simp_all
        with 2 show ?thesis by (simp add: d)
      qed (simp_all add: d far)
    qed
    finally show ?thesis .
  qed
qed auto

lemma pix_text:
  assumes "fb_ok d" "on_screen r x'"
  shows "pix (dsp_text col row s iv d) r x' =
    (if r = row \<and> col * 6 \<le> x' \<and> x' < col * 6 + 6 * int (length s)
     then glyph_col (s ! nat ((x' - col * 6) div 6)) iv (nat ((x' - col * 6) mod 6)) else pix d r x')"
  using pix_text_loop[OF assms, of "col * 6" row s iv] by (simp add: dsp_text_def pix_def FONT_ADVANCE_def)

lemma hrule_fold:
  "length (fold (\<lambda>x px. px[p + x := px ! (p + x) OR b]) xs px) = length px"
  "k \<notin> (\<lambda>x. p + x) ` set xs \<Longrightarrow> fold (\<lambda>x px. px[p + x := px ! (p + x) OR b]) xs px ! k = px ! k"
  by (induction xs arbitrary: px) (auto simp: nth_list_update)

lemma fb_ok_hrule [simp]: "fb_ok (dsp_hrule y d) = fb_ok d"
  by (simp add: dsp_hrule_def fb_ok_def hrule_cols_def hrule_fold)

lemma pix_hrule:
  assumes "on_screen r x" "r \<noteq> y div 8"
  shows "pix (dsp_hrule y d) r x = pix d r x"
proof -
  have "nat (r * 128 + x) \<notin> (\<lambda>x. nat (y div 8) * 128 + x) ` set [0..<128]" if "0 \<le> y"
    using assms that by (auto simp: on_screen_def dsp_consts nat_eq_iff)
  then show ?thesis by (auto simp: dsp_hrule_def pix_def hrule_cols_def hrule_fold(2) dsp_consts)
qed

section \<open>The screen as text\<close>

definition cell :: "dsp_t \<Rightarrow> int \<Rightarrow> nat \<Rightarrow> u8 list" where
  "cell d r c = map (\<lambda>k. pix d r (int c * 6 + int k)) [0..<6]"

definition glyph :: "char \<times> bool \<Rightarrow> u8 list" where
  "glyph t = map (glyph_col (fst t) (snd t)) [0..<6]"

abbreviation blank :: "u8 list" where "blank \<equiv> replicate 6 0"

definition screen_row :: "dsp_t \<Rightarrow> int \<Rightarrow> u8 list list" where
  "screen_row d r = map (cell d r) [0..<nat DSP_COLS]"

definition row_image :: "(char \<times> bool) list \<Rightarrow> u8 list list" where
  "row_image t = map (\<lambda>c. if c < length t then glyph (t ! c) else blank) [0..<nat DSP_COLS]"

definition text_row :: "int \<Rightarrow> bool" where
  "text_row r \<longleftrightarrow> 0 \<le> r \<and> r < DSP_PAGES"

definition plain :: "bool \<Rightarrow> string \<Rightarrow> (char \<times> bool) list" where
  "plain iv s = map (\<lambda>c. (c, iv)) s"

lemma cell_screen: "text_row r \<Longrightarrow> c < 21 \<Longrightarrow> k < 6 \<Longrightarrow> on_screen r (int c * 6 + int k)"
  by (simp add: text_row_def on_screen_def dsp_consts)

lemma cell_text:
  assumes "fb_ok d" "text_row r" "c < 21"
  shows "cell (dsp_text (int col) row s iv d) r c =
    (if r = row \<and> col \<le> c \<and> c < col + length s then glyph (s ! (c - col), iv) else cell d r c)"
proof -
  have "pix (dsp_text (int col) row s iv d) r (int c * 6 + int k) =
      (if r = row \<and> col \<le> c \<and> c < col + length s then glyph_col (s ! (c - col)) iv k
       else pix d r (int c * 6 + int k))" if k: "k < 6" for k
  proof (cases "col \<le> c")
    case True
    then have e: "int c * 6 + int k - int col * 6 = int (c - col) * 6 + int k" by (simp add: of_nat_diff algebra_simps)
    have q: "(int (c - col) * 6 + int k) div 6 = int (c - col)" "(int (c - col) * 6 + int k) mod 6 = int k"
      using k by simp_all
    have "int c * 6 + int k < int col * 6 + 6 * int (length s) \<longleftrightarrow> c < col + length s" using k by linarith
    with True show ?thesis
      unfolding pix_text[OF assms(1) cell_screen[OF assms(2,3) k]] e q by (auto simp del: of_nat_diff)
  next
    case False
    then have "\<not> int col * 6 \<le> int c * 6 + int k" using k by linarith
    with False show ?thesis by (simp add: pix_text[OF assms(1) cell_screen[OF assms(2,3) k]])
  qed
  then show ?thesis by (auto simp: cell_def glyph_def)
qed

lemma cell_hrule: "text_row r \<Longrightarrow> c < 21 \<Longrightarrow> r \<noteq> y div 8 \<Longrightarrow> cell (dsp_hrule y d) r c = cell d r c"
  by (auto simp: cell_def pix_hrule cell_screen)

lemma fb_ok_clear [simp]: "fb_ok (dsp_clear d)"
  by (simp add: fb_ok_def dsp_clear_def)

lemma cell_clear: "text_row r \<Longrightarrow> c < 21 \<Longrightarrow> cell (dsp_clear d) r c = blank"
proof -
  assume a: "text_row r" "c < 21"
  have "pix (dsp_clear d) r (int c * 6 + int k) = 0" if "k < 6" for k
    using cell_screen[OF a that] by (auto simp: pix_def dsp_clear_def on_screen_def dsp_consts)
  then have "cell (dsp_clear d) r c = map (\<lambda>k. 0) [0..<6]" by (simp add: cell_def)
  then show ?thesis by (simp add: map_replicate_const)
qed

lemma glyph_space: "glyph (CHR '' '', False) = blank"
  by code_simp

section \<open>The row of machines\<close>

text \<open>
  What row 2 reads, said without the loop: a board's number is its rank among the machines, counted from
  the head, the coordinator's cell carries no number, and a cell is drawn when it starts left of column 19.
\<close>

definition machine_no :: "dsp_board_t list \<Rightarrow> nat \<Rightarrow> nat" where
  "machine_no bs i = length (filter (\<lambda>b. \<not> db_is_coord b) (take (Suc i) bs))"

definition board_label :: "dsp_board_t list \<Rightarrow> nat \<Rightarrow> string" where
  "board_label bs i = (if db_is_coord (bs ! i) then ''C'' else show_u (machine_no bs i mod 100))"

definition board_cell :: "dsp_board_t list \<Rightarrow> nat \<Rightarrow> (char \<times> bool) list" where
  "board_cell bs i = plain (db_is_focus (bs ! i)) (board_label bs i) @
     (if db_has_input (bs ! i) then plain False ''*'' else []) @
     (if Suc i < length bs then plain False ''-'' else [])"

definition cell_start :: "dsp_board_t list \<Rightarrow> nat \<Rightarrow> nat" where
  "cell_start bs i = length (concat (map (board_cell bs) [0..<i]))"

definition drawn_from :: "dsp_board_t list \<Rightarrow> nat \<Rightarrow> (char \<times> bool) list" where
  "drawn_from bs i = concat (map (board_cell bs) (filter (\<lambda>j. cell_start bs j < 19) [i..<length bs]))"

lemma cell_start_Suc: "cell_start bs (Suc i) = cell_start bs i + length (board_cell bs i)"
  by (simp add: cell_start_def)

lemma cell_start_mono: "i \<le> j \<Longrightarrow> cell_start bs i \<le> cell_start bs j"
  by (induction j rule: dec_induct) (simp_all add: cell_start_Suc)

lemma drawn_from_step:
  assumes "i < length bs"
  shows "drawn_from bs i = (if cell_start bs i < 19 then board_cell bs i @ drawn_from bs (Suc i) else [])"
proof (cases "cell_start bs i < 19")
  case True
  then show ?thesis using assms by (simp add: drawn_from_def upt_conv_Cons)
next
  case False
  then have "filter (\<lambda>j. cell_start bs j < 19) [i..<length bs] = []"
    using cell_start_mono[of i] by (auto simp: filter_empty_conv not_less intro: order_trans)
  with False show ?thesis by (simp add: drawn_from_def)
qed

lemma plain_simps [simp]:
  "length (plain iv s) = length s" "plain iv [] = []" "plain iv (c # s) = (c, iv) # plain iv s"
  "n < length s \<Longrightarrow> plain iv s ! n = (s ! n, iv)"
  by (simp_all add: plain_def)

lemma label_short: "snprintf_str 5 (show_u (m mod 100)) = show_u (m mod 100)"
  using show_u_length[of "m mod 100" 2] by (simp add: snprintf_str_def)

text \<open>Text laid over a screen from a column on.\<close>

definition overlay :: "nat \<Rightarrow> (char \<times> bool) list \<Rightarrow> (nat \<Rightarrow> u8 list) \<Rightarrow> nat \<Rightarrow> u8 list" where
  "overlay col t f c = (if col \<le> c \<and> c < col + length t then glyph (t ! (c - col)) else f c)"

lemma overlay_append: "overlay (col + length s) t (overlay col s f) c = overlay col (s @ t) f c"
  by (auto simp: overlay_def nth_append)

lemma overlay_Nil [simp]: "overlay col [] f c = f c"
  by (auto simp: overlay_def)

lemma cell_text_overlay:
  assumes "fb_ok d" "text_row row" "c < 21"
  shows "cell (dsp_text (int col) row s iv d) row c = overlay col (plain iv s) (cell d row) c"
  by (auto simp: cell_text[OF assms] overlay_def)

text \<open>One text written into row \<open>row\<close>, as the chain of such writes sees it.\<close>

definition wrote :: "int \<Rightarrow> nat \<Rightarrow> (char \<times> bool) list \<Rightarrow> dsp_t \<Rightarrow> dsp_t \<Rightarrow> bool" where
  "wrote row col t d d' \<longleftrightarrow> fb_ok d' \<and> (\<forall>c < 21. cell d' row c = overlay col t (cell d row) c) \<and>
     (\<forall>r c. text_row r \<and> r \<noteq> row \<and> c < 21 \<longrightarrow> cell d' r c = cell d r c)"

lemma wrote_text:
  "fb_ok d \<Longrightarrow> text_row row \<Longrightarrow> wrote row col (plain iv s) d (dsp_text (int col) row s iv d)"
  by (auto simp: wrote_def cell_text_overlay) (simp add: cell_text)

lemma wrote_none: "fb_ok d \<Longrightarrow> wrote row col [] d d"
  by (simp add: wrote_def)

lemma overlay_cong: "f c = g c \<Longrightarrow> overlay col t f c = overlay col t g c"
  by (simp add: overlay_def)

lemma wrote_trans:
  assumes "wrote row col s d1 d2" "wrote row (col + length s) t d2 d3"
  shows "wrote row col (s @ t) d1 d3"
  using assms unfolding wrote_def
  by (auto simp: overlay_append[symmetric] intro: overlay_cong)

lemma wrote_fb: "wrote row col t d d' \<Longrightarrow> fb_ok d'"
  by (simp add: wrote_def)

definition machines :: "dsp_board_t list \<Rightarrow> nat" where
  "machines bs = length (filter (\<lambda>b. \<not> db_is_coord b) bs)"

lemma machine_no_step:
  "i < length bs \<Longrightarrow> machine_no bs i = machines (take i bs) + (if db_is_coord (bs ! i) then 0 else 1)"
  by (simp add: machine_no_def machines_def take_Suc_conv_app_nth)

lemma chain_step:
  assumes "fb_ok d" "i < length bs" "col < 19"
  obtains d' where "wrote 2 col (board_cell bs i) d d'"
    "chain_loop (drop i bs) (int col) (machines (take i bs)) d =
     chain_loop (drop (Suc i) bs) (int (col + length (board_cell bs i))) (machines (take (Suc i) bs)) d'"
proof -
  let ?b = "bs ! i" and ?l = "board_label bs i"
  let ?col1 = "col + length ?l" and ?star = "if db_has_input (bs ! i) then plain False ''*'' else []"
  let ?dash = "if Suc i < length bs then plain False ''-'' else []"
  define d1 where "d1 = dsp_text (int col) 2 ?l (db_is_focus ?b) d"
  define d2 where "d2 = (if db_has_input ?b then dsp_text (int ?col1) 2 ''*'' False d1 else d1)"
  let ?col2 = "?col1 + length ?star"
  define d3 where "d3 = (if Suc i < length bs then dsp_text (int ?col2) 2 ''-'' False d2 else d2)"
  have row: "text_row 2" by (simp add: text_row_def dsp_consts)
  have w1: "wrote 2 col (plain (db_is_focus ?b) ?l) d d1" unfolding d1_def by (rule wrote_text[OF assms(1) row])
  have w2: "wrote 2 ?col1 ?star d1 d2"
    using wrote_text[OF wrote_fb[OF w1] row, of ?col1 False "''*''"] wrote_none[OF wrote_fb[OF w1]]
    by (simp add: d2_def)
  have w3: "wrote 2 ?col2 ?dash d2 d3"
    using wrote_text[OF wrote_fb[OF w2] row, of ?col2 False "''-''"] wrote_none[OF wrote_fb[OF w2]]
    by (simp add: d3_def)
  have w23: "wrote 2 ?col1 (?star @ ?dash) d1 d3" by (rule wrote_trans[OF w2 w3])
  have "wrote 2 col (board_cell bs i) d d3"
    unfolding board_cell_def by (rule wrote_trans[OF w1]) (use w23 in simp)
  moreover have "chain_loop (drop i bs) (int col) (machines (take i bs)) d =
     chain_loop (drop (Suc i) bs) (int (col + length (board_cell bs i))) (machines (take (Suc i) bs)) d3"
  proof -
    have drop: "drop i bs = ?b # drop (Suc i) bs" using assms(2) by (simp add: Cons_nth_drop_Suc)
    have m: "machines (take (Suc i) bs) = (if db_is_coord ?b then machines (take i bs) else machines (take i bs) + 1)"
      using assms(2) by (simp add: machines_def take_Suc_conv_app_nth)
    have lab: "snprintf_str 5 (if db_is_coord ?b then ''C'' else
        show_u ((if db_is_coord ?b then machines (take i bs) else machines (take i bs) + 1) mod 100)) = ?l"
      using assms(2) by (simp add: board_label_def label_short machine_no_step) (simp add: snprintf_str_def)
    have ne: "drop (Suc i) bs \<noteq> [] \<longleftrightarrow> Suc i < length bs" by (simp add: not_le)
    show ?thesis
      unfolding drop chain_loop.simps Let_def lab ne
      using assms(3) by (simp add: m d1_def d2_def d3_def board_cell_def dsp_consts add.commute add.left_commute)
  qed
  ultimately show thesis by (rule that)
qed

lemma chain_loop_wrote:
  assumes "fb_ok d" "i \<le> length bs"
  shows "wrote 2 (cell_start bs i) (drawn_from bs i) d
    (chain_loop (drop i bs) (int (cell_start bs i)) (machines (take i bs)) d)"
  using assms
proof (induction "length bs - i" arbitrary: i d)
  case 0
  then show ?case by (simp add: drawn_from_def wrote_none)
next
  case (Suc n)
  then have i: "i < length bs" by simp
  show ?case
  proof (cases "cell_start bs i < 19")
    case True
    from chain_step[OF Suc.prems(1) i True] obtain d' where w: "wrote 2 (cell_start bs i) (board_cell bs i) d d'"
      and e: "chain_loop (drop i bs) (int (cell_start bs i)) (machines (take i bs)) d =
        chain_loop (drop (Suc i) bs) (int (cell_start bs (Suc i))) (machines (take (Suc i) bs)) d'"
      by (auto simp: cell_start_Suc)
    have "wrote 2 (cell_start bs (Suc i)) (drawn_from bs (Suc i)) d'
        (chain_loop (drop (Suc i) bs) (int (cell_start bs (Suc i))) (machines (take (Suc i) bs)) d')"
      using Suc.hyps(2) wrote_fb[OF w] i by (intro Suc.hyps(1)) simp_all
    then show ?thesis
      unfolding e drawn_from_step[OF i] using True wrote_trans[OF w] by (simp add: cell_start_Suc)
  next
    case False
    then have "chain_loop (drop i bs) (int (cell_start bs i)) (machines (take i bs)) d = d"
      using i by (simp add: Cons_nth_drop_Suc[symmetric] dsp_consts)
    then show ?thesis using False Suc.prems(1) by (simp add: drawn_from_step[OF i] wrote_none)
  qed
qed

section \<open>The whole screen\<close>

definition status_row :: "dsp_board_t list \<Rightarrow> dsp_status_t \<Rightarrow> nat \<Rightarrow> (char \<times> bool) list" where
  "status_row bs st r =
     (if r = 0 then plain False (''DESKHOP+'' @ replicate 11 (CHR '' '') @ ''L'' @ show_u (level_code (ds_level st)))
      else if r = 2 then drawn_from bs 0
      else if r = 3 then plain False (routing_line st)
      else if r = 4 then plain False (if ds_pairing st then ''PAIRING - COMPARE:'' else link_line st)
      else if r = 5 then
        (if \<not> ds_pairing st then plain False (errors_line st)
         else case ds_sas st of Some sas \<Rightarrow> plain True (line_buf (''   '' @ sas))
           | None \<Rightarrow> plain False ''   WAITING...'')
      else if r = 7 then plain False (case ds_message st of Some m \<Rightarrow> m | None \<Rightarrow> uptime_line st)
      else [])"

lemma screen_rowI: "(\<And>c. c < 21 \<Longrightarrow> cell d r c = overlay 0 t (\<lambda>_. blank) c) \<Longrightarrow> screen_row d r = row_image t"
  by (auto simp: screen_row_def row_image_def overlay_def dsp_consts)

lemmas cell_text0 = cell_text[where col = 0, simplified]

lemma cell_text0_same:
  "fb_ok d \<Longrightarrow> text_row row \<Longrightarrow> c < 21 \<Longrightarrow>
   cell (dsp_text 0 row s iv d) row c = overlay 0 (plain iv s) (cell d row) c"
  using cell_text_overlay[of d row c 0 s iv] by simp

lemma cell_text_other: "fb_ok d \<Longrightarrow> text_row r \<Longrightarrow> c < 21 \<Longrightarrow> r \<noteq> row \<Longrightarrow> cell (dsp_text 0 row s iv d) r c = cell d r c"
  by (simp add: cell_text0)

lemma cell_text_level:
  "fb_ok d \<Longrightarrow> text_row r \<Longrightarrow> c < 21 \<Longrightarrow> cell (dsp_text (DSP_COLS - 2) 0 s iv d) r c =
     (if r = 0 then overlay 19 (plain iv s) (cell d 0) c else cell d r c)"
  using cell_text_overlay[of d 0 c 19 s iv] cell_text[of d r c 19 0 s iv] by (auto simp: dsp_consts)

lemma middle_fb [simp]: "fb_ok d \<Longrightarrow> fb_ok (middle_rows st d)"
  by (simp add: middle_rows_def Let_def split: option.splits)

lemma chain_wrote: "fb_ok d \<Longrightarrow> wrote 2 0 (drawn_from bs 0) d (chain_loop bs 0 0 d)"
  using chain_loop_wrote[of d 0 bs] by (simp add: cell_start_def machines_def)

lemma chain_fb [simp]: "fb_ok d \<Longrightarrow> fb_ok (chain_loop bs 0 0 d)"
  using wrote_fb[OF chain_wrote] .

lemma chain_cell_other: "fb_ok d \<Longrightarrow> text_row r \<Longrightarrow> c < 21 \<Longrightarrow> r \<noteq> 2 \<Longrightarrow> cell (chain_loop bs 0 0 d) r c = cell d r c"
  using chain_wrote[of d bs] by (simp add: wrote_def)

lemma chain_cell_own: "fb_ok d \<Longrightarrow> c < 21 \<Longrightarrow> cell (chain_loop bs 0 0 d) 2 c = overlay 0 (drawn_from bs 0) (cell d 2) c"
  using chain_wrote[of d bs] by (simp add: wrote_def)

lemma middle_cell_other:
  "fb_ok d \<Longrightarrow> text_row r \<Longrightarrow> c < 21 \<Longrightarrow> r \<noteq> 4 \<Longrightarrow> r \<noteq> 5 \<Longrightarrow> cell (middle_rows st d) r c = cell d r c"
  by (simp add: middle_rows_def Let_def cell_text_other split: option.splits)

lemma overlay_ext: "(\<And>c. c < 21 \<Longrightarrow> f c = g c) \<Longrightarrow> c < 21 \<Longrightarrow> overlay col t f c = overlay col t g c"
  by (simp add: overlay_def)

lemma overlay_gap:
  "overlay (length a + k) t (overlay 0 a (\<lambda>_. blank)) c =
     overlay 0 (a @ replicate k (CHR '' '', False) @ t) (\<lambda>_. blank) c"
proof -
  consider "c < length a" | "length a \<le> c" "c < length a + k" | "length a + k \<le> c" by linarith
  then show ?thesis
    by cases (auto simp: overlay_def nth_append glyph_space)
qed

lemma header_overlay:
  "overlay 19 (plain False (''L'' @ s)) (overlay 0 (plain False ''DESKHOP+'') (\<lambda>_. blank)) c =
     overlay 0 (plain False (''DESKHOP+'' @ replicate 11 (CHR '' '') @ ''L'' @ s)) (\<lambda>_. blank) c"
  using overlay_gap[of "plain False ''DESKHOP+''" 11 "plain False (''L'' @ s)" c] by (simp add: plain_def)

lemma text_rows: "text_row 0" "text_row 2" "text_row 3" "text_row 4" "text_row 5" "text_row 7"
  by (simp_all add: text_row_def dsp_consts)

lemma level_line: "line_buf (''L'' @ show_u (level_code l)) = ''L'' @ show_u (level_code l)"
  by (cases l; simp add: line_buf_def snprintf_str_def dsp_consts) (simp_all add: show_u_def show_base.simps)

text \<open>Writing on a cell that is still blank.\<close>

lemma cell_text_blank:
  "cell d row c = blank \<Longrightarrow> fb_ok d \<Longrightarrow> text_row row \<Longrightarrow> c < 21 \<Longrightarrow>
   cell (dsp_text 0 row s iv d) row c = overlay 0 (plain iv s) (\<lambda>_. blank) c"
  by (simp add: cell_text0_same overlay_def)

lemma chain_cell_blank:
  "cell d 2 c = blank \<Longrightarrow> fb_ok d \<Longrightarrow> c < 21 \<Longrightarrow>
   cell (chain_loop bs 0 0 d) 2 c = overlay 0 (drawn_from bs 0) (\<lambda>_. blank) c"
  by (simp add: chain_cell_own overlay_def)

lemma cell_text_level_own:
  "cell d 0 c = overlay 0 t (\<lambda>_. blank) c \<Longrightarrow> fb_ok d \<Longrightarrow> c < 21 \<Longrightarrow>
   cell (dsp_text (DSP_COLS - 2) 0 s iv d) 0 c = overlay 19 (plain iv s) (overlay 0 t (\<lambda>_. blank)) c"
  by (simp add: cell_text_level text_rows overlay_def)

lemma cell_text_level_other:
  "fb_ok d \<Longrightarrow> text_row r \<Longrightarrow> c < 21 \<Longrightarrow> r \<noteq> 0 \<Longrightarrow> cell (dsp_text (DSP_COLS - 2) 0 s iv d) r c = cell d r c"
  by (simp add: cell_text_level)

lemmas draw_simps = cell_text_other cell_text_level_other cell_hrule cell_clear chain_cell_other
  middle_cell_other text_rows cell_text_blank chain_cell_blank cell_text_level_own

definition before_middle :: "(dsp_board_t list \<Rightarrow> dsp_board_t list) \<Rightarrow> dsp_status_t \<Rightarrow> dsp_t \<Rightarrow> dsp_t" where
  "before_middle qs st d0 =
     dsp_text 0 3 (routing_line st) False (chain_loop (qs (take 16 (ds_board st))) 0 0
       (dsp_hrule 9 (dsp_text (DSP_COLS - 2) 0 (line_buf (''L'' @ show_u (level_code (ds_level st)))) False
         (dsp_text 0 0 (line_buf ''DESKHOP+'') False (dsp_clear d0)))))"

lemma render_before_middle:
  "dsp_render_status qs st d = dsp_text 0 7 (case ds_message st of Some m \<Rightarrow> m | None \<Rightarrow> uptime_line st) False
     (dsp_hrule 55 (middle_rows st (before_middle qs st d)))"
  by (simp add: dsp_render_status_def before_middle_def Let_def split: option.splits)

lemma before_middle_fb [simp]: "fb_ok (before_middle qs st d)"
  by (simp add: before_middle_def)

lemma before_middle_cells:
  assumes "c < 21"
  shows "cell (before_middle qs st d) 0 c =
      overlay 19 (plain False (line_buf (''L'' @ show_u (level_code (ds_level st)))))
        (overlay 0 (plain False (line_buf ''DESKHOP+'')) (\<lambda>_. blank)) c"
    "cell (before_middle qs st d) 2 c = overlay 0 (drawn_from (qs (take 16 (ds_board st))) 0) (\<lambda>_. blank) c"
    "cell (before_middle qs st d) 3 c = overlay 0 (plain False (routing_line st)) (\<lambda>_. blank) c"
    "r \<in> {4, 5, 7} \<Longrightarrow> cell (before_middle qs st d) r c = blank"
  unfolding before_middle_def using assms by (auto simp add: draw_simps)

lemma middle_cells:
  assumes "c < 21" "fb_ok d" "cell d 4 c = blank" "cell d 5 c = blank"
  shows "cell (middle_rows st d) 4 c = overlay 0 (status_row bs st 4) (\<lambda>_. blank) c"
    "cell (middle_rows st d) 5 c = overlay 0 (status_row bs st 5) (\<lambda>_. blank) c"
  using assms by (simp_all add: middle_rows_def status_row_def Let_def draw_simps split: option.splits)

lemma render_cells:
  assumes c: "c < 21" and r: "r \<in> {0, 2, 3, 4, 5, 7}"
  shows "cell (dsp_render_status qs st d) (int r) c =
    overlay 0 (status_row (qs (take 16 (ds_board st))) st r) (\<lambda>_. blank) c"
proof -
  have desk: "line_buf ''DESKHOP+'' = ''DESKHOP+''" by (simp add: line_buf_def snprintf_str_def dsp_consts)
  consider "r = 0" | "r = 2" | "r = 3" | "r = 4" | "r = 5" | "r = 7" using r by auto
  then show ?thesis
  proof cases
    case 1
    with c show ?thesis
      by (simp add: render_before_middle draw_simps before_middle_cells desk level_line header_overlay status_row_def
          del: append_Cons append_Nil plain_simps)
  next
    case 4
    with c show ?thesis by (simp add: render_before_middle draw_simps before_middle_cells middle_cells(1))
  next
    case 5
    with c show ?thesis by (simp add: render_before_middle draw_simps before_middle_cells middle_cells(2))
  qed (use c in \<open>simp_all add: render_before_middle draw_simps before_middle_cells status_row_def
      split: option.splits\<close>)
qed

lemma font_distinct: "distinct font5x7"
  by code_simp

lemma render_screen_row:
  "r \<in> {0, 2, 3, 4, 5, 7} \<Longrightarrow> screen_row (dsp_render_status qs st d) (int r) =
     row_image (status_row (qs (take 16 (ds_board st))) st r)"
  by (rule screen_rowI) (rule render_cells)

section \<open>Numbers along the desk\<close>

lemma qsort_strict:
  assumes "qsort_ok qs" "distinct (map db_rel_pos bs)"
  shows "mset (qs bs) = mset bs" "sorted_wrt (\<lambda>x y. db_rel_pos x < db_rel_pos y) (qs bs)"
proof -
  show m: "mset (qs bs) = mset bs" using assms(1) by (simp add: qsort_ok_def)
  have "mset (map db_rel_pos (qs bs)) = mset (map db_rel_pos bs)" using m by simp
  then have d: "distinct (map db_rel_pos (qs bs))" using assms(2) by (metis mset_eq_imp_distinct_iff)
  have le: "sorted_wrt (\<lambda>x y. db_rel_pos x \<le> db_rel_pos y) (qs bs)"
    using assms(1) by (simp add: qsort_ok_def by_position_def)
  show "sorted_wrt (\<lambda>x y. db_rel_pos x < db_rel_pos y) (qs bs)"
    unfolding sorted_wrt_iff_nth_less
  proof (intro allI impI)
    fix i j assume ij: "i < j" "j < length (qs bs)"
    then have "db_rel_pos (qs bs ! i) \<noteq> db_rel_pos (qs bs ! j)"
      using d nth_eq_iff_index_eq[of "map db_rel_pos (qs bs)" i j] by simp
    with le ij show "db_rel_pos (qs bs ! i) < db_rel_pos (qs bs ! j)"
      by (simp add: sorted_wrt_iff_nth_less less_le)
  qed
qed

lemma machine_no_rank:
  assumes s: "sorted_wrt (\<lambda>x y. db_rel_pos x < db_rel_pos y) xs" and i: "i < length xs"
    and b: "\<not> db_is_coord (xs ! i)"
  shows "machine_no xs i = Suc (card {x \<in> set xs. \<not> db_is_coord x \<and> db_rel_pos x < db_rel_pos (xs ! i)})"
proof -
  have lt: "j < k \<Longrightarrow> k < length xs \<Longrightarrow> db_rel_pos (xs ! j) < db_rel_pos (xs ! k)" for j k
    using s by (simp add: sorted_wrt_iff_nth_less)
  have "distinct xs"
    unfolding distinct_conv_nth by (metis less_irrefl linorder_neqE_nat lt)
  then have "distinct (filter (\<lambda>b. \<not> db_is_coord b) (take i xs))" by simp
  moreover have "x \<in> set (take i xs) \<longleftrightarrow> x \<in> set xs \<and> db_rel_pos x < db_rel_pos (xs ! i)" for x
  proof
    assume "x \<in> set (take i xs)"
    then obtain j where "j < i" "x = xs ! j" using i by (auto simp: in_set_conv_nth)
    with lt i show "x \<in> set xs \<and> db_rel_pos x < db_rel_pos (xs ! i)" by simp
  next
    assume "x \<in> set xs \<and> db_rel_pos x < db_rel_pos (xs ! i)"
    then obtain j where j: "j < length xs" "x = xs ! j" "db_rel_pos (xs ! j) < db_rel_pos (xs ! i)"
      by (auto simp: in_set_conv_nth)
    then have "j < i" using lt[of i j] by (cases i j rule: linorder_cases) auto
    with i j show "x \<in> set (take i xs)" by (auto simp: in_set_conv_nth)
  qed
  then have "{x \<in> set xs. \<not> db_is_coord x \<and> db_rel_pos x < db_rel_pos (xs ! i)} =
      set (filter (\<lambda>b. \<not> db_is_coord b) (take i xs))" by auto
  ultimately have "card {x \<in> set xs. \<not> db_is_coord x \<and> db_rel_pos x < db_rel_pos (xs ! i)} =
      length (filter (\<lambda>b. \<not> db_is_coord b) (take i xs))" by (simp only: distinct_card)
  then show ?thesis using i b by (simp add: machine_no_def take_Suc_conv_app_nth)
qed

lemma label_length: "1 \<le> length (board_label bs i) \<and> length (board_label bs i) \<le> 2"
  using show_u_length[of "machine_no bs i mod 100" 2] show_base_ok[of 10 "machine_no bs i mod 100"]
  by (auto simp: board_label_def show_u_def Suc_le_eq)

lemma drawn_from_nth:
  assumes "i < length bs" "cell_start bs i < 19" "k < length (board_cell bs i)"
  shows "cell_start bs i + k < length (drawn_from bs 0) \<and> drawn_from bs 0 ! (cell_start bs i + k) = board_cell bs i ! k"
proof -
  have "[0..<length bs] = [0..<i] @ i # [Suc i..<length bs]"
    using assms(1) by (metis le0 less_imp_le_nat upt_add_eq_append le_add_diff_inverse upt_conv_Cons)
  moreover have "filter (\<lambda>j. cell_start bs j < 19) [0..<i] = [0..<i]"
    using assms(2) by (intro filter_True) (auto intro!: le_less_trans[OF cell_start_mono[of _ i]])
  ultimately have "drawn_from bs 0 = concat (map (board_cell bs) [0..<i]) @ board_cell bs i @ drawn_from bs (Suc i)"
    using assms(2) by (simp add: drawn_from_def)
  then show ?thesis using assms(3) by (simp add: cell_start_def nth_append)
qed

section \<open>Reading the pairing code\<close>

lemma hex_glyphs: "distinct (map (\<lambda>c. glyph (c, True)) ''0123456789ABCDEF'')"
  by code_simp

lemma hex_digit_in: "hex_digit n \<in> set ''0123456789ABCDEF''"
proof -
  have "unat (n AND 0xF) < 16"
    using word_and_le1[of n "0xF"] by (simp add: word_le_nat_alt)
  then show ?thesis unfolding hex_digit_def by (intro nth_mem) simp
qed

lemma hex_digit_legible:
  assumes "glyph (hex_digit a, True) = glyph (hex_digit b, True)"
  shows "hex_digit a = hex_digit b"
proof -
  have "inj_on (\<lambda>c. glyph (c, True)) (set ''0123456789ABCDEF'')"
    using hex_glyphs by (simp only: distinct_map)
  then show ?thesis using assms by (rule inj_onD) (rule hex_digit_in)+
qed

lemma sas_string_six: "length (dhp_pair_sas_string p) = 6" "k < 6 \<Longrightarrow> \<exists>n. dhp_pair_sas_string p ! k = hex_digit n"
  by (simp_all add: dhp_pair_sas_string_def DHP_SAS_BYTES_def numeral_3_eq_3 numeral_eq_Suc less_Suc_eq)
    (auto simp: nth_Cons')

lemma row_image_nth: "c < 21 \<Longrightarrow> c < length t \<Longrightarrow> row_image t ! c = glyph (t ! c)"
  by (simp add: row_image_def dsp_consts)

lemma sas_row_nth:
  assumes "ds_pairing st" "ds_sas st = Some (dhp_pair_sas_string p)" "k < 6"
  shows "screen_row (dsp_render_status qs st d) 5 ! (3 + k) = glyph (dhp_pair_sas_string p ! k, True)"
proof -
  have l: "line_buf (''   '' @ dhp_pair_sas_string p) = ''   '' @ dhp_pair_sas_string p"
    by (simp add: line_buf_def snprintf_str_def dsp_consts sas_string_six)
  have "screen_row (dsp_render_status qs st d) (int 5) = row_image (plain True (''   '' @ dhp_pair_sas_string p))"
    using assms(1,2) l by (subst render_screen_row) (simp_all add: status_row_def del: append_Cons append_Nil plain_simps)
  then show ?thesis
    using assms(3) by (simp add: row_image_nth sas_string_six(1))
qed

section \<open>Sending the frame\<close>

lemma blit_loop_ok:
  "blit_loop wr k off fb = (True, w) \<Longrightarrow> concat (map tl w) = drop off fb \<and>
     list_all (\<lambda>b. length b \<le> 129 \<and> hd b = CTRL_DATA) w"
proof (induction wr k off fb arbitrary: w rule: blit_loop.induct)
  case (1 wr k off fb)
  let ?n = "if length fb - off < 128 then length fb - off else 128"
  show ?case
  proof (cases "length fb \<le> off")
    case True
    with "1.prems" show ?thesis by (simp add: blit_loop.simps)
  next
    case False
    with "1.prems" obtain w' where w: "w = (CTRL_DATA # take ?n (drop off fb)) # w'"
      and wr: "wr k (?n + 1) = int (?n + 1)" and r: "blit_loop wr (k + 1) (off + 128) fb = (True, w')"
      by (subst (asm) blit_loop.simps) (auto simp: Let_def split: if_splits prod.splits)
    have "\<not> wr k (?n + 1) \<noteq> int (?n + 1)" using wr by simp
    from "1.IH"[OF False refl refl this r] have "concat (map tl w') = drop (off + 128) fb"
      "list_all (\<lambda>b. length b \<le> 129 \<and> hd b = CTRL_DATA) w'" by auto
    moreover have "take ?n (drop off fb) @ drop (off + 128) fb = drop off fb"
      using append_take_drop_id[of 128 "drop off fb"] by (auto simp: add.commute)
    ultimately show ?thesis by (simp add: w)
  qed
qed

lemma blit_loop_takes: "\<exists>w. blit_loop (\<lambda>_. int) k off fb = (True, w)"
proof (induction "length fb - off" arbitrary: k off rule: less_induct)
  case less
  show ?case
  proof (cases "length fb \<le> off")
    case False
    then have "length fb - (off + 128) < length fb - off" by linarith
    from less.hyps[OF this, of "k + 1"] obtain w where "blit_loop (\<lambda>_. int) (k + 1) (off + 128) fb = (True, w)" by blast
    with False show ?thesis by (subst blit_loop.simps) (simp add: Let_def)
  qed (simp add: blit_loop.simps)
qed

section \<open>The properties\<close>


text \<open>
  The numbers on the panel match the desk.  Whatever order the boards were discovered in and wherever
  the coordinator is plugged in, a machine's cell carries one plus the number of machines nearer the head
  of the chain, and it is shown inverted exactly when the machine has the focus.
\<close>

theorem machines_numbered_by_desk:
  assumes "qsort_ok qs" "distinct (map db_rel_pos (take 16 (ds_board st)))"
    "b \<in> set (take 16 (ds_board st))" "\<not> db_is_coord b"
  shows "\<exists>i < length (qs (take 16 (ds_board st))). qs (take 16 (ds_board st)) ! i = b \<and>
    board_label (qs (take 16 (ds_board st))) i =
      show_u (Suc (card {x \<in> set (take 16 (ds_board st)). \<not> db_is_coord x \<and> db_rel_pos x < db_rel_pos b}) mod 100) \<and>
    (cell_start (qs (take 16 (ds_board st))) i < 19 \<longrightarrow>
      (\<forall>k < length (board_label (qs (take 16 (ds_board st))) i).
        cell (dsp_render_status qs st d) 2 (cell_start (qs (take 16 (ds_board st))) i + k) =
          glyph (board_label (qs (take 16 (ds_board st))) i ! k, db_is_focus b)))"
proof -
  let ?bs = "take 16 (ds_board st)" and ?xs = "qs (take 16 (ds_board st))"
  note q = qsort_strict[OF assms(1,2)]
  have set: "set ?xs = set ?bs" using q(1) by (rule mset_eq_setD)
  then obtain i where i: "i < length ?xs" "?xs ! i = b" using assms(3) by (metis in_set_conv_nth)
  have no: "machine_no ?xs i = Suc (card {x \<in> set ?bs. \<not> db_is_coord x \<and> db_rel_pos x < db_rel_pos b})"
    using machine_no_rank[OF q(2) i(1)] assms(4) i(2) set by simp
  have "cell (dsp_render_status qs st d) 2 (cell_start ?xs i + k) = glyph (board_label ?xs i ! k, db_is_focus b)"
    if "cell_start ?xs i < 19" and k: "k < length (board_label ?xs i)" for k
  proof -
    have c: "cell_start ?xs i + k < 21" using that label_length[of ?xs i] by linarith
    have "board_cell ?xs i ! k = (board_label ?xs i ! k, db_is_focus b)"
      "k < length (board_cell ?xs i)" using k i(2) by (simp_all add: board_cell_def nth_append)
    then show ?thesis
      using render_cells[OF c, of 2 qs st d] drawn_from_nth[OF i(1) that(1), of k]
      by (simp add: status_row_def overlay_def)
  qed
  then show ?thesis using i no assms(4) by (intro exI[of _ i]) (simp add: board_label_def)
qed

text \<open>
  The pairing code can be compared by eye.  Two panels that show the same pixels in the row of the code
  show the same code: no two of the characters a code is made of look alike, and all six are on the screen.
\<close>

theorem pairing_code_legible:
  assumes "ds_pairing st" "ds_sas st = Some (dhp_pair_sas_string p)"
    "ds_pairing st'" "ds_sas st' = Some (dhp_pair_sas_string p')"
    "screen_row (dsp_render_status qs st d) 5 = screen_row (dsp_render_status qs' st' d') 5"
  shows "dhp_pair_sas_string p = dhp_pair_sas_string p'"
proof (rule nth_equalityI)
  show "length (dhp_pair_sas_string p) = length (dhp_pair_sas_string p')" by (simp add: sas_string_six)
  fix k assume "k < length (dhp_pair_sas_string p)"
  then have k: "k < 6" by (simp add: sas_string_six)
  obtain a b where ab: "dhp_pair_sas_string p ! k = hex_digit a" "dhp_pair_sas_string p' ! k = hex_digit b"
    using sas_string_six(2)[OF k] by metis
  have "glyph (hex_digit a, True) = glyph (hex_digit b, True)"
    using sas_row_nth[OF assms(1,2) k, of qs d] sas_row_nth[OF assms(3,4) k, of qs' d'] assms(5) ab by simp
  then show "dhp_pair_sas_string p ! k = dhp_pair_sas_string p' ! k" using ab hex_digit_legible by simp
qed

text \<open>
  A frame reaches the panel whole or the call says so.  When \<^verbatim>\<open>ssd1306_blit\<close> reports success, it has
  set the window and then sent exactly the bytes of the frame in data writes of at most 129 bytes; a bus
  that takes every write always gets there, and a buffer of another size is refused before anything is sent.
\<close>

theorem blit_sends_whole_frame:
  "(ssd1306_blit wr fb = (True, w) \<longrightarrow> length fb = 1024 \<and> hd w = CTRL_CMD # blit_window \<and>
      concat (map tl (tl w)) = fb \<and> list_all (\<lambda>b. length b \<le> 129 \<and> hd b = CTRL_DATA) (tl w)) \<and>
   (length fb = 1024 \<longrightarrow> fst (ssd1306_blit (\<lambda>_. int) fb)) \<and>
   (length fb \<noteq> 1024 \<longrightarrow> ssd1306_blit wr fb = (False, []))"
proof (intro conjI impI)
  assume a: "ssd1306_blit wr fb = (True, w)"
  then show "length fb = 1024" by (auto simp: ssd1306_blit_def dsp_consts split: if_splits)
  from a obtain w' where w: "w = (CTRL_CMD # blit_window) # w'" and r: "blit_loop wr 1 0 fb = (True, w')"
    by (auto simp: ssd1306_blit_def write_cmds_def blit_window_def split: if_splits prod.splits)
  from w show "hd w = CTRL_CMD # blit_window" by simp
  from blit_loop_ok[OF r] w show "concat (map tl (tl w)) = fb"
    "list_all (\<lambda>b. length b \<le> 129 \<and> hd b = CTRL_DATA) (tl w)" by auto
next
  assume "length fb = 1024"
  then show "fst (ssd1306_blit (\<lambda>_. int) fb)"
    using blit_loop_takes[of 1 0 fb]
    by (auto simp: ssd1306_blit_def write_cmds_def blit_window_def dsp_consts)
next
  assume "length fb \<noteq> 1024"
  then show "ssd1306_blit wr fb = (False, [])" by (simp add: ssd1306_blit_def dsp_consts)
qed

section \<open>Concrete runs\<close>

definition demo_board :: "dhp_addr_t \<Rightarrow> int \<Rightarrow> bool \<Rightarrow> bool \<Rightarrow> dsp_board_t" where
  "demo_board a pos focus coord = \<lparr>db_addr = a, db_rel_pos = pos, db_is_self = coord, db_is_active = False,
     db_is_focus = focus, db_has_input = False, db_is_coord = coord\<rparr>"

text \<open>Two machines with the coordinator between them, discovered tail first.\<close>

definition demo_status :: dsp_status_t where
  "demo_status = \<lparr>ds_level = DHP_LEVEL_COORDINATED,
     ds_board = [demo_board 7 1 True False, demo_board 9 0 False True, demo_board 8 (- 1) False False],
     ds_we_are_active = True, ds_state_name = None, ds_link_baud = 2000000, ds_crc_errors = 0,
     ds_auth_errors = 0, ds_uptime_s = 61, ds_pairing = True, ds_sas = Some ''01A2B3'', ds_message = None\<rparr>"

lemma qsort_ok_sort_key: "qsort_ok (sort_key db_rel_pos)"
proof -
  have "sorted_wrt (\<lambda>x y. db_rel_pos x \<le> db_rel_pos y) (sort_key db_rel_pos bs)" for bs :: "dsp_board_t list"
    using sorted_sort_key[of db_rel_pos bs] by (simp only: sorted_map)
  then show ?thesis by (simp add: qsort_ok_def by_position_def)
qed

theorem machines_numbered_by_desk_witness:
  "\<exists>i < length (sort_key db_rel_pos (take 16 (ds_board demo_status))).
    sort_key db_rel_pos (take 16 (ds_board demo_status)) ! i = demo_board 7 1 True False \<and>
    board_label (sort_key db_rel_pos (take 16 (ds_board demo_status))) i = ''2''"
proof -
  have c: "{x \<in> set (take 16 (ds_board demo_status)). \<not> db_is_coord x \<and> db_rel_pos x < db_rel_pos (demo_board 7 1 True False)} =
      {demo_board 8 (- 1) False False}"
    by (auto simp: demo_status_def demo_board_def)
  have two: "show_u (Suc (card {demo_board 8 (- 1) False False}) mod 100) = ''2''"
    by (simp, code_simp)
  have "distinct (map db_rel_pos (take 16 (ds_board demo_status)))"
    "demo_board 7 1 True False \<in> set (take 16 (ds_board demo_status))" "\<not> db_is_coord (demo_board 7 1 True False)"
    by (simp_all add: demo_status_def demo_board_def)
  from machines_numbered_by_desk[OF qsort_ok_sort_key this, unfolded c two] show ?thesis by blast
qed

definition demo_code :: "u8 \<Rightarrow> nat dhp_pair_t" where
  "demo_code k = (demo_pair k 7)\<lparr>pr_sas := [0x01, 0xA2, 0xB3]\<rparr>"

lemma demo_code_string: "dhp_pair_sas_string (demo_code k) = ''01A2B3''"
proof -
  have "[0..<3] = [0, 1, 2 :: nat]" by (simp add: upt_rec)
  then show ?thesis by (simp add: dhp_pair_sas_string_def demo_code_def DHP_SAS_BYTES_def hex_digit_def)
qed

lemma demo_code_row:
  "screen_row (dsp_render_status qs demo_status d) 5 = row_image (plain True ''   01A2B3'')"
  using render_screen_row[of 5 qs demo_status d]
  by (simp add: status_row_def demo_status_def line_buf_def snprintf_str_def dsp_consts)

theorem pairing_code_legible_witness:
  "ds_pairing demo_status \<and> ds_sas demo_status = Some (dhp_pair_sas_string (demo_code 3)) \<and>
   dhp_pair_sas_string (demo_code 3) = dhp_pair_sas_string (demo_code 5)"
proof -
  have st: "ds_pairing demo_status" "ds_sas demo_status = Some (dhp_pair_sas_string (demo_code k))" for k
    by (simp_all add: demo_status_def demo_code_string)
  have "screen_row (dsp_render_status id demo_status d) 5 = screen_row (dsp_render_status rev demo_status d') 5" for d d'
    by (simp only: demo_code_row)
  from pairing_code_legible[OF st st this] st(1) st(2)[of 3] show ?thesis by blast
qed

theorem blit_sends_whole_frame_witness:
  "fst (ssd1306_blit (\<lambda>_. int) (replicate 1024 0x5A))"
proof -
  have "length (replicate 1024 (0x5A :: u8)) = 1024" by simp
  with blit_sends_whole_frame[of "\<lambda>_. int" "replicate 1024 0x5A" "[]"] show ?thesis by blast
qed

end
