(* ===== verification/Dhp_Crypto.thy ===== *)
theory Dhp_Crypto
  imports Dhp_Auth
begin

text \<open>
  The two backends of the pairing code: \<^verbatim>\<open>firmware/rp2040/src/crypto_backend.c\<close> and
  \<^verbatim>\<open>coordinator/src/crypto_linux.c\<close>.  Monocypher is not part of the repository: its X25519 and its
  BLAKE2b are the parameter \<open>mc\<close>, of which \<open>mono_ok\<close> collects what the code relies on (sizes, and that
  the two sides of a key exchange compute the same secret).  The ring oscillator and the kernel's random
  source are streams that a backend's context walks along.
\<close>

section \<open>Monocypher\<close>

record monocypher =
  mc_public_key :: "u8 list \<Rightarrow> u8 list"
  mc_x25519 :: "u8 list \<Rightarrow> u8 list \<Rightarrow> u8 list"
  mc_blake2b :: "u8 list \<Rightarrow> u8 list"
  mc_blake2b_keyed :: "u8 list \<Rightarrow> u8 list \<Rightarrow> u8 list"

definition mono_ok :: "monocypher \<Rightarrow> bool" where
  "mono_ok mc \<longleftrightarrow>
     (\<forall>s. length (mc_public_key mc s) = 32) \<and>
     (\<forall>s p. length (mc_x25519 mc s p) = 32) \<and>
     (\<forall>m. length (mc_blake2b mc m) = 64) \<and> (\<forall>k m. length (mc_blake2b_keyed mc k m) = 64) \<and>
     (\<forall>s t. mc_x25519 mc s (mc_public_key mc t) = mc_x25519 mc t (mc_public_key mc s))"

section \<open>Key derivation and key agreement, the same in both files\<close>

text \<open>The loop of \<^verbatim>\<open>be_kdf\<close>: \<open>remaining\<close> is \<^verbatim>\<open>out_len - done\<close>.\<close>

function kdf_loop :: "(u8 list \<Rightarrow> u8 list) \<Rightarrow> u32 \<Rightarrow> nat \<Rightarrow> u8 list" where
  "kdf_loop block counter remaining =
     (if remaining = 0 then []
      else
        let n = (if remaining < 64 then remaining else 64)
        in take n (block (put32 counter)) @ kdf_loop block (counter + 1) (remaining - n))"
  by pat_completeness auto
termination by (relation "measure (\<lambda>(block, counter, remaining). remaining)") auto

declare kdf_loop.simps [simp del]

definition be_kdf :: "monocypher \<Rightarrow> nat \<Rightarrow> u8 list \<Rightarrow> u8 list \<Rightarrow> u8 list" where
  "be_kdf mc out_len ikm info = kdf_loop (\<lambda>ctr. mc_blake2b_keyed mc ikm (info @ ctr)) 0 out_len"

definition be_shared :: "monocypher \<Rightarrow> u8 list \<Rightarrow> u8 list \<Rightarrow> u8 list option" where
  "be_shared mc secret peer_public =
     (let out = mc_x25519 mc secret peer_public;
          acc = fold (\<lambda>i acc. acc OR out ! i) [0..<32] 0
      in if acc = 0 then None else Some out)"

section \<open>The board's entropy\<close>

text \<open>The oscillator's random bits, how many have been read, and the microsecond clock at each request.\<close>

record rosc =
  ro_bit :: "nat \<Rightarrow> bool"
  ro_pos :: nat
  ro_clock :: "nat \<Rightarrow> u64"

definition ROSC_POOL_BYTES :: nat where "ROSC_POOL_BYTES = 64"

definition rosc_byte :: "rosc \<Rightarrow> nat \<Rightarrow> u8" where
  "rosc_byte c k = fold (\<lambda>j b. push_bit 1 b OR (if ro_bit c (k + j) then 1 else 0)) [0..<8] 0"

definition rosc_fill :: "rosc \<Rightarrow> nat \<Rightarrow> u8 list \<times> rosc" where
  "rosc_fill c len = (map (\<lambda>i. rosc_byte c (ro_pos c + 8 * i)) [0..<len], c\<lparr>ro_pos := ro_pos c + 8 * len\<rparr>)"

function rosc_loop :: "monocypher \<Rightarrow> u64 \<Rightarrow> rosc \<Rightarrow> u8 list \<Rightarrow> u32 \<Rightarrow> nat \<Rightarrow> u8 list \<times> rosc" where
  "rosc_loop mc t c pool counter remaining =
     (if remaining = 0 then ([], c)
      else
        let block = mc_blake2b mc (pool @ put64 t @ put32 counter);
            n = (if remaining < 64 then remaining else 64);
            (pool', c') = rosc_fill c ROSC_POOL_BYTES;
            (rest, c'') = rosc_loop mc t c' pool' (counter + 1) (remaining - n)
        in (take n block @ rest, c''))"
  by pat_completeness auto
termination by (relation "measure (\<lambda>(mc, t, c, pool, counter, remaining). remaining)") auto

declare rosc_loop.simps [simp del]

definition be_random :: "monocypher \<Rightarrow> rosc \<Rightarrow> nat \<Rightarrow> u8 list \<times> rosc" where
  "be_random mc c len =
     (let (pool, c1) = rosc_fill c ROSC_POOL_BYTES
      in rosc_loop mc (ro_clock c (ro_pos c1)) c1 pool 0 len)"

definition be_keypair :: "monocypher \<Rightarrow> rosc \<Rightarrow> (u8 list \<times> u8 list) \<times> rosc" where
  "be_keypair mc c = (let (secret, c1) = be_random mc c 32 in ((secret, mc_public_key mc secret), c1))"

definition crypto_backend :: "monocypher \<Rightarrow> rosc \<Rightarrow> rosc dhp_crypto_t" where
  "crypto_backend mc c = \<lparr>cr_random = be_random mc, cr_dh_keypair = be_keypair mc,
     cr_dh_shared = be_shared mc, cr_kdf = be_kdf mc, cr_ctx = c\<rparr>"

section \<open>The coordinator's entropy\<close>

text \<open>
  What the successive calls of \<^verbatim>\<open>getrandom\<close> return: bytes, or \<open>None\<close> for an error.  The loop asks for what is
  still missing; an error ends the program, and so does, in the model, the end of the list, where the call
  would block for good.
\<close>

fun plat_random :: "u8 list option list \<Rightarrow> nat \<Rightarrow> (u8 list \<times> u8 list option list) option" where
  "plat_random src 0 = Some ([], src)"
| "plat_random [] (Suc n) = None"
| "plat_random (None # src) (Suc n) = None"
| "plat_random (Some bs # src) (Suc n) =
     (let got = take (Suc n) bs
      in map_option (\<lambda>(rest, src'). (got @ rest, src')) (plat_random src (Suc n - length got)))"

text \<open>The kernel's bytes as a stream, for calls that do not fail.\<close>

record urandom =
  ur_byte :: "nat \<Rightarrow> u8"
  ur_pos :: nat

definition lx_random :: "urandom \<Rightarrow> nat \<Rightarrow> u8 list \<times> urandom" where
  "lx_random c len = (map (\<lambda>i. ur_byte c (ur_pos c + i)) [0..<len], c\<lparr>ur_pos := ur_pos c + len\<rparr>)"

definition lx_keypair :: "monocypher \<Rightarrow> urandom \<Rightarrow> (u8 list \<times> u8 list) \<times> urandom" where
  "lx_keypair mc c = (let (secret, c1) = lx_random c 32 in ((secret, mc_public_key mc secret), c1))"

definition crypto_linux :: "monocypher \<Rightarrow> urandom \<Rightarrow> urandom dhp_crypto_t" where
  "crypto_linux mc c = \<lparr>cr_random = lx_random, cr_dh_keypair = lx_keypair mc,
     cr_dh_shared = be_shared mc, cr_kdf = be_kdf mc, cr_ctx = c\<rparr>"

section \<open>Lengths\<close>

lemma kdf_loop_length: "(\<And>c. length (block c) = 64) \<Longrightarrow> length (kdf_loop block counter n) = n"
proof (induction block counter n rule: kdf_loop.induct)
  case (1 block counter n)
  then show ?case by (subst kdf_loop.simps) (simp add: Let_def)
qed

lemma be_kdf_length: "mono_ok mc \<Longrightarrow> length (be_kdf mc n k i) = n"
  by (simp add: be_kdf_def kdf_loop_length mono_ok_def)

lemma rosc_loop_length: "mono_ok mc \<Longrightarrow> length (fst (rosc_loop mc t c pool counter n)) = n"
proof (induction mc t c pool counter n rule: rosc_loop.induct)
  case (1 mc t c pool counter n)
  show ?case
  proof (cases "n = 0")
    case False
    obtain pool' c' where f: "rosc_fill c ROSC_POOL_BYTES = (pool', c')" by fastforce
    let ?n = "if n < 64 then n else 64"
    have "length (fst (rosc_loop mc t c' pool' (counter + 1) (n - ?n))) = n - ?n"
      by (rule "1.IH"[OF False refl refl f[symmetric] refl "1.prems"])
    moreover have "length (mc_blake2b mc m) = 64" for m using "1.prems" by (simp add: mono_ok_def)
    ultimately show ?thesis
      using False by (subst rosc_loop.simps) (simp add: f Let_def split_beta)
  qed (simp add: rosc_loop.simps)
qed

lemma be_random_length: "mono_ok mc \<Longrightarrow> length (fst (be_random mc c n)) = n"
  by (simp add: be_random_def rosc_loop_length split_beta)

lemma plat_random_length: "plat_random src n = Some (bs, src') \<Longrightarrow> length bs = n"
proof (induction src n arbitrary: bs src' rule: plat_random.induct)
  case (4 chunk src n)
  let ?got = "take (Suc n) chunk"
  from "4.prems" obtain rest where "plat_random src (Suc n - length ?got) = Some (rest, src')" "bs = ?got @ rest"
    by (auto simp: Let_def)
  moreover from this have "length rest = Suc n - length ?got" by (intro "4.IH"[OF refl])
  ultimately show ?case by (simp only: length_append length_take)
qed simp_all

section \<open>Low-order points\<close>

lemma or_fold_zero: "fold (\<lambda>i acc. acc OR f i) xs a = (0 :: u8) \<longleftrightarrow> a = 0 \<and> (\<forall>i \<in> set xs. f i = 0)"
  by (induction xs arbitrary: a) (auto simp: or_eq_0_iff)

lemma be_shared_None_iff:
  assumes "mono_ok mc"
  shows "be_shared mc s p = None \<longleftrightarrow> mc_x25519 mc s p = replicate 32 0"
proof -
  have "length (mc_x25519 mc s p) = 32" using assms by (simp add: mono_ok_def)
  then show ?thesis by (auto simp: be_shared_def Let_def or_fold_zero list_eq_iff_nth_eq)
qed

lemma plat_random_prefix: "plat_random (map Some chunks) n = Some (bs, src) \<Longrightarrow> bs = take n (concat chunks)"
proof (induction chunks arbitrary: n bs src)
  case Nil
  then show ?case by (cases n) auto
next
  case (Cons c chunks)
  show ?case
  proof (cases n)
    case (Suc m)
    with Cons.prems obtain rest src' where "plat_random (map Some chunks) (n - length (take n c)) = Some (rest, src')"
      "bs = take n c @ rest" by (auto simp: Let_def)
    then show ?thesis using Cons.IH[of "n - length (take n c)"] by (cases "n \<le> length c") auto
  qed (use Cons.prems in auto)
qed

section \<open>A board and the coordinator\<close>

lemma begin_ready:
  assumes "mono_ok mc"
  shows "pair_ready (dhp_pair_begin (dhp_pair_init (crypto_backend mc c) u) t w)"
    "pair_ready (dhp_pair_begin (dhp_pair_init (crypto_linux mc c') u) t w)"
  using be_random_length[OF assms, of "snd (be_random mc c 32)"] assms
  by (simp_all add: dhp_pair_begin_def dhp_pair_init_def pair_zero_def crypto_backend_def crypto_linux_def
      pair_ready_def be_keypair_def lx_keypair_def lx_random_def mono_ok_def dhp_consts split_beta)

lemma begin_backend [simp]:
  "pr_self_uid (dhp_pair_begin (dhp_pair_init cr u) t w) = u"
  "cr_kdf (pr_crypto (dhp_pair_begin (dhp_pair_init cr u) t w)) = cr_kdf cr"
  "cr_dh_shared (pr_crypto (dhp_pair_begin (dhp_pair_init cr u) t w)) = cr_dh_shared cr"
  by (simp_all add: dhp_pair_begin_def dhp_pair_init_def pair_zero_def split_beta)

lemma begin_public:
  "pr_self_public (dhp_pair_begin (dhp_pair_init (crypto_backend mc c) u) t w) =
     mc_public_key mc (pr_secret (dhp_pair_begin (dhp_pair_init (crypto_backend mc c) u) t w))"
  "pr_self_public (dhp_pair_begin (dhp_pair_init (crypto_linux mc c') u) t w) =
     mc_public_key mc (pr_secret (dhp_pair_begin (dhp_pair_init (crypto_linux mc c') u) t w))"
  by (simp_all add: dhp_pair_begin_def dhp_pair_init_def pair_zero_def crypto_backend_def crypto_linux_def
      be_keypair_def lx_keypair_def split_beta)

lemma rx_offer_refused:
  assumes "pair_ready a" "pair_ready b" "pr_self_uid a \<noteq> pr_self_uid b"
    "cr_dh_shared (pr_crypto a) (pr_secret a) (pr_self_public b) = None"
  shows "pr_abort_reason (dhp_pair_rx a (dhp_pair_build_offer b 64) now) = DHP_ABORT_BAD_KEY \<and>
    dhp_pair_chain_key (dhp_pair_rx a (dhp_pair_build_offer b 64) now) = None"
proof -
  let ?o = "dhp_pair_build_offer b 64"
  have o: "?o = DHP_PAIR_OFFER # put64 (pr_self_uid b) @ pr_self_public b @ pr_self_nonce b"
    by (simp add: dhp_pair_build_offer_def dhp_consts)
  have len: "length ?o = 49" using assms(2) by (simp add: o pair_ready_def dhp_consts)
  have parts: "get64 (drop 1 ?o) = pr_self_uid b" "take 32 (drop 9 ?o) = pr_self_public b"
    using assms(2) unfolding o by (simp_all add: pair_ready_def dhp_consts)
  have "dhp_pair_rx a ?o now = rx_offer a ?o"
    using assms(1) len by (auto simp: dhp_pair_rx_def pair_ready_def o)
  then show ?thesis
    using assms len parts
    by (simp add: rx_offer_def pair_ready_def derive_def abort_with_def dhp_pair_chain_key_def dhp_consts Let_def)
qed

text \<open>
  C20.  A board pairs with the coordinator.  Each begins pairing on its own backend, the board's over the
  ring oscillator and the coordinator's over the kernel's random source.  If the two public keys are not of
  low order, then once the offers and the confirmations have crossed both have completed with the same
  16-byte chain key and show the same authentication string; if the secret they would share is all zeros,
  both refuse.  Of Monocypher this assumes only the sizes and that X25519 agrees on the two sides.
\<close>

theorem board_pairs_with_coordinator:
  assumes mc: "mono_ok mc" and uids: "u \<noteq> u'"
    and a: "a = dhp_pair_begin (dhp_pair_init (crypto_backend mc c) u) t 30000"
    and b: "b = dhp_pair_begin (dhp_pair_init (crypto_linux mc c') u') t' 30000"
    and a1: "a1 = dhp_pair_rx a (dhp_pair_build_offer b 64) t1"
    and b1: "b1 = dhp_pair_rx b (dhp_pair_build_offer a 64) t2"
    and a2: "a2 = dhp_pair_rx a1 (dhp_pair_build_confirm b1 64) t3"
    and b2: "b2 = dhp_pair_rx b1 (dhp_pair_build_confirm a1 64) t4"
  shows "if mc_x25519 mc (pr_secret a) (pr_self_public b) = replicate 32 0
    then pr_abort_reason a1 = DHP_ABORT_BAD_KEY \<and> pr_abort_reason b1 = DHP_ABORT_BAD_KEY \<and>
      dhp_pair_chain_key a1 = None \<and> dhp_pair_chain_key b1 = None
    else \<exists>key. dhp_pair_chain_key a2 = Some key \<and> dhp_pair_chain_key b2 = Some key \<and>
      length key = DHP_SIPHASH_KEY_BYTES \<and> dhp_pair_sas_string a2 = dhp_pair_sas_string b2"
proof -
  note ready = begin_ready(1)[OF mc, of c u t 30000, folded a] begin_ready(2)[OF mc, of c' u' t' 30000, folded b]
  have pub: "pr_self_public a = mc_public_key mc (pr_secret a)" "pr_self_public b = mc_public_key mc (pr_secret b)"
    unfolding a b by (rule begin_public)+
  have same: "mc_x25519 mc (pr_secret b) (pr_self_public a) = mc_x25519 mc (pr_secret a) (pr_self_public b)"
    unfolding pub using mc by (simp add: mono_ok_def)
  have dh: "cr_dh_shared (pr_crypto a) = be_shared mc" "cr_dh_shared (pr_crypto b) = be_shared mc"
    and kdf: "cr_kdf (pr_crypto a) = be_kdf mc" "cr_kdf (pr_crypto b) = be_kdf mc"
    and uid: "pr_self_uid a = u" "pr_self_uid b = u'"
    unfolding a b by (simp_all add: crypto_backend_def crypto_linux_def)
  show ?thesis
  proof (cases "mc_x25519 mc (pr_secret a) (pr_self_public b) = replicate 32 0")
    case True
    then have "be_shared mc (pr_secret a) (pr_self_public b) = None" "be_shared mc (pr_secret b) (pr_self_public a) = None"
      using be_shared_None_iff[OF mc] same by simp_all
    then show ?thesis
      using True rx_offer_refused[OF ready(1,2)] rx_offer_refused[OF ready(2,1)] uids
      by (simp add: a1 b1 dh uid)
  next
    case False
    then obtain sh where "be_shared mc (pr_secret a) (pr_self_public b) = Some sh"
      using be_shared_None_iff[OF mc] by (metis not_Some_eq)
    moreover have "be_shared mc (pr_secret b) (pr_self_public a) = be_shared mc (pr_secret a) (pr_self_public b)"
      using same by (simp add: be_shared_def)
    ultimately have "\<exists>key. dhp_pair_chain_key a2 = Some key \<and> dhp_pair_chain_key b2 = Some key \<and>
        length key = DHP_SIPHASH_KEY_BYTES \<and> dhp_pair_sas_string a2 = dhp_pair_sas_string b2"
      using uids by (intro pairing_agrees[OF ready _ _ _ _ _ a1 b1 a2 b2])
        (simp_all add: kdf dh uid be_kdf_length[OF mc])
    with False show ?thesis by simp
  qed
qed

text \<open>A stand-in for Monocypher: secrets are their own public keys, bytewise exclusive or as key agreement.\<close>

definition byte_at :: "u8 list \<Rightarrow> nat \<Rightarrow> u8" where
  "byte_at s i = (if i < length s then s ! i else 0)"

definition demo_mono :: monocypher where
  "demo_mono = \<lparr>mc_public_key = (\<lambda>s. map (byte_at s) [0..<32]),
     mc_x25519 = (\<lambda>s p. map (\<lambda>i. byte_at s i XOR byte_at p i) [0..<32]),
     mc_blake2b = (\<lambda>m. replicate 64 (sum_list m)), mc_blake2b_keyed = (\<lambda>k m. replicate 64 (sum_list k + sum_list m))\<rparr>"

lemma demo_mono_ok: "mono_ok demo_mono"
  by (auto simp: mono_ok_def demo_mono_def byte_at_def xor.commute)

definition demo_rosc :: rosc where
  "demo_rosc = \<lparr>ro_bit = (\<lambda>i. True), ro_pos = 0, ro_clock = (\<lambda>i. 0)\<rparr>"

definition demo_urandom :: "u8 \<Rightarrow> urandom" where
  "demo_urandom x = \<lparr>ur_byte = (\<lambda>i. x), ur_pos = 0\<rparr>"

lemma demo_secret: "fst (be_random demo_mono demo_rosc 32) = replicate 32 0xC0"
proof -
  have "rosc_byte demo_rosc k = 0xFF" for k
    by (simp add: rosc_byte_def demo_rosc_def upt_rec[of _ 8] upt_rec[of _ "Suc _"])
  then have pool: "fst (rosc_fill demo_rosc 64) = replicate 64 0xFF"
    by (simp add: rosc_fill_def map_replicate_const)
  have z: "sum_list (put_le 8 (0 :: u64)) = (0 :: u8)" "sum_list (put_le 4 (0 :: u32)) = (0 :: u8)"
    by code_simp+
  show ?thesis
    by (simp add: be_random_def ROSC_POOL_BYTES_def split_beta pool)
      (subst rosc_loop.simps, simp add: split_beta rosc_loop.simps[of _ _ _ _ _ 0] demo_mono_def sum_list_replicate
        put64_def put32_def demo_rosc_def z)
qed

theorem board_pairs_with_coordinator_witness:
  "\<exists>a b a1 b1 key. a = dhp_pair_begin (dhp_pair_init (crypto_backend demo_mono demo_rosc) 7) 0 30000 \<and>
     b = dhp_pair_begin (dhp_pair_init (crypto_linux demo_mono (demo_urandom 3)) 9) 0 30000 \<and>
     a1 = dhp_pair_rx a (dhp_pair_build_offer b 64) 1 \<and> b1 = dhp_pair_rx b (dhp_pair_build_offer a 64) 1 \<and>
     dhp_pair_chain_key (dhp_pair_rx a1 (dhp_pair_build_confirm b1 64) 2) = Some key"
proof -
  let ?a = "dhp_pair_begin (dhp_pair_init (crypto_backend demo_mono demo_rosc) 7) 0 30000"
  let ?b = "dhp_pair_begin (dhp_pair_init (crypto_linux demo_mono (demo_urandom 3)) 9) 0 30000"
  have ne: "(7 :: dhp_uid_t) \<noteq> 9" by simp
  have a: "pr_secret ?a = replicate 32 0xC0"
    using demo_secret by (simp add: dhp_pair_begin_def dhp_pair_init_def pair_zero_def crypto_backend_def be_keypair_def split_beta)
  have b: "pr_secret ?b = replicate 32 3"
    by (simp add: dhp_pair_begin_def dhp_pair_init_def pair_zero_def crypto_linux_def lx_keypair_def lx_random_def
        demo_urandom_def map_replicate_const)
  have "mc_x25519 demo_mono (pr_secret ?a) (pr_self_public ?b) ! 0 = 0xC3"
    unfolding begin_public(2) a b by (simp add: demo_mono_def byte_at_def)
  then have nz: "mc_x25519 demo_mono (pr_secret ?a) (pr_self_public ?b) \<noteq> replicate 32 0" by auto
  from board_pairs_with_coordinator[OF demo_mono_ok ne refl refl refl refl refl refl,
      of demo_rosc 0 "demo_urandom 3" 0 1 1 2 2] nz
  show ?thesis by auto
qed

end
