(* ===== verification/Dhp_Serial.thy ===== *)
theory Dhp_Serial
  imports Dhp_Link "HOL-Library.Sublist"
begin

text \<open>
  The coordinator's cable, \<^verbatim>\<open>coordinator/src/serial.c\<close>.  What the kernel answers to each \<^verbatim>\<open>write\<close> is an input:
  a list of results, after which the port takes nothing more.  The operations return the bytes the kernel
  took, so that the wire can be compared with what the link layer asked to send.
\<close>

section \<open>Operations\<close>

definition TXBUF :: nat where "TXBUF = 8192"

datatype write_result =
    Wrote nat
  | WouldBlock
  | Interrupted
  | WriteFailed

record serial_t =
  se_port :: dhp_port_t
  se_tx :: "u8 list"

definition supported_bauds :: "u32 list" where
  "supported_bauds = [115200, 230400, 460800, 500000, 921600, 1000000, 1500000, 2000000, 3000000, 4000000]"

text \<open>\<^verbatim>\<open>baud_constant\<close> returns 0 for every other rate.\<close>

definition baud_constant :: "u32 \<Rightarrow> u32 option" where
  "baud_constant baud = (if baud \<in> set supported_bauds then Some baud else None)"

datatype serial_error = UnsupportedBaud u32 | SerialSystem

text \<open>\<open>ready\<close>: the device opens, its attributes can be read and set, and memory is there.\<close>

definition serial_open :: "bool \<Rightarrow> u32 \<Rightarrow> dhp_port_t \<Rightarrow> serial_error + serial_t" where
  "serial_open ready baud port =
     (if baud_constant baud = None then Inl (UnsupportedBaud baud)
      else if \<not> ready then Inl SerialSystem
      else Inr \<lparr>se_port = port, se_tx = []\<rparr>)"

fun flush_loop :: "write_result list \<Rightarrow> u8 list \<Rightarrow> bool \<times> u8 list \<times> u8 list \<times> write_result list" where
  "flush_loop rs [] = (True, [], [], rs)"
| "flush_loop [] (b # tx) = (True, b # tx, [], [])"
| "flush_loop (WouldBlock # rs) (b # tx) = (True, b # tx, [], rs)"
| "flush_loop (Interrupted # rs) (b # tx) = flush_loop rs (b # tx)"
| "flush_loop (WriteFailed # rs) (b # tx) = (False, b # tx, [], rs)"
| "flush_loop (Wrote n # rs) (b # tx) =
     (if length (b # tx) \<le> n then (True, [], b # tx, rs)
      else case flush_loop rs (drop n (b # tx)) of (ok, left, sent, rs') \<Rightarrow> (ok, left, take n (b # tx) @ sent, rs'))"

definition serial_flush :: "write_result list \<Rightarrow> serial_t \<Rightarrow> bool \<times> serial_t \<times> u8 list \<times> write_result list" where
  "serial_flush rs s = (case flush_loop rs (se_tx s) of (ok, left, sent, rs') \<Rightarrow> (ok, s\<lparr>se_tx := left\<rparr>, sent, rs'))"

definition serial_write ::
    "write_result list \<Rightarrow> serial_t \<Rightarrow> u8 list \<Rightarrow> bool \<times> serial_t \<times> u8 list \<times> write_result list" where
  "serial_write rs s data =
     (if TXBUF < length (se_tx s) + length data then (False, s, [], rs)
      else serial_flush rs (s\<lparr>se_tx := se_tx s @ data\<rparr>))"

datatype read_result = Got "u8 list" | NothingYet | ReadFailed

definition serial_read :: "read_result \<Rightarrow> nat \<Rightarrow> u8 list option" where
  "serial_read r cap = (case r of Got bs \<Rightarrow> Some (take cap bs) | NothingYet \<Rightarrow> Some [] | ReadFailed \<Rightarrow> None)"

section \<open>Nothing lost in the middle\<close>

lemma flush_loop_split: "flush_loop rs tx = (ok, left, sent, rs') \<Longrightarrow> tx = sent @ left"
  by (induction rs tx arbitrary: ok left sent rs' rule: flush_loop.induct)
    (auto split: if_splits prod.splits, metis append_take_drop_id append_assoc)

text \<open>A history of the port: frames handed to it and flushes, with the kernel's answers to each.\<close>

datatype serial_op = SWrite "write_result list" "u8 list" | SFlush "write_result list"

fun serial_run :: "serial_op list \<Rightarrow> serial_t \<Rightarrow> serial_t \<times> u8 list \<times> u8 list list" where
  "serial_run [] s = (s, [], [])"
| "serial_run (SWrite rs data # ops) s =
     (let (ok, s1, sent, _) = serial_write rs s data;
          (s2, wire, frames) = serial_run ops s1
      in (s2, sent @ wire, (if TXBUF < length (se_tx s) + length data then [] else [data]) @ frames))"
| "serial_run (SFlush rs # ops) s =
     (let (ok, s1, sent, _) = serial_flush rs s;
          (s2, wire, frames) = serial_run ops s1
      in (s2, sent @ wire, frames))"

lemma serial_flush_split: "serial_flush rs s = (ok, s', sent, rs') \<Longrightarrow> se_tx s = sent @ se_tx s'"
  by (auto simp: serial_flush_def split: prod.splits dest: flush_loop_split)

lemma serial_write_split:
  "serial_write rs s data = (ok, s', sent, rs') \<Longrightarrow> \<not> TXBUF < length (se_tx s) + length data \<Longrightarrow>
     se_tx s @ data = sent @ se_tx s' \<and> length (se_tx s') \<le> TXBUF"
proof -
  assume w: "serial_write rs s data = (ok, s', sent, rs')" and room: "\<not> TXBUF < length (se_tx s) + length data"
  then have "se_tx s @ data = sent @ se_tx s'"
    using serial_flush_split[of rs "s\<lparr>se_tx := se_tx s @ data\<rparr>"] by (simp add: serial_write_def)
  moreover from this have "length (se_tx s) + length data = length sent + length (se_tx s')"
    by (metis length_append)
  ultimately show ?thesis using room by simp
qed

lemma serial_write_full: "TXBUF < length (se_tx s) + length data \<Longrightarrow> serial_write rs s data = (False, s, [], rs)"
  by (simp add: serial_write_def)

lemma serial_flush_length: "serial_flush rs s = (ok, s', sent, rs') \<Longrightarrow> length (se_tx s') \<le> length (se_tx s)"
  by (drule serial_flush_split) simp

lemma serial_run_exact:
  "length (se_tx s) \<le> TXBUF \<Longrightarrow> serial_run ops s = (s', wire, frames) \<Longrightarrow>
     wire @ se_tx s' = se_tx s @ concat frames \<and> length (se_tx s') \<le> TXBUF"
proof (induction ops s arbitrary: s' wire frames rule: serial_run.induct)
  case (2 rs data ops s)
  obtain ok s1 sent rs' where w: "serial_write rs s data = (ok, s1, sent, rs')" by (metis prod_cases4)
  obtain s2 wire2 frames2 where r: "serial_run ops s1 = (s2, wire2, frames2)" by (metis prod_cases3)
  note ih = "2.IH"[OF w[symmetric] refl refl refl _ r]
  show ?case
  proof (cases "TXBUF < length (se_tx s) + length data")
    case True
    with w r ih "2.prems" show ?thesis by (simp add: serial_write_full)
  next
    case False
    have f: "s' = s2" "wire = sent @ wire2" "frames = data # frames2"
      using "2.prems"(2) w r False by simp_all
    note q = serial_write_split[OF w False]
    have "wire @ se_tx s' = sent @ (se_tx s1 @ concat frames2)" using ih q f by simp
    also have "\<dots> = (se_tx s @ data) @ concat frames2" using q by (metis append_assoc)
    finally show ?thesis using ih q f by simp
  qed
next
  case (3 rs ops s)
  obtain ok s1 sent rs' where w: "serial_flush rs s = (ok, s1, sent, rs')" by (metis prod_cases4)
  obtain s2 wire2 frames2 where r: "serial_run ops s1 = (s2, wire2, frames2)" by (metis prod_cases3)
  have "length (se_tx s1) \<le> TXBUF" using serial_flush_length[OF w] "3.prems"(1) by linarith
  note ih = "3.IH"[OF w[symmetric] refl refl refl this r]
  with serial_flush_split[OF w] w r "3.prems"(2) show ?case by auto
qed simp

definition offered :: "serial_op list \<Rightarrow> u8 list list" where
  "offered ops = List.map_filter (\<lambda>q. case q of SWrite _ d \<Rightarrow> Some d | SFlush _ \<Rightarrow> None) ops"

lemma serial_run_subseq: "serial_run ops s = (s', wire, frames) \<Longrightarrow> subseq frames (offered ops)"
proof (induction ops s arbitrary: s' wire frames rule: serial_run.induct)
  case (1 s)
  then show ?case by simp
next
  case (2 rs data ops s)
  obtain ok s1 sent rs' where w: "serial_write rs s data = (ok, s1, sent, rs')" by (metis prod_cases4)
  obtain s2 wire2 frames2 where r: "serial_run ops s1 = (s2, wire2, frames2)" by (metis prod_cases3)
  have "subseq frames2 (offered ops)" by (rule "2.IH"[OF w[symmetric] refl refl refl r])
  then show ?case using "2.prems" w r by (auto simp: offered_def map_filter_simps split: if_splits)
next
  case (3 rs ops s)
  obtain ok s1 sent rs' where w: "serial_flush rs s = (ok, s1, sent, rs')" by (metis prod_cases4)
  obtain s2 wire2 frames2 where r: "serial_run ops s1 = (s2, wire2, frames2)" by (metis prod_cases3)
  have "subseq frames2 (offered ops)" by (rule "3.IH"[OF w[symmetric] refl refl refl r])
  then show ?case using "3.prems" w r by (simp add: offered_def map_filter_simps)
qed

text \<open>
  C24.  The cable never tears a frame.  Whatever the kernel does to each write (partial writes, a full
  buffer, interrupts, errors), the bytes that have left the port followed by those still buffered are
  frames the caller handed over, whole, in their order and without gaps; a frame that finds no room is
  dropped as a whole, and the buffer stays within its 8192 bytes.
\<close>

theorem serial_stream_exact:
  "case serial_run ops \<lparr>se_port = p, se_tx = []\<rparr> of (s', wire, frames) \<Rightarrow>
     wire @ se_tx s' = concat frames \<and> subseq frames (offered ops) \<and> length (se_tx s') \<le> TXBUF"
  using serial_run_exact[of "\<lparr>se_port = p, se_tx = []\<rparr>" ops] serial_run_subseq[of ops "\<lparr>se_port = p, se_tx = []\<rparr>"]
  by (auto split: prod.splits)

end
