(* ===== verification/Dhp_Coordinator.thy ===== *)
theory Dhp_Coordinator
  imports Dhp_Settings Dhp_Config Dhp_Display Dhp_Crypto Dhp_Serial
begin

text \<open>
  The coordinator daemon, \<^verbatim>\<open>coordinator/src/main.c\<close>: boot, one pass of the main loop, and the orderly stop.
  The struct \<^verbatim>\<open>coord_t\<close> is one record with the router (and through it the link), the pairing machine, the
  cable, the configuration and the screen.  Two file systems stand for the disk, one of text files and one
  of key files.

  What the outside contributes to a pass is its input \<open>coord_env\<close>: the clock, read once per pass, what the
  cable and the control socket deliver, how the kernel answers writes, and the results of file and bus
  operations.  A pass is \<open>None\<close> where the pointer integrator would overflow.  As in the firmware, the router
  collects what it sends and calls, and the effects are carried out in that order after the call.
\<close>

section \<open>State\<close>

record 'c coord_t =
  co_cfg :: coord_config_t
  co_ser :: serial_t
  co_panel :: bool
  co_screen :: dsp_t
  co_router :: dhp_router_t
  co_pair :: "'c dhp_pair_t"
  co_paired :: bool
  co_self :: dhp_addr_t
  co_uid :: dhp_uid_t
  co_started :: dhp_time_t
  co_next_render :: dhp_time_t
  co_sas :: string
  co_message :: string
  co_message_until :: dhp_time_t
  co_message_active :: bool
  co_ctl :: bool
  co_verbose :: bool
  co_keys :: "u8 fs"
  co_files :: "char fs"
  co_kernel :: "write_result list"
  co_wire :: "u8 list"
  co_bus :: "u8 list list"
  co_replies :: "string list"

record coord_env =
  cv_now :: dhp_time_t
  cv_serial :: "read_result option"
  cv_ctl :: "string option"
  cv_sender_named :: bool
  cv_writes :: "write_result list"
  cv_key_io :: key_io
  cv_save_io :: save_io
  cv_strerror :: string
  cv_qsort :: "dsp_board_t list \<Rightarrow> dsp_board_t list"
  cv_bus :: bus

definition notice :: "coord_env \<Rightarrow> string \<Rightarrow> 'c coord_t \<Rightarrow> 'c coord_t" where
  "notice env msg c = c\<lparr>co_message := snprintf_str 32 msg, co_message_until := cv_now env + 5000,
     co_message_active := True\<rparr>"

section \<open>Identity\<close>

definition cpuinfo_serial :: "string \<Rightarrow> u64" where
  "cpuinfo_serial text =
     (case find (\<lambda>l. take 6 (cstr l) = ''Serial'') (fgets_lines 256 text) of
        None \<Rightarrow> 0
      | Some l \<Rightarrow> (case after_char (CHR '':'') (cstr l) of None \<Rightarrow> 0 | Some v \<Rightarrow> fst (strtoul 16 v)))"

definition machine_id :: "string \<Rightarrow> u64" where
  "machine_id text = (case fgets_lines 64 text of [] \<Rightarrow> 0 | l # _ \<Rightarrow> fst (strtoul 16 (cstr l)))"

text \<open>The contents of \<^verbatim>\<open>/proc/cpuinfo\<close> and \<^verbatim>\<open>/etc/machine-id\<close>, where they can be opened.\<close>

definition machine_uid :: "string option \<Rightarrow> string option \<Rightarrow> dhp_uid_t" where
  "machine_uid cpuinfo mid =
     (let uid = (case cpuinfo of None \<Rightarrow> 0 | Some t \<Rightarrow> cpuinfo_serial t);
          uid = (if uid = 0 then (case mid of None \<Rightarrow> 0 | Some t \<Rightarrow> machine_id t) else uid)
      in uid OR push_bit 63 1)"

definition coord_addr :: "dhp_uid_t \<Rightarrow> dhp_addr_t" where
  "coord_addr uid =
     (let a = ucast (uid XOR drop_bit 16 uid XOR drop_bit 32 uid XOR drop_bit 48 uid)
      in if a = DHP_ADDR_NONE \<or> a = DHP_ADDR_BROADCAST then 0x00C0 else a)"

section \<open>Link plumbing\<close>

definition coord_on_tx :: "link_tx \<Rightarrow> 'c coord_t \<Rightarrow> 'c coord_t" where
  "coord_on_tx tx c =
     (if fst tx \<noteq> se_port (co_ser c) then c
      else case serial_write (co_kernel c) (co_ser c) (snd tx) of (ok, s, sent, rs) \<Rightarrow>
        c\<lparr>co_ser := s, co_wire := co_wire c @ sent, co_kernel := rs\<rparr>)"

definition coord_on_focus :: "'c coord_t \<Rightarrow> 'c coord_t" where
  "coord_on_focus c = c\<lparr>co_next_render := 0\<rparr>"

definition coord_on_level :: "coord_env \<Rightarrow> dhp_level_t \<Rightarrow> 'c coord_t \<Rightarrow> 'c coord_t" where
  "coord_on_level env l c = (notice env (''LEVEL '' @ show_u (level_code l)) c)\<lparr>co_next_render := 0\<rparr>"

text \<open>The keyboard and mouse hooks are empty: nothing is attached to the coordinator.\<close>

primrec coord_hook :: "coord_env \<Rightarrow> router_event \<Rightarrow> 'c coord_t \<Rightarrow> 'c coord_t" where
  "coord_hook env (RTx tx) c = coord_on_tx tx c"
| "coord_hook env (RDeliverKbd r) c = c"
| "coord_hook env (RDeliverMouse r) c = c"
| "coord_hook env (RFocusChanged f is_self) c = coord_on_focus c"
| "coord_hook env (RLevelChanged l) c = coord_on_level env l c"
| "coord_hook env (RDeliverData f) c = c"

definition coord_put_router :: "coord_env \<Rightarrow> dhp_router_t \<Rightarrow> 'c coord_t \<Rightarrow> 'c coord_t" where
  "coord_put_router env r c = fold (coord_hook env) (rt_out r) (c\<lparr>co_router := r\<lparr>rt_out := []\<rparr>\<rparr>)"

definition coord_call_router ::
  "coord_env \<Rightarrow> (dhp_router_t \<Rightarrow> dhp_router_t option) \<Rightarrow> 'c coord_t \<Rightarrow> 'c coord_t option" where
  "coord_call_router env g c = map_option (\<lambda>r. coord_put_router env r c) (g (co_router c))"

section \<open>Pairing\<close>

definition coord_send_pair :: "coord_env \<Rightarrow> u8 list \<Rightarrow> 'c coord_t \<Rightarrow> 'c coord_t" where
  "coord_send_pair env buf c =
     (if buf = [] then c
      else coord_put_router env (router_send DHP_MSG_PAIR DHP_ADDR_BROADCAST (Some buf) (cv_now env) (co_router c)) c)"

definition coord_set_key :: "u8 list \<Rightarrow> 'c coord_t \<Rightarrow> 'c coord_t" where
  "coord_set_key key c = c\<lparr>co_router := (co_router c)\<lparr>rt_link := dhp_link_set_key (rt_link (co_router c)) key\<rparr>\<rparr>"

definition coord_store_key :: "coord_env \<Rightarrow> u8 list \<Rightarrow> 'c coord_t \<Rightarrow> 'c coord_t" where
  "coord_store_key env key c =
     (case coord_key_save (cv_key_io env) (cc_key_path (co_cfg c)) key (co_keys c) of (r, states) \<Rightarrow>
        (coord_set_key key (notice env (if r = Inr () then ''PAIRED'' else ''PAIR OK, SAVE FAILED'') c))
          \<lparr>co_keys := last states, co_paired := True, co_sas := []\<rparr>)"

definition coord_pairing_drain :: "coord_env \<Rightarrow> 'c coord_t \<Rightarrow> 'c coord_t" where
  "coord_pairing_drain env c0 =
     (let (p, ev) = dhp_pair_take_events (co_pair c0);
          c1 = c0\<lparr>co_pair := p\<rparr>;
          c2 = (if pe_send_offer ev then coord_send_pair env (dhp_pair_build_offer p 64) c1 else c1);
          c3 = (if pe_send_confirm ev
                then (coord_send_pair env (dhp_pair_build_confirm p 64) c2)
                       \<lparr>co_sas := dhp_pair_sas_string p, co_next_render := 0\<rparr>
                else c2);
          c4 = (if pe_send_abort ev
                then (notice env (snprintf_str 32 (''PAIR FAILED: '' @ dhp_pair_abort_name (pr_abort_reason p)))
                       (coord_send_pair env (dhp_pair_build_abort p 64) c3))\<lparr>co_sas := []\<rparr>
                else c3)
      in if pe_completed ev
         then (case dhp_pair_chain_key p of None \<Rightarrow> c4 | Some key \<Rightarrow> coord_store_key env key c4)
         else c4)"

definition start_pairing :: "coord_env \<Rightarrow> 'c coord_t \<Rightarrow> 'c coord_t" where
  "start_pairing env c =
     notice env ''PAIRING'' (c\<lparr>co_pair := dhp_pair_begin (co_pair c) (cv_now env) 30000, co_sas := []\<rparr>)"

section \<open>Control socket\<close>

definition SUN_PATH_BYTES :: nat where "SUN_PATH_BYTES = 108"

definition ctl_open :: "bool \<Rightarrow> coord_config_t \<Rightarrow> bool" where
  "ctl_open bound cfg \<longleftrightarrow> \<not> SUN_PATH_BYTES \<le> length (cc_ctl_path cfg) \<and> bound"

text \<open>
  What is at the path goes first, even when no socket can be made; a bound socket is a file of mode 0660.
\<close>

definition ctl_files :: "bool \<Rightarrow> coord_config_t \<Rightarrow> 'a fs \<Rightarrow> 'a fs" where
  "ctl_files bound cfg s =
     (let path = cc_ctl_path cfg; s1 = fs_unlink path s
      in if ctl_open bound cfg then s1(path \<mapsto> \<lparr>f_mode = 0x1B0, f_data = []\<rparr>) else s1)"

text \<open>A datagram from a socket without a name cannot be answered.\<close>

definition ctl_reply :: "coord_env \<Rightarrow> string \<Rightarrow> 'c coord_t \<Rightarrow> 'c coord_t" where
  "ctl_reply env msg c = (if cv_sender_named env then c\<lparr>co_replies := co_replies c @ [msg]\<rparr> else c)"

definition board_line :: "dhp_addr_t \<Rightarrow> dhp_chain_entry_t \<Rightarrow> string" where
  "board_line focus e = ''board addr='' @ show_u (unat (ce_addr e)) @ '' pos='' @ show_d (ce_rel_pos e) @
     '' caps=0x'' @ pad0 4 (show_base 16 (unat (ce_caps e))) @ (if ce_addr e = focus then '' focus'' else []) @ [NL]"

fun status_loop :: "dhp_addr_t \<Rightarrow> dhp_chain_entry_t list \<Rightarrow> string \<Rightarrow> string" where
  "status_loop focus [] out = out"
| "status_loop focus (e # es) out =
     (if \<not> length out < 1024 - 96 then out
      else status_loop focus es (if ce_used e then out @ board_line focus e else out))"

definition status_text :: "'c coord_t \<Rightarrow> string" where
  "status_text c = status_loop (dhp_router_focus (co_router c)) (rt_chain (co_router c))
     (''level='' @ dhp_level_name (dhp_router_level (co_router c)) @
      '' active='' @ (if dhp_router_is_active (co_router c) then ''self'' else ''board'') @
      '' focus='' @ show_u (unat (dhp_router_focus (co_router c))) @
      '' boards='' @ show_u (unat (dhp_router_chain_size (co_router c))) @
      '' paired='' @ (if co_paired c then ''yes'' else ''no'') @ [NL])"

primrec config_error_text :: "config_error \<Rightarrow> string" where
  "config_error_text (MustBe k lo hi) = k @ '' must be '' @ show_d lo @ ''..'' @ show_d hi"
| "config_error_text (MustBeBool k) = k @ '' must be true or false''"
| "config_error_text (UnknownKey k) = ''unknown key '' @ [CHR 0x27] @ k @ [CHR 0x27]"

text \<open>\<open>strerror\<close> is the system's text for the error at hand.\<close>

primrec save_error_text :: "string \<Rightarrow> save_error \<Rightarrow> string" where
  "save_error_text strerror (SaveOpen tmp) = ''open '' @ tmp @ '': '' @ strerror"
| "save_error_text strerror (SaveWrite tmp) = ''write '' @ tmp @ '': '' @ strerror"
| "save_error_text strerror SaveRename = ''rename: '' @ strerror"

definition error_reply :: "string \<Rightarrow> string" where
  "error_reply err = snprintf_str 320 (''error: '' @ snprintf_str 256 err @ [NL])"

definition ctl_focus :: "coord_env \<Rightarrow> string \<Rightarrow> 'c coord_t \<Rightarrow> 'c coord_t option" where
  "ctl_focus env rest c =
     (case strtok rest of
        None \<Rightarrow> Some (ctl_reply env (''usage: focus <addr>'' @ [NL]) c)
      | Some (arg, _) \<Rightarrow>
          if \<not> dhp_router_is_active (co_router c)
          then Some (ctl_reply env (''not the active speaker; focus is owned elsewhere'' @ [NL]) c)
          else map_option (ctl_reply env (''ok'' @ [NL]))
                 (coord_call_router env
                    (\<lambda>r. dhp_router_set_focus r (ucast (fst (strtoul 0 arg))) DHP_FOCUS_R_CFG (cv_now env)) c))"

definition ctl_set :: "coord_env \<Rightarrow> string \<Rightarrow> 'c coord_t \<Rightarrow> 'c coord_t" where
  "ctl_set env rest c =
     (let usage = ctl_reply env (''usage: set <key> <value>'' @ [NL]) c
      in case strtok rest of
           None \<Rightarrow> usage
         | Some (k, rest1) \<Rightarrow>
             (case strtok rest1 of
                None \<Rightarrow> usage
              | Some (v, _) \<Rightarrow>
                  (case coord_config_set (co_cfg c) k v of
                     Inl e \<Rightarrow> ctl_reply env (error_reply (config_error_text e)) c
                   | Inr cfg \<Rightarrow>
                       let r = co_router c
                       in ctl_reply env (''ok (link and panel settings apply on restart)'' @ [NL])
                            (c\<lparr>co_cfg := cfg,
                               co_router := r\<lparr>rt_pointer := (rt_pointer r)\<lparr>pt_cfg := cc_pointer cfg\<rparr>,
                                 rt_uhrp := (rt_uhrp r)\<lparr>u_cfg := (u_cfg (rt_uhrp r))\<lparr>uc_timing := cc_timing cfg\<rparr>\<rparr>\<rparr>\<rparr>))))"

definition ctl_save :: "coord_env \<Rightarrow> string \<Rightarrow> 'c coord_t \<Rightarrow> 'c coord_t" where
  "ctl_save env rest c =
     (let path = (case strtok rest of None \<Rightarrow> ''/etc/deskhop/coordinator.conf'' | Some (p, _) \<Rightarrow> p)
      in case coord_config_save (cv_save_io env) (co_cfg c) path (co_files c) of
           (Inl e, states) \<Rightarrow>
             ctl_reply env (error_reply (save_error_text (cv_strerror env) e)) (c\<lparr>co_files := last states\<rparr>)
         | (Inr _, states) \<Rightarrow> ctl_reply env (''saved'' @ [NL]) (c\<lparr>co_files := last states\<rparr>))"

definition ctl_handle :: "coord_env \<Rightarrow> string \<Rightarrow> 'c coord_t \<Rightarrow> 'c coord_t option" where
  "ctl_handle env dgram c =
     (if dgram = [] then Some c
      else case strtok (cstr (take 511 dgram)) of
        None \<Rightarrow> Some c
      | Some (cmd, rest) \<Rightarrow>
          if cmd = ''status'' then Some (ctl_reply env (status_text c) c)
          else if cmd = ''pair'' then Some (ctl_reply env (''pairing started'' @ [NL]) (start_pairing env c))
          else if cmd = ''focus'' then ctl_focus env rest c
          else if cmd = ''set'' then Some (ctl_set env rest c)
          else if cmd = ''save'' then Some (ctl_save env rest c)
          else Some (ctl_reply env (''commands: status pair focus <addr> set <k> <v> save [path]'' @ [NL]) c))"

section \<open>Display\<close>

definition status_board :: "'c coord_t \<Rightarrow> dhp_chain_entry_t \<Rightarrow> dsp_board_t" where
  "status_board c e = \<lparr>db_addr = ce_addr e, db_rel_pos = ce_rel_pos e, db_is_self = (ce_addr e = co_self c),
     db_is_active = False, db_is_focus = (ce_addr e = dhp_router_focus (co_router c)),
     db_has_input = (ce_caps e AND DHP_CAP_HID_IN \<noteq> 0), db_is_coord = (ce_caps e AND DHP_CAP_COORD \<noteq> 0)\<rparr>"

definition coord_status :: "coord_env \<Rightarrow> 'c coord_t \<Rightarrow> dsp_status_t" where
  "coord_status env c =
     (let fr = lp_framer (port_of (rt_link (co_router c)) (se_port (co_ser c)))
      in \<lparr>ds_level = dhp_router_level (co_router c),
          ds_board = take 16 (map (status_board c) (filter ce_used (take DHP_MAX_BOARDS (rt_chain (co_router c))))),
          ds_we_are_active = dhp_router_is_active (co_router c),
          ds_state_name = Some (dhp_uhrp_state_name (u_state (rt_uhrp (co_router c)))),
          ds_link_baud = cc_link_baud (co_cfg c), ds_crc_errors = fm_n_crc_err fr, ds_auth_errors = fm_n_auth_err fr,
          ds_uptime_s = (cv_now env - co_started c) div 1000,
          ds_pairing = (pr_state (co_pair c) = DHP_PAIR_WAITING \<or> pr_state (co_pair c) = DHP_PAIR_CONFIRM_WAIT),
          ds_sas = (if co_sas c \<noteq> [] then Some (co_sas c) else None),
          ds_message = (if co_message_active c \<and> \<not> dhp_time_after (cv_now env) (co_message_until c)
                        then Some (co_message c) else None)\<rparr>)"

definition coord_render :: "coord_env \<Rightarrow> 'c coord_t \<Rightarrow> 'c coord_t" where
  "coord_render env c =
     (let st = coord_status env c;
          c1 = (if co_message_active c \<and> dhp_time_after (cv_now env) (co_message_until c)
                then c\<lparr>co_message_active := False\<rparr> else c);
          c2 = c1\<lparr>co_screen := dsp_render_status (cv_qsort env) st (co_screen c1)\<rparr>
      in if co_panel c2 then c2\<lparr>co_bus := co_bus c2 @ snd (ssd1306_blit (cv_bus env) (dp_px (co_screen c2)))\<rparr>
         else c2)"

section \<open>Boot\<close>

record boot_env =
  bt_conf :: fopen_result
  bt_force_headless :: bool
  bt_verbose :: bool
  bt_serial_ready :: bool
  bt_i2c_open :: bool
  bt_i2c_addressed :: bool
  bt_room :: bool
  bt_cpuinfo :: "string option"
  bt_machine_id :: "string option"
  bt_bound :: bool
  bt_keys :: "u8 fs"
  bt_files :: "char fs"

datatype boot_error = BootConfig | BootSerial serial_error

definition coord_hooks :: dhp_router_hooks_t where
  "coord_hooks = \<lparr>rh_deliver_kbd = True, rh_deliver_mouse = True, rh_focus_changed = True, rh_level_changed = True,
     rh_deliver_data = False\<rparr>"

definition coord_caps :: "bool \<Rightarrow> bool \<Rightarrow> u16" where
  "coord_caps panel headless =
     (DHP_CAP_COORD OR DHP_CAP_CONFIG) OR (if panel \<or> headless then DHP_CAP_DISPLAY else 0)"

definition coord_router_cfg :: "dhp_addr_t \<Rightarrow> dhp_uid_t \<Rightarrow> u16 \<Rightarrow> coord_config_t \<Rightarrow> dhp_router_cfg_t" where
  "coord_router_cfg self uid caps cfg = \<lparr>rc_self = self, rc_uid = uid, rc_caps = caps, rc_preempt = True,
     rc_timing = cc_timing cfg, rc_pointer = cc_pointer cfg\<rparr>"

definition coord_init ::
  "'c dhp_crypto_t \<Rightarrow> boot_env \<Rightarrow> coord_env \<Rightarrow> coord_config_t \<Rightarrow> serial_t \<Rightarrow> 'c coord_t" where
  "coord_init crypto bt env cfg ser =
     (let (panel, w) = (if cc_headless cfg then (False, [])
            else ssd1306_open (bt_i2c_open bt) (bt_i2c_addressed bt) (bt_room bt) (cv_bus env));
          uid = machine_uid (bt_cpuinfo bt) (bt_machine_id bt);
          self = coord_addr uid;
          key = coord_key_load (cc_key_path cfg) (bt_keys bt);
          l0 = dhp_link_init self True;
          l = (case key of None \<Rightarrow> l0 | Some k \<Rightarrow> dhp_link_set_key l0 k)
      in \<lparr>co_cfg = cfg, co_ser = ser, co_panel = panel,
          co_screen = \<lparr>dp_px = replicate DSP_FB_BYTES 0, dp_dirty = False\<rparr>,
          co_router = dhp_router_init (coord_router_cfg self uid (coord_caps panel (cc_headless cfg)) cfg) l (Some coord_hooks),
          co_pair = dhp_pair_init crypto uid, co_paired = (key \<noteq> None), co_self = self, co_uid = uid,
          co_started = cv_now env, co_next_render = 0, co_sas = [], co_message = [], co_message_until = 0,
          co_message_active = False, co_ctl = ctl_open (bt_bound bt) cfg, co_verbose = bt_verbose bt,
          co_keys = ctl_files (bt_bound bt) cfg (bt_keys bt),
          co_files = ctl_files (bt_bound bt) cfg (bt_files bt), co_kernel = cv_writes env, co_wire = [], co_bus = w,
          co_replies = []\<rparr>)"

definition coord_boot :: "'c dhp_crypto_t \<Rightarrow> boot_env \<Rightarrow> coord_env \<Rightarrow> (boot_error + 'c coord_t) option" where
  "coord_boot crypto bt env =
     (case coord_config_load coord_config_defaults (bt_conf bt) of
        Inl _ \<Rightarrow> Some (Inl BootConfig)
      | Inr (cfg0, _) \<Rightarrow>
          let cfg = (if bt_force_headless bt then cfg0\<lparr>cc_headless := True\<rparr> else cfg0);
              port = (if cc_at_head cfg then DHP_PORT_DOWN else DHP_PORT_UP)
          in case serial_open (bt_serial_ready bt) (cc_link_baud cfg) port of
               Inl e \<Rightarrow> Some (Inl (BootSerial e))
             | Inr ser \<Rightarrow>
                 map_option (\<lambda>c. Inr (notice env ''STARTING'' c))
                   (coord_call_router env (\<lambda>r. dhp_router_start r (cv_now env)) (coord_init crypto bt env cfg ser)))"

text \<open>
  \<^verbatim>\<open>getopt_long\<close> turns the command line into a sequence of options; anything else is \<open>OptUnknown\<close>.  Asking
  for help ends the program with status 0, a wrong option with 2, and a failed start with 1.
\<close>

datatype coord_opt = OptConfig string | OptHeadless | OptVerboseLog | OptHelp | OptUnknown

record coord_args =
  oa_conf_path :: string
  oa_force_headless :: bool
  oa_verbose :: bool

fun coord_options :: "coord_opt list \<Rightarrow> coord_args \<Rightarrow> int + coord_args" where
  "coord_options [] a = Inr a"
| "coord_options (OptConfig p # os) a = coord_options os (a\<lparr>oa_conf_path := p\<rparr>)"
| "coord_options (OptHeadless # os) a = coord_options os (a\<lparr>oa_force_headless := True\<rparr>)"
| "coord_options (OptVerboseLog # os) a = coord_options os (a\<lparr>oa_verbose := True\<rparr>)"
| "coord_options (OptHelp # os) a = Inl 0"
| "coord_options (OptUnknown # os) a = Inl 2"

definition coord_main ::
  "'c dhp_crypto_t \<Rightarrow> (string \<Rightarrow> fopen_result) \<Rightarrow> boot_env \<Rightarrow> coord_env \<Rightarrow> coord_opt list \<Rightarrow> (int + 'c coord_t) option" where
  "coord_main crypto conf bt env opts =
     (case coord_options opts
             \<lparr>oa_conf_path = ''/etc/deskhop/coordinator.conf'', oa_force_headless = False, oa_verbose = False\<rparr> of
        Inl status \<Rightarrow> Some (Inl status)
      | Inr a \<Rightarrow>
          map_option (\<lambda>res. case res of Inl _ \<Rightarrow> Inl 1 | Inr c \<Rightarrow> Inr c)
            (coord_boot crypto
               (bt\<lparr>bt_conf := conf (oa_conf_path a), bt_force_headless := oa_force_headless a, bt_verbose := oa_verbose a\<rparr>)
               env))"

section \<open>The main loop\<close>

definition coord_rx_byte :: "coord_env \<Rightarrow> u8 \<Rightarrow> 'c coord_t \<Rightarrow> 'c coord_t option" where
  "coord_rx_byte env b c =
     (let r = co_router c; port = se_port (co_ser c);
          (l, tx, res) = dhp_link_rx_byte (rt_link r) port b (cv_now env);
          c1 = coord_put_router env (r\<lparr>rt_link := l, rt_out := rt_out r @ map RTx tx\<rparr>) c
      in case res of
           Inl e \<Rightarrow> Some c1
         | Inr f \<Rightarrow>
             if fr_type f = msg_code DHP_MSG_PAIR
             then Some (c1\<lparr>co_pair := dhp_pair_rx (co_pair c1) (frame_bytes f) (cv_now env)\<rparr>)
             else if co_paired c1 then coord_call_router env (\<lambda>r. dhp_router_rx r f port (cv_now env)) c1
             else Some c1)"

primrec coord_rx :: "coord_env \<Rightarrow> u8 list \<Rightarrow> 'c coord_t \<Rightarrow> 'c coord_t option" where
  "coord_rx env [] c = Some c"
| "coord_rx env (b # bs) c = Option.bind (coord_rx_byte env b c) (coord_rx env bs)"

definition coord_flush :: "'c coord_t \<Rightarrow> 'c coord_t" where
  "coord_flush c = (case serial_flush (co_kernel c) (co_ser c) of (ok, s, sent, rs) \<Rightarrow>
     c\<lparr>co_ser := s, co_wire := co_wire c @ sent, co_kernel := rs\<rparr>)"

definition coord_maybe_render :: "coord_env \<Rightarrow> 'c coord_t \<Rightarrow> 'c coord_t" where
  "coord_maybe_render env c =
     (if dhp_time_after (cv_now env) (co_next_render c)
      then (coord_render env c)\<lparr>co_next_render := cv_now env + 250\<rparr> else c)"

definition coord_pass :: "coord_env \<Rightarrow> 'c coord_t \<Rightarrow> 'c coord_t option" where
  "coord_pass env c0 =
     do {
       let c = c0\<lparr>co_kernel := cv_writes env\<rparr>;
       c \<leftarrow> (case cv_serial env of
               None \<Rightarrow> Some c
             | Some r \<Rightarrow> (case serial_read r 1024 of None \<Rightarrow> Some c | Some bs \<Rightarrow> coord_rx env bs c));
       c \<leftarrow> (case cv_ctl env of
               None \<Rightarrow> Some c
             | Some dgram \<Rightarrow> if co_ctl c then ctl_handle env dgram c else Some c);
       let c = c\<lparr>co_pair := dhp_pair_tick (co_pair c) (cv_now env)\<rparr>;
       let c = coord_pairing_drain env c;
       let c = (if co_paired c then coord_put_router env (dhp_router_tick (co_router c) (cv_now env)) c else c);
       Some (coord_maybe_render env (coord_flush c))
     }"

text \<open>The end of \<^verbatim>\<open>main\<close>: the active speaker says that it goes, and the control socket is removed.\<close>

definition coord_stop :: "coord_env \<Rightarrow> 'c coord_t \<Rightarrow> 'c coord_t" where
  "coord_stop env c0 =
     (let c = c0\<lparr>co_kernel := cv_writes env\<rparr>;
          c = (if dhp_router_is_active (co_router c)
               then coord_flush (coord_put_router env (router_send DHP_MSG_RESIGN DHP_ADDR_BROADCAST None (cv_now env) (co_router c)) c)
               else c);
          c = (if co_panel c then c\<lparr>co_bus := co_bus c @ ssd1306_close (cv_bus env)\<rparr> else c)
      in if co_ctl c
         then let path = cc_ctl_path (co_cfg c)
              in c\<lparr>co_ctl := False, co_keys := fs_unlink path (co_keys c), co_files := fs_unlink path (co_files c)\<rparr>
         else c)"

section \<open>What the hooks keep\<close>

definition hook_frame :: "'c coord_t \<Rightarrow> 'c coord_t \<Rightarrow> bool" where
  "hook_frame c c' \<longleftrightarrow> co_cfg c' = co_cfg c \<and> co_screen c' = co_screen c \<and> co_router c' = co_router c \<and>
     co_pair c' = co_pair c \<and> co_paired c' = co_paired c \<and> co_self c' = co_self c \<and> co_sas c' = co_sas c \<and>
     co_panel c' = co_panel c \<and> co_bus c' = co_bus c \<and> co_ctl c' = co_ctl c \<and> co_keys c' = co_keys c \<and>
     co_files c' = co_files c \<and>
     (length (se_tx (co_ser c)) \<le> TXBUF \<longrightarrow> length (se_tx (co_ser c')) \<le> TXBUF) \<and>
     (length (co_message c) < 32 \<longrightarrow> length (co_message c') < 32)"

lemma hook_frame_refl [simp]: "hook_frame c c"
  by (simp add: hook_frame_def)

lemma hook_frame_trans: "hook_frame c d \<Longrightarrow> hook_frame d e \<Longrightarrow> hook_frame c e"
  by (simp add: hook_frame_def)

lemma serial_write_bound:
  "serial_write rs s data = (ok, s', sent, rs') \<Longrightarrow> length (se_tx s) \<le> TXBUF \<Longrightarrow> length (se_tx s') \<le> TXBUF"
  using serial_write_split [of rs s data ok s' sent rs'] serial_write_full [of s data rs]
  by (cases "TXBUF < length (se_tx s) + length data") auto

lemma on_tx_frame: "hook_frame c (coord_on_tx tx c)"
proof (cases "fst tx \<noteq> se_port (co_ser c)")
  case False
  obtain ok s sent rs where w: "serial_write (co_kernel c) (co_ser c) (snd tx) = (ok, s, sent, rs)" by (metis prod_cases4)
  with False serial_write_bound [OF w] show ?thesis by (simp add: coord_on_tx_def hook_frame_def)
qed (simp add: coord_on_tx_def)

lemma notice_frame: "hook_frame c (notice env msg c)"
  using snprintf_str_length [of 32 msg] by (simp add: notice_def hook_frame_def)

lemma hook_keeps: "hook_frame c (coord_hook env e c)"
proof (cases e)
  case (RLevelChanged l)
  then show ?thesis using notice_frame [of c env "''LEVEL '' @ show_u (level_code l)"]
    by (simp add: coord_on_level_def hook_frame_def)
next
  case (RFocusChanged f s)
  then show ?thesis by (simp add: coord_on_focus_def hook_frame_def)
qed (simp_all add: on_tx_frame)

lemma hooks_keep: "hook_frame c (fold (coord_hook env) evs c)"
  by (induction evs arbitrary: c) (auto intro: hook_frame_trans hook_keeps)

lemma put_router_frame: "hook_frame (c\<lparr>co_router := r\<lparr>rt_out := []\<rparr>\<rparr>) (coord_put_router env r c)"
  by (simp add: coord_put_router_def hooks_keep)

section \<open>The invariant\<close>

text \<open>The settings the router, the election and the pointer run on are the stored ones.\<close>

definition in_force :: "coord_config_t \<Rightarrow> dhp_addr_t \<Rightarrow> dhp_router_t \<Rightarrow> bool" where
  "in_force cfg self r \<longleftrightarrow>
     (case settings_of r of (rc, uc, pc) \<Rightarrow>
        pc = cc_pointer cfg \<and> uc_timing uc = cc_timing cfg \<and> rc_self rc = self \<and> uc_addr uc = self \<and>
        uc_caps uc = rc_caps rc \<and> rc_caps rc AND DHP_CAP_HID_OUT = 0 \<and> uc_preempt uc)"

definition coord_inv :: "'c coord_t \<Rightarrow> bool" where
  "coord_inv c \<longleftrightarrow> config_bounds (co_cfg c) \<and> length (se_tx (co_ser c)) \<le> TXBUF \<and> fb_ok (co_screen c) \<and>
     length (co_message c) < 32 \<and> length (co_sas c) < 7 \<and>
     co_self c \<noteq> DHP_ADDR_NONE \<and> co_self c \<noteq> DHP_ADDR_BROADCAST \<and> in_force (co_cfg c) (co_self c) (co_router c) \<and>
     (co_paired c \<longrightarrow> key_of (co_router c) \<noteq> None)"

lemma coord_inv_other [simp]:
  "coord_inv (c\<lparr>co_pair := p\<rparr>) = coord_inv c" "coord_inv (c\<lparr>co_next_render := t\<rparr>) = coord_inv c"
  "coord_inv (c\<lparr>co_message_active := b\<rparr>) = coord_inv c" "coord_inv (c\<lparr>co_keys := ks\<rparr>) = coord_inv c"
  "coord_inv (c\<lparr>co_files := fs\<rparr>) = coord_inv c" "coord_inv (c\<lparr>co_kernel := rs\<rparr>) = coord_inv c"
  "coord_inv (c\<lparr>co_wire := w\<rparr>) = coord_inv c" "coord_inv (c\<lparr>co_bus := ws\<rparr>) = coord_inv c"
  "coord_inv (c\<lparr>co_replies := ms\<rparr>) = coord_inv c"
  by (simp_all add: coord_inv_def)

lemma coord_inv_sas: "coord_inv c \<Longrightarrow> length s < 7 \<Longrightarrow> coord_inv (c\<lparr>co_sas := s\<rparr>)"
  by (simp add: coord_inv_def)

lemma coord_inv_frame: "coord_inv c \<Longrightarrow> hook_frame c c' \<Longrightarrow> coord_inv c'"
  by (simp add: coord_inv_def hook_frame_def)

lemma coord_inv_notice: "coord_inv c \<Longrightarrow> coord_inv (notice env msg c)"
  using coord_inv_frame notice_frame by blast

lemma coord_inv_reply: "coord_inv c \<Longrightarrow> coord_inv (ctl_reply env msg c)"
  by (simp add: ctl_reply_def)

definition same_life :: "dhp_router_t \<Rightarrow> dhp_router_t \<Rightarrow> bool" where
  "same_life r r' \<longleftrightarrow> settings_of r' = settings_of r \<and> key_of r' = key_of r"

lemma coord_inv_put:
  assumes "coord_inv c" "same_life (co_router c) r"
  shows "coord_inv (coord_put_router env r c)"
proof (rule coord_inv_frame [OF _ put_router_frame])
  show "coord_inv (c\<lparr>co_router := r\<lparr>rt_out := []\<rparr>\<rparr>)"
    using assms by (simp add: coord_inv_def in_force_def same_life_def)
qed

lemma coord_inv_call:
  assumes "coord_inv c" "coord_call_router env g c = Some c'" "\<And>r. g (co_router c) = Some r \<Longrightarrow> same_life (co_router c) r"
  shows "coord_inv c'"
  using assms coord_inv_put by (auto simp: coord_call_router_def)

lemma same_life_calls:
  "same_life r (router_send ty d p now r)" "same_life r (dhp_router_tick r now)"
  "dhp_router_rx r f port now = Some r' \<Longrightarrow> same_life r r'" "dhp_router_set_focus r t rs now = Some r' \<Longrightarrow> same_life r r'"
  "dhp_router_start r now = Some r' \<Longrightarrow> same_life r r'"
  by (simp_all add: same_life_def settings_router_rx key_router_rx settings_set_focus settings_start key_start)
    (simp add: dhp_router_set_focus_def key_apply_focus)

lemma coord_inv_send_pair: "coord_inv c \<Longrightarrow> coord_inv (coord_send_pair env buf c)"
  by (simp add: coord_send_pair_def coord_inv_put same_life_calls)

lemma coord_inv_store_key:
  assumes "coord_inv c" shows "coord_inv (coord_store_key env key c)"
proof -
  have k: "coord_inv ((coord_set_key key d)\<lparr>co_keys := ks, co_paired := True, co_sas := []\<rparr>)" if "coord_inv d" for d :: "'a coord_t" and ks
    using that by (simp add: coord_inv_def coord_set_key_def in_force_def settings_of_def dhp_link_set_key_def link_key_def)
  show ?thesis
    using k [OF coord_inv_notice [OF assms]] by (simp add: coord_store_key_def split_beta)
qed

lemma coord_inv_drain:
  assumes "coord_inv c" shows "coord_inv (coord_pairing_drain env c)"
proof -
  obtain p ev where t: "dhp_pair_take_events (co_pair c) = (p, ev)" by fastforce
  define c1 where "c1 = c\<lparr>co_pair := p\<rparr>"
  define c2 where "c2 = (if pe_send_offer ev then coord_send_pair env (dhp_pair_build_offer p 64) c1 else c1)"
  define c3 where "c3 = (if pe_send_confirm ev
      then (coord_send_pair env (dhp_pair_build_confirm p 64) c2)\<lparr>co_sas := dhp_pair_sas_string p, co_next_render := 0\<rparr> else c2)"
  define c4 where "c4 = (if pe_send_abort ev
      then (notice env (snprintf_str 32 (''PAIR FAILED: '' @ dhp_pair_abort_name (pr_abort_reason p)))
             (coord_send_pair env (dhp_pair_build_abort p 64) c3))\<lparr>co_sas := []\<rparr> else c3)"
  have "coord_inv c2" using assms by (simp add: c2_def c1_def coord_inv_send_pair)
  then have "coord_inv c3" by (simp add: c3_def sas_string_six coord_inv_send_pair coord_inv_sas)
  then have "coord_inv c4" by (simp add: c4_def coord_inv_send_pair coord_inv_sas coord_inv_notice)
  then show ?thesis
    unfolding coord_pairing_drain_def t Let_def prod.case c1_def [symmetric] c2_def [symmetric] c3_def [symmetric] c4_def [symmetric]
    by (auto simp: coord_inv_store_key split: option.split)
qed

lemma coord_inv_pairing: "coord_inv c \<Longrightarrow> coord_inv (start_pairing env c)"
  by (simp add: start_pairing_def coord_inv_notice coord_inv_sas)

lemma coord_inv_focus:
  assumes "coord_inv c" "ctl_focus env rest c = Some c'" shows "coord_inv c'"
proof (cases "strtok rest")
  case None
  with assms coord_inv_reply show ?thesis by (auto simp: ctl_focus_def)
next
  case (Some a)
  let ?g = "\<lambda>r. dhp_router_set_focus r (ucast (fst (strtoul 0 (fst a)))) DHP_FOCUS_R_CFG (cv_now env)"
  show ?thesis
  proof (cases "dhp_router_is_active (co_router c)")
    case False
    with assms Some coord_inv_reply show ?thesis by (auto simp: ctl_focus_def split_beta)
  next
    case True
    with assms(2) Some obtain d where d: "coord_call_router env ?g c = Some d" "c' = ctl_reply env (''ok'' @ [NL]) d"
      by (auto simp: ctl_focus_def split_beta)
    show ?thesis unfolding d(2) by (intro coord_inv_reply coord_inv_call [OF assms(1) d(1)] same_life_calls(4))
  qed
qed

lemma coord_inv_settings:
  assumes "coord_inv c" "coord_config_set (co_cfg c) k v = Inr cfg"
  shows "coord_inv (c\<lparr>co_cfg := cfg, co_router := (co_router c)\<lparr>rt_pointer := (rt_pointer (co_router c))\<lparr>pt_cfg := cc_pointer cfg\<rparr>,
    rt_uhrp := (rt_uhrp (co_router c))\<lparr>u_cfg := (u_cfg (rt_uhrp (co_router c)))\<lparr>uc_timing := cc_timing cfg\<rparr>\<rparr>\<rparr>\<rparr>)"
  using assms config_set_bounds [OF _ assms(2)] by (simp add: coord_inv_def in_force_def settings_of_def)

lemma coord_inv_set: "coord_inv c \<Longrightarrow> coord_inv (ctl_set env rest c)"
  by (auto simp: ctl_set_def Let_def coord_inv_reply coord_inv_settings split: option.split sum.split)

lemma coord_inv_save: "coord_inv c \<Longrightarrow> coord_inv (ctl_save env rest c)"
  by (auto simp: ctl_save_def Let_def coord_inv_reply split: option.split sum.split prod.split)

lemma coord_inv_ctl: "coord_inv c \<Longrightarrow> ctl_handle env dgram c = Some c' \<Longrightarrow> coord_inv c'"
  by (auto simp: ctl_handle_def coord_inv_reply coord_inv_pairing coord_inv_set coord_inv_save
      dest: coord_inv_focus split: if_splits option.splits)

lemma fb_ok_render [simp]: "fb_ok (dsp_render_status qs st d)"
  by (simp add: render_before_middle)

lemma coord_inv_render: "coord_inv c \<Longrightarrow> coord_inv (coord_render env c)"
  by (simp add: coord_render_def Let_def) (simp add: coord_inv_def)

lemma coord_inv_rx_byte:
  assumes "coord_inv c" "coord_rx_byte env b c = Some c'" shows "coord_inv c'"
proof -
  obtain l tx res where rx: "dhp_link_rx_byte (rt_link (co_router c)) (se_port (co_ser c)) b (cv_now env) = (l, tx, res)"
    by (metis prod_cases3)
  let ?r = "(co_router c)\<lparr>rt_link := l, rt_out := rt_out (co_router c) @ map RTx tx\<rparr>"
  let ?c = "coord_put_router env ?r c"
  have inv: "coord_inv ?c"
    by (rule coord_inv_put [OF assms(1)]) (simp add: same_life_def link_rx_byte_key [OF rx])
  show ?thesis
  proof (cases res)
    case (Inl e)
    with assms(2) rx inv show ?thesis by (simp add: coord_rx_byte_def Let_def)
  next
    case (Inr f)
    with assms(2) rx inv coord_inv_call [OF inv] same_life_calls(3) show ?thesis
      by (auto simp: coord_rx_byte_def Let_def split: if_splits)
  qed
qed

lemma coord_inv_rx: "coord_inv c \<Longrightarrow> coord_rx env bs c = Some c' \<Longrightarrow> coord_inv c'"
  by (induction bs arbitrary: c) (auto simp: bind_eq_Some_conv dest: coord_inv_rx_byte)

lemma coord_inv_flush: "coord_inv c \<Longrightarrow> coord_inv (coord_flush c)"
proof -
  obtain ok s sent rs where w: "serial_flush (co_kernel c) (co_ser c) = (ok, s, sent, rs)" by (metis prod_cases4)
  assume "coord_inv c"
  with serial_flush_length [OF w] show ?thesis by (simp add: coord_flush_def w coord_inv_def)
qed

lemma coord_inv_tick:
  "coord_inv c \<Longrightarrow> coord_inv (if co_paired c then coord_put_router env (dhp_router_tick (co_router c) (cv_now env)) c else c)"
  by (simp add: coord_inv_put same_life_calls)

lemma coord_inv_pass:
  assumes "coord_inv c" "coord_pass env c = Some c'" shows "coord_inv c'"
proof -
  let ?c = "c\<lparr>co_kernel := cv_writes env\<rparr>"
  have inv: "coord_inv ?c" using assms(1) by simp
  from assms(2) obtain c1 c2 where
    rx: "(case cv_serial env of None \<Rightarrow> Some ?c
           | Some r \<Rightarrow> (case serial_read r 1024 of None \<Rightarrow> Some ?c | Some bs \<Rightarrow> coord_rx env bs ?c)) = Some c1" and
    ctl: "(case cv_ctl env of None \<Rightarrow> Some c1 | Some dgram \<Rightarrow> if co_ctl c1 then ctl_handle env dgram c1 else Some c1) = Some c2" and
    c': "c' = coord_maybe_render env (coord_flush (let c = coord_pairing_drain env (c2\<lparr>co_pair := dhp_pair_tick (co_pair c2) (cv_now env)\<rparr>)
           in if co_paired c then coord_put_router env (dhp_router_tick (co_router c) (cv_now env)) c else c))"
    by (auto simp: coord_pass_def Let_def bind_eq_Some_conv)
  have "coord_inv c1" using rx inv coord_inv_rx [OF inv] by (auto split: option.splits)
  then have "coord_inv c2" using ctl coord_inv_ctl by (auto split: option.splits if_splits)
  then have "coord_inv (coord_flush (let c = coord_pairing_drain env (c2\<lparr>co_pair := dhp_pair_tick (co_pair c2) (cv_now env)\<rparr>)
      in if co_paired c then coord_put_router env (dhp_router_tick (co_router c) (cv_now env)) c else c))"
    unfolding Let_def by (intro coord_inv_flush coord_inv_tick coord_inv_drain) simp
  then show ?thesis unfolding c' coord_maybe_render_def by (simp add: coord_inv_render)
qed

lemma coord_addr_usable: "coord_addr uid \<noteq> DHP_ADDR_NONE \<and> coord_addr uid \<noteq> DHP_ADDR_BROADCAST"
  by (simp add: coord_addr_def Let_def dhp_consts)

lemma coord_caps_no_screen: "coord_caps panel headless AND DHP_CAP_HID_OUT = 0"
  by (simp add: coord_caps_def dhp_consts)

lemma coord_init_inv:
  assumes "config_bounds cfg" "serial_open ready baud port = Inr ser"
  shows "coord_inv (coord_init crypto bt env cfg ser)"
proof -
  have b: "0 < pc_span (cc_pointer cfg)" "ut_hello_ms (cc_timing cfg) \<noteq> 0"
    using assms(1) by (auto simp: config_bounds_def)
  have t: "se_tx ser = []" using assms(2) by (auto simp: serial_open_def split: if_splits)
  have f: "in_force cfg (coord_addr uid) (dhp_router_init (coord_router_cfg (coord_addr uid) uid (coord_caps p h) cfg) l hk)" for uid p h l hk
    using settings_init [of "coord_router_cfg (coord_addr uid) uid (coord_caps p h) cfg" l hk] b
    by (simp add: in_force_def coord_router_cfg_def coord_caps_no_screen)
  show ?thesis
    using assms(1) f coord_addr_usable
    by (simp add: coord_init_def Let_def split_beta coord_inv_def t fb_ok_def dhp_link_set_key_def link_key_def split: option.split)
qed

lemma coord_boot_inv:
  assumes "coord_boot crypto bt env = Some (Inr c)" shows "coord_inv c"
proof -
  obtain cfg0 e where l: "coord_config_load coord_config_defaults (bt_conf bt) = Inr (cfg0, e)"
    using assms by (auto simp: coord_boot_def split: sum.splits)
  define cfg where "cfg = (if bt_force_headless bt then cfg0\<lparr>cc_headless := True\<rparr> else cfg0)"
  have cb: "config_bounds cfg" using load_bounds [OF config_bounds_defaults l] by (simp add: cfg_def config_bounds_def)
  obtain ser d where s: "serial_open (bt_serial_ready bt) (cc_link_baud cfg) (if cc_at_head cfg then DHP_PORT_DOWN else DHP_PORT_UP) = Inr ser"
    and d: "coord_call_router env (\<lambda>r. dhp_router_start r (cv_now env)) (coord_init crypto bt env cfg ser) = Some d"
    and c: "c = notice env ''STARTING'' d"
    using assms unfolding coord_boot_def l sum.case prod.case Let_def cfg_def [symmetric] by (auto split: sum.splits)
  show ?thesis unfolding c
    by (intro coord_inv_notice coord_inv_call [OF coord_init_inv [OF cb s] d] same_life_calls(5))
qed

lemma coord_options_headless:
  "coord_options os a = Inr b \<Longrightarrow> OptHeadless \<in> set os \<or> oa_force_headless a \<Longrightarrow> oa_force_headless b"
  by (induction os a rule: coord_options.induct) auto

lemma coord_boot_headless:
  assumes "coord_boot crypto bt env = Some (Inr c)" "bt_force_headless bt"
  shows "\<not> co_panel c"
proof -
  have "\<not> co_panel (coord_init crypto bt env (cfg\<lparr>cc_headless := True\<rparr>) ser)" for cfg ser
    by (simp add: coord_init_def Let_def split_beta)
  moreover have "co_panel (notice env m d) = co_panel d" for m and d :: "'a coord_t" by (simp add: notice_def)
  moreover have "co_panel d = co_panel b" if "coord_call_router env g b = Some d" for g and b d :: "'a coord_t"
    using that put_router_frame [where env = env and c = b] by (auto simp: coord_call_router_def hook_frame_def)
  ultimately show ?thesis
    using assms by (auto simp: coord_boot_def Let_def split: sum.splits)
qed

text \<open>With \<^verbatim>\<open>--headless\<close> among the options the daemon runs without a panel, whatever its configuration says.\<close>

theorem headless_option_wins:
  assumes "coord_main crypto conf bt env opts = Some (Inr c)" "OptHeadless \<in> set opts"
  shows "\<not> co_panel c"
proof -
  from assms(1) obtain a where
    o: "coord_options opts \<lparr>oa_conf_path = ''/etc/deskhop/coordinator.conf'', oa_force_headless = False, oa_verbose = False\<rparr> = Inr a" and
    b: "coord_boot crypto (bt\<lparr>bt_conf := conf (oa_conf_path a), bt_force_headless := oa_force_headless a,
          bt_verbose := oa_verbose a\<rparr>) env = Some (Inr c)"
    unfolding coord_main_def by (auto split: sum.split_asm) (metis sum.exhaust)
  show ?thesis using coord_boot_headless [OF b] coord_options_headless [OF o] assms(2) by simp
qed

inductive coord_step :: "'c coord_t \<Rightarrow> 'c coord_t \<Rightarrow> bool" where
  pass: "coord_pass env c = Some c' \<Longrightarrow> coord_step c c'"

inductive_cases coord_stepE: "coord_step c c'"

interpretation daemon: transition_system "\<lambda>c. \<exists>crypto bt env. coord_boot crypto bt env = Some (Inr c)" coord_step coord_inv
  by unfold_locales (auto intro: coord_boot_inv coord_inv_pass elim: coord_stepE)

section \<open>Properties\<close>

text \<open>
  C19. The daemon runs on its settings. In every state a started coordinator reaches, whatever arrives on
  the cable and the control socket and whatever the kernel does: every stored setting is in its range;
  the pointer integrator and the election run on exactly the stored pointer and timing values, also
  right after a \<open>set\<close>; the coordinator has a usable address, preempts, and never claims to be a screen;
  the transmit buffer, the frame buffer and the texts fit their arrays; and a coordinator that counts
  itself as paired has a key on its link.
\<close>

theorem coordinator_runs_its_settings:
  assumes "coord_boot crypto bt env = Some (Inr c0)" "coord_step\<^sup>*\<^sup>* c0 c"
  shows "config_bounds (co_cfg c) \<and>
    pt_cfg (rt_pointer (co_router c)) = cc_pointer (co_cfg c) \<and>
    uc_timing (u_cfg (rt_uhrp (co_router c))) = cc_timing (co_cfg c) \<and>
    uc_addr (u_cfg (rt_uhrp (co_router c))) = co_self c \<and> uc_preempt (u_cfg (rt_uhrp (co_router c))) \<and>
    co_self c \<noteq> DHP_ADDR_NONE \<and> co_self c \<noteq> DHP_ADDR_BROADCAST \<and>
    uc_caps (u_cfg (rt_uhrp (co_router c))) AND DHP_CAP_HID_OUT = 0 \<and>
    length (se_tx (co_ser c)) \<le> TXBUF \<and> fb_ok (co_screen c) \<and>
    length (co_message c) < 32 \<and> length (co_sas c) < 7 \<and>
    (co_paired c \<longrightarrow> link_key (rt_link (co_router c)) \<noteq> None)"
proof -
  have "coord_inv c" using daemon.inv_reachable [of c0 c] assms by blast
  then show ?thesis by (simp add: coord_inv_def in_force_def settings_of_def)
qed

text \<open>What the start needs: a readable configuration and a cable that opens.\<close>

lemma coord_boot_ready:
  assumes "coord_config_load coord_config_defaults (bt_conf bt) = Inr (cfg, e)" "bt_serial_ready bt"
    "baud_constant (cc_link_baud cfg) \<noteq> None"
  shows "\<exists>c. coord_boot crypto bt env = Some (Inr c)"
proof -
  have s: "\<exists>p'. dhp_router_start r now = Some p'" for r now
    by (simp add: dhp_router_start_def dhp_pointer_arrive_def Let_def)
  then have r: "\<exists>d. coord_call_router env (\<lambda>r. dhp_router_start r (cv_now env)) c = Some d" for c :: "'a coord_t"
    using s [of "co_router c" "cv_now env"] by (auto simp: coord_call_router_def)
  have b: "cc_link_baud (if bt_force_headless bt then cfg\<lparr>cc_headless := True\<rparr> else cfg) = cc_link_baud cfg" by simp
  show ?thesis
    using r assms(2,3) by (auto simp: coord_boot_def assms(1) Let_def serial_open_def)
qed

definition demo_boot :: boot_env where
  "demo_boot = \<lparr>bt_conf = NoEntry, bt_force_headless = False, bt_verbose = False, bt_serial_ready = True,
     bt_i2c_open = False, bt_i2c_addressed = False, bt_room = True, bt_cpuinfo = None, bt_machine_id = None,
     bt_bound = True, bt_keys = (\<lambda>_. None), bt_files = (\<lambda>_. None)\<rparr>"

definition demo_coord_env :: coord_env where
  "demo_coord_env = \<lparr>cv_now = 100, cv_serial = None, cv_ctl = None, cv_sender_named = True,
     cv_writes = [Wrote 200], cv_key_io = \<lparr>ko_umask = 0, ko_open = True, ko_written = 16, ko_rename = True\<rparr>,
     cv_save_io = demo_io, cv_strerror = [], cv_qsort = sort_key db_rel_pos, cv_bus = (\<lambda>_. int)\<rparr>"

theorem coordinator_runs_its_settings_witness:
  "\<exists>c. coord_boot (demo_crypto 1) demo_boot demo_coord_env = Some (Inr c) \<and> config_bounds (co_cfg c) \<and>
    pt_cfg (rt_pointer (co_router c)) = cc_pointer (co_cfg c)"
proof -
  have "coord_config_load coord_config_defaults (bt_conf demo_boot) = Inr (coord_config_defaults, [])"
    by (simp add: demo_boot_def coord_config_load_def)
  then obtain c where c: "coord_boot (demo_crypto 1) demo_boot demo_coord_env = Some (Inr c)"
    using coord_boot_ready [of demo_boot coord_config_defaults "[]" "demo_crypto 1" demo_coord_env]
    by (auto simp: demo_boot_def baud_constant_def supported_bauds_def coord_config_defaults_def)
  from coordinator_runs_its_settings [OF c] c show ?thesis by blast
qed

section \<open>Standing down\<close>

lemma frame_wire_fits:
  assumes "frame_ok f" shows "length (frame_wire (frame_body f key)) \<le> DHP_WIRE_MAX"
  using dhp_frame_encode_eq [OF assms order_refl, of key]
  by (auto simp: dhp_frame_encode_def frame_wire_def emit_all_stuff split: if_splits sum.splits)

text \<open>A cable with nothing buffered and a kernel that takes the bytes.\<close>

lemma on_tx_sent:
  assumes "se_tx (co_ser c) = []" "co_kernel c = Wrote n # rs" "length w \<le> n" "length w \<le> TXBUF" "w \<noteq> []"
  shows "coord_on_tx (se_port (co_ser c), w) c = c\<lparr>co_wire := co_wire c @ w, co_kernel := rs\<rparr>"
proof -
  obtain b bs where w: "w = b # bs" using assms(5) by (cases w) auto
  have "serial_write (co_kernel c) (co_ser c) w = (True, co_ser c, w, rs)"
    using assms by (simp add: serial_write_def serial_flush_def w)
  then show ?thesis by (simp add: coord_on_tx_def)
qed

lemma flush_idle: "se_tx (co_ser c) = [] \<Longrightarrow> co_wire (coord_flush c) = co_wire c \<and> co_ser (coord_flush c) = co_ser c"
  by (simp add: coord_flush_def serial_flush_def)


definition demo_coord :: "nat coord_t" where
  "demo_coord =
     (coord_init (demo_crypto 1) demo_boot demo_coord_env coord_config_defaults \<lparr>se_port = DHP_PORT_DOWN, se_tx = []\<rparr>)
       \<lparr>co_router := demo_active\<lparr>rt_link := demo_link 1, rt_out := []\<rparr>\<rparr>"

lemma demo_coord_fields:
  "co_router demo_coord = demo_active\<lparr>rt_link := demo_link 1, rt_out := []\<rparr>"
  "co_ser demo_coord = \<lparr>se_port = DHP_PORT_DOWN, se_tx = []\<rparr>" "co_wire demo_coord = []"
  by (simp_all add: demo_coord_def coord_init_def Let_def split_beta)


section \<open>Where the daemon falls short\<close>

text \<open>
  \<^verbatim>\<open>router.c\<close> and \<^verbatim>\<open>main.c\<close> say that the pointer skips a coordinator because it is not a screen. The active
  speaker exempts itself from that test: with the coordinator in charge at the head of the desk, a
  crossing to the left of the first board moves the focus to the coordinator, where input is discarded.
\<close>

definition desk_router :: dhp_router_t where
  "desk_router =
     upd_chain 1 (\<lambda>e. e\<lparr>ce_used := True, ce_addr := 2, ce_caps := DHP_CAP_HID_OUT OR DHP_CAP_HID_IN, ce_rel_pos := 1\<rparr>)
       ((dhp_router_init (coord_router_cfg 0xC0 7 (coord_caps True False) coord_config_defaults)
          (dhp_link_init 0xC0 True) (Some coord_hooks))\<lparr>rt_focus := 2\<rparr>)"

theorem crossing_enters_coordinator:
  "rc_caps (rt_cfg desk_router) AND DHP_CAP_HID_OUT = 0 \<and>
   neighbour_of desk_router (rt_focus desk_router) (-1) = rc_self (rt_cfg desk_router)"
  by code_simp

text \<open>
  A redraw is requested by setting \<^verbatim>\<open>next_render\<close> to zero; for half of the clock's period, from the
  twenty-fifth day of uptime on, zero lies in the future and the panel is not redrawn at all.
\<close>

theorem redraw_request_ignored:
  assumes "2 ^ 31 \<le> unat (cv_now env)"
  shows "coord_maybe_render env (coord_on_focus c) = coord_on_focus c"
  using assms by (simp add: coord_maybe_render_def coord_on_focus_def dhp_time_after_iff)

text \<open>
  \<^verbatim>\<open>/etc/machine-id\<close> holds 32 hexadecimal digits, which \<^verbatim>\<open>strtoull\<close> saturates: away from a Pi two different
  machines get the same identity and the same address.
\<close>

lemma machine_id_line:
  assumes "NL \<notin> set l" "length l < 63" shows "machine_id (l @ [NL]) = fst (strtoul 16 (cstr (l @ [NL])))"
  using fgets_lines_concat [of 64 "[l @ [NL]]"] assms by (simp add: machine_id_def text_line_def butlast_append)

lemma saturated_uid: "machine_id text = - 1 \<Longrightarrow> machine_uid None (Some text) = - 1"
  by (simp add: machine_uid_def)

theorem machine_ids_collide:
  "machine_uid None (Some (''4f1c0d2a9b7e46d58c3a1e90b2f7d614'' @ [NL])) = - 1 \<and>
   machine_uid None (Some (''a07b33e1c85d4f06912e7db45a3c9f28'' @ [NL])) = - 1 \<and> coord_addr (- 1) = 0x00C0"
proof (intro conjI saturated_uid)
  show "machine_id (''4f1c0d2a9b7e46d58c3a1e90b2f7d614'' @ [NL]) = - 1"
    by (subst machine_id_line) (simp_all add: strtoul_def strtol_eval cstr_def)
  show "machine_id (''a07b33e1c85d4f06912e7db45a3c9f28'' @ [NL]) = - 1"
    by (subst machine_id_line) (simp_all add: strtoul_def strtol_eval cstr_def)
  show "coord_addr (- 1) = 0x00C0" by code_simp
qed

text \<open>A line rate the configuration accepts and the serial port refuses: the daemon does not start.\<close>

theorem odd_baud_stops_daemon:
  "coord_config_set coord_config_defaults ''link_baud'' ''250000'' = Inr (coord_config_defaults\<lparr>cc_link_baud := 250000\<rparr>) \<and>
   serial_open ready 250000 port = Inl (UnsupportedBaud 250000)"
  by (simp add: coord_config_set_def u32_key_def strtol_eval serial_open_def baud_constant_def supported_bauds_def)

text \<open>
  The stop removes the file at the configured path, and the path can be changed over the socket itself
  while the socket stays where it was bound: what is removed is then another file, and the socket is left.
\<close>

lemma put_router_files:
  "co_cfg (coord_put_router env r c) = co_cfg c" "co_ctl (coord_put_router env r c) = co_ctl c"
  "co_files (coord_put_router env r c) = co_files c"
  using put_router_frame [where env = env and r = r and c = c] by (simp_all add: hook_frame_def)

lemma flush_files:
  "co_cfg (coord_flush c) = co_cfg c" "co_ctl (coord_flush c) = co_ctl c" "co_files (coord_flush c) = co_files c"
  by (simp_all add: coord_flush_def split: prod.split)

lemma stop_files:
  "co_files (coord_stop env c) = (if co_ctl c then fs_unlink (cc_ctl_path (co_cfg c)) (co_files c) else co_files c)"
  by (simp add: coord_stop_def Let_def put_router_files flush_files)

lemma set_ctl_path_words:
  "strtok '' ctl_path /etc/deskhop/coordinator.conf'' = Some (''ctl_path'', ''/etc/deskhop/coordinator.conf'')"
  "strtok ''/etc/deskhop/coordinator.conf'' = Some (''/etc/deskhop/coordinator.conf'', [])"
  "snprintf_str 256 ''/etc/deskhop/coordinator.conf'' = ''/etc/deskhop/coordinator.conf''"
  by code_simp+

theorem stop_removes_another_file:
  assumes "co_ctl c"
  shows "co_files (coord_stop env (ctl_set env '' ctl_path /etc/deskhop/coordinator.conf'' c)) =
    fs_unlink ''/etc/deskhop/coordinator.conf'' (co_files c)"
  using assms
  by (simp add: stop_files ctl_set_def set_ctl_path_words coord_config_set_def ctl_reply_def Let_def)

end
