(* ===== verification/Dhp_Streams.thy ===== *)
theory Dhp_Streams
  imports Dhp_Transfer
begin

text \<open>
  What the bulk transport reports about its streams, over the model in \<open>Dhp_Data\<close>: the buffer of an
  outbound transfer stays referenced until \<open>on_sent\<close>, which comes exactly once, and a chunk of an inbound
  transfer is handed on before its verdict.
\<close>

section \<open>Outbound streams and their end\<close>

definition sent_log :: "nat \<Rightarrow> data_event list \<Rightarrow> u8 list" where
  "sent_log i evs = concat (map (\<lambda>e. case e of EvSent j r \<Rightarrow> if j = i then [r] else [] | _ \<Rightarrow> []) evs)"

text \<open>
  What an operation may report: the end of a transfer for a slot of the outbound half, an offer for one of
  the inbound half, a chunk that ends below \<open>2 ^ 32\<close>.
\<close>

definition report_ok :: "data_event \<Rightarrow> bool" where
  "report_ok e \<longleftrightarrow> (case e of
       EvSent i r \<Rightarrow> i < DHP_DATA_MAX_STREAMS
     | EvOffer i a k t n \<Rightarrow> DHP_DATA_MAX_STREAMS \<le> i
     | EvChunk i off d \<Rightarrow> unat off + length d < 2 ^ 32
     | _ \<Rightarrow> True)"

definition quiet :: "data_event list \<Rightarrow> bool" where
  "quiet evs \<longleftrightarrow> list_all (\<lambda>e. report_ok e \<and> (case e of EvSent i r \<Rightarrow> False | _ \<Rightarrow> True)) evs"

lemma sent_log_simps [simp]:
  "sent_log i [] = []" "sent_log i (xs @ ys) = sent_log i xs @ sent_log i ys" "sent_log i (map EvTx tx) = []"
  "sent_log i (EvChunk j off dat # ys) = sent_log i ys" "sent_log i (EvReceived j r # ys) = sent_log i ys"
  "sent_log i (EvOffer j a k t n # ys) = sent_log i ys" "sent_log i (EvTx t' # ys) = sent_log i ys"
  "sent_log i (EvSent j r # ys) = (if j = i then [r] else []) @ sent_log i ys"
  by (simp_all add: sent_log_def concat_eq_Nil_conv)

lemma report_ok_simps [simp]:
  "report_ok (EvTx tx)" "report_ok (EvReceived i r)" "report_ok (EvSent i r) \<longleftrightarrow> i < DHP_DATA_MAX_STREAMS"
  "report_ok (EvOffer i a k t n) \<longleftrightarrow> DHP_DATA_MAX_STREAMS \<le> i" "report_ok (EvChunk i off d) \<longleftrightarrow> unat off + length d < 2 ^ 32"
  by (simp_all add: report_ok_def)

lemma quiet_simps [simp]: "quiet []" "quiet (map EvTx tx)" "quiet (xs @ ys) \<longleftrightarrow> quiet xs \<and> quiet ys"
  "quiet (EvChunk j off dat # ys) \<longleftrightarrow> unat off + length dat < 2 ^ 32 \<and> quiet ys" "quiet (EvReceived j r # ys) \<longleftrightarrow> quiet ys"
  "quiet (EvOffer j a k t n # ys) \<longleftrightarrow> DHP_DATA_MAX_STREAMS \<le> j \<and> quiet ys"
  by (simp_all add: quiet_def) (simp add: list_all_iff)

lemma quiet_sent: "quiet evs \<Longrightarrow> sent_log i evs = []"
proof (induction evs)
  case (Cons e evs)
  then show ?case by (cases e) (simp_all add: quiet_def)
qed simp

lemma quiet_reports: "quiet evs \<Longrightarrow> list_all report_ok evs"
  by (simp add: quiet_def list_all_iff)

text \<open>One outbound slot over an operation: it stays as it was, or it ends and says so once.\<close>

definition slot_kept :: "nat \<Rightarrow> dhp_data_t \<Rightarrow> dhp_data_t \<Rightarrow> data_event list \<Rightarrow> bool" where
  "slot_kept i d d' evs \<longleftrightarrow>
     (if ds_state (stream_at d i) = DHP_ST_FREE
      then ds_state (stream_at d' i) = DHP_ST_FREE \<and> sent_log i evs = []
      else (ds_state (stream_at d' i) \<noteq> DHP_ST_FREE \<and> ds_src (stream_at d' i) = ds_src (stream_at d i) \<and> sent_log i evs = []) \<or>
           (ds_state (stream_at d' i) = DHP_ST_FREE \<and> length (sent_log i evs) = 1))"

definition keeps_out :: "dhp_data_t \<Rightarrow> dhp_data_t \<Rightarrow> data_event list \<Rightarrow> bool" where
  "keeps_out d d' evs \<longleftrightarrow> length (da_s d') = length (da_s d) \<and> da_hooks d' = da_hooks d \<and> list_all report_ok evs \<and>
     (\<forall>i < DHP_DATA_MAX_STREAMS. slot_kept i d d' evs)"

lemma keeps_out_refl: "quiet evs \<Longrightarrow> keeps_out d d evs"
  by (simp add: keeps_out_def slot_kept_def quiet_sent quiet_reports)

lemma keeps_out_trans:
  assumes "keeps_out d d1 e1" "keeps_out d1 d2 e2" shows "keeps_out d d2 (e1 @ e2)"
proof -
  have "slot_kept i d d2 (e1 @ e2)" if "slot_kept i d d1 e1" "slot_kept i d1 d2 e2" for i
    using that by (auto simp: slot_kept_def split: if_splits)
  then show ?thesis using assms by (simp add: keeps_out_def)
qed

lemma keeps_out_table: "keeps_out d d1 evs \<Longrightarrow> da_s d2 = da_s d1 \<Longrightarrow> da_hooks d2 = da_hooks d1 \<Longrightarrow> keeps_out d d2 evs"
proof -
  assume "keeps_out d d1 evs" "da_s d2 = da_s d1" "da_hooks d2 = da_hooks d1"
  moreover from this(2) have "stream_at d2 = stream_at d1" by (simp add: stream_at_def fun_eq_iff)
  then have "slot_kept i d d2 evs = slot_kept i d d1 evs" for i by (simp add: slot_kept_def)
  ultimately show ?thesis by (simp add: keeps_out_def)
qed

lemma keeps_out_quiet:
  assumes "keeps_out d d' evs" "quiet evs" shows "keeps_out d d' []"
proof -
  have "slot_kept i d d' []" if "slot_kept i d d' evs" for i
    using that quiet_sent [OF assms(2)] by (auto simp: slot_kept_def split: if_splits)
  then show ?thesis using assms(1) by (simp add: keeps_out_def)
qed

text \<open>Writing an inbound slot, or an outbound one that stays busy with the same buffer.\<close>

lemma keeps_out_write:
  assumes "quiet evs" "i < DHP_DATA_MAX_STREAMS \<Longrightarrow> ds_state (stream_at d i) \<noteq> DHP_ST_FREE"
    "i < DHP_DATA_MAX_STREAMS \<Longrightarrow> ds_state s \<noteq> DHP_ST_FREE \<and> ds_src s = ds_src (stream_at d i)"
  shows "keeps_out d (set_stream i s d) evs"
  using assms by (auto simp: keeps_out_def slot_kept_def quiet_sent quiet_reports stream_at_set)

lemma keeps_out_finish:
  assumes "data_finish d i r = (d', evs)" "i < length (da_s d)" "slot_ok i (stream_at d i)"
    "ds_state (stream_at d i) \<noteq> DHP_ST_FREE" "dh_on_sent (da_hooks d)"
  shows "keeps_out d d' evs"
proof -
  have t: "da_s d' = da_s (set_stream i stream_zero d)" using data_finish_table [OF assms(1)] .
  have h: "da_hooks d' = da_hooks d" using assms(1) by (auto simp: data_finish_def Let_def split: if_splits)
  have e: "evs = (if i < DHP_DATA_MAX_STREAMS then [EvSent i r] else if dh_on_received (da_hooks d) then [EvReceived i r] else [])"
    using assms by (auto simp: data_finish_def Let_def slot_ok_def split: if_splits)
  have at: "stream_at d' j = (if j = i then stream_zero else stream_at d j)" for j
    using assms(2) t stream_at_set [of i stream_zero d j] by (simp add: stream_at_def)
  show ?thesis using h t assms(4) by (auto simp: keeps_out_def slot_kept_def at e)
qed

lemma send_op_out:
  assumes "send_op l s oper extra now = (l1, s1, evs)"
  shows "s1 = s\<lparr>ds_last_tx := now\<rparr>" "quiet evs"
  using assms by (auto simp: send_op_def Let_def split: prod.splits)

lemma send_op_outE: "send_op l s oper extra now = (l1, s1, evs) \<Longrightarrow> s1 = s\<lparr>ds_last_tx := now\<rparr> \<and> quiet evs"
  using send_op_out by blast

text \<open>Sending something on a stream and then ending it.\<close>

lemma keeps_out_send_finish:
  assumes "send_op l s oper extra now = (l1, s1, evs)" "data_finish (set_stream i s1 d) i r = (d', evs')"
    "i < length (da_s d)" "slot_ok i (stream_at d i)" "ds_state (stream_at d i) \<noteq> DHP_ST_FREE" "dh_on_sent (da_hooks d)"
    "ds_outbound s = ds_outbound (stream_at d i)"
  shows "keeps_out d d' (evs @ evs')"
proof -
  have "data_finish d i r = (d', evs')"
    by (rule data_finish_set [OF assms(2) _ assms(3)]) (simp add: send_op_out(1) [OF assms(1)] assms(7))
  then show ?thesis using keeps_out_trans [OF keeps_out_refl [OF send_op_out(2) [OF assms(1)]]] keeps_out_finish assms(3-6) by blast
qed

lemma pump_loop_quiet: "pump_loop l s n now = (l', s', evs) \<Longrightarrow> quiet evs"
proof (induction l s n now arbitrary: l' s' evs rule: pump_loop.induct)
  case (1 l s n now)
  show ?case
  proof (cases "ds_next_seq s < n \<and> unat (ds_next_seq s - ds_acked s) < unat (ds_window s)")
    case True
    obtain l1 s1 evs1 where o: "send_op l s OP_CHUNK (chunk_extra s) now = (l1, s1, evs1)" by (metis prod_cases3)
    obtain l2 s2 evs2 where p: "pump_loop l1 (s1\<lparr>ds_next_seq := ds_next_seq s1 + 1\<rparr>) n now = (l2, s2, evs2)"
      by (metis prod_cases3)
    have "evs = evs1 @ evs2" using "1.prems" True by (subst (asm) pump_loop.simps) (simp add: o p)
    with "1.IH" [OF True o [symmetric] refl refl p] send_op_out(2) [OF o] show ?thesis by simp
  next
    case False
    with "1.prems" show ?thesis by (subst (asm) pump_loop.simps) auto
  qed
qed

lemma pump_sender_out:
  assumes "pump_sender l s now = (l', s', evs)" "ds_state s = DHP_ST_SENDING"
  shows "quiet evs" "ds_state s' \<noteq> DHP_ST_FREE" "ds_src s' = ds_src s"
proof -
  obtain l1 s1 evs1 where p: "pump_loop l s (chunks_for (ds_total s)) now = (l1, s1, evs1)" by (metis prod_cases3)
  obtain x y where "s1 = s\<lparr>ds_next_seq := x, ds_last_tx := y\<rparr>" using pump_loop_frame [OF p] by blast
  then have "ds_src s1 = ds_src s" by simp
  with p assms(1) pump_loop_quiet [OF p] pump_sender_frame(4) [OF assms]
  show "quiet evs" "ds_state s' \<noteq> DHP_ST_FREE" "ds_src s' = ds_src s" by (auto simp: pump_sender_def split: if_splits)
qed

section \<open>The operations\<close>

lemma accept_out:
  assumes "data_wf d" "dhp_data_accept d l h now = (d', l', evs)" "DHP_DATA_MAX_STREAMS \<le> h"
  shows "keeps_out d d' evs"
proof (cases "by_handle d h = Some h \<and> ds_state (stream_at d h) = DHP_ST_OFFERED")
  case True
  with assms(2) obtain s where "d' = set_stream h s d" "quiet evs"
    by (auto simp: dhp_data_accept_def split: prod.splits dest: send_op_out)
  with assms(3) show ?thesis by (auto intro: keeps_out_write)
next
  case False
  with assms(2) show ?thesis
    by (auto simp: dhp_data_accept_def split: option.splits if_splits dest: by_handle_Some intro: keeps_out_refl)
qed

lemma reject_out:
  assumes "dhp_data_reject d l h now = (d', l', evs)" "DHP_DATA_MAX_STREAMS \<le> h"
  shows "keeps_out d d' evs"
proof (cases "by_handle d h = Some h \<and> ds_state (stream_at d h) = DHP_ST_OFFERED")
  case True
  with assms(1) obtain n where "d' = set_stream h stream_zero (d\<lparr>da_n_refused := n\<rparr>)" "quiet evs"
    by (auto simp: dhp_data_reject_def split: prod.splits dest: send_op_out)
  moreover have "keeps_out d (set_stream h stream_zero d) evs" using calculation(2) assms(2) by (intro keeps_out_write) auto
  ultimately show ?thesis by (auto intro: keeps_out_table simp: set_stream_def)
next
  case False
  with assms(1) show ?thesis
    by (auto simp: dhp_data_reject_def split: option.splits if_splits dest: by_handle_Some intro: keeps_out_refl)
qed

lemma answer_quiet:
  "dhp_data_accept d l h now = (d', l', evs) \<Longrightarrow> quiet evs" "dhp_data_reject d l h now = (d', l', evs) \<Longrightarrow> quiet evs"
  by (auto simp: dhp_data_accept_def dhp_data_reject_def split: option.splits if_splits prod.splits dest!: send_op_outE)

lemma offer_out:
  assumes "data_wf d" "data_rx_offer d l from sid p now = (d', l', evs)"
  shows "keeps_out d d' evs"
proof -
  have "DHP_DATA_MAX_STREAMS \<le> i" if "slot_free d False = Some i" for i
    using slot_free_Some(3) [OF that assms(1)] by simp
  then have q: "quiet evs"
    using assms(2)
    by (auto simp: data_rx_offer_def send_ack_def Let_def split: option.splits if_splits prod.splits dest!: send_op_outE)
  from assms(2) show ?thesis
  proof (cases rule: rx_offer_cases)
    case same
    then show ?thesis using q by (simp add: keeps_out_refl)
  next
    case (clear i)
    then show ?thesis using slot_free_Some(3) [OF clear(2) assms(1)] q by (auto intro: keeps_out_write)
  next
    case (ack i s)
    then show ?thesis using slot_find_Some(5) [OF ack(2) assms(1)] q by (auto intro: keeps_out_write)
  next
    case (new i s)
    then show ?thesis using slot_free_Some(3) [OF new(3) assms(1)] q by (auto intro: keeps_out_write)
  qed
qed

lemma chunk_end_small:
  assumes "length d \<le> 255" shows "unat (ucast (seq :: u16) * 60 :: u32) + length d < 2 ^ 32"
proof -
  have "unat (ucast seq * 60 :: u32) \<le> unat (ucast seq :: u32) * 60"
    using unat_mult_lem [of "ucast seq :: u32" 60] by (simp add: unat_word_ariths)
  moreover have "unat (ucast seq :: u32) < 2 ^ 16" using unsigned_less [of seq, where 'a = nat] by (simp add: unsigned_ucast_eq take_bit_nat_eq_self)
  ultimately show ?thesis using assms by simp
qed

text \<open>A chunk is for an inbound stream, so no outbound one changes.\<close>

lemma chunk_out:
  assumes wf: "data_wf d" "i < length (da_s d)" "dh_on_sent (da_hooks d)" and len: "length p \<le> 255"
    and rx: "rx_chunk d l i p now = (d', l', evs)"
  shows "keeps_out d d' evs"
proof (cases "length p < 2 \<or> ds_state (stream_at d i) \<noteq> DHP_ST_RECEIVING")
  case True
  with rx show ?thesis by (auto simp: rx_chunk_def intro: keeps_out_refl)
next
  case False
  have in_half: "\<not> i < DHP_DATA_MAX_STREAMS" "\<not> ds_outbound (stream_at d i)"
    using data_wfD(2) [OF wf(1,2)] False by (auto simp: slot_ok_def split: if_splits)
  have fin: "quiet evs' \<and> da_s d1 = da_s (set_stream i stream_zero d) \<and> da_hooks d1 = da_hooks d"
    if "data_finish (set_stream i s d) i r = (d1, evs')" "\<not> ds_outbound s" for s r d1 evs'
  proof -
    have "data_finish d i r = (d1, evs')" using data_finish_set [OF that(1) _ wf(2)] that(2) in_half(2) by simp
    then show ?thesis using in_half(2) by (auto simp: data_finish_def Let_def split: if_splits)
  qed
  have w: "keeps_out d d'' evs" if "da_s d'' = da_s (set_stream i s d)" "da_hooks d'' = da_hooks d" "quiet evs" for s d''
    using keeps_out_table [OF keeps_out_write [of evs i d s] that(1)] that in_half(1) by simp
  have small: "unat (ucast seq * 60 :: u32) + (length p - 2) < 2 ^ 32" for seq :: u16
    using chunk_end_small [of "drop 2 p" seq] len by simp
  have "quiet evs \<and> (\<exists>s. da_s d' = da_s (set_stream i s d)) \<and> da_hooks d' = da_hooks d"
    using rx False in_half(2) small [simplified]
    by (auto simp: rx_chunk_def send_ack_def Let_def split: if_splits prod.splits dest!: send_op_outE fin)
  then show ?thesis using w by blast
qed

lemma accepted_out:
  assumes "i < length (da_s d)" "rx_accept d l i p now = (d', l', evs)" shows "keeps_out d d' evs"
proof (cases "ds_state (stream_at d i) = DHP_ST_OFFERING")
  case True
  define s where "s = (if 1 \<le> length p \<and> 0 < p ! 0 then (stream_at d i)\<lparr>ds_window := p ! 0\<rparr> else stream_at d i)\<lparr>ds_state := DHP_ST_SENDING\<rparr>"
  from True assms(2) obtain s' where s': "pump_sender l s now = (l', s', evs)" "d' = set_stream i s' d"
    by (auto simp: rx_accept_def s_def Let_def split: prod.splits)
  have "ds_state s = DHP_ST_SENDING" "ds_src s = ds_src (stream_at d i)" by (simp_all add: s_def)
  with pump_sender_out [OF s'(1)] True s'(2) show ?thesis by (auto intro: keeps_out_write)
next
  case False
  with assms show ?thesis by (simp add: rx_accept_def Let_def keeps_out_refl)
qed

lemma acked_out:
  assumes "rx_ack d l i p now = (d', l', evs)" shows "keeps_out d d' evs"
proof (cases "2 \<le> length p \<and> (ds_state (stream_at d i) = DHP_ST_SENDING \<or> ds_state (stream_at d i) = DHP_ST_DRAINING)")
  case True
  with assms obtain s s' where "pump_sender l s now = (l', s', evs)" "ds_state s = DHP_ST_SENDING" "ds_src s = ds_src (stream_at d i)"
      "da_s d' = da_s (set_stream i s' d)" "da_hooks d' = da_hooks d"
    by (auto simp: rx_ack_def Let_def set_stream_def split: if_splits prod.splits)
  with pump_sender_out [of l s now l' s' evs] True show ?thesis
    by (intro keeps_out_table [OF keeps_out_write [of evs i d s']]) auto
next
  case False
  with assms show ?thesis by (auto simp: rx_ack_def Let_def intro: keeps_out_refl)
qed

lemma dispatch_out:
  assumes "data_wf d" "i < length (da_s d)" "ds_state (stream_at d i) \<noteq> DHP_ST_FREE" "dh_on_sent (da_hooks d)"
    and len: "length p \<le> 255" and rx: "rx_dispatch d l i oper p now = (d', l', evs)"
  shows "keeps_out d d' evs"
proof -
  define d0 where "d0 = set_stream i ((stream_at d i)\<lparr>ds_last_rx := now, ds_retries := 0\<rparr>) d"
  have d0: "data_wf d0" "i < length (da_s d0)" "ds_state (stream_at d0 i) \<noteq> DHP_ST_FREE" "dh_on_sent (da_hooks d0)"
    unfolding d0_def using assms(1-4) by (auto intro!: data_wf_same simp: stream_at_set)
  have first: "keeps_out d d0 []" unfolding d0_def by (rule keeps_out_write) (use assms(3) in simp_all)
  consider (finish) r where "data_finish d0 i r = (d', evs)" | (chunk) "rx_chunk d0 l i p now = (d', l', evs)"
    | (accept) "rx_accept d0 l i p now = (d', l', evs)" | (ack) "rx_ack d0 l i p now = (d', l', evs)" | (none) "d' = d0" "evs = []"
    using rx unfolding rx_dispatch_def d0_def [symmetric] Let_def by (auto split: if_splits prod.splits)
  then have "keeps_out d0 d' evs"
  proof cases
    case (finish r)
    then show ?thesis using keeps_out_finish d0 data_wfD(2) [OF d0(1,2)] by blast
  next
    case none
    then show ?thesis by (simp add: keeps_out_refl)
  qed (use chunk_out [OF d0(1,2,4) len] accepted_out [OF d0(2)] acked_out in blast)+
  with keeps_out_trans [OF first] show ?thesis by fastforce
qed

lemma data_rx_out:
  assumes wf: "data_wf d" "dh_on_sent (da_hooks d)" and rx: "dhp_data_rx d l f now = (d', l', evs)"
  shows "keeps_out d d' evs"
proof -
  have len: "length (drop 2 (frame_bytes f)) \<le> 255"
    using unsigned_less [of "fr_len f", where 'a = nat] by (auto simp: frame_bytes_def split: option.split)
  consider "d' = d" "evs = []" | sid p where "data_rx_offer d l (fr_src f) sid p now = (d', l', evs)"
    | i sid oper where "rx_slot d (fr_src f) sid oper = Some i" "rx_dispatch d l i oper (drop 2 (frame_bytes f)) now = (d', l', evs)"
    using rx by (auto simp: dhp_data_rx_def Let_def split: if_splits option.splits)
  then show ?thesis
  proof cases
    case 1
    then show ?thesis by (simp add: keeps_out_refl)
  next
    case (2 sid p)
    then show ?thesis by (rule offer_out [OF wf(1)])
  next
    case (3 i sid oper)
    then show ?thesis using dispatch_out [OF wf(1) _ _ wf(2) len] rx_slot_Some [OF 3(1) wf(1)] by blast
  qed
qed

lemma tick_stream_cases:
  assumes t: "tick_stream now i (d, l, evs0) = (d', l', evs)"
  defines "s \<equiv> stream_at d i" and "s1 \<equiv> (stream_at d i)\<lparr>ds_retries := ds_retries (stream_at d i) + 1\<rparr>"
  obtains (same) "d' = d" "evs = evs0"
    | (idle) e where "ds_state s \<noteq> DHP_ST_FREE" "data_finish d i DHP_DATA_TIMEOUT = (d', e)" "evs = evs0 @ e"
    | (abort) l1 s2 e1 e2 where "ds_state s \<noteq> DHP_ST_FREE" "send_op l s1 OP_ABORT [DHP_DATA_TIMEOUT] now = (l1, s2, e1)"
        "data_finish (set_stream i s2 d) i DHP_DATA_TIMEOUT = (d', e2)" "evs = evs0 @ e1 @ e2"
    | (again) l1 s2 e where "ds_state s \<noteq> DHP_ST_FREE" "send_op l s1 OP_OFFER (offer_extra s1) now = (l1, s2, e)"
        "d' = set_stream i s2 d" "evs = evs0 @ e"
    | (pump) l1 s0 s2 e where "ds_state s \<noteq> DHP_ST_FREE" "pump_sender l s0 now = (l1, s2, e)" "ds_state s0 = DHP_ST_SENDING"
        "ds_src s0 = ds_src s" "da_s d' = da_s (set_stream i s2 d)" "da_hooks d' = da_hooks d" "evs = evs0 @ e"
    | (count) "ds_state s \<noteq> DHP_ST_FREE" "d' = set_stream i s1 d" "evs = evs0"
proof (cases "ds_state s = DHP_ST_FREE")
  case True
  with t same show thesis by (simp add: tick_stream_def s_def)
next
  case live: False
  show thesis
  proof (cases "dhp_time_after now (ds_last_rx s + ucast (da_idle_timeout_ms d))")
    case True
    obtain d1 e where f: "data_finish d i DHP_DATA_TIMEOUT = (d1, e)" by fastforce
    with t live True idle [OF live] show thesis by (simp add: tick_stream_def s_def)
  next
    case fresh: False
    define off where "off = (ds_state s = DHP_ST_OFFERING)"
    define pat where "pat = (if off then da_offer_timeout_ms d else da_ack_timeout_ms d)"
    define bud where "bud = (if off then da_offer_retries d else da_max_retries d)"
    note tick = t [unfolded tick_stream_def prod.case Let_def, folded s_def, folded off_def, folded pat_def bud_def]
    show thesis
    proof (cases "\<not> ds_outbound s \<or> \<not> dhp_time_after now (ds_last_tx s + ucast pat)")
      case True
      from tick live fresh True have "d = d'" "evs0 = evs" by (cases "ds_outbound s"; simp)+
      with same show thesis by simp
    next
      case due: False
      show thesis
      proof (cases "bud < ds_retries s1")
        case True
        obtain l1 s2 e1 where o: "send_op l s1 OP_ABORT [DHP_DATA_TIMEOUT] now = (l1, s2, e1)" by (metis prod_cases3)
        obtain d1 e2 where f: "data_finish (set_stream i s2 d) i DHP_DATA_TIMEOUT = (d1, e2)" by fastforce
        from tick live fresh due True o f have "d1 = d'" "evs = evs0 @ e1 @ e2" by (simp_all add: s1_def s_def)
        with abort [OF live o] f show thesis by simp
      next
        case budget: False
        consider "off" | "\<not> off" "ds_state s = DHP_ST_SENDING \<or> ds_state s = DHP_ST_DRAINING"
          | "\<not> off" "\<not> (ds_state s = DHP_ST_SENDING \<or> ds_state s = DHP_ST_DRAINING)" by blast
        then show thesis
        proof cases
          case 1
          obtain l1 s2 e where o: "send_op l s1 OP_OFFER (offer_extra s1) now = (l1, s2, e)" by (metis prod_cases3)
          from tick live fresh due budget 1 o have "set_stream i s2 d = d'" "evs = evs0 @ e" by (simp_all add: s1_def s_def off_def)
          with again [OF live o] show thesis by simp
        next
          case 2
          let ?s0 = "s1\<lparr>ds_next_seq := ds_acked s1, ds_rewound_to := NO_REWIND, ds_state := DHP_ST_SENDING\<rparr>"
          obtain l1 s2 e where o: "pump_sender l ?s0 now = (l1, s2, e)" by (metis prod_cases3)
          from tick live fresh due budget 2 o
          have "set_stream i s2 (d\<lparr>da_n_retransmits := da_n_retransmits d + 1\<rparr>) = d'" "evs = evs0 @ e"
            by (simp_all add: s1_def s_def off_def)
          with pump [OF live o] show thesis by (auto simp: set_stream_def s1_def s_def)
        next
          case 3
          from tick live fresh due budget 3 have "set_stream i s1 d = d'" "evs = evs0" by (simp_all add: s1_def s_def off_def)
          with count [OF live] show thesis by simp
        qed
      qed
    qed
  qed
qed

lemma tick_stream_out:
  assumes wf: "data_wf d" "i < length (da_s d)" "dh_on_sent (da_hooks d)" and t: "tick_stream now i (d, l, evs0) = (d', l', evs)"
  shows "\<exists>e. evs = evs0 @ e \<and> keeps_out d d' e"
proof -
  note ok = data_wfD(2) [OF wf(1,2)]
  from t show ?thesis
  proof (cases rule: tick_stream_cases)
    case same
    then show ?thesis by (simp add: keeps_out_refl)
  next
    case (idle e)
    then show ?thesis using keeps_out_finish [OF idle(2) wf(2) ok idle(1) wf(3)] by blast
  next
    case (abort l1 s1 e1 e2)
    then show ?thesis using keeps_out_send_finish [OF abort(2,3) wf(2) ok abort(1) wf(3)] by simp
  next
    case (again l1 s1 e)
    then show ?thesis using send_op_out [OF again(2)] by (auto intro!: keeps_out_write)
  next
    case (pump l1 s s1 e)
    have "keeps_out d (set_stream i s1 d) e" using pump_sender_out [OF pump(2,3)] pump(1,4) by (intro keeps_out_write) simp_all
    then show ?thesis using keeps_out_table pump(5-7) by force
  next
    case count
    then have "keeps_out d d' []" by (auto intro!: keeps_out_write)
    then show ?thesis using count(3) by simp
  qed
qed

lemma tick_fold_out:
  assumes "data_wf d" "dh_on_sent (da_hooks d)" "\<forall>i \<in> set is. i < 2 * DHP_DATA_MAX_STREAMS"
    "fold (tick_stream now) is (d, l, evs0) = (d', l', evs)"
  shows "\<exists>e. evs = evs0 @ e \<and> keeps_out d d' e"
  using assms
proof (induction "is" arbitrary: d l evs0)
  case Nil
  then show ?case by (simp add: keeps_out_refl)
next
  case (Cons i "is")
  obtain d1 l1 e1 where s: "tick_stream now i (d, l, evs0) = (d1, l1, e1)" by (metis prod_cases3)
  have i: "i < length (da_s d)" using Cons.prems(1,3) data_wfD(1) [of d] by simp
  from tick_stream_out [OF Cons.prems(1) i Cons.prems(2) s] obtain e where e: "e1 = evs0 @ e" "keeps_out d d1 e" by blast
  have "\<exists>e'. evs = e1 @ e' \<and> keeps_out d1 d' e'"
    using Cons.IH [of d1 l1 e1] tick_stream_wf [OF Cons.prems(1) i s] e(2) Cons.prems(2-4) s by (simp add: keeps_out_def)
  then show ?case using e keeps_out_trans by force
qed

lemma data_tick_out:
  assumes "data_wf d" "dh_on_sent (da_hooks d)" "dhp_data_tick d l now = (d', l', evs)"
  shows "keeps_out d d' evs"
  using tick_fold_out [OF assms(1,2) _ assms(3) [unfolded dhp_data_tick_def]] by auto

text \<open>A new transfer takes one free outbound slot, which holds its buffer.\<close>

lemma data_send_out:
  assumes "data_wf d" "dhp_data_send d l to kind name data now = (d', l', evs, r)"
  shows "quiet evs" "case r of Inl e \<Rightarrow> d' = d \<and> (data = [] \<or> slot_free d True = None)
    | Inr i \<Rightarrow> i < DHP_DATA_MAX_STREAMS \<and> ds_state (stream_at d i) = DHP_ST_FREE \<and> ds_state (stream_at d' i) \<noteq> DHP_ST_FREE \<and>
        ds_src (stream_at d' i) = data \<and> (\<forall>j. j \<noteq> i \<longrightarrow> stream_at d' j = stream_at d j) \<and> da_hooks d' = da_hooks d"
proof -
  have "quiet evs \<and> (case r of Inl e \<Rightarrow> d' = d \<and> (data = [] \<or> slot_free d True = None)
    | Inr i \<Rightarrow> i < DHP_DATA_MAX_STREAMS \<and> ds_state (stream_at d i) = DHP_ST_FREE \<and> ds_state (stream_at d' i) \<noteq> DHP_ST_FREE \<and>
        ds_src (stream_at d' i) = data \<and> (\<forall>j. j \<noteq> i \<longrightarrow> stream_at d' j = stream_at d j) \<and> da_hooks d' = da_hooks d)"
  proof (cases "data = [] \<or> slot_free d True = None")
    case True
    with assms(2) show ?thesis by (cases "data = []") (auto simp: dhp_data_send_def)
  next
    case False
    then obtain i where i: "slot_free d True = Some i" "data \<noteq> []" by blast
    note I = slot_free_Some [OF i(1) assms(1)]
    from i assms(2) obtain n s where "d' = set_stream i s (d\<lparr>da_next_id := n\<rparr>)" "ds_state s = DHP_ST_OFFERING" "ds_src s = data"
        "r = Inr i" "quiet evs"
      by (auto simp: dhp_data_send_def Let_def split: prod.splits dest!: send_op_outE)
    with I show ?thesis by (auto simp: stream_at_def set_stream_def)
  qed
  then show "quiet evs" "case r of Inl e \<Rightarrow> d' = d \<and> (data = [] \<or> slot_free d True = None)
    | Inr i \<Rightarrow> i < DHP_DATA_MAX_STREAMS \<and> ds_state (stream_at d i) = DHP_ST_FREE \<and> ds_state (stream_at d' i) \<noteq> DHP_ST_FREE \<and>
        ds_src (stream_at d' i) = data \<and> (\<forall>j. j \<noteq> i \<longrightarrow> stream_at d' j = stream_at d j) \<and> da_hooks d' = da_hooks d"
    by simp_all
qed

lemma free_slot_exists:
  assumes "data_wf d" "i < DHP_DATA_MAX_STREAMS" "ds_state (stream_at d i) = DHP_ST_FREE" shows "slot_free d True \<noteq> None"
proof
  assume "slot_free d True = None"
  moreover have "i < length (take DHP_DATA_MAX_STREAMS (da_s d))" using assms(2) data_wfD(1) [OF assms(1)] by simp
  ultimately show False using assms(2,3) nth_mem [of i "take DHP_DATA_MAX_STREAMS (da_s d)"]
    by (auto simp: slot_free_def slot_base_def find_idx_None_iff stream_at_def)
qed

end
