(* ===== verification/Dhp_Boardlink.thy ===== *)
theory Dhp_Boardlink
  imports Dhp_Clientlink Dhp_Serial
begin

text \<open>
  The client's end of the link to its board, \<^verbatim>\<open>client/src/boardlink.c\<close>: fixed-size reports on a hidraw
  node, or a byte stream on a socket during development.  How the kernel answers the successive \<^verbatim>\<open>write\<close>
  calls is an argument, as for the coordinator's serial port; what it took is a result, one list per call.
\<close>

definition HID_REPORT_BYTES :: nat where "HID_REPORT_BYTES = 64"

datatype boardlink_kind_t = BOARDLINK_HIDRAW | BOARDLINK_SOCKET

section \<open>Opening\<close>

datatype link_error = NoSocket | PathTooLong | CannotConnect | CannotOpen | NoMemory

datatype connect_result = Connected | InProgress | Refused

definition UNIX_PATH_BYTES :: nat where "UNIX_PATH_BYTES = 108"

definition open_socket :: "bool \<Rightarrow> connect_result \<Rightarrow> string \<Rightarrow> link_error + unit" where
  "open_socket got_fd connect path =
     (if \<not> got_fd then Inl NoSocket
      else if UNIX_PATH_BYTES \<le> length path then Inl PathTooLong
      else if connect = Refused then Inl CannotConnect
      else Inr ())"

definition open_hidraw :: "bool \<Rightarrow> link_error + unit" where
  "open_hidraw got_fd = (if got_fd then Inr () else Inl CannotOpen)"

definition boardlink_open ::
  "bool \<Rightarrow> connect_result \<Rightarrow> bool \<Rightarrow> boardlink_kind_t \<Rightarrow> string \<Rightarrow> link_error + boardlink_kind_t" where
  "boardlink_open got_fd connect room kind path =
     (case (if kind = BOARDLINK_SOCKET then open_socket got_fd connect path else open_hidraw got_fd) of
        Inl e \<Rightarrow> Inl e
      | Inr _ \<Rightarrow> if room then Inr kind else Inl NoMemory)"

section \<open>Writing\<close>

fun socket_loop :: "write_result list \<Rightarrow> u8 list \<Rightarrow> u8 list list \<times> int option \<times> write_result list" where
  "socket_loop rs [] = ([], Some 0, rs)"
| "socket_loop [] (b # bs) = ([], Some 0, [])"
| "socket_loop (Interrupted # rs) (b # bs) = socket_loop rs (b # bs)"
| "socket_loop (WouldBlock # rs) (b # bs) = ([], Some 0, rs)"
| "socket_loop (WriteFailed # rs) (b # bs) = ([], None, rs)"
| "socket_loop (Wrote n # rs) (b # bs) =
     (case socket_loop rs (drop n (b # bs)) of (out, r, rs') \<Rightarrow>
        (take n (b # bs) # out, map_option (\<lambda>m. m + int (min n (length (b # bs)))) r, rs'))"

definition hid_report :: "u8 list \<Rightarrow> u8 list" where
  "hid_report bs = 0 # bs @ replicate (HID_REPORT_BYTES - length bs) 0x7E"

fun hid_loop :: "write_result list \<Rightarrow> u8 list \<Rightarrow> u8 list list \<times> int \<times> write_result list" where
  "hid_loop rs [] = ([], 0, rs)"
| "hid_loop [] (b # bs) = ([], 0, [])"
| "hid_loop (Interrupted # rs) (b # bs) = hid_loop rs (b # bs)"
| "hid_loop (WouldBlock # rs) (b # bs) = ([], 0, rs)"
| "hid_loop (WriteFailed # rs) (b # bs) = ([], 0, rs)"
| "hid_loop (Wrote n # rs) (b # bs) =
     (let part = take HID_REPORT_BYTES (b # bs) in
      case hid_loop rs (drop HID_REPORT_BYTES (b # bs)) of (out, off, rs') \<Rightarrow>
        (hid_report part # out, int (length part) + off, rs'))"

text \<open>The writes the kernel took, the value returned (\<open>None\<close> for \<open>-1\<close>), and the answers left.\<close>

definition boardlink_write ::
  "boardlink_kind_t \<Rightarrow> write_result list \<Rightarrow> u8 list \<Rightarrow> u8 list list \<times> int option \<times> write_result list" where
  "boardlink_write kind rs data =
     (case kind of
        BOARDLINK_SOCKET \<Rightarrow> socket_loop rs data
      | BOARDLINK_HIDRAW \<Rightarrow> (case hid_loop rs data of (out, off, rs') \<Rightarrow> (out, Some off, rs')))"

section \<open>Reading\<close>

text \<open>\<open>None\<close> is the \<open>-1\<close> after which the client gives up.\<close>

definition boardlink_read :: "boardlink_kind_t \<Rightarrow> read_result \<Rightarrow> nat \<Rightarrow> u8 list option" where
  "boardlink_read kind r cap =
     (case r of
        ReadFailed \<Rightarrow> None
      | NothingYet \<Rightarrow> Some []
      | Got bs \<Rightarrow> if take cap bs = [] \<and> kind = BOARDLINK_SOCKET then None else Some (take cap bs))"

section \<open>Frames survive the reports\<close>

text \<open>A kernel that takes every report, interrupted any number of times.\<close>

definition willing :: "write_result list \<Rightarrow> nat \<Rightarrow> bool" where
  "willing rs k \<longleftrightarrow> list_all (\<lambda>r. r = Interrupted \<or> (\<exists>n. r = Wrote n)) rs \<and>
     k \<le> length (filter (\<lambda>r. r \<noteq> Interrupted) rs)"

lemma hid_loop_willing:
  assumes "hid_loop rs data = (out, off, rs')" "list_all (\<lambda>r. r = Interrupted \<or> (\<exists>n. r = Wrote n)) rs"
    "length data \<le> 64 * length (filter (\<lambda>r. r \<noteq> Interrupted) rs)"
  shows "(\<exists>k. concat (map (drop 1) out) = data @ replicate k DHP_FLAG) \<and>
    list_all (\<lambda>r. length r = 65 \<and> hd r = 0) out \<and> off = int (length data)"
  using assms
proof (induction rs data arbitrary: out off rs' rule: hid_loop.induct)
  case (6 n rs b bs)
  define part where "part = take 64 (b # bs)"
  obtain out1 off1 where r: "hid_loop rs (drop 64 (b # bs)) = (out1, off1, rs')" and
    out: "out = hid_report part # out1" "off = int (length part) + off1"
    using "6.prems"(1) by (auto simp: part_def HID_REPORT_BYTES_def Let_def split: prod.splits)
  have ih: "(\<exists>k. concat (map (drop 1) out1) = drop 64 (b # bs) @ replicate k DHP_FLAG) \<and>
      list_all (\<lambda>r. length r = 65 \<and> hd r = 0) out1 \<and> off1 = int (length (drop 64 (b # bs)))"
    by (rule "6.IH" [OF refl, unfolded HID_REPORT_BYTES_def, OF r]) (use "6.prems" in auto)
  then obtain k where k: "concat (map (drop 1) out1) = drop 64 (b # bs) @ replicate k DHP_FLAG" by blast
  have "\<exists>k. concat (map (drop 1) out) = (b # bs) @ replicate k DHP_FLAG"
  proof (cases "64 \<le> length (b # bs)")
    case True
    then have "hid_report part = 0 # part" by (simp add: hid_report_def part_def HID_REPORT_BYTES_def)
    then have "concat (map (drop 1) out) = (part @ drop 64 (b # bs)) @ replicate k DHP_FLAG" using k by (simp add: out)
    then show ?thesis unfolding part_def append_take_drop_id by blast
  next
    case False
    then have p: "part = b # bs" "drop 64 (b # bs) = []" by (simp_all add: part_def)
    have "concat (map (drop 1) out) = (b # bs) @ (replicate (64 - length (b # bs)) DHP_FLAG @ replicate k DHP_FLAG)"
      using k False by (simp add: out p hid_report_def HID_REPORT_BYTES_def DHP_FLAG_def)
    then have "concat (map (drop 1) out) = (b # bs) @ replicate (64 - length (b # bs) + k) DHP_FLAG" by (simp only: replicate_add)
    then show ?thesis by blast
  qed
  moreover have "length (hid_report part) = 65" "hd (hid_report part) = 0"
    by (auto simp: hid_report_def HID_REPORT_BYTES_def part_def)
  moreover have "off = int (length (b # bs))"
    using conjunct2 [OF conjunct2 [OF ih]] by (auto simp: out part_def)
  ultimately show ?case using ih by (auto simp: out(1))
qed auto

text \<open>
  The frames of one burst, written one after the other, and what the board's decoder makes of the
  reports without their leading report number.
\<close>

primrec write_frames :: "write_result list list \<Rightarrow> dhp_frame_t list \<Rightarrow> u8 list list" where
  "write_frames ks [] = []"
| "write_frames ks (f # fs) =
     fst (boardlink_write BOARDLINK_HIDRAW (hd ks) (frame_wire (frame_body f LOCAL_KEY))) @ write_frames (tl ks) fs"

lemma frame_wire_short: "frame_ok f \<Longrightarrow> length (frame_wire (frame_body f key)) \<le> 64 * 3"
  using dhp_frame_encode_eq [of f DHP_WIRE_MAX key]
  by (auto simp: dhp_frame_encode_def frame_wire_def emit_all_stuff dhp_consts split: if_splits sum.splits)

lemma write_frames_decode:
  assumes "list_all frame_ok fs" "length ks = length fs" "list_all (\<lambda>rs. willing rs 3) ks" "between_frames fr"
  shows "list_all (\<lambda>r. length r = 65 \<and> hd r = 0) (write_frames ks fs) \<and>
    delivered (snd (framer_run (Some LOCAL_KEY) (concat (map (drop 1) (write_frames ks fs))) fr)) =
      map (\<lambda>f. frame_of_body (frame_body f LOCAL_KEY)) fs"
  using assms
proof (induction fs arbitrary: ks fr)
  case (Cons f fs)
  obtain rs ks' where ks: "ks = rs # ks'" using Cons.prems(2) by (cases ks) auto
  let ?w = "frame_wire (frame_body f LOCAL_KEY)"
  obtain out off rs' where h: "hid_loop rs ?w = (out, off, rs')" by (metis prod_cases3)
  have ok: "frame_ok f" using Cons.prems(1) by simp
  have wl: "list_all (\<lambda>r. r = Interrupted \<or> (\<exists>n. r = Wrote n)) rs" "3 \<le> length (filter (\<lambda>r. r \<noteq> Interrupted) rs)"
    using Cons.prems(3) by (simp_all add: ks willing_def)
  have "length ?w \<le> 64 * length (filter (\<lambda>r. r \<noteq> Interrupted) rs)"
    using frame_wire_short [OF ok, of LOCAL_KEY] wl(2) by linarith
  from hid_loop_willing [OF h wl(1) this] obtain k where
    k: "concat (map (drop 1) out) = ?w @ replicate k DHP_FLAG" "list_all (\<lambda>r. length r = 65 \<and> hd r = 0) out" by blast
  note w = run_wire_between [OF Cons.prems(4) ok, of LOCAL_KEY]
  note fl = run_flags_between [OF conjunct1 [OF w], of "Some LOCAL_KEY" k]
  have ih: "list_all (\<lambda>r. length r = 65 \<and> hd r = 0) (write_frames ks' fs) \<and>
    delivered (snd (framer_run (Some LOCAL_KEY) (concat (map (drop 1) (write_frames ks' fs)))
      (fst (framer_run (Some LOCAL_KEY) (replicate k DHP_FLAG) (fst (framer_run (Some LOCAL_KEY) ?w fr)))))) =
      map (\<lambda>f. frame_of_body (frame_body f LOCAL_KEY)) fs"
    by (rule Cons.IH) (use Cons.prems fl in \<open>simp_all add: ks\<close>)
  have wf: "write_frames ks (f # fs) = out @ write_frames ks' fs"
    by (simp add: ks boardlink_write_def h)
  show ?case
    using ih k w fl unfolding wf by (simp add: framer_run_append split_beta)
qed simp

text \<open>
  The board hears exactly what its client says.  A burst of frames written by the client to its hidraw
  node, by a kernel that takes the reports however often it is interrupted, leaves as full reports with
  number zero, and the board's decoder turns their bytes back into exactly those frames, once each and in
  order: frames longer than a report are split and joined, and the padding is never mistaken for content.
\<close>

theorem board_hears_client:
  assumes "list_all frame_ok fs" "length ks = length fs" "list_all (\<lambda>rs. willing rs 3) ks" "between_frames fr"
  shows "list_all (\<lambda>r. length r = 1 + HID_REPORT_BYTES \<and> hd r = 0) (write_frames ks fs) \<and>
    list_all2 same_message fs
      (delivered (snd (framer_run (Some LOCAL_KEY) (concat (map (drop 1) (write_frames ks fs))) fr)))"
proof -
  have "list_all2 same_message fs (map (\<lambda>f. frame_of_body (frame_body f LOCAL_KEY)) fs)"
    using assms(1) frame_of_body_frame_body(1) by (simp add: list_all2_conv_all_nth list_all_length)
  then show ?thesis using write_frames_decode [OF assms] by (simp add: HID_REPORT_BYTES_def)
qed

theorem board_hears_client_witness:
  "list_all2 same_message [demo_data, demo_data]
     (delivered (snd (framer_run (Some LOCAL_KEY) (concat (map (drop 1)
       (write_frames (replicate 2 [Interrupted, Wrote 65, Wrote 65, Wrote 65]) [demo_data, demo_data]))) dhp_framer_init)))"
proof -
  have "list_all frame_ok [demo_data, demo_data]" by (simp add: demo_data_def local_frame_def frame_ok_def dhp_consts)
  moreover have "between_frames dhp_framer_init" by (simp add: between_frames_def dhp_framer_init_def)
  ultimately show ?thesis
    using board_hears_client [of "[demo_data, demo_data]" "replicate 2 [Interrupted, Wrote 65, Wrote 65, Wrote 65]" dhp_framer_init]
    by (simp add: willing_def numeral_2_eq_2)
qed

text \<open>The comment beside \<^verbatim>\<open>HID_REPORT_BYTES\<close> says a frame is never split across reports: one with a full payload is.\<close>

lemma stuff_longer: "length bs \<le> length (stuff bs)"
proof (induction bs)
  case (Cons b bs)
  then show ?case using stuff_byte_len [of b] by (simp add: stuff_def)
qed (simp add: stuff_def)

theorem frame_split_across_reports:
  "frame_ok f \<Longrightarrow> unat (fr_len f) = DHP_MAX_PAYLOAD \<Longrightarrow> HID_REPORT_BYTES < length (frame_wire (frame_body f key))"
  using stuff_longer [of "frame_body f key"] length_frame_body [of f key]
  by (simp add: frame_wire_def HID_REPORT_BYTES_def dhp_consts)

end
