(* ===== verification/Dhp_Clipboard.thy ===== *)
theory Dhp_Clipboard
  imports Dhp_Text Dhp_Prelude
begin

text \<open>
  The clipboard of the client's machine, \<^verbatim>\<open>client/src/clipboard.c\<close>: helper commands found once at the start,
  one that prints the clipboard and one that fills it.

  The helpers are the outside.  Which tools are installed, what a paste helper prints and whether a copy
  helper takes what it is given are arguments; \<open>room n\<close> says whether a buffer of \<open>n\<close> bytes can be had.
\<close>

definition CLIP_MAX :: nat where "CLIP_MAX = 4 * 1024 * 1024"

record clipboard_cfg_t =
  cb_paste_cmd :: string
  cb_copy_cmd :: string
  cb_paste_image_cmd :: string
  cb_copy_image_cmd :: string

definition clipboard_none :: clipboard_cfg_t where
  "clipboard_none = \<lparr>cb_paste_cmd = [], cb_copy_cmd = [], cb_paste_image_cmd = [], cb_copy_image_cmd = []\<rparr>"

text \<open>\<open>installed\<close> is the outcome of \<^verbatim>\<open>command -v\<close>.\<close>

definition clipboard_autodetect :: "bool \<Rightarrow> (string \<Rightarrow> bool) \<Rightarrow> clipboard_cfg_t" where
  "clipboard_autodetect wayland installed =
     (if wayland \<and> installed ''wl-copy'' then
        \<lparr>cb_paste_cmd = snprintf_str 256 ''wl-paste --no-newline 2>/dev/null'',
         cb_copy_cmd = snprintf_str 256 ''wl-copy'',
         cb_paste_image_cmd = snprintf_str 256 ''wl-paste --type image/png 2>/dev/null'',
         cb_copy_image_cmd = snprintf_str 256 ''wl-copy --type image/png''\<rparr>
      else if installed ''xclip'' then
        \<lparr>cb_paste_cmd = snprintf_str 256 ''xclip -selection clipboard -o 2>/dev/null'',
         cb_copy_cmd = snprintf_str 256 ''xclip -selection clipboard -i'',
         cb_paste_image_cmd = snprintf_str 256 ''xclip -selection clipboard -t image/png -o 2>/dev/null'',
         cb_copy_image_cmd = snprintf_str 256 ''xclip -selection clipboard -t image/png -i''\<rparr>
      else clipboard_none)"

definition clipboard_available :: "clipboard_cfg_t \<Rightarrow> bool" where
  "clipboard_available c \<longleftrightarrow> cb_paste_cmd c \<noteq> [] \<and> cb_copy_cmd c \<noteq> []"

section \<open>Reading\<close>

text \<open>
  The reading loop: \<open>n\<close> bytes of the helper's output are in a buffer of \<open>cap\<close> bytes.  A pipe gives \<^verbatim>\<open>fread\<close>
  everything that was asked for until the output ends.
\<close>

function clip_loop :: "(nat \<Rightarrow> bool) \<Rightarrow> u8 list \<Rightarrow> nat \<Rightarrow> nat \<Rightarrow> nat option" where
  "clip_loop room out cap n =
     (if n = cap \<and> CLIP_MAX \<le> cap then Some n
      else if n = cap \<and> \<not> room (cap * 2) then None
      else
        let cap = (if n = cap then cap * 2 else cap);
            got = min (cap - n) (length out - n)
        in if got = 0 then Some n else clip_loop room out cap (n + got))"
  by pat_completeness auto
termination
  by (relation "measure (\<lambda>(room, out, cap, n). length out - n)") auto

declare clip_loop.simps [simp del]

text \<open>\<open>out\<close> is what the helper prints, \<open>None\<close> when it cannot be started.\<close>

definition clipboard_get :: "(nat \<Rightarrow> bool) \<Rightarrow> (string \<Rightarrow> u8 list option) \<Rightarrow> clipboard_cfg_t \<Rightarrow> bool \<Rightarrow> u8 list option" where
  "clipboard_get room helper c img =
     (let cmd = (if img then cb_paste_image_cmd c else cb_paste_cmd c) in
      if cmd = [] then None
      else case helper cmd of
        None \<Rightarrow> None
      | Some out \<Rightarrow>
          if \<not> room 8192 then None
          else case clip_loop room out 8192 0 of
            None \<Rightarrow> None
          | Some n \<Rightarrow> if n = 0 then None else Some (take n out))"

section \<open>Writing\<close>

text \<open>What a copy helper did with its input: the bytes it took before closing the pipe, and its exit code.\<close>

definition clipboard_set :: "(string \<Rightarrow> (nat \<times> int) option) \<Rightarrow> clipboard_cfg_t \<Rightarrow> u8 list \<Rightarrow> bool \<Rightarrow> bool" where
  "clipboard_set helper c data img =
     (let cmd = (if img then cb_copy_image_cmd c else cb_copy_cmd c) in
      if cmd = [] then False
      else case helper cmd of
        None \<Rightarrow> False
      | Some (took, rc) \<Rightarrow> min took (length data) = length data \<and> rc = 0)"

section \<open>What a read returns\<close>

lemma double_within: "8192 * 2 ^ j < CLIP_MAX \<Longrightarrow> 8192 * 2 ^ j * 2 \<le> CLIP_MAX"
proof -
  assume lt: "8192 * 2 ^ j < CLIP_MAX"
  have "j < 9"
  proof (rule ccontr)
    assume "\<not> j < 9"
    then have "(2::nat) ^ 9 \<le> 2 ^ j" by (intro power_increasing) auto
    with lt show False by (simp add: CLIP_MAX_def)
  qed
  then have "(2::nat) ^ j \<le> 2 ^ 8" by (intro power_increasing) auto
  then show ?thesis by (simp add: CLIP_MAX_def)
qed

lemma clip_loop_step:
  assumes "room (cap * 2)" "\<not> (n = cap \<and> CLIP_MAX \<le> cap)" "cap' = (if n = cap then cap * 2 else cap)"
    "got = min (cap' - n) (length out - n)"
  shows "clip_loop room out cap n = (if got = 0 then Some n else clip_loop room out cap' (n + got))"
  unfolding clip_loop.simps [of room out cap n] Let_def assms(3) [symmetric] assms(4) [symmetric]
  using assms(1,2) by (simp only: if_False simp_thms)

lemma clip_loop_all:
  assumes "\<forall>k. room k" "cap = 8192 * 2 ^ j" "cap \<le> CLIP_MAX" "n \<le> cap" "n \<le> length out" "n < cap \<longrightarrow> n = 0 \<or> n = length out"
  shows "clip_loop room out cap n = Some (min CLIP_MAX (length out))"
  using assms
proof (induction "length out - n" arbitrary: cap n j rule: less_induct)
  case less
  show ?case
  proof (cases "n = cap \<and> CLIP_MAX \<le> cap")
    case True
    then have "clip_loop room out cap n = Some n" by (subst clip_loop.simps) simp
    with True less.prems(3,5) show ?thesis by simp
  next
    case False
    define cap' where "cap' = (if n = cap then cap * 2 else cap)"
    define got where "got = min (cap' - n) (length out - n)"
    note step = clip_loop_step [OF spec [OF less.prems(1)] False cap'_def got_def]
    obtain j' where j': "cap' = 8192 * 2 ^ j'"
      using less.prems(2) by (cases "n = cap") (simp_all add: cap'_def that [of "Suc j"] that [of j])
    have c: "cap' \<le> CLIP_MAX"
      using double_within [of j] False less.prems(2,3) by (cases "n = cap") (simp_all add: cap'_def)
    have "0 < cap" using less.prems(2) by simp
    then have pos: "n < cap'" using less.prems(4) by (cases "n = cap") (simp_all add: cap'_def)
    show ?thesis
    proof (cases "got = 0")
      case True
      then have "n = length out" using pos less.prems(5) by (simp add: got_def)
      then show ?thesis using True pos c step by simp
    next
      case go: False
      have "n + got \<le> cap'" "n + got \<le> length out" "n + got < cap' \<longrightarrow> n + got = 0 \<or> n + got = length out"
        "length out - (n + got) < length out - n"
        using go pos less.prems(5) unfolding got_def by linarith+
      from less.hyps [OF this(4) less.prems(1) j' c this(1-3)] show ?thesis using step go by simp
    qed
  qed
qed

text \<open>
  A clipboard read is the helper's output, and terminates whatever the helper prints.  With memory to
  be had, the result is the output cut at four mebibytes, and nothing at all when the output is empty; an
  endless helper is not followed beyond the limit.
\<close>

theorem clipboard_get_exact:
  assumes "\<And>k. room k" "(if img then cb_paste_image_cmd c else cb_paste_cmd c) = cmd" "cmd \<noteq> []" "helper cmd = Some out"
  shows "clipboard_get room helper c img = (if out = [] then None else Some (take CLIP_MAX out))"
proof -
  have "clip_loop room out 8192 0 = Some (min CLIP_MAX (length out))"
    by (rule clip_loop_all [of room 8192 0]) (simp_all add: assms(1) CLIP_MAX_def)
  moreover have "min CLIP_MAX (length out) = 0 \<longleftrightarrow> out = []" by (auto simp: CLIP_MAX_def min_def)
  moreover have "take (min CLIP_MAX (length out)) out = take CLIP_MAX out" by (simp add: min_def)
  ultimately show ?thesis using assms by (simp add: clipboard_get_def Let_def)
qed

theorem clipboard_get_exact_witness:
  "clipboard_get (\<lambda>_. True) (\<lambda>cmd. if cmd = ''wl-paste --no-newline 2>/dev/null'' then Some [104, 105] else None)
     (clipboard_autodetect True (\<lambda>t. t = ''wl-copy'')) False = Some [104, 105]"
  using clipboard_get_exact [of "\<lambda>_. True" False "clipboard_autodetect True (\<lambda>t. t = ''wl-copy'')"
      "''wl-paste --no-newline 2>/dev/null''" "\<lambda>cmd. if cmd = ''wl-paste --no-newline 2>/dev/null'' then Some [104, 105] else None"
      "[104, 105]"]
  by (simp add: clipboard_autodetect_def snprintf_str_def CLIP_MAX_def)

end
