(* ===== verification/Dhp_Client.thy ===== *)
theory Dhp_Client
  imports Dhp_Streams Dhp_Boardlink Dhp_Clipboard Dhp_Config
begin

text \<open>
  The client daemon, \<^verbatim>\<open>client/src/main.c\<close>: clipboard, text, files and shares over the board plugged into
  the machine.  The struct \<^verbatim>\<open>client_t\<close> is one record, with the bulk transport and the link it uses; what
  the client does to its surroundings is recorded in it: the writes to the board, the files, the lines
  on standard output, the replies on the control socket and what was handed to the copy helper.

  What the outside contributes to a pass is its input \<open>client_env\<close>.  The clock is read once per pass, and
  the hooks of the transport are carried out in the order of its trace after the call.  This is the order
  of the program's effects: \<^verbatim>\<open>dhp_data\<close> calls \<^verbatim>\<open>on_offer\<close> as the last thing it does, and the other hooks do
  not touch the transport.  Logging is not modelled.
\<close>

section \<open>State\<close>

definition MAX_INFLIGHT :: u32 where "MAX_INFLIGHT = 4 * 1024 * 1024"

definition DHP_DATA_TEXT :: u8 where "DHP_DATA_TEXT = 0"

definition DHP_DATA_IMAGE :: u8 where "DHP_DATA_IMAGE = 1"

definition DHP_DATA_FILE :: u8 where "DHP_DATA_FILE = 2"

definition DHP_DATA_LIST :: u8 where "DHP_DATA_LIST = 3"

definition DHP_DATA_SHARE :: u8 where "DHP_DATA_SHARE = 4"

lemmas data_kinds = DHP_DATA_TEXT_def DHP_DATA_IMAGE_def DHP_DATA_FILE_def DHP_DATA_LIST_def DHP_DATA_SHARE_def

record client_t =
  ct_board :: boardlink_kind_t
  ct_link :: dhp_link_t
  ct_data :: dhp_data_t
  ct_clip :: clipboard_cfg_t
  ct_self :: dhp_addr_t
  ct_outdir :: string
  ct_ctl_path :: string
  ct_ctl :: bool
  ct_verbose :: bool
  ct_accept_files :: bool
  ct_tx_buf :: "u8 list option"
  ct_tx_len :: nat
  ct_tx_busy :: bool
  ct_rx_buf :: "u8 list"
  ct_rx_cap :: u32
  ct_rx_len :: u32
  ct_rx_kind :: u8
  ct_rx_name :: string
  ct_last_clip :: "u8 list option"
  ct_last_clip_len :: nat
  ct_next_clip_poll :: dhp_time_t
  ct_peer :: dhp_addr_t
  ct_self_fixed :: bool
  ct_attached :: bool
  ct_next_attach :: dhp_time_t
  ct_board_focus :: dhp_addr_t
  ct_board_level :: u8
  ct_kernel :: "write_result list"
  ct_wire :: "u8 list list"
  ct_files :: "u8 fs"
  ct_stdout :: "string list"
  ct_replies :: "string list"
  ct_copied :: "(bool \<times> u8 list) list"

record client_env =
  ke_now :: dhp_time_t
  ke_read :: "read_result option"
  ke_ctl :: "string option"
  ke_sender_named :: bool
  ke_writes :: "write_result list"
  ke_paste :: "string \<Rightarrow> u8 list option"
  ke_copy :: "string \<Rightarrow> (nat \<times> int) option"
  ke_room :: "nat \<Rightarrow> bool"
  ke_heap :: "nat \<Rightarrow> u8"
  ke_umask :: u16
  ke_creates :: bool
  ke_written :: nat
  ke_reads :: bool

definition chars_of :: "u8 list \<Rightarrow> string" where
  "chars_of bs = map (\<lambda>b. char_of (unat b)) bs"

definition bytes_of :: "string \<Rightarrow> u8 list" where
  "bytes_of s = map (\<lambda>c. of_nat (of_char c)) s"

section \<open>Toward the board\<close>

definition client_on_tx :: "link_tx \<Rightarrow> client_t \<Rightarrow> client_t" where
  "client_on_tx tx c =
     (case boardlink_write (ct_board c) (ct_kernel c) (snd tx) of (out, r, rs) \<Rightarrow>
        c\<lparr>ct_wire := ct_wire c @ out, ct_kernel := rs\<rparr>)"

definition event_tx :: "data_event \<Rightarrow> client_t \<Rightarrow> client_t" where
  "event_tx e c = (case e of EvTx tx \<Rightarrow> client_on_tx tx c | _ \<Rightarrow> c)"

text \<open>Accepting and rejecting only transmit.\<close>

definition put_answer :: "dhp_data_t \<times> dhp_link_t \<times> data_event list \<Rightarrow> client_t \<Rightarrow> client_t" where
  "put_answer st c = (case st of (d, l, evs) \<Rightarrow> fold event_tx evs (c\<lparr>ct_data := d, ct_link := l\<rparr>))"

section \<open>Receiving\<close>

definition on_offer :: "client_env \<Rightarrow> nat \<Rightarrow> u8 \<Rightarrow> u32 \<Rightarrow> u8 list \<Rightarrow> client_t \<Rightarrow> client_t" where
  "on_offer env stream kind tot name c =
     (let reject = put_answer (dhp_data_reject (ct_data c) (ct_link c) stream (ke_now env)) c in
      if MAX_INFLIGHT < tot then reject
      else if kind = DHP_DATA_FILE \<and> \<not> ct_accept_files c then reject
      else if ct_rx_cap c < tot \<and> \<not> ke_room env (unat tot) then reject
      else
        let c1 = (if ct_rx_cap c < tot
                  then c\<lparr>ct_rx_buf := ct_rx_buf c @ map (ke_heap env) [unat (ct_rx_cap c)..<unat tot], ct_rx_cap := tot\<rparr>
                  else c);
            c2 = c1\<lparr>ct_rx_len := 0, ct_rx_kind := kind, ct_rx_name := snprintf_str 64 (chars_of name)\<rparr>
        in put_answer (dhp_data_accept (ct_data c2) (ct_link c2) stream (ke_now env)) c2)"

definition store_at :: "nat \<Rightarrow> 'a list \<Rightarrow> 'a list \<Rightarrow> 'a list" where
  "store_at off d buf = take off buf @ d @ drop (off + length d) buf"

definition on_chunk :: "u32 \<Rightarrow> u8 list \<Rightarrow> client_t \<Rightarrow> client_t" where
  "on_chunk off d c =
     (let end' = off + of_nat (length d) in
      if end' \<le> ct_rx_cap c
      then c\<lparr>ct_rx_buf := store_at (unat off) d (ct_rx_buf c), ct_rx_len := (if ct_rx_len c < end' then end' else ct_rx_len c)\<rparr>
      else c)"

definition safe_char :: "char \<Rightarrow> bool" where
  "safe_char ch \<longleftrightarrow> (let n = of_char ch :: nat in
     (97 \<le> n \<and> n \<le> 122) \<or> (65 \<le> n \<and> n \<le> 90) \<or> (48 \<le> n \<and> n \<le> 57) \<or>
     ch = CHR ''.'' \<or> ch = CHR ''-'' \<or> ch = CHR ''_'')"

definition safe_name :: "string \<Rightarrow> nat \<Rightarrow> string" where
  "safe_name s cap =
     (let out = map (\<lambda>ch. if safe_char ch then ch else CHR ''_'') (take (cap - 1) s) in
      if out = [] \<or> out = ''.'' \<or> out = ''..'' then snprintf_str cap ''received'' else out)"

definition rx_content :: "client_t \<Rightarrow> u8 list" where
  "rx_content c = take (unat (ct_rx_len c)) (ct_rx_buf c)"

text \<open>The name tried in round \<open>i\<close>.\<close>

definition rx_path :: "string \<Rightarrow> string \<Rightarrow> nat \<Rightarrow> string" where
  "rx_path outdir clean i =
     snprintf_str 512 (outdir @ ''/'' @ clean @ (if i = 0 then [] else ''.'' @ show_d (int i)))"

text \<open>
  The loop over names: exclusive creation fails with \<^verbatim>\<open>EEXIST\<close> exactly on a name that is taken, and any
  other failure ends it.  \<open>n\<close> is the number of names left, from the thousand the code allows.
\<close>

primrec open_excl :: "bool \<Rightarrow> 'a fs \<Rightarrow> (nat \<Rightarrow> string) \<Rightarrow> nat \<Rightarrow> nat \<Rightarrow> string option" where
  "open_excl creates s names i 0 = None"
| "open_excl creates s names i (Suc n) =
     (if s (names i) \<noteq> None then open_excl creates s names (i + 1) n
      else if creates then Some (names i) else None)"

definition store_file :: "client_env \<Rightarrow> client_t \<Rightarrow> client_t" where
  "store_file env c =
     (let clean = safe_name (if ct_rx_name c \<noteq> [] then ct_rx_name c else ''received'') 64
      in case open_excl (ke_creates env) (ct_files c) (rx_path (ct_outdir c) clean) 0 1000 of
           None \<Rightarrow> c
         | Some path \<Rightarrow>
             let c1 = c\<lparr>ct_files := fs_fill path (take (ke_written env) (rx_content c))
                          (fs_create (0x180 AND NOT (ke_umask env)) path (ct_files c))\<rparr>
             in if length (rx_content c) \<le> ke_written env then c1\<lparr>ct_stdout := ct_stdout c1 @ [path]\<rparr> else c1)"

definition copy_out :: "client_env \<Rightarrow> bool \<Rightarrow> client_t \<Rightarrow> client_t \<times> bool" where
  "copy_out env img c =
     (let cmd = (if img then cb_copy_image_cmd (ct_clip c) else cb_copy_cmd (ct_clip c));
          started = cmd \<noteq> [] \<and> ke_copy env cmd \<noteq> None
      in (if started then c\<lparr>ct_copied := ct_copied c @ [(img, rx_content c)]\<rparr> else c,
          clipboard_set (ke_copy env) (ct_clip c) (rx_content c) img))"

definition remember_clip :: "client_env \<Rightarrow> u8 list \<Rightarrow> client_t \<Rightarrow> client_t" where
  "remember_clip env data c =
     (if ke_room env (length data) then c\<lparr>ct_last_clip := Some data, ct_last_clip_len := length data\<rparr>
      else c\<lparr>ct_last_clip := None\<rparr>)"

definition on_received :: "client_env \<Rightarrow> u8 \<Rightarrow> client_t \<Rightarrow> client_t" where
  "on_received env result c =
     (if result \<noteq> DHP_DATA_OK then c
      else if ct_rx_kind c = DHP_DATA_TEXT then
        (case copy_out env False c of (c1, ok) \<Rightarrow> if ok then remember_clip env (rx_content c) c1 else c1)
      else if ct_rx_kind c = DHP_DATA_IMAGE then fst (copy_out env True c)
      else if ct_rx_kind c = DHP_DATA_SHARE then
        c\<lparr>ct_stdout := ct_stdout c @ [cstr (chars_of (rx_content c))]\<rparr>
      else store_file env c)"

definition on_sent :: "client_t \<Rightarrow> client_t" where
  "on_sent c = c\<lparr>ct_tx_buf := None, ct_tx_len := 0, ct_tx_busy := False\<rparr>"

primrec client_event :: "client_env \<Rightarrow> data_event \<Rightarrow> client_t \<Rightarrow> client_t" where
  "client_event env (EvTx tx) c = client_on_tx tx c"
| "client_event env (EvOffer i from kind tot name) c = on_offer env i kind tot name c"
| "client_event env (EvChunk i off d) c = on_chunk off d c"
| "client_event env (EvReceived i r) c = on_received env r c"
| "client_event env (EvSent i r) c = on_sent c"

definition put_data :: "client_env \<Rightarrow> dhp_data_t \<times> dhp_link_t \<times> data_event list \<Rightarrow> client_t \<Rightarrow> client_t" where
  "put_data env st c = (case st of (d, l, evs) \<Rightarrow> fold (client_event env) evs (c\<lparr>ct_data := d, ct_link := l\<rparr>))"

section \<open>Sending\<close>

definition send_owned :: "client_env \<Rightarrow> u8 \<Rightarrow> u8 list \<Rightarrow> u8 list \<Rightarrow> client_t \<Rightarrow> client_t \<times> bool" where
  "send_owned env kind name data c =
     (if ct_tx_busy c then (c, False)
      else
        let c1 = c\<lparr>ct_tx_buf := Some data, ct_tx_len := length data, ct_tx_busy := True\<rparr>;
            (d, l, evs, r) = dhp_data_send (ct_data c1) (ct_link c1) (ct_peer c1) kind (Some name) data (ke_now env);
            c2 = put_data env (d, l, evs) c1
        in case r of
             Inl e \<Rightarrow> (c2\<lparr>ct_tx_buf := None, ct_tx_busy := False\<rparr>, False)
           | Inr h \<Rightarrow> (c2, True))"

section \<open>The board's own messages\<close>

definition handle_status :: "dhp_frame_t \<Rightarrow> client_t \<Rightarrow> client_t" where
  "handle_status f c =
     (case dhp_local_status_unpack (frame_bytes f) of
        None \<Rightarrow> c
      | Some st \<Rightarrow>
          let c1 = c\<lparr>ct_board_focus := ls_focus st, ct_board_level := ls_level st, ct_attached := True\<rparr>
          in if \<not> ct_self_fixed c1 \<and> ls_self st \<noteq> DHP_ADDR_NONE \<and> ls_self st \<noteq> ct_self c1
             then c1\<lparr>ct_self := ls_self st, ct_link := (ct_link c1)\<lparr>lk_self := ls_self st\<rparr>\<rparr> else c1)"

definition client_caps :: "clipboard_cfg_t \<Rightarrow> u16" where
  "client_caps clip = (DHP_CAP_FILES OR DHP_CAP_SHARE) OR
     (if clipboard_available clip then DHP_CAP_CLIPBOARD OR DHP_CAP_IMAGES else 0)"

definition announce :: "client_env \<Rightarrow> client_t \<Rightarrow> client_t" where
  "announce env c =
     (if \<not> dhp_time_after (ke_now env) (ct_next_attach c) then c
      else
        let c1 = c\<lparr>ct_next_attach := ke_now env + 1000\<rparr>;
            (l, tx, r) = dhp_link_send (ct_link c1) (msg_code DHP_MSG_CAP) DHP_ADDR_BROADCAST
              (Some (dhp_local_attach_pack \<lparr>la_caps = client_caps (ct_clip c1)\<rparr>)) (of_nat DHP_LOCAL_ATTACH_BYTES) (ke_now env)
        in fold client_on_tx tx (c1\<lparr>ct_link := l\<rparr>))"

section \<open>Clipboard watch\<close>

definition poll_clipboard :: "client_env \<Rightarrow> client_t \<Rightarrow> client_t" where
  "poll_clipboard env c =
     (if \<not> clipboard_available (ct_clip c) \<or> ct_tx_busy c then c
      else if \<not> dhp_time_after (ke_now env) (ct_next_clip_poll c) then c
      else
        let c1 = c\<lparr>ct_next_clip_poll := ke_now env + 500\<rparr>
        in case clipboard_get (ke_room env) (ke_paste env) (ct_clip c1) False of
             None \<Rightarrow> c1
           | Some cur \<Rightarrow>
               if (case ct_last_clip c1 of None \<Rightarrow> False
                   | Some old \<Rightarrow> length cur = ct_last_clip_len c1 \<and> cur = take (length cur) old)
               then c1
               else fst (send_owned env DHP_DATA_TEXT (bytes_of ''clipboard'') cur (remember_clip env cur c1)))"

section \<open>Control socket\<close>

definition client_ctl_open :: "bool \<Rightarrow> string \<Rightarrow> bool" where
  "client_ctl_open bound path \<longleftrightarrow> \<not> UNIX_PATH_BYTES \<le> length path \<and> bound"

text \<open>What it leaves in the file system: whatever had the name is gone, and a socket has it once it is bound.\<close>

definition client_ctl_files :: "bool \<Rightarrow> string \<Rightarrow> 'a fs \<Rightarrow> 'a fs" where
  "client_ctl_files bound path s =
     (if client_ctl_open bound path then (fs_unlink path s)(path \<mapsto> \<lparr>f_mode = 0x180, f_data = []\<rparr>) else fs_unlink path s)"

definition client_reply :: "client_env \<Rightarrow> string \<Rightarrow> client_t \<Rightarrow> client_t" where
  "client_reply env msg c = (if ke_sender_named env then c\<lparr>ct_replies := ct_replies c @ [msg]\<rparr> else c)"

definition read_file :: "client_env \<Rightarrow> u8 fs \<Rightarrow> string \<Rightarrow> u8 list option" where
  "read_file env s path =
     (case s path of
        None \<Rightarrow> None
      | Some f \<Rightarrow>
          let n = length (f_data f) in
          if n = 0 \<or> unat MAX_INFLIGHT < n \<or> \<not> ke_room env n \<or> \<not> ke_reads env then None
          else Some (f_data f))"

definition rest_of_line :: "string \<Rightarrow> string" where
  "rest_of_line s = dropWhile is_blank (takeWhile (\<lambda>ch. ch \<noteq> NL) (dropWhile (\<lambda>ch. ch = NL) s))"

definition base_name :: "string \<Rightarrow> string" where
  "base_name path = rev (takeWhile (\<lambda>ch. ch \<noteq> CHR ''/'') (rev path))"

definition sending_reply :: "client_env \<Rightarrow> client_t \<times> bool \<Rightarrow> client_t" where
  "sending_reply env st = client_reply env ((if snd st then ''sending'' else ''busy'') @ [NL]) (fst st)"

definition client_status_text :: "client_t \<Rightarrow> string" where
  "client_status_text c = snprintf_str 256
     (''peer='' @ show_u (unat (ct_peer c)) @ '' sending='' @ (if ct_tx_busy c then ''yes'' else ''no'') @
      '' clipboard='' @ (if clipboard_available (ct_clip c) then ''yes'' else ''no'') @
      '' files='' @ (if ct_accept_files c then ''accept'' else ''refuse'') @
      '' streams='' @ show_u (unat (dhp_data_active (ct_data c))) @ [NL] @
      ''sent='' @ show_u (unat (da_n_sent (ct_data c))) @ '' received='' @ show_u (unat (da_n_received (ct_data c))) @
      '' retransmits='' @ show_u (unat (da_n_retransmits (ct_data c))) @ [NL])"

definition client_peer :: "client_env \<Rightarrow> string \<Rightarrow> client_t \<Rightarrow> client_t" where
  "client_peer env rest c =
     (let c1 = (case strtok rest of None \<Rightarrow> c | Some (a, _) \<Rightarrow> c\<lparr>ct_peer := ucast (fst (strtoul 0 a))\<rparr>)
      in client_reply env (''peer='' @ show_u (unat (ct_peer c1)) @ [NL]) c1)"

definition client_send :: "client_env \<Rightarrow> string \<Rightarrow> client_t \<Rightarrow> client_t" where
  "client_send env rest c =
     (let path = rest_of_line rest in
      if path = [] then client_reply env (''usage: send <path>'' @ [NL]) c
      else case read_file env (ct_files c) path of
        None \<Rightarrow> client_reply env (''cannot read that, or it is too large -- use `share` for anything big'' @ [NL]) c
      | Some data \<Rightarrow> sending_reply env (send_owned env DHP_DATA_FILE (bytes_of (base_name path)) data c))"

definition client_text :: "client_env \<Rightarrow> string \<Rightarrow> client_t \<Rightarrow> client_t" where
  "client_text env rest c =
     (let s = rest_of_line rest in
      if s = [] then client_reply env (''usage: text <string>'' @ [NL]) c
      else if \<not> ke_room env (length s) then c
      else sending_reply env (send_owned env DHP_DATA_TEXT (bytes_of ''text'') (bytes_of s) c))"

definition client_share :: "client_env \<Rightarrow> string \<Rightarrow> client_t \<Rightarrow> client_t" where
  "client_share env rest c =
     (let loc = rest_of_line rest in
      if loc = [] then client_reply env (''usage: share <smb-url>'' @ [NL]) c
      else if \<not> ke_room env (length loc) then c
      else sending_reply env (send_owned env DHP_DATA_SHARE (bytes_of (base_name loc)) (bytes_of loc) c))"

definition client_ctl_handle :: "client_env \<Rightarrow> string \<Rightarrow> client_t \<Rightarrow> client_t" where
  "client_ctl_handle env dgram c =
     (if dgram = [] then c
      else case strtok (cstr (take 4095 dgram)) of
        None \<Rightarrow> c
      | Some (cmd, rest) \<Rightarrow>
          if cmd = ''status'' then client_reply env (client_status_text c) c
          else if cmd = ''peer'' then client_peer env rest c
          else if cmd = ''send'' then client_send env rest c
          else if cmd = ''text'' then client_text env rest c
          else if cmd = ''share'' then client_share env rest c
          else client_reply env (''commands: status peer <addr> text <s> send <path> share <url>'' @ [NL]) c)"

section \<open>The main loop\<close>

definition client_frame :: "client_env \<Rightarrow> dhp_frame_t \<Rightarrow> client_t \<Rightarrow> client_t" where
  "client_frame env f c =
     (if fr_type f = msg_code DHP_MSG_CAP then handle_status f c
      else put_data env (dhp_data_rx (ct_data c) (ct_link c) f (ke_now env)) c)"

definition client_rx_byte :: "client_env \<Rightarrow> u8 \<Rightarrow> client_t \<Rightarrow> client_t" where
  "client_rx_byte env b c =
     (let (l, tx, res) = dhp_link_rx_byte (ct_link c) DHP_PORT_UP b (ke_now env);
          c1 = fold client_on_tx tx (c\<lparr>ct_link := l\<rparr>)
      in case res of Inl e \<Rightarrow> c1 | Inr f \<Rightarrow> client_frame env f c1)"

text \<open>\<open>None\<close>: the board went away and the loop ends.\<close>

definition client_read :: "client_env \<Rightarrow> client_t \<Rightarrow> client_t option" where
  "client_read env c =
     (case ke_read env of
        None \<Rightarrow> Some c
      | Some r \<Rightarrow> map_option (\<lambda>bs. fold (client_rx_byte env) bs c) (boardlink_read (ct_board c) r 1024))"

definition client_chores :: "client_env \<Rightarrow> client_t \<Rightarrow> client_t" where
  "client_chores env c =
     (let c = (case ke_ctl env of None \<Rightarrow> c | Some dgram \<Rightarrow> if ct_ctl c then client_ctl_handle env dgram c else c);
          c = announce env c;
          c = put_data env (dhp_data_tick (ct_data c) (ct_link c) (ke_now env)) c
      in poll_clipboard env c)"

definition client_pass :: "client_env \<Rightarrow> client_t \<Rightarrow> client_t option" where
  "client_pass env c = map_option (client_chores env) (client_read env (c\<lparr>ct_kernel := ke_writes env\<rparr>))"

section \<open>Start\<close>

datatype client_opt =
    OptDevice string
  | OptSocket string
  | OptPeer string
  | OptSelf string
  | OptOutdir string
  | OptCtl string
  | OptCopyCmd string
  | OptPasteCmd string
  | OptAcceptFiles
  | OptVerbose

record client_args =
  ca_device :: string
  ca_socket :: "string option"
  ca_client :: client_t

primrec client_opt_set :: "client_opt \<Rightarrow> client_args \<Rightarrow> client_args" where
  "client_opt_set (OptDevice s) a = a\<lparr>ca_device := s\<rparr>"
| "client_opt_set (OptSocket s) a = a\<lparr>ca_socket := Some s\<rparr>"
| "client_opt_set (OptPeer s) a = a\<lparr>ca_client := (ca_client a)\<lparr>ct_peer := ucast (fst (strtoul 0 s))\<rparr>\<rparr>"
| "client_opt_set (OptSelf s) a = a\<lparr>ca_client := (ca_client a)\<lparr>ct_self := ucast (fst (strtoul 0 s)), ct_self_fixed := True\<rparr>\<rparr>"
| "client_opt_set (OptOutdir s) a = a\<lparr>ca_client := (ca_client a)\<lparr>ct_outdir := snprintf_str 256 s\<rparr>\<rparr>"
| "client_opt_set (OptCtl s) a = a\<lparr>ca_client := (ca_client a)\<lparr>ct_ctl_path := snprintf_str 256 s\<rparr>\<rparr>"
| "client_opt_set (OptCopyCmd s) a =
     a\<lparr>ca_client := (ca_client a)\<lparr>ct_clip := (ct_clip (ca_client a))\<lparr>cb_copy_cmd := snprintf_str 256 s\<rparr>\<rparr>\<rparr>"
| "client_opt_set (OptPasteCmd s) a =
     a\<lparr>ca_client := (ca_client a)\<lparr>ct_clip := (ct_clip (ca_client a))\<lparr>cb_paste_cmd := snprintf_str 256 s\<rparr>\<rparr>\<rparr>"
| "client_opt_set OptAcceptFiles a = a\<lparr>ca_client := (ca_client a)\<lparr>ct_accept_files := True\<rparr>\<rparr>"
| "client_opt_set OptVerbose a = a\<lparr>ca_client := (ca_client a)\<lparr>ct_verbose := True\<rparr>\<rparr>"

record client_boot_env =
  cs_home :: "string option"
  cs_wayland :: bool
  cs_installed :: "string \<Rightarrow> bool"
  cs_got_fd :: bool
  cs_connect :: connect_result
  cs_room :: bool
  cs_bound :: bool
  cs_files :: "u8 fs"

definition client_hooks :: dhp_data_hooks_t where
  "client_hooks = \<lparr>dh_on_offer = True, dh_on_chunk = True, dh_on_received = True, dh_on_sent = True\<rparr>"

definition client_zero :: "client_boot_env \<Rightarrow> client_t" where
  "client_zero bt =
     (let home = (case cs_home bt of Some h \<Rightarrow> h | None \<Rightarrow> ''/tmp'')
      in \<lparr>ct_board = BOARDLINK_HIDRAW, ct_link = dhp_link_init 0 False, ct_data = dhp_data_init None,
          ct_clip = clipboard_autodetect (cs_wayland bt) (cs_installed bt), ct_self = 0,
          ct_outdir = snprintf_str 256 (home @ ''/Downloads''), ct_ctl_path = snprintf_str 256 (home @ ''/.deskhop-client.sock''),
          ct_ctl = False, ct_verbose = False, ct_accept_files = False, ct_tx_buf = None, ct_tx_len = 0, ct_tx_busy = False,
          ct_rx_buf = [], ct_rx_cap = 0, ct_rx_len = 0, ct_rx_kind = 0, ct_rx_name = [], ct_last_clip = None,
          ct_last_clip_len = 0, ct_next_clip_poll = 0, ct_peer = 0, ct_self_fixed = False, ct_attached = False,
          ct_next_attach = 0, ct_board_focus = 0, ct_board_level = 0, ct_kernel = [], ct_wire = [], ct_files = cs_files bt,
          ct_stdout = [], ct_replies = [], ct_copied = []\<rparr>)"

definition client_boot :: "client_boot_env \<Rightarrow> client_opt list \<Rightarrow> link_error + client_t" where
  "client_boot bt opts =
     (let a = fold client_opt_set opts \<lparr>ca_device = ''/dev/deskhop0'', ca_socket = None, ca_client = client_zero bt\<rparr>;
          c = ca_client a;
          (kind, path) = (case ca_socket a of Some s \<Rightarrow> (BOARDLINK_SOCKET, s) | None \<Rightarrow> (BOARDLINK_HIDRAW, ca_device a))
      in case boardlink_open (cs_got_fd bt) (cs_connect bt) (cs_room bt) kind path of
           Inl e \<Rightarrow> Inl e
         | Inr b \<Rightarrow>
             let self = (if ct_self c = DHP_ADDR_NONE then 0x00FF else ct_self c)
             in Inr (c\<lparr>ct_board := b, ct_self := self, ct_link := dhp_link_set_key (dhp_link_init self True) LOCAL_KEY,
                       ct_data := dhp_data_init (Some client_hooks), ct_ctl := client_ctl_open (cs_bound bt) (ct_ctl_path c),
                       ct_files := client_ctl_files (cs_bound bt) (ct_ctl_path c) (ct_files c)\<rparr>))"

text \<open>After the loop: the control socket is removed and the buffers are freed.\<close>

definition client_stop :: "client_t \<Rightarrow> client_t" where
  "client_stop c =
     (let c1 = (if ct_ctl c then c\<lparr>ct_ctl := False, ct_files := fs_unlink (ct_ctl_path c) (ct_files c)\<rparr> else c)
      in c1\<lparr>ct_tx_buf := None, ct_rx_buf := [], ct_last_clip := None\<rparr>)"

section \<open>Buffers\<close>

text \<open>
  The outbound buffer belongs to the one transfer that uses it: while the client is busy exactly one
  outbound stream is in use and its source is the buffer, otherwise there is neither.
\<close>

definition owns_tx :: "bool \<Rightarrow> u8 list option \<Rightarrow> dhp_data_t \<Rightarrow> bool" where
  "owns_tx busy buf d \<longleftrightarrow>
     (if busy
      then \<exists>b i. buf = Some b \<and> i < DHP_DATA_MAX_STREAMS \<and> ds_state (stream_at d i) \<noteq> DHP_ST_FREE \<and> ds_src (stream_at d i) = b \<and>
             (\<forall>j < DHP_DATA_MAX_STREAMS. ds_state (stream_at d j) \<noteq> DHP_ST_FREE \<longrightarrow> j = i)
      else buf = None \<and> (\<forall>j < DHP_DATA_MAX_STREAMS. ds_state (stream_at d j) = DHP_ST_FREE))"

definition rx_ok :: "client_t \<Rightarrow> bool" where
  "rx_ok c \<longleftrightarrow> length (ct_rx_buf c) = unat (ct_rx_cap c) \<and> ct_rx_len c \<le> ct_rx_cap c \<and> ct_rx_cap c \<le> MAX_INFLIGHT \<and>
     length (ct_rx_name c) < 64"

definition ct_inv :: "client_t \<Rightarrow> bool" where
  "ct_inv c \<longleftrightarrow> data_wf (ct_data c) \<and> da_hooks (ct_data c) = client_hooks \<and>
     owns_tx (ct_tx_busy c) (ct_tx_buf c) (ct_data c) \<and> rx_ok c \<and> length (ct_outdir c) < 256"

lemma on_tx_eq: "\<exists>w k. client_on_tx tx c = c\<lparr>ct_wire := w, ct_kernel := k\<rparr>"
  by (auto simp: client_on_tx_def split: prod.split)

lemma on_txs_eq: "\<exists>w k. fold client_on_tx txs c = c\<lparr>ct_wire := w, ct_kernel := k\<rparr>"
proof (induction txs arbitrary: c)
  case Nil
  show ?case by (rule exI [of _ "ct_wire c"], rule exI [of _ "ct_kernel c"]) simp
next
  case (Cons t txs)
  obtain w k where t: "client_on_tx t c = c\<lparr>ct_wire := w, ct_kernel := k\<rparr>" using on_tx_eq by blast
  obtain w' k' where "fold client_on_tx txs (client_on_tx t c) = (client_on_tx t c)\<lparr>ct_wire := w', ct_kernel := k'\<rparr>" using Cons by blast
  then show ?case by (auto simp: t)
qed

lemma event_tx_eq: "\<exists>w k. fold event_tx evs c = c\<lparr>ct_wire := w, ct_kernel := k\<rparr>"
proof (induction evs arbitrary: c)
  case Nil
  show ?case by (rule exI [of _ "ct_wire c"], rule exI [of _ "ct_kernel c"]) simp
next
  case (Cons e evs)
  have "\<exists>w k. event_tx e c = c\<lparr>ct_wire := w, ct_kernel := k\<rparr>"
  proof (cases e)
    case (EvTx tx)
    then show ?thesis using on_tx_eq by (simp add: event_tx_def)
  qed (simp add: event_tx_def; rule exI [of _ "ct_wire c"]; rule exI [of _ "ct_kernel c"]; simp)+
  then obtain w k where t: "event_tx e c = c\<lparr>ct_wire := w, ct_kernel := k\<rparr>" by blast
  obtain w' k' where "fold event_tx evs (event_tx e c) = (event_tx e c)\<lparr>ct_wire := w', ct_kernel := k'\<rparr>" using Cons by blast
  then show ?case by (auto simp: t)
qed

lemma put_answer_eq: "\<exists>w k. put_answer (d, l, evs) c = c\<lparr>ct_data := d, ct_link := l, ct_wire := w, ct_kernel := k\<rparr>"
  using event_tx_eq [of evs "c\<lparr>ct_data := d, ct_link := l\<rparr>"] by (auto simp: put_answer_def)

text \<open>What one hook does: the transport keeps its outbound half, and only \<open>on_sent\<close> frees the buffer.\<close>

definition ev_frame :: "bool \<Rightarrow> client_t \<Rightarrow> client_t \<Rightarrow> bool" where
  "ev_frame sent c c' \<longleftrightarrow> data_wf (ct_data c') \<and> keeps_out (ct_data c) (ct_data c') [] \<and>
     ct_tx_busy c' = (\<not> sent \<and> ct_tx_busy c) \<and> ct_tx_buf c' = (if sent then None else ct_tx_buf c) \<and>
     rx_ok c' \<and> ct_outdir c' = ct_outdir c"

lemma ev_frame_refl: "data_wf (ct_data c) \<Longrightarrow> rx_ok c \<Longrightarrow> ev_frame False c c"
  by (simp add: ev_frame_def keeps_out_refl)

lemma ev_frame_trans: "ev_frame s c d \<Longrightarrow> ev_frame s' d e \<Longrightarrow> ev_frame (s \<or> s') c e"
  using keeps_out_trans [of "ct_data c" "ct_data d" "[]" "ct_data e" "[]"] by (auto simp: ev_frame_def)

lemma ev_frame_same:
  assumes "data_wf (ct_data c)" "rx_ok c'" "ct_data c' = ct_data c" "ct_tx_busy c' = ct_tx_busy c" "ct_tx_buf c' = ct_tx_buf c"
    "ct_outdir c' = ct_outdir c"
  shows "ev_frame False c c'"
  using assms by (simp add: ev_frame_def keeps_out_refl)

lemma on_tx_ev: "data_wf (ct_data c) \<Longrightarrow> rx_ok c \<Longrightarrow> ev_frame False c (client_on_tx tx c)"
  using on_tx_eq [of tx c] by (auto intro!: ev_frame_same simp: rx_ok_def)

lemma on_offer_ev:
  assumes wf: "data_wf (ct_data c)" "rx_ok c" and i: "DHP_DATA_MAX_STREAMS \<le> i"
  shows "ev_frame False c (on_offer env i kind tot name c)"
proof -
  have ans: "ev_frame False c (put_answer (d, l, evs) c1)"
    if "data_wf d" "keeps_out (ct_data c) d evs" "quiet evs" "rx_ok c1" "ct_tx_busy c1 = ct_tx_busy c" "ct_tx_buf c1 = ct_tx_buf c"
      "ct_outdir c1 = ct_outdir c" for d l evs c1
    using put_answer_eq [of d l evs c1] that keeps_out_quiet [OF that(2,3)] by (auto simp: ev_frame_def rx_ok_def)
  obtain dr lr er where r: "dhp_data_reject (ct_data c) (ct_link c) i (ke_now env) = (dr, lr, er)" by (metis prod_cases3)
  have rej: "ev_frame False c (put_answer (dhp_data_reject (ct_data c) (ct_link c) i (ke_now env)) c)"
    unfolding r by (rule ans [OF data_reject_wf [OF wf(1) r] reject_out [OF r i] answer_quiet(2) [OF r] wf(2)]) simp_all
  define c1 where "c1 = (if ct_rx_cap c < tot
      then c\<lparr>ct_rx_buf := ct_rx_buf c @ map (ke_heap env) [unat (ct_rx_cap c)..<unat tot], ct_rx_cap := tot\<rparr> else c)"
  define c2 where "c2 = c1\<lparr>ct_rx_len := 0, ct_rx_kind := kind, ct_rx_name := snprintf_str 64 (chars_of name)\<rparr>"
  obtain da la ea where a: "dhp_data_accept (ct_data c2) (ct_link c2) i (ke_now env) = (da, la, ea)" by (metis prod_cases3)
  have d2: "ct_data c2 = ct_data c" by (simp add: c2_def c1_def)
  have acc: "ev_frame False c (put_answer (dhp_data_accept (ct_data c2) (ct_link c2) i (ke_now env)) c2)" if "tot \<le> MAX_INFLIGHT"
    unfolding a
  proof (rule ans)
    show "data_wf da" "keeps_out (ct_data c) da ea"
      using data_accept_wf [OF _ a] accept_out [OF _ a i] wf(1) by (simp_all add: d2)
    show "quiet ea" by (rule answer_quiet(1) [OF a])
    have "unat (ct_rx_cap c) + (unat tot - unat (ct_rx_cap c)) = unat tot" if "ct_rx_cap c < tot"
      using that by (simp add: word_less_nat_alt)
    then show "rx_ok c2" using wf(2) that snprintf_str_length [of 64 "chars_of name"]
      by (auto simp: c2_def c1_def rx_ok_def)
  qed (simp_all add: c2_def c1_def)
  show ?thesis
    using rej acc unfolding on_offer_def Let_def c1_def [symmetric] c2_def [symmetric] by (auto simp: not_less)
qed

lemma store_at_length: "off + length d \<le> length buf \<Longrightarrow> length (store_at off d buf) = length buf"
  by (simp add: store_at_def)

lemma on_chunk_ev:
  assumes "data_wf (ct_data c)" "rx_ok c" "unat off + length d < 2 ^ 32"
  shows "ev_frame False c (on_chunk off d c)"
proof (rule ev_frame_same [OF assms(1)])
  have e: "unat (off + of_nat (length d)) = unat off + length d"
    using assms(3) by (simp add: unat_word_ariths unat_of_nat take_bit_nat_eq_self)
  show "rx_ok (on_chunk off d c)"
    using assms(2) store_at_length [of "unat off" d "ct_rx_buf c"] e
    by (auto simp: on_chunk_def rx_ok_def Let_def word_le_nat_alt)
qed (simp_all add: on_chunk_def Let_def)

lemma on_received_ev:
  assumes "data_wf (ct_data c)" "rx_ok c" shows "ev_frame False c (on_received env r c)"
proof (rule ev_frame_same [OF assms(1)])
  show "rx_ok (on_received env r c)"
    using assms(2) by (auto simp: on_received_def copy_out_def remember_clip_def store_file_def rx_ok_def Let_def split: option.split)
qed (auto simp: on_received_def copy_out_def remember_clip_def store_file_def Let_def split: option.split)

lemma on_sent_ev: "data_wf (ct_data c) \<Longrightarrow> rx_ok c \<Longrightarrow> ev_frame True c (on_sent c)"
  by (simp add: ev_frame_def on_sent_def rx_ok_def keeps_out_refl)

definition any_sent :: "data_event list \<Rightarrow> bool" where
  "any_sent evs \<longleftrightarrow> (\<exists>i < DHP_DATA_MAX_STREAMS. sent_log i evs \<noteq> [])"

lemma events_ev:
  "data_wf (ct_data c) \<Longrightarrow> rx_ok c \<Longrightarrow> list_all report_ok evs \<Longrightarrow> ev_frame (any_sent evs) c (fold (client_event env) evs c)"
proof (induction evs arbitrary: c)
  case Nil
  then show ?case by (simp add: ev_frame_refl any_sent_def)
next
  case (Cons e evs)
  have one: "ev_frame (any_sent [e]) c (client_event env e c)"
    using Cons.prems on_tx_ev on_offer_ev on_chunk_ev on_received_ev on_sent_ev
    by (cases e) (auto simp: any_sent_def DHP_DATA_MAX_STREAMS_def)
  then have "data_wf (ct_data (client_event env e c))" "rx_ok (client_event env e c)" by (simp_all add: ev_frame_def)
  from ev_frame_trans [OF one Cons.IH [OF this]] Cons.prems(3)
  have "ev_frame (any_sent [e] \<or> any_sent evs) c (fold (client_event env) (e # evs) c)" by simp
  moreover have "any_sent (e # evs) \<longleftrightarrow> any_sent [e] \<or> any_sent evs"
    using sent_log_simps(2) [of _ "[e]" evs] by (auto simp: any_sent_def)
  ultimately show ?case by simp
qed

text \<open>An operation of the transport followed by its hooks.\<close>

lemma owns_idle: "owns_tx False buf d \<longleftrightarrow> buf = None \<and> (\<forall>j < DHP_DATA_MAX_STREAMS. ds_state (stream_at d j) = DHP_ST_FREE)"
  by (simp add: owns_tx_def)

lemma owns_busyI:
  assumes "i < DHP_DATA_MAX_STREAMS" "ds_state (stream_at d i) \<noteq> DHP_ST_FREE" "ds_src (stream_at d i) = b"
    "\<And>j. j < DHP_DATA_MAX_STREAMS \<Longrightarrow> j \<noteq> i \<Longrightarrow> ds_state (stream_at d j) = DHP_ST_FREE"
  shows "owns_tx True (Some b) d"
  using assms by (auto simp: owns_tx_def)

lemma owns_kept_idle:
  assumes "owns_tx False buf d" "keeps_out d d' evs"
  shows "owns_tx False buf d'" "\<not> any_sent evs"
proof -
  have "sent_log j evs = [] \<and> ds_state (stream_at d' j) = DHP_ST_FREE" if "j < DHP_DATA_MAX_STREAMS" for j
    using assms that by (auto simp: owns_idle keeps_out_def slot_kept_def)
  then show "owns_tx False buf d'" "\<not> any_sent evs" using assms(1) by (simp_all add: owns_idle any_sent_def)
qed

lemma owns_kept_busy:
  assumes "owns_tx True buf d" "keeps_out d d' evs"
  shows "if any_sent evs then owns_tx False None d' else owns_tx True buf d'"
proof -
  from assms(1) obtain b i where b: "buf = Some b" "i < DHP_DATA_MAX_STREAMS" "ds_state (stream_at d i) \<noteq> DHP_ST_FREE"
      "ds_src (stream_at d i) = b" and only: "\<And>j. j < DHP_DATA_MAX_STREAMS \<Longrightarrow> j \<noteq> i \<Longrightarrow> ds_state (stream_at d j) = DHP_ST_FREE"
    by (auto simp: owns_tx_def)
  have k: "slot_kept j d d' evs" if "j < DHP_DATA_MAX_STREAMS" for j using assms(2) that by (simp add: keeps_out_def)
  have other: "sent_log j evs = []" "ds_state (stream_at d' j) = DHP_ST_FREE" if "j < DHP_DATA_MAX_STREAMS" "j \<noteq> i" for j
    using k [OF that(1)] only [OF that] by (simp_all add: slot_kept_def)
  have any: "any_sent evs \<longleftrightarrow> sent_log i evs \<noteq> []" using b(2) other(1) unfolding any_sent_def by blast
  show ?thesis
  proof (cases "sent_log i evs = []")
    case True
    with k [OF b(2)] b(3,4) have "ds_state (stream_at d' i) \<noteq> DHP_ST_FREE" "ds_src (stream_at d' i) = b"
      by (simp_all add: slot_kept_def)
    from owns_busyI [OF b(2) this other(2)] show ?thesis using True by (simp add: any b(1))
  next
    case False
    with k [OF b(2)] b(3) have "ds_state (stream_at d' i) = DHP_ST_FREE" by (auto simp: slot_kept_def)
    with other(2) have "\<forall>j < DHP_DATA_MAX_STREAMS. ds_state (stream_at d' j) = DHP_ST_FREE" by metis
    with False show ?thesis by (simp add: any owns_idle)
  qed
qed

lemma owns_kept:
  assumes "owns_tx busy buf d" "keeps_out d d' evs"
  shows "owns_tx (\<not> any_sent evs \<and> busy) (if any_sent evs then None else buf) d'"
  using owns_kept_busy [of buf d d' evs] owns_kept_idle [of buf d d' evs] assms by (cases busy; cases "any_sent evs"; simp)

lemma put_data_inv:
  assumes "ct_inv c" "data_wf d" "keeps_out (ct_data c) d evs"
  shows "ct_inv (put_data env (d, l, evs) c)"
proof -
  let ?c = "c\<lparr>ct_data := d, ct_link := l\<rparr>" and ?e = "put_data env (d, l, evs) c"
  have rx: "rx_ok ?c" using assms(1) by (simp add: ct_inv_def rx_ok_def)
  have "list_all report_ok evs" using assms(3) by (simp add: keeps_out_def)
  from events_ev [of ?c evs env] assms(2) rx this
  have e: "ev_frame (any_sent evs) ?c ?e" by (simp add: put_data_def)
  then have k: "keeps_out d (ct_data ?e) []" by (simp add: ev_frame_def)
  have "keeps_out (ct_data c) (ct_data ?e) evs" using keeps_out_trans [OF assms(3) k] by simp
  with assms(1) have o: "owns_tx (ct_tx_busy ?e) (ct_tx_buf ?e) (ct_data ?e)"
    using owns_kept [of "ct_tx_busy c" "ct_tx_buf c" "ct_data c" "ct_data ?e" evs] e
    by (cases "any_sent evs") (simp_all add: ct_inv_def ev_frame_def)
  have "da_hooks (ct_data ?e) = client_hooks" using k assms(1,3) by (simp add: keeps_out_def ct_inv_def)
  then show ?thesis using o e assms(1) by (simp add: ct_inv_def ev_frame_def)
qed

lemma ct_inv_other:
  assumes "ct_inv c" "ct_data c' = ct_data c" "ct_tx_busy c' = ct_tx_busy c" "ct_tx_buf c' = ct_tx_buf c"
    "ct_rx_buf c' = ct_rx_buf c" "ct_rx_cap c' = ct_rx_cap c" "ct_rx_len c' = ct_rx_len c" "ct_rx_name c' = ct_rx_name c"
    "ct_outdir c' = ct_outdir c"
  shows "ct_inv c'"
  using assms by (simp add: ct_inv_def rx_ok_def)

lemma send_owned_inv:
  assumes "ct_inv c" shows "ct_inv (fst (send_owned env kind name data c))"
proof (cases "ct_tx_busy c")
  case True
  then show ?thesis using assms by (simp add: send_owned_def)
next
  case False
  define c1 where "c1 = c\<lparr>ct_tx_buf := Some data, ct_tx_len := length data, ct_tx_busy := True\<rparr>"
  obtain d l evs r where s: "dhp_data_send (ct_data c) (ct_link c) (ct_peer c) kind (Some name) data (ke_now env) = (d, l, evs, r)"
    by (metis prod_cases4)
  have wf: "data_wf (ct_data c)" "da_hooks (ct_data c) = client_hooks" "length (ct_outdir c) < 256" "rx_ok c" using assms by (simp_all add: ct_inv_def)
  note o = data_send_out [OF wf(1) s]
  have free: "ds_state (stream_at (ct_data c) j) = DHP_ST_FREE" if "j < DHP_DATA_MAX_STREAMS" for j
    using assms False that by (simp add: ct_inv_def owns_idle)
  define c2 where "c2 = put_data env (d, l, evs) c1"
  have rx: "rx_ok (c1\<lparr>ct_data := d, ct_link := l\<rparr>)" using wf(4) by (simp add: c1_def rx_ok_def)
  have as: "\<not> any_sent evs" using quiet_sent [OF o(1)] by (simp add: any_sent_def)
  have e: "ev_frame False (c1\<lparr>ct_data := d, ct_link := l\<rparr>) c2"
    using events_ev [of "c1\<lparr>ct_data := d, ct_link := l\<rparr>" evs env] data_send_wf [OF wf(1) s] rx quiet_reports [OF o(1)] as
    by (simp add: put_data_def c2_def)
  have k: "keeps_out d (ct_data c2) []" "data_wf (ct_data c2)" "rx_ok c2" "length (ct_outdir c2) < 256" "ct_tx_busy c2" "ct_tx_buf c2 = Some data"
    using e wf(3) by (simp_all add: ev_frame_def c1_def)
  have none: "\<not> any_sent []" by (simp add: any_sent_def)
  have res: "fst (send_owned env kind name data c) = (case r of Inl _ \<Rightarrow> c2\<lparr>ct_tx_buf := None, ct_tx_busy := False\<rparr> | Inr _ \<Rightarrow> c2)"
    using False s by (simp add: send_owned_def c1_def c2_def split: sum.split)
  show ?thesis
  proof (cases r)
    case (Inl x)
    have "d = ct_data c" using o(2) by (simp add: Inl)
    then have "owns_tx False None d" using free by (simp add: owns_idle)
    from owns_kept_idle(1) [OF this k(1)] have "owns_tx False None (ct_data c2)" .
    moreover have "da_hooks (ct_data c2) = client_hooks" using k(1) wf(2) \<open>d = ct_data c\<close> by (simp add: keeps_out_def)
    ultimately show ?thesis using k by (simp add: res Inl ct_inv_def rx_ok_def)
  next
    case (Inr i)
    have i: "i < DHP_DATA_MAX_STREAMS" "ds_state (stream_at d i) \<noteq> DHP_ST_FREE" "ds_src (stream_at d i) = data"
      "\<And>j. j \<noteq> i \<Longrightarrow> stream_at d j = stream_at (ct_data c) j" "da_hooks d = da_hooks (ct_data c)"
      using o(2) by (simp_all add: Inr)
    have "owns_tx True (Some data) d" by (rule owns_busyI [OF i(1-3)]) (simp add: i(4) free)
    from owns_kept_busy [OF this k(1)] none have "owns_tx True (Some data) (ct_data c2)" by simp
    moreover have "da_hooks (ct_data c2) = client_hooks" using k(1) wf(2) i(5) by (simp add: keeps_out_def)
    ultimately show ?thesis using k by (simp add: res Inr ct_inv_def)
  qed
qed

section \<open>Every pass\<close>

lemma on_txs_inv: "ct_inv c \<Longrightarrow> ct_inv (fold client_on_tx txs c)"
  using on_txs_eq [of txs c] by (auto intro: ct_inv_other)

lemma client_hooks_sent: "ct_inv c \<Longrightarrow> dh_on_sent (da_hooks (ct_data c))"
  by (simp add: ct_inv_def client_hooks_def)

lemma announce_inv: assumes "ct_inv c" shows "ct_inv (announce env c)"
proof -
  have "ct_inv (c\<lparr>ct_next_attach := x, ct_link := l\<rparr>)" for x l by (rule ct_inv_other [OF assms]) simp_all
  then show ?thesis using assms by (auto simp: announce_def Let_def split: prod.split intro!: on_txs_inv)
qed

lemma handle_status_inv: assumes "ct_inv c" shows "ct_inv (handle_status f c)"
  by (rule ct_inv_other [OF assms]) (simp_all add: handle_status_def Let_def split: option.split)

lemma client_frame_inv: assumes "ct_inv c" shows "ct_inv (client_frame env f c)"
proof -
  obtain d l evs where rx: "dhp_data_rx (ct_data c) (ct_link c) f (ke_now env) = (d, l, evs)" by (metis prod_cases3)
  have wf: "data_wf (ct_data c)" using assms by (simp add: ct_inv_def)
  from put_data_inv [OF assms data_rx_wf [OF wf rx] data_rx_out [OF wf client_hooks_sent [OF assms] rx]] handle_status_inv [OF assms]
  show ?thesis by (simp add: client_frame_def rx)
qed

lemma client_rx_byte_inv: assumes "ct_inv c" shows "ct_inv (client_rx_byte env b c)"
proof -
  have "ct_inv (c\<lparr>ct_link := l\<rparr>)" for l by (rule ct_inv_other [OF assms]) simp_all
  then show ?thesis by (auto simp: client_rx_byte_def Let_def split: prod.split sum.split intro!: client_frame_inv on_txs_inv)
qed

lemma client_bytes_inv: "ct_inv c \<Longrightarrow> ct_inv (fold (client_rx_byte env) bs c)"
  by (induction bs arbitrary: c) (simp_all add: client_rx_byte_inv)

lemma client_reply_inv: "ct_inv c \<Longrightarrow> ct_inv (client_reply env msg c)"
  by (auto simp: client_reply_def intro: ct_inv_other)

lemma client_peer_inv: "ct_inv c \<Longrightarrow> ct_inv (client_peer env rest c)"
  by (auto simp: client_peer_def Let_def split: option.split intro!: client_reply_inv intro: ct_inv_other)

lemma sending_reply_inv: "ct_inv c \<Longrightarrow> ct_inv (sending_reply env (send_owned env kind name data c))"
  by (simp add: sending_reply_def client_reply_inv send_owned_inv)

lemma client_ctl_inv: "ct_inv c \<Longrightarrow> ct_inv (client_ctl_handle env dgram c)"
  by (simp add: client_ctl_handle_def client_send_def client_text_def client_share_def Let_def client_reply_inv client_peer_inv
      sending_reply_inv split: option.split prod.split)

lemma poll_clipboard_inv: assumes "ct_inv c" shows "ct_inv (poll_clipboard env c)"
proof -
  have i: "ct_inv (c\<lparr>ct_next_clip_poll := t\<rparr>)" for t by (rule ct_inv_other [OF assms]) simp_all
  then have "ct_inv (remember_clip env cur (c\<lparr>ct_next_clip_poll := t\<rparr>))" for cur t
    by (rule ct_inv_other) (simp_all add: remember_clip_def)
  with i assms show ?thesis by (simp add: poll_clipboard_def Let_def send_owned_inv split: option.split)
qed

lemma client_tick_inv:
  assumes "ct_inv c" shows "ct_inv (put_data env (dhp_data_tick (ct_data c) (ct_link c) now) c)"
proof -
  obtain d l evs where t: "dhp_data_tick (ct_data c) (ct_link c) now = (d, l, evs)" by (metis prod_cases3)
  have wf: "data_wf (ct_data c)" using assms by (simp add: ct_inv_def)
  from put_data_inv [OF assms data_tick_wf [OF wf t] data_tick_out [OF wf client_hooks_sent [OF assms] t]] show ?thesis by (simp add: t)
qed

lemma client_read_inv: "ct_inv c \<Longrightarrow> client_read env c = Some c' \<Longrightarrow> ct_inv c'"
  by (auto simp: client_read_def client_bytes_inv split: option.splits)

lemma client_chores_inv: "ct_inv c \<Longrightarrow> ct_inv (client_chores env c)"
  by (auto simp: client_chores_def Let_def intro!: poll_clipboard_inv client_tick_inv announce_inv client_ctl_inv split: option.split)

lemma client_pass_inv:
  assumes "ct_inv c" "client_pass env c = Some c'" shows "ct_inv c'"
proof -
  have "ct_inv (c\<lparr>ct_kernel := ke_writes env\<rparr>)" by (rule ct_inv_other [OF assms(1)]) simp_all
  with assms(2) show ?thesis by (auto simp: client_pass_def client_read_inv client_chores_inv)
qed

lemma client_opts_outdir:
  "length (ct_outdir (ca_client a)) < 256 \<Longrightarrow> length (ct_outdir (ca_client (fold client_opt_set opts a))) < 256"
proof (induction opts arbitrary: a)
  case (Cons x opts)
  have "length (ct_outdir (ca_client (client_opt_set x a))) < 256"
    using Cons.prems snprintf_str_length [of 256] by (cases x) simp_all
  then show ?case using Cons.IH by simp
qed simp

lemma client_opts_fresh:
  "ct_tx_busy (ca_client a) = busy \<and> ct_tx_buf (ca_client a) = buf \<and> ct_rx_buf (ca_client a) = rb \<and> ct_rx_cap (ca_client a) = rc \<and>
    ct_rx_len (ca_client a) = rl \<and> ct_rx_name (ca_client a) = rn \<Longrightarrow>
   ct_tx_busy (ca_client (fold client_opt_set opts a)) = busy \<and> ct_tx_buf (ca_client (fold client_opt_set opts a)) = buf \<and>
    ct_rx_buf (ca_client (fold client_opt_set opts a)) = rb \<and> ct_rx_cap (ca_client (fold client_opt_set opts a)) = rc \<and>
    ct_rx_len (ca_client (fold client_opt_set opts a)) = rl \<and> ct_rx_name (ca_client (fold client_opt_set opts a)) = rn"
proof (induction opts arbitrary: a)
  case (Cons x opts)
  show ?case using Cons.IH [of "client_opt_set x a"] Cons.prems by (cases x) simp_all
qed simp

lemma client_boot_inv:
  assumes "client_boot bt opts = Inr c" shows "ct_inv c"
proof -
  define a where "a = fold client_opt_set opts \<lparr>ca_device = ''/dev/deskhop0'', ca_socket = None, ca_client = client_zero bt\<rparr>"
  have "length (ct_outdir (client_zero bt)) < 256" using snprintf_str_length [of 256] by (simp add: client_zero_def Let_def)
  then have o: "length (ct_outdir (ca_client a)) < 256" unfolding a_def by (intro client_opts_outdir) simp
  have f: "ct_tx_busy (ca_client a) = False \<and> ct_tx_buf (ca_client a) = None \<and> ct_rx_buf (ca_client a) = [] \<and> ct_rx_cap (ca_client a) = 0 \<and>
      ct_rx_len (ca_client a) = 0 \<and> ct_rx_name (ca_client a) = []"
    unfolding a_def by (rule client_opts_fresh) (simp add: client_zero_def Let_def)
  have "ds_state (stream_at (dhp_data_init (Some client_hooks)) j) = DHP_ST_FREE" if "j < DHP_DATA_MAX_STREAMS" for j
    using that by (simp add: dhp_data_init_def stream_at_def)
  moreover have "da_hooks (dhp_data_init (Some client_hooks)) = client_hooks" by (simp add: dhp_data_init_def)
  ultimately have "ct_inv ((ca_client a)\<lparr>ct_board := b, ct_self := x, ct_link := l, ct_data := dhp_data_init (Some client_hooks), ct_ctl := y, ct_files := z\<rparr>)" for b x l y z
    using f o data_init_wf by (simp add: ct_inv_def rx_ok_def owns_idle)
  with assms show ?thesis unfolding client_boot_def a_def [symmetric] by (auto simp: Let_def split: sum.splits prod.splits)
qed

inductive ct_step :: "client_t \<Rightarrow> client_t \<Rightarrow> bool" where
  pass: "client_pass env c = Some c' \<Longrightarrow> ct_step c c'"

inductive_cases ct_stepE: "ct_step c c'"

definition ct_start :: "client_t \<Rightarrow> bool" where
  "ct_start c \<longleftrightarrow> (\<exists>bt opts. client_boot bt opts = Inr c)"

interpretation client_daemon: transition_system ct_start ct_step ct_inv
  by unfold_locales (auto simp: ct_start_def client_boot_inv elim!: ct_stepE intro: client_pass_inv)

end
