(* ===== verification/Dhp_Exchange.thy ===== *)
theory Dhp_Exchange
  imports Dhp_Client
begin

text \<open>
  What the client daemon guarantees its user, over the model in \<open>Dhp_Client\<close>: its buffers, the files it
  may create, the clipboard that does not echo, and the delivery of a transfer.
\<close>

section \<open>Files\<close>

text \<open>A name that stays in its directory.\<close>

definition plain_name :: "string \<Rightarrow> bool" where
  "plain_name s \<longleftrightarrow> s \<noteq> [] \<and> s \<noteq> ''.'' \<and> s \<noteq> ''..'' \<and> CHR ''/'' \<notin> set s \<and> NUL \<notin> set s \<and> length s \<le> 67"

text \<open>
  Nothing that was there is touched, and what is new is private and in the output directory, whose name
  fits the 256 bytes it is kept in.
\<close>

definition path_grows :: "string \<Rightarrow> string \<Rightarrow> 'a host_file option \<Rightarrow> 'a host_file option \<Rightarrow> bool" where
  "path_grows outdir p old new \<longleftrightarrow> (case (old, new) of
       (Some f, _) \<Rightarrow> new = Some f
     | (None, None) \<Rightarrow> True
     | (None, Some f) \<Rightarrow> f_mode f AND 0x3F = 0 \<and> (\<exists>name. p = outdir @ ''/'' @ name \<and> plain_name name))"

definition files_grow :: "client_t \<Rightarrow> client_t \<Rightarrow> bool" where
  "files_grow c c' \<longleftrightarrow> ct_outdir c' = ct_outdir c \<and>
     (length (ct_outdir c) < 256 \<longrightarrow> (\<forall>p. path_grows (ct_outdir c) p (ct_files c p) (ct_files c' p)))"

lemma path_grows_refl: "path_grows outdir p x x"
  by (simp add: path_grows_def split: option.split)

lemma path_grows_trans: "path_grows outdir p x y \<Longrightarrow> path_grows outdir p y z \<Longrightarrow> path_grows outdir p x z"
  by (cases x; cases y; cases z) (simp_all add: path_grows_def)

lemma files_same: "ct_files c' = ct_files c \<Longrightarrow> ct_outdir c' = ct_outdir c \<Longrightarrow> files_grow c c'"
  by (simp add: files_grow_def path_grows_refl)

lemma files_grow_trans: "files_grow c d \<Longrightarrow> files_grow d e \<Longrightarrow> files_grow c e"
  by (simp add: files_grow_def) (blast intro: path_grows_trans)

lemma files_grow_fold: "(\<And>x c. files_grow c (f x c)) \<Longrightarrow> files_grow c (fold f xs c)"
proof (induction xs arbitrary: c)
  case (Cons x xs)
  then show ?case using files_grow_trans by fastforce
qed (simp add: files_same)

lemma safe_name_plain: "1 < cap \<Longrightarrow> cap \<le> 64 \<Longrightarrow> safe_name s cap \<noteq> [] \<and> plain_name (safe_name s cap) \<and> length (safe_name s cap) \<le> 63"
proof -
  assume cap: "1 < cap" "cap \<le> 64"
  define out where "out = map (\<lambda>ch. if safe_char ch then ch else CHR ''_'') (take (cap - 1) s)"
  have "list_all safe_char out" by (auto simp: out_def list_all_iff safe_char_def)
  then have "CHR ''/'' \<notin> set out" "NUL \<notin> set out" by (auto simp: list_all_iff safe_char_def)
  moreover have "length out \<le> 63" using cap by (simp add: out_def)
  moreover have "CHR ''/'' \<notin> set (take n ''received'')" "NUL \<notin> set (take n ''received'')" for n
    by (auto dest: in_set_takeD)
  moreover have "take (cap - 1) ''received'' \<noteq> []" "take (cap - 1) ''received'' \<noteq> ''.''" "take (cap - 1) ''received'' \<noteq> ''..''"
    using cap by (cases "cap - 1"; simp)+
  moreover have "length (take (cap - 1) ''received'') \<le> 63" using cap by simp
  moreover have "safe_name s cap = (if out = [] \<or> out = ''.'' \<or> out = ''..'' then take (cap - 1) ''received'' else out)"
    by (simp only: safe_name_def out_def [symmetric] Let_def snprintf_str_def)
  ultimately show ?thesis by (cases "out = [] \<or> out = ''.'' \<or> out = ''..''") (simp_all only: plain_name_def if_True if_False, auto)
qed

lemma digits_plain: "CHR ''/'' \<notin> set (show_u n)" "NUL \<notin> set (show_u n)"
  using show_base_ok [of 10 n] by (auto simp: show_u_def list_all_iff is_digit_def digit_val_def)

lemma rx_path_plain:
  assumes "length outdir < 256" "i < 1000" "1 < cap" "cap \<le> 64"
  shows "\<exists>name. rx_path outdir (safe_name s cap) i = outdir @ ''/'' @ name \<and> plain_name name"
proof -
  note c = safe_name_plain [OF assms(3,4), of s]
  define name where "name = safe_name s cap @ (if i = 0 then [] else ''.'' @ show_d (int i))"
  have d: "show_d (int i) = show_u i" by (simp add: show_d_def)
  have len: "length (show_u i) \<le> 3" using show_u_length [of i 3] assms(2) by simp
  have ne: "show_u i \<noteq> []" using show_base_ok [of 10 i] by (auto simp: show_u_def)
  have "length name \<le> 67" using c len by (simp add: name_def d)
  then have "rx_path outdir (safe_name s cap) i = outdir @ ''/'' @ name"
    using assms(1) by (simp add: rx_path_def snprintf_str_def name_def)
  moreover have "plain_name name"
  proof (cases "i = 0")
    case True
    then show ?thesis using c by (simp add: name_def)
  next
    case False
    then have "3 \<le> length name" using c ne by (cases "safe_name s cap"; cases "show_u i"; simp add: name_def d)
    then have "name \<noteq> ''.''" "name \<noteq> ''..''" by auto
    with \<open>length name \<le> 67\<close> c False digits_plain [of i] show ?thesis by (auto simp: plain_name_def name_def d)
  qed
  ultimately show ?thesis by blast
qed

lemma open_excl_Some:
  "open_excl creates s names i n = Some p \<Longrightarrow> s p = None \<and> creates \<and> (\<exists>j. i \<le> j \<and> j < i + n \<and> p = names j)"
proof (induction n arbitrary: i)
  case (Suc n)
  show ?case
  proof (cases "s (names i) = None")
    case True
    with Suc.prems show ?thesis by (auto split: if_splits)
  next
    case False
    then have "open_excl creates s names (i + 1) n = Some p" using Suc.prems by simp
    from Suc.IH [OF this] obtain j where "s p = None" "creates" "i + 1 \<le> j" "j < i + 1 + n" "p = names j" by blast
    then show ?thesis by (intro conjI exI [of _ j]) simp_all
  qed
qed simp

lemma store_file_grow: "files_grow c (store_file env c)"
proof (cases "open_excl (ke_creates env) (ct_files c) (rx_path (ct_outdir c) (safe_name (if ct_rx_name c \<noteq> [] then ct_rx_name c else ''received'') 64)) 0 1000")
  case None
  then show ?thesis by (simp add: store_file_def files_same)
next
  case (Some p)
  from open_excl_Some [OF Some] obtain j where p: "ct_files c p = None" "j < 1000"
      "p = rx_path (ct_outdir c) (safe_name (if ct_rx_name c \<noteq> [] then ct_rx_name c else ''received'') 64) j" by auto
  obtain name where "length (ct_outdir c) < 256 \<longrightarrow> p = ct_outdir c @ ''/'' @ name \<and> plain_name name"
    using rx_path_plain [OF _ p(2), of "ct_outdir c" 64] p(3) by fastforce
  moreover have "(0x180 AND NOT (ke_umask env)) AND 0x3F = 0"
  proof -
    have "(0x180 AND x) AND 0x3F = x AND (0x180 AND 0x3F)" for x :: u16 by (simp only: and.assoc and.left_commute)
    then show ?thesis by simp
  qed
  moreover have "ct_files (store_file env c) =
      (ct_files c)(p \<mapsto> \<lparr>f_mode = 0x180 AND NOT (ke_umask env), f_data = take (ke_written env) (rx_content c)\<rparr>)"
    using p(1) by (simp add: store_file_def Some Let_def fs_fill_def fs_create_def fun_upd_def fun_eq_iff)
  moreover have "ct_outdir (store_file env c) = ct_outdir c" by (simp add: store_file_def Some Let_def)
  ultimately show ?thesis using p(1) by (auto simp: files_grow_def path_grows_def path_grows_refl split: option.split)
qed

lemma files_grow_from: "files_grow d e \<Longrightarrow> ct_files c = ct_files d \<Longrightarrow> ct_outdir c = ct_outdir d \<Longrightarrow> files_grow c e"
  by (simp add: files_grow_def)

lemma on_tx_grow: "files_grow c (client_on_tx tx c)"
  using on_tx_eq [of tx c] by (auto intro: files_same)

lemma on_txs_grow: "files_grow c (fold client_on_tx txs c)"
  by (rule files_grow_fold) (rule on_tx_grow)

lemma put_answer_grow: "files_grow c (put_answer st c)"
proof -
  obtain d l evs where "st = (d, l, evs)" by (metis prod_cases3)
  then show ?thesis using put_answer_eq [of d l evs c] by (auto intro: files_same)
qed

lemma on_offer_grow: "files_grow c (on_offer env i kind tot name c)"
proof -
  have "files_grow c (put_answer st c1)" if "files_grow c c1" for st c1 using files_grow_trans [OF that put_answer_grow] .
  then show ?thesis by (simp add: on_offer_def Let_def files_same)
qed

lemma copy_out_grow: "files_grow c (fst (copy_out env img c))"
  by (simp add: copy_out_def Let_def files_same)

lemma remember_grow: "files_grow c d \<Longrightarrow> files_grow c (remember_clip env bs d)"
  by (erule files_grow_trans) (simp add: remember_clip_def files_same)

lemma on_received_grow: "files_grow c (on_received env r c)"
  using copy_out_grow [of c env False] copy_out_grow [of c env True] store_file_grow
  by (simp add: on_received_def case_prod_beta remember_grow files_same)

lemma on_chunk_grow: "files_grow c (on_chunk off d c)"
  by (simp add: on_chunk_def Let_def files_same)

lemma on_sent_grow: "files_grow c (on_sent c)"
  by (simp add: on_sent_def files_same)

lemma client_event_grow: "files_grow c (client_event env e c)"
  by (cases e) (simp_all only: client_event.simps on_tx_grow on_offer_grow on_received_grow on_chunk_grow on_sent_grow)

lemma put_data_grow: "files_grow c (put_data env st c)"
proof -
  obtain d l evs where st: "st = (d, l, evs)" by (metis prod_cases3)
  have "files_grow (c\<lparr>ct_data := d, ct_link := l\<rparr>) (put_data env st c)"
    unfolding put_data_def st prod.case by (rule files_grow_fold) (rule client_event_grow)
  then show ?thesis by (rule files_grow_from) simp_all
qed

lemma send_owned_grow: "files_grow c (fst (send_owned env kind name data c))"
proof (cases "ct_tx_busy c")
  case True
  then show ?thesis by (simp add: send_owned_def files_same)
next
  case False
  define c1 where "c1 = c\<lparr>ct_tx_buf := Some data, ct_tx_len := length data, ct_tx_busy := True\<rparr>"
  obtain d l evs r where s: "dhp_data_send (ct_data c1) (ct_link c1) (ct_peer c1) kind (Some name) data (ke_now env) = (d, l, evs, r)"
    by (metis prod_cases4)
  have "files_grow c c1" by (simp add: c1_def files_same)
  then have g: "files_grow c (put_data env (d, l, evs) c1)" using files_grow_trans put_data_grow by blast
  then have "files_grow c ((put_data env (d, l, evs) c1)\<lparr>ct_tx_buf := None, ct_tx_busy := False\<rparr>)"
    by (rule files_grow_trans) (simp add: files_same)
  with g show ?thesis using False by (simp add: send_owned_def c1_def [symmetric] s Let_def split: sum.split)
qed

lemma client_reply_grow: "files_grow c d \<Longrightarrow> files_grow c (client_reply env msg d)"
  by (erule files_grow_trans) (simp add: client_reply_def files_same)

lemma sending_reply_grow: "files_grow c (sending_reply env (send_owned env kind name data c))"
  by (simp add: sending_reply_def client_reply_grow send_owned_grow)

lemmas reply_grow = client_reply_grow [OF files_same [OF refl refl]]

lemma client_command_grow:
  "files_grow c (client_peer env rest c)" "files_grow c (client_send env rest c)"
  "files_grow c (client_text env rest c)" "files_grow c (client_share env rest c)"
  by (simp_all add: client_peer_def client_send_def client_text_def client_share_def Let_def reply_grow sending_reply_grow files_same
      client_reply_grow split: option.split)

lemma client_ctl_grow: "files_grow c (client_ctl_handle env dgram c)"
  by (simp add: client_ctl_handle_def reply_grow client_command_grow files_same split: option.split)

lemma client_frame_grow: "files_grow c (client_frame env f c)"
  by (simp add: client_frame_def put_data_grow handle_status_def Let_def files_same split: option.split)

lemma client_rx_byte_grow: "files_grow c (client_rx_byte env b c)"
proof -
  obtain l tx res where r: "dhp_link_rx_byte (ct_link c) DHP_PORT_UP b (ke_now env) = (l, tx, res)" by (metis prod_cases3)
  have g: "files_grow c (fold client_on_tx tx (c\<lparr>ct_link := l\<rparr>))" by (rule files_grow_trans [OF files_same on_txs_grow]) simp_all
  then show ?thesis using files_grow_trans [OF g client_frame_grow] by (simp add: client_rx_byte_def r Let_def split: sum.split)
qed

lemma announce_grow: "files_grow c (announce env c)"
proof -
  have "files_grow c (fold client_on_tx tx (c\<lparr>ct_next_attach := x, ct_link := l\<rparr>))" for tx x l
    by (rule files_grow_trans [OF files_same on_txs_grow]) simp_all
  then show ?thesis by (simp add: announce_def Let_def files_same split: prod.split)
qed

lemma poll_clipboard_grow: "files_grow c (poll_clipboard env c)"
proof -
  have "files_grow c (fst (send_owned env k n cur (remember_clip env cur (c\<lparr>ct_next_clip_poll := t\<rparr>))))" for k n cur t
    by (rule files_grow_trans [OF files_same send_owned_grow]) (simp_all add: remember_clip_def)
  then show ?thesis by (simp add: poll_clipboard_def Let_def files_same split: option.split)
qed

lemma client_chores_grow: "files_grow c (client_chores env c)"
proof -
  define c1 where "c1 = (case ke_ctl env of None \<Rightarrow> c | Some dgram \<Rightarrow> if ct_ctl c then client_ctl_handle env dgram c else c)"
  have "files_grow c c1" by (simp add: c1_def files_same client_ctl_grow split: option.split)
  then show ?thesis unfolding client_chores_def Let_def c1_def [symmetric]
    by (blast intro: files_grow_trans announce_grow put_data_grow poll_clipboard_grow)
qed

lemma client_pass_grow: assumes "client_pass env c = Some c'" shows "files_grow c c'"
proof -
  let ?c = "c\<lparr>ct_kernel := ke_writes env\<rparr>"
  from assms obtain d where d: "client_read env ?c = Some d" "c' = client_chores env d" by (auto simp: client_pass_def)
  from d(1) have "files_grow ?c d"
    by (auto simp: client_read_def files_same split: option.splits intro!: files_grow_fold client_rx_byte_grow)
  then have "files_grow c d" by (rule files_grow_from) simp_all
  then show ?thesis unfolding d(2) by (rule files_grow_trans) (rule client_chores_grow)
qed

lemma client_steps_grow: "ct_step\<^sup>*\<^sup>* c c' \<Longrightarrow> files_grow c c'"
  by (induction rule: rtranclp_induct) (auto simp: files_same elim!: ct_stepE intro: files_grow_trans client_pass_grow)

lemma client_opts_files: "ct_files (ca_client (fold client_opt_set opts a)) = ct_files (ca_client a)"
proof (induction opts arbitrary: a)
  case (Cons x opts)
  then show ?case by (cases x) simp_all
qed simp

lemma client_boot_files: assumes "client_boot bt opts = Inr c" "p \<noteq> ct_ctl_path c" shows "ct_files c p = cs_files bt p"
proof -
  have "ct_files (client_zero bt) = cs_files bt" by (simp add: client_zero_def Let_def)
  then show ?thesis using assms
    by (auto simp: client_boot_def client_opts_files client_ctl_files_def fs_unlink_def Let_def split: sum.splits prod.splits option.splits)
qed

text \<open>
  C8. Whatever the board, the other machines and the control socket send, the client never changes or
  removes a file that exists: over any run, all files there were at the start are as they were, but for the
  name of its own control socket. Every file it creates lies in the output directory under a name without a
  slash that is not \<^verbatim>\<open>.\<close>, \<^verbatim>\<open>..\<close> or empty, so that no received name escapes it, and nobody but its owner can
  read it.
\<close>

theorem received_files_confined:
  assumes "client_boot bt opts = Inr c0" "ct_step\<^sup>*\<^sup>* c0 c" "p \<noteq> ct_ctl_path c0"
  shows "case cs_files bt p of
      Some f \<Rightarrow> ct_files c p = Some f
    | None \<Rightarrow> (case ct_files c p of None \<Rightarrow> True
        | Some f \<Rightarrow> f_mode f AND 0x3F = 0 \<and> (\<exists>name. p = ct_outdir c0 @ ''/'' @ name \<and> plain_name name))"
proof -
  have "length (ct_outdir c0) < 256" using client_boot_inv [OF assms(1)] by (simp add: ct_inv_def)
  then have "path_grows (ct_outdir c0) p (cs_files bt p) (ct_files c p)"
    using client_steps_grow [OF assms(2)] client_boot_files [OF assms(1,3)] by (simp add: files_grow_def) metis
  then show ?thesis by (auto simp: path_grows_def split: option.splits)
qed

section \<open>Buffers\<close>

lemma idle_send_accepted:
  assumes "ct_inv c" "\<not> ct_tx_busy c" "data \<noteq> []" shows "snd (send_owned env kind name data c)"
proof -
  obtain d l evs r where s: "dhp_data_send (ct_data c) (ct_link c) (ct_peer c) kind (Some name) data (ke_now env) = (d, l, evs, r)"
    by (metis prod_cases4)
  have wf: "data_wf (ct_data c)" using assms(1) by (simp add: ct_inv_def)
  have "ds_state (stream_at (ct_data c) 0) = DHP_ST_FREE"
    using assms(1,2) by (simp add: ct_inv_def owns_idle DHP_DATA_MAX_STREAMS_def)
  then have "slot_free (ct_data c) True \<noteq> None" by (intro free_slot_exists [OF wf, of 0]) (simp_all add: DHP_DATA_MAX_STREAMS_def)
  with data_send_out(2) [OF wf s] assms(3) obtain i where "r = Inr i" by (cases r) auto
  then show ?thesis using assms(2) s by (simp add: send_owned_def Let_def)
qed

text \<open>
  C14. The client's buffers are safe in every state it can reach. While it is busy, exactly one outbound
  transfer is in use and reads the one buffer that was allocated for it; otherwise there is no buffer and
  no transfer that could still read a freed one, and the next send of anything is taken. What has been
  received never exceeds the receive buffer, which has the size the code believes and at most 4 MiB.
\<close>

theorem client_buffers_safe:
  assumes "client_boot bt opts = Inr c0" "ct_step\<^sup>*\<^sup>* c0 c"
  shows "(if ct_tx_busy c
      then \<exists>i < DHP_DATA_MAX_STREAMS. ds_state (stream_at (ct_data c) i) \<noteq> DHP_ST_FREE \<and>
             ct_tx_buf c = Some (ds_src (stream_at (ct_data c) i)) \<and>
             (\<forall>j < DHP_DATA_MAX_STREAMS. j \<noteq> i \<longrightarrow> ds_state (stream_at (ct_data c) j) = DHP_ST_FREE)
      else ct_tx_buf c = None \<and> (\<forall>j < DHP_DATA_MAX_STREAMS. ds_state (stream_at (ct_data c) j) = DHP_ST_FREE) \<and>
           (\<forall>env kind name data. data \<noteq> [] \<longrightarrow> snd (send_owned env kind name data c))) \<and>
    length (ct_rx_buf c) = unat (ct_rx_cap c) \<and> ct_rx_len c \<le> ct_rx_cap c \<and> ct_rx_cap c \<le> MAX_INFLIGHT"
proof -
  have start: "ct_start c0" using assms(1) by (auto simp: ct_start_def)
  note i = client_daemon.inv_reachable [OF start assms(2)]
  then have o: "owns_tx (ct_tx_busy c) (ct_tx_buf c) (ct_data c)" and r: "rx_ok c" by (simp_all add: ct_inv_def)
  show ?thesis
  proof (cases "ct_tx_busy c")
    case True
    with o obtain b i where "ct_tx_buf c = Some b" "i < DHP_DATA_MAX_STREAMS" "ds_state (stream_at (ct_data c) i) \<noteq> DHP_ST_FREE"
        "ds_src (stream_at (ct_data c) i) = b" "\<forall>j < DHP_DATA_MAX_STREAMS. ds_state (stream_at (ct_data c) j) \<noteq> DHP_ST_FREE \<longrightarrow> j = i"
      unfolding owns_tx_def by (simp only: if_True) blast
    then have "\<exists>i < DHP_DATA_MAX_STREAMS. ds_state (stream_at (ct_data c) i) \<noteq> DHP_ST_FREE \<and>
             ct_tx_buf c = Some (ds_src (stream_at (ct_data c) i)) \<and>
             (\<forall>j < DHP_DATA_MAX_STREAMS. j \<noteq> i \<longrightarrow> ds_state (stream_at (ct_data c) j) = DHP_ST_FREE)"
      by metis
    with True r show ?thesis by (simp add: rx_ok_def)
  next
    case False
    with o r idle_send_accepted [OF i] show ?thesis by (simp add: owns_idle rx_ok_def)
  qed
qed

section \<open>The clipboard does not echo\<close>

definition clip_is :: "u8 list \<Rightarrow> client_env \<Rightarrow> client_t \<Rightarrow> bool" where
  "clip_is bs env c \<longleftrightarrow> clipboard_get (ke_room env) (ke_paste env) (ct_clip c) False = Some bs"

definition remembered :: "u8 list \<Rightarrow> client_t \<Rightarrow> bool" where
  "remembered bs c \<longleftrightarrow> ct_last_clip c \<noteq> None \<and> ct_last_clip_len c = length bs \<and> take (length bs) (the (ct_last_clip c)) = bs"

definition stays_silent :: "client_env list \<Rightarrow> client_t \<Rightarrow> bool" where
  "stays_silent envs c \<longleftrightarrow> (\<exists>t. fold poll_clipboard envs c = c\<lparr>ct_next_clip_poll := t\<rparr>)"

lemma poll_remembered:
  assumes "remembered bs c" "clip_is bs env c"
  shows "\<exists>t. poll_clipboard env c = c\<lparr>ct_next_clip_poll := t\<rparr>"
proof (cases "\<not> clipboard_available (ct_clip c) \<or> ct_tx_busy c \<or> \<not> dhp_time_after (ke_now env) (ct_next_clip_poll c)")
  case True
  then have "poll_clipboard env c = c\<lparr>ct_next_clip_poll := ct_next_clip_poll c\<rparr>" by (auto simp: poll_clipboard_def)
  then show ?thesis ..
next
  case False
  then have "poll_clipboard env c = c\<lparr>ct_next_clip_poll := ke_now env + 500\<rparr>"
    using assms by (simp add: poll_clipboard_def clip_is_def remembered_def Let_def)
      (auto split: option.split)
  then show ?thesis ..
qed

lemma polls_remembered:
  assumes "remembered bs c" "\<forall>env \<in> set envs. clip_is bs env c"
  shows "\<exists>t. fold poll_clipboard envs c = c\<lparr>ct_next_clip_poll := t\<rparr>"
  using assms
proof (induction envs arbitrary: c)
  case Nil
  show ?case by (rule exI [of _ "ct_next_clip_poll c"]) simp
next
  case (Cons e envs)
  then obtain t where t: "poll_clipboard e c = c\<lparr>ct_next_clip_poll := t\<rparr>" using poll_remembered by fastforce
  have "remembered bs (poll_clipboard e c)" "\<forall>env \<in> set envs. clip_is bs env (poll_clipboard e c)"
    using Cons.prems by (simp_all add: t remembered_def clip_is_def)
  from Cons.IH [OF this] obtain u where "fold poll_clipboard envs (poll_clipboard e c) = (poll_clipboard e c)\<lparr>ct_next_clip_poll := u\<rparr>" by blast
  then show ?case by (auto simp: t)
qed

lemma data_send_tx: "dhp_data_send d l to kind name data now = (d', l', evs, r) \<Longrightarrow> \<exists>tx. evs = map EvTx tx"
  by (auto simp: dhp_data_send_def send_op_def Let_def split: if_splits option.splits prod.splits)

lemma tx_events_eq: "\<exists>w k. fold (client_event env) (map EvTx tx) c = c\<lparr>ct_wire := w, ct_kernel := k\<rparr>"
proof -
  have "fold (client_event env) (map EvTx tx) c = fold client_on_tx tx c" by (induction tx arbitrary: c) simp_all
  then show ?thesis using on_txs_eq [of tx c] by simp
qed

lemma send_owned_clip:
  "ct_last_clip (fst (send_owned env kind name data c)) = ct_last_clip c \<and>
   ct_last_clip_len (fst (send_owned env kind name data c)) = ct_last_clip_len c \<and> ct_clip (fst (send_owned env kind name data c)) = ct_clip c"
proof (cases "ct_tx_busy c")
  case True
  then show ?thesis by (simp add: send_owned_def)
next
  case False
  define c1 where "c1 = c\<lparr>ct_tx_buf := Some data, ct_tx_len := length data, ct_tx_busy := True\<rparr>"
  obtain d l evs r where s: "dhp_data_send (ct_data c1) (ct_link c1) (ct_peer c1) kind (Some name) data (ke_now env) = (d, l, evs, r)"
    by (metis prod_cases4)
  obtain tx where "evs = map EvTx tx" using data_send_tx [OF s] by blast
  with tx_events_eq [of env tx "c1\<lparr>ct_data := d, ct_link := l\<rparr>"]
  have "ct_last_clip (put_data env (d, l, evs) c1) = ct_last_clip c" "ct_last_clip_len (put_data env (d, l, evs) c1) = ct_last_clip_len c"
    "ct_clip (put_data env (d, l, evs) c1) = ct_clip c"
    by (auto simp: put_data_def c1_def)
  then show ?thesis using False by (simp add: send_owned_def c1_def [symmetric] s Let_def split: sum.split)
qed

text \<open>
  C32. The clipboard does not echo. When text arrives and the copy helper takes it, then however often
  the watcher looks while the clipboard holds that text, it sends nothing: neither the transport nor the
  link changes and not one byte goes to the board. The same holds once the watcher has seen a text of the
  user's own, so each change of the clipboard is announced at most once, and two clients do not play it
  back and forth.
\<close>

theorem clipboard_not_echoed:
  assumes "ke_room env (length bs)" "\<forall>e \<in> set envs. clip_is bs e c"
  shows "(ct_rx_kind c = DHP_DATA_TEXT \<and> rx_content c = bs \<and> clipboard_set (ke_copy env) (ct_clip c) bs False \<longrightarrow>
      stays_silent envs (on_received env DHP_DATA_OK c)) \<and>
    (\<not> ct_tx_busy c \<and> clipboard_available (ct_clip c) \<and> dhp_time_after (ke_now env) (ct_next_clip_poll c) \<and> clip_is bs env c \<longrightarrow>
      stays_silent envs (poll_clipboard env c))"
proof -
  have k: "stays_silent envs c'" if "remembered bs c'" "ct_clip c' = ct_clip c" for c'
    unfolding stays_silent_def by (rule polls_remembered [OF that(1)]) (use assms(2) that(2) in \<open>simp add: clip_is_def\<close>)
  have "stays_silent envs (on_received env DHP_DATA_OK c)"
    if "ct_rx_kind c = DHP_DATA_TEXT" "rx_content c = bs" "clipboard_set (ke_copy env) (ct_clip c) bs False"
  proof -
    define c1 where "c1 = fst (copy_out env False c)"
    have "on_received env DHP_DATA_OK c = remember_clip env bs c1" "ct_clip c1 = ct_clip c"
      using that by (simp_all add: on_received_def c1_def copy_out_def Let_def)
    then show ?thesis using assms(1) by (intro k) (simp_all add: remember_clip_def remembered_def)
  qed
  moreover have "stays_silent envs (poll_clipboard env c)"
    if w: "\<not> ct_tx_busy c" "clipboard_available (ct_clip c)" "dhp_time_after (ke_now env) (ct_next_clip_poll c)" "clip_is bs env c"
  proof (cases "remembered bs c")
    case True
    from poll_remembered [OF True w(4)] obtain t where "poll_clipboard env c = c\<lparr>ct_next_clip_poll := t\<rparr>" ..
    with True show ?thesis by (intro k) (simp_all add: remembered_def)
  next
    case False
    define c1 where "c1 = remember_clip env bs (c\<lparr>ct_next_clip_poll := ke_now env + 500\<rparr>)"
    have "poll_clipboard env c = fst (send_owned env DHP_DATA_TEXT (bytes_of ''clipboard'') bs c1)"
      using w False by (simp add: poll_clipboard_def clip_is_def remembered_def c1_def Let_def) (auto split: option.split)
    then show ?thesis using assms(1) send_owned_clip [of env DHP_DATA_TEXT "bytes_of ''clipboard''" bs c1]
      by (intro k) (simp_all add: remembered_def c1_def remember_clip_def)
  qed
  ultimately show ?thesis by blast
qed

section \<open>A concrete client\<close>

definition demo_client_boot :: client_boot_env where
  "demo_client_boot = \<lparr>cs_home = Some ''/h'', cs_wayland = False, cs_installed = (\<lambda>cmd. cmd = ''xclip''), cs_got_fd = True, cs_connect = Connected,
     cs_room = True, cs_bound = True, cs_files = [''/h/notes'' \<mapsto> \<lparr>f_mode = 0x1A4, f_data = [1, 2]\<rparr>]\<rparr>"

definition demo_client_pass :: client_env where
  "demo_client_pass = \<lparr>ke_now = 600, ke_read = None, ke_ctl = Some ''status'', ke_sender_named = True, ke_writes = [],
     ke_paste = (\<lambda>_. Some [7, 8]), ke_copy = (\<lambda>_. Some (100, 0)), ke_room = (\<lambda>_. True), ke_heap = (\<lambda>_. 0), ke_umask = 0x12,
     ke_creates = True, ke_written = 100, ke_reads = True\<rparr>"

lemma demo_client: "\<exists>c. client_boot demo_client_boot [OptAcceptFiles] = Inr c \<and> ct_accept_files c \<and> ct_data c = dhp_data_init (Some client_hooks) \<and>
  ct_outdir c = ''/h/Downloads'' \<and> ct_ctl_path c = ''/h/.deskhop-client.sock'' \<and> \<not> ct_tx_busy c \<and> ct_clip c = clipboard_autodetect False (\<lambda>cmd. cmd = ''xclip'') \<and> ct_next_clip_poll c = 0"
  by (simp add: client_boot_def demo_client_boot_def client_zero_def boardlink_open_def open_hidraw_def Let_def snprintf_str_def)

lemma demo_step: "\<exists>c'. client_pass demo_client_pass c = Some c' \<and> ct_step c c'"
proof -
  obtain c' where c': "client_pass demo_client_pass c = Some c'" by (simp add: client_pass_def client_read_def demo_client_pass_def)
  then show ?thesis using ct_step.pass [OF c'] by blast
qed

theorem received_files_confined_witness:
  "\<exists>c0 c. client_boot demo_client_boot [OptAcceptFiles] = Inr c0 \<and> client_pass demo_client_pass c0 = Some c \<and>
     ct_files c ''/h/notes'' = Some \<lparr>f_mode = 0x1A4, f_data = [1, 2]\<rparr>"
proof -
  obtain c0 where c0: "client_boot demo_client_boot [OptAcceptFiles] = Inr c0" "ct_ctl_path c0 = ''/h/.deskhop-client.sock''"
    using demo_client by blast
  obtain c where c: "client_pass demo_client_pass c0 = Some c" "ct_step c0 c" using demo_step by blast
  have "''/h/notes'' \<noteq> ct_ctl_path c0" by (simp add: c0(2))
  from received_files_confined [OF c0(1) r_into_rtranclp [of ct_step, OF c(2)] this]
  have "ct_files c ''/h/notes'' = Some \<lparr>f_mode = 0x1A4, f_data = [1, 2]\<rparr>" by (simp add: demo_client_boot_def)
  with c0(1) c(1) show ?thesis by blast
qed

theorem client_buffers_safe_witness:
  "\<exists>c0 c. client_boot demo_client_boot [OptAcceptFiles] = Inr c0 \<and> client_pass demo_client_pass c0 = Some c \<and>
     length (ct_rx_buf c) = unat (ct_rx_cap c) \<and> (ct_tx_buf c = None \<longleftrightarrow> \<not> ct_tx_busy c)"
proof -
  obtain c0 where c0: "client_boot demo_client_boot [OptAcceptFiles] = Inr c0" using demo_client by blast
  obtain c where c: "client_pass demo_client_pass c0 = Some c" "ct_step c0 c" using demo_step by blast
  from client_buffers_safe [OF c0 r_into_rtranclp, of c] c(2)
  have "length (ct_rx_buf c) = unat (ct_rx_cap c) \<and> (ct_tx_buf c = None \<longleftrightarrow> \<not> ct_tx_busy c)" by (auto split: if_splits)
  with c0 c(1) show ?thesis by (intro exI [of _ c0] exI [of _ c]) simp
qed

lemma demo_clip: "clipboard_get (\<lambda>_. True) (\<lambda>_. Some [7, 8]) (clipboard_autodetect False (\<lambda>cmd. cmd = ''xclip'')) False = Some [7, 8]"
  by (simp add: clipboard_get_def clipboard_autodetect_def snprintf_str_def Let_def clip_loop.simps [of _ _ 8192] min_def CLIP_MAX_def)

theorem clipboard_not_echoed_witness:
  "\<exists>c. client_boot demo_client_boot [OptAcceptFiles] = Inr c \<and> clip_is [7, 8] demo_client_pass c \<and>
     stays_silent [demo_client_pass, demo_client_pass\<lparr>ke_now := 1200\<rparr>] (poll_clipboard demo_client_pass c)"
proof -
  obtain c where c: "client_boot demo_client_boot [OptAcceptFiles] = Inr c" "\<not> ct_tx_busy c" "ct_next_clip_poll c = 0"
    "ct_clip c = clipboard_autodetect False (\<lambda>cmd. cmd = ''xclip'')" using demo_client by blast
  have at: "clip_is [7, 8] (demo_client_pass\<lparr>ke_now := t\<rparr>) c" for t using demo_clip by (simp add: clip_is_def demo_client_pass_def c(4))
  have p: "demo_client_pass\<lparr>ke_now := 600\<rparr> = demo_client_pass" by (simp add: demo_client_pass_def)
  have "clipboard_available (ct_clip c)" by (simp add: c(4) clipboard_available_def clipboard_autodetect_def snprintf_str_def)
  moreover have "dhp_time_after (ke_now demo_client_pass) (ct_next_clip_poll c)" by (simp add: c(3) demo_client_pass_def dhp_time_after_def dhp_time_diff_def signed_take_bit_def)
  ultimately have "stays_silent [demo_client_pass, demo_client_pass\<lparr>ke_now := 1200\<rparr>] (poll_clipboard demo_client_pass c)"
    using clipboard_not_echoed [of demo_client_pass "[7, 8]" "[demo_client_pass, demo_client_pass\<lparr>ke_now := 1200\<rparr>]" c] at [of 1200] at [of 600] c(2)
    by (simp add: p) (simp add: demo_client_pass_def)
  with c(1) at [of 600] p show ?thesis by auto
qed

end
