(* ===== verification/Dhp_Delivery.thy ===== *)
theory Dhp_Delivery
  imports Dhp_Exchange
begin

text \<open>
  A transfer from end to end on the client, over the models in \<open>Dhp_Data\<close> and \<open>Dhp_Client\<close>: the frames of
  an honest sender, lost, repeated and reordered on the way, become the clipboard text, the share location
  or the file they were.
\<close>

section \<open>What the application sees of a frame\<close>

definition app_events :: "data_event list \<Rightarrow> data_event list" where
  "app_events evs = filter (\<lambda>e. case e of EvTx _ \<Rightarrow> False | _ \<Rightarrow> True) evs"

lemma app_events_simps [simp]:
  "app_events [] = []" "app_events (xs @ ys) = app_events xs @ app_events ys" "app_events (map EvTx tx) = []"
  "app_events (EvChunk i off d # xs) = EvChunk i off d # app_events xs" "app_events (EvReceived i r # xs) = EvReceived i r # app_events xs"
  by (simp_all add: app_events_def filter_empty_conv)

lemma send_op_tx: "send_op l s oper extra now = (l1, s1, evs) \<Longrightarrow> \<exists>tx. evs = map EvTx tx"
  by (auto simp: send_op_def Let_def split: prod.splits)

lemma rx_chunk_app:
  assumes "rx_chunk d l i p now = (d', l', evs)" "\<not> ds_outbound (stream_at d i)" "i < length (da_s d)"
  shows "app_events evs = map (\<lambda>(off, b). EvChunk i off b) (chunk_log i evs) @ map (EvReceived i) (verdict_log i evs)"
proof -
  have fin: "evs' = [] \<or> evs' = [EvReceived i r]"
    if "data_finish (set_stream i s d) i r = (d1, evs')" "\<not> ds_outbound s" for s r d1 evs'
    using that assms(3) by (auto simp: data_finish_def Let_def stream_at_set split: if_splits)
  show ?thesis
    using assms(1,2)
    by (auto simp: rx_chunk_def send_ack_def Let_def stream_at_set send_op_def split: if_splits prod.splits dest!: fin)
qed

text \<open>The parts of the client that no hook of an arriving chunk reads.\<close>

definition outer :: "dhp_data_t \<Rightarrow> dhp_link_t \<Rightarrow> u8 list list \<Rightarrow> write_result list \<Rightarrow> client_t \<Rightarrow> client_t" where
  "outer d l w k c = c\<lparr>ct_data := d, ct_link := l, ct_wire := w, ct_kernel := k\<rparr>"

lemma outer_outer: "outer d l w k (outer d' l' w' k' c) = outer d l w k c"
  by (simp add: outer_def)

lemma outer_self: "outer (ct_data c) (ct_link c) (ct_wire c) (ct_kernel c) c = c"
  by (simp add: outer_def)

lemma outer_tx: "\<exists>w' k'. client_on_tx tx (outer d l w k c) = outer d l w' k' c"
  using on_tx_eq [of tx "outer d l w k c"] by (auto simp: outer_def)

lemma outer_chunk: "on_chunk off b (outer d l w k c) = outer d l w k (on_chunk off b c)"
  by (simp add: on_chunk_def outer_def Let_def)

lemma outer_content: "rx_content (outer d l w k c) = rx_content c"
  by (simp add: rx_content_def outer_def)

lemma outer_reads:
  "ct_rx_name (outer d l w k c) = ct_rx_name c" "ct_outdir (outer d l w k c) = ct_outdir c" "ct_files (outer d l w k c) = ct_files c"
  "ct_stdout (outer d l w k c) = ct_stdout c" "ct_clip (outer d l w k c) = ct_clip c" "ct_copied (outer d l w k c) = ct_copied c"
  "ct_rx_kind (outer d l w k c) = ct_rx_kind c"
  by (simp_all add: outer_def)

lemma outer_writes:
  "(outer d l w k c)\<lparr>ct_files := fs\<rparr> = outer d l w k (c\<lparr>ct_files := fs\<rparr>)"
  "(outer d l w k c)\<lparr>ct_stdout := out\<rparr> = outer d l w k (c\<lparr>ct_stdout := out\<rparr>)"
  "(outer d l w k c)\<lparr>ct_copied := cs\<rparr> = outer d l w k (c\<lparr>ct_copied := cs\<rparr>)"
  "(outer d l w k c)\<lparr>ct_last_clip := lc\<rparr> = outer d l w k (c\<lparr>ct_last_clip := lc\<rparr>)"
  "(outer d l w k c)\<lparr>ct_last_clip_len := n\<rparr> = outer d l w k (c\<lparr>ct_last_clip_len := n\<rparr>)"
  by (simp_all add: outer_def)

lemmas outer_simps = outer_reads outer_writes outer_content

lemma outer_store: "store_file env (outer d l w k c) = outer d l w k (store_file env c)"
  by (simp add: store_file_def Let_def outer_simps split: option.split)

lemma outer_copy: "copy_out env img (outer d l w k c) = (outer d l w k (fst (copy_out env img c)), snd (copy_out env img c))"
  by (simp add: copy_out_def Let_def outer_simps)

lemma outer_remember: "remember_clip env bs (outer d l w k c) = outer d l w k (remember_clip env bs c)"
  by (simp add: remember_clip_def outer_simps)

lemma outer_received: "on_received env r (outer d l w k c) = outer d l w k (on_received env r c)"
  by (simp add: on_received_def outer_store outer_copy outer_remember outer_simps case_prod_beta)

definition arrival :: "data_event \<Rightarrow> bool" where
  "arrival e \<longleftrightarrow> (case e of EvChunk _ _ _ \<Rightarrow> True | EvReceived _ _ \<Rightarrow> True | _ \<Rightarrow> False)"

lemma outer_event: "arrival e \<Longrightarrow> client_event env e (outer d l w k c) = outer d l w k (client_event env e c)"
  by (cases e) (simp_all add: arrival_def outer_chunk outer_received)

lemma events_app:
  "list_all arrival (app_events evs) \<Longrightarrow>
   \<exists>w' k'. fold (client_event env) evs (outer d l w k c) = outer d l w' k' (fold (client_event env) (app_events evs) c)"
proof (induction evs arbitrary: w k c)
  case Nil
  show ?case by (simp, blast)
next
  case (Cons e evs)
  show ?case
  proof (cases "\<exists>tx. e = EvTx tx")
    case True
    then obtain tx where e: "e = EvTx tx" ..
    obtain w' k' where t: "client_on_tx tx (outer d l w k c) = outer d l w' k' c" using outer_tx by blast
    from Cons.IH [of w' k' c] Cons.prems show ?thesis by (simp add: e t app_events_def)
  next
    case False
    then have "app_events (e # evs) = e # app_events evs" by (cases e) (simp_all add: app_events_def)
    with Cons.IH [of w k "client_event env e c"] Cons.prems show ?thesis by (simp add: outer_event)
  qed
qed

lemma client_frame_app:
  assumes "fr_type f = msg_code DHP_MSG_DATA" "dhp_data_rx (ct_data c) (ct_link c) f (ke_now env) = (d, l, evs)"
    "list_all arrival (app_events evs)"
  shows "\<exists>w k. client_frame env f c = outer d l w k (fold (client_event env) (app_events evs) c)"
proof -
  have "c\<lparr>ct_data := d, ct_link := l\<rparr> = outer d l (ct_wire c) (ct_kernel c) c" by (simp add: outer_def)
  with events_app [OF assms(3), of env d l "ct_wire c" "ct_kernel c" c] assms(1,2) show ?thesis
    by (simp add: client_frame_def put_data_def dhp_consts msg_code_def)
qed

section \<open>Chunks into the buffer\<close>

definition holds :: "u8 list \<Rightarrow> nat \<Rightarrow> client_t \<Rightarrow> bool" where
  "holds src m c \<longleftrightarrow> length src \<le> unat (ct_rx_cap c) \<and> length (ct_rx_buf c) = unat (ct_rx_cap c) \<and>
     unat (ct_rx_len c) = min (60 * m) (length src) \<and> take (60 * m) src = rx_content c"

lemma holds_all: "holds src (chunk_count src) c \<Longrightarrow> rx_content c = src"
  by (auto simp: holds_def chunk_count_def)

lemma holds_outer: "holds src m (outer d l w k c) \<longleftrightarrow> holds src m c"
  by (simp add: holds_def outer_content) (simp add: outer_def)

lemma holds_chunk:
  assumes len: "length src \<le> 3932100" and m: "m < chunk_count src" and h: "holds src m c"
  shows "\<exists>b n. on_chunk (of_nat (60 * m)) (chunk_at src m) c = c\<lparr>ct_rx_buf := b, ct_rx_len := n\<rparr> \<and>
    holds src (Suc m) (c\<lparr>ct_rx_buf := b, ct_rx_len := n\<rparr>)"
proof -
  have lt: "60 * m < length src" using chunk_count_bound [OF len m] by simp
  define x where "x = length (chunk_at src m)"
  have x: "x = min 60 (length src - 60 * m)" "60 * m + x = min (60 * Suc m) (length src)" "60 * m + x \<le> length src" "0 < x"
    using lt by (auto simp: x_def chunk_at_def)
  have o: "unat (of_nat (60 * m) :: u32) = 60 * m" using lt len by (intro unat_of_nat_small) simp
  have e: "unat (of_nat (60 * m) + of_nat x :: u32) = 60 * m + x"
    using x(3) len unat_of_nat_small [of "60 * m + x", where 'a = 32] by simp
  have rl: "unat (ct_rx_len c) = 60 * m" using h lt by (simp add: holds_def)
  have cap: "of_nat (60 * m) + of_nat x \<le> ct_rx_cap c" using h x(3) e by (simp add: holds_def word_le_nat_alt)
  have grow: "ct_rx_len c < of_nat (60 * m) + of_nat x" using rl e x(4) by (simp add: word_less_nat_alt)
  let ?b = "store_at (60 * m) (chunk_at src m) (ct_rx_buf c)" and ?n = "of_nat (60 * m) + of_nat x :: u32"
  have "on_chunk (of_nat (60 * m)) (chunk_at src m) c = c\<lparr>ct_rx_buf := ?b, ct_rx_len := ?n\<rparr>"
    using cap grow o by (simp only: on_chunk_def Let_def x_def [symmetric] if_True)
  moreover have "holds src (Suc m) (c\<lparr>ct_rx_buf := ?b, ct_rx_len := ?n\<rparr>)"
  proof -
    have pre: "take (60 * m) (ct_rx_buf c) = take (60 * m) src" using h rl by (simp add: holds_def rx_content_def)
    have l: "60 * m + x \<le> length (ct_rx_buf c)" using h x(3) by (simp add: holds_def)
    then have "take (60 * m + x) ?b = take (60 * m) src @ chunk_at src m"
    proof -
      have "length (take (60 * m) (ct_rx_buf c)) = 60 * m" using l by simp
      then show ?thesis by (simp add: store_at_def x_def) (simp add: pre)
    qed
    then have "take (60 * m + x) ?b = take (60 * Suc m) src" by (simp only: take_chunk)
    moreover have "length ?b = length (ct_rx_buf c)" using l by (intro store_at_length) (simp add: x_def)
    moreover have "length src \<le> unat (ct_rx_cap c)" "length (ct_rx_buf c) = unat (ct_rx_cap c)" using h by (simp_all add: holds_def)
    moreover have "unat ?n = 60 * m + x" by (rule e)
    ultimately show ?thesis unfolding holds_def rx_content_def x(2) [symmetric] by (simp del: of_nat_mult mult_Suc_right)
  qed
  ultimately show ?thesis by blast
qed

text \<open>One frame of the sender, while the transfer runs and after it.\<close>

lemma client_frame_running:
  assumes len: "length src \<le> 3932100" and r: "receiving i peer sid src m (ct_data c)" and h: "honest_chunk peer sid src k f"
  shows "\<exists>d l w kw. rx_state i peer sid src (expect k m) d \<and> client_frame env f c = outer d l w kw
    (if k = m then let c1 = on_chunk (of_nat (60 * m)) (chunk_at src m) c in if Suc m = chunk_count src then on_received env DHP_DATA_OK c1 else c1
     else c)"
proof -
  obtain d l evs where rx: "dhp_data_rx (ct_data c) (ct_link c) f (ke_now env) = (d, l, evs)" by (metis prod_cases3)
  note R = receivingD [OF r]
  note one = rx_honest_receiving [OF len r h rx]
  let ?d = "set_stream i ((stream_at (ct_data c) i)\<lparr>ds_last_rx := ke_now env, ds_retries := 0\<rparr>) (ct_data c)"
  have "rx_slot (ct_data c) peer sid OP_CHUNK = Some i"
    using slot_find_receiving [OF R(1-3)] R(4,5) by (simp add: rx_slot_def OP_CHUNK_def OP_ACCEPT_def OP_ACK_def OP_DONE_def)
  then have "rx_chunk ?d (ct_link c) i (put16 (of_nat k) @ chunk_at src k) (ke_now env) = (d, l, evs)" using rx honest_rx [OF h] by simp
  from rx_chunk_app [OF this] R(2,13)
  have app: "app_events evs = map (\<lambda>(off, b). EvChunk i off b) (chunk_log i evs) @ map (EvReceived i) (verdict_log i evs)"
    by (simp add: stream_at_set)
  have "list_all arrival (app_events evs)" unfolding app by (auto simp: list_all_iff arrival_def)
  moreover have "fr_type f = msg_code DHP_MSG_DATA" using h by (simp add: honest_chunk_def)
  ultimately obtain w kw where "client_frame env f c = outer d l w kw (fold (client_event env) (app_events evs) c)"
    using client_frame_app [OF _ rx] by blast
  moreover have "fold (client_event env) (app_events evs) c =
      (if k = m then let c1 = on_chunk (of_nat (60 * m)) (chunk_at src m) c in if Suc m = chunk_count src then on_received env DHP_DATA_OK c1 else c1
       else c)"
    unfolding app using one by (cases "k = m"; cases "Suc m = chunk_count src") (simp_all add: Let_def del: of_nat_mult)
  ultimately have "client_frame env f c = outer d l w kw
      (if k = m then let c1 = on_chunk (of_nat (60 * m)) (chunk_at src m) c in if Suc m = chunk_count src then on_received env DHP_DATA_OK c1 else c1
       else c)" by (rule trans [OF _ arg_cong])
  with one show ?thesis by blast
qed

lemma client_frame_over:
  assumes r: "received peer sid (ct_data c)" and h: "honest_chunk peer sid src k f"
  shows "\<exists>d l w kw. received peer sid d \<and> client_frame env f c = outer d l w kw c"
proof -
  obtain d l evs where rx: "dhp_data_rx (ct_data c) (ct_link c) f (ke_now env) = (d, l, evs)" by (metis prod_cases3)
  have o: "received peer sid d" "evs = []" using rx_honest_received [OF r h rx] by simp_all
  have "fr_type f = msg_code DHP_MSG_DATA" using h by (simp add: honest_chunk_def)
  from client_frame_app [OF this rx] o show ?thesis by auto
qed

text \<open>Where a run of frames leads from a client \<open>c\<close> that has accepted the transfer.\<close>

definition taking :: "nat \<Rightarrow> dhp_addr_t \<Rightarrow> u8 \<Rightarrow> u8 list \<Rightarrow> client_env list \<Rightarrow> client_t \<Rightarrow> nat \<Rightarrow> client_t \<Rightarrow> bool" where
  "taking i peer sid src envs c m c' \<longleftrightarrow> rx_state i peer sid src m (ct_data c') \<and>
     (\<exists>d l w kw b n. let c1 = c\<lparr>ct_rx_buf := b, ct_rx_len := n\<rparr> in holds src m c1 \<and>
        (if m < chunk_count src then c' = outer d l w kw c1
         else \<exists>env \<in> set envs. c' = outer d l w kw (on_received env DHP_DATA_OK c1)))"

lemma taking_run:
  assumes "m < chunk_count src" "rx_state i peer sid src m d" "holds src m (c\<lparr>ct_rx_buf := b, ct_rx_len := n\<rparr>)"
  shows "taking i peer sid src envs c m (outer d l w kw (c\<lparr>ct_rx_buf := b, ct_rx_len := n\<rparr>))"
proof -
  have "ct_data (outer d l w kw x) = d" for x by (simp add: outer_def)
  with assms show ?thesis unfolding taking_def Let_def by (simp only: if_True) blast
qed

lemma taking_done:
  assumes "m = chunk_count src" "rx_state i peer sid src m d" "holds src m (c\<lparr>ct_rx_buf := b, ct_rx_len := n\<rparr>)" "env \<in> set envs"
  shows "taking i peer sid src envs c m (outer d l w kw (on_received env DHP_DATA_OK (c\<lparr>ct_rx_buf := b, ct_rx_len := n\<rparr>)))"
proof -
  have "ct_data (outer d l w kw x) = d" for x by (simp add: outer_def)
  with assms show ?thesis unfolding taking_def Let_def by (simp only: less_irrefl if_False) blast
qed

lemma taking_frame:
  assumes len: "length src \<le> 3932100" and t: "taking i peer sid src envs c m c'" and h: "honest_chunk peer sid src k f" and "env \<in> set envs"
    and le: "m \<le> chunk_count src"
  shows "taking i peer sid src envs c (expect k m) (client_frame env f c')"
proof (cases "m < chunk_count src")
  case True
  from t True obtain d0 l0 w0 k0 b n where c': "c' = outer d0 l0 w0 k0 (c\<lparr>ct_rx_buf := b, ct_rx_len := n\<rparr>)"
      and hold: "holds src m (c\<lparr>ct_rx_buf := b, ct_rx_len := n\<rparr>)" and r: "receiving i peer sid src m (ct_data c')"
    by (auto simp: taking_def Let_def rx_state_def)
  let ?c = "c\<lparr>ct_rx_buf := b, ct_rx_len := n\<rparr>"
  from client_frame_running [OF len r h, of env] obtain d l w kw where st: "rx_state i peer sid src (expect k m) d"
      and fr: "client_frame env f c' = outer d l w kw
        (if k = m then let c1 = on_chunk (of_nat (60 * m)) (chunk_at src m) c' in if Suc m = chunk_count src then on_received env DHP_DATA_OK c1 else c1
         else c')" by blast
  show ?thesis
  proof (cases "k = m")
    case False
    then have "client_frame env f c' = outer d l w kw ?c" "expect k m = m" using fr by (simp_all add: c' outer_outer expect_def)
    with taking_run [OF True _ hold] st show ?thesis by simp
  next
    case km: True
    from holds_chunk [OF len True hold] obtain b' n' where
      ch: "on_chunk (of_nat (60 * m)) (chunk_at src m) ?c = ?c\<lparr>ct_rx_buf := b', ct_rx_len := n'\<rparr>"
        and hold': "holds src (Suc m) (?c\<lparr>ct_rx_buf := b', ct_rx_len := n'\<rparr>)" by blast
    have ch': "on_chunk (of_nat (60 * m)) (chunk_at src m) c' = outer d0 l0 w0 k0 (c\<lparr>ct_rx_buf := b', ct_rx_len := n'\<rparr>)"
      using ch by (simp add: c' outer_chunk)
    have e: "expect k m = Suc m" by (simp add: km expect_def)
    show ?thesis
    proof (cases "Suc m = chunk_count src")
      case last: True
      then have "client_frame env f c' = outer d l w kw (on_received env DHP_DATA_OK (c\<lparr>ct_rx_buf := b', ct_rx_len := n'\<rparr>))"
        using fr by (simp add: km ch' outer_received outer_outer del: of_nat_mult)
      with taking_done [OF last _ _ assms(4)] st hold' show ?thesis by (simp add: e)
    next
      case False
      then have "client_frame env f c' = outer d l w kw (c\<lparr>ct_rx_buf := b', ct_rx_len := n'\<rparr>)" "Suc m < chunk_count src"
        using fr True by (simp_all add: km ch' outer_outer del: of_nat_mult)
      with taking_run [of "Suc m"] st hold' show ?thesis by (simp add: e)
    qed
  qed
next
  case False
  then have m: "m = chunk_count src" "expect k m = m" using le h by (auto simp: expect_def honest_chunk_def)
  from t False have r: "received peer sid (ct_data c')" by (simp add: taking_def rx_state_def)
  from client_frame_over [OF r h, of env] obtain d l w kw where o: "received peer sid d" "client_frame env f c' = outer d l w kw c'" by blast
  from t False obtain d0 l0 w0 k0 b n e where "holds src m (c\<lparr>ct_rx_buf := b, ct_rx_len := n\<rparr>)" "e \<in> set envs"
      "c' = outer d0 l0 w0 k0 (on_received e DHP_DATA_OK (c\<lparr>ct_rx_buf := b, ct_rx_len := n\<rparr>))"
    by (auto simp: taking_def Let_def)
  with taking_done [OF m(1)] o m show ?thesis by (simp add: rx_state_def outer_outer)
qed

lemma taking_frames:
  assumes len: "length src \<le> 3932100"
  shows "taking i peer sid src envs c m c' \<Longrightarrow> m \<le> chunk_count src \<Longrightarrow>
    \<forall>(k, f, env) \<in> set fs. honest_chunk peer sid src k f \<and> env \<in> set envs \<Longrightarrow>
    taking i peer sid src envs c (fold expect (map fst fs) m) (fold (\<lambda>(k, f, env). client_frame env f) fs c')"
proof (induction fs arbitrary: m c')
  case Nil
  then show ?case by simp
next
  case (Cons x fs)
  obtain k f env where x: "x = (k, f, env)" by (metis prod_cases3)
  have h: "honest_chunk peer sid src k f" "env \<in> set envs" using Cons.prems(3) by (simp_all add: x)
  have "expect k m \<le> chunk_count src" using Cons.prems(2) h(1) by (simp add: expect_def honest_chunk_def)
  then show ?case using Cons.IH [OF taking_frame [OF len Cons.prems(1) h Cons.prems(2)]] Cons.prems(3) by (simp add: x)
qed

section \<open>The offer\<close>

definition honest_offer :: "dhp_addr_t \<Rightarrow> u8 \<Rightarrow> u8 \<Rightarrow> u8 list \<Rightarrow> u8 list \<Rightarrow> dhp_frame_t \<Rightarrow> bool" where
  "honest_offer peer sid kind name src f \<longleftrightarrow>
     fr_type f = msg_code DHP_MSG_DATA \<and> fr_src f = peer \<and> 2 \<le> fr_len f \<and> length name \<le> DHP_DATA_NAME_MAX \<and> 0 \<notin> set name \<and>
     frame_bytes f = [OP_OFFER, sid, kind] @ put32 (of_nat (length src)) @ put32 (content_crc src) @ [of_nat (length name)] @ name"

lemma offer_fields:
  fixes p :: "u8 list"
  assumes "p = [kind] @ put32 a @ put32 b @ [n] @ name"
  shows "p ! 0 = kind" "get32 (drop 1 p) = a" "get32 (drop 5 p) = b" "p ! 9 = n" "drop 10 p = name" "length p = 10 + length name"
proof -
  show "get32 (drop 1 p) = a" using assms by simp
  have "drop 5 p = put32 b @ [n] @ name" using assms by simp
  then show "get32 (drop 5 p) = b" by simp
  show "p ! 0 = kind" "p ! 9 = n" "drop 10 p = name" "length p = 10 + length name" using assms by (simp_all add: nth_append)
qed

lemma offer_rx:
  assumes wf: "data_wf d" "dh_on_offer (da_hooks d)" and h: "honest_offer peer sid kind name src f"
    and len: "src \<noteq> []" "length src \<le> 3932100" "of_nat (length src) \<le> da_max_inbound d"
    and slot: "slot_find d peer sid False = None" "slot_free d False = Some i"
  shows "dhp_data_rx d l f now = (set_stream i (stream_zero\<lparr>ds_state := DHP_ST_OFFERED, ds_outbound := False, ds_id := sid, ds_peer := peer,
      ds_kind := kind, ds_total := of_nat (length src), ds_crc := content_crc src, ds_window := da_window d,
      ds_running := ADLER_INIT, ds_last_rx := now, ds_name := name\<rparr>) d, l, [EvOffer i peer kind (of_nat (length src)) name])"
proof -
  define p where "p = drop 2 (frame_bytes f)"
  have p: "p = [kind] @ put32 (of_nat (length src)) @ put32 (content_crc src) @ [of_nat (length name)] @ name"
    using h by (simp add: p_def honest_offer_def)
  note F = offer_fields [OF p]
  have nl: "unat (of_nat (length name) :: u8) = length name" "length name \<le> DHP_DATA_NAME_MAX"
    using h unat_of_nat_small [of "length name", where 'a = 8] by (simp_all add: honest_offer_def DHP_DATA_NAME_MAX_def)
  have tot: "(of_nat (length src) :: u32) \<noteq> 0"
    using len(1,2) unat_of_nat_small [of "length src", where 'a = 32] by (auto simp: unat_eq_zero [symmetric] simp del: unat_eq_zero)
  have nz: "takeWhile (\<lambda>c. c \<noteq> 0) name = name" using h by (auto simp: honest_offer_def takeWhile_eq_all_conv)
  have "\<not> fr_len f < 2" using h by (simp add: honest_offer_def not_less)
  then have "dhp_data_rx d l f now = data_rx_offer d l peer sid p now"
    using h by (simp add: dhp_data_rx_def honest_offer_def p_def Let_def)
  then show ?thesis
    using F(1,3-6) F(2) [simplified] nl tot len(3) [folded not_less] slot wf(2) nz
    by (simp add: data_rx_offer_def Let_def OFFER_FIXED_def linorder_not_less [symmetric])
qed

lemma content_crc_Nil: "content_crc [] = ADLER_INIT"
  by (simp add: content_crc_def adler32_update_def ADLER_INIT_def)

lemma client_offer:
  assumes inv: "ct_inv c" and h: "honest_offer peer sid kind name src f"
    and len: "src \<noteq> []" "length src \<le> 3932100" "of_nat (length src) \<le> da_max_inbound (ct_data c)"
    and slot: "slot_find (ct_data c) peer sid False = None" "slot_free (ct_data c) False = Some i"
    and ok: "kind \<noteq> DHP_DATA_FILE \<or> ct_accept_files c" "ke_room env (length src)"
  shows "\<exists>d l w kw b cap. let c1 = c\<lparr>ct_rx_buf := b, ct_rx_cap := cap, ct_rx_len := 0, ct_rx_kind := kind, ct_rx_name := snprintf_str 64 (chars_of name)\<rparr>
    in receiving i peer sid src 0 d \<and> holds src 0 c1 \<and> client_frame env f c = outer d l w kw c1"
proof -
  let ?tot = "of_nat (length src) :: u32"
  have wf: "data_wf (ct_data c)" "da_hooks (ct_data c) = client_hooks" "rx_ok c" using inv by (simp_all add: ct_inv_def)
  note I = slot_free_Some [OF slot(2) wf(1)]
  obtain d1 where d1: "dhp_data_rx (ct_data c) (ct_link c) f (ke_now env) = (d1, ct_link c, [EvOffer i peer kind ?tot name])"
    and s1: "ds_state (stream_at d1 i) = DHP_ST_OFFERED" "ds_peer (stream_at d1 i) = peer" "ds_id (stream_at d1 i) = sid"
      "ds_total (stream_at d1 i) = ?tot" "ds_crc (stream_at d1 i) = content_crc src" "ds_next_seq (stream_at d1 i) = 0"
      "ds_running (stream_at d1 i) = ADLER_INIT" "length (da_s d1) = length (da_s (ct_data c))" "da_hooks d1 = client_hooks"
    using offer_rx [OF wf(1) _ h len slot] wf(2) I(1) by (simp add: client_hooks_def stream_at_set stream_zero_def)
  have i: "i < length (da_s d1)" "i < 2 * DHP_DATA_MAX_STREAMS" using I(1) s1(8) data_wfD(1) [OF wf(1)] by simp_all
  obtain d2 l2 evs where d2: "dhp_data_accept d1 (ct_link c) i (ke_now env) = (d2, l2, evs)" by (metis prod_cases3)
  have wf2: "data_wf d2" by (rule data_accept_wf [OF data_rx_wf [OF wf(1) d1] d2])
  have "by_handle d1 i = Some i" using i(2) s1(1) by (simp add: by_handle_def)
  then obtain t where t: "d2 = set_stream i ((stream_at d1 i)\<lparr>ds_state := DHP_ST_RECEIVING, ds_last_rx := ke_now env, ds_last_tx := t\<rparr>) d1"
    using d2 s1(1) by (auto simp: dhp_data_accept_def split: prod.splits dest!: send_op_outE)
  have pos: "0 < chunk_count src" using len(1) by (cases src) (simp_all add: chunk_count_def)
  have rec: "receiving i peer sid src 0 d2"
    using wf2 i(1) s1 pos by (simp add: receiving_def t stream_at_set client_hooks_def content_crc_Nil)
  have tot: "unat ?tot = length src" using len(2) by (intro unat_of_nat_small) simp
  then have max: "\<not> MAX_INFLIGHT < ?tot" using len(2) by (simp add: MAX_INFLIGHT_def word_less_nat_alt)
  define b where "b = (if ct_rx_cap c < ?tot then ct_rx_buf c @ map (ke_heap env) [unat (ct_rx_cap c)..<unat ?tot] else ct_rx_buf c)"
  define cap where "cap = (if ct_rx_cap c < ?tot then ?tot else ct_rx_cap c)"
  define c1 where "c1 = c\<lparr>ct_rx_buf := b, ct_rx_cap := cap, ct_rx_len := 0, ct_rx_kind := kind, ct_rx_name := snprintf_str 64 (chars_of name)\<rparr>"
  have "holds src 0 c1"
    using wf(3) tot by (auto simp: holds_def c1_def b_def cap_def rx_ok_def rx_content_def word_less_nat_alt)
  moreover have "\<exists>w kw. client_frame env f c = outer d2 l2 w kw c1"
  proof -
    define c0 where "c0 = c\<lparr>ct_data := d1\<rparr>"
    define c2 where "c2 = (if ct_rx_cap c < ?tot then c0\<lparr>ct_rx_buf := ct_rx_buf c0 @ map (ke_heap env) [unat (ct_rx_cap c0)..<unat ?tot], ct_rx_cap := ?tot\<rparr>
      else c0)\<lparr>ct_rx_len := 0, ct_rx_kind := kind, ct_rx_name := snprintf_str 64 (chars_of name)\<rparr>"
    have "fr_type f \<noteq> msg_code DHP_MSG_CAP" using h by (simp add: honest_offer_def msg_code_def dhp_consts)
    then have "client_frame env f c = on_offer env i kind ?tot name c0" by (simp add: client_frame_def d1 put_data_def c0_def)
    also have "\<dots> = put_answer (dhp_data_accept (ct_data c2) (ct_link c2) i (ke_now env)) c2"
      using ok max tot by (auto simp: on_offer_def Let_def c2_def c0_def)
    also have "\<dots> = put_answer (d2, l2, evs) c2" using d2 by (simp add: c2_def c0_def)
    finally obtain w kw where "client_frame env f c = outer d2 l2 w kw c2" using put_answer_eq [of d2 l2 evs c2] by (auto simp: outer_def)
    moreover have "outer d2 l2 w kw c2 = outer d2 l2 w kw c1" by (simp add: outer_def c2_def c1_def c0_def b_def cap_def)
    ultimately show ?thesis by metis
  qed
  ultimately show ?thesis using rec unfolding Let_def c1_def by blast
qed

section \<open>Delivery\<close>

lemma open_excl_free:
  "s (names j) = None \<Longrightarrow> i \<le> j \<Longrightarrow> j < i + n \<Longrightarrow> \<exists>p. open_excl True s names i n = Some p"
proof (induction n arbitrary: i)
  case (Suc n)
  show ?case
  proof (cases "s (names i) = None")
    case True
    then show ?thesis by simp
  next
    case False
    then have "i \<noteq> j" using Suc.prems(1) by auto
    then show ?thesis using Suc.IH [of "i + 1"] Suc.prems False by auto
  qed
qed simp

text \<open>The names a received file may get.\<close>

definition received_path :: "client_t \<Rightarrow> string \<Rightarrow> nat \<Rightarrow> string" where
  "received_path c name j = rx_path (ct_outdir c) (safe_name (if name \<noteq> [] then name else ''received'') 64) j"

lemma file_stored:
  assumes "ke_creates env" "length (rx_content c) \<le> ke_written env" "j < 1000" "ct_files c (received_path c (ct_rx_name c) j) = None"
  shows "\<exists>p m. ct_files c p = None \<and> ct_files (store_file env c) = (ct_files c)(p \<mapsto> \<lparr>f_mode = m, f_data = rx_content c\<rparr>) \<and>
    ct_stdout (store_file env c) = ct_stdout c @ [p]"
proof -
  let ?names = "rx_path (ct_outdir c) (safe_name (if ct_rx_name c \<noteq> [] then ct_rx_name c else ''received'') 64)"
  from open_excl_free [of "ct_files c" ?names j 0 1000] assms(3,4) obtain p where p: "open_excl True (ct_files c) ?names 0 1000 = Some p"
    by (auto simp: received_path_def)
  have n: "ct_files c p = None" using open_excl_Some [OF p] by simp
  have "ct_files (store_file env c) = (ct_files c)(p \<mapsto> \<lparr>f_mode = 0x180 AND NOT (ke_umask env), f_data = rx_content c\<rparr>)"
    "ct_stdout (store_file env c) = ct_stdout c @ [p]"
    using p n assms(1,2) by (simp_all add: store_file_def Let_def fs_fill_def fs_create_def fun_upd_def fun_eq_iff)
  with n show ?thesis by blast
qed

text \<open>What the user gets of a finished transfer.\<close>

definition outcome :: "u8 \<Rightarrow> string \<Rightarrow> u8 list \<Rightarrow> client_t \<Rightarrow> client_t \<Rightarrow> bool" where
  "outcome kind name src c c' \<longleftrightarrow>
    (kind = DHP_DATA_TEXT \<and> cb_copy_cmd (ct_clip c) \<noteq> [] \<longrightarrow> ct_copied c' = ct_copied c @ [(False, src)]) \<and>
    (kind = DHP_DATA_IMAGE \<and> cb_copy_image_cmd (ct_clip c) \<noteq> [] \<longrightarrow> ct_copied c' = ct_copied c @ [(True, src)]) \<and>
    (kind = DHP_DATA_SHARE \<longrightarrow> ct_stdout c' = ct_stdout c @ [cstr (chars_of src)]) \<and>
    (kind \<notin> {DHP_DATA_TEXT, DHP_DATA_IMAGE, DHP_DATA_SHARE} \<and> (\<exists>j < 1000. ct_files c (received_path c name j) = None) \<longrightarrow>
      (\<exists>p m. ct_files c p = None \<and> ct_files c' = (ct_files c)(p \<mapsto> \<lparr>f_mode = m, f_data = src\<rparr>) \<and> ct_stdout c' = ct_stdout c @ [p]))"

lemma received_outcome:
  assumes e: "ke_creates env" "length (rx_content c) \<le> ke_written env" "\<And>cmd. ke_copy env cmd \<noteq> None"
  shows "outcome (ct_rx_kind c) (ct_rx_name c) (rx_content c) c (on_received env DHP_DATA_OK c)"
proof -
  have copied: "ct_copied (fst (copy_out env img c)) = ct_copied c @ [(img, rx_content c)]"
    if "(if img then cb_copy_image_cmd (ct_clip c) else cb_copy_cmd (ct_clip c)) \<noteq> []" for img
    using that e(3) by (auto simp: copy_out_def Let_def)
  have rem: "ct_copied (remember_clip env bs x) = ct_copied x" for bs x by (simp add: remember_clip_def)
  have stored: "\<exists>p m. ct_files c p = None \<and> ct_files (store_file env c) = (ct_files c)(p \<mapsto> \<lparr>f_mode = m, f_data = rx_content c\<rparr>) \<and>
      ct_stdout (store_file env c) = ct_stdout c @ [p]" if "\<exists>j < 1000. ct_files c (received_path c (ct_rx_name c) j) = None"
    using file_stored [OF e(1,2)] that by blast
  consider "ct_rx_kind c = DHP_DATA_TEXT" | "ct_rx_kind c = DHP_DATA_IMAGE" | "ct_rx_kind c = DHP_DATA_SHARE"
    | "ct_rx_kind c \<notin> {DHP_DATA_TEXT, DHP_DATA_IMAGE, DHP_DATA_SHARE}" by blast
  then show ?thesis
  proof cases
    case 1
    then show ?thesis using copied [of False] by (simp add: outcome_def on_received_def data_kinds case_prod_beta rem)
  next
    case 2
    then show ?thesis using copied [of True] by (simp add: outcome_def on_received_def data_kinds)
  next
    case 4
    then show ?thesis using stored by (simp add: outcome_def on_received_def data_kinds)
  qed (simp_all add: outcome_def on_received_def data_kinds)
qed

lemma outcome_outer: "outcome kind name src c (outer d l w k c') \<longleftrightarrow> outcome kind name src c c'"
  by (simp add: outcome_def outer_reads)

lemma outcome_from:
  assumes "ct_clip c = ct_clip x" "ct_copied c = ct_copied x" "ct_stdout c = ct_stdout x" "ct_files c = ct_files x" "ct_outdir c = ct_outdir x"
  shows "outcome kind name src c c' \<longleftrightarrow> outcome kind name src x c'"
  using assms by (simp add: outcome_def received_path_def)

text \<open>Once the offer is accepted, the frames lead to the last chunk and the verdict.\<close>

lemma taking_complete:
  assumes len: "length src \<le> 3932100" and rec: "receiving i peer sid src 0 d" "holds src 0 c1"
    and fs: "\<forall>(k, f, env) \<in> set fs. honest_chunk peer sid src k f" "subseq [0..<chunk_count src] (map fst fs)"
    and c': "c' = fold (\<lambda>(k, f, env). client_frame env f) fs (outer d l w kw c1)"
  shows "\<exists>d' l' w' kw' b n k f env. (k, f, env) \<in> set fs \<and> rx_content (c1\<lparr>ct_rx_buf := b, ct_rx_len := n\<rparr>) = src \<and>
    c' = outer d' l' w' kw' (on_received env DHP_DATA_OK (c1\<lparr>ct_rx_buf := b, ct_rx_len := n\<rparr>))"
proof -
  define envs where "envs = map (\<lambda>(k, f, env). env) fs"
  have pos: "0 < chunk_count src" using receivingD(10) [OF rec(1)] .
  have self: "c1\<lparr>ct_rx_buf := ct_rx_buf c1, ct_rx_len := ct_rx_len c1\<rparr> = c1" by simp
  have "taking i peer sid src envs c1 0 (outer d l w kw c1)"
    using taking_run [OF pos, where c = c1 and b = "ct_rx_buf c1" and n = "ct_rx_len c1"] rec pos by (simp add: self rx_state_def)
  moreover have "\<forall>(k, f, env) \<in> set fs. honest_chunk peer sid src k f \<and> env \<in> set envs" using fs(1) by (force simp: envs_def)
  ultimately have "taking i peer sid src envs c1 (fold expect (map fst fs) 0) c'"
    unfolding c' by (intro taking_frames [OF len]) simp_all
  moreover have "fold expect (map fst fs) 0 = chunk_count src"
    by (rule expect_complete [OF fs(2)]) (use fs(1) in \<open>auto simp: honest_chunk_def\<close>)
  ultimately obtain d' l' w' kw' b n env where "holds src (chunk_count src) (c1\<lparr>ct_rx_buf := b, ct_rx_len := n\<rparr>)" "env \<in> set envs"
      "c' = outer d' l' w' kw' (on_received env DHP_DATA_OK (c1\<lparr>ct_rx_buf := b, ct_rx_len := n\<rparr>))"
    by (auto simp: taking_def Let_def)
  moreover from this(2) obtain k f where "(k, f, env) \<in> set fs" by (auto simp: envs_def)
  ultimately show ?thesis using holds_all by blast
qed

lemma transfer_outcome:
  assumes inv: "ct_inv c"
    and offer: "honest_offer peer sid kind name src f0" "src \<noteq> []" "length src \<le> 3932100" "of_nat (length src) \<le> da_max_inbound (ct_data c)"
    and slot: "slot_find (ct_data c) peer sid False = None" "slot_free (ct_data c) False \<noteq> None"
    and ok: "kind \<noteq> DHP_DATA_FILE \<or> ct_accept_files c" "ke_room env0 (length src)"
    and fs: "\<forall>(k, f, env) \<in> set fs. honest_chunk peer sid src k f \<and> ke_creates env \<and> length src \<le> ke_written env \<and> (\<forall>cmd. ke_copy env cmd \<noteq> None)"
      "subseq [0..<chunk_count src] (map fst fs)"
    and c': "c' = fold (\<lambda>(k, f, env). client_frame env f) fs (client_frame env0 f0 c)"
  shows "outcome kind (snprintf_str 64 (chars_of name)) src c c'"
proof -
  obtain i where i: "slot_free (ct_data c) False = Some i" using slot(2) by blast
  from client_offer [OF inv offer slot(1) i ok] obtain d l w kw b cap c1 where
    c1: "c1 = c\<lparr>ct_rx_buf := b, ct_rx_cap := cap, ct_rx_len := 0, ct_rx_kind := kind, ct_rx_name := snprintf_str 64 (chars_of name)\<rparr>"
      and rec: "receiving i peer sid src 0 d" "holds src 0 c1" "client_frame env0 f0 c = outer d l w kw c1"
    unfolding Let_def by blast
  have "\<forall>(k, f, env) \<in> set fs. honest_chunk peer sid src k f" using fs(1) by auto
  from taking_complete [OF offer(3) rec(1,2) this fs(2) c' [unfolded rec(3)]] obtain d' l' w' kw' b' n k f env where
    e: "(k, f, env) \<in> set fs" and src: "rx_content (c1\<lparr>ct_rx_buf := b', ct_rx_len := n\<rparr>) = src"
      and r: "c' = outer d' l' w' kw' (on_received env DHP_DATA_OK (c1\<lparr>ct_rx_buf := b', ct_rx_len := n\<rparr>))" by blast
  let ?c = "c1\<lparr>ct_rx_buf := b', ct_rx_len := n\<rparr>"
  have "outcome (ct_rx_kind ?c) (ct_rx_name ?c) (rx_content ?c) ?c (on_received env DHP_DATA_OK ?c)"
    by (rule received_outcome) (use fs(1) e src in auto)
  moreover have "ct_rx_kind ?c = kind" "ct_rx_name ?c = snprintf_str 64 (chars_of name)" by (simp_all add: c1)
  ultimately have "outcome kind (snprintf_str 64 (chars_of name)) src ?c c'" using src by (simp add: r outcome_outer)
  then show ?thesis by (subst outcome_from [of _ ?c]) (simp_all add: c1)
qed

text \<open>
  C6. A transfer arrives whole, from the offer to the user. Let a client in any state it can reach get the
  offer of up to 3932100 bytes and then the sender's chunks, lost, repeated and out of order on the way as
  long as they also came once in order. Then a text or an image is what the copy helper was given, the
  location of a share is what is printed, and a file, if files are accepted and a name is free, is stored
  in a new file with exactly the content, every other file being as it was, and its path is printed.
\<close>

theorem transfer_delivered:
  assumes "client_boot bt opts = Inr c0" "ct_step\<^sup>*\<^sup>* c0 c"
    and offer: "honest_offer peer sid kind name src f0" "src \<noteq> []" "length src \<le> 3932100" "of_nat (length src) \<le> da_max_inbound (ct_data c)"
    and slot: "slot_find (ct_data c) peer sid False = None" "slot_free (ct_data c) False \<noteq> None"
    and ok: "kind \<noteq> DHP_DATA_FILE \<or> ct_accept_files c" "ke_room env0 (length src)"
    and fs: "\<forall>(k, f, env) \<in> set fs. honest_chunk peer sid src k f \<and> ke_creates env \<and> length src \<le> ke_written env \<and> (\<forall>cmd. ke_copy env cmd \<noteq> None)"
      "subseq [0..<chunk_count src] (map fst fs)"
    and c': "c' = fold (\<lambda>(k, f, env). client_frame env f) fs (client_frame env0 f0 c)"
  shows "outcome kind (snprintf_str 64 (chars_of name)) src c c'"
proof -
  have "ct_inv c" using client_daemon.inv_reachable [OF _ assms(2)] assms(1) by (auto simp: ct_start_def)
  from transfer_outcome [OF this offer slot ok fs c'] show ?thesis .
qed

definition demo_file :: "u8 list" where "demo_file = [72, 105, 33]"

definition demo_file_frame :: "u8 list \<Rightarrow> dhp_frame_t" where
  "demo_file_frame b = \<lparr>fr_type = msg_code DHP_MSG_DATA, fr_ttl = 9, fr_src = 3, fr_dst = 1, fr_seq = 0, fr_len = of_nat (length b),
      fr_payload = Some b, fr_body = [], fr_body_len = 0\<rparr>"

definition demo_file_offer :: dhp_frame_t where
  "demo_file_offer = demo_file_frame ([OP_OFFER, 5, DHP_DATA_FILE] @ put32 (of_nat (length demo_file)) @ put32 (content_crc demo_file) @ [4, 46, 46, 47, 97])"

definition demo_file_chunk :: dhp_frame_t where
  "demo_file_chunk = demo_file_frame ([OP_CHUNK, 5, 0, 0] @ demo_file)"

theorem transfer_delivered_witness:
  "\<exists>c c' p m. client_boot demo_client_boot [OptAcceptFiles] = Inr c \<and>
     c' = client_frame demo_client_pass demo_file_chunk (client_frame demo_client_pass demo_file_offer c) \<and>
     ct_files c' = (ct_files c)(p \<mapsto> \<lparr>f_mode = m, f_data = demo_file\<rparr>)"
proof -
  obtain c where c: "client_boot demo_client_boot [OptAcceptFiles] = Inr c" "ct_accept_files c" "ct_data c = dhp_data_init (Some client_hooks)"
    "ct_outdir c = ''/h/Downloads''" "ct_ctl_path c = ''/h/.deskhop-client.sock''" using demo_client by blast
  let ?fs = "[(0 :: nat, demo_file_chunk, demo_client_pass)]"
  let ?c = "fold (\<lambda>(k, f, env). client_frame env f) ?fs (client_frame demo_client_pass demo_file_offer c)"
  have off: "honest_offer 3 5 DHP_DATA_FILE [46, 46, 47, 97] demo_file demo_file_offer"
    by (simp add: honest_offer_def demo_file_offer_def demo_file_frame_def frame_bytes_def demo_file_def DHP_DATA_NAME_MAX_def)
  have n: "chunk_count demo_file = 1" "chunk_at demo_file 0 = demo_file" by (simp_all add: chunk_count_def chunk_at_def demo_file_def)
  have ch: "honest_chunk 3 5 demo_file 0 demo_file_chunk"
    by (simp add: honest_chunk_def n) (simp add: demo_file_chunk_def demo_file_frame_def frame_bytes_def demo_file_def put16_def)
  have slots: "slot_find (ct_data c) 3 5 False = None" "slot_free (ct_data c) False \<noteq> None"
    by (simp_all add: c(3) slot_find_def slot_free_def slot_base_def dhp_data_init_def DHP_DATA_MAX_STREAMS_def find_idx_None_iff stream_zero_def)
  have env: "ke_creates demo_client_pass" "length demo_file \<le> ke_written demo_client_pass" "ke_copy demo_client_pass cmd \<noteq> None" "ke_room demo_client_pass x" for cmd x
    by (simp_all add: demo_client_pass_def demo_file_def)
  have fs: "\<forall>(k, f, env) \<in> set ?fs. honest_chunk 3 5 demo_file k f \<and> ke_creates env \<and> length demo_file \<le> ke_written env \<and> (\<forall>cmd. ke_copy env cmd \<noteq> None)"
    using ch env(1-3) by simp
  have sub: "subseq [0..<chunk_count demo_file] (map fst ?fs)" by (simp add: n)
  have out: "outcome DHP_DATA_FILE (snprintf_str 64 (chars_of [46, 46, 47, 97])) demo_file c ?c"
  proof (rule transfer_delivered [OF c(1) rtranclp.rtrancl_refl off _ _ _ slots _ env(4) fs sub refl])
  qed (use c(2,3) in \<open>simp_all add: demo_file_def dhp_data_init_def\<close>)
  have "ct_files c (received_path c nm 0) = None" for nm
    using client_boot_files [OF c(1)] by (simp add: demo_client_boot_def received_path_def rx_path_def snprintf_str_def c(4,5))
  then have "\<exists>j < 1000. ct_files c (received_path c nm j) = None" for nm by (intro exI [of _ 0]) simp
  with out have "\<exists>p m. ct_files ?c = (ct_files c)(p \<mapsto> \<lparr>f_mode = m, f_data = demo_file\<rparr>)" by (auto simp: outcome_def data_kinds)
  with c(1) show ?thesis by auto
qed

section \<open>Where the code differs from its comments\<close>

text \<open>
  Files are opt-in because they land on disk, says the comment in \<open>on_offer\<close>, which asks only for the kind
  \<open>DHP_DATA_FILE\<close>. A directory listing, or any kind the client does not know, is written to disk unasked.
\<close>

theorem listing_stored_unasked:
  assumes "ct_inv c" "\<not> ct_accept_files c"
    and offer: "honest_offer peer sid DHP_DATA_LIST name src f0" "src \<noteq> []" "length src \<le> 3932100" "of_nat (length src) \<le> da_max_inbound (ct_data c)"
    and slot: "slot_find (ct_data c) peer sid False = None" "slot_free (ct_data c) False \<noteq> None" and "ke_room env0 (length src)"
    and fs: "\<forall>(k, f, env) \<in> set fs. honest_chunk peer sid src k f \<and> ke_creates env \<and> length src \<le> ke_written env \<and> (\<forall>cmd. ke_copy env cmd \<noteq> None)"
      "subseq [0..<chunk_count src] (map fst fs)"
    and free: "ct_files c (received_path c (snprintf_str 64 (chars_of name)) 0) = None"
    and c': "c' = fold (\<lambda>(k, f, env). client_frame env f) fs (client_frame env0 f0 c)"
  shows "\<exists>p m. ct_files c p = None \<and> ct_files c' = (ct_files c)(p \<mapsto> \<lparr>f_mode = m, f_data = src\<rparr>)"
proof -
  have "DHP_DATA_LIST \<noteq> DHP_DATA_FILE" by (simp add: data_kinds)
  then have "outcome DHP_DATA_LIST (snprintf_str 64 (chars_of name)) src c c'"
    using transfer_outcome [OF assms(1) offer slot _ assms(9) fs c'] by blast
  moreover have "\<exists>j < 1000. ct_files c (received_path c (snprintf_str 64 (chars_of name)) j) = None" using free by (intro exI [of _ 0]) simp
  ultimately show ?thesis by (auto simp: outcome_def data_kinds)
qed

text \<open>
  A transfer the sender aborts with the code 0 ends with the verdict that all of it arrived, however little
  did.
\<close>

theorem abort_zero_counts_as_complete:
  assumes r: "receiving i peer sid src m d" and f: "fr_type f = msg_code DHP_MSG_DATA" "fr_src f = peer" "2 \<le> fr_len f" "frame_bytes f = [OP_ABORT, sid, 0]"
    and rx: "dhp_data_rx d l f now = (d', l', evs)"
  shows "verdict_log i evs = [DHP_DATA_OK] \<and> chunk_log i evs = []"
proof -
  note R = receivingD [OF r]
  have "rx_slot d peer sid OP_ABORT = Some i"
    using slot_find_receiving [OF R(1-3)] R(4,5) by (simp add: rx_slot_def OP_ABORT_def OP_ACCEPT_def OP_ACK_def OP_DONE_def)
  moreover have "\<not> fr_len f < 2" using f(3) by (simp add: not_less)
  ultimately show ?thesis
    using rx f R(2,12,13)
    by (auto simp: dhp_data_rx_def rx_dispatch_def data_finish_def stream_at_set Let_def OP_ABORT_def OP_OFFER_def OP_ACCEPT_def OP_REJECT_def
        OP_CHUNK_def OP_ACK_def OP_DONE_def DHP_DATA_OK_def split: prod.splits if_splits)
qed

text \<open>
  Once the client has taken over the board's address, it drops every further status of that board as an
  echo of its own, so the focus and the level it shows stay those of the first one.
\<close>

theorem status_after_adoption_dropped:
  assumes "dhp_local_status_unpack (frame_bytes f) = Some st" "\<not> ct_self_fixed c" "ls_self st \<noteq> DHP_ADDR_NONE" "ls_self st \<noteq> ct_self c"
    and "lk_has_key (ct_link c)" "fr_src g = ls_self st"
  shows "snd (link_accept (ct_link (handle_status f c)) DHP_PORT_UP g now) = ([], Inl DHP_ERR_AGAIN)"
  using assms by (simp add: handle_status_def link_accept_def upd_port_def Let_def)

text \<open>
  The client announces itself repeatedly so that its board can forget it and find it again, says the
  comment. On a machine that has been up for 25 days, where the clock's top bit is set, it does not once.
\<close>

theorem never_announced_after_25_days:
  assumes "ct_next_attach c = 0" "2 ^ 31 \<le> unat (ke_now env)"
  shows "announce env c = c"
  using assms by (simp add: announce_def dhp_time_after_iff)

end
