(* ===== verification/Dhp_Proxy.thy ===== *)
theory Dhp_Proxy
  imports Dhp_Client
begin

text \<open>
  From the client's link to the chain, over the models of both ends: the client's transport hands a DATA
  message to its link, \<^verbatim>\<open>on_tx\<close> of \<^verbatim>\<open>client/src/main.c\<close> writes it to the hidraw node in reports, and the
  board's proxy decodes the reports and sends what it finds on the chain.
\<close>

section \<open>The client's two copies\<close>

lemma hid_loop_rest:
  assumes "hid_loop rs data = (out, off, rs')" "list_all (\<lambda>r. r = Interrupted \<or> (\<exists>n. r = Wrote n)) rs"
    "length data \<le> 64 * length (filter (\<lambda>r. r \<noteq> Interrupted) rs)" "length data \<le> 64 * m"
  shows "list_all (\<lambda>r. r = Interrupted \<or> (\<exists>n. r = Wrote n)) rs' \<and>
    length (filter (\<lambda>r. r \<noteq> Interrupted) rs) \<le> length (filter (\<lambda>r. r \<noteq> Interrupted) rs') + m"
  using assms
proof (induction rs data arbitrary: out off rs' m rule: hid_loop.induct)
  case (6 n rs b bs)
  obtain out1 off1 where r: "hid_loop rs (drop 64 (b # bs)) = (out1, off1, rs')"
    using "6.prems"(1) by (auto simp: HID_REPORT_BYTES_def Let_def split: prod.splits)
  obtain m' where m: "m = Suc m'" using "6.prems"(4) by (cases m) auto
  have "list_all (\<lambda>r. r = Interrupted \<or> (\<exists>n. r = Wrote n)) rs' \<and>
      length (filter (\<lambda>r. r \<noteq> Interrupted) rs) \<le> length (filter (\<lambda>r. r \<noteq> Interrupted) rs') + m'"
    by (rule "6.IH" [OF refl, unfolded HID_REPORT_BYTES_def, OF r]) (use "6.prems" m in auto)
  then show ?case by (simp add: m)
qed auto

text \<open>The client's link sends on both its ports, and each copy is written to the board.\<close>

lemma client_writes_both:
  assumes "ct_board c = BOARDLINK_HIDRAW" "frame_ok f" "willing (ct_kernel c) 6"
    and w: "w = frame_wire (frame_body f LOCAL_KEY)"
    and c': "c' = fold client_on_tx [(DHP_PORT_UP, w), (DHP_PORT_DOWN, w)] c"
  shows "\<exists>ks. length ks = 2 \<and> list_all (\<lambda>rs. willing rs 3) ks \<and> ct_wire c' = ct_wire c @ write_frames ks [f, f]"
proof -
  obtain out off rs where h: "hid_loop (ct_kernel c) w = (out, off, rs)" by (metis prod_cases3)
  obtain out' off' rs' where h': "hid_loop rs w = (out', off', rs')" by (metis prod_cases3)
  have "length w \<le> 64 * 3" using frame_wire_short [OF assms(2)] by (simp add: w)
  with assms(3) hid_loop_rest [OF h, of 3] have "willing rs 3" by (simp add: willing_def)
  moreover have "willing (ct_kernel c) 3" using assms(3) by (simp add: willing_def)
  moreover have "ct_wire c' = ct_wire c @ write_frames [ct_kernel c, rs] [f, f]"
    using h h' by (simp add: c' client_on_tx_def assms(1) boardlink_write_def w)
  ultimately show ?thesis by (intro exI [of _ "[ct_kernel c, rs]"]) simp
qed

section \<open>The board's proxy\<close>

lemma client_byte_frame:
  assumes "dhp_framer_push (cl_framer cl) b (Some (cl_key cl)) = (fr, Inr f)" "fr_type f = msg_code DHP_MSG_DATA" "cl_attached cl"
  shows "\<exists>n t. client_byte now b (cl, r) = (cl\<lparr>cl_framer := fr, cl_last_rx := t, cl_n_proxied := n\<rparr>, sends_data now [(fr_dst f, frame_bytes f)] r)"
proof -
  from push_Inr [OF assms(1)] obtain body where body: "f = frame_of_body body" "shape_ok body" by auto
  have "msg_code DHP_MSG_DATA \<noteq> msg_code DHP_MSG_CAP" by (simp add: msg_code_def)
  then show ?thesis
    using assms link_send_bytes [OF body(2), folded body(1), of "rt_link r" "msg_code DHP_MSG_DATA" "fr_dst f" now]
    by (auto simp: client_byte_def handle_from_client_def sends_data_def Let_def split: prod.split)
qed

text \<open>Every DATA frame the decoder finds is sent on the chain, in order.\<close>

lemma client_bytes_proxied:
  assumes "framer_run (Some (cl_key cl)) bs (cl_framer cl) = (fr, rs)" "cl_attached cl"
    "list_all (\<lambda>f. fr_type f = msg_code DHP_MSG_DATA) (delivered rs)"
  shows "snd (fold (client_byte now) bs (cl, r)) = sends_data now (map (\<lambda>f. (fr_dst f, frame_bytes f)) (delivered rs)) r"
  using assms
proof (induction bs arbitrary: cl r rs)
  case (Cons b bs)
  obtain fr1 e where p: "dhp_framer_push (cl_framer cl) b (Some (cl_key cl)) = (fr1, e)" by fastforce
  obtain rs1 where run: "framer_run (Some (cl_key cl)) bs fr1 = (fr, rs1)" "rs = e # rs1"
    using Cons.prems(1) p by (auto split: prod.splits)
  show ?case
  proof (cases e)
    case (Inl x)
    then show ?thesis using Cons.IH [of "cl\<lparr>cl_framer := fr1\<rparr>" rs1 r] Cons.prems run by (simp add: client_byte_def p)
  next
    case (Inr f)
    then obtain n t where s: "client_byte now b (cl, r) =
        (cl\<lparr>cl_framer := fr1, cl_last_rx := t, cl_n_proxied := n\<rparr>, sends_data now [(fr_dst f, frame_bytes f)] r)"
      using client_byte_frame [of cl b fr1 f now r] p Cons.prems run by auto
    show ?thesis
      using Cons.IH [of "cl\<lparr>cl_framer := fr1, cl_last_rx := t, cl_n_proxied := n\<rparr>" rs1 "sends_data now [(fr_dst f, frame_bytes f)] r"]
        Cons.prems run by (simp add: s Inr sends_data_append [symmetric])
  qed
qed simp

text \<open>The reports of a burst, one by one.\<close>

definition rx_reports :: "dhp_time_t \<Rightarrow> u8 list list \<Rightarrow> clientlink_t \<times> dhp_router_t \<Rightarrow> clientlink_t \<times> dhp_router_t" where
  "rx_reports now reps s = fold (\<lambda>rep (cl, r). clientlink_rx_report cl r (drop 1 rep) now) reps s"

lemma rx_reports_bytes: "rx_reports now reps s = fold (client_byte now) (concat (map (drop 1) reps)) s"
  by (induction reps arbitrary: s) (auto simp: rx_reports_def clientlink_rx_report_def split: prod.split)

section \<open>From end to end\<close>

lemma link_send_next:
  assumes "lk_has_key l" "lk_tx l" "length (lk_port l) = DHP_PORT_COUNT" "frame_ok (link_frame l type dst payload len)"
    "dhp_link_send l type dst payload len now = (l', tx, res)"
  shows "lk_has_key l' \<and> lk_tx l' \<and> length (lk_port l') = DHP_PORT_COUNT \<and> lk_key l' = lk_key l \<and> lk_self l' = lk_self l \<and>
    lk_tx_seq l' = lk_tx_seq l + 1"
  using assms by (auto simp: dhp_link_send_def emit_frame_def dhp_frame_encode_eq upd_port_def Let_def)

text \<open>The wire image of a DATA message as a link sends it under a given number.\<close>

definition data_image :: "dhp_link_t \<Rightarrow> u16 \<Rightarrow> dhp_addr_t \<Rightarrow> u8 list \<Rightarrow> u8 list" where
  "data_image l seq dst p =
     frame_wire (frame_body (link_frame (l\<lparr>lk_tx_seq := seq\<rparr>) (msg_code DHP_MSG_DATA) dst (Some p) (of_nat (length p))) (lk_key l))"

definition link_up :: "dhp_link_t \<Rightarrow> bool" where
  "link_up l \<longleftrightarrow> lk_has_key l \<and> lk_tx l \<and> length (lk_port l) = DHP_PORT_COUNT"

lemma data_frame_ok: "length p \<le> DHP_MAX_PAYLOAD \<Longrightarrow> frame_ok (link_frame l (msg_code DHP_MSG_DATA) dst (Some p) (of_nat (length p)))"
  by (simp add: frame_ok_def link_frame_def dhp_consts unat_of_nat_small)

lemma data_send_image:
  assumes "link_up l" "length p \<le> DHP_MAX_PAYLOAD"
    "dhp_link_send l (msg_code DHP_MSG_DATA) dst (Some p) (of_nat (length p)) now = (l', tx, res)"
  shows "tx = [(DHP_PORT_UP, data_image l (lk_tx_seq l) dst p), (DHP_PORT_DOWN, data_image l (lk_tx_seq l) dst p)]"
    "link_up l'" "lk_tx_seq l' = lk_tx_seq l + 1" "data_image l' = data_image l"
proof -
  have l: "lk_has_key l" "lk_tx l" "length (lk_port l) = DHP_PORT_COUNT" using assms(1) by (simp_all add: link_up_def)
  note ok = data_frame_ok [OF assms(2), of l dst]
  have "l\<lparr>lk_tx_seq := lk_tx_seq l\<rparr> = l" by simp
  then show "tx = [(DHP_PORT_UP, data_image l (lk_tx_seq l) dst p), (DHP_PORT_DOWN, data_image l (lk_tx_seq l) dst p)]"
    using link_send_paired [OF l ok, of now] assms(3) by (auto simp: data_image_def)
  from link_send_next [OF l ok assms(3)]
  show "link_up l'" "lk_tx_seq l' = lk_tx_seq l + 1" "data_image l' = data_image l"
    by (simp_all add: link_up_def data_image_def link_frame_def fun_eq_iff)
qed

lemma sends_data_twice:
  assumes "link_up (rt_link r)" "length p \<le> DHP_MAX_PAYLOAD"
  defines "n \<equiv> lk_tx_seq (rt_link r)"
  shows "rt_out (sends_data now [(dst, p), (dst, p)] r) = rt_out r @ map RTx
    [(DHP_PORT_UP, data_image (rt_link r) n dst p), (DHP_PORT_DOWN, data_image (rt_link r) n dst p),
     (DHP_PORT_UP, data_image (rt_link r) (n + 1) dst p), (DHP_PORT_DOWN, data_image (rt_link r) (n + 1) dst p)]"
proof -
  obtain l1 tx1 r1 where s1: "dhp_link_send (rt_link r) (msg_code DHP_MSG_DATA) dst (Some p) (of_nat (length p)) now = (l1, tx1, r1)"
    by (metis prod_cases3)
  note o1 = data_send_image [OF assms(1,2) s1]
  obtain l2 tx2 r2 where s2: "dhp_link_send l1 (msg_code DHP_MSG_DATA) dst (Some p) (of_nat (length p)) now = (l2, tx2, r2)" by (metis prod_cases3)
  note o2 = data_send_image [OF o1(2) assms(2) s2]
  show ?thesis using s1 s2 o1 o2(1) by (simp add: sends_data_def n_def)
qed

text \<open>
  C22. What a client sends reaches the chain. A DATA message the client's link sends is written to the hidraw
  node in reports, whatever interrupts the writes; an attached board decodes them and sends the message on
  both its ports with the same destination and bytes, under its own address, key and counter. It does so
  twice: the client's link sends on both of its ports, \<^verbatim>\<open>on_tx\<close> writes both copies to the one board, and the
  board gives each a number of its own, so no peer can tell that the second is a copy.
\<close>

theorem client_message_reaches_chain:
  assumes client: "link_up (ct_link c)" "lk_key (ct_link c) = LOCAL_KEY" "ct_board c = BOARDLINK_HIDRAW" "willing (ct_kernel c) 6"
    and msg: "length p \<le> DHP_MAX_PAYLOAD" "dhp_link_send (ct_link c) (msg_code DHP_MSG_DATA) dst (Some p) (of_nat (length p)) now = (l, tx, res)"
    and c': "c' = fold client_on_tx tx (c\<lparr>ct_link := l\<rparr>)"
    and board: "cl_attached cl" "cl_key cl = LOCAL_KEY" "between_frames (cl_framer cl)" "link_up (rt_link r)"
  shows "\<exists>reps. ct_wire c' = ct_wire c @ reps \<and> list_all (\<lambda>rep. length rep = 1 + HID_REPORT_BYTES \<and> hd rep = 0) reps \<and>
    rt_out (snd (rx_reports now' reps (cl, r))) = rt_out r @ map RTx
      [(DHP_PORT_UP, data_image (rt_link r) (lk_tx_seq (rt_link r)) dst p), (DHP_PORT_DOWN, data_image (rt_link r) (lk_tx_seq (rt_link r)) dst p),
       (DHP_PORT_UP, data_image (rt_link r) (lk_tx_seq (rt_link r) + 1) dst p), (DHP_PORT_DOWN, data_image (rt_link r) (lk_tx_seq (rt_link r) + 1) dst p)]"
proof -
  define f where "f = link_frame (ct_link c) (msg_code DHP_MSG_DATA) dst (Some p) (of_nat (length p))"
  have ok: "frame_ok f" unfolding f_def by (rule data_frame_ok [OF msg(1)])
  have tx: "tx = [(DHP_PORT_UP, frame_wire (frame_body f LOCAL_KEY)), (DHP_PORT_DOWN, frame_wire (frame_body f LOCAL_KEY))]"
    using data_send_image(1) [OF client(1) msg] by (simp add: data_image_def client(2) f_def)
  obtain ks where ks: "length ks = 2" "list_all (\<lambda>rs. willing rs 3) ks" "ct_wire c' = ct_wire c @ write_frames ks [f, f]"
    using client_writes_both [OF _ ok _ refl c' [unfolded tx]] client(3,4) by auto
  have two: "list_all frame_ok [f, f]" "length ks = length [f, f]" using ok ks(1) by simp_all
  note d = write_frames_decode [OF two ks(2) board(3)]
  define g where "g = frame_of_body (frame_body f LOCAL_KEY)"
  have f: "fr_type f = msg_code DHP_MSG_DATA" "fr_dst f = dst" "frame_bytes f = p"
    using msg(1) by (simp_all add: f_def link_frame_def frame_bytes_def dhp_consts unat_of_nat_small)
  have "same_message f g" unfolding g_def by (rule frame_of_body_frame_body(1) [OF ok])
  with f have g: "fr_type g = msg_code DHP_MSG_DATA" "fr_dst g = dst" "frame_bytes g = p" unfolding same_message_def by simp_all
  define bs where "bs = concat (map (drop 1) (write_frames ks [f, f]))"
  obtain fr rs where run: "framer_run (Some LOCAL_KEY) bs (cl_framer cl) = (fr, rs)" by fastforce
  have del: "delivered rs = [g, g]" using conjunct2 [OF d] unfolding bs_def [symmetric] run by (simp add: g_def)
  have "snd (rx_reports now' (write_frames ks [f, f]) (cl, r)) = sends_data now' [(dst, p), (dst, p)] r"
    unfolding rx_reports_bytes bs_def [symmetric] using client_bytes_proxied [of cl bs fr rs now' r] run board(1,2) g by (simp add: del)
  then have "rt_out (snd (rx_reports now' (write_frames ks [f, f]) (cl, r))) = rt_out (sends_data now' [(dst, p), (dst, p)] r)" by simp
  also note sends_data_twice [OF board(4) msg(1), of now' dst]
  finally show ?thesis using ks(3) d by (intro exI [of _ "write_frames ks [f, f]"]) (simp add: HID_REPORT_BYTES_def)
qed

definition demo_proxy_client :: client_t where
  "demo_proxy_client = (client_zero \<lparr>cs_home = None, cs_wayland = False, cs_installed = (\<lambda>_. False), cs_got_fd = True, cs_connect = Connected,
       cs_room = True, cs_bound = True, cs_files = (\<lambda>_. None)\<rparr>)
     \<lparr>ct_link := dhp_link_set_key (dhp_link_init 5 True) LOCAL_KEY, ct_kernel := Interrupted # replicate 6 (Wrote 65)\<rparr>"

definition demo_proxy_router :: dhp_router_t where
  "demo_proxy_router = demo_router\<lparr>rt_link := dhp_link_set_key (dhp_link_init 7 True) (replicate 16 9)\<rparr>"

definition demo_proxy_board :: clientlink_t where
  "demo_proxy_board = clientlink_init\<lparr>cl_attached := True\<rparr>"

theorem client_message_reaches_chain_witness:
  "\<exists>reps. rt_out (snd (rx_reports 60 reps (demo_proxy_board, demo_proxy_router))) = rt_out demo_proxy_router @ map RTx
     [(DHP_PORT_UP, data_image (rt_link demo_proxy_router) 0 9 [1, 0x7E]), (DHP_PORT_DOWN, data_image (rt_link demo_proxy_router) 0 9 [1, 0x7E]),
      (DHP_PORT_UP, data_image (rt_link demo_proxy_router) 1 9 [1, 0x7E]), (DHP_PORT_DOWN, data_image (rt_link demo_proxy_router) 1 9 [1, 0x7E])]"
proof -
  have up: "link_up (dhp_link_set_key (dhp_link_init a True) k)" "lk_key (dhp_link_set_key (dhp_link_init a True) k) = take 16 k"
    "lk_tx_seq (dhp_link_set_key (dhp_link_init a True) k) = 0" for a k
    by (simp_all add: link_up_def dhp_link_set_key_def dhp_link_init_def dhp_consts)
  have c: "link_up (ct_link demo_proxy_client)" "lk_key (ct_link demo_proxy_client) = LOCAL_KEY" "ct_board demo_proxy_client = BOARDLINK_HIDRAW"
    "willing (ct_kernel demo_proxy_client) 6"
    using up by (simp_all add: demo_proxy_client_def client_zero_def Let_def LOCAL_KEY_def willing_def list_all_iff)
  obtain l tx res where s: "dhp_link_send (ct_link demo_proxy_client) (msg_code DHP_MSG_DATA) 9 (Some [1, 0x7E]) (of_nat (length [1, 0x7E :: u8])) 50 = (l, tx, res)"
    by (metis prod_cases3)
  have b: "cl_attached demo_proxy_board" "cl_key demo_proxy_board = LOCAL_KEY" "between_frames (cl_framer demo_proxy_board)"
    by (simp_all add: demo_proxy_board_def clientlink_init_def between_frames_def dhp_framer_init_def)
  have r: "link_up (rt_link demo_proxy_router)" "lk_tx_seq (rt_link demo_proxy_router) = 0" using up by (simp_all add: demo_proxy_router_def)
  from client_message_reaches_chain [OF c _ s refl b r(1), of 60] r(2) show ?thesis by (auto simp: dhp_consts)
qed

end
