(* ===== verification/Dhp_Usb.thy ===== *)
theory Dhp_Usb
  imports Dhp_Prelude
begin

text \<open>
  What a board presents to its machine, \<^verbatim>\<open>usb_descriptors.c\<close>: the device, its interfaces and endpoints, and its
  strings.  The bytes of the configuration and report descriptors come from TinyUSB's macros, which are not
  part of the repository: a macro is a constructor applied to the arguments the source gives it, and
  the lengths and sizes TinyUSB defines are the parameter \<open>tusb_sizes\<close>.  \<open>uid\<close> is what \<^verbatim>\<open>board_uid_bytes\<close> reads
  from flash.
\<close>

definition ITF_KEYBOARD :: u8 where "ITF_KEYBOARD = 0"

definition ITF_MOUSE :: u8 where "ITF_MOUSE = 1"

definition ITF_VENDOR :: u8 where "ITF_VENDOR = 2"

datatype hid_desc = DescKeyboard | DescMouse | DescVendor

definition tud_hid_descriptor_report_cb :: "u8 \<Rightarrow> hid_desc" where
  "tud_hid_descriptor_report_cb inst =
     (if inst = ITF_KEYBOARD then DescKeyboard else if inst = ITF_MOUSE then DescMouse else DescVendor)"

section \<open>Device and configuration\<close>

definition ITF_COUNT :: u8 where "ITF_COUNT = 3"

definition CFG_TUD_ENDPOINT0_SIZE :: u8 where "CFG_TUD_ENDPOINT0_SIZE = 64"

definition CFG_TUD_HID :: u8 where "CFG_TUD_HID = 3"

definition CFG_TUD_HID_EP_BUFSIZE :: u16 where "CFG_TUD_HID_EP_BUFSIZE = 64"

record tusb_desc_device =
  dd_bcdUSB :: u16
  dd_bDeviceClass :: u8
  dd_bDeviceSubClass :: u8
  dd_bDeviceProtocol :: u8
  dd_bMaxPacketSize0 :: u8
  dd_idVendor :: u16
  dd_idProduct :: u16
  dd_bcdDevice :: u16
  dd_iManufacturer :: u8
  dd_iProduct :: u8
  dd_iSerialNumber :: u8
  dd_bNumConfigurations :: u8

definition DHP_VID :: u16 where "DHP_VID = 0x1209"

definition DHP_PID :: u16 where "DHP_PID = 0x0001"

definition DHP_BCD_DEVICE :: u16 where "DHP_BCD_DEVICE = 0x0100"

definition desc_device :: tusb_desc_device where
  "desc_device = \<lparr>dd_bcdUSB = 0x0200, dd_bDeviceClass = 0, dd_bDeviceSubClass = 0, dd_bDeviceProtocol = 0,
     dd_bMaxPacketSize0 = CFG_TUD_ENDPOINT0_SIZE, dd_idVendor = DHP_VID, dd_idProduct = DHP_PID, dd_bcdDevice = DHP_BCD_DEVICE,
     dd_iManufacturer = 1, dd_iProduct = 2, dd_iSerialNumber = 3, dd_bNumConfigurations = 1\<rparr>"

record tusb_sizes =
  ts_config_len :: nat
  ts_hid_len :: nat
  ts_hid_inout_len :: nat
  ts_report_len :: "hid_desc \<Rightarrow> nat"

datatype itf_protocol = HID_ITF_PROTOCOL_NONE | HID_ITF_PROTOCOL_KEYBOARD | HID_ITF_PROTOCOL_MOUSE

datatype desc_item =
    TudConfig u8 u8 u8 nat u8 nat
  | TudHid u8 u8 itf_protocol nat u8 u16 u8
  | TudHidInout u8 u8 itf_protocol nat u8 u8 u16 u8

definition EPNUM_KEYBOARD :: u8 where "EPNUM_KEYBOARD = 0x81"

definition EPNUM_MOUSE :: u8 where "EPNUM_MOUSE = 0x82"

definition EPNUM_VENDOR_OUT :: u8 where "EPNUM_VENDOR_OUT = 0x03"

definition EPNUM_VENDOR_IN :: u8 where "EPNUM_VENDOR_IN = 0x83"

definition CONFIG_TOTAL_LEN :: "tusb_sizes \<Rightarrow> nat" where
  "CONFIG_TOTAL_LEN ts = ts_config_len ts + 2 * ts_hid_len ts + ts_hid_inout_len ts"

definition desc_configuration :: "tusb_sizes \<Rightarrow> desc_item list" where
  "desc_configuration ts =
     [TudConfig 1 ITF_COUNT 0 (CONFIG_TOTAL_LEN ts) 0 100,
      TudHid ITF_KEYBOARD 0 HID_ITF_PROTOCOL_KEYBOARD (ts_report_len ts DescKeyboard) EPNUM_KEYBOARD CFG_TUD_HID_EP_BUFSIZE 1,
      TudHid ITF_MOUSE 0 HID_ITF_PROTOCOL_MOUSE (ts_report_len ts DescMouse) EPNUM_MOUSE CFG_TUD_HID_EP_BUFSIZE 1,
      TudHidInout ITF_VENDOR 0 HID_ITF_PROTOCOL_NONE (ts_report_len ts DescVendor) EPNUM_VENDOR_OUT EPNUM_VENDOR_IN
        CFG_TUD_HID_EP_BUFSIZE 1]"

text \<open>What the macros are documented to stand for.\<close>

primrec item_len :: "tusb_sizes \<Rightarrow> desc_item \<Rightarrow> nat" where
  "item_len ts (TudConfig n itfs s len att ma) = ts_config_len ts"
| "item_len ts (TudHid i s p len ep bufsz ms) = ts_hid_len ts"
| "item_len ts (TudHidInout i s p len out in_ep bufsz ms) = ts_hid_inout_len ts"

primrec item_endpoints :: "desc_item \<Rightarrow> u8 list" where
  "item_endpoints (TudConfig n itfs s len att ma) = []"
| "item_endpoints (TudHid i s p len ep bufsz ms) = [ep]"
| "item_endpoints (TudHidInout i s p len out in_ep bufsz ms) = [out, in_ep]"

primrec item_itf :: "desc_item \<Rightarrow> (u8 \<times> nat) option" where
  "item_itf (TudConfig n itfs s len att ma) = None"
| "item_itf (TudHid i s p len ep bufsz ms) = Some (i, len)"
| "item_itf (TudHidInout i s p len out in_ep bufsz ms) = Some (i, len)"

definition tud_descriptor_device_cb :: tusb_desc_device where
  "tud_descriptor_device_cb = desc_device"

definition tud_descriptor_configuration_cb :: "tusb_sizes \<Rightarrow> u8 \<Rightarrow> desc_item list" where
  "tud_descriptor_configuration_cb ts index = desc_configuration ts"

text \<open>
  The configuration is consistent: it announces its own length and number of interfaces, the interfaces are
  numbered from zero and each announces the length of the report descriptor it will be asked for, no two
  endpoints share an address, and the strings the device refers to exist.
\<close>

theorem configuration_consistent:
  "(\<exists>rest. desc_configuration ts =
      TudConfig 1 (of_nat (length rest)) 0 (sum_list (map (item_len ts) (desc_configuration ts))) 0 100 # rest \<and>
      map (\<lambda>d. item_itf d) rest = map (\<lambda>i. Some (of_nat i, ts_report_len ts (tud_hid_descriptor_report_cb (of_nat i)))) [0..<length rest] \<and>
      length rest = unat CFG_TUD_HID) \<and>
   distinct (concat (map item_endpoints (desc_configuration ts))) \<and>
   {dd_iManufacturer desc_device, dd_iProduct desc_device, dd_iSerialNumber desc_device} = {1, 2, 3}"
  by (auto simp: desc_configuration_def CONFIG_TOTAL_LEN_def ITF_COUNT_def ITF_KEYBOARD_def ITF_MOUSE_def ITF_VENDOR_def CFG_TUD_HID_def
      EPNUM_KEYBOARD_def EPNUM_MOUSE_def EPNUM_VENDOR_IN_def EPNUM_VENDOR_OUT_def tud_hid_descriptor_report_cb_def desc_device_def upt_rec)

section \<open>Strings\<close>

definition hex_upper :: string where "hex_upper = ''0123456789ABCDEF''"

definition serial_string :: "u8 list \<Rightarrow> string" where
  "serial_string uid =
     concat (map (\<lambda>i. [hex_upper ! unat (drop_bit 4 (uid ! i) AND 0xF), hex_upper ! unat (uid ! i AND 0xF)]) [0..<8])"

definition string_desc_arr :: "string option list" where
  "string_desc_arr = [None, Some ''DeskHop+'', Some ''DeskHop+ Chain Board'', None]"

definition TUSB_DESC_STRING :: u16 where "TUSB_DESC_STRING = 3"

text \<open>The words written to \<^verbatim>\<open>_desc_str\<close>, the header first; \<open>None\<close> is the null pointer.\<close>

definition tud_descriptor_string_cb :: "u8 list \<Rightarrow> u8 \<Rightarrow> u16 list option" where
  "tud_descriptor_string_cb uid idx =
     (let desc = (\<lambda>ws. Some ((push_bit 8 TUSB_DESC_STRING OR of_nat (2 * length ws + 2)) # ws)) in
      if idx = 0 then desc [0x0409]
      else if length string_desc_arr \<le> unat idx then None
      else let str = (if idx = 3 then serial_string uid else the (string_desc_arr ! unat idx))
           in desc (map (\<lambda>c. of_nat (of_char c)) (take 31 str)))"

section \<open>Serial numbers\<close>

lemma hex_upper_inj: "(a :: u8) < 16 \<Longrightarrow> b < 16 \<Longrightarrow> hex_upper ! unat a = hex_upper ! unat b \<Longrightarrow> a = b"
proof -
  assume "a < 16" "b < 16" "hex_upper ! unat a = hex_upper ! unat b"
  moreover have "distinct hex_upper" "length hex_upper = 16" by (simp_all add: hex_upper_def)
  ultimately show "a = b" using nth_eq_iff_index_eq [of hex_upper "unat a" "unat b"] by (simp add: word_less_nat_alt word_unat_eq_iff)
qed

lemma low_nibble: "(b :: u8) AND 0xF = take_bit 4 b"
  by (simp add: take_bit_eq_mask mask_eq_exp_minus_1)

lemma nibble_less: "(b :: u8) AND 0xF < 16"
proof -
  have "unat (take_bit 4 b) = unat b mod 16" by (simp add: unsigned_take_bit_eq take_bit_eq_mod [of 4 "unat b"])
  then show ?thesis by (simp add: low_nibble word_less_nat_alt)
qed

lemma high_nibble: "drop_bit 4 (b :: u8) AND 0xF = drop_bit 4 b"
proof -
  have "take_bit 4 (drop_bit 4 b) = drop_bit 4 (take_bit 8 b)" by (simp add: take_bit_drop_bit)
  also have "take_bit 8 b = b" by (rule take_bit_word_eq_self) simp
  finally show ?thesis by (simp add: low_nibble)
qed

lemma byte_hex_inj:
  assumes "hex_upper ! unat (drop_bit 4 a AND 0xF) = hex_upper ! unat (drop_bit 4 b AND 0xF)" "hex_upper ! unat (a AND 0xF) = hex_upper ! unat (b AND 0xF)"
  shows "a = (b :: u8)"
proof -
  have "drop_bit 4 a = drop_bit 4 b" using hex_upper_inj [OF nibble_less nibble_less assms(1)] by (simp only: high_nibble)
  moreover have "take_bit 4 a = take_bit 4 b" using hex_upper_inj [OF nibble_less nibble_less assms(2)] by (simp only: low_nibble)
  ultimately show ?thesis by (metis bits_ident)
qed

lemma serial_length: "length (serial_string uid) = 16"
  by (simp add: serial_string_def upt_rec)

lemma serial_inj:
  assumes "length a = 8" "length b = 8" "serial_string a = serial_string b" shows "a = b"
proof (rule nth_equalityI)
  fix i assume "i < length a"
  then have "i = 0 \<or> i = 1 \<or> i = 2 \<or> i = 3 \<or> i = 4 \<or> i = 5 \<or> i = 6 \<or> i = 7" using assms(1) by auto
  then show "a ! i = b ! i" using assms(3) byte_hex_inj [of "a ! i" "b ! i"] by (auto simp: serial_string_def upt_rec eval_nat_numeral)
qed (use assms in simp)

text \<open>
  The strings are well formed and tell the boards apart.  Every string there is answers with a header whose
  low byte is the length of the whole and whose high byte marks it as a string, and fits the 33 words it is
  built in; others are refused; and two boards have the same serial number only if they have the same flash
  identity.
\<close>

theorem usb_strings_identify_board:
  "(if unat idx < 4
    then \<exists>ws. tud_descriptor_string_cb uid idx = Some ((0x0300 OR of_nat (2 * length ws + 2)) # ws) \<and> 0 < length ws \<and> length ws \<le> 31
    else tud_descriptor_string_cb uid idx = None) \<and>
   (length uid = 8 \<and> length uid' = 8 \<and> tud_descriptor_string_cb uid 3 = tud_descriptor_string_cb uid' 3 \<longrightarrow> uid = uid')"
proof
  have s: "serial_string u \<noteq> []" for u using serial_length [of u] by auto
  have "idx = 0 \<or> idx = 1 \<or> idx = 2 \<or> idx = 3" if "unat idx < 4"
    using that by (auto simp: unat_eq_nat_uint [symmetric] word_unat_eq_iff)
  then show "if unat idx < 4
    then \<exists>ws. tud_descriptor_string_cb uid idx = Some ((0x0300 OR of_nat (2 * length ws + 2)) # ws) \<and> 0 < length ws \<and> length ws \<le> 31
    else tud_descriptor_string_cb uid idx = None"
    by (auto simp: tud_descriptor_string_cb_def Let_def string_desc_arr_def TUSB_DESC_STRING_def serial_length s)
  have "inj (\<lambda>c :: char. of_nat (of_char c) :: u16)"
  proof (rule injI)
    fix x y :: char
    assume "(of_nat (of_char x) :: u16) = of_nat (of_char y)"
    moreover have "unat (of_nat (of_char c) :: u16) = of_char c" for c :: char
    proof -
      have "(of_char c :: nat) < 65536" using nat_of_char_less_256 [of c] by linarith
      then show ?thesis by (simp add: unat_of_nat take_bit_nat_eq_self)
    qed
    ultimately show "x = y" by (metis of_char_eq_iff)
  qed
  then show "length uid = 8 \<and> length uid' = 8 \<and> tud_descriptor_string_cb uid 3 = tud_descriptor_string_cb uid' 3 \<longrightarrow> uid = uid'"
    using serial_inj serial_length [of uid] serial_length [of uid']
    by (auto simp: tud_descriptor_string_cb_def Let_def string_desc_arr_def inj_map_eq_map)
qed

end
