(* ===== verification/Dhp_Takeover.thy ===== *)
theory Dhp_Takeover
  imports Dhp_Uhrp
begin

text \<open>
  The takeover, as a protocol between all participants of a chain: the machines of \<^verbatim>\<open>core/src/uhrp.c\<close>
  composed over the HELLO and RESIGN messages they order.
\<close>

section \<open>One evaluation, seen through the live table\<close>

text \<open>The best rank the candidate loop finds is that of a peer above the board and all other peers.\<close>

lemma fold_scan_above:
  assumes "\<forall>p \<in> set ps. up_used p \<longrightarrow> \<not> better (up_priority p) (up_uid p) (sc_best_p s) (sc_best_u s)"
  shows "sc_best_p (fold scan_peer ps s) = sc_best_p s \<and> sc_best_u (fold scan_peer ps s) = sc_best_u s"
  using assms
proof (induction ps arbitrary: s)
  case (Cons p ps)
  have "sc_best_p (scan_peer p s) = sc_best_p s \<and> sc_best_u (scan_peer p s) = sc_best_u s"
    using Cons.prems by (auto simp: scan_peer_def Let_def)
  with Cons show ?case by simp
qed simp

lemma scan_best_rank:
  assumes "q \<in> set ps" "up_used q" "better (up_priority q) (up_uid q) (sc_best_p s) (sc_best_u s)"
    and "\<forall>p \<in> set ps. up_used p \<longrightarrow> \<not> better (up_priority p) (up_uid p) (up_priority q) (up_uid q)"
  shows "sc_best_p (fold scan_peer ps s) = up_priority q \<and> sc_best_u (fold scan_peer ps s) = up_uid q"
  using assms
proof (induction ps arbitrary: s)
  case (Cons p ps)
  let ?r = "\<lambda>p. (up_priority p, up_uid p)"
  let ?s = "scan_peer p s"
  show ?case
  proof (cases "?r p = ?r q \<and> up_used p")
    case True
    then have "sc_best_p ?s = up_priority q" "sc_best_u ?s = up_uid q"
      using Cons.prems(3) by (auto simp: scan_peer_def Let_def)
    then show ?thesis using fold_scan_above [of ps ?s] Cons.prems(4) by simp
  next
    case False
    then have q: "q \<in> set ps" using Cons.prems(1,2) by auto
    have "rank_above (?r q) (sc_best_p ?s, sc_best_u ?s)"
    proof (cases "up_used p \<and> rank_above (?r p) (sc_best_p s, sc_best_u s)")
      case True
      then have "sc_best_p ?s = up_priority p" "sc_best_u ?s = up_uid p"
        by (auto simp: scan_peer_def rank_above_def Let_def)
      then show ?thesis
        using True False Cons.prems(4) election.total [of "?r p" "?r q"] by (auto simp: rank_above_def)
    next
      case False
      then have "sc_best_p ?s = sc_best_p s" "sc_best_u ?s = sc_best_u s"
        by (auto simp: scan_peer_def rank_above_def Let_def)
      then show ?thesis using Cons.prems(3) by (simp add: rank_above_def)
    qed
    then show ?thesis using Cons.IH [OF q Cons.prems(2), of ?s] Cons.prems(4) by (simp add: rank_above_def)
  qed
qed simp

lemma aged_best_rank:
  assumes "q \<in> live u now" "outranks u q"
    and "\<forall>p \<in> live u now. \<not> better (up_priority p) (up_uid p) (up_priority q) (up_uid q)"
  shows "sc_best_p (scan (peer_age u now)) = up_priority q \<and> sc_best_u (scan (peer_age u now)) = up_uid q"
  unfolding scan_def using assms aged_used [of u now]
  by (intro scan_best_rank) (auto simp: scan_init_def outranks_def Let_def)

text \<open>A board that hears an active peer follows it.\<close>

lemma reevaluate_follows:
  assumes "u_started u" "u_state u \<noteq> DHP_UHRP_ACTIVE"
    and "q \<in> live u now" "up_state q = uhrp_state_code DHP_UHRP_ACTIVE"
    and "\<forall>p \<in> live u now. up_state p = uhrp_state_code DHP_UHRP_ACTIVE \<longrightarrow> up_addr p = a"
  shows "u_state (reevaluate u now) \<in> {DHP_UHRP_STANDBY, DHP_UHRP_LISTEN} \<and> u_active (reevaluate u now) = a \<and>
    ue_broadcast_release (u_ev (reevaluate u now)) = ue_broadcast_release (u_ev u)"
proof -
  obtain i where i: "find_active_peer (peer_age u now) = Some i"
    using assms(3,4) aged_no_active [of u now] by (cases "find_active_peer (peer_age u now)") auto
  let ?q = "u_peers (peer_age u now) ! i"
  have "?q \<in> live u now" "up_state ?q = uhrp_state_code DHP_UHRP_ACTIVE"
    using find_active_peer_Some [OF i] aged_used [of u now] by auto
  then have a: "up_addr ?q = a" using assms(5) by blast
  show ?thesis
    using assms(1,2) i a by (simp add: reevaluate_def reeval_learn_def Let_def wait_state_def follow_def enter_state_def)
qed

text \<open>With the role free, a board below a live peer waits.\<close>

lemma reevaluate_waits:
  assumes "u_started u" "u_state u \<notin> {DHP_UHRP_ACTIVE, DHP_UHRP_LEARN}"
    and "q \<in> live u now" "outranks u q"
    and "\<forall>p \<in> live u now. up_state p \<noteq> uhrp_state_code DHP_UHRP_ACTIVE"
  shows "u_state (reevaluate u now) \<in> {DHP_UHRP_STANDBY, DHP_UHRP_LISTEN} \<and>
    ue_broadcast_release (u_ev (reevaluate u now)) = ue_broadcast_release (u_ev u)"
proof -
  have "find_active_peer (peer_age u now) = None" "\<not> sc_best_is_self (scan (peer_age u now))"
    using assms(3-5) aged_no_active aged_best by blast+
  then show ?thesis
    using assms(1,2) by (simp add: reevaluate_def reeval_vacant_def Let_def wait_state_def enter_state_def)
qed

text \<open>An active board without held keys resigns at once to the best peer when that one preempts.\<close>

lemma reevaluate_resigns:
  assumes "u_started u" "u_state u = DHP_UHRP_ACTIVE" "\<not> u_keys_held u"
    and "q \<in> live u now" "outranks u q" "up_flags q AND DHP_HELLO_F_PREEMPT \<noteq> 0"
    and "\<forall>p \<in> live u now. \<not> better (up_priority p) (up_uid p) (up_priority q) (up_uid q)"
    and "\<forall>p \<in> live u now. up_state p \<noteq> uhrp_state_code DHP_UHRP_ACTIVE"
  shows "u_state (reevaluate u now) = DHP_UHRP_LISTEN \<and> ue_send_resign (u_ev (reevaluate u now)) \<and>
    ue_broadcast_release (u_ev (reevaluate u now)) = ue_broadcast_release (u_ev u)"
proof -
  let ?a = "peer_age u now"
  have act: "find_active_peer ?a = None" using assms(8) aged_no_active by blast
  have best: "\<not> sc_best_is_self (scan ?a)" using assms(4,5) aged_best by blast
  have "q \<in> set (u_peers ?a)" "up_used q" using assms(4) aged_used [of u now] by auto
  then have "list_ex (wants_role (scan ?a)) (u_peers ?a)"
    using aged_best_rank [OF assms(4,5,7)] assms(6) by (auto simp: list_ex_iff wants_role_def)
  with act best assms(1-3) show ?thesis
    by (simp add: reevaluate_def reeval_active_def Let_def schedule_resign_def service_resign_def enter_state_def)
qed

section \<open>Messages\<close>

lemma other_slot:
  assumes "tbl_wf up_used up_addr ps" "i < length ps" "up_used (ps ! i)" "j < length ps" "up_used (ps ! j)" "j \<noteq> i"
  shows "up_addr (ps ! j) \<noteq> up_addr (ps ! i)"
  using assms unfolding tbl_wf_def by metis

text \<open>What a HELLO does to the table: the sender has one fresh entry, the other entries stay.\<close>

lemma hello_heard:
  assumes "uhrp_inv u" "u_started u" "src \<noteq> uc_addr (u_cfg u)" "peer_find u src \<noteq> None"
    and "ut_hold_ms (uc_timing (u_cfg u)) \<noteq> 0"
  obtains v q where "dhp_uhrp_rx_hello u src h now = reevaluate v now" "same_role u v"
    "up_addr q = src" "up_priority q = he_priority h" "up_uid q = he_uid h" "up_state q = he_state h" "up_flags q = he_flags h"
    "up_last_seen q = now" "live v now = insert q {p \<in> live u now. up_addr p \<noteq> src}" "u_active v = u_active u"
proof -
  obtain i where i: "peer_find u src = Some i" using assms(4) by blast
  then have i': "i < length (u_peers u)" "up_used (u_peers u ! i)" "up_addr (u_peers u ! i) = src"
    using peers.find_Some unfolding peer_find_def by blast+
  let ?q = "peer_refresh h now (u_peers u ! i)"
  define w where "w = (if he_state h = uhrp_state_code DHP_UHRP_ACTIVE \<and> u_active u \<noteq> src
      then u\<lparr>u_vacancy_clean := True\<rparr> else u)"
  have w: "u_cfg w = u_cfg u" "u_peers w = u_peers u" "u_active w = u_active u" "same_role u w"
    by (simp_all add: w_def same_role_def)
  let ?v = "w\<lparr>u_peers := (u_peers u)[i := ?q]\<rparr>"
  have exp: "peer_expired ?v now p = peer_expired u now p" for p by (simp add: peer_expired_def w)
  have "peer_get u src = (Some i, u)" using i by (simp add: peer_get_def tbl_get_def peer_find_def)
  then have rx: "dhp_uhrp_rx_hello u src h now = reevaluate ?v now"
    using assms(2,3) by (simp add: dhp_uhrp_rx_hello_def Let_def) (simp add: w_def)
  have wf: "tbl_wf up_used up_addr (u_peers u)" using assms(1) by (simp add: uhrp_inv_def peers_inv_def)
  have live: "live ?v now = insert ?q {p \<in> live u now. up_addr p \<noteq> src}"
  proof (intro set_eqI iffI)
    fix p assume "p \<in> live ?v now"
    then have p: "p \<in> set ((u_peers u)[i := ?q])" "up_used p" "\<not> peer_expired u now p"
      by (simp_all add: live_def exp)
    then obtain j where j: "j < length (u_peers u)" "p = (u_peers u)[i := ?q] ! j"
      by (metis in_set_conv_nth length_list_update)
    show "p \<in> insert ?q {p \<in> live u now. up_addr p \<noteq> src}"
    proof (cases "j = i")
      case False
      with j have "p = u_peers u ! j" by simp
      with False p j(1) i' other_slot [OF wf i'(1,2) j(1)] show ?thesis by (simp add: live_def)
    qed (use j i'(1) in simp)
  next
    fix p assume p: "p \<in> insert ?q {p \<in> live u now. up_addr p \<noteq> src}"
    have "p \<in> set ((u_peers u)[i := ?q])" if o: "p \<in> set (u_peers u)" "up_addr p \<noteq> src"
    proof -
      obtain j where "j < length (u_peers u)" "p = u_peers u ! j" using o(1) by (metis in_set_conv_nth)
      with o(2) i' show ?thesis by (metis length_list_update nth_list_update_neq nth_mem)
    qed
    moreover have "?q \<in> set ((u_peers u)[i := ?q])" using i'(1) by (simp add: set_update_memI)
    moreover have "\<not> peer_expired u now ?q" using assms(5)
      by (simp add: peer_expired_def peer_refresh_def dhp_time_after_delay)
    moreover have "up_used ?q" using i'(2) by (simp add: peer_refresh_def)
    ultimately show "p \<in> live ?v now" using p by (auto simp: live_def exp)
  qed
  show thesis
    by (rule that [OF rx _ _ _ _ _ _ _ live]) (use i'(3) w in \<open>simp_all add: same_role_def peer_refresh_def\<close>)
qed

text \<open>What a RESIGN does: the sender no longer counts as active, and the vacancy is clean.\<close>

lemma resign_heard:
  assumes "uhrp_inv u" "u_started u" "src = u_active u"
  obtains v where "dhp_uhrp_rx_resign u src now = reevaluate v now" "same_role u v" "u_vacancy_clean v"
    "\<forall>p \<in> live v now. \<exists>p' \<in> set (u_peers u). up_used p' \<and> up_addr p = up_addr p' \<and> up_priority p = up_priority p' \<and>
       up_uid p = up_uid p' \<and> (if up_addr p' = src then up_state p = uhrp_state_code DHP_UHRP_LISTEN else p = p')"
    "\<forall>p \<in> live u now. up_addr p \<noteq> src \<longrightarrow> p \<in> live v now"
proof -
  let ?u1 = "case peer_find u src of None \<Rightarrow> u
      | Some i \<Rightarrow> u\<lparr>u_peers := (u_peers u)[i := (u_peers u ! i)
          \<lparr>up_state := uhrp_state_code DHP_UHRP_LISTEN, up_last_seen := now\<rparr>]\<rparr>"
  let ?v = "?u1\<lparr>u_vacancy_clean := True, u_active := DHP_ADDR_NONE\<rparr>"
  have "u_active ?u1 = src" using assms(3) by (simp split: option.split)
  then have rx: "dhp_uhrp_rx_resign u src now = reevaluate ?v now"
    using assms(2) unfolding dhp_uhrp_rx_resign_def Let_def by simp
  have wf: "tbl_wf up_used up_addr (u_peers u)" using assms(1) by (simp add: uhrp_inv_def peers_inv_def)
  have cfg: "u_cfg ?v = u_cfg u" by (simp split: option.split)
  have fwd: "\<exists>p' \<in> set (u_peers u). up_used p' \<and> up_addr p = up_addr p' \<and> up_priority p = up_priority p' \<and>
      up_uid p = up_uid p' \<and> (if up_addr p' = src then up_state p = uhrp_state_code DHP_UHRP_LISTEN else p = p')"
    if "p \<in> live ?v now" for p
  proof (cases "peer_find u src")
    case None
    then show ?thesis using that peers.find_None [of src "u_peers u"] unfolding peer_find_def
      by (auto simp: live_def intro!: bexI [of _ p])
  next
    case (Some i)
    let ?q = "(u_peers u ! i)\<lparr>up_state := uhrp_state_code DHP_UHRP_LISTEN, up_last_seen := now\<rparr>"
    have i: "i < length (u_peers u)" "up_used (u_peers u ! i)" "up_addr (u_peers u ! i) = src"
      using peers.find_Some Some unfolding peer_find_def by blast+
    have "p \<in> set ((u_peers u)[i := ?q])" "up_used p" using that Some by (auto simp: live_def)
    then obtain j where j: "j < length (u_peers u)" "p = (u_peers u)[i := ?q] ! j"
      by (metis in_set_conv_nth length_list_update)
    show ?thesis
    proof (cases "j = i")
      case True
      with j i show ?thesis by (intro bexI [of _ "u_peers u ! i"]) simp_all
    next
      case False
      with j have "p = u_peers u ! j" by simp
      with False j(1) i \<open>up_used p\<close> other_slot [OF wf i(1,2) j(1)] show ?thesis by (intro bexI [of _ p]) simp_all
    qed
  qed
  have bwd: "p \<in> live ?v now" if p: "p \<in> live u now" "up_addr p \<noteq> src" for p
  proof (cases "peer_find u src")
    case (Some i)
    have i: "i < length (u_peers u)" "up_addr (u_peers u ! i) = src"
      using peers.find_Some Some unfolding peer_find_def by blast+
    obtain j where "j < length (u_peers u)" "p = u_peers u ! j"
      using p(1) by (auto simp: live_def in_set_conv_nth)
    with p(2) i have "p \<in> set ((u_peers u)[i := q])" for q by (metis length_list_update nth_list_update_neq nth_mem)
    with p Some show ?thesis by (simp add: live_def peer_expired_def)
  qed (use p in \<open>simp add: live_def peer_expired_def\<close>)
  show thesis
    by (rule that [OF rx]) (use fwd bwd in \<open>auto simp: same_role_def split: option.split\<close>)
qed

section \<open>The field\<close>

text \<open>An entry tells the truth about a participant, and every table lists exactly the others.\<close>

abbreviation (input) addr_of :: "dhp_uhrp_t \<Rightarrow> dhp_addr_t" where
  "addr_of u \<equiv> uc_addr (u_cfg u)"

definition tells :: "dhp_uhrp_peer_t \<Rightarrow> dhp_uhrp_t \<Rightarrow> bool" where
  "tells p u \<longleftrightarrow> up_addr p = addr_of u \<and> (up_priority p, up_uid p) = rank_of u \<and>
     (up_state p = uhrp_state_code DHP_UHRP_ACTIVE \<longleftrightarrow> u_state u = DHP_UHRP_ACTIVE)"

definition table_true :: "dhp_time_t \<Rightarrow> dhp_uhrp_t list \<Rightarrow> nat \<Rightarrow> bool" where
  "table_true now us i \<longleftrightarrow>
     (\<forall>p \<in> set (u_peers (us ! i)). up_used p \<longrightarrow> (\<exists>j < length us. j \<noteq> i \<and> tells p (us ! j))) \<and>
     (\<forall>j < length us. j \<noteq> i \<longrightarrow> (\<exists>p \<in> live (us ! i) now. tells p (us ! j)))"

text \<open>A chain at rest: participant \<open>a\<close> is active, all others follow it, and the tables are right.\<close>

definition at_rest :: "dhp_time_t \<Rightarrow> dhp_uhrp_t list \<Rightarrow> nat \<Rightarrow> bool" where
  "at_rest now us a \<longleftrightarrow> a < length us \<and> distinct (map addr_of us) \<and>
     (\<forall>i < length us. uhrp_inv (us ! i) \<and> u_started (us ! i) \<and> ut_hold_ms (uc_timing (u_cfg (us ! i))) \<noteq> 0 \<and>
        (u_state (us ! i) = DHP_UHRP_ACTIVE \<longleftrightarrow> i = a) \<and> u_active (us ! i) = addr_of (us ! a) \<and> table_true now us i)"

text \<open>A participant's HELLO, or its RESIGN, as it reaches all the others.\<close>

definition hello_round :: "nat \<Rightarrow> dhp_time_t \<Rightarrow> dhp_uhrp_t list \<Rightarrow> dhp_uhrp_t list" where
  "hello_round s now us =
     map (\<lambda>i. if i = s then us ! i
             else dhp_uhrp_rx_hello (us ! i) (addr_of (us ! s)) (dhp_uhrp_build_hello (us ! s)) now) [0..<length us]"

definition resign_round :: "nat \<Rightarrow> dhp_time_t \<Rightarrow> dhp_uhrp_t list \<Rightarrow> dhp_uhrp_t list" where
  "resign_round s now us =
     map (\<lambda>i. if i = s then us ! i else dhp_uhrp_rx_resign (us ! i) (addr_of (us ! s)) now) [0..<length us]"

lemma round_length [simp]: "length (hello_round s now us) = length us" "length (resign_round s now us) = length us"
  by (simp_all add: hello_round_def resign_round_def)

lemma round_nth [simp]:
  "i < length us \<Longrightarrow> hello_round s now us ! i =
     (if i = s then us ! i else dhp_uhrp_rx_hello (us ! i) (addr_of (us ! s)) (dhp_uhrp_build_hello (us ! s)) now)"
  "i < length us \<Longrightarrow> resign_round s now us ! i =
     (if i = s then us ! i else dhp_uhrp_rx_resign (us ! i) (addr_of (us ! s)) now)"
  by (simp_all add: hello_round_def resign_round_def)

lemma distinct_addr: "distinct (map addr_of us) \<Longrightarrow> i < length us \<Longrightarrow> j < length us \<Longrightarrow> addr_of (us ! i) = addr_of (us ! j) \<longleftrightarrow> i = j"
  using nth_eq_iff_index_eq [of "map addr_of us" i j] by simp

text \<open>Round by round: first everybody has heard the newcomer, and nobody but the active board has changed its mind.\<close>

definition heard :: "dhp_time_t \<Rightarrow> dhp_uhrp_t list \<Rightarrow> nat \<Rightarrow> nat \<Rightarrow> nat \<Rightarrow> dhp_uhrp_t \<Rightarrow> bool" where
  "heard t us a c i u \<longleftrightarrow> uhrp_inv u \<and> u_started u \<and> u_cfg u = u_cfg (us ! i) \<and>
     u_state u \<in> {DHP_UHRP_STANDBY, DHP_UHRP_LISTEN} \<and> (i \<noteq> a \<longrightarrow> u_active u = addr_of (us ! a)) \<and>
     ue_broadcast_release (u_ev u) = ue_broadcast_release (u_ev (us ! i)) \<and>
     (\<forall>p \<in> set (u_peers u). up_used p \<longrightarrow> (\<exists>j < length us. j \<noteq> i \<and> up_addr p = addr_of (us ! j) \<and>
        (up_priority p, up_uid p) = rank_of (us ! j) \<and> (up_state p = uhrp_state_code DHP_UHRP_ACTIVE \<longrightarrow> j = a))) \<and>
     (i \<noteq> c \<longrightarrow> (\<exists>q \<in> set (u_peers u). up_used q \<and> up_addr q = addr_of (us ! c) \<and>
        (up_priority q, up_uid q) = rank_of (us ! c) \<and> up_last_seen q = t))"

lemma outranks_rank: "outranks u p \<longleftrightarrow> rank_above (up_priority p, up_uid p) (rank_of u)"
  by (simp add: outranks_def rank_above_def rank_of_def)

lemma at_restD:
  assumes "at_rest now us a" "i < length us"
  shows "uhrp_inv (us ! i)" "u_started (us ! i)" "ut_hold_ms (uc_timing (u_cfg (us ! i))) \<noteq> 0"
    "u_state (us ! i) = DHP_UHRP_ACTIVE \<longleftrightarrow> i = a" "u_active (us ! i) = addr_of (us ! a)" "table_true now us i"
    "distinct (map addr_of us)" "a < length us"
  using assms by (auto simp: at_rest_def)

lemma at_rest_tells:
  assumes "at_rest now us a" "i < length us" "p \<in> set (u_peers (us ! i))" "up_used p"
  obtains j where "j < length us" "j \<noteq> i" "up_addr p = addr_of (us ! j)" "(up_priority p, up_uid p) = rank_of (us ! j)"
    "up_state p = uhrp_state_code DHP_UHRP_ACTIVE \<longleftrightarrow> j = a"
proof -
  obtain j where j: "j < length us" "j \<noteq> i" "tells p (us ! j)"
    using at_restD(6) [OF assms(1,2)] assms(3,4) by (auto simp: table_true_def)
  with at_restD(4) [OF assms(1) j(1)] that show thesis by (simp add: tells_def)
qed

lemma hello_round_heard:
  assumes rest: "at_rest t us a" and c: "c < length us" "c \<noteq> a" "u_state (us ! c) = DHP_UHRP_STANDBY" "uc_preempt (u_cfg (us ! c))"
    and top: "\<forall>i < length us. i \<noteq> c \<longrightarrow> rank_above (rank_of (us ! c)) (rank_of (us ! i))"
    and idle: "\<not> u_keys_held (us ! a)" and i: "i < length us"
  shows "heard t us a c i (hello_round c t us ! i) \<and> (i = a \<longrightarrow> ue_send_resign (u_ev (hello_round c t us ! i)))"
proof (cases "i = c")
  case True
  have "\<exists>j < length us. j \<noteq> i \<and> up_addr p = addr_of (us ! j) \<and> (up_priority p, up_uid p) = rank_of (us ! j) \<and>
      (up_state p = uhrp_state_code DHP_UHRP_ACTIVE \<longrightarrow> j = a)" if "p \<in> set (u_peers (us ! i))" "up_used p" for p
    using at_rest_tells [OF rest i that] by metis
  with True c at_restD [OF rest i] show ?thesis by (simp add: heard_def)
next
  case False
  note r = at_restD [OF rest i]
  let ?u = "us ! i" and ?s = "addr_of (us ! c)" and ?h = "dhp_uhrp_build_hello (us ! c)"
  have src: "?s \<noteq> addr_of ?u" using distinct_addr [OF r(7) c(1) i] False by simp
  obtain p0 where p0: "p0 \<in> live ?u t" "tells p0 (us ! c)" using r(6) c(1) False by (auto simp: table_true_def)
  then have "p0 \<in> set (u_peers ?u)" "up_used p0" "up_addr p0 = ?s" by (auto simp: live_def tells_def)
  then have "peer_find ?u ?s \<noteq> None" unfolding peer_find_def peers.find_None by blast
  from hello_heard [OF r(1,2) src this r(3)] obtain v q where v: "dhp_uhrp_rx_hello ?u ?s ?h t = reevaluate v t" "same_role ?u v"
    "up_addr q = ?s" "up_priority q = he_priority ?h" "up_uid q = he_uid ?h" "up_state q = he_state ?h" "up_flags q = he_flags ?h"
    "up_last_seen q = t" "live v t = insert q {p \<in> live ?u t. up_addr p \<noteq> ?s}" "u_active v = u_active ?u" .
  have q: "(up_priority q, up_uid q) = rank_of (us ! c)" "up_state q \<noteq> uhrp_state_code DHP_UHRP_ACTIVE"
    "up_flags q AND DHP_HELLO_F_PREEMPT \<noteq> 0"
    using v(4-7) c(3,4) by (simp_all add: dhp_uhrp_build_hello_def rank_of_def) (simp add: dhp_consts)
  have st: "u_started v" "u_state v = u_state ?u" "u_keys_held v = u_keys_held ?u" "u_cfg v = u_cfg ?u" "u_ev v = u_ev ?u"
    using v(2) r(2) by (auto simp: same_role_def)
  have other: "\<exists>j < length us. j \<noteq> i \<and> up_addr p = addr_of (us ! j) \<and> (up_priority p, up_uid p) = rank_of (us ! j) \<and>
      (up_state p = uhrp_state_code DHP_UHRP_ACTIVE \<longleftrightarrow> j = a)" if "p \<in> live v t" for p
  proof (cases "p = q")
    case True
    with q v(3) c(1,2) False show ?thesis by blast
  next
    case False
    with that v(9) have "p \<in> set (u_peers ?u)" "up_used p" by (auto simp: live_def)
    then show ?thesis using at_rest_tells [OF rest i] by metis
  qed
  have qv: "q \<in> live v t" "outranks v q" using v(9) q(1) top i False st(4) by (auto simp: outranks_rank rank_of_def)
  have role: "u_state (reevaluate v t) \<in> {DHP_UHRP_STANDBY, DHP_UHRP_LISTEN} \<and> (i \<noteq> a \<longrightarrow> u_active (reevaluate v t) = addr_of (us ! a)) \<and>
      ue_broadcast_release (u_ev (reevaluate v t)) = ue_broadcast_release (u_ev ?u) \<and>
      (i = a \<longrightarrow> ue_send_resign (u_ev (reevaluate v t)))"
  proof (cases "i = a")
    case True
    have "\<not> rank_above (up_priority p, up_uid p) (up_priority q, up_uid q)" if "p \<in> live v t" for p
      using other [OF that] top election.asym election.irrefl unfolding q(1) by metis
    moreover have "\<forall>p \<in> live v t. up_state p \<noteq> uhrp_state_code DHP_UHRP_ACTIVE" using other True by blast
    ultimately show ?thesis
      using reevaluate_resigns [OF st(1) _ _ qv q(3)] st r(4) idle True by (simp add: rank_above_def)
  next
    case False
    obtain p where p: "p \<in> live ?u t" "tells p (us ! a)" using r(6,8) False by (auto simp: table_true_def)
    then have "up_addr p \<noteq> ?s" "up_state p = uhrp_state_code DHP_UHRP_ACTIVE"
      using distinct_addr [OF r(7) c(1) r(8)] c(2) at_restD(4) [OF rest r(8)] by (auto simp: tells_def)
    with p v(9) have "p \<in> live v t" "up_state p = uhrp_state_code DHP_UHRP_ACTIVE" by auto
    moreover have "\<forall>p \<in> live v t. up_state p = uhrp_state_code DHP_UHRP_ACTIVE \<longrightarrow> up_addr p = addr_of (us ! a)"
      using other by metis
    ultimately show ?thesis
      using reevaluate_follows [OF st(1), of p t "addr_of (us ! a)"] st r(4) False by simp
  qed
  have used: "up_used p \<and> p \<in> set (u_peers (reevaluate v t)) \<longleftrightarrow> p \<in> live v t" for p
    using live_after [OF st(1), of t] by auto
  have "uhrp_inv (reevaluate v t)" using uhrp_inv_rx_hello [OF r(1)] v(1) by metis
  moreover have "\<exists>q \<in> set (u_peers (reevaluate v t)). up_used q \<and> up_addr q = ?s \<and>
      (up_priority q, up_uid q) = rank_of (us ! c) \<and> up_last_seen q = t"
    using qv(1) used q(1) v(3,8) by blast
  ultimately show ?thesis
    using role st used other False i v(1) unfolding heard_def by (simp, metis)
qed

text \<open>Then the role is vacant: everybody but the newcomer waits, and no table names an active board.\<close>

definition vacant :: "dhp_uhrp_t list \<Rightarrow> nat \<Rightarrow> nat \<Rightarrow> dhp_uhrp_t \<Rightarrow> bool" where
  "vacant us c i u \<longleftrightarrow> uhrp_inv u \<and> u_started u \<and> u_cfg u = u_cfg (us ! i) \<and>
     u_state u \<in> {DHP_UHRP_STANDBY, DHP_UHRP_LISTEN} \<and>
     ue_broadcast_release (u_ev u) = ue_broadcast_release (u_ev (us ! i)) \<and>
     (\<forall>p \<in> set (u_peers u). up_used p \<longrightarrow> up_state p \<noteq> uhrp_state_code DHP_UHRP_ACTIVE) \<and>
     (\<exists>q \<in> set (u_peers u). up_used q \<and> up_addr q = addr_of (us ! c))"

lemma heardD:
  assumes "heard t us a c i u"
  shows "uhrp_inv u" "u_started u" "u_cfg u = u_cfg (us ! i)" "u_state u \<in> {DHP_UHRP_STANDBY, DHP_UHRP_LISTEN}"
    "i \<noteq> a \<Longrightarrow> u_active u = addr_of (us ! a)"
    "ue_broadcast_release (u_ev u) = ue_broadcast_release (u_ev (us ! i))"
    "\<And>p. p \<in> set (u_peers u) \<Longrightarrow> up_used p \<Longrightarrow> \<exists>j < length us. j \<noteq> i \<and> up_addr p = addr_of (us ! j) \<and>
        (up_priority p, up_uid p) = rank_of (us ! j) \<and> (up_state p = uhrp_state_code DHP_UHRP_ACTIVE \<longrightarrow> j = a)"
    "i \<noteq> c \<Longrightarrow> \<exists>q \<in> set (u_peers u). up_used q \<and> up_addr q = addr_of (us ! c) \<and>
        (up_priority q, up_uid q) = rank_of (us ! c) \<and> up_last_seen q = t"
  using assms unfolding heard_def by blast+

text \<open>The table after the RESIGN of \<open>a\<close>: nobody active, and the entries still name the others.\<close>

lemma resign_table:
  assumes h: "heard t us a c i u" and i: "i \<noteq> a"
  obtains v where "dhp_uhrp_rx_resign u (addr_of (us ! a)) now = reevaluate v now" "same_role u v" "u_vacancy_clean v"
    "\<forall>p \<in> live v now. up_state p \<noteq> uhrp_state_code DHP_UHRP_ACTIVE \<and>
       (\<exists>j < length us. j \<noteq> i \<and> (up_priority p, up_uid p) = rank_of (us ! j))"
    "\<forall>p \<in> live u now. up_addr p \<noteq> addr_of (us ! a) \<longrightarrow> p \<in> live v now"
proof -
  obtain v where v: "dhp_uhrp_rx_resign u (addr_of (us ! a)) now = reevaluate v now" "same_role u v" "u_vacancy_clean v"
    and f: "\<forall>p \<in> live v now. \<exists>p' \<in> set (u_peers u). up_used p' \<and> up_addr p = up_addr p' \<and> up_priority p = up_priority p' \<and>
       up_uid p = up_uid p' \<and> (if up_addr p' = addr_of (us ! a) then up_state p = uhrp_state_code DHP_UHRP_LISTEN else p = p')"
    and b: "\<forall>p \<in> live u now. up_addr p \<noteq> addr_of (us ! a) \<longrightarrow> p \<in> live v now"
    using resign_heard [OF heardD(1,2) [OF h], of "addr_of (us ! a)" now] heardD(5) [OF h i] by metis
  have "up_state p \<noteq> uhrp_state_code DHP_UHRP_ACTIVE \<and> (\<exists>j < length us. j \<noteq> i \<and> (up_priority p, up_uid p) = rank_of (us ! j))"
    if p: "p \<in> live v now" for p
  proof -
    from f p obtain p' where p': "p' \<in> set (u_peers u)" "up_used p'" "up_priority p = up_priority p'" "up_uid p = up_uid p'"
      "if up_addr p' = addr_of (us ! a) then up_state p = uhrp_state_code DHP_UHRP_LISTEN else p = p'" by blast
    from heardD(7) [OF h p'(1,2)] obtain j where "j < length us" "j \<noteq> i" "up_addr p' = addr_of (us ! j)"
      "(up_priority p', up_uid p') = rank_of (us ! j)" "up_state p' = uhrp_state_code DHP_UHRP_ACTIVE \<longrightarrow> j = a" by blast
    with p' show ?thesis by (auto split: if_splits)
  qed
  with v b show thesis by (intro that) auto
qed

lemma newcomer_promoted:
  fixes now :: dhp_time_t
  assumes h: "heard t us a c c u" "c \<noteq> a" "u_state u = DHP_UHRP_STANDBY"
    and top: "\<forall>i < length us. i \<noteq> c \<longrightarrow> rank_above (rank_of (us ! c)) (rank_of (us ! i))"
  defines "u' \<equiv> dhp_uhrp_rx_resign u (addr_of (us ! a)) now"
  shows "u_state u' = DHP_UHRP_ACTIVE \<and> ue_send_hello (u_ev u') \<and> u_cfg u' = u_cfg (us ! c) \<and>
    ue_broadcast_release (u_ev u') = ue_broadcast_release (u_ev (us ! c))"
proof -
  obtain v where v: "u' = reevaluate v now" "same_role u v" "u_vacancy_clean v"
    and l: "\<forall>p \<in> live v now. up_state p \<noteq> uhrp_state_code DHP_UHRP_ACTIVE \<and>
       (\<exists>j < length us. j \<noteq> c \<and> (up_priority p, up_uid p) = rank_of (us ! j))"
    using resign_table [OF h(1,2)] unfolding u'_def by metis
  have st: "u_started v" "u_state v = DHP_UHRP_STANDBY" "u_cfg v = u_cfg (us ! c)"
    "ue_broadcast_release (u_ev v) = ue_broadcast_release (u_ev (us ! c))"
    using v(2) heardD [OF h(1)] h(3) by (auto simp: same_role_def)
  have "\<not> outranks v p" if "p \<in> live v now" for p
  proof -
    have "rank_of v = rank_of (us ! c)" using st(3) by (simp add: rank_of_def)
    then show ?thesis using l that top election.asym unfolding outranks_rank by metis
  qed
  with l have "\<forall>p \<in> live v now. \<not> outranks v p \<and> up_state p \<noteq> uhrp_state_code DHP_UHRP_ACTIVE" by blast
  from standby_promotes [OF st(1,2) this] show ?thesis using v(3) st unfolding v(1) by simp
qed

lemma others_wait:
  assumes h: "heard t us a c i u" "i \<noteq> a" "i \<noteq> c" and c: "addr_of (us ! c) \<noteq> addr_of (us ! a)" "c < length us"
    and top: "rank_above (rank_of (us ! c)) (rank_of (us ! i))"
    and time: "\<not> dhp_time_after now (t + hold_of (us ! i))" and own: "addr_of (us ! a) \<noteq> addr_of (us ! i)"
  shows "vacant us c i (dhp_uhrp_rx_resign u (addr_of (us ! a)) now)"
proof -
  obtain v where v: "dhp_uhrp_rx_resign u (addr_of (us ! a)) now = reevaluate v now" "same_role u v"
    and l: "\<forall>p \<in> live v now. up_state p \<noteq> uhrp_state_code DHP_UHRP_ACTIVE"
    and b: "\<forall>p \<in> live u now. up_addr p \<noteq> addr_of (us ! a) \<longrightarrow> p \<in> live v now"
    using resign_table [OF h(1,2)] by metis
  have st: "u_started v" "u_state v \<in> {DHP_UHRP_STANDBY, DHP_UHRP_LISTEN}" "u_cfg v = u_cfg (us ! i)"
    "ue_broadcast_release (u_ev v) = ue_broadcast_release (u_ev (us ! i))"
    using v(2) heardD [OF h(1)] by (auto simp: same_role_def)
  obtain q where q: "q \<in> set (u_peers u)" "up_used q" "up_addr q = addr_of (us ! c)"
    "(up_priority q, up_uid q) = rank_of (us ! c)" "up_last_seen q = t" using heardD(8) [OF h(1,3)] by blast
  have "q \<in> live u now" using q(1,2,5) time heardD(3) [OF h(1)] by (simp add: live_def peer_expired_def)
  with b q(3) c(1) have qv: "q \<in> live v now" by simp
  moreover have "outranks v q" using top q(4) st(3) by (simp add: outranks_rank rank_of_def)
  ultimately have w: "u_state (reevaluate v now) \<in> {DHP_UHRP_STANDBY, DHP_UHRP_LISTEN} \<and>
      ue_broadcast_release (u_ev (reevaluate v now)) = ue_broadcast_release (u_ev v)"
    using st(2) by (intro reevaluate_waits [OF st(1) _ _ _ l]) auto
  have used: "p \<in> live v now \<longleftrightarrow> p \<in> set (u_peers (reevaluate v now)) \<and> up_used p" for p
    using live_after [OF st(1), of now] by auto
  have "uhrp_inv (reevaluate v now)"
    using uhrp_inv_rx_resign [OF heardD(1) [OF h(1)]] heardD(3) [OF h(1)] own v(1) by metis
  then show ?thesis
    unfolding vacant_def v(1) using w st used l qv q(3) by (simp, metis)
qed

lemma resigner_waits:
  assumes "heard t us a c a u" "a \<noteq> c" shows "vacant us c a u"
proof -
  have "up_state p \<noteq> uhrp_state_code DHP_UHRP_ACTIVE" if "p \<in> set (u_peers u)" "up_used p" for p
    using heardD(7) [OF assms(1) that] by blast
  then show ?thesis using heardD [OF assms(1)] assms(2) unfolding vacant_def by blast
qed

lemma newcomer_adopted:
  fixes now :: dhp_time_t
  assumes "vacant us c i u" "addr_of (us ! c) \<noteq> addr_of (us ! i)" "ut_hold_ms (uc_timing (u_cfg (us ! i))) \<noteq> 0"
    and "he_state h = uhrp_state_code DHP_UHRP_ACTIVE"
  defines "u' \<equiv> dhp_uhrp_rx_hello u (addr_of (us ! c)) h now"
  shows "u_state u' \<in> {DHP_UHRP_STANDBY, DHP_UHRP_LISTEN} \<and> u_active u' = addr_of (us ! c) \<and>
    ue_broadcast_release (u_ev u') = ue_broadcast_release (u_ev (us ! i))"
proof -
  have u: "uhrp_inv u" "u_started u" "u_cfg u = u_cfg (us ! i)" "u_state u \<noteq> DHP_UHRP_ACTIVE"
    "ue_broadcast_release (u_ev u) = ue_broadcast_release (u_ev (us ! i))"
    using assms(1) by (auto simp: vacant_def)
  have none: "\<forall>p \<in> live u now. up_state p \<noteq> uhrp_state_code DHP_UHRP_ACTIVE" using assms(1) by (auto simp: vacant_def live_def)
  have find: "peer_find u (addr_of (us ! c)) \<noteq> None"
    using assms(1) unfolding vacant_def peer_find_def peers.find_None by blast
  have src: "addr_of (us ! c) \<noteq> addr_of u" "ut_hold_ms (uc_timing (u_cfg u)) \<noteq> 0" using assms(2,3) u(3) by simp_all
  from hello_heard [OF u(1,2) src(1) find src(2)] obtain v q where
    v: "dhp_uhrp_rx_hello u (addr_of (us ! c)) h now = reevaluate v now" "same_role u v" "up_addr q = addr_of (us ! c)"
    "up_priority q = he_priority h" "up_uid q = he_uid h" "up_state q = he_state h" "up_flags q = he_flags h" "up_last_seen q = now"
    "live v now = insert q {p \<in> live u now. up_addr p \<noteq> addr_of (us ! c)}" "u_active v = u_active u" .
  have st: "u_started v" "u_state v \<noteq> DHP_UHRP_ACTIVE" "u_ev v = u_ev u" using v(2) u by (auto simp: same_role_def)
  have q: "q \<in> live v now" "up_state q = uhrp_state_code DHP_UHRP_ACTIVE" using v(6,9) assms(4) by simp_all
  have "up_addr p = addr_of (us ! c)" if "p \<in> live v now" "up_state p = uhrp_state_code DHP_UHRP_ACTIVE" for p
    using that none v(3) unfolding v(9) by blast
  then have "\<forall>p \<in> live v now. up_state p = uhrp_state_code DHP_UHRP_ACTIVE \<longrightarrow> up_addr p = addr_of (us ! c)" by blast
  from reevaluate_follows [OF st(1,2) q this] show ?thesis unfolding u'_def v(1) st(3) u(5) .
qed

section \<open>The takeover\<close>

text \<open>
  A preempting participant that stands by and outranks everybody takes the role over from an active board
  without held keys in three messages that the participants themselves order: its HELLO makes the active
  board resign, the RESIGN makes it active, and its next HELLO is followed by all.  Nobody else is active
  at any moment, and no release is ordered.
\<close>

lemma takeover:
  fixes t3 :: dhp_time_t
  assumes rest: "at_rest t1 us a" and c: "c < length us" "c \<noteq> a" "u_state (us ! c) = DHP_UHRP_STANDBY" "uc_preempt (u_cfg (us ! c))"
    and top: "\<forall>i < length us. i \<noteq> c \<longrightarrow> rank_above (rank_of (us ! c)) (rank_of (us ! i))"
    and idle: "\<not> u_keys_held (us ! a)"
    and time: "\<forall>i < length us. \<not> dhp_time_after t2 (t1 + hold_of (us ! i))"
  defines "us1 \<equiv> hello_round c t1 us"
  defines "us2 \<equiv> resign_round a t2 us1"
  defines "us3 \<equiv> hello_round c t3 us2"
  shows "ue_send_resign (u_ev (us1 ! a)) \<and> ue_send_hello (u_ev (us2 ! c)) \<and>
    (\<forall>i < length us. u_state (us1 ! i) \<noteq> DHP_UHRP_ACTIVE \<and> (u_state (us2 ! i) = DHP_UHRP_ACTIVE \<longleftrightarrow> i = c) \<and>
       (u_state (us3 ! i) = DHP_UHRP_ACTIVE \<longleftrightarrow> i = c) \<and> (i \<noteq> c \<longrightarrow> u_active (us3 ! i) = addr_of (us ! c)) \<and>
       ue_broadcast_release (u_ev (us3 ! i)) = ue_broadcast_release (u_ev (us ! i)))"
proof -
  have a: "a < length us" and d: "distinct (map addr_of us)" using at_restD [OF rest c(1)] by simp_all
  have ca: "addr_of (us ! c) \<noteq> addr_of (us ! a)" using distinct_addr [OF d c(1) a] c(2) by simp
  have h: "heard t1 us a c i (us1 ! i)" if "i < length us" for i
    using hello_round_heard [OF rest c top idle that] by (simp add: us1_def)
  have c1: "us1 ! c = us ! c" using c(1) by (simp add: us1_def)
  have cfg1: "u_cfg (us1 ! a) = u_cfg (us ! a)" using heardD(3) [OF h [OF a]] .
  have r2: "us2 ! i = (if i = a then us1 ! i else dhp_uhrp_rx_resign (us1 ! i) (addr_of (us ! a)) t2)" if "i < length us" for i
    using that cfg1 by (simp add: us2_def us1_def)
  have c2: "u_state (us2 ! c) = DHP_UHRP_ACTIVE \<and> ue_send_hello (u_ev (us2 ! c)) \<and> u_cfg (us2 ! c) = u_cfg (us ! c) \<and>
      ue_broadcast_release (u_ev (us2 ! c)) = ue_broadcast_release (u_ev (us ! c))"
    using newcomer_promoted [OF h [OF c(1)] c(2) _ top] c c1 r2 by simp
  have v2: "vacant us c i (us2 ! i)" if i: "i < length us" "i \<noteq> c" for i
  proof (cases "i = a")
    case True
    then show ?thesis using resigner_waits [OF h [OF a]] c(2) a r2 by simp
  next
    case False
    have "addr_of (us ! a) \<noteq> addr_of (us ! i)" using distinct_addr [OF d a i(1)] False by simp
    then show ?thesis using others_wait [OF h [OF i(1)] False i(2) ca c(1)] top time i False r2 by simp
  qed
  have f3: "u_state (us3 ! i) \<in> {DHP_UHRP_STANDBY, DHP_UHRP_LISTEN} \<and> u_active (us3 ! i) = addr_of (us ! c) \<and>
      ue_broadcast_release (u_ev (us3 ! i)) = ue_broadcast_release (u_ev (us ! i))" if i: "i < length us" "i \<noteq> c" for i
  proof -
    have "addr_of (us ! c) \<noteq> addr_of (us ! i)" using distinct_addr [OF d c(1) i(1)] i(2) by simp
    from newcomer_adopted [OF v2 [OF i] this at_restD(3) [OF rest i(1)], of "dhp_uhrp_build_hello (us2 ! c)" t3]
    show ?thesis using c2 i by (simp add: us3_def us2_def us1_def dhp_uhrp_build_hello_def)
  qed
  have "us3 ! c = us2 ! c" using c(1) by (simp add: us3_def us2_def us1_def)
  moreover have "u_state (us1 ! i) \<noteq> DHP_UHRP_ACTIVE" if "i < length us" for i using heardD(4) [OF h [OF that]] by auto
  moreover have "u_state (us2 ! i) \<noteq> DHP_UHRP_ACTIVE" "u_state (us3 ! i) \<noteq> DHP_UHRP_ACTIVE" if "i < length us" "i \<noteq> c" for i
    using v2 [OF that] f3 [OF that] by (auto simp: vacant_def)
  moreover have "ue_send_resign (u_ev (us1 ! a))" using hello_round_heard [OF rest c top idle a] by (simp add: us1_def)
  ultimately show ?thesis using c2 f3 by metis
qed

text \<open>Capabilities decide the rank: whoever is a coordinator outranks whoever is not.\<close>

lemma coordinator_priority:
  assumes "a AND DHP_CAP_COORD \<noteq> 0" "b AND DHP_CAP_COORD = 0"
  shows "dhp_uhrp_priority_from_caps b < dhp_uhrp_priority_from_caps a"
  using assms by (simp add: dhp_uhrp_priority_from_caps_def Let_def word_less_nat_alt)

definition ranked_by_caps :: "dhp_uhrp_t \<Rightarrow> bool" where
  "ranked_by_caps u \<longleftrightarrow> uc_priority (u_cfg u) = dhp_uhrp_priority_from_caps (uc_caps (u_cfg u))"

text \<open>
  C5. The coordinator takes over, with the whole chain taken together. On a chain of any size at rest under an
  active board without held keys, a preempting coordinator that stands by gets the role in three
  messages that the participants order themselves: its HELLO makes the board resign, the RESIGN makes the
  coordinator active, and its next HELLO makes everybody follow it.  Nobody else is active in between,
  and no release is ordered, so typing is not disturbed.
\<close>

theorem coordinator_takes_over:
  fixes t3 :: dhp_time_t
  assumes "at_rest t1 us a" "c < length us" "u_state (us ! c) = DHP_UHRP_STANDBY" "uc_preempt (u_cfg (us ! c))"
    and "list_all ranked_by_caps us" "uc_caps (u_cfg (us ! c)) AND DHP_CAP_COORD \<noteq> 0"
    and "\<forall>i < length us. i \<noteq> c \<longrightarrow> uc_caps (u_cfg (us ! i)) AND DHP_CAP_COORD = 0"
    and "\<not> u_keys_held (us ! a)" "\<forall>i < length us. \<not> dhp_time_after t2 (t1 + hold_of (us ! i))"
  defines "us1 \<equiv> hello_round c t1 us"
  defines "us2 \<equiv> resign_round a t2 us1"
  defines "us3 \<equiv> hello_round c t3 us2"
  shows "ue_send_resign (u_ev (us1 ! a)) \<and> ue_send_hello (u_ev (us2 ! c)) \<and>
    (\<forall>i < length us. u_state (us1 ! i) \<noteq> DHP_UHRP_ACTIVE \<and> (u_state (us2 ! i) = DHP_UHRP_ACTIVE \<longleftrightarrow> i = c) \<and>
       (u_state (us3 ! i) = DHP_UHRP_ACTIVE \<longleftrightarrow> i = c) \<and> (i \<noteq> c \<longrightarrow> u_active (us3 ! i) = uc_addr (u_cfg (us ! c))) \<and>
       ue_broadcast_release (u_ev (us3 ! i)) = ue_broadcast_release (u_ev (us ! i)))"
proof -
  have ca: "c \<noteq> a" using at_restD(4) [OF assms(1,2)] assms(3) by auto
  have "rank_above (rank_of (us ! c)) (rank_of (us ! i))" if "i < length us" "i \<noteq> c" for i
  proof -
    have "uc_priority (u_cfg (us ! i)) < uc_priority (u_cfg (us ! c))"
      using coordinator_priority [OF assms(6), of "uc_caps (u_cfg (us ! i))"] assms(2,5,7) that
      by (simp add: list_all_length ranked_by_caps_def)
    then show ?thesis by (auto simp: rank_above_def rank_of_def better_def)
  qed
  then show ?thesis
    using takeover [OF assms(1,2) ca assms(3,4) _ assms(8,9)] unfolding us1_def us2_def us3_def by blast
qed

text \<open>Two boards, the first of them active, and a coordinator that stands by.\<close>

definition demo_party :: "u64 \<Rightarrow> u16 \<Rightarrow> dhp_uhrp_state_t \<Rightarrow> dhp_uhrp_t" where
  "demo_party uid caps st =
     (dhp_uhrp_init \<lparr>uc_uid = uid, uc_addr = ucast uid, uc_priority = 0, uc_caps = caps,
        uc_preempt = (caps AND DHP_CAP_COORD \<noteq> 0), uc_timing = DHP_UHRP_TIMING_DEFAULT\<rparr>)
       \<lparr>u_started := True, u_state := st, u_active := 1, u_active_valid := True, u_vacancy_clean := True\<rparr>"

definition demo_entry :: "dhp_uhrp_t \<Rightarrow> dhp_uhrp_peer_t" where
  "demo_entry u = peer_refresh (dhp_uhrp_build_hello u) 1000 (peer_claim (uc_addr (u_cfg u)) peer_zero)"

definition demo_field :: "dhp_uhrp_t list" where
  "demo_field =
     (let b1 = demo_party 1 3 DHP_UHRP_ACTIVE; b2 = demo_party 2 1 DHP_UHRP_LISTEN; c = demo_party 200 0x10C DHP_UHRP_STANDBY
      in [b1\<lparr>u_peers := [demo_entry b2, demo_entry c] @ replicate 14 peer_zero\<rparr>,
          b2\<lparr>u_peers := [demo_entry b1, demo_entry c] @ replicate 14 peer_zero\<rparr>,
          c\<lparr>u_peers := [demo_entry b1, demo_entry b2] @ replicate 14 peer_zero\<rparr>])"

lemma two_entries_wf: "up_addr p \<noteq> up_addr q \<Longrightarrow> tbl_wf up_used up_addr (p # q # replicate n peer_zero)"
  by (auto simp: tbl_wf_def peer_zero_def nth_Cons' split: if_splits)

lemma demo_member_inv:
  assumes "ucast uid \<noteq> DHP_ADDR_NONE" "up_addr p \<noteq> up_addr q" "up_addr p \<noteq> ucast uid" "up_addr q \<noteq> ucast uid"
    and "if st = DHP_UHRP_ACTIVE then ucast uid = (1 :: u16)
         else up_used p \<and> up_addr p = 1 \<and> up_state p = uhrp_state_code DHP_UHRP_ACTIVE \<and> st \<notin> {DHP_UHRP_INIT, DHP_UHRP_LEARN}"
  shows "uhrp_inv ((demo_party uid caps st)\<lparr>u_peers := [p, q] @ replicate 14 peer_zero\<rparr>)"
  using assms two_entries_wf [OF assms(2), of 14]
  by (auto simp: uhrp_inv_def peers_inv_def role_inv_def role_pre_def demo_party_def dhp_uhrp_init_def Let_def DHP_MAX_BOARDS_def
      peer_zero_def list_all_iff split: if_splits)

lemma demo_entry_fields [simp]:
  "up_used (demo_entry u)" "up_addr (demo_entry u) = uc_addr (u_cfg u)" "up_state (demo_entry u) = uhrp_state_code (u_state u)"
  by (simp_all add: demo_entry_def peer_refresh_def peer_claim_def dhp_uhrp_build_hello_def)

lemma demo_party_fields [simp]: "uc_addr (u_cfg (demo_party uid caps st)) = ucast uid" "u_state (demo_party uid caps st) = st"
  by (simp_all add: demo_party_def dhp_uhrp_init_def Let_def)

lemma demo_field_inv: "uhrp_inv (demo_field ! 0)" "uhrp_inv (demo_field ! 1)" "uhrp_inv (demo_field ! 2)"
  unfolding demo_field_def Let_def
  by (simp_all only: nth_Cons_0 nth_Cons_Suc numeral_2_eq_2 One_nat_def) (rule demo_member_inv; simp add: dhp_consts)+

lemma demo_field_at_rest: "at_rest 1020 demo_field 0"
proof -
  have "table_true 1020 demo_field 0" "table_true 1020 demo_field 1" "table_true 1020 demo_field 2"
    "distinct (map addr_of demo_field)" "length demo_field = 3"
    "\<forall>i < length demo_field. u_started (demo_field ! i) \<and> ut_hold_ms (uc_timing (u_cfg (demo_field ! i))) \<noteq> 0 \<and>
       (u_state (demo_field ! i) = DHP_UHRP_ACTIVE \<longleftrightarrow> i = 0) \<and> u_active (demo_field ! i) = addr_of (demo_field ! 0)"
    by code_simp+
  with demo_field_inv show ?thesis by (auto simp: at_rest_def less_Suc_eq numeral_3_eq_3 numeral_2_eq_2)
qed

lemma demo_field_facts:
  "length demo_field = 3" "u_state (demo_field ! 2) = DHP_UHRP_STANDBY" "uc_preempt (u_cfg (demo_field ! 2))"
  "list_all ranked_by_caps demo_field" "uc_caps (u_cfg (demo_field ! 2)) AND DHP_CAP_COORD \<noteq> 0"
  "\<forall>i < length demo_field. i \<noteq> 2 \<longrightarrow> uc_caps (u_cfg (demo_field ! i)) AND DHP_CAP_COORD = 0"
  "\<not> u_keys_held (demo_field ! 0)" "\<forall>i < length demo_field. \<not> dhp_time_after 1025 (1020 + hold_of (demo_field ! i))"
  "uc_addr (u_cfg (demo_field ! 2)) = 200"
  by code_simp+

theorem coordinator_takes_over_witness:
  "u_state (hello_round 2 1030 (resign_round 0 1025 (hello_round 2 1020 demo_field)) ! 2) = DHP_UHRP_ACTIVE \<and>
   u_active (hello_round 2 1030 (resign_round 0 1025 (hello_round 2 1020 demo_field)) ! 1) = 200"
proof -
  let ?us = "hello_round 2 1030 (resign_round 0 1025 (hello_round 2 1020 demo_field))"
  have "\<forall>i < length demo_field. (u_state (?us ! i) = DHP_UHRP_ACTIVE \<longleftrightarrow> i = 2) \<and>
      (i \<noteq> 2 \<longrightarrow> u_active (?us ! i) = uc_addr (u_cfg (demo_field ! 2)))"
    using coordinator_takes_over [OF demo_field_at_rest _ demo_field_facts(2-8), of 1030] demo_field_facts(1) by (metis lessI numeral_3_eq_3 numeral_2_eq_2)
  from this [rule_format, of 2] this [rule_format, of 1] show ?thesis
    unfolding demo_field_facts(1,9) by (simp del: round_nth)
qed

end
