(* ===== verification/Dhp_Hardware.thy ===== *)
theory Dhp_Hardware
  imports Dhp_Board
begin

text \<open>
  What \<^verbatim>\<open>board.c\<close> does to the chip itself: the calls of \<^verbatim>\<open>board_init\<close> and \<^verbatim>\<open>link_init\<close>, as the sequence in which
  they reach the SDK, with the pins of \<^verbatim>\<open>board.h\<close>; and the two cores around a write to flash, statement by
  statement.  The SDK's lockout is a parameter; what it is documented to do is \<open>lockout_ok\<close>.
\<close>

section \<open>Pins\<close>

definition PIN_PIO_USB_DP :: nat where "PIN_PIO_USB_DP = 0"
definition PIN_UART1_TX :: nat where "PIN_UART1_TX = 4"
definition PIN_UART1_RX :: nat where "PIN_UART1_RX = 5"
definition PIN_UART0_TX :: nat where "PIN_UART0_TX = 12"
definition PIN_UART0_RX :: nat where "PIN_UART0_RX = 13"
definition PIN_BTN_PAIR :: nat where "PIN_BTN_PAIR = 14"
definition PIN_BTN_SWITCH :: nat where "PIN_BTN_SWITCH = 15"
definition PIN_WS2812 :: nat where "PIN_WS2812 = 16"
definition PIN_I2C_SDA :: nat where "PIN_I2C_SDA = 26"
definition PIN_I2C_SCL :: nat where "PIN_I2C_SCL = 27"
definition DHP_LINK_BAUD :: nat where "DHP_LINK_BAUD = 2000000"

lemmas pin_defs = PIN_PIO_USB_DP_def PIN_UART1_TX_def PIN_UART1_RX_def PIN_UART0_TX_def PIN_UART0_RX_def PIN_BTN_PAIR_def
  PIN_BTN_SWITCH_def PIN_WS2812_def PIN_I2C_SDA_def PIN_I2C_SCL_def

section \<open>Initialisation\<close>

datatype uart_inst = Uart0 | Uart1

datatype sdk_call =
    SetSysClockKhz nat bool
  | GetUniqueBoardId
  | GpioInit nat
  | GpioSetDirIn nat
  | GpioPullUp nat
  | GpioSetFunctionUart nat
  | UartInit uart_inst nat
  | UartSetHwFlow uart_inst bool bool
  | UartSetFormat8N1 uart_inst
  | UartSetFifoEnabled uart_inst bool
  | IrqSetExclusiveHandler uart_inst dhp_port_t
  | IrqSetEnabled uart_inst bool
  | UartSetIrqEnables uart_inst bool bool

definition port_uart :: "dhp_port_t \<Rightarrow> uart_inst" where
  "port_uart p = (if p = DHP_PORT_UP then Uart0 else Uart1)"

text \<open>The two handlers call \<open>port_isr\<close> with these ports.\<close>

definition isr_uart0 :: dhp_port_t where "isr_uart0 = DHP_PORT_UP"

definition isr_uart1 :: dhp_port_t where "isr_uart1 = DHP_PORT_DOWN"

definition link_init :: "sdk_call list" where
  "link_init =
     [UartInit Uart0 DHP_LINK_BAUD, GpioSetFunctionUart PIN_UART0_TX, GpioSetFunctionUart PIN_UART0_RX,
      UartSetHwFlow Uart0 False False, UartSetFormat8N1 Uart0, UartSetFifoEnabled Uart0 True,
      UartInit Uart1 DHP_LINK_BAUD, GpioSetFunctionUart PIN_UART1_TX, GpioSetFunctionUart PIN_UART1_RX,
      UartSetHwFlow Uart1 False False, UartSetFormat8N1 Uart1, UartSetFifoEnabled Uart1 True,
      IrqSetExclusiveHandler Uart0 isr_uart0, IrqSetExclusiveHandler Uart1 isr_uart1,
      IrqSetEnabled Uart0 True, IrqSetEnabled Uart1 True,
      UartSetIrqEnables Uart0 True False, UartSetIrqEnables Uart1 True False,
      GpioPullUp PIN_UART0_RX, GpioPullUp PIN_UART1_RX]"

definition board_init_calls :: "sdk_call list" where
  "board_init_calls =
     [SetSysClockKhz 120000 True, GetUniqueBoardId,
      GpioInit PIN_BTN_SWITCH, GpioSetDirIn PIN_BTN_SWITCH, GpioPullUp PIN_BTN_SWITCH,
      GpioInit PIN_BTN_PAIR, GpioSetDirIn PIN_BTN_PAIR, GpioPullUp PIN_BTN_PAIR] @ link_init"

text \<open>The microsecond timer, read as milliseconds in 32 bits.\<close>

definition board_now_ms :: "u64 \<Rightarrow> dhp_time_t" where
  "board_now_ms time_us_64 = ucast (time_us_64 div 1000)"

fun owns_pin :: "nat \<Rightarrow> sdk_call \<Rightarrow> bool" where
  "owns_pin p (GpioInit q) \<longleftrightarrow> p = q"
| "owns_pin p (GpioSetFunctionUart q) \<longleftrightarrow> p = q"
| "owns_pin p _ \<longleftrightarrow> False"

text \<open>
  The clock is set before anything depends on it, no pin has two uses (the data line next to the
  first belongs to the USB port), every input idles high, and each port's interrupt goes to that port.
\<close>

theorem board_init_sound:
  "hd board_init_calls = SetSysClockKhz 120000 True \<and>
   distinct [PIN_PIO_USB_DP, PIN_PIO_USB_DP + 1, PIN_UART1_TX, PIN_UART1_RX, PIN_UART0_TX, PIN_UART0_RX, PIN_BTN_PAIR,
     PIN_BTN_SWITCH, PIN_WS2812, PIN_I2C_SDA, PIN_I2C_SCL] \<and>
   (\<forall>p \<in> {PIN_UART1_TX, PIN_UART1_RX, PIN_UART0_TX, PIN_UART0_RX, PIN_BTN_PAIR, PIN_BTN_SWITCH}.
      length (filter (owns_pin p) board_init_calls) = 1) \<and>
   (\<forall>p \<in> {PIN_UART1_RX, PIN_UART0_RX, PIN_BTN_PAIR, PIN_BTN_SWITCH}. GpioPullUp p \<in> set board_init_calls) \<and>
   (\<forall>p \<in> {DHP_PORT_UP, DHP_PORT_DOWN}. IrqSetExclusiveHandler (port_uart p) p \<in> set board_init_calls \<and>
      UartSetIrqEnables (port_uart p) True (up_txim uart_port_zero) \<in> set board_init_calls)"
  by (auto simp: board_init_calls_def link_init_def pin_defs port_uart_def isr_uart0_def isr_uart1_def uart_port_zero_def)

section \<open>Two cores and the flash\<close>

text \<open>
  \<^verbatim>\<open>multicore_lockout\<close>: core 1 registers as a victim; from then on starting a lockout returns once core 1
  is parked in RAM, and ending it lets core 1 go on.
\<close>

record 'l lockout =
  lo_victim_init :: "'l \<Rightarrow> 'l"
  lo_start_blocking :: "'l \<Rightarrow> 'l"
  lo_end_blocking :: "'l \<Rightarrow> 'l"
  lo_victim :: "'l \<Rightarrow> bool"
  lo_parked :: "'l \<Rightarrow> bool"

definition lockout_ok :: "'l lockout \<Rightarrow> bool" where
  "lockout_ok lo \<longleftrightarrow>
     (\<forall>l. lo_victim lo (lo_victim_init lo l) \<and> lo_parked lo (lo_victim_init lo l) = lo_parked lo l) \<and>
     (\<forall>l. lo_victim lo l \<longrightarrow> lo_victim lo (lo_start_blocking lo l) \<and> lo_parked lo (lo_start_blocking lo l) \<and>
        lo_victim lo (lo_end_blocking lo l) \<and> \<not> lo_parked lo (lo_end_blocking lo l))"

text \<open>Where core 0 stands in \<^verbatim>\<open>board_key_save\<close> or \<^verbatim>\<open>board_key_erase\<close>, and core 1 in its entry point.\<close>

datatype flash_pc = FlashIdle | FlashBegun | FlashIntsOff | FlashErased | FlashDone | FlashIntsOn

datatype core1_pc = Core1Entry | Core1Registered | Core1Loop

record ('l, 'f) cores =
  cr_lock :: 'l
  cr_ready :: bool
  cr_core0 :: flash_pc
  cr_ints :: bool
  cr_core1 :: core1_pc
  cr_flash :: 'f

definition board_flash_lockout_ready :: "'l lockout \<Rightarrow> ('l, 'f) cores \<Rightarrow> ('l, 'f) cores" where
  "board_flash_lockout_ready lo s =
     (case cr_core1 s of
        Core1Entry \<Rightarrow> s\<lparr>cr_lock := lo_victim_init lo (cr_lock s), cr_core1 := Core1Registered\<rparr>
      | Core1Registered \<Rightarrow> s\<lparr>cr_ready := True, cr_core1 := Core1Loop\<rparr>
      | Core1Loop \<Rightarrow> s)"

definition flash_begin :: "'l lockout \<Rightarrow> ('l, 'f) cores \<Rightarrow> ('l, 'f) cores" where
  "flash_begin lo s = (if cr_ready s then s\<lparr>cr_lock := lo_start_blocking lo (cr_lock s)\<rparr> else s)"

definition flash_end :: "'l lockout \<Rightarrow> ('l, 'f) cores \<Rightarrow> ('l, 'f) cores" where
  "flash_end lo s = (if cr_ready s then s\<lparr>cr_lock := lo_end_blocking lo (cr_lock s)\<rparr> else s)"

text \<open>One statement of a write; without a page it is an erasure.\<close>

definition flash_statement ::
  "'l lockout \<Rightarrow> ('f \<Rightarrow> 'f) \<Rightarrow> (u8 list \<Rightarrow> 'f \<Rightarrow> 'f) \<Rightarrow> u8 list option \<Rightarrow> ('l, 'f) cores \<Rightarrow> ('l, 'f) cores" where
  "flash_statement lo erase program page s =
     (case cr_core0 s of
        FlashIdle \<Rightarrow> (flash_begin lo s)\<lparr>cr_core0 := FlashBegun\<rparr>
      | FlashBegun \<Rightarrow> s\<lparr>cr_ints := False, cr_core0 := FlashIntsOff\<rparr>
      | FlashIntsOff \<Rightarrow> s\<lparr>cr_flash := erase (cr_flash s), cr_core0 := FlashErased\<rparr>
      | FlashErased \<Rightarrow>
          s\<lparr>cr_flash := (case page of None \<Rightarrow> cr_flash s | Some p \<Rightarrow> program p (cr_flash s)), cr_core0 := FlashDone\<rparr>
      | FlashDone \<Rightarrow> s\<lparr>cr_ints := True, cr_core0 := FlashIntsOn\<rparr>
      | FlashIntsOn \<Rightarrow> (flash_end lo s)\<lparr>cr_core0 := FlashIdle\<rparr>)"

text \<open>Any interleaving.  Core 1 runs from flash, so it moves only while it is not parked.\<close>

inductive cores_step ::
  "'l lockout \<Rightarrow> ('f \<Rightarrow> 'f) \<Rightarrow> (u8 list \<Rightarrow> 'f \<Rightarrow> 'f) \<Rightarrow> ('l, 'f) cores \<Rightarrow> ('l, 'f) cores \<Rightarrow> bool"
  for lo erase program where
  core0: "cores_step lo erase program s (flash_statement lo erase program page s)"
| core1: "\<not> lo_parked lo (cr_lock s) \<Longrightarrow> cores_step lo erase program s (board_flash_lockout_ready lo s)"

inductive_cases cores_stepE: "cores_step lo erase program s s'"

definition writing :: "('l, 'f) cores \<Rightarrow> bool" where
  "writing s \<longleftrightarrow> cr_core0 s \<in> {FlashIntsOff, FlashErased}"

definition core1_up :: "'l lockout \<Rightarrow> ('l, 'f) cores \<Rightarrow> bool" where
  "core1_up lo s \<longleftrightarrow> cr_ready s \<and> cr_core0 s = FlashIdle \<and> lo_victim lo (cr_lock s) \<and> \<not> lo_parked lo (cr_lock s) \<and> cr_ints s"

definition cores_inv :: "'l lockout \<Rightarrow> ('l, 'f) cores \<Rightarrow> bool" where
  "cores_inv lo s \<longleftrightarrow> lockout_ok lo \<and> cr_ready s \<and> lo_victim lo (cr_lock s) \<and>
     (lo_parked lo (cr_lock s) \<longleftrightarrow> cr_core0 s \<noteq> FlashIdle) \<and>
     (cr_ints s \<longleftrightarrow> cr_core0 s \<notin> {FlashIntsOff, FlashErased, FlashDone})"

interpretation cores: transition_system "\<lambda>s. lockout_ok lo \<and> core1_up lo s" "cores_step lo erase program" "cores_inv lo"
  for lo :: "'l lockout" and erase :: "'f \<Rightarrow> 'f" and program
proof unfold_locales
  show "cores_inv lo s" if "lockout_ok lo \<and> core1_up lo s" for s :: "('l, 'f) cores"
    using that by (simp add: cores_inv_def core1_up_def)
  show "cores_inv lo t" if "cores_inv lo s" "cores_step lo erase program s t" for s t
    using that(2)
  proof cases
    case (core0 page)
    with that(1) show ?thesis
      by (cases "cr_core0 s") (simp_all add: cores_inv_def lockout_ok_def flash_statement_def flash_begin_def flash_end_def)
  next
    case core1
    with that(1) show ?thesis
      by (cases "cr_core1 s") (auto simp: cores_inv_def lockout_ok_def board_flash_lockout_ready_def)
  qed
qed

text \<open>
  C36. Flash is written only while core 1 is parked. Once core 1 has announced itself, under every
  interleaving of the two cores' statements, every erase and every program happens with core 1 parked
  and interrupts off, and between writes core 1 runs.
\<close>

theorem flash_written_alone:
  assumes "lockout_ok lo" "core1_up lo s0" "(cores_step lo erase program)\<^sup>*\<^sup>* s0 s"
  shows "(writing s \<longrightarrow> lo_parked lo (cr_lock s) \<and> \<not> cr_ints s) \<and>
    (cr_core0 s = FlashIdle \<longrightarrow> \<not> lo_parked lo (cr_lock s) \<and> cr_ints s)"
proof -
  have "cores_inv lo s" using cores.inv_reachable assms by blast
  then show ?thesis by (auto simp: cores_inv_def writing_def)
qed

text \<open>The six statements together are the write that the rest of the development uses.\<close>

theorem flash_statements_write:
  assumes "cr_core0 s = FlashIdle"
  shows "cr_flash ((flash_statement lo erase program (Some (key_page n key)) ^^ 6) s) = board_key_save erase program n (cr_flash s) key"
    and "cr_flash ((flash_statement lo erase program None ^^ 6) s) = board_key_erase erase (cr_flash s)"
  using assms
  by (simp_all add: eval_nat_numeral flash_statement_def flash_begin_def flash_end_def board_key_save_def board_key_erase_def)

definition demo_lockout :: "(bool \<times> bool) lockout" where
  "demo_lockout = \<lparr>lo_victim_init = (\<lambda>l. (True, snd l)), lo_start_blocking = (\<lambda>l. (fst l, fst l)),
     lo_end_blocking = (\<lambda>l. (fst l, False)), lo_victim = fst, lo_parked = snd\<rparr>"

definition demo_cores :: "(bool \<times> bool, nat) cores" where
  "demo_cores = \<lparr>cr_lock = (True, False), cr_ready = True, cr_core0 = FlashIdle, cr_ints = True, cr_core1 = Core1Loop, cr_flash = 0\<rparr>"

theorem flash_written_alone_witness:
  "lo_parked demo_lockout (cr_lock (flash_statement demo_lockout Suc (\<lambda>_. Suc) None
     (flash_statement demo_lockout Suc (\<lambda>_. Suc) None demo_cores)))"
proof -
  let ?f = "flash_statement demo_lockout Suc (\<lambda>_. Suc) None"
  let ?s = "?f (?f demo_cores)"
  have ok: "lockout_ok demo_lockout" by (simp add: lockout_ok_def demo_lockout_def)
  have up: "core1_up demo_lockout demo_cores" by (simp add: core1_up_def demo_lockout_def demo_cores_def)
  have "(cores_step demo_lockout Suc (\<lambda>_. Suc))\<^sup>*\<^sup>* demo_cores ?s"
    by (meson cores_step.core0 r_into_rtranclp rtranclp.rtrancl_into_rtrancl)
  moreover have "writing ?s" by (simp add: writing_def flash_statement_def flash_begin_def demo_cores_def)
  ultimately show ?thesis using flash_written_alone [OF ok up] by blast
qed

text \<open>
  The guard counts on core 1 having announced itself: a write begun before that goes ahead with
  core 1 running, and when the announcement falls into the write, the lockout is ended without having
  been started.
\<close>

theorem early_write_unguarded:
  assumes "\<not> cr_ready s" "cr_core0 s = FlashIdle"
  shows "cr_lock ((flash_statement lo erase program page ^^ 5) s) = cr_lock s"
    and "cr_lock (flash_statement lo erase program page (((flash_statement lo erase program page ^^ 5) s)\<lparr>cr_ready := True\<rparr>)) =
      lo_end_blocking lo (cr_lock s)"
  using assms by (simp_all add: eval_nat_numeral flash_statement_def flash_begin_def flash_end_def)

end
