(* ===== verification/Dhp_Bridge.thy ===== *)
theory Dhp_Bridge
  imports Dhp_Lifecycle Dhp_Usb Dhp_Hardware
begin

text \<open>
  Both USB roles of a board, \<^verbatim>\<open>hid_bridge.c\<close>: the callbacks of the host stack on core 1, the two queues to
  core 0, and the main loop that empties them; and the two other builds of \<^verbatim>\<open>main.c\<close>, diagnostic and
  bring-up, which use the same bridge.

  The queues are the SDK's, a parameter \<open>pico_queue\<close> with what it is documented to do as \<open>queue_ok\<close>: a
  bounded first-in first-out queue whose \<^verbatim>\<open>queue_try_add\<close> refuses when full.
\<close>

section \<open>Queues\<close>

record ('a, 'q) pico_queue =
  pq_init :: "nat \<Rightarrow> 'q"
  pq_try_add :: "'a \<Rightarrow> 'q \<Rightarrow> 'q"
  pq_try_remove :: "'q \<Rightarrow> ('a \<times> 'q) option"

definition queue_ok :: "('a, 'q) pico_queue \<Rightarrow> nat \<Rightarrow> ('q \<Rightarrow> 'a list) \<Rightarrow> bool" where
  "queue_ok Q n items \<longleftrightarrow> items (pq_init Q n) = [] \<and>
     (\<forall>x q. items (pq_try_add Q x q) = (if length (items q) < n then items q @ [x] else items q)) \<and>
     (\<forall>q. pq_try_remove Q q = None \<longleftrightarrow> items q = []) \<and>
     (\<forall>q x q'. pq_try_remove Q q = Some (x, q') \<longrightarrow> items q = x # items q')"

record ('k, 'm) bridge_queues =
  bq_kbd :: "(dhp_kbd_report_t, 'k) pico_queue"
  bq_mouse :: "(dhp_mouse_report_t, 'm) pico_queue"

datatype tuh_call =
    TuhConfigure u8 nat
  | TuhInit u8
  | TuhSetProtocolBoot u8 u8
  | TuhReceiveReport u8 u8

record ('c, 'f, 'k, 'm) bridge =
  br_fw :: "('c, 'f) firmware"
  br_kbd_q :: 'k
  br_mouse_q :: 'm
  br_host :: "tuh_call list"

definition KBD_QUEUE :: nat where "KBD_QUEUE = 32"

definition MOUSE_QUEUE :: nat where "MOUSE_QUEUE = 64"

definition hid_bridge_queues_init :: "('k, 'm) bridge_queues \<Rightarrow> ('c, 'f) firmware \<Rightarrow> ('c, 'f, 'k, 'm) bridge" where
  "hid_bridge_queues_init Q fw =
     \<lparr>br_fw = fw, br_kbd_q = pq_init (bq_kbd Q) KBD_QUEUE, br_mouse_q = pq_init (bq_mouse Q) MOUSE_QUEUE, br_host = []\<rparr>"

section \<open>Host side, core 1\<close>

definition hid_bridge_host_init :: "('c, 'f, 'k, 'm) bridge \<Rightarrow> ('c, 'f, 'k, 'm) bridge" where
  "hid_bridge_host_init b = b\<lparr>br_host := br_host b @ [TuhConfigure 1 PIN_PIO_USB_DP, TuhInit 1]\<rparr>"

definition bridge_mount_cb :: "hid_protocol \<Rightarrow> u8 \<Rightarrow> u8 \<Rightarrow> ('c, 'f, 'k, 'm) bridge \<Rightarrow> ('c, 'f, 'k, 'm) bridge" where
  "bridge_mount_cb proto dev_addr inst b =
     b\<lparr>br_fw := tuh_hid_mount_cb proto (br_fw b),
       br_host := br_host b @ [TuhSetProtocolBoot dev_addr inst, TuhReceiveReport dev_addr inst]\<rparr>"

definition bridge_umount_cb :: "hid_protocol \<Rightarrow> ('c, 'f, 'k, 'm) bridge \<Rightarrow> ('c, 'f, 'k, 'm) bridge" where
  "bridge_umount_cb proto b = b\<lparr>br_fw := tuh_hid_umount_cb proto (br_fw b)\<rparr>"

definition bridge_report_cb ::
  "('k, 'm) bridge_queues \<Rightarrow> hid_protocol \<Rightarrow> u8 \<Rightarrow> u8 \<Rightarrow> u8 list \<Rightarrow> ('c, 'f, 'k, 'm) bridge \<Rightarrow> ('c, 'f, 'k, 'm) bridge" where
  "bridge_report_cb Q proto dev_addr inst report b =
     (let b1 = (case tuh_hid_report_received_cb proto report of
                  None \<Rightarrow> b
                | Some (Inl r) \<Rightarrow> b\<lparr>br_kbd_q := pq_try_add (bq_kbd Q) r (br_kbd_q b)\<rparr>
                | Some (Inr r) \<Rightarrow> b\<lparr>br_mouse_q := pq_try_add (bq_mouse Q) r (br_mouse_q b)\<rparr>)
      in b1\<lparr>br_host := br_host b1 @ [TuhReceiveReport dev_addr inst]\<rparr>)"

section \<open>Device side, core 0\<close>

definition hid_bridge_pop_kbd ::
  "('k, 'm) bridge_queues \<Rightarrow> ('c, 'f, 'k, 'm) bridge \<Rightarrow> (dhp_kbd_report_t \<times> ('c, 'f, 'k, 'm) bridge) option" where
  "hid_bridge_pop_kbd Q b = map_option (\<lambda>(r, q). (r, b\<lparr>br_kbd_q := q\<rparr>)) (pq_try_remove (bq_kbd Q) (br_kbd_q b))"

definition hid_bridge_pop_mouse ::
  "('k, 'm) bridge_queues \<Rightarrow> ('c, 'f, 'k, 'm) bridge \<Rightarrow> (dhp_mouse_report_t \<times> ('c, 'f, 'k, 'm) bridge) option" where
  "hid_bridge_pop_mouse Q b = map_option (\<lambda>(r, q). (r, b\<lparr>br_mouse_q := q\<rparr>)) (pq_try_remove (bq_mouse Q) (br_mouse_q b))"

text \<open>\<open>while (pop(&r))\<close>, with no more rounds than the queue has places.\<close>

primrec pop_all :: "('b \<Rightarrow> ('r \<times> 'b) option) \<Rightarrow> nat \<Rightarrow> 'b \<Rightarrow> 'r list \<times> 'b" where
  "pop_all pop 0 b = ([], b)"
| "pop_all pop (Suc n) b =
     (case pop b of None \<Rightarrow> ([], b) | Some (r, b1) \<Rightarrow> let (rs, b2) = pop_all pop n b1 in (r # rs, b2))"

datatype hid_report_type = HID_REPORT_TYPE_INVALID | HID_REPORT_TYPE_INPUT | HID_REPORT_TYPE_OUTPUT | HID_REPORT_TYPE_FEATURE

definition tud_hid_get_report_cb :: "u8 \<Rightarrow> u8 \<Rightarrow> hid_report_type \<Rightarrow> u16 \<Rightarrow> u16" where
  "tud_hid_get_report_cb inst report_id report_type reqlen = 0"

definition tud_hid_set_report_cb ::
  "fw_env \<Rightarrow> u8 \<times> hid_report_type \<times> u8 list \<Rightarrow> ('c, 'f) firmware \<Rightarrow> ('c, 'f) firmware" where
  "tud_hid_set_report_cb env rep fw =
     (case rep of (inst, report_type, buffer) \<Rightarrow>
        if inst = ITF_VENDOR \<and> report_type = HID_REPORT_TYPE_INVALID then hid_bridge_on_vendor_out env buffer fw
        else fw)"

definition vendor_reports :: "(u8 \<times> hid_report_type \<times> u8 list) list \<Rightarrow> u8 list list" where
  "vendor_reports reps =
     map (\<lambda>(_, _, buffer). buffer) (filter (\<lambda>(inst, ty, _). inst = ITF_VENDOR \<and> ty = HID_REPORT_TYPE_INVALID) reps)"

text \<open>A pass of the main loop over what the machine sent and what the queues hold.\<close>

definition bridge_pass ::
  "'f flash_driver \<Rightarrow> ('k, 'm) bridge_queues \<Rightarrow> fw_env \<Rightarrow> (u8 \<times> hid_report_type \<times> u8 list) list \<Rightarrow>
     ('c, 'f, 'k, 'm) bridge \<Rightarrow> (dhp_kbd_report_t list \<times> dhp_mouse_report_t list \<times> ('c, 'f, 'k, 'm) bridge) option" where
  "bridge_pass dev Q env reps b =
     (let (ks, b1) = pop_all (hid_bridge_pop_kbd Q) KBD_QUEUE b;
          (ms, b2) = pop_all (hid_bridge_pop_mouse Q) MOUSE_QUEUE b1
      in map_option (\<lambda>fw. (ks, ms, b2\<lparr>br_fw := fw\<rparr>))
           (fw_pass dev (env\<lparr>en_vendor_out := vendor_reports reps, en_kbd := ks, en_mouse := ms\<rparr>) (br_fw b2)))"

lemma set_reports_vendor:
  "fold (tud_hid_set_report_cb env) reps fw = fold (hid_bridge_on_vendor_out env) (vendor_reports reps) fw"
proof (induction reps arbitrary: fw)
  case (Cons r reps)
  obtain inst ty buffer where "r = (inst, ty, buffer)" by (cases r)
  with Cons [of "tud_hid_set_report_cb env r fw"] show ?case by (simp add: tud_hid_set_report_cb_def vendor_reports_def)
qed (simp add: vendor_reports_def)

section \<open>Input from end to end\<close>

datatype bridge_event =
    BMount hid_protocol u8 u8
  | BUmount hid_protocol
  | BReport hid_protocol u8 u8 "u8 list"
  | BPass fw_env "(u8 \<times> hid_report_type \<times> u8 list) list"

primrec bridge_do ::
  "'f flash_driver \<Rightarrow> ('k, 'm) bridge_queues \<Rightarrow> bridge_event \<Rightarrow> ('c, 'f, 'k, 'm) bridge \<Rightarrow>
     (dhp_kbd_report_t list \<times> dhp_mouse_report_t list \<times> ('c, 'f, 'k, 'm) bridge) option" where
  "bridge_do dev Q (BMount proto d i) b = Some ([], [], bridge_mount_cb proto d i b)"
| "bridge_do dev Q (BUmount proto) b = Some ([], [], bridge_umount_cb proto b)"
| "bridge_do dev Q (BReport proto d i report) b = Some ([], [], bridge_report_cb Q proto d i report b)"
| "bridge_do dev Q (BPass env reps) b = bridge_pass dev Q env reps b"

text \<open>What the passes of a run handed to the router, and the final state.\<close>

primrec bridge_run ::
  "'f flash_driver \<Rightarrow> ('k, 'm) bridge_queues \<Rightarrow> bridge_event list \<Rightarrow> ('c, 'f, 'k, 'm) bridge \<Rightarrow>
     (dhp_kbd_report_t list \<times> dhp_mouse_report_t list \<times> ('c, 'f, 'k, 'm) bridge) option" where
  "bridge_run dev Q [] b = Some ([], [], b)"
| "bridge_run dev Q (e # es) b =
     do {
       (ks, ms, b1) \<leftarrow> bridge_do dev Q e b;
       (ks', ms', b2) \<leftarrow> bridge_run dev Q es b1;
       Some (ks @ ks', ms @ ms', b2)
     }"

text \<open>What the devices reported, as the boot protocol gives it.\<close>

fun captured_kbd :: "bridge_event list \<Rightarrow> dhp_kbd_report_t list" where
  "captured_kbd [] = []"
| "captured_kbd (BReport proto d i report # es) =
     (case tuh_hid_report_received_cb proto report of Some (Inl r) \<Rightarrow> r # captured_kbd es | _ \<Rightarrow> captured_kbd es)"
| "captured_kbd (e # es) = captured_kbd es"

fun captured_mouse :: "bridge_event list \<Rightarrow> dhp_mouse_report_t list" where
  "captured_mouse [] = []"
| "captured_mouse (BReport proto d i report # es) =
     (case tuh_hid_report_received_cb proto report of Some (Inr r) \<Rightarrow> r # captured_mouse es | _ \<Rightarrow> captured_mouse es)"
| "captured_mouse (e # es) = captured_mouse es"

text \<open>No burst between two passes is longer than the queues, counting what they hold already.\<close>

fun bursts_fit :: "nat \<Rightarrow> nat \<Rightarrow> bridge_event list \<Rightarrow> bool" where
  "bursts_fit i j [] \<longleftrightarrow> True"
| "bursts_fit i j (BPass env reps # es) \<longleftrightarrow> bursts_fit 0 0 es"
| "bursts_fit i j (BReport proto d n report # es) \<longleftrightarrow>
     (case tuh_hid_report_received_cb proto report of
        Some (Inl _) \<Rightarrow> i < KBD_QUEUE \<and> bursts_fit (Suc i) j es
      | Some (Inr _) \<Rightarrow> j < MOUSE_QUEUE \<and> bursts_fit i (Suc j) es
      | None \<Rightarrow> bursts_fit i j es)"
| "bursts_fit i j (e # es) \<longleftrightarrow> bursts_fit i j es"

lemma pop_all_queue:
  assumes "\<And>b. pop b = None \<longleftrightarrow> items b = []" "\<And>b r b'. pop b = Some (r, b') \<Longrightarrow> items b = r # items b'"
    and "pop_all pop n b = (rs, b')" "length (items b) \<le> n"
  shows "rs = items b \<and> items b' = []"
  using assms(3,4)
proof (induction n arbitrary: b rs b')
  case (Suc n)
  show ?case
  proof (cases "pop b")
    case None
    then have "items b = []" using assms(1) by blast
    with None Suc.prems show ?thesis by simp
  next
    case (Some x)
    then obtain r b1 where p: "pop b = Some (r, b1)" by (cases x) auto
    obtain rs1 b2 where r: "pop_all pop n b1 = (rs1, b2)" by fastforce
    from Suc.IH [OF r] show ?thesis using Suc.prems p r assms(2) [OF p] by simp
  qed
qed simp

lemma pop_all_keeps:
  assumes "\<And>b r b'. pop b = Some (r, b') \<Longrightarrow> g b' = g b" "pop_all pop n b = (rs, b')"
  shows "g b' = g b"
  using assms(2)
proof (induction n arbitrary: b rs b')
  case (Suc n)
  then show ?case using assms(1) by (auto split: option.splits prod.splits)
qed simp

text \<open>What a pass takes out of the queues: everything, in order.\<close>

lemma bridge_pass_drains:
  fixes b :: "('c, 'f, 'k, 'm) bridge"
  assumes k: "queue_ok (bq_kbd Q) KBD_QUEUE ik" and m: "queue_ok (bq_mouse Q) MOUSE_QUEUE im"
    and len: "length (ik (br_kbd_q b)) \<le> KBD_QUEUE" "length (im (br_mouse_q b)) \<le> MOUSE_QUEUE"
    and run: "bridge_pass dev Q env reps b = Some (ks, ms, b')"
  shows "ks = ik (br_kbd_q b) \<and> ms = im (br_mouse_q b) \<and> ik (br_kbd_q b') = [] \<and> im (br_mouse_q b') = []"
proof -
  obtain ks1 b1 where p1: "pop_all (hid_bridge_pop_kbd Q) KBD_QUEUE b = (ks1, b1)" by fastforce
  obtain ms2 b2 where p2: "pop_all (hid_bridge_pop_mouse Q) MOUSE_QUEUE b1 = (ms2, b2)" by fastforce
  have kb: "hid_bridge_pop_kbd Q b = None \<longleftrightarrow> ik (br_kbd_q b) = []"
    "hid_bridge_pop_kbd Q b = Some (r, b') \<Longrightarrow> ik (br_kbd_q b) = r # ik (br_kbd_q b') \<and> br_mouse_q b' = br_mouse_q b"
    for b b' :: "('c, 'f, 'k, 'm) bridge" and r
    using k unfolding queue_ok_def by (auto simp: hid_bridge_pop_kbd_def)
  have mo: "hid_bridge_pop_mouse Q b = None \<longleftrightarrow> im (br_mouse_q b) = []"
    "hid_bridge_pop_mouse Q b = Some (r, b') \<Longrightarrow> im (br_mouse_q b) = r # im (br_mouse_q b') \<and> br_kbd_q b' = br_kbd_q b"
    for b b' :: "('c, 'f, 'k, 'm) bridge" and r
    using m unfolding queue_ok_def by (auto simp: hid_bridge_pop_mouse_def)
  have q1: "ks1 = ik (br_kbd_q b) \<and> ik (br_kbd_q b1) = []"
    using pop_all_queue [where items = "\<lambda>b. ik (br_kbd_q b)", OF kb(1) _ p1 len(1)] kb(2) by blast
  have m1: "br_mouse_q b1 = br_mouse_q b"
    using pop_all_keeps [where g = br_mouse_q, OF _ p1] kb(2) by blast
  have q2: "ms2 = im (br_mouse_q b1) \<and> im (br_mouse_q b2) = []"
    using pop_all_queue [where items = "\<lambda>b. im (br_mouse_q b)", OF mo(1) _ p2] len(2) m1 mo(2) by simp
  have k2: "br_kbd_q b2 = br_kbd_q b1"
    using pop_all_keeps [where g = br_kbd_q, OF _ p2] mo(2) by blast
  show ?thesis using run q1 q2 m1 k2 by (auto simp: bridge_pass_def p1 p2)
qed

lemma captured_pass_free:
  assumes "queue_ok (bq_kbd Q) KBD_QUEUE ik" "queue_ok (bq_mouse Q) MOUSE_QUEUE im"
    and "bursts_fit (length (ik (br_kbd_q b))) (length (im (br_mouse_q b))) (BReport proto d n report # es)"
  defines "b' \<equiv> bridge_report_cb Q proto d n report b"
  shows "ik (br_kbd_q b) @ captured_kbd (BReport proto d n report # es) = ik (br_kbd_q b') @ captured_kbd es \<and>
    im (br_mouse_q b) @ captured_mouse (BReport proto d n report # es) = im (br_mouse_q b') @ captured_mouse es \<and>
    bursts_fit (length (ik (br_kbd_q b'))) (length (im (br_mouse_q b'))) es"
  using assms(3)
  by (cases "tuh_hid_report_received_cb proto report")
    (use assms(1,2) in \<open>auto simp: b'_def bridge_report_cb_def queue_ok_def split: sum.splits\<close>)

lemma bridge_run_order:
  assumes "queue_ok (bq_kbd Q) KBD_QUEUE ik" "queue_ok (bq_mouse Q) MOUSE_QUEUE im"
    and "length (ik (br_kbd_q b)) \<le> KBD_QUEUE" "length (im (br_mouse_q b)) \<le> MOUSE_QUEUE"
    and "bursts_fit (length (ik (br_kbd_q b))) (length (im (br_mouse_q b))) es"
    and "bridge_run dev Q es b = Some (ks, ms, b')"
  shows "ks @ ik (br_kbd_q b') = ik (br_kbd_q b) @ captured_kbd es \<and> ms @ im (br_mouse_q b') = im (br_mouse_q b) @ captured_mouse es \<and>
    length (ik (br_kbd_q b')) \<le> KBD_QUEUE \<and> length (im (br_mouse_q b')) \<le> MOUSE_QUEUE"
  using assms(3-6)
proof (induction es arbitrary: b ks ms)
  case (Cons e es)
  from Cons.prems(4) obtain k1 m1 b1 k2 m2 where
    e: "bridge_do dev Q e b = Some (k1, m1, b1)" "bridge_run dev Q es b1 = Some (k2, m2, b')" "ks = k1 @ k2" "ms = m1 @ m2"
    by (auto simp: bind_eq_Some_conv)
  show ?case
  proof (cases e)
    case (BPass env reps)
    then have p: "k1 = ik (br_kbd_q b)" "m1 = im (br_mouse_q b)" "ik (br_kbd_q b1) = []" "im (br_mouse_q b1) = []"
      using bridge_pass_drains [OF assms(1,2) Cons.prems(1,2)] e(1) by auto
    with Cons.IH [OF _ _ _ e(2)] Cons.prems(3) BPass e show ?thesis by simp
  next
    case (BReport proto d n report)
    then have b1: "b1 = bridge_report_cb Q proto d n report b" "k1 = []" "m1 = []" using e(1) by auto
    have c: "length (ik (br_kbd_q b1)) \<le> KBD_QUEUE" "length (im (br_mouse_q b1)) \<le> MOUSE_QUEUE"
      using assms(1,2) Cons.prems(1,2) unfolding b1(1)
      by (auto simp: bridge_report_cb_def queue_ok_def Let_def split: option.split sum.split)
    note f = captured_pass_free [OF assms(1,2) Cons.prems(3) [unfolded BReport], folded b1(1)]
    from Cons.IH [OF c _ e(2)] f show ?thesis unfolding e(3,4) b1(2,3) BReport by simp
  next
    case (BMount proto d i)
    with Cons.IH [OF _ _ _ e(2)] Cons.prems e show ?thesis by (auto simp: bridge_mount_cb_def)
  next
    case (BUmount proto)
    with Cons.IH [OF _ _ _ e(2)] Cons.prems e show ?thesis by (auto simp: bridge_umount_cb_def)
  qed
qed simp

lemma bridge_run_append:
  "bridge_run dev Q (es @ fs) b =
     do {
       (k1, m1, b1) \<leftarrow> bridge_run dev Q es b;
       (k2, m2, b2) \<leftarrow> bridge_run dev Q fs b1;
       Some (k1 @ k2, m1 @ m2, b2)
     }"
proof (induction es arbitrary: b)
  case Nil
  show ?case by (cases "bridge_run dev Q fs b") auto
next
  case (Cons e es)
  show ?case
  proof (cases "bridge_do dev Q e b")
    case (Some x)
    obtain k m b1 where x: "x = (k, m, b1)" by (cases x)
    show ?thesis
      by (cases "bridge_run dev Q es b1") (auto simp: Some x Cons split: bind_splits)
  qed simp
qed


definition list_queue :: "nat \<Rightarrow> ('a, 'a list) pico_queue" where
  "list_queue n = \<lparr>pq_init = (\<lambda>_. []), pq_try_add = (\<lambda>x q. if length q < n then q @ [x] else q),
     pq_try_remove = (\<lambda>q. case q of [] \<Rightarrow> None | x # q \<Rightarrow> Some (x, q))\<rparr>"

lemma list_queue_ok: "queue_ok (list_queue n) n (\<lambda>q. q)"
  by (auto simp: queue_ok_def list_queue_def split: list.splits)

definition demo_queues :: "(dhp_kbd_report_t list, dhp_mouse_report_t list) bridge_queues" where
  "demo_queues = \<lparr>bq_kbd = list_queue KBD_QUEUE, bq_mouse = list_queue MOUSE_QUEUE\<rparr>"

definition demo_typing :: "bridge_event list" where
  "demo_typing = [BMount HID_PROTOCOL_KEYBOARD 1 0, BReport HID_PROTOCOL_KEYBOARD 1 0 [2, 0, 4, 0, 0, 0, 0, 0],
     BReport HID_PROTOCOL_KEYBOARD 1 0 (replicate 8 0)]"

lemma demo_typing_facts:
  "bursts_fit 0 0 demo_typing" "captured_kbd demo_typing = [\<lparr>kb_modifiers = 2, kb_keys = [4, 0, 0, 0, 0, 0]\<rparr>, kbd_empty]"
  by code_simp+

lemma drain_port_quiet: "board_uart_read (fw_ports fw ! port_index p) = None \<Longrightarrow> drain_port env p n fw = Some fw"
  by (cases n) simp_all

lemma each_report_total: "(\<And>r s. g r s \<noteq> None) \<Longrightarrow> \<exists>s'. each_report g rs s = Some s'"
proof (induction rs arbitrary: s)
  case (Cons r rs)
  then obtain s1 where "g r s = Some s1" by fastforce
  with Cons show ?case by simp
qed simp

lemma quiet_pass:
  assumes "\<And>p. p \<noteq> DHP_PORT_LOCAL \<Longrightarrow> board_uart_read (fw_ports fw ! port_index p) = None" "en_vendor_out env = []" "en_mouse env = []" "\<not> en_switch env"
  shows "\<exists>fw'. fw_pass dev env fw = Some fw'"
proof -
  let ?fw = "fw\<lparr>fw_n_kbd := 0, fw_n_mouse := 0\<rparr>"
  let ?kbd = "\<lambda>k. call_router env (\<lambda>r. Some (dhp_router_local_kbd r k (en_now env)))"
  have "?kbd k s \<noteq> None" for k and s :: "('a, 'b) firmware" by (simp add: call_router_def)
  from each_report_total [of ?kbd, OF this] obtain f1 where f1: "each_report ?kbd (en_kbd env) ?fw = Some f1" by blast
  obtain f2 where f2: "poll_switch env f1 = Some f2"
    using assms(4) by (cases "board_switch_pressed (fw_switch f1) False (en_now env)")
      (auto simp: poll_switch_def board_switch_pressed_def split: if_splits)
  have d: "drain_port env p n ?fw = Some ?fw" if "p \<noteq> DHP_PORT_LOCAL" for p n using assms(1) that by (intro drain_port_quiet) simp
  show ?thesis by (simp add: fw_pass_def assms(2,3) d f1 f2)
qed

lemma report_cb_keeps:
  "br_fw (bridge_report_cb Q proto d i report b) = br_fw b"
  "br_mouse_q (bridge_report_cb Q HID_PROTOCOL_KEYBOARD d i report b) = br_mouse_q b"
  by (auto simp: bridge_report_cb_def tuh_hid_report_received_cb_def Let_def split: option.split sum.split)

definition demo_bridge :: "(nat, u8 list, dhp_kbd_report_t list, dhp_mouse_report_t list) bridge" where
  "demo_bridge = hid_bridge_queues_init demo_queues (fw_init demo_flash (demo_crypto 3) 7 [])"

text \<open>A keyboard is plugged in, a capital A is typed and released, and the main loop comes round.\<close>

definition demo_typed :: "(nat, u8 list, dhp_kbd_report_t list, dhp_mouse_report_t list) bridge" where
  "demo_typed = bridge_report_cb demo_queues HID_PROTOCOL_KEYBOARD 1 0 (replicate 8 0)
     (bridge_report_cb demo_queues HID_PROTOCOL_KEYBOARD 1 0 [2, 0, 4, 0, 0, 0, 0, 0]
       (bridge_mount_cb HID_PROTOCOL_KEYBOARD 1 0 demo_bridge))"

lemma demo_typed_run: "bridge_run demo_flash demo_queues demo_typing demo_bridge = Some ([], [], demo_typed)"
  by (simp add: demo_typing_def demo_typed_def)

lemma fw_init_ports: "fw_ports (fw_init dev crypto uid flash) = replicate DHP_PORT_COUNT uart_port_zero"
  by (simp add: fw_init_def Let_def)

lemma mount_ports: "fw_ports (tuh_hid_mount_cb proto fw) = fw_ports fw"
  by (simp add: tuh_hid_mount_cb_def split: hid_protocol.split)

lemma demo_typed_fields:
  "fw_ports (br_fw demo_typed) = replicate DHP_PORT_COUNT uart_port_zero" "br_mouse_q demo_typed = []"
proof -
  have "br_fw demo_typed = tuh_hid_mount_cb HID_PROTOCOL_KEYBOARD (fw_init demo_flash (demo_crypto 3) 7 [])"
    by (simp only: demo_typed_def report_cb_keeps) (simp add: bridge_mount_cb_def demo_bridge_def hid_bridge_queues_init_def)
  then show "fw_ports (br_fw demo_typed) = replicate DHP_PORT_COUNT uart_port_zero" by (simp only: mount_ports fw_init_ports)
  show "br_mouse_q demo_typed = []"
    by (simp only: demo_typed_def report_cb_keeps)
      (simp add: bridge_mount_cb_def demo_bridge_def hid_bridge_queues_init_def demo_queues_def list_queue_def)
qed

lemma pop_all_kbd_keeps:
  assumes "pop_all (hid_bridge_pop_kbd Q) n b = (ks, b')"
  shows "br_fw b' = br_fw b" "br_mouse_q b' = br_mouse_q b"
  by (rule pop_all_keeps [OF _ assms], force simp: hid_bridge_pop_kbd_def)+

lemma pop_all_none: "pop b = None \<Longrightarrow> pop_all pop n b = ([], b)"
  by (cases n) simp_all

lemma zero_port_quiet: "board_uart_read uart_port_zero = None"
  by (simp add: board_uart_read_def uart_port_zero_def ring_pop_def ring_zero_def)

lemma demo_pass: "\<exists>b. bridge_pass demo_flash demo_queues demo_env [] demo_typed = Some b"
proof -
  obtain ks b1 where p1: "pop_all (hid_bridge_pop_kbd demo_queues) KBD_QUEUE demo_typed = (ks, b1)"
    by (cases "pop_all (hid_bridge_pop_kbd demo_queues) KBD_QUEUE demo_typed")
  note k1 = pop_all_kbd_keeps [OF p1]
  have "hid_bridge_pop_mouse demo_queues b1 = None"
    unfolding hid_bridge_pop_mouse_def k1(2) demo_typed_fields(2) by (simp add: demo_queues_def list_queue_def)
  then have p2: "pop_all (hid_bridge_pop_mouse demo_queues) MOUSE_QUEUE b1 = ([], b1)" by (rule pop_all_none)
  let ?env = "demo_env\<lparr>en_vendor_out := vendor_reports [], en_kbd := ks, en_mouse := []\<rparr>"
  have "board_uart_read (fw_ports (br_fw b1) ! port_index p) = None" if "p \<noteq> DHP_PORT_LOCAL" for p
    unfolding k1(1) demo_typed_fields(1) using that zero_port_quiet by (cases p) (simp_all add: DHP_PORT_COUNT_def)
  from quiet_pass [OF this, of ?env demo_flash] obtain fw' where "fw_pass demo_flash ?env (br_fw b1) = Some fw'"
    by (auto simp: vendor_reports_def demo_env_def)
  then show ?thesis unfolding bridge_pass_def p1 p2 prod.case Let_def by simp
qed


section \<open>The other builds\<close>

text \<open>
  The diagnostic image: what the devices send goes straight to the board's own machine, the LED shows what the
  host stack sees, and the switch button types a letter.  Between the letter and its release the loop
  waits and serves the device stack once (\<open>mid\<close>), and once more at its end.
\<close>

record diag_t =
  dg_flash_until :: dhp_time_t
  dg_flashing :: bool

definition key_a :: dhp_kbd_report_t where
  "key_a = \<lparr>kb_modifiers = 0, kb_keys = [4, 0, 0, 0, 0, 0]\<rparr>"

definition diag_flash :: "dhp_time_t \<Rightarrow> bool \<Rightarrow> diag_t \<Rightarrow> diag_t" where
  "diag_flash now saw_report d =
     (let d1 = (if saw_report then \<lparr>dg_flash_until = now + 250, dg_flashing = True\<rparr> else d)
      in if dg_flashing d1 \<and> dhp_time_after now (dg_flash_until d1) then d1\<lparr>dg_flashing := False\<rparr> else d1)"

definition diag_button ::
  "fw_env \<Rightarrow> (u8 \<times> hid_report_type \<times> u8 list) list \<Rightarrow> ('c, 'f) firmware \<Rightarrow> ('c, 'f) firmware" where
  "diag_button env mid fw =
     (let (s, pressed) = board_switch_pressed (fw_switch fw) (en_switch env) (en_now env);
          fw1 = fw\<lparr>fw_switch := s\<rparr>
      in if pressed then on_kbd env kbd_empty (fold (tud_hid_set_report_cb env) mid (on_kbd env key_a fw1)) else fw1)"

definition diag_pass ::
  "('k, 'm) bridge_queues \<Rightarrow> fw_env \<Rightarrow> (u8 \<times> hid_report_type \<times> u8 list) list \<Rightarrow> (u8 \<times> hid_report_type \<times> u8 list) list \<Rightarrow>
     diag_t \<times> ('c, 'f, 'k, 'm) bridge \<Rightarrow> diag_t \<times> ('c, 'f, 'k, 'm) bridge" where
  "diag_pass Q env mid reps db =
     (let (ks, b1) = pop_all (hid_bridge_pop_kbd Q) KBD_QUEUE (snd db);
          fw1 = fold (on_kbd env) ks ((br_fw b1)\<lparr>fw_n_kbd := 0, fw_n_mouse := 0\<rparr>);
          (ms, b2) = pop_all (hid_bridge_pop_mouse Q) MOUSE_QUEUE b1;
          fw2 = fold (on_mouse env) ms fw1;
          d = diag_flash (en_now env) (ks \<noteq> [] \<or> ms \<noteq> []) (fst db);
          fw3 = diag_button env mid fw2;
          fw4 = set_led (if dg_flashing d then LED_FOCUSED
                         else if hid_bridge_has_input_device fw3 then LED_ACTIVE else LED_UNPAIRED) fw3;
          fw5 = fold (tud_hid_set_report_cb env) reps (run_led env fw4)
      in (d, b2\<lparr>br_fw := fw5\<rparr>))"

text \<open>
  The bring-up image: no host stack and no client proxy, so both queues stay empty; the switch button moves the
  pointer instead of the focus.
\<close>

definition bringup_switch :: "fw_env \<Rightarrow> ('c, 'f) firmware \<Rightarrow> ('c, 'f) firmware" where
  "bringup_switch env fw =
     (let (s, pressed) = board_switch_pressed (fw_switch fw) (en_switch env) (en_now env);
          fw1 = fw\<lparr>fw_switch := s\<rparr>
      in if pressed then set_led LED_ACTIVE_FOCUSED (on_mouse env (mouse_empty\<lparr>mo_dx := 30\<rparr>) fw1) else fw1)"

definition bringup_led :: "bool \<Rightarrow> ('c, 'f) firmware \<Rightarrow> ('c, 'f) firmware" where
  "bringup_led claimed fw = set_led LED_UNPAIRED (fw\<lparr>fw_led := board_led_hw_init (fw_led fw) claimed\<rparr>)"

definition bringup_pass :: "'f flash_driver \<Rightarrow> fw_env \<Rightarrow> ('c, 'f) firmware \<Rightarrow> ('c, 'f) firmware option" where
  "bringup_pass dev env fw0 =
     do {
       let now = en_now env;
       let fw = fold (hid_bridge_on_vendor_out env) (en_vendor_out env) (fw0\<lparr>fw_n_kbd := 0, fw_n_mouse := 0\<rparr>);
       fw \<leftarrow> drain_port env DHP_PORT_UP (unat RING_SIZE) fw;
       fw \<leftarrow> drain_port env DHP_PORT_DOWN (unat RING_SIZE) fw;
       let fw = update_caps env (poll_pair_button dev env (bringup_switch env fw));
       let fw = pairing_drain dev env (fw\<lparr>fw_pair := dhp_pair_tick (fw_pair fw) now\<rparr>);
       let fw = run_led env (refresh_led now fw);
       Some (put_router env (dhp_router_tick (fw_router fw) now) fw)
     }"

lemma bringup_nudges:
  assumes "snd (board_switch_pressed (fw_switch fw) (en_switch env) (en_now env))" "en_mouse_ready env (fw_n_mouse fw)"
  shows "fw_usb (bringup_switch env fw) = fw_usb fw @ [UsbMouse 0 30 0 0 0]"
  using assms
  by (cases "board_switch_pressed (fw_switch fw) (en_switch env) (en_now env)")
    (simp add: bringup_switch_def set_led_def on_mouse_def hid_bridge_send_mouse_def mouse_empty_def clamp_delta_def)

text \<open>
  In the diagnostic image every report reaches the board's own machine, the letter is followed by its
  release, and the router is not touched, as long as the machine collects and no client sends.
\<close>

lemma on_kbd_one: "(\<And>n. en_kbd_ready env n) \<Longrightarrow> fw_usb (on_kbd env k fw) = fw_usb fw @ [UsbKbd (kb_modifiers k) (kb_keys k)]"
  by (simp add: on_kbd_def hid_bridge_send_kbd_def)

lemma on_kbd_all:
  "(\<And>n. en_kbd_ready env n) \<Longrightarrow>
     fw_usb (fold (on_kbd env) ks fw) = fw_usb fw @ map (\<lambda>k. UsbKbd (kb_modifiers k) (kb_keys k)) ks"
  by (induction ks arbitrary: fw) (simp_all add: on_kbd_one)

lemma on_kbd_router: "fw_router (fold (on_kbd env) ks fw) = fw_router fw" "fw_switch (fold (on_kbd env) ks fw) = fw_switch fw"
  by (induction ks arbitrary: fw) (simp_all add: on_kbd_def)

theorem diag_forwards:
  fixes d :: diag_t
  assumes "\<And>n. en_kbd_ready env n" "hid_bridge_pop_mouse Q (snd (pop_all (hid_bridge_pop_kbd Q) KBD_QUEUE b)) = None"
    and "pop_all (hid_bridge_pop_kbd Q) KBD_QUEUE b = (ks, b1)"
  defines "fw \<equiv> br_fw b1"
  defines "fw' \<equiv> br_fw (snd (diag_pass Q env [] [] (d, b)))"
  shows "fw_router fw' = fw_router fw" "fw_usb fw' = fw_usb fw @ map (\<lambda>k. UsbKbd (kb_modifiers k) (kb_keys k)) ks @
      (if snd (board_switch_pressed (fw_switch fw) (en_switch env) (en_now env))
       then [UsbKbd 0 [4, 0, 0, 0, 0, 0], UsbKbd 0 (replicate 6 0)] else [])"
proof -
  have m: "pop_all (hid_bridge_pop_mouse Q) MOUSE_QUEUE b1 = ([], b1)" using assms(2,3) by (simp add: pop_all_none)
  obtain s p where sp: "board_switch_pressed (fw_switch fw) (en_switch env) (en_now env) = (s, p)" by fastforce
  let ?fw = "fold (on_kbd env) ks (fw\<lparr>fw_n_kbd := 0, fw_n_mouse := 0\<rparr>)"
  obtain led where fw': "fw' = (diag_button env [] ?fw)\<lparr>fw_led := led\<rparr>"
    unfolding fw'_def diag_pass_def snd_conv fst_conv assms(3) prod.case m Let_def fw_def
    by (simp add: set_led_def run_led_def)
  have "fw_switch ?fw = fw_switch fw" by (simp add: on_kbd_router)
  then have b: "diag_button env [] ?fw =
      (if p then on_kbd env kbd_empty (on_kbd env key_a (?fw\<lparr>fw_switch := s\<rparr>)) else ?fw\<lparr>fw_switch := s\<rparr>)"
    by (simp add: diag_button_def sp)
  show "fw_router fw' = fw_router fw" by (simp add: fw' b on_kbd_router on_kbd_def)
  show "fw_usb fw' = fw_usb fw @ map (\<lambda>k. UsbKbd (kb_modifiers k) (kb_keys k)) ks @
      (if snd (board_switch_pressed (fw_switch fw) (en_switch env) (en_now env))
       then [UsbKbd 0 [4, 0, 0, 0, 0, 0], UsbKbd 0 (replicate 6 0)] else [])"
    unfolding sp by (simp add: fw' b on_kbd_one [OF assms(1)] on_kbd_all [OF assms(1)]) (simp add: key_a_def kbd_empty_def)
qed

section \<open>Devices that leave\<close>

text \<open>
  Behind a hub there may be two keyboards.  When one of them is unplugged the board believes that it has none.
\<close>

theorem second_keyboard_forgotten:
  assumes "\<not> fw_have_mouse fw"
  shows "\<not> hid_bridge_has_input_device (tuh_hid_umount_cb HID_PROTOCOL_KEYBOARD
    (tuh_hid_mount_cb HID_PROTOCOL_KEYBOARD (tuh_hid_mount_cb HID_PROTOCOL_KEYBOARD fw)))"
  using assms by (simp add: hid_bridge_has_input_device_def tuh_hid_umount_cb_def tuh_hid_mount_cb_def)

text \<open>
  \<^verbatim>\<open>router.h\<close> says of \<^verbatim>\<open>dhp_router_set_caps\<close> that a keyboard unplugged mid-chord strands no key, because a
  better peer preempts the board.  Boards do not preempt, so on a chain without coordinator nobody does.
\<close>

definition unchallenged :: "dhp_router_t \<Rightarrow> bool" where
  "unchallenged r \<longleftrightarrow> (let u = rt_uhrp r in u_started u \<and> u_state u = DHP_UHRP_ACTIVE \<and> \<not> u_resign_pending u \<and> u_ev u = events_zero \<and>
     (\<forall>p \<in> set (u_peers u). up_used p \<longrightarrow> up_state p \<noteq> uhrp_state_code DHP_UHRP_ACTIVE \<and> up_flags p AND DHP_HELLO_F_PREEMPT = 0))"

definition no_input :: "router_event \<Rightarrow> bool" where
  "no_input e \<longleftrightarrow> (case e of RTx _ \<Rightarrow> True | RLevelChanged _ \<Rightarrow> True | _ \<Rightarrow> False)"

lemma reevaluate_unchallenged:
  assumes "u_started u" "u_state u = DHP_UHRP_ACTIVE" "\<not> u_resign_pending u"
    and "\<forall>p \<in> set (u_peers u). up_used p \<longrightarrow> up_state p \<noteq> uhrp_state_code DHP_UHRP_ACTIVE \<and> up_flags p AND DHP_HELLO_F_PREEMPT = 0"
  shows "reevaluate u now = (peer_age u now)\<lparr>u_standby := sc_backup_addr (scan (peer_age u now))\<rparr>"
proof -
  let ?a = "peer_age u now"
  have p: "up_state p \<noteq> uhrp_state_code DHP_UHRP_ACTIVE \<and> up_flags p AND DHP_HELLO_F_PREEMPT = 0" if "p \<in> set (u_peers ?a)" "up_used p" for p
    using that assms(4) by (auto simp: peer_age_def split: if_splits)
  then have "find_active_peer ?a = None" by (auto simp: find_active_peer_def find_idx_None_iff)
  moreover have "\<not> list_ex (wants_role sc) (u_peers ?a)" for sc using p by (auto simp: list_ex_iff wants_role_def)
  ultimately show ?thesis
    using assms(1-3) by (simp add: reevaluate_def reeval_active_def service_resign_def Let_def)
qed

lemma tick_unchallenged:
  assumes "unchallenged r"
  shows "unchallenged (dhp_router_tick r now)" "rt_hid (dhp_router_tick r now) = rt_hid r"
    "\<exists>es. rt_out (dhp_router_tick r now) = rt_out r @ es \<and> list_all no_input es"
proof -
  let ?u = "rt_uhrp r"
  let ?r = "r\<lparr>rt_link := dhp_link_tick (rt_link r) now\<rparr>"
  have u: "u_started ?u" "u_state ?u = DHP_UHRP_ACTIVE" "\<not> u_resign_pending ?u" "u_ev ?u = events_zero"
    "\<forall>p \<in> set (u_peers ?u). up_used p \<longrightarrow> up_state p \<noteq> uhrp_state_code DHP_UHRP_ACTIVE \<and> up_flags p AND DHP_HELLO_F_PREEMPT = 0"
    using assms by (simp_all add: unchallenged_def Let_def)
  obtain x where x: "reevaluate ?u now = (peer_age ?u now)\<lparr>u_standby := x\<rparr>" using reevaluate_unchallenged [OF u(1-3,5)] by blast
  define v where "v = dhp_uhrp_tick ?u now"
  have v: "v = hello_timer ((peer_age ?u now)\<lparr>u_standby := x\<rparr>) now"
    using u(1,2) x by (simp add: v_def dhp_uhrp_tick_def note_vacancy_def)
  define b where "b = dhp_time_after now (u_t_next_hello ?u)"
  have ev: "u_ev v = events_zero\<lparr>ue_send_hello := b\<rparr>"
    using u(4) by (simp add: v hello_timer_def peer_age_def events_zero_def b_def)
  have vr: "u_started v" "u_state v = DHP_UHRP_ACTIVE" "\<not> u_resign_pending v" "u_peers v = u_peers (peer_age ?u now)"
    using u by (simp_all add: v)
  define w where "w = ?r\<lparr>rt_uhrp := v\<lparr>u_ev := events_zero\<rparr>\<rparr>"
  have d: "drain_uhrp (?r\<lparr>rt_uhrp := v\<rparr>) now =
      (if b then router_send DHP_MSG_HELLO DHP_ADDR_BROADCAST (Some (dhp_hello_pack (dhp_uhrp_build_hello (rt_uhrp w)))) now w else w)"
    by (simp add: drain_uhrp_def dhp_uhrp_take_events_def ev events_zero_def w_def)
  obtain tx where o: "rt_out (drain_uhrp (?r\<lparr>rt_uhrp := v\<rparr>) now) = rt_out r @ map RTx tx"
    unfolding d by (cases b) (auto simp: router_send_out w_def)
  have t: "dhp_router_tick r now = recompute_level (drain_uhrp (?r\<lparr>rt_uhrp := v\<rparr>) now)"
    by (simp add: dhp_router_tick_def v_def)
  have c: "rt_uhrp (dhp_router_tick r now) = v\<lparr>u_ev := events_zero\<rparr>" unfolding t d by (simp add: w_def)
  show "unchallenged (dhp_router_tick r now)"
    unfolding unchallenged_def c using vr u(5) by (auto simp: peer_age_def)
  show "rt_hid (dhp_router_tick r now) = rt_hid r" unfolding t d by (simp add: w_def)
  show "\<exists>es. rt_out (dhp_router_tick r now) = rt_out r @ es \<and> list_all no_input es"
    unfolding t recompute_level_def Let_def call_hook_def using o by (auto simp: no_input_def list_all_iff)
qed

lemma set_caps_unchallenged:
  "unchallenged r \<Longrightarrow> unchallenged (dhp_router_set_caps r caps)"
  "rt_hid (dhp_router_set_caps r caps) = rt_hid r" "rt_out (dhp_router_set_caps r caps) = rt_out r"
  by (simp_all add: dhp_router_set_caps_def unchallenged_def upd_chain_def Let_def split: option.split)

theorem unplugged_key_stays_down:
  fixes ts :: "dhp_time_t list" and caps :: u16
  assumes "unchallenged r"
  defines "r' \<equiv> fold (\<lambda>t r. dhp_router_tick r t) ts (dhp_router_set_caps r caps)"
  shows "rt_hid r' = rt_hid r \<and> (\<exists>es. rt_out r' = rt_out r @ es \<and> list_all no_input es)"
proof -
  have "rt_hid (fold (\<lambda>t r. dhp_router_tick r t) ts s) = rt_hid s \<and>
      (\<exists>es. rt_out (fold (\<lambda>t r. dhp_router_tick r t) ts s) = rt_out s @ es \<and> list_all no_input es)" if "unchallenged s" for s
    using that
  proof (induction ts arbitrary: s)
    case (Cons t ts)
    obtain es where "rt_out (dhp_router_tick s t) = rt_out s @ es" "list_all no_input es"
      using tick_unchallenged(3) [OF Cons.prems] by blast
    moreover obtain fs where "rt_out (fold (\<lambda>t r. dhp_router_tick r t) ts (dhp_router_tick s t)) = rt_out (dhp_router_tick s t) @ fs"
      "list_all no_input fs" "rt_hid (fold (\<lambda>t r. dhp_router_tick r t) ts (dhp_router_tick s t)) = rt_hid (dhp_router_tick s t)"
      using Cons.IH [OF tick_unchallenged(1) [OF Cons.prems, of t]] by blast
    ultimately show ?case using tick_unchallenged(2) [OF Cons.prems, of t] by simp
  qed simp
  from this [OF set_caps_unchallenged(1) [OF assms(1)]] show ?thesis by (simp add: r'_def set_caps_unchallenged)
qed

end
